(* ===== verification/Writ_Prelude.thy ===== *)
theory Writ_Prelude
  imports Main "HOL-Library.Word" "HOL-Library.Sublist"
begin

text \<open>
  Shared vocabulary of the development: the result type with its bind (Rust's \<open>?\<close> operator),
  the string functions of Rust's standard library that the sources use, decimal rendering and
  parsing of integers, and the generic lemmas about them.

  A Rust \<open>String\<close>/\<open>&str\<close> is modelled by its UTF-8 bytes: \<open>str\<close> is a list of 8-bit
  characters, so \<open>as_bytes\<close>/\<open>into_bytes\<close> are the identity, and prefix, suffix, substring and
  equality tests agree with Rust's.  A \<open>Vec<u8>\<close> has the same type.
\<close>

type_synonym str = string
type_synonym bytes = string
type_synonym u8 = "8 word"

named_theorems result_simps \<open>elimination of binds from equations about results\<close>
named_theorems str_simps \<open>characterisations of the string functions\<close>

section \<open>Results\<close>

text \<open>\<open>Result<T, E>\<close> is \<open>'e + 'a\<close>: \<open>Inl\<close> is \<open>Err\<close>, \<open>Inr\<close> is \<open>Ok\<close>.\<close>

definition rbind :: "'e + 'a \<Rightarrow> ('a \<Rightarrow> 'e + 'b) \<Rightarrow> 'e + 'b" where
  "rbind r f = (case r of Inl e \<Rightarrow> Inl e | Inr a \<Rightarrow> f a)"

definition map_err :: "('e \<Rightarrow> 'f) \<Rightarrow> 'e + 'a \<Rightarrow> 'f + 'a" where
  "map_err g r = (case r of Inl e \<Rightarrow> Inl (g e) | Inr a \<Rightarrow> Inr a)"

definition ok_or :: "'a option \<Rightarrow> 'e \<Rightarrow> 'e + 'a" where
  "ok_or x e = (case x of None \<Rightarrow> Inl e | Some a \<Rightarrow> Inr a)"

definition ok :: "'e + 'a \<Rightarrow> 'a option" where
  "ok r = (case r of Inl _ \<Rightarrow> None | Inr a \<Rightarrow> Some a)"

text \<open>\<open>iter().map(f).collect::<Result<Vec<_>, _>>()\<close>: the first error wins.\<close>

fun collect_results :: "('a \<Rightarrow> 'e + 'b) \<Rightarrow> 'a list \<Rightarrow> 'e + 'b list" where
  "collect_results f [] = Inr []"
| "collect_results f (x # xs) =
     rbind (f x) (\<lambda>y. rbind (collect_results f xs) (\<lambda>ys. Inr (y # ys)))"

lemma rbind_Inl [simp, code]: "rbind (Inl e) f = Inl e"
  and rbind_Inr [simp, code]: "rbind (Inr a) f = f a"
  by (simp_all add: rbind_def)

lemma rbind_eq_Inr [result_simps]: "rbind r f = Inr b \<longleftrightarrow> (\<exists>a. r = Inr a \<and> f a = Inr b)"
  by (cases r) auto

lemma rbind_eq_Inl [result_simps]:
  "rbind r f = Inl e \<longleftrightarrow> r = Inl e \<or> (\<exists>a. r = Inr a \<and> f a = Inl e)"
  by (cases r) auto

lemma map_err_simps [simp, code]: "map_err g (Inl e) = Inl (g e)" "map_err g (Inr a) = Inr a"
  by (simp_all add: map_err_def)

lemma map_err_eq_Inr [simp]: "map_err g r = Inr a \<longleftrightarrow> r = Inr a"
  by (cases r) auto

lemma map_err_eq_Inl [result_simps]: "map_err g r = Inl e \<longleftrightarrow> (\<exists>e'. r = Inl e' \<and> e = g e')"
  by (cases r) auto

lemma ok_or_simps [simp, code]: "ok_or None e = Inl e" "ok_or (Some a) e = Inr a"
  by (simp_all add: ok_or_def)

lemma ok_or_eq_Inr [result_simps]: "ok_or x e = Inr a \<longleftrightarrow> x = Some a"
  by (cases x) auto

lemma ok_simps [simp, code]: "ok (Inl e) = None" "ok (Inr a) = Some a"
  by (simp_all add: ok_def)

lemma collect_results_eq_Inr:
  "collect_results f xs = Inr ys \<longleftrightarrow> list_all2 (\<lambda>x y. f x = Inr y) xs ys"
  by (induction xs arbitrary: ys)
     (auto simp: result_simps list_all2_Cons1)

lemma collect_results_map_Inr:
  "(\<And>x. x \<in> set xs \<Longrightarrow> f x = Inr (g x)) \<Longrightarrow> collect_results f xs = Inr (map g xs)"
  by (induction xs) auto

text \<open>
  Stateful fallible code takes the state and returns it with the result; \<open>sbind\<close> is \<open>?\<close> there:
  an error keeps the state reached so far.
\<close>

definition sbind :: "'s \<times> ('e + 'a) \<Rightarrow> ('a \<Rightarrow> 's \<Rightarrow> 's \<times> ('e + 'b)) \<Rightarrow> 's \<times> ('e + 'b)" where
  "sbind m f = (case m of (s, Inl e) \<Rightarrow> (s, Inl e) | (s, Inr a) \<Rightarrow> f a s)"

lemma sbind_simps [simp, code]: "sbind (s, Inl e) f = (s, Inl e)" "sbind (s, Inr a) f = f a s"
  by (simp_all add: sbind_def)

lemma sbind_eq_Inr [result_simps]:
  "sbind m f = (s', Inr b) \<longleftrightarrow> (\<exists>s a. m = (s, Inr a) \<and> f a s = (s', Inr b))"
  by (cases m; cases "snd m") auto

lemma sbind_eq_Inl [result_simps]:
  "sbind m f = (s', Inl e) \<longleftrightarrow> m = (s', Inl e) \<or> (\<exists>s a. m = (s, Inr a) \<and> f a s = (s', Inl e))"
  by (cases m; cases "snd m") auto

section \<open>Searching\<close>

lemma find_unique:
  assumes "x \<in> set xs" and "P x" and "\<And>y. y \<in> set xs \<Longrightarrow> P y \<Longrightarrow> y = x"
  shows "find P xs = Some x"
proof (cases "find P xs")
  case None
  with assms(1,2) show ?thesis by (auto simp: find_None_iff)
next
  case (Some y)
  then have "y \<in> set xs" "P y" by (auto simp: find_Some_iff)
  with Some assms(3) show ?thesis by simp
qed


section \<open>Strings\<close>

definition starts_with :: "str \<Rightarrow> str \<Rightarrow> bool" where
  "starts_with s p \<longleftrightarrow> take (length p) s = p"

definition ends_with :: "str \<Rightarrow> str \<Rightarrow> bool" where
  "ends_with s p \<longleftrightarrow> length p \<le> length s \<and> drop (length s - length p) s = p"

fun str_contains :: "str \<Rightarrow> str \<Rightarrow> bool" where
  "str_contains [] p = (p = [])"
| "str_contains (c # s) p = (starts_with (c # s) p \<or> str_contains s p)"

definition strip_prefix :: "str \<Rightarrow> str \<Rightarrow> str option" where
  "strip_prefix s p = (if starts_with s p then Some (drop (length p) s) else None)"

definition strip_suffix :: "str \<Rightarrow> str \<Rightarrow> str option" where
  "strip_suffix s p = (if ends_with s p then Some (take (length s - length p) s) else None)"

text \<open>\<open>split_once\<close>: the text before and after the first occurrence of the delimiter.\<close>

fun split_once :: "str \<Rightarrow> str \<Rightarrow> (str \<times> str) option" where
  "split_once [] p = (if p = [] then Some ([], []) else None)"
| "split_once (c # s) p =
     (if starts_with (c # s) p then Some ([], drop (length p) (c # s))
      else map_option (\<lambda>(a, b). (c # a, b)) (split_once s p))"

text \<open>\<open>str::split\<close> with a character predicate: never empty, \<open>""\<close> splits into one empty piece.\<close>

fun split_on :: "(char \<Rightarrow> bool) \<Rightarrow> str \<Rightarrow> str list" where
  "split_on P [] = [[]]"
| "split_on P (c # s) =
     (if P c then [] # split_on P s
      else (case split_on P s of [] \<Rightarrow> [[c]] | w # ws \<Rightarrow> (c # w) # ws))"

text \<open>\<open>rsplit_once\<close> on one character: the text before and after its last occurrence.\<close>

fun rsplit_once :: "str \<Rightarrow> char \<Rightarrow> (str \<times> str) option" where
  "rsplit_once [] d = None"
| "rsplit_once (c # s) d =
     (case rsplit_once s d of
        Some (a, b) \<Rightarrow> Some (c # a, b)
      | None \<Rightarrow> if c = d then Some ([], s) else None)"

fun join :: "str \<Rightarrow> str list \<Rightarrow> str" where
  "join sep [] = []"
| "join sep [w] = w"
| "join sep (w # ws) = w @ sep @ join sep ws"

text \<open>Punctuation of the messages, in UTF-8.\<close>

definition em_dash :: str where
  "em_dash = [CHR 0xE2, CHR 0x80, CHR 0x94]"

definition middot :: str where
  "middot = [CHR 0xC2, CHR 0xB7]"

definition code :: "char \<Rightarrow> nat" where
  "code c = of_char c"

definition ascii_lower :: "char \<Rightarrow> char" where
  "ascii_lower c = (if 65 \<le> code c \<and> code c \<le> 90 then char_of (code c + 32) else c)"

definition ascii_upper :: "char \<Rightarrow> char" where
  "ascii_upper c = (if 97 \<le> code c \<and> code c \<le> 122 then char_of (code c - 32) else c)"

definition to_ascii_lowercase :: "str \<Rightarrow> str" where
  "to_ascii_lowercase s = map ascii_lower s"

definition eq_ignore_ascii_case :: "str \<Rightarrow> str \<Rightarrow> bool" where
  "eq_ignore_ascii_case a b \<longleftrightarrow> to_ascii_lowercase a = to_ascii_lowercase b"

definition is_ascii_digit :: "char \<Rightarrow> bool" where
  "is_ascii_digit c \<longleftrightarrow> 48 \<le> code c \<and> code c \<le> 57"

definition is_ascii_alphanumeric :: "char \<Rightarrow> bool" where
  "is_ascii_alphanumeric c \<longleftrightarrow> is_ascii_digit c \<or> 65 \<le> code c \<and> code c \<le> 90 \<or> 97 \<le> code c \<and> code c \<le> 122"

text \<open>\<open>u8::is_ascii_whitespace\<close>: space, tab, LF, FF and CR (not VT).\<close>

definition is_ascii_whitespace :: "char \<Rightarrow> bool" where
  "is_ascii_whitespace c \<longleftrightarrow> code c \<in> {9, 10, 12, 13, 32}"

text \<open>
  \<open>char::is_whitespace\<close> is the Unicode property \<open>White_Space\<close>; these are the UTF-8 encodings
  of its 25 code points (U+0009..U+000D, U+0020, U+0085, U+00A0, U+1680, U+2000..U+200A,
  U+2028, U+2029, U+202F, U+205F, U+3000).
\<close>

definition whitespace_utf8 :: "str list" where
  "whitespace_utf8 =
     map (\<lambda>n. [char_of n]) [9 ::nat, 10, 11, 12, 13, 32] @
     map (\<lambda>n. [char_of (194::nat), char_of n]) [133::nat, 160] @
     [[char_of (225::nat), char_of (154::nat), char_of (128::nat)]] @
     map (\<lambda>n. [char_of (226::nat), char_of (128::nat), char_of n])
       [128::nat, 129, 130, 131, 132, 133, 134, 135, 136, 137, 138, 168, 169, 175] @
     [[char_of (226::nat), char_of (129::nat), char_of (159::nat)],
      [char_of (227::nat), char_of (128::nat), char_of (128::nat)]]"

fun trim_with :: "str list \<Rightarrow> nat \<Rightarrow> str \<Rightarrow> str" where
  "trim_with ws 0 s = s"
| "trim_with ws (Suc fuel) s =
     (case find (\<lambda>w. starts_with s w) ws of
        None \<Rightarrow> s
      | Some w \<Rightarrow> trim_with ws fuel (drop (length w) s))"

text \<open>
  Every step of \<open>trim_with\<close> drops at least one byte, so \<open>length s\<close> steps are enough.  The end
  of a string is trimmed on the reversed bytes.
\<close>

definition trim_start :: "str \<Rightarrow> str" where
  "trim_start s = trim_with whitespace_utf8 (length s) s"

definition trim_end :: "str \<Rightarrow> str" where
  "trim_end s = rev (trim_with (map rev whitespace_utf8) (length s) (rev s))"

definition trim :: "str \<Rightarrow> str" where
  "trim s = trim_end (trim_start s)"

text \<open>\<open>trim_matches\<close> / \<open>trim_end_matches\<close> on one character.\<close>

definition trim_end_matches :: "char \<Rightarrow> str \<Rightarrow> str" where
  "trim_end_matches c s = rev (dropWhile (\<lambda>x. x = c) (rev s))"

definition trim_matches :: "char \<Rightarrow> str \<Rightarrow> str" where
  "trim_matches c s = trim_end_matches c (dropWhile (\<lambda>x. x = c) s)"

subsection \<open>Characterisations\<close>

lemma starts_with_iff [str_simps]: "starts_with s p \<longleftrightarrow> (\<exists>t. s = p @ t)"
  by (auto simp: starts_with_def) (metis append_take_drop_id)

lemma starts_with_append [simp]: "starts_with (p @ t) p"
  by (simp add: starts_with_def)

lemma starts_with_Nil [simp]: "starts_with s []"
  by (simp add: starts_with_def)

lemma starts_with_Cons [simp]: "starts_with (c # s) (d # p) \<longleftrightarrow> c = d \<and> starts_with s p"
  by (simp add: starts_with_def)

lemma not_starts_with_Nil_Cons [simp]: "\<not> starts_with [] (d # p)"
  by (simp add: starts_with_def)

lemma ends_with_iff [str_simps]: "ends_with s p \<longleftrightarrow> (\<exists>t. s = t @ p)"
  by (auto simp: ends_with_def) (metis append_take_drop_id)

lemma strip_prefix_eq_Some [str_simps]: "strip_prefix s p = Some t \<longleftrightarrow> s = p @ t"
  by (auto simp: strip_prefix_def starts_with_def) (metis append_take_drop_id)

lemma strip_prefix_append [simp]: "strip_prefix (p @ t) p = Some t"
  by (simp add: str_simps)

lemma strip_suffix_eq_Some [str_simps]: "strip_suffix s p = Some t \<longleftrightarrow> s = t @ p"
  by (auto simp: strip_suffix_def ends_with_def) (metis append_take_drop_id)

lemma strip_suffix_append [simp]: "strip_suffix (t @ p) p = Some t"
  by (simp add: str_simps)

lemma str_contains_iff [str_simps]: "str_contains s p \<longleftrightarrow> (\<exists>a b. s = a @ p @ b)"
proof (induction s)
  case Nil
  show ?case by auto
next
  case (Cons c s)
  show ?case
  proof
    assume "str_contains (c # s) p"
    then show "\<exists>a b. c # s = a @ p @ b"
      using Cons.IH by (auto simp: starts_with_iff) (metis append_Nil append_Cons)+
  next
    assume "\<exists>a b. c # s = a @ p @ b"
    then obtain a b where "c # s = a @ p @ b" by blast
    then have "starts_with (c # s) p \<or> (\<exists>a b. s = a @ p @ b)"
      by (cases a) (auto simp: starts_with_iff)
    then show "str_contains (c # s) p"
      using Cons.IH by auto
  qed
qed

lemma split_on_not_Nil [simp]: "split_on P s \<noteq> []"
  by (induction s) (auto split: list.splits)

lemma split_on_no_match: "(\<And>c. c \<in> set s \<Longrightarrow> \<not> P c) \<Longrightarrow> split_on P s = [s]"
  by (induction s) auto

lemma split_on_append_sep:
  assumes "\<And>c. c \<in> set a \<Longrightarrow> \<not> P c" and "P d"
  shows "split_on P (a @ d # b) = a # split_on P b"
  using assms by (induction a) auto

lemma split_on_pieces: "w \<in> set (split_on P s) \<Longrightarrow> c \<in> set w \<Longrightarrow> \<not> P c \<and> c \<in> set s"
proof (induction s arbitrary: w)
  case (Cons d s)
  then show ?case
    by (cases "split_on P s") (fastforce split: if_splits)+
qed simp

lemma hd_split_on: "hd (split_on P s) = takeWhile (\<lambda>c. \<not> P c) s"
proof (induction s)
  case (Cons c s)
  then show ?case
    by (cases "split_on P s") auto
qed simp

lemma split_once_eq_Some:
  "split_once s p = Some (a, b) \<Longrightarrow> s = a @ p @ b"
  by (induction s arbitrary: a b) (auto simp: starts_with_iff split: if_splits)

lemma trim_with_length: "length (trim_with ws n s) \<le> length s"
proof (induction ws n s rule: trim_with.induct)
  case (2 ws fuel s)
  show ?case
  proof (cases "find (starts_with s) ws")
    case (Some w)
    with 2 have "length (trim_with ws fuel (drop (length w) s)) \<le> length (drop (length w) s)"
      by simp
    with Some show ?thesis by simp
  qed simp
qed simp

text \<open>Text without white space at the ends is not trimmed; printable ASCII never is.\<close>

definition is_printable :: "char \<Rightarrow> bool" where
  "is_printable c \<longleftrightarrow> 32 < code c \<and> code c < 127"

lemma whitespace_not_printable:
  "list_all (\<lambda>w. w \<noteq> [] \<and> list_all (\<lambda>c. \<not> is_printable c) w) whitespace_utf8"
  by code_simp

lemma trim_with_printable:
  assumes "s = [] \<or> is_printable (hd s)" and "\<And>w. w \<in> set ws \<Longrightarrow> w \<noteq> [] \<and> list_all (\<lambda>c. \<not> is_printable c) w"
  shows "trim_with ws n s = s"
proof -
  have "find (\<lambda>w. starts_with s w) ws = None"
    using assms by (cases s) (fastforce simp: find_None_iff neq_Nil_conv)+
  then show ?thesis by (cases n) simp_all
qed

lemma trim_printable:
  assumes "s = [] \<or> is_printable (hd s) \<and> is_printable (last s)"
  shows "trim s = s"
proof -
  have w: "w \<in> set whitespace_utf8 \<Longrightarrow> w \<noteq> [] \<and> list_all (\<lambda>c. \<not> is_printable c) w" for w
    using whitespace_not_printable by (simp add: list_all_iff)
  have "w \<in> set (map rev whitespace_utf8) \<Longrightarrow> w \<noteq> [] \<and> list_all (\<lambda>c. \<not> is_printable c) w" for w
    using w by auto
  then have "trim_with (map rev whitespace_utf8) (length s) (rev s) = rev s"
    using assms by (intro trim_with_printable) (auto simp: hd_rev)
  moreover have "trim_with whitespace_utf8 (length s) s = s"
    using assms w by (intro trim_with_printable) auto
  ultimately show ?thesis by (simp add: trim_def trim_start_def trim_end_def)
qed

section \<open>Decimal integers\<close>

definition digit :: "nat \<Rightarrow> char" where
  "digit d = char_of (48 + d)"

definition digit_val :: "char \<Rightarrow> nat" where
  "digit_val c = code c - 48"

text \<open>\<open>char::to_digit(16)\<close>.\<close>

definition hex_val :: "char \<Rightarrow> nat option" where
  "hex_val c =
     (if 48 \<le> code c \<and> code c \<le> 57 then Some (code c - 48)
      else if 97 \<le> code c \<and> code c \<le> 102 then Some (code c - 87)
      else if 65 \<le> code c \<and> code c \<le> 70 then Some (code c - 55)
      else None)"

fun show_nat :: "nat \<Rightarrow> str" where
  "show_nat n = (if n < 10 then [digit n] else show_nat (n div 10) @ [digit (n mod 10)])"

declare show_nat.simps [simp del]

definition show_int :: "int \<Rightarrow> str" where
  "show_int i = (if i < 0 then CHR ''-'' # show_nat (nat (- i)) else show_nat (nat i))"

definition digits_val :: "str \<Rightarrow> nat" where
  "digits_val s = foldl (\<lambda>n c. 10 * n + digit_val c) 0 s"

text \<open>\<open>u64::from_str\<close>: an optional plus sign, at least one digit, no overflow.\<close>

definition u64_max :: nat where
  "u64_max = 18446744073709551615"

definition parse_u64 :: "str \<Rightarrow> nat option" where
  "parse_u64 s =
     (let t = (case s of CHR ''+'' # t \<Rightarrow> t | _ \<Rightarrow> s)
      in if t \<noteq> [] \<and> list_all is_ascii_digit t \<and> digits_val t \<le> u64_max
         then Some (digits_val t) else None)"

text \<open>\<open>i64::from_str\<close>: an optional sign, at least one digit, no overflow.\<close>

definition parse_i64 :: "str \<Rightarrow> int option" where
  "parse_i64 s =
     (let (neg, t) = (case s of CHR ''-'' # t \<Rightarrow> (True, t) | CHR ''+'' # t \<Rightarrow> (False, t) | _ \<Rightarrow> (False, s));
          v = (if neg then - int (digits_val t) else int (digits_val t))
      in if t \<noteq> [] \<and> list_all is_ascii_digit t \<and> - (2 ^ 63) \<le> v \<and> v < 2 ^ 63
         then Some v else None)"

text \<open>\<open>format!("{:0w}", i)\<close>: zero padding after the sign.\<close>

definition pad0 :: "nat \<Rightarrow> str \<Rightarrow> str" where
  "pad0 w s = replicate (w - length s) (CHR ''0'') @ s"

definition fmt0 :: "nat \<Rightarrow> int \<Rightarrow> str" where
  "fmt0 w i = (if i < 0 then CHR ''-'' # pad0 (w - 1) (show_nat (nat (- i)))
               else pad0 w (show_nat (nat i)))"

lemma code_digit [simp]: "d < 10 \<Longrightarrow> code (digit d) = 48 + d"
  by (simp add: code_def digit_def)

lemma digit_val_digit [simp]: "d < 10 \<Longrightarrow> digit_val (digit d) = d"
  by (simp add: digit_val_def)

lemma is_ascii_digit_digit [simp]: "d < 10 \<Longrightarrow> is_ascii_digit (digit d)"
  by (simp add: is_ascii_digit_def)

lemma show_nat_digits: "list_all is_ascii_digit (show_nat n)"
  by (induction n rule: show_nat.induct) (subst show_nat.simps, auto)

lemma show_nat_not_Nil [simp]: "show_nat n \<noteq> []"
  by (subst show_nat.simps) auto

lemma digits_val_append_digit [simp]:
  "digits_val (s @ [c]) = 10 * digits_val s + digit_val c"
  by (simp add: digits_val_def)

lemma digits_val_show_nat [simp]: "digits_val (show_nat n) = n"
proof (induction n rule: show_nat.induct)
  case (1 n)
  show ?case
  proof (cases "n < 10")
    case True
    then show ?thesis by (subst show_nat.simps) (simp add: digits_val_def)
  next
    case False
    then show ?thesis using 1 by (subst show_nat.simps) simp
  qed
qed

lemma show_nat_inject [simp]: "show_nat m = show_nat n \<longleftrightarrow> m = n"
  by (metis digits_val_show_nat)

lemma is_ascii_digit_not_sign: "is_ascii_digit c \<Longrightarrow> c \<noteq> CHR ''+'' \<and> c \<noteq> CHR ''-''"
  by (auto simp: is_ascii_digit_def code_def)

lemma show_nat_hd_digit: "is_ascii_digit (hd (show_nat n))"
  using show_nat_digits [of n] by (cases "show_nat n") auto

lemma no_sign_case:
  assumes "is_ascii_digit (hd s)" and "s \<noteq> []"
  shows "(case s of CHR ''+'' # t \<Rightarrow> t | _ \<Rightarrow> s) = s"
    and "(case s of CHR ''-'' # t \<Rightarrow> (True, t) | CHR ''+'' # t \<Rightarrow> (False, t) | _ \<Rightarrow> (False, s)) = (False, s)"
  using assms is_ascii_digit_not_sign [of "hd s"]
  by (cases s; force split: char.splits bool.splits)+

lemma parse_u64_digits:
  assumes "s \<noteq> []" and "list_all is_ascii_digit s"
  shows "parse_u64 s = (if digits_val s \<le> u64_max then Some (digits_val s) else None)"
proof -
  have "is_ascii_digit (hd s)" using assms by (cases s) auto
  with assms show ?thesis by (simp add: parse_u64_def no_sign_case Let_def)
qed

lemma parse_i64_digits:
  assumes "s \<noteq> []" and "list_all is_ascii_digit s"
  shows "parse_i64 s = (if int (digits_val s) < 2 ^ 63 then Some (int (digits_val s)) else None)"
proof -
  have "is_ascii_digit (hd s)" using assms by (cases s) auto
  with assms show ?thesis by (simp add: parse_i64_def no_sign_case Let_def)
qed

lemma parse_u64_show_nat: "n \<le> u64_max \<Longrightarrow> parse_u64 (show_nat n) = Some n"
  by (simp add: parse_u64_digits show_nat_digits)

lemma digits_val_Cons_zero [simp]: "digits_val (CHR ''0'' # s) = digits_val s"
  by (simp add: digits_val_def digit_val_def code_def)

lemma digits_val_pad0 [simp]: "digits_val (pad0 w s) = digits_val s"
proof -
  have "digits_val (replicate k (CHR ''0'') @ s) = digits_val s" for k
    by (induction k) auto
  then show ?thesis by (simp add: pad0_def)
qed

lemma list_all_digit_pad0 [simp]:
  "list_all is_ascii_digit (pad0 w s) \<longleftrightarrow> list_all is_ascii_digit s"
  by (auto simp: pad0_def list_all_iff is_ascii_digit_def code_def)

lemma pad0_not_Nil [simp]: "s \<noteq> [] \<Longrightarrow> pad0 w s \<noteq> []"
  by (simp add: pad0_def)

lemma length_show_nat_le: "n < 10 ^ k \<Longrightarrow> 0 < k \<Longrightarrow> length (show_nat n) \<le> k"
proof (induction k arbitrary: n)
  case (Suc k)
  show ?case
  proof (cases "n < 10")
    case True
    then show ?thesis by (subst show_nat.simps) simp
  next
    case False
    have "k \<noteq> 0" using False Suc.prems by (cases k) auto
    moreover have "n div 10 < 10 ^ k" using Suc.prems by (simp add: less_mult_imp_div_less mult.commute)
    ultimately have "length (show_nat (n div 10)) \<le> k" using Suc.IH by simp
    with False show ?thesis by (subst show_nat.simps) simp
  qed
qed simp

lemma length_pad0: "length s \<le> w \<Longrightarrow> length (pad0 w s) = w"
  by (simp add: pad0_def)

end
