(* ===== verification/Writ_Time.thy ===== *)
theory Writ_Time
  imports Writ_Prelude
begin

text \<open>
  \<open>writ-core/src/time.rs\<close>: UTC timestamps, kept as epoch milliseconds (\<open>i64\<close>, here \<open>int\<close>) and
  written as \<open>YYYY-MM-DDTHH:MM:SSZ\<close>.  \<open>civil_from_days\<close> and the inline \<open>days_from_civil\<close> of the
  parser are Hinnant's calendar algorithms.  Rust's truncating division is \<open>div\<close> here: every
  dividend in the source is non-negative where \<open>/\<close> is used, and \<open>div_euclid\<close>/\<open>rem_euclid\<close> with a
  positive divisor are \<open>div\<close>/\<open>mod\<close>.
\<close>

record timestamp =
  epoch_ms :: int

definition from_epoch_ms :: "int \<Rightarrow> timestamp" where
  "from_epoch_ms ms = \<lparr>epoch_ms = ms\<rparr>"

definition civil_from_days :: "int \<Rightarrow> int \<times> int \<times> int" where
  "civil_from_days z0 =
     (let z = z0 + 719468;
          era = z div 146097;
          doe = z mod 146097;
          yoe = (doe - doe div 1460 + doe div 36524 - doe div 146096) div 365;
          y = yoe + era * 400;
          doy = doe - (365 * yoe + yoe div 4 - yoe div 100);
          mp = (5 * doy + 2) div 153;
          d = doy - (153 * mp + 2) div 5 + 1;
          m = (if mp < 10 then mp + 3 else mp - 9)
      in (if m \<le> 2 then y + 1 else y, m, d))"

definition to_rfc3339 :: "timestamp \<Rightarrow> str" where
  "to_rfc3339 t =
     (let secs = epoch_ms t div 1000;
          days = secs div 86400;
          day_secs = secs mod 86400;
          (y, m, d) = civil_from_days days
      in fmt0 4 y @ ''-'' @ fmt0 2 m @ ''-'' @ fmt0 2 d @ ''T'' @
         fmt0 2 (day_secs div 3600) @ '':'' @ fmt0 2 ((day_secs mod 3600) div 60) @ '':'' @
         fmt0 2 (day_secs mod 60) @ ''Z'')"

text \<open>The days computed at the end of \<open>parse_rfc3339\<close>.\<close>

definition days_from_civil :: "int \<Rightarrow> int \<Rightarrow> int \<Rightarrow> int" where
  "days_from_civil y mo d =
     (let yy = (if mo \<le> 2 then y - 1 else y);
          era = yy div 400;
          yoe = yy mod 400;
          mp = (if mo > 2 then mo - 3 else mo + 9);
          doy = (153 * mp + 2) div 5 + d - 1;
          doe = yoe * 365 + yoe div 4 - yoe div 100 + doy
      in era * 146097 + doe - 719468)"

text \<open>
  \<open>str::get(i..i + n)\<close>: \<open>None\<close> out of range or inside a multi-byte character (a continuation
  byte at either end).
\<close>

definition is_char_boundary :: "str \<Rightarrow> nat \<Rightarrow> bool" where
  "is_char_boundary s i \<longleftrightarrow>
     i = length s \<or> (i < length s \<and> \<not> (128 \<le> code (s ! i) \<and> code (s ! i) < 192))"

definition str_get :: "str \<Rightarrow> nat \<Rightarrow> nat \<Rightarrow> str option" where
  "str_get s i n =
     (if is_char_boundary s i \<and> is_char_boundary s (i + n) then Some (take n (drop i s)) else None)"

definition time_num :: "str \<Rightarrow> nat \<Rightarrow> nat \<Rightarrow> int option" where
  "time_num s i n = Option.bind (str_get s i n) parse_i64"

definition parse_rfc3339 :: "str \<Rightarrow> timestamp option" where
  "parse_rfc3339 s =
     (if length s \<noteq> 20 \<or> s ! 4 \<noteq> CHR ''-'' \<or> s ! 7 \<noteq> CHR ''-'' \<or> s ! 10 \<noteq> CHR ''T'' \<or> s ! 19 \<noteq> CHR ''Z''
      then None
      else case (time_num s 0 4, time_num s 5 2, time_num s 8 2) of
        (Some y, Some mo, Some d) \<Rightarrow>
          (case (time_num s 11 2, time_num s 14 2, time_num s 17 2) of
             (Some h, Some mi, Some sec) \<Rightarrow>
               if \<not> (1 \<le> mo \<and> mo \<le> 12) \<or> \<not> (1 \<le> d \<and> d \<le> 31) \<or> h > 23 \<or> mi > 59 \<or> sec > 60 then None
               else Some (from_epoch_ms
                      (((days_from_civil y mo d * 24 + h) * 3600 + mi * 60 + sec) * 1000))
           | _ \<Rightarrow> None)
      | _ \<Rightarrow> None)"

section \<open>The calendar algorithms are inverse to each other\<close>

text \<open>
  The year of the era is found by dividing a corrected day count by 365.  The corrected count is
  monotone in the day of the era, so it is enough to evaluate it at the first and the last day of
  each of the 400 years.
\<close>

definition corrected :: "int \<Rightarrow> int" where
  "corrected doe = doe - doe div 1460 + doe div 36524 - doe div 146096"

definition year_start :: "int \<Rightarrow> int" where
  "year_start yoe = 365 * yoe + yoe div 4 - yoe div 100"

definition year_last :: "int \<Rightarrow> int" where
  "year_last yoe = (if yoe = 399 then 146096 else year_start (yoe + 1) - 1)"

lemma corrected_Suc:
  assumes "0 \<le> x"
  shows "corrected x \<le> corrected (x + 1)"
proof -
  have a: "(x + 1) div 1460 \<le> x div 1460 + 1"
    using zdiv_mono1 [of "x + 1" "x + 1460" 1460] by simp
  define c c' where "c = x div 36524" and "c' = (x + 1) div 36524"
  have cc: "c \<le> c'" by (simp add: c_def c'_def zdiv_mono1)
  have e: "x div 146096 = c div 4" "(x + 1) div 146096 = c' div 4"
    using zdiv_zmult2_eq [of 4 x 36524] zdiv_zmult2_eq [of 4 "x + 1" 36524]
    by (simp_all add: c_def c'_def)
  have "c - c div 4 \<le> c' - c' div 4" using cc by presburger
  with a show ?thesis by (simp add: corrected_def e flip: c_def c'_def)
qed

lemma corrected_mono:
  assumes "0 \<le> x" and "x \<le> y"
  shows "corrected x \<le> corrected y"
  using assms(2,1)
proof (induction rule: int_ge_induct)
  case base
  show ?case by simp
next
  case (step i)
  then show ?case using corrected_Suc [of i] by simp
qed

lemma year_ends_checked:
  "list_all (\<lambda>y. 365 * y \<le> corrected (year_start y) \<and> corrected (year_last y) \<le> 365 * y + 364
                 \<and> year_last y - year_start y \<le> 365) [0..399]"
  by code_simp

lemma year_ends:
  assumes "0 \<le> y" and "y \<le> 399"
  shows "365 * y \<le> corrected (year_start y)" and "corrected (year_last y) \<le> 365 * y + 364"
    and "year_last y - year_start y \<le> 365"
  using year_ends_checked assms by (auto simp: list_all_iff)

lemma year_of_era:
  assumes "0 \<le> doe" and "doe < 146097"
  defines "yoe \<equiv> corrected doe div 365"
  shows "0 \<le> yoe" "yoe \<le> 399" "year_start yoe \<le> doe" "doe - year_start yoe \<le> 365"
proof -
  have c0: "corrected 0 \<le> corrected doe" using assms by (intro corrected_mono) auto
  have c1: "corrected doe \<le> corrected 146096" using assms by (intro corrected_mono) auto
  show y0: "0 \<le> yoe" using c0 by (simp add: yoe_def corrected_def)
  have "corrected 146096 = 145999" by (simp add: corrected_def)
  with c1 show y1: "yoe \<le> 399" by (simp add: yoe_def)
  have n: "365 * yoe \<le> corrected doe" "corrected doe \<le> 365 * yoe + 364"
    by (simp_all add: yoe_def)
  show "year_start yoe \<le> doe"
  proof (rule ccontr)
    assume "\<not> year_start yoe \<le> doe"
    then have lt: "doe < year_start yoe" by simp
    have p: "1 \<le> yoe" using lt assms y0 by (cases "yoe = 0") (auto simp: year_start_def)
    then have "year_last (yoe - 1) = year_start yoe - 1" using y1 by (simp add: year_last_def)
    then have "corrected doe \<le> corrected (year_last (yoe - 1))"
      using lt assms by (intro corrected_mono) auto
    also have "\<dots> \<le> 365 * (yoe - 1) + 364" using p y1 by (intro year_ends) auto
    finally show False using n by simp
  qed
  have "doe \<le> year_last yoe"
  proof (rule ccontr)
    assume "\<not> doe \<le> year_last yoe"
    then have gt: "year_last yoe < doe" by simp
    then have ne: "yoe \<noteq> 399" using assms by (auto simp: year_last_def)
    then have "year_start (yoe + 1) \<le> doe" using gt by (simp add: year_last_def)
    moreover have "0 \<le> year_start (yoe + 1)" using y0 by (simp add: year_start_def)
    ultimately have "corrected (year_start (yoe + 1)) \<le> corrected doe" by (intro corrected_mono)
    moreover have "365 * (yoe + 1) \<le> corrected (year_start (yoe + 1))"
      using y0 y1 ne by (intro year_ends) auto
    ultimately show False using n by simp
  qed
  then show "doe - year_start yoe \<le> 365" using year_ends(3) [OF y0 y1] by simp
qed

lemma month_of_year:
  fixes doy :: int
  assumes "0 \<le> doy" and "doy \<le> 365"
  defines "mp \<equiv> (5 * doy + 2) div 153"
  shows "0 \<le> mp" "mp \<le> 11" "0 \<le> doy - (153 * mp + 2) div 5" "doy - (153 * mp + 2) div 5 \<le> 30"
proof -
  define t where "t = (153 * mp + 2) div 5"
  have m: "153 * mp \<le> 5 * doy + 2" "5 * doy + 2 < 153 * mp + 153"
    by (simp_all add: mp_def)
  have t: "5 * t \<le> 153 * mp + 2" "153 * mp + 2 < 5 * t + 5"
    by (simp_all add: t_def)
  show "0 \<le> mp" "mp \<le> 11" using m assms by auto
  show "0 \<le> doy - (153 * mp + 2) div 5" "doy - (153 * mp + 2) div 5 \<le> 30"
    using m t by (auto simp: t_def [symmetric])
qed

lemma civil_from_days_parts:
  assumes "civil_from_days z = (y, m, d)"
  obtains era yoe doy mp where
    "z + 719468 = era * 146097 + (year_start yoe + doy)" "0 \<le> year_start yoe + doy"
    "year_start yoe + doy < 146097"
    "0 \<le> yoe" "yoe \<le> 399" "0 \<le> doy" "doy \<le> 365" "0 \<le> mp" "mp \<le> 11"
    "mp = (5 * doy + 2) div 153" "m = (if mp < 10 then mp + 3 else mp - 9)"
    "d = doy - (153 * mp + 2) div 5 + 1" "1 \<le> d" "d \<le> 31"
    "y = (if m \<le> 2 then yoe + era * 400 + 1 else yoe + era * 400)"
proof -
  define era where "era = (z + 719468) div 146097"
  define doe where "doe = (z + 719468) mod 146097"
  define yoe where "yoe = corrected doe div 365"
  define doy where "doy = doe - year_start yoe"
  define mp where "mp = (5 * doy + 2) div 153"
  define m' where "m' = (if mp < 10 then mp + 3 else mp - 9)"
  have doe: "0 \<le> doe" "doe < 146097" by (simp_all add: doe_def)
  note yb = year_of_era [OF doe, folded yoe_def]
  have doy: "0 \<le> doy" "doy \<le> 365" using yb by (simp_all add: doy_def)
  note mb = month_of_year [OF doy, folded mp_def]
  have "civil_from_days z =
      (if m' \<le> 2 then yoe + era * 400 + 1 else yoe + era * 400, m', doy - (153 * mp + 2) div 5 + 1)"
    by (simp only: civil_from_days_def Let_def era_def doe_def yoe_def doy_def mp_def m'_def
        corrected_def year_start_def)
  with assms have eq: "m = m'" "d = doy - (153 * mp + 2) div 5 + 1"
    "y = (if m \<le> 2 then yoe + era * 400 + 1 else yoe + era * 400)"
    by auto
  have sum: "year_start yoe + doy = doe" by (simp add: doy_def)
  have z: "z + 719468 = era * 146097 + doe" by (simp add: era_def doe_def)
  show thesis
  proof (rule that [of era yoe doy mp])
    show "1 \<le> d" "d \<le> 31" using mb(3,4) by (simp_all only: eq(2))
  qed (use z doe yb(1,2) doy mb(1,2) eq in \<open>simp_all only: sum mp_def m'_def\<close>)
qed

lemma civil_from_days_correct:
  assumes "civil_from_days z = (y, m, d)"
  shows "days_from_civil y m d = z" and "1 \<le> m" and "m \<le> 12" and "1 \<le> d" and "d \<le> 31"
proof -
  obtain era yoe doy mp where p:
    "z + 719468 = era * 146097 + (year_start yoe + doy)" "0 \<le> yoe" "yoe \<le> 399"
    "0 \<le> mp" "mp \<le> 11" "m = (if mp < 10 then mp + 3 else mp - 9)"
    "d = doy - (153 * mp + 2) div 5 + 1" "1 \<le> d" "d \<le> 31"
    "y = (if m \<le> 2 then yoe + era * 400 + 1 else yoe + era * 400)"
    by (rule civil_from_days_parts [OF assms])
  show "1 \<le> m" "m \<le> 12" "1 \<le> d" "d \<le> 31" using p(4,5,8,9) by (auto simp: p(6))
  have yy: "(if m \<le> 2 then y - 1 else y) = yoe + era * 400" by (simp add: p(10))
  have mp': "(if m > 2 then m - 3 else m + 9) = mp" using p(4,5) by (auto simp: p(6))
  have "(yoe + era * 400) div 400 = era" "(yoe + era * 400) mod 400 = yoe" using p(2,3) by simp_all
  then have "days_from_civil y m d = era * 146097 + (year_start yoe + doy) - 719468"
    by (simp add: days_from_civil_def Let_def yy mp' p(7) year_start_def algebra_simps)
  then show "days_from_civil y m d = z" using p(1) by simp
qed

lemma year_start_399 [simp]: "year_start 399 = 145731"
  by (simp add: year_start_def)

lemma year_start_le: "yoe \<le> 398 \<Longrightarrow> 0 \<le> yoe \<Longrightarrow> year_start yoe \<le> 145369"
  by (simp add: year_start_def)

lemma civil_year_range:
  assumes "civil_from_days z = (y, m, d)" and "- 719528 \<le> z" and "z \<le> 2932896"
  shows "0 \<le> y" and "y \<le> 9999"
proof -
  obtain era yoe doy mp where p:
    "z + 719468 = era * 146097 + (year_start yoe + doy)" "0 \<le> year_start yoe + doy"
    "year_start yoe + doy < 146097" "0 \<le> yoe" "yoe \<le> 399" "0 \<le> doy" "doy \<le> 365"
    "0 \<le> mp" "mp \<le> 11" "mp = (5 * doy + 2) div 153" "m = (if mp < 10 then mp + 3 else mp - 9)"
    "y = (if m \<le> 2 then yoe + era * 400 + 1 else yoe + era * 400)"
    by (rule civil_from_days_parts [OF assms(1)])
  have era: "- 1 \<le> era" "era \<le> 24" using p(1,2,3) assms(2,3) by auto
  show "0 \<le> y"
  proof (cases "era = - 1")
    case True
    then have "year_start yoe + doy \<ge> 146037" using p(1) assms(2) by simp
    with year_start_le [of yoe] p have "yoe = 399" by (cases "yoe \<le> 398") auto
    moreover from this have "doy \<ge> 306" using \<open>year_start yoe + doy \<ge> 146037\<close> by simp
    then have "mp \<ge> 10" by (simp add: p(10))
    ultimately show ?thesis using True p(9) by (simp add: p(11,12))
  next
    case False
    then show ?thesis using era p by auto
  qed
  show "y \<le> 9999"
  proof (cases "era = 24 \<and> yoe = 399")
    case True
    then have "doy \<le> 305" using p(1) assms(3) by simp
    then have "mp < 10" by (simp add: p(10))
    then show ?thesis using True p(8) by (simp add: p(11,12))
  next
    case False
    then show ?thesis using era p by (auto simp: p(12))
  qed
qed

section \<open>Rendering and parsing\<close>

lemma list_of_length_4: "length s = 4 \<Longrightarrow> \<exists>a b c d. s = [a, b, c, d]"
  by (auto simp: numeral_eq_Suc length_Suc_conv)

lemma list_of_length_2: "length s = 2 \<Longrightarrow> \<exists>a b. s = [a, b]"
  by (auto simp: numeral_eq_Suc length_Suc_conv)

lemma fmt0_digits:
  assumes "0 \<le> i" and "i < 10 ^ w" and "0 < w"
  shows "length (fmt0 w i) = w" and "list_all is_ascii_digit (fmt0 w i)"
    and "digits_val (fmt0 w i) = nat i"
proof -
  have "nat i < 10 ^ w" using assms by (simp add: nat_less_iff)
  then have "length (show_nat (nat i)) \<le> w" using assms by (intro length_show_nat_le) auto
  then show "length (fmt0 w i) = w" using assms by (simp add: fmt0_def length_pad0)
  show "list_all is_ascii_digit (fmt0 w i)" "digits_val (fmt0 w i) = nat i"
    using assms by (simp_all add: fmt0_def show_nat_digits)
qed

lemma fmt0_four:
  assumes "0 \<le> i" and "i \<le> 9999"
  obtains a b c d where "fmt0 4 i = [a, b, c, d]" "list_all is_ascii_digit [a, b, c, d]"
    "parse_i64 [a, b, c, d] = Some i"
proof -
  note f = fmt0_digits [of i 4]
  obtain a b c d where e: "fmt0 4 i = [a, b, c, d]"
    using list_of_length_4 [of "fmt0 4 i"] f(1) assms by auto
  have "parse_i64 (fmt0 4 i) = Some i"
    using f assms by (subst parse_i64_digits) (auto simp: e)
  then show thesis using that [OF e] f(2) assms by (simp add: e)
qed

lemma fmt0_two:
  assumes "0 \<le> i" and "i \<le> 99"
  obtains a b where "fmt0 2 i = [a, b]" "list_all is_ascii_digit [a, b]" "parse_i64 [a, b] = Some i"
proof -
  note f = fmt0_digits [of i 2]
  obtain a b where e: "fmt0 2 i = [a, b]"
    using list_of_length_2 [of "fmt0 2 i"] f(1) assms by auto
  have "parse_i64 (fmt0 2 i) = Some i"
    using f assms by (subst parse_i64_digits) (auto simp: e)
  then show thesis using that [OF e] f(2) assms by (simp add: e)
qed

lemma digit_not_continuation [simp]: "is_ascii_digit c \<Longrightarrow> \<not> 128 \<le> code c"
  by (simp add: is_ascii_digit_def)

lemma parse_rfc3339_fields:
  assumes "0 \<le> y" "y \<le> 9999" "1 \<le> mo" "mo \<le> 12" "1 \<le> d" "d \<le> 31"
    and "0 \<le> h" "h \<le> 23" "0 \<le> mi" "mi \<le> 59" "0 \<le> sec" "sec \<le> 59"
  shows "parse_rfc3339 (fmt0 4 y @ ''-'' @ fmt0 2 mo @ ''-'' @ fmt0 2 d @ ''T'' @
           fmt0 2 h @ '':'' @ fmt0 2 mi @ '':'' @ fmt0 2 sec @ ''Z'') =
         Some (from_epoch_ms (((days_from_civil y mo d * 24 + h) * 3600 + mi * 60 + sec) * 1000))"
proof -
  obtain y1 y2 y3 y4 where y: "fmt0 4 y = [y1, y2, y3, y4]"
    "list_all is_ascii_digit [y1, y2, y3, y4]" "parse_i64 [y1, y2, y3, y4] = Some y"
    using fmt0_four assms(1,2) by metis
  obtain o1 o2 where o: "fmt0 2 mo = [o1, o2]" "list_all is_ascii_digit [o1, o2]"
    "parse_i64 [o1, o2] = Some mo" using fmt0_two [of mo] assms(3,4) by auto
  obtain d1 d2 where d: "fmt0 2 d = [d1, d2]" "list_all is_ascii_digit [d1, d2]"
    "parse_i64 [d1, d2] = Some d" using fmt0_two [of d] assms(5,6) by auto
  obtain h1 h2 where h: "fmt0 2 h = [h1, h2]" "list_all is_ascii_digit [h1, h2]"
    "parse_i64 [h1, h2] = Some h" using fmt0_two [of h] assms(7,8) by auto
  obtain i1 i2 where i: "fmt0 2 mi = [i1, i2]" "list_all is_ascii_digit [i1, i2]"
    "parse_i64 [i1, i2] = Some mi" using fmt0_two [of mi] assms(9,10) by auto
  obtain s1 s2 where s: "fmt0 2 sec = [s1, s2]" "list_all is_ascii_digit [s1, s2]"
    "parse_i64 [s1, s2] = Some sec" using fmt0_two [of sec] assms(11,12) by auto
  have sep: "code (CHR ''-'') = 45" "code (CHR ''T'') = 84" "code (CHR '':'') = 58"
    "code (CHR ''Z'') = 90"
    by (simp_all add: code_def)
  define t where "t = [y1, y2, y3, y4] @ ''-'' @ [o1, o2] @ ''-'' @ [d1, d2] @ ''T'' @
    [h1, h2] @ '':'' @ [i1, i2] @ '':'' @ [s1, s2] @ ''Z''"
  have "time_num t 0 4 = Some y" "time_num t 5 2 = Some mo" "time_num t 8 2 = Some d"
    "time_num t 11 2 = Some h" "time_num t 14 2 = Some mi" "time_num t 17 2 = Some sec"
    using y(2,3) o(2,3) d(2,3) h(2,3) i(2,3) s(2,3)
    by (simp_all add: t_def time_num_def str_get_def is_char_boundary_def sep)
  then show ?thesis
    using assms unfolding y(1) o(1) d(1) h(1) i(1) s(1) t_def [symmetric]
    by (simp add: parse_rfc3339_def) (simp add: t_def)
qed

text \<open>
  Every timestamp from year 0 to year 9999 survives a round trip through its RFC 3339 text,
  up to the sub-second part that the text does not carry.
\<close>

theorem rfc3339_roundtrip:
  assumes "- 62167219200000 \<le> epoch_ms t" and "epoch_ms t < 253402300800000"
  shows "parse_rfc3339 (to_rfc3339 t) = Some (from_epoch_ms (epoch_ms t div 1000 * 1000))"
proof -
  define secs where "secs = epoch_ms t div 1000"
  define s where "s = secs mod 86400"
  obtain y m d where c: "civil_from_days (secs div 86400) = (y, m, d)"
    by (metis prod_cases3)
  have b: "- 719528 \<le> secs div 86400" "secs div 86400 \<le> 2932896"
    using assms by (simp_all add: secs_def) 
  note r = civil_year_range [OF c b] and k = civil_from_days_correct [OF c]
  have s: "0 \<le> s" "s < 86400" by (simp_all add: s_def)
  have "to_rfc3339 t = fmt0 4 y @ ''-'' @ fmt0 2 m @ ''-'' @ fmt0 2 d @ ''T'' @
     fmt0 2 (s div 3600) @ '':'' @ fmt0 2 ((s mod 3600) div 60) @ '':'' @ fmt0 2 (s mod 60) @ ''Z''"
    by (simp add: to_rfc3339_def Let_def c s_def flip: secs_def)
  also have "parse_rfc3339 \<dots> = Some (from_epoch_ms
     (((days_from_civil y m d * 24 + s div 3600) * 3600 + (s mod 3600) div 60 * 60 + s mod 60) * 1000))"
    by (rule parse_rfc3339_fields) (use r k s in \<open>auto simp: pos_imp_zdiv_nonneg_iff\<close>)
  also have "(days_from_civil y m d * 24 + s div 3600) * 3600 + (s mod 3600) div 60 * 60 + s mod 60 =
      secs div 86400 * 86400 + (s div 3600 * 3600 + ((s mod 3600) div 60 * 60 + s mod 60))"
    by (simp add: k(1))
  also have "(s mod 3600) div 60 * 60 + s mod 60 = s mod 3600"
  proof -
    have "s mod 60 = (s mod 3600) mod 60" by (simp add: mod_mod_cancel)
    then show ?thesis by simp
  qed
  also have "s div 3600 * 3600 + s mod 3600 = s" by simp
  also have "secs div 86400 * 86400 + s = secs" by (simp add: s_def)
  finally show ?thesis by (simp add: secs_def)
qed

theorem rfc3339_roundtrip_witness:
  "parse_rfc3339 (to_rfc3339 (from_epoch_ms 1700000000123)) = Some (from_epoch_ms 1700000000000)"
  using rfc3339_roundtrip [of "from_epoch_ms 1700000000123"] by (simp add: from_epoch_ms_def)

text \<open>
  The parser is more lenient than the format it documents: it checks neither the two colons
  nor the sign of the fields, so a text with negative hours, minutes and seconds is read as the
  instant just before the named day.
\<close>

theorem parse_rfc3339_signed_fields:
  "parse_rfc3339 ''2024-01-01T-1_-1_-1Z'' = Some (from_epoch_ms 1704063539000)
   \<and> parse_rfc3339 ''2024-01-01T00:00:00Z'' = Some (from_epoch_ms 1704067200000)"
  by code_simp

end
