(* ===== verification/Writ_Call.thy ===== *)
theory Writ_Call
  imports Writ_Time
begin

text \<open>
  The contract types of \<open>writ-core\<close>: JSON values (\<open>serde_json::Value\<close>), the intercepted call and
  its evaluation view (\<open>call.rs\<close>), verdicts (\<open>verdict.rs\<close>), approvals (\<open>approver.rs\<close>) and the
  shared error type (\<open>error.rs\<close>).
\<close>

section \<open>JSON values\<close>

text \<open>
  \<open>serde_json::Number\<close> is an unsigned, a negative or a floating-point number; the sources never
  look inside a float, which is kept as its text.  An object is its list of entries (keys are
  unique in \<open>serde_json::Map\<close>).
\<close>

datatype json_num = PosInt nat | NegInt int | Float str

datatype json = JNull | JBool bool | JNum json_num | JStr str | JArr "json list"
  | JObj "(str \<times> json) list"

fun json_get :: "json \<Rightarrow> str \<Rightarrow> json option" where
  "json_get (JObj kvs) k = map_of kvs k"
| "json_get _ k = None"

fun as_str :: "json \<Rightarrow> str option" where
  "as_str (JStr s) = Some s"
| "as_str _ = None"

fun as_array :: "json \<Rightarrow> json list option" where
  "as_array (JArr xs) = Some xs"
| "as_array _ = None"

section \<open>Errors\<close>

text \<open>\<open>error.rs\<close>: the message of an I/O or serde error is the text the library gives it.\<close>

datatype writ_error = PolicyErr str | LedgerErr str | SandboxErr str | InterceptErr str
  | ApprovalErr str | IoErr str | SerdeErr str

fun show_writ_error :: "writ_error \<Rightarrow> str" where
  "show_writ_error (PolicyErr m) = ''policy error: '' @ m"
| "show_writ_error (LedgerErr m) = ''ledger error: '' @ m"
| "show_writ_error (SandboxErr m) = ''sandbox error: '' @ m"
| "show_writ_error (InterceptErr m) = ''interception error: '' @ m"
| "show_writ_error (ApprovalErr m) = ''approval error: '' @ m"
| "show_writ_error (IoErr m) = ''io error: '' @ m"
| "show_writ_error (SerdeErr m) = ''serialization error: '' @ m"

section \<open>Tool calls\<close>

datatype intercept_mode = Mcp | ProcessWrap | SdkHook

record caller_identity =
  agent :: str
  agent_version :: "str option"
  user :: "str option"
  non_human_id :: "str option"

record server_identity =
  srv_name :: str
  srv_transport :: str
  srv_version :: "str option"

datatype trust_verdict = Verified | Unverified | Malicious

record tool_call =
  tc_call_id :: str
  tc_session_id :: str
  tc_caller :: caller_identity
  tc_mode :: intercept_mode
  tc_tool :: str
  tc_args :: json
  tc_server :: "server_identity option"
  tc_trust :: "trust_verdict option"
  tc_captured_at :: timestamp

record tool_call_context =
  ctx_tool :: str
  ctx_command :: "str option"
  ctx_path :: "str option"
  ctx_url_host :: "str option"
  ctx_query :: "str option"
  ctx_server :: "str option"
  ctx_trust :: "str option"
  ctx_mode :: intercept_mode
  ctx_agent :: str

text \<open>\<open>#[serde(rename_all = "lowercase")]\<close> on \<open>TrustVerdict\<close>.\<close>

fun trust_str :: "trust_verdict \<Rightarrow> str" where
  "trust_str Verified = ''verified''"
| "trust_str Unverified = ''unverified''"
| "trust_str Malicious = ''malicious''"

text \<open>\<open>find_map\<close> over the candidate keys: the first key whose value is a string.\<close>

fun get_str :: "json \<Rightarrow> str list \<Rightarrow> str option" where
  "get_str args [] = None"
| "get_str args (k # ks) =
     (case Option.bind (json_get args k) as_str of Some s \<Rightarrow> Some s | None \<Rightarrow> get_str args ks)"

definition has_whitespace :: "str \<Rightarrow> bool" where
  "has_whitespace s \<longleftrightarrow> list_ex (str_contains s) whitespace_utf8"

definition extract_host :: "str \<Rightarrow> str option" where
  "extract_host url =
     (let no_scheme = (case split_once url ''://'' of Some (_, rest) \<Rightarrow> rest | None \<Rightarrow> url);
          host = hd (split_on (\<lambda>c. c = CHR '':'')
                   (hd (split_on (\<lambda>c. c \<in> {CHR ''/'', CHR ''?'', CHR ''#''}) no_scheme)))
      in if host = [] \<or> has_whitespace host
            \<or> list_ex (\<lambda>c. c \<in> {CHR ''<'', CHR ''>'', CHR 0x22, CHR 0x27}) host
         then None else Some host)"

definition from_call :: "tool_call \<Rightarrow> tool_call_context" where
  "from_call call =
     \<lparr>ctx_tool = tc_tool call,
      ctx_command = get_str (tc_args call) [''command'', ''cmd''],
      ctx_path = get_str (tc_args call) [''path'', ''file_path'', ''file''],
      ctx_url_host = Option.bind (get_str (tc_args call) [''url'', ''uri'']) extract_host,
      ctx_query = get_str (tc_args call) [''query'', ''sql''],
      ctx_server = map_option srv_name (tc_server call),
      ctx_trust = map_option trust_str (tc_trust call),
      ctx_mode = tc_mode call,
      ctx_agent = agent (tc_caller call)\<rparr>"

section \<open>Verdicts\<close>

text \<open>
  \<open>Allow rule_id\<close>, \<open>Deny rule_id reason location\<close>,
  \<open>Ask rule_id diff timeout_ms irreversible location\<close>, \<open>Redact rule_id patterns\<close>.
\<close>

datatype verdict =
    Allow "str option"
  | Deny str str "str option"
  | Ask str str "nat option" bool "str option"
  | Redact str "str list"

fun verdict_rule_id :: "verdict \<Rightarrow> str option" where
  "verdict_rule_id (Allow r) = r"
| "verdict_rule_id (Deny r _ _) = Some r"
| "verdict_rule_id (Ask r _ _ _ _) = Some r"
| "verdict_rule_id (Redact r _) = Some r"

fun is_allow :: "verdict \<Rightarrow> bool" where
  "is_allow (Allow _) = True"
| "is_allow _ = False"

fun is_irreversible :: "verdict \<Rightarrow> bool" where
  "is_irreversible (Ask _ _ _ irr _) = irr"
| "is_irreversible _ = False"

datatype default_verdict_kind = DefaultAllow | DefaultAsk | DefaultDeny

section \<open>Approvals\<close>

datatype approval_decision = AllowOnce | AlwaysAllowRule | DenyOnce | EditArgs json

datatype approver_kind = Tui | OutOfBand | Rbac

record approver_identity =
  apr_kind :: approver_kind
  apr_id :: str

record approval_outcome =
  out_decision :: approval_decision
  out_approver :: approver_identity
  out_waited_ms :: nat

record ask_view =
  ask_rule_id :: str
  ask_diff :: str
  ask_timeout_ms :: "nat option"
  ask_irreversible :: bool

fun ask_from_verdict :: "verdict \<Rightarrow> ask_view option" where
  "ask_from_verdict (Ask r d t i _) =
     Some \<lparr>ask_rule_id = r, ask_diff = d, ask_timeout_ms = t, ask_irreversible = i\<rparr>"
| "ask_from_verdict _ = None"

text \<open>An \<open>Approver\<close> is its \<open>request\<close> method.\<close>

type_synonym approver = "tool_call \<Rightarrow> ask_view \<Rightarrow> writ_error + approval_outcome"

text \<open>\<open>{:?}\<close> of an \<open>Option<u64>\<close>.\<close>

fun debug_opt_u64 :: "nat option \<Rightarrow> str" where
  "debug_opt_u64 None = ''None''"
| "debug_opt_u64 (Some n) = ''Some('' @ show_nat n @ '')''"

definition fail_closed_approver :: approver where
  "fail_closed_approver call ask =
     Inr \<lparr>out_decision = DenyOnce,
          out_approver = \<lparr>apr_kind = OutOfBand,
            apr_id = ''fail-closed(timeout='' @ debug_opt_u64 (ask_timeout_ms ask) @ '')''\<rparr>,
          out_waited_ms = 0\<rparr>"

section \<open>Host extraction\<close>

lemma hd_split_on_append:
  assumes "\<And>c. c \<in> set a \<Longrightarrow> \<not> P c" and "b = [] \<or> P (hd b)"
  shows "hd (split_on P (a @ b)) = a"
proof (cases b)
  case Nil
  then show ?thesis using assms by (simp add: split_on_no_match)
next
  case (Cons d b')
  then show ?thesis using assms by (simp add: split_on_append_sep)
qed

lemma split_once_scheme:
  assumes "CHR '':'' \<notin> set s"
  shows "split_once (s @ ''://'' @ r) ''://'' = Some (s, r)"
  using assms by (induction s) auto

definition host_char :: "char \<Rightarrow> bool" where
  "host_char c \<longleftrightarrow> c \<notin> {CHR ''/'', CHR ''?'', CHR ''#'', CHR '':'', CHR ''<'', CHR ''>'', CHR 0x22, CHR 0x27}"

lemma extract_host_chars:
  assumes "extract_host url = Some h"
  shows "h \<noteq> []" and "\<forall>c \<in> set h. host_char c" and "\<not> has_whitespace h"
proof -
  obtain r where "h = hd (split_on (\<lambda>c. c = CHR '':'')
      (hd (split_on (\<lambda>c. c \<in> {CHR ''/'', CHR ''?'', CHR ''#''}) r)))"
    and nw: "\<not> has_whitespace h" "h \<noteq> []" "\<not> list_ex (\<lambda>c. c \<in> {CHR ''<'', CHR ''>'', CHR 0x22, CHR 0x27}) h"
    using assms by (auto simp: extract_host_def Let_def split: if_splits)
  then have h: "h = takeWhile (\<lambda>c. c \<noteq> CHR '':'')
      (takeWhile (\<lambda>c. c \<notin> {CHR ''/'', CHR ''?'', CHR ''#''}) r)"
    by (simp add: hd_split_on)
  then have "\<forall>c \<in> set h. c \<noteq> CHR '':'' \<and> c \<notin> {CHR ''/'', CHR ''?'', CHR ''#''}"
    by (auto simp only: h dest!: set_takeWhileD)
  with nw(3) show "\<forall>c \<in> set h. host_char c"
    by (auto simp: host_char_def list_ex_iff)
  show "h \<noteq> []" "\<not> has_whitespace h" using nw by auto
qed

text \<open>
  Host extraction, as the policy engine sees it: for a URL whose authority is a plain host,
  optionally followed by a port, path, query or fragment, the extracted host is that host.
\<close>

theorem extract_host_correct:
  assumes "CHR '':'' \<notin> set scheme" and "h \<noteq> []" and "list_all host_char h" and "\<not> has_whitespace h"
    and "t = [] \<or> hd t \<in> {CHR ''/'', CHR ''?'', CHR ''#'', CHR '':''}"
  shows "extract_host (scheme @ ''://'' @ h @ t) = Some h"
proof -
  let ?sep = "\<lambda>c. c \<in> {CHR ''/'', CHR ''?'', CHR ''#''}"
  define w where "w = takeWhile (\<lambda>c. \<not> ?sep c) t"
  have hh: "takeWhile (\<lambda>c. \<not> ?sep c) (h @ t) = h @ w"
    using assms(3) by (auto simp: w_def takeWhile_append host_char_def list_all_iff)
  have "w = [] \<or> hd w = CHR '':''" using assms(5) by (cases t) (auto simp: w_def)
  then have "hd (split_on (\<lambda>c. c = CHR '':'') (h @ w)) = h"
    using assms(3) by (intro hd_split_on_append) (auto simp: host_char_def list_all_iff)
  moreover have "hd (split_on ?sep (h @ t)) = h @ w"
    by (simp only: hd_split_on hh)
  moreover have "\<not> list_ex (\<lambda>c. c \<in> {CHR ''<'', CHR ''>'', CHR 0x22, CHR 0x27}) h"
    using assms(3) by (auto simp: list_all_iff list_ex_iff host_char_def)
  ultimately show ?thesis
    unfolding extract_host_def Let_def split_once_scheme [OF assms(1)] option.case prod.case
    using assms(2,4) by (simp only: if_False simp_thms)
qed

theorem extract_host_correct_witness:
  "extract_host ''http://a.internal:8080/p?q=1'' = Some ''a.internal''"
proof -
  have "extract_host (''http'' @ ''://'' @ ''a.internal'' @ '':8080/p?q=1'') = Some ''a.internal''"
    by (rule extract_host_correct) code_simp+
  then show ?thesis by simp
qed

text \<open>
  The host the policy sees need not be the host the request goes to: user information in the
  authority is taken for the host.  With the URL below an \<open>in hosts.allowed\<close> rule is asked about
  \<open>api.github.com\<close>, while a client following RFC 3986 connects to \<open>evil.example\<close>.
\<close>

theorem extract_host_userinfo:
  "extract_host ''https://api.github.com:x@evil.example/'' = Some ''api.github.com''"
  by code_simp

end
