(* ===== verification/Policy_Lang.thy ===== *)
theory Policy_Lang
  imports Writ_Call
begin

text \<open>
  The \<open>when\<close> language of \<open>writ.yaml\<close>: its abstract syntax (\<open>writ-policy/src/ast.rs\<close>), the byte
  lexer and the recursive-descent parser (\<open>writ-policy/src/parser.rs\<close>).  Each error site of the
  parser is a constructor of \<open>parse_error\<close>; its arguments are what the message interpolates.
\<close>

section \<open>Abstract syntax\<close>

datatype field = FTool | FCommand | FPath | FUrlHost | FQuery | FAgent | FMode | FServer | FTrust
  | FUnknown

definition field_from_name :: "str \<Rightarrow> field" where
  "field_from_name name =
     (if name = ''tool'' then FTool
      else if name = ''command'' then FCommand
      else if name = ''path'' then FPath
      else if name = ''url_host'' \<or> name = ''url.host'' then FUrlHost
      else if name = ''query'' then FQuery
      else if name = ''agent'' then FAgent
      else if name = ''mode'' then FMode
      else if name = ''server'' then FServer
      else if name = ''trust'' \<or> name = ''server.trust'' then FTrust
      else FUnknown)"

datatype raw_op = REq str | RNe str | RStartsWith str | REndsWith str | RContains str | RMatches str

datatype raw_predicate = RCompare field raw_op | RIn field str

datatype raw_expr = ROr raw_expr raw_expr | RAnd raw_expr raw_expr | RNot raw_expr
  | RPred raw_predicate

section \<open>Lexer\<close>

datatype tok = TIdent str | TStr str | TEqEq | TNe | TLParen | TRParen

datatype parse_error =
    BareEquals nat                \<comment> \<open>column\<close>
  | BareBang nat
  | UnexpectedChar nat char
  | UnterminatedString nat
  | UnterminatedEscape nat
  | EmptyWhen
  | TrailingToken tok
  | ExpectedRParen "tok option"
  | ExpectedField "tok option"
  | ExpectedListRef "tok option"
  | UnknownOperator str
  | ExpectedOperator "tok option"
  | ExpectedString "tok option"

text \<open>
  The lexer looks at \<open>self.src[self.pos] as char\<close>, one byte at a time: the byte is read as the
  Unicode code point of the same number (Latin-1).
\<close>

definition latin1_whitespace :: "char \<Rightarrow> bool" where
  "latin1_whitespace c \<longleftrightarrow> (9 \<le> code c \<and> code c \<le> 13) \<or> code c \<in> {32, 133, 160}"

definition latin1_alphabetic :: "char \<Rightarrow> bool" where
  "latin1_alphabetic c \<longleftrightarrow>
     (65 \<le> code c \<and> code c \<le> 90) \<or> (97 \<le> code c \<and> code c \<le> 122) \<or> code c \<in> {170, 181, 186} \<or>
     (192 \<le> code c \<and> code c \<noteq> 215 \<and> code c \<noteq> 247)"

definition latin1_numeric :: "char \<Rightarrow> bool" where
  "latin1_numeric c \<longleftrightarrow> (48 \<le> code c \<and> code c \<le> 57) \<or> code c \<in> {178, 179, 185, 188, 189, 190}"

definition ident_char :: "char \<Rightarrow> bool" where
  "ident_char c \<longleftrightarrow> latin1_alphabetic c \<or> latin1_numeric c \<or> c = CHR ''_'' \<or> c = CHR ''.'' \<or> c = CHR ''-''"

text \<open>\<open>String::push(byte as char)\<close>: the UTF-8 encoding of a Latin-1 code point.\<close>

definition push_char :: "char \<Rightarrow> str" where
  "push_char c = (if code c < 128 then [c]
                  else [char_of (192 + code c div 64), char_of (128 + code c mod 64)])"

text \<open>
  \<open>String::from_utf8_lossy\<close>: valid sequences are kept, every maximal invalid prefix becomes
  U+FFFD.  \<open>utf8_width\<close> gives the number of bytes taken and whether they are valid.
\<close>

definition byte_at :: "str \<Rightarrow> nat \<Rightarrow> nat" where
  "byte_at s i = (if i < length s then code (s ! i) else 0)"

definition is_cont :: "nat \<Rightarrow> bool" where
  "is_cont b \<longleftrightarrow> 128 \<le> b \<and> b < 192"

definition utf8_width :: "str \<Rightarrow> nat \<times> bool" where
  "utf8_width s =
     (let b0 = byte_at s 0; b1 = byte_at s 1; b2 = byte_at s 2; b3 = byte_at s 3
      in if b0 < 128 then (1, True)
         else if 194 \<le> b0 \<and> b0 \<le> 223 then (if is_cont b1 then (2, True) else (1, False))
         else if 224 \<le> b0 \<and> b0 \<le> 239 then
           (if \<not> ((b0 = 224 \<and> 160 \<le> b1 \<and> b1 \<le> 191) \<or> (225 \<le> b0 \<and> b0 \<le> 236 \<and> 128 \<le> b1 \<and> b1 \<le> 191)
                  \<or> (b0 = 237 \<and> 128 \<le> b1 \<and> b1 \<le> 159) \<or> (238 \<le> b0 \<and> 128 \<le> b1 \<and> b1 \<le> 191))
            then (1, False) else if \<not> is_cont b2 then (2, False) else (3, True))
         else if 240 \<le> b0 \<and> b0 \<le> 244 then
           (if \<not> ((b0 = 240 \<and> 144 \<le> b1 \<and> b1 \<le> 191) \<or> (241 \<le> b0 \<and> b0 \<le> 243 \<and> 128 \<le> b1 \<and> b1 \<le> 191)
                  \<or> (b0 = 244 \<and> 128 \<le> b1 \<and> b1 \<le> 143))
            then (1, False) else if \<not> is_cont b2 then (2, False)
            else if \<not> is_cont b3 then (3, False) else (4, True))
         else (1, False))"

definition replacement_char :: str where
  "replacement_char = [char_of (239::nat), char_of (191::nat), char_of (189::nat)]"

fun utf8_lossy_fuel :: "nat \<Rightarrow> str \<Rightarrow> str" where
  "utf8_lossy_fuel 0 s = []"
| "utf8_lossy_fuel (Suc n) s =
     (if s = [] then []
      else let (w, valid) = utf8_width s
           in (if valid then take w s else replacement_char) @ utf8_lossy_fuel n (drop w s))"

text \<open>Every step consumes at least one byte, so \<open>length s\<close> steps cover the input.\<close>

definition from_utf8_lossy :: "str \<Rightarrow> str" where
  "from_utf8_lossy s = utf8_lossy_fuel (length s) s"

fun skip_ws :: "nat \<Rightarrow> str \<Rightarrow> nat \<times> str" where
  "skip_ws pos [] = (pos, [])"
| "skip_ws pos (c # s) = (if latin1_whitespace c then skip_ws (Suc pos) s else (pos, c # s))"

definition unescape :: "char \<Rightarrow> str" where
  "unescape e =
     (if e = CHR 0x22 then [CHR 0x22]
      else if e = CHR 0x5C then [CHR 0x5C]
      else if e = CHR ''n'' then [CHR 0x0A]
      else if e = CHR ''t'' then [CHR 0x09]
      else if e = CHR ''r'' then [CHR 0x0D]
      else CHR 0x5C # push_char e)"

text \<open>The body of a string literal, after the opening quote; \<open>out\<close> is the text so far.\<close>

fun lex_string :: "nat \<Rightarrow> str \<Rightarrow> str \<Rightarrow> parse_error + tok \<times> nat \<times> str" where
  "lex_string pos [] out = Inl (UnterminatedString (pos + 1))"
| "lex_string pos (c # s) out =
     (if c = CHR 0x22 then Inr (TStr out, pos + 1, s)
      else if c = CHR 0x5C then
        (case s of [] \<Rightarrow> Inl (UnterminatedEscape (pos + 2))
         | e # s' \<Rightarrow> lex_string (pos + 2) s' (out @ unescape e))
      else lex_string (pos + 1) s (out @ push_char c))"

definition lex_ident :: "nat \<Rightarrow> str \<Rightarrow> tok \<times> nat \<times> str" where
  "lex_ident pos s =
     (let w = takeWhile ident_char s
      in (TIdent (from_utf8_lossy w), pos + length w, drop (length w) s))"

text \<open>\<open>Lexer::next\<close>, after \<open>skip_ws\<close>.\<close>

definition lex_token :: "nat \<Rightarrow> str \<Rightarrow> parse_error + (tok \<times> nat \<times> str) option" where
  "lex_token pos s =
     (case s of
        [] \<Rightarrow> Inr None
      | c # s' \<Rightarrow>
          if c = CHR ''('' then Inr (Some (TLParen, pos + 1, s'))
          else if c = CHR '')'' then Inr (Some (TRParen, pos + 1, s'))
          else if c = CHR ''='' then
            (if starts_with s' ''='' then Inr (Some (TEqEq, pos + 2, drop 1 s'))
             else Inl (BareEquals (pos + 1)))
          else if c = CHR ''!'' then
            (if starts_with s' ''='' then Inr (Some (TNe, pos + 2, drop 1 s'))
             else Inl (BareBang (pos + 1)))
          else if c = CHR 0x22 then rbind (lex_string (pos + 1) s' []) (\<lambda>r. Inr (Some r))
          else if latin1_alphabetic c \<or> c = CHR ''_'' then Inr (Some (lex_ident pos s))
          else Inl (UnexpectedChar (pos + 1) c))"

definition lex_next :: "nat \<Rightarrow> str \<Rightarrow> parse_error + (tok \<times> nat \<times> str) option" where
  "lex_next pos s = (case skip_ws pos s of (pos', s') \<Rightarrow> lex_token pos' s')"

lemma skip_ws_length: "skip_ws p s = (p', s') \<Longrightarrow> length s' \<le> length s"
  by (induction p s rule: skip_ws.induct) (auto split: if_splits)

lemma lex_string_length: "lex_string p s out = Inr (t, p', s') \<Longrightarrow> length s' < length s"
proof (induction p s out rule: lex_string.induct)
  case (2 pos c s out)
  then show ?case by (fastforce split: if_splits list.splits)
qed simp

lemma lex_ident_length:
  assumes "lex_ident p (c # s) = (t, p', s')" and "ident_char c"
  shows "length s' \<le> length s"
  using assms by (auto simp: lex_ident_def Let_def)

lemma lex_token_length:
  assumes "lex_token p (c # s) = Inr (Some (t, p', s'))"
  shows "length s' \<le> length s"
proof (cases "latin1_alphabetic c \<or> c = CHR ''_''")
  case True
  then have "ident_char c" by (auto simp: ident_char_def)
  then show ?thesis
    using assms lex_ident_length [of p c s t p' s'] lex_string_length [of "p + 1" s "[]" t p' s']
    by (auto simp: lex_token_def result_simps split: if_splits)
next
  case False
  then show ?thesis
    using assms lex_string_length [of "p + 1" s "[]" t p' s']
    by (auto simp: lex_token_def result_simps split: if_splits)
qed

lemma lex_next_length:
  assumes "lex_next p s = Inr (Some (t, p', s'))"
  shows "length s' < length s"
proof -
  obtain q r where sk: "skip_ws p s = (q, r)" by (cases "skip_ws p s")
  obtain c r' where r: "r = c # r'"
    using assms by (cases r) (auto simp: lex_next_def sk lex_token_def)
  have "length s' \<le> length r'" using assms by (intro lex_token_length) (auto simp: lex_next_def sk r)
  with skip_ws_length [OF sk] r show ?thesis by simp
qed

function lex_all :: "nat \<Rightarrow> str \<Rightarrow> parse_error + tok list" where
  "lex_all p s =
     (case lex_next p s of
        Inl e \<Rightarrow> Inl e
      | Inr None \<Rightarrow> Inr []
      | Inr (Some (t, p', s')) \<Rightarrow> rbind (lex_all p' s') (\<lambda>ts. Inr (t # ts)))"
  by pat_completeness auto
termination
  by (relation "measure (\<lambda>(p, s). length s)") (auto dest: lex_next_length)

declare lex_all.simps [simp del]

section \<open>Parser\<close>

text \<open>
  The parser's state \<open>(toks, pos)\<close> is the list of the tokens that are left.  \<open>or_loop\<close> and
  \<open>and_loop\<close> are the \<open>while\<close> loops of \<open>parse_or\<close> and \<open>parse_and\<close>.
\<close>

definition bump :: "tok list \<Rightarrow> tok option \<times> tok list" where
  "bump ts = (case ts of [] \<Rightarrow> (None, []) | t # ts' \<Rightarrow> (Some t, ts'))"

definition eat_keyword :: "str \<Rightarrow> tok list \<Rightarrow> tok list option" where
  "eat_keyword kw ts =
     (case ts of TIdent w # ts' \<Rightarrow> if w = kw then Some ts' else None | _ \<Rightarrow> None)"

definition op_of_token :: "tok option \<Rightarrow> parse_error + (str \<Rightarrow> raw_op)" where
  "op_of_token t =
     (case t of
        Some TEqEq \<Rightarrow> Inr REq
      | Some TNe \<Rightarrow> Inr RNe
      | Some (TIdent w) \<Rightarrow>
          if w = ''startswith'' then Inr RStartsWith
          else if w = ''endswith'' then Inr REndsWith
          else if w = ''contains'' then Inr RContains
          else if w = ''matches'' then Inr RMatches
          else Inl (UnknownOperator w)
      | other \<Rightarrow> Inl (ExpectedOperator other))"

definition parse_membership :: "field \<Rightarrow> tok list \<Rightarrow> parse_error + raw_expr \<times> tok list" where
  "parse_membership f ts =
     (case bump ts of
        (Some (TIdent list_ref), ts') \<Rightarrow> Inr (RPred (RIn f list_ref), ts')
      | (other, _) \<Rightarrow> Inl (ExpectedListRef other))"

definition parse_comparison :: "field \<Rightarrow> tok list \<Rightarrow> parse_error + raw_expr \<times> tok list" where
  "parse_comparison f ts =
     rbind (op_of_token (fst (bump ts))) (\<lambda>op.
       case bump (snd (bump ts)) of
         (Some (TStr v), ts') \<Rightarrow> Inr (RPred (RCompare f (op v)), ts')
       | (other, _) \<Rightarrow> Inl (ExpectedString other))"

definition parse_predicate :: "tok list \<Rightarrow> parse_error + raw_expr \<times> tok list" where
  "parse_predicate ts =
     (case bump ts of
        (Some (TIdent name), ts1) \<Rightarrow>
          (let field = field_from_name name
           in case eat_keyword ''in'' ts1 of
                Some ts2 \<Rightarrow> parse_membership field ts2
              | None \<Rightarrow> parse_comparison field ts1)
      | (other, _) \<Rightarrow> Inl (ExpectedField other))"

lemma rbind_fundef_cong [fundef_cong]:
  "r = r' \<Longrightarrow> (\<And>a. r' = Inr a \<Longrightarrow> f a = g a) \<Longrightarrow> rbind r f = rbind r' g"
  by (cases r') auto

lemma eat_keyword_Some: "eat_keyword kw ts = Some ts' \<longleftrightarrow> ts = TIdent kw # ts'"
  by (auto simp: eat_keyword_def split: list.splits tok.splits)

lemma eat_keyword_length: "eat_keyword kw ts = Some ts' \<Longrightarrow> length ts' < length ts"
  by (simp add: eat_keyword_Some)

lemma bump_simps [simp]: "bump [] = (None, [])" "bump (t # ts) = (Some t, ts)"
  by (simp_all add: bump_def)

lemma parse_membership_length: "parse_membership f ts = Inr (e, ts') \<Longrightarrow> length ts' < length ts"
  by (cases ts) (auto simp: parse_membership_def split: tok.splits)

lemma snd_bump_length: "length (snd (bump ts)) \<le> length ts"
  by (cases ts) auto

lemma parse_comparison_length:
  assumes "parse_comparison f ts = Inr (e, ts')"
  shows "length ts' < length ts"
proof -
  obtain op where "(case bump (snd (bump ts)) of
         (Some (TStr v), ts') \<Rightarrow> Inr (RPred (RCompare f (op v)), ts')
       | (other, _) \<Rightarrow> Inl (ExpectedString other)) = Inr (e, ts')"
    using assms by (auto simp only: parse_comparison_def rbind_eq_Inr)
  then obtain v where "snd (bump ts) = TStr v # ts'"
    by (cases "snd (bump ts)") (simp_all split: tok.splits)
  then show ?thesis using snd_bump_length [of ts] by simp
qed

lemma parse_predicate_length:
  assumes "parse_predicate ts = Inr (e, ts')"
  shows "length ts' < length ts"
proof -
  obtain n ts1 where ts: "ts = TIdent n # ts1"
    using assms by (cases ts) (auto simp: parse_predicate_def split: tok.splits)
  show ?thesis
  proof (cases "eat_keyword ''in'' ts1")
    case None
    then show ?thesis
      using assms parse_comparison_length [of "field_from_name n" ts1 e ts']
      by (simp add: parse_predicate_def ts)
  next
    case (Some ts2)
    then show ?thesis
      using assms parse_membership_length [of "field_from_name n" ts2 e ts'] eat_keyword_length [OF Some]
      by (simp add: parse_predicate_def ts)
  qed
qed

function (sequential) parse_or :: "tok list \<Rightarrow> parse_error + raw_expr \<times> tok list"
  and or_loop :: "raw_expr \<Rightarrow> tok list \<Rightarrow> parse_error + raw_expr \<times> tok list"
  and parse_and :: "tok list \<Rightarrow> parse_error + raw_expr \<times> tok list"
  and and_loop :: "raw_expr \<Rightarrow> tok list \<Rightarrow> parse_error + raw_expr \<times> tok list"
  and parse_unary :: "tok list \<Rightarrow> parse_error + raw_expr \<times> tok list"
where
  "parse_or ts = rbind (parse_and ts) (\<lambda>(lhs, ts'). or_loop lhs ts')"
| "or_loop lhs ts =
     (case eat_keyword ''or'' ts of
        Some ts1 \<Rightarrow> rbind (parse_and ts1) (\<lambda>(rhs, ts2). or_loop (ROr lhs rhs) ts2)
      | None \<Rightarrow> Inr (lhs, ts))"
| "parse_and ts = rbind (parse_unary ts) (\<lambda>(lhs, ts'). and_loop lhs ts')"
| "and_loop lhs ts =
     (case eat_keyword ''and'' ts of
        Some ts1 \<Rightarrow> rbind (parse_unary ts1) (\<lambda>(rhs, ts2). and_loop (RAnd lhs rhs) ts2)
      | None \<Rightarrow> Inr (lhs, ts))"
| "parse_unary ts =
     (case eat_keyword ''not'' ts of
        Some ts1 \<Rightarrow> rbind (parse_unary ts1) (\<lambda>(inner, ts2). Inr (RNot inner, ts2))
      | None \<Rightarrow>
          (case ts of
             TLParen # ts1 \<Rightarrow>
               rbind (parse_or ts1) (\<lambda>(inner, ts2).
                 case bump ts2 of
                   (Some TRParen, ts3) \<Rightarrow> Inr (inner, ts3)
                 | (other, _) \<Rightarrow> Inl (ExpectedRParen other))
           | _ \<Rightarrow> parse_predicate ts))"
  by pat_completeness auto


text \<open>
  What a parser returns is shorter than what it was given: by induction on the domain of the
  functions, before their totality is known.
\<close>

lemma parser_progress:
  "parse_or_or_loop_parse_and_and_loop_parse_unary_dom (Inl (Inl ts)) \<Longrightarrow>
     parse_or ts = Inr (e, ts') \<Longrightarrow> length ts' < length ts"
  "parse_or_or_loop_parse_and_and_loop_parse_unary_dom (Inl (Inr (l, ts))) \<Longrightarrow>
     or_loop l ts = Inr (e, ts') \<Longrightarrow> length ts' \<le> length ts"
  "parse_or_or_loop_parse_and_and_loop_parse_unary_dom (Inr (Inl ts)) \<Longrightarrow>
     parse_and ts = Inr (e, ts') \<Longrightarrow> length ts' < length ts"
  "parse_or_or_loop_parse_and_and_loop_parse_unary_dom (Inr (Inr (Inl (l, ts)))) \<Longrightarrow>
     and_loop l ts = Inr (e, ts') \<Longrightarrow> length ts' \<le> length ts"
  "parse_or_or_loop_parse_and_and_loop_parse_unary_dom (Inr (Inr (Inr ts))) \<Longrightarrow>
     parse_unary ts = Inr (e, ts') \<Longrightarrow> length ts' < length ts"
proof (induction ts and l ts and ts and l ts and ts arbitrary: e ts' and e ts' and e ts' and e ts' and e ts'
       rule: parse_or_or_loop_parse_and_and_loop_parse_unary.pinduct)
  case (1 ts)
  then show ?case by (fastforce simp: parse_or.psimps result_simps)
next
  case (2 lhs ts)
  then show ?case
    by (fastforce simp: or_loop.psimps result_simps dest: eat_keyword_length split: option.splits)
next
  case (3 ts)
  then show ?case by (fastforce simp: parse_and.psimps result_simps)
next
  case (4 lhs ts)
  then show ?case
    by (fastforce simp: and_loop.psimps result_simps dest: eat_keyword_length split: option.splits)
next
  case (5 ts)
  show ?case
  proof (cases "eat_keyword ''not'' ts")
    case (Some ts1)
    with 5 show ?thesis
      by (fastforce simp: parse_unary.psimps result_simps dest: eat_keyword_length)
  next
    case None
    show ?thesis
    proof (cases "\<exists>ts1. ts = TLParen # ts1")
      case True
      then obtain ts1 where ts: "ts = TLParen # ts1" by blast
      with 5 None obtain inner ts2 where "parse_or ts1 = Inr (inner, ts2)" and
        "(case bump ts2 of (Some TRParen, ts3) \<Rightarrow> Inr (inner, ts3)
          | (other, _) \<Rightarrow> Inl (ExpectedRParen other)) = Inr (e, ts')"
        by (auto simp: parse_unary.psimps rbind_eq_Inr)
      then have "parse_or ts1 = Inr (inner, ts2)" and "ts2 = TRParen # ts'"
        by (cases ts2; simp split: tok.splits)+
      with 5 None ts show ?thesis by fastforce
    next
      case False
      with 5 None have "parse_predicate ts = Inr (e, ts')"
        by (auto simp: parse_unary.psimps split: list.splits tok.splits)
      then show ?thesis by (rule parse_predicate_length)
    qed
  qed
qed

termination parse_or
proof (relation "measures
    [\<lambda>x. case x of Inl (Inl ts) \<Rightarrow> length ts | Inl (Inr (l, ts)) \<Rightarrow> length ts | Inr (Inl ts) \<Rightarrow> length ts
       | Inr (Inr (Inl (l, ts))) \<Rightarrow> length ts | Inr (Inr (Inr ts)) \<Rightarrow> length ts,
     \<lambda>x. case x of Inl (Inl ts) \<Rightarrow> 2 | Inl (Inr (l, ts)) \<Rightarrow> 1 | Inr (Inl ts) \<Rightarrow> 1
       | Inr (Inr (Inl (l, ts))) \<Rightarrow> 1 | Inr (Inr (Inr ts)) \<Rightarrow> 0]")
qed (auto dest: parser_progress eat_keyword_length intro: less_trans)

declare parse_or.simps [simp del] or_loop.simps [simp del] parse_and.simps [simp del]
  and_loop.simps [simp del] parse_unary.simps [simp del]

definition parse_when :: "str \<Rightarrow> parse_error + raw_expr" where
  "parse_when src =
     rbind (lex_all 0 src) (\<lambda>toks.
       if toks = [] then Inl EmptyWhen
       else rbind (parse_or toks) (\<lambda>(expr, rest).
              case rest of [] \<Rightarrow> Inr expr | t # _ \<Rightarrow> Inl (TrailingToken t)))"

section \<open>The grammar: expressions and their concrete syntax\<close>

text \<open>
  A printer for the \<open>when\<close> language: \<open>or\<close> binds weakest, then \<open>and\<close>, then \<open>not\<close>; both binary
  operators associate to the left; parentheses are put only where the grammar needs them.
\<close>

fun field_name :: "field \<Rightarrow> str" where
  "field_name FTool = ''tool''"
| "field_name FCommand = ''command''"
| "field_name FPath = ''path''"
| "field_name FUrlHost = ''url.host''"
| "field_name FQuery = ''query''"
| "field_name FAgent = ''agent''"
| "field_name FMode = ''mode''"
| "field_name FServer = ''server''"
| "field_name FTrust = ''server.trust''"
| "field_name FUnknown = ''unknown''"

fun op_toks :: "raw_op \<Rightarrow> tok list" where
  "op_toks (REq v) = [TEqEq, TStr v]"
| "op_toks (RNe v) = [TNe, TStr v]"
| "op_toks (RStartsWith v) = [TIdent ''startswith'', TStr v]"
| "op_toks (REndsWith v) = [TIdent ''endswith'', TStr v]"
| "op_toks (RContains v) = [TIdent ''contains'', TStr v]"
| "op_toks (RMatches v) = [TIdent ''matches'', TStr v]"

fun pred_toks :: "raw_predicate \<Rightarrow> tok list" where
  "pred_toks (RCompare f op) = TIdent (field_name f) # op_toks op"
| "pred_toks (RIn f l) = [TIdent (field_name f), TIdent ''in'', TIdent l]"

definition paren :: "bool \<Rightarrow> tok list \<Rightarrow> tok list" where
  "paren b ts = (if b then TLParen # ts @ [TRParen] else ts)"

primrec expr_toks :: "raw_expr \<Rightarrow> nat \<Rightarrow> tok list" where
  "expr_toks (ROr a b) l = paren (1 \<le> l) (expr_toks a 0 @ TIdent ''or'' # expr_toks b 1)"
| "expr_toks (RAnd a b) l = paren (2 \<le> l) (expr_toks a 1 @ TIdent ''and'' # expr_toks b 2)"
| "expr_toks (RNot a) l = TIdent ''not'' # expr_toks a 2"
| "expr_toks (RPred p) l = pred_toks p"

definition quote_char :: "char \<Rightarrow> str" where
  "quote_char c = (if c = CHR 0x22 \<or> c = CHR 0x5C then [CHR 0x5C, c] else [c])"

fun tok_str :: "tok \<Rightarrow> str" where
  "tok_str (TIdent w) = w"
| "tok_str (TStr s) = CHR 0x22 # concat (map quote_char s) @ [CHR 0x22]"
| "tok_str TEqEq = ''==''"
| "tok_str TNe = ''!=''"
| "tok_str TLParen = ''(''"
| "tok_str TRParen = '')''"

definition print_toks :: "tok list \<Rightarrow> str" where
  "print_toks ts = concat (map (\<lambda>t. tok_str t @ '' '') ts)"

definition print_expr :: "raw_expr \<Rightarrow> str" where
  "print_expr e = print_toks (expr_toks e 0)"

definition ascii :: "str \<Rightarrow> bool" where
  "ascii s \<longleftrightarrow> list_all (\<lambda>c. code c < 128) s"

definition ident_ok :: "str \<Rightarrow> bool" where
  "ident_ok w \<longleftrightarrow> ascii w \<and> list_all ident_char w \<and>
     (case w of [] \<Rightarrow> False | c # _ \<Rightarrow> latin1_alphabetic c \<or> c = CHR ''_'')"

fun op_ok :: "raw_op \<Rightarrow> bool" where
  "op_ok (REq v) = ascii v"
| "op_ok (RNe v) = ascii v"
| "op_ok (RStartsWith v) = ascii v"
| "op_ok (REndsWith v) = ascii v"
| "op_ok (RContains v) = ascii v"
| "op_ok (RMatches v) = ascii v"

primrec expr_ok :: "raw_expr \<Rightarrow> bool" where
  "expr_ok (ROr a b) = (expr_ok a \<and> expr_ok b)"
| "expr_ok (RAnd a b) = (expr_ok a \<and> expr_ok b)"
| "expr_ok (RNot a) = expr_ok a"
| "expr_ok (RPred p) = (case p of RCompare f op \<Rightarrow> op_ok op | RIn f l \<Rightarrow> ident_ok l)"

fun tok_ok :: "tok \<Rightarrow> bool" where
  "tok_ok (TIdent w) = ident_ok w"
| "tok_ok (TStr s) = ascii s"
| "tok_ok _ = True"

subsection \<open>Parsing printed tokens\<close>

lemma field_from_name_name [simp]: "field_from_name (field_name f) = f"
  by (cases f) (simp_all add: field_from_name_def)

lemma field_name_not_keyword [simp]: "field_name f \<noteq> ''not''" "field_name f \<noteq> ''in''"
  by (cases f; simp)+

lemma parse_predicate_pred_toks: "parse_predicate (pred_toks p @ rest) = Inr (RPred p, rest)"
proof (cases p)
  case (RCompare f op)
  then show ?thesis
    by (cases op) (simp_all add: parse_predicate_def eat_keyword_def parse_comparison_def op_of_token_def)
qed (simp add: parse_predicate_def eat_keyword_def parse_membership_def)

lemma eat_keyword_simps [simp]:
  "eat_keyword kw (TIdent w # ts) = (if w = kw then Some ts else None)"
  "eat_keyword kw [] = None" "eat_keyword kw (TLParen # ts) = None"
  "eat_keyword kw (TRParen # ts) = None"
  by (simp_all add: eat_keyword_def)

lemma pred_toks_Cons: "\<exists>f ts. pred_toks p = TIdent (field_name f) # ts"
  by (cases p) auto

lemma parse_expr_toks:
  shows "parse_unary (expr_toks e 2 @ rest) = Inr (e, rest)"
    and "parse_and (expr_toks e 1 @ rest) = and_loop e rest"
    and "eat_keyword ''and'' rest = None \<Longrightarrow> parse_or (expr_toks e 0 @ rest) = or_loop e rest"
proof (induction e arbitrary: rest)
  case (ROr a b)
  {
    case 1
    have "parse_or (expr_toks a 0 @ TIdent ''or'' # expr_toks b 1 @ TRParen # rest)
        = Inr (ROr a b, TRParen # rest)"
      using ROr.IH by (simp add: or_loop.simps [of a] or_loop.simps [of "ROr a b"] and_loop.simps [of b])
    then show ?case by (simp add: paren_def parse_unary.simps)
  next
    case 2
    have "parse_or (expr_toks a 0 @ TIdent ''or'' # expr_toks b 1 @ TRParen # rest)
        = Inr (ROr a b, TRParen # rest)"
      using ROr.IH by (simp add: or_loop.simps [of a] or_loop.simps [of "ROr a b"] and_loop.simps [of b])
    then show ?case by (simp add: paren_def parse_unary.simps parse_and.simps)
  next
    case 3
    then show ?case
      using ROr.IH by (simp add: paren_def or_loop.simps [of a] and_loop.simps [of b])
  }
next
  case (RAnd a b)
  {
    case 1
    have "parse_and (expr_toks a 1 @ TIdent ''and'' # expr_toks b 2 @ TRParen # rest)
        = Inr (RAnd a b, TRParen # rest)"
      using RAnd.IH by (simp add: and_loop.simps [of a] and_loop.simps [of "RAnd a b"])
    then show ?case by (simp add: paren_def parse_unary.simps parse_or.simps or_loop.simps)
  next
    case 2
    show ?case using RAnd.IH by (simp add: paren_def and_loop.simps [of a])
  next
    case 3
    then show ?case
      using RAnd.IH
      by (simp add: paren_def parse_or.simps and_loop.simps [of a] and_loop.simps [of "RAnd a b"])
  }
next
  case (RNot a)
  {
    case 1
    show ?case using RNot.IH by (simp add: parse_unary.simps)
  next
    case 2
    show ?case using RNot.IH by (simp add: parse_unary.simps [of "TIdent _ # _"] parse_and.simps)
  next
    case 3
    then show ?case
      using RNot.IH
      by (simp add: parse_unary.simps [of "TIdent _ # _"] parse_and.simps parse_or.simps and_loop.simps)
  }
next
  case (RPred p)
  have u: "parse_unary (pred_toks p @ rest) = Inr (RPred p, rest)" for rest
    using parse_predicate_pred_toks [of p rest] pred_toks_Cons [of p]
    by (auto simp: parse_unary.simps)
  {
    case 1
    show ?case by (simp add: u)
  next
    case 2
    show ?case by (simp add: u parse_and.simps)
  next
    case 3
    then show ?case by (simp add: u parse_and.simps parse_or.simps and_loop.simps)
  }
qed

subsection \<open>Lexing printed tokens\<close>

lemma utf8_lossy_ascii: "ascii s \<Longrightarrow> length s \<le> n \<Longrightarrow> utf8_lossy_fuel n s = s"
proof (induction n arbitrary: s)
  case (Suc n)
  then show ?case by (cases s) (auto simp: utf8_width_def byte_at_def ascii_def Let_def)
qed simp

lemma from_utf8_lossy_ascii: "ascii s \<Longrightarrow> from_utf8_lossy s = s"
  by (simp add: from_utf8_lossy_def utf8_lossy_ascii)

lemma lex_string_quoted:
  "ascii s \<Longrightarrow> \<exists>p'. lex_string p (concat (map quote_char s) @ CHR 0x22 # r) out = Inr (TStr (out @ s), p', r)"
proof (induction s arbitrary: p out)
  case (Cons c s)
  from Cons.prems have a: "ascii s" "code c < 128" by (auto simp: ascii_def)
  from a(2) have "push_char c = [c]" by (simp add: push_char_def)
  with Cons.IH [OF a(1)] show ?case
    by (simp add: quote_char_def unescape_def) (metis append.assoc append_Cons append_Nil)
qed simp

lemma ident_char_space: "\<not> ident_char (CHR '' '')"
  by code_simp

lemma lex_ident_ok:
  assumes "ident_ok w"
  shows "lex_ident p (w @ CHR '' '' # r) = (TIdent w, p + length w, CHR '' '' # r)"
proof -
  have "takeWhile ident_char (w @ CHR '' '' # r) = w"
    using assms by (auto simp: ident_ok_def list_all_iff takeWhile_append ident_char_space)
  then show ?thesis
    using assms by (simp add: lex_ident_def Let_def ident_ok_def from_utf8_lossy_ascii)
qed

lemma ident_start:
  assumes "latin1_alphabetic c \<or> c = CHR ''_''"
  shows "c \<notin> {CHR ''('', CHR '')'', CHR ''='', CHR ''!'', CHR 0x22}" and "\<not> latin1_whitespace c"
  using assms by (auto simp: latin1_alphabetic_def latin1_whitespace_def code_def)

lemma lex_next_tok_str:
  assumes "tok_ok t"
  shows "\<exists>p'. lex_next p (tok_str t @ CHR '' '' # r) = Inr (Some (t, p', CHR '' '' # r))"
proof (cases t)
  case (TIdent w)
  with assms obtain c v where w: "w = c # v" "latin1_alphabetic c \<or> c = CHR ''_''"
    by (auto simp: ident_ok_def split: list.splits)
  note c = ident_start [OF w(2)]
  have "lex_ident p (c # v @ CHR '' '' # r) = (TIdent w, p + length w, CHR '' '' # r)"
    using lex_ident_ok [of w p r] assms TIdent by (simp add: w(1))
  then show ?thesis using c w(2) by (simp add: TIdent w(1) lex_next_def lex_token_def)
next
  case (TStr s)
  with assms have "ascii s" by simp
  from lex_string_quoted [OF this, of "p + 1" "CHR '' '' # r" "[]"] show ?thesis
    by (auto simp: TStr lex_next_def lex_token_def latin1_whitespace_def code_def)
qed (simp_all add: lex_next_def lex_token_def latin1_whitespace_def code_def)

lemma lex_next_space: "lex_next p (CHR '' '' # r) = lex_next (Suc p) r"
  by (simp add: lex_next_def latin1_whitespace_def code_def)

lemma lex_all_space: "lex_all p (CHR '' '' # r) = lex_all (Suc p) r"
  by (simp add: lex_all.simps [of p "CHR '' '' # r"] lex_all.simps [of "Suc p" r] lex_next_space)

lemma lex_all_print_toks: "list_all tok_ok ts \<Longrightarrow> lex_all p (print_toks ts) = Inr ts"
proof (induction ts arbitrary: p)
  case Nil
  show ?case by (simp add: print_toks_def lex_all.simps lex_next_def lex_token_def)
next
  case (Cons t ts)
  then obtain p' where "lex_next p (tok_str t @ CHR '' '' # print_toks ts)
      = Inr (Some (t, p', CHR '' '' # print_toks ts))"
    using lex_next_tok_str [of t p "print_toks ts"] by auto
  moreover have "print_toks (t # ts) = tok_str t @ CHR '' '' # print_toks ts"
    by (simp add: print_toks_def)
  ultimately show ?case
    using Cons by (simp add: lex_all.simps [of p "tok_str t @ _"] lex_all_space)
qed

lemma field_name_ok: "ident_ok (field_name f)"
  by (induct f; code_simp)

lemma expr_toks_ok: "expr_ok e \<Longrightarrow> list_all tok_ok (expr_toks e l)"
proof (induction e arbitrary: l)
  case (RPred p)
  have kw: "ident_ok ''in''" "ident_ok ''startswith''" "ident_ok ''endswith''" "ident_ok ''contains''"
    "ident_ok ''matches''"
    by code_simp+
  show ?case
  proof (cases p)
    case (RCompare f op)
    with RPred show ?thesis by (cases op) (simp_all add: field_name_ok kw)
  next
    case (RIn f l)
    with RPred show ?thesis by (simp add: field_name_ok kw)
  qed
next
  case (RNot e)
  have "ident_ok ''not''" by code_simp
  with RNot show ?case by simp
next
  case (ROr a b)
  have "ident_ok ''or''" by code_simp
  with ROr show ?case by (simp add: paren_def)
next
  case (RAnd a b)
  have "ident_ok ''and''" by code_simp
  with RAnd show ?case by (simp add: paren_def)
qed

lemma expr_toks_not_Nil: "expr_toks e l \<noteq> []"
proof (cases e)
  case (RPred p)
  then show ?thesis by (cases p) auto
qed (auto simp: paren_def)

text \<open>
  C32. The parser inverts the printer: every expression over ASCII literals and list names is read
  back from its printed form, with \<open>or\<close> below \<open>and\<close> below \<open>not\<close> and left association.
\<close>

theorem parse_when_print_expr:
  assumes "expr_ok e"
  shows "parse_when (print_expr e) = Inr e"
proof -
  have "lex_all 0 (print_expr e) = Inr (expr_toks e 0)"
    using assms by (simp add: print_expr_def lex_all_print_toks expr_toks_ok)
  moreover have "parse_or (expr_toks e 0) = Inr (e, [])"
    using parse_expr_toks(3) [of "[]" e] by (simp add: or_loop.simps)
  ultimately show ?thesis by (simp add: parse_when_def expr_toks_not_Nil)
qed

theorem parse_when_print_expr_witness:
  "parse_when (print_expr (RAnd (ROr (RPred (RIn FUrlHost ''hosts.allowed'')) (RPred (RCompare FTool (REq ''a'')))) (RNot (RPred (RCompare FPath (RMatches [CHR 0x22])))))) =
   Inr (RAnd (ROr (RPred (RIn FUrlHost ''hosts.allowed'')) (RPred (RCompare FTool (REq ''a'')))) (RNot (RPred (RCompare FPath (RMatches [CHR 0x22])))))"
  by (rule parse_when_print_expr) code_simp

text \<open>
  A string literal with a non-ASCII character is not read back as written: each byte of the
  UTF-8 text is pushed as a character of its own, so the two bytes of \<open>e\<close>-acute (C3 A9) become
  the four bytes of two other characters, and the comparison can never equal the text meant.
\<close>

theorem string_literal_not_utf8:
  "parse_when (''tool == '' @ [CHR 0x22, CHR 0xC3, CHR 0xA9, CHR 0x22]) =
     Inr (RPred (RCompare FTool (REq [CHR 0xC3, CHR 0x83, CHR 0xC2, CHR 0xA9])))"
  by code_simp

end
