(* ===== verification/Policy_Engine.thy ===== *)
theory Policy_Engine
  imports Policy_Lang
begin

text \<open>
  \<open>writ-policy\<close>: loading and compiling \<open>writ.yaml\<close> (\<open>policy_file.rs\<close>), the native engine
  (\<open>engine.rs\<close>) and the policy-test harness (\<open>fixtures.rs\<close>), over the expression language of
  \<open>Policy_Lang\<close>.

  The crates \<open>serde_yaml\<close> and \<open>regex\<close> are parameters, collected in \<open>policy_deps\<close>: the typed
  YAML reader, whether a pattern compiles (\<open>regex_new\<close> gives the error text), whether a compiled
  pattern matches a text, and what the static pattern for \<open>- id:\<close> lines captures in a line.
  Each error site is a constructor; the arguments are what its message interpolates.
\<close>

section \<open>The policy file\<close>

text \<open>A YAML value, after resolution of tags.\<close>

datatype yaml = YNull | YBool bool | YNum str | YStr str | YSeq "yaml list" | YMap "(yaml \<times> yaml) list"

record raw_rule =
  rr_id :: str
  rr_when :: str
  rr_verdict :: str
  rr_reason :: "str option"
  rr_irreversible :: bool
  rr_timeout :: "str option"
  rr_patterns :: "str list option"

text \<open>\<open>lists\<close> is a \<open>HashMap\<close>; the list gives its entries in the order of one iteration.\<close>

record raw_policy_file =
  rp_version :: nat
  rp_default :: default_verdict_kind
  rp_rules :: "raw_rule list"
  rp_lists :: "(str \<times> yaml) list"

record policy_deps =
  yaml_parse :: "str \<Rightarrow> str + raw_policy_file"
  regex_new :: "str \<Rightarrow> str option"
  regex_is_match :: "str \<Rightarrow> str \<Rightarrow> bool"
  id_line_capture :: "str \<Rightarrow> str option"

datatype rule_error = EmptyRuleId | InvalidWhen parse_error | UnknownList str | InvalidRegex str str
  | UnknownVerdict str | InvalidDuration str | DurationOverflow str | RedactNeedsPatterns

datatype policy_error = YamlError str | NotAMapping str | ListNameNotString str
  | ListNotSequence str | ListEntryNotString str yaml
  | RuleError "nat option" str rule_error    \<comment> \<open>line, rule id, problem\<close>

datatype op = OEq str | ONe str | OStartsWith str | OEndsWith str | OContains str
  | OMatches str   \<comment> \<open>a compiled \<open>Regex\<close>, by its pattern\<close>

datatype predicate = PCompare field op | PIn field "str list"

datatype expr = EOr expr expr | EAnd expr expr | ENot expr | EPred predicate

datatype rule_verdict = RvAllow | RvDeny | RvAsk | RvRedact

record compiled_rule =
  cr_id :: str
  cr_when :: expr
  cr_verdict :: rule_verdict
  cr_reason :: "str option"
  cr_irreversible :: bool
  cr_timeout_ms :: "nat option"
  cr_patterns :: "str list"
  cr_line :: "nat option"

record compiled_policy =
  cp_version :: nat
  cp_default :: default_verdict_kind
  cp_rules :: "compiled_rule list"

definition policy_file_name :: str where
  "policy_file_name = ''writ.yaml''"

text \<open>\<open>u64::checked_mul\<close>.\<close>

definition checked_mul :: "nat \<Rightarrow> nat \<Rightarrow> nat option" where
  "checked_mul a b = (if a * b \<le> u64_max then Some (a * b) else None)"

definition duration_unit :: "str \<Rightarrow> str \<times> nat" where
  "duration_unit s =
     (case strip_suffix s ''ms'' of Some n \<Rightarrow> (n, 1)
      | None \<Rightarrow> (case strip_suffix s ''s'' of Some n \<Rightarrow> (n, 1000)
      | None \<Rightarrow> (case strip_suffix s ''m'' of Some n \<Rightarrow> (n, 60000)
      | None \<Rightarrow> (case strip_suffix s ''h'' of Some n \<Rightarrow> (n, 3600000)
      | None \<Rightarrow> (s, 1)))))"

definition parse_duration :: "str \<Rightarrow> rule_error + nat" where
  "parse_duration s0 =
     (let s = trim s0; (num, mult) = duration_unit s
      in rbind (ok_or (parse_u64 (trim num)) (InvalidDuration s)) (\<lambda>v.
           ok_or (checked_mul v mult) (DurationOverflow s)))"

text \<open>The named lists: \<open>hosts: { allowed: [...] }\<close> is addressed as \<open>hosts.allowed\<close>.\<close>

type_synonym named_lists = "str \<Rightarrow> str list option"

fun list_items :: "str \<Rightarrow> yaml list \<Rightarrow> policy_error + str list" where
  "list_items name [] = Inr []"
| "list_items name (YStr s # ys) = rbind (list_items name ys) (\<lambda>ss. Inr (s # ss))"
| "list_items name (y # ys) = Inl (ListEntryNotString name y)"

fun add_namespace :: "str \<Rightarrow> (yaml \<times> yaml) list \<Rightarrow> named_lists \<Rightarrow> policy_error + named_lists" where
  "add_namespace ns [] m = Inr m"
| "add_namespace ns ((k, v) # kvs) m =
     (case k of
        YStr name \<Rightarrow>
          (case v of
             YSeq items \<Rightarrow>
               rbind (list_items name items) (\<lambda>ss. add_namespace ns kvs (m(ns @ ''.'' @ name \<mapsto> ss)))
           | _ \<Rightarrow> Inl (ListNotSequence name))
      | _ \<Rightarrow> Inl (ListNameNotString ns))"

fun flatten_lists :: "(str \<times> yaml) list \<Rightarrow> named_lists \<Rightarrow> policy_error + named_lists" where
  "flatten_lists [] m = Inr m"
| "flatten_lists ((ns, v) # rest) m =
     (case v of
        YMap kvs \<Rightarrow> rbind (add_namespace ns kvs m) (flatten_lists rest)
      | _ \<Rightarrow> Inl (NotAMapping ns))"

section \<open>Compilation\<close>

fun compile_op :: "policy_deps \<Rightarrow> raw_op \<Rightarrow> rule_error + op" where
  "compile_op D (REq v) = Inr (OEq v)"
| "compile_op D (RNe v) = Inr (ONe v)"
| "compile_op D (RStartsWith v) = Inr (OStartsWith v)"
| "compile_op D (REndsWith v) = Inr (OEndsWith v)"
| "compile_op D (RContains v) = Inr (OContains v)"
| "compile_op D (RMatches pat) =
     (case regex_new D pat of Some e \<Rightarrow> Inl (InvalidRegex pat e) | None \<Rightarrow> Inr (OMatches pat))"

fun compile_expr :: "policy_deps \<Rightarrow> named_lists \<Rightarrow> raw_expr \<Rightarrow> rule_error + expr" where
  "compile_expr D nls (ROr a b) =
     rbind (compile_expr D nls a) (\<lambda>a'. rbind (compile_expr D nls b) (\<lambda>b'. Inr (EOr a' b')))"
| "compile_expr D nls (RAnd a b) =
     rbind (compile_expr D nls a) (\<lambda>a'. rbind (compile_expr D nls b) (\<lambda>b'. Inr (EAnd a' b')))"
| "compile_expr D nls (RNot a) = rbind (compile_expr D nls a) (\<lambda>a'. Inr (ENot a'))"
| "compile_expr D nls (RPred (RCompare f op)) =
     rbind (compile_op D op) (\<lambda>op'. Inr (EPred (PCompare f op')))"
| "compile_expr D nls (RPred (RIn f list_ref)) =
     rbind (ok_or (nls list_ref) (UnknownList list_ref)) (\<lambda>l. Inr (EPred (PIn f l)))"

text \<open>\<open>str::lines\<close>: pieces between line feeds, without a carriage return before the line feed.\<close>

fun str_lines_aux :: "str \<Rightarrow> str \<Rightarrow> str list" where
  "str_lines_aux acc [] = (if acc = [] then [] else [acc])"
| "str_lines_aux acc (c # s) =
     (if c = CHR 0x0A
      then (if acc \<noteq> [] \<and> last acc = CHR 0x0D then butlast acc else acc) # str_lines_aux [] s
      else str_lines_aux (acc @ [c]) s)"

definition str_lines :: "str \<Rightarrow> str list" where
  "str_lines s = str_lines_aux [] s"

definition clean_id :: "str \<Rightarrow> str" where
  "clean_id s = trim_matches (CHR 0x27) (trim_matches (CHR 0x22) (trim s))"

definition extract_rule_id_lines :: "policy_deps \<Rightarrow> str \<Rightarrow> (nat \<times> str) list" where
  "extract_rule_id_lines D source =
     List.map_filter (\<lambda>(i, line). map_option (\<lambda>c. (i + 1, clean_id c)) (id_line_capture D line))
       (enumerate 0 (str_lines source))"

text \<open>\<open>iter().position(p)\<close>.\<close>

fun position :: "('a \<Rightarrow> bool) \<Rightarrow> 'a list \<Rightarrow> nat option" where
  "position P [] = None"
| "position P (x # xs) = (if P x then Some 0 else map_option Suc (position P xs))"

definition locate_rule_line :: "(nat \<times> str) list \<Rightarrow> str \<Rightarrow> nat \<Rightarrow> nat \<Rightarrow> nat option \<times> nat" where
  "locate_rule_line id_lines rid i cursor =
     (case position (\<lambda>(_, v). v = rid) (drop cursor id_lines) of
        Some p \<Rightarrow> (Some (fst (id_lines ! (cursor + p))), cursor + p + 1)
      | None \<Rightarrow>
          (case position (\<lambda>(_, v). v = rid) id_lines of
             Some p \<Rightarrow> (Some (fst (id_lines ! p)), cursor)
           | None \<Rightarrow> (if i < length id_lines then Some (fst (id_lines ! i)) else None, cursor)))"

definition parse_rule_verdict :: "str \<Rightarrow> rule_error + rule_verdict" where
  "parse_rule_verdict v =
     (if v = ''allow'' then Inr RvAllow else if v = ''deny'' then Inr RvDeny
      else if v = ''ask'' then Inr RvAsk else if v = ''redact'' then Inr RvRedact
      else Inl (UnknownVerdict v))"

text \<open>The body of the loop over \<open>raw.rules\<close>, without the position of the rule.\<close>

definition compile_rule ::
  "policy_deps \<Rightarrow> named_lists \<Rightarrow> nat option \<Rightarrow> raw_rule \<Rightarrow> rule_error + compiled_rule" where
  "compile_rule D nls line rr =
     (if trim (rr_id rr) = [] then Inl EmptyRuleId
      else rbind (map_err InvalidWhen (parse_when (rr_when rr))) (\<lambda>raw_expr.
           rbind (compile_expr D nls raw_expr) (\<lambda>when.
           rbind (parse_rule_verdict (rr_verdict rr)) (\<lambda>verdict.
           rbind (case rr_timeout rr of None \<Rightarrow> Inr None
                  | Some t \<Rightarrow> rbind (parse_duration t) (\<lambda>ms. Inr (Some ms))) (\<lambda>timeout_ms.
           let patterns = (case rr_patterns rr of None \<Rightarrow> [] | Some ps \<Rightarrow> ps)
           in if verdict = RvRedact \<and> patterns = [] then Inl RedactNeedsPatterns
              else Inr \<lparr>cr_id = rr_id rr, cr_when = when, cr_verdict = verdict,
                        cr_reason = rr_reason rr, cr_irreversible = rr_irreversible rr,
                        cr_timeout_ms = timeout_ms, cr_patterns = patterns, cr_line = line\<rparr>)))))"

fun compile_rules ::
  "policy_deps \<Rightarrow> named_lists \<Rightarrow> (nat \<times> str) list \<Rightarrow> nat \<Rightarrow> nat \<Rightarrow> raw_rule list \<Rightarrow>
   policy_error + compiled_rule list" where
  "compile_rules D nls id_lines i cursor [] = Inr []"
| "compile_rules D nls id_lines i cursor (rr # rrs) =
     (let (line, cursor') = locate_rule_line id_lines (rr_id rr) i cursor
      in rbind (map_err (RuleError line (rr_id rr)) (compile_rule D nls line rr)) (\<lambda>r.
           rbind (compile_rules D nls id_lines (i + 1) cursor' rrs) (\<lambda>rs. Inr (r # rs))))"

definition compile :: "policy_deps \<Rightarrow> str \<Rightarrow> policy_error + compiled_policy" where
  "compile D source =
     rbind (map_err YamlError (yaml_parse D source)) (\<lambda>raw.
     rbind (flatten_lists (rp_lists raw) Map.empty) (\<lambda>nls.
     rbind (compile_rules D nls (extract_rule_id_lines D source) 0 0 (rp_rules raw)) (\<lambda>rules.
       Inr \<lparr>cp_version = rp_version raw, cp_default = rp_default raw, cp_rules = rules\<rparr>)))"

section \<open>Evaluation\<close>

definition default_verdict :: "default_verdict_kind \<Rightarrow> verdict" where
  "default_verdict d =
     (case d of
        DefaultAllow \<Rightarrow> Allow (Some ''default'')
      | DefaultAsk \<Rightarrow> Ask ''default''
          ''No policy rule matched this call; the policy default is `ask`. A human must approve it.''
          None False None
      | DefaultDeny \<Rightarrow> Deny ''default''
          ''No policy rule matched this call; the policy default is `deny`.'' None)"

fun mode_str :: "intercept_mode \<Rightarrow> str" where
  "mode_str Mcp = ''mcp''"
| "mode_str ProcessWrap = ''processwrap''"
| "mode_str SdkHook = ''sdkhook''"

fun field_value :: "field \<Rightarrow> tool_call_context \<Rightarrow> str option" where
  "field_value FTool c = Some (ctx_tool c)"
| "field_value FCommand c = ctx_command c"
| "field_value FPath c = ctx_path c"
| "field_value FUrlHost c = ctx_url_host c"
| "field_value FQuery c = ctx_query c"
| "field_value FAgent c = Some (ctx_agent c)"
| "field_value FMode c = Some (mode_str (ctx_mode c))"
| "field_value FServer c = ctx_server c"
| "field_value FTrust c = ctx_trust c"
| "field_value FUnknown c = None"

definition list_entry_matches :: "str \<Rightarrow> str \<Rightarrow> bool" where
  "list_entry_matches entry v =
     (case strip_prefix entry ''*.'' of
        Some base \<Rightarrow>
          (let lv = to_ascii_lowercase v; b = to_ascii_lowercase base
           in lv = b \<or> ends_with lv (''.'' @ b))
      | None \<Rightarrow> entry = v)"

fun eval_op :: "policy_deps \<Rightarrow> op \<Rightarrow> str \<Rightarrow> bool" where
  "eval_op D (OEq w) v = (v = w)"
| "eval_op D (ONe w) v = (v \<noteq> w)"
| "eval_op D (OStartsWith w) v = starts_with v w"
| "eval_op D (OEndsWith w) v = ends_with v w"
| "eval_op D (OContains w) v = str_contains v w"
| "eval_op D (OMatches re) v = regex_is_match D re v"

fun eval_pred :: "policy_deps \<Rightarrow> predicate \<Rightarrow> tool_call_context \<Rightarrow> bool" where
  "eval_pred D (PCompare f op) ctx =
     (case field_value f ctx of None \<Rightarrow> False | Some v \<Rightarrow> eval_op D op v)"
| "eval_pred D (PIn f l) ctx =
     (case field_value f ctx of None \<Rightarrow> False | Some v \<Rightarrow> list_ex (\<lambda>e. list_entry_matches e v) l)"

primrec eval_expr :: "policy_deps \<Rightarrow> expr \<Rightarrow> tool_call_context \<Rightarrow> bool" where
  "eval_expr D (EOr a b) ctx = (eval_expr D a ctx \<or> eval_expr D b ctx)"
| "eval_expr D (EAnd a b) ctx = (eval_expr D a ctx \<and> eval_expr D b ctx)"
| "eval_expr D (ENot a) ctx = (\<not> eval_expr D a ctx)"
| "eval_expr D (EPred p) ctx = eval_pred D p ctx"

definition quoted_detail :: "str \<Rightarrow> str option \<Rightarrow> str" where
  "quoted_detail label v = (case v of None \<Rightarrow> [] | Some s \<Rightarrow> '', '' @ label @ '' `'' @ s @ ''`'')"

definition ask_diff_text :: "compiled_rule \<Rightarrow> tool_call_context \<Rightarrow> str" where
  "ask_diff_text r ctx =
     ''Rule `'' @ cr_id r @ ''` requires human approval for '' @
     ''tool `'' @ ctx_tool ctx @ ''`'' @ quoted_detail ''command'' (ctx_command ctx) @
     quoted_detail ''path'' (ctx_path ctx) @ quoted_detail ''query'' (ctx_query ctx) @
     quoted_detail ''host'' (ctx_url_host ctx)"

definition verdict_for :: "compiled_rule \<Rightarrow> tool_call_context \<Rightarrow> verdict" where
  "verdict_for r ctx =
     (let location = map_option (\<lambda>l. policy_file_name @ '':'' @ show_nat l) (cr_line r)
      in case cr_verdict r of
           RvAllow \<Rightarrow> Allow (Some (cr_id r))
         | RvDeny \<Rightarrow> Deny (cr_id r)
             (case cr_reason r of Some t \<Rightarrow> t
              | None \<Rightarrow> ''Denied by rule `'' @ cr_id r @
                  ''`. The policy author did not provide a reason; inspect '' @
                  (case location of Some l \<Rightarrow> l | None \<Rightarrow> policy_file_name) @ ''.'')
             location
         | RvAsk \<Rightarrow> Ask (cr_id r) (case cr_reason r of Some t \<Rightarrow> t | None \<Rightarrow> ask_diff_text r ctx)
             (cr_timeout_ms r) (cr_irreversible r) location
         | RvRedact \<Rightarrow> Redact (cr_id r) (cr_patterns r))"

record native_engine =
  eng_policy :: compiled_policy

fun evaluate_rules ::
  "policy_deps \<Rightarrow> compiled_rule list \<Rightarrow> default_verdict_kind \<Rightarrow> tool_call_context \<Rightarrow> verdict" where
  "evaluate_rules D [] d ctx = default_verdict d"
| "evaluate_rules D (r # rs) d ctx =
     (if eval_expr D (cr_when r) ctx then verdict_for r ctx else evaluate_rules D rs d ctx)"

definition evaluate :: "policy_deps \<Rightarrow> native_engine \<Rightarrow> tool_call_context \<Rightarrow> verdict" where
  "evaluate D eng ctx = evaluate_rules D (cp_rules (eng_policy eng)) (cp_default (eng_policy eng)) ctx"

definition from_source :: "policy_deps \<Rightarrow> str \<Rightarrow> policy_error + native_engine" where
  "from_source D source = rbind (compile D source) (\<lambda>p. Inr \<lparr>eng_policy = p\<rparr>)"

text \<open>\<open>reload(&mut self)\<close>: the engine afterwards, and the result.\<close>

definition reload :: "policy_deps \<Rightarrow> native_engine \<Rightarrow> str \<Rightarrow> native_engine \<times> (policy_error + unit)" where
  "reload D eng source =
     (case compile D source of
        Inl e \<Rightarrow> (eng, Inl e)
      | Inr p \<Rightarrow> (eng\<lparr>eng_policy := p\<rparr>, Inr ()))"

definition rule_count :: "native_engine \<Rightarrow> nat" where
  "rule_count eng = length (cp_rules (eng_policy eng))"

section \<open>Lists and durations\<close>

text \<open>
  Host lists: an entry \<open>*.base\<close> matches the base host and every host ending in \<open>.base\<close>, both
  without regard to ASCII case; no other host.
\<close>

theorem wildcard_entry_matches:
  "list_entry_matches (''*.'' @ base) v \<longleftrightarrow>
     eq_ignore_ascii_case v base \<or>
     (\<exists>sub. to_ascii_lowercase v = sub @ ''.'' @ to_ascii_lowercase base)"
proof -
  have "strip_prefix (''*.'' @ base) ''*.'' = Some base" by (rule strip_prefix_append)
  then show ?thesis
    by (simp add: list_entry_matches_def eq_ignore_ascii_case_def ends_with_iff Let_def)
qed

lemma parse_u64_bound: "parse_u64 s = Some n \<Longrightarrow> n \<le> u64_max"
  by (auto simp: parse_u64_def Let_def split: if_splits)

lemma duration_unit_suffix:
  "duration_unit s = (num, mult) \<Longrightarrow>
     (s, mult) \<in> {(num @ ''ms'', 1), (num @ ''s'', 1000), (num @ ''m'', 60000), (num @ ''h'', 3600000), (num, 1)}"
  by (auto simp: duration_unit_def strip_suffix_eq_Some split: option.splits)

text \<open>
  Durations: what \<open>parse_duration\<close> accepts is a decimal count followed by one of the units
  \<open>ms\<close>, \<open>s\<close>, \<open>m\<close>, \<open>h\<close> or no unit (milliseconds), and the result is the count times the unit in
  milliseconds, without wrap-around in 64 bits.
\<close>

theorem parse_duration_correct:
  assumes "parse_duration t = Inr ms"
  shows "\<exists>num mult v.
      (trim t, mult) \<in> {(num @ ''ms'', 1), (num @ ''s'', 1000), (num @ ''m'', 60000),
                        (num @ ''h'', 3600000), (num, 1)} \<and>
      parse_u64 (trim num) = Some v \<and> ms = v * mult \<and> ms \<le> u64_max"
proof -
  obtain num mult where u: "duration_unit (trim t) = (num, mult)" by fastforce
  with assms obtain v where "parse_u64 (trim num) = Some v" "checked_mul v mult = Some ms"
    by (auto simp: parse_duration_def Let_def result_simps)
  with duration_unit_suffix [OF u] show ?thesis
    by (intro exI [of _ num] exI [of _ mult] exI [of _ v]) (auto simp: checked_mul_def split: if_splits)
qed

theorem parse_duration_correct_witness:
  "parse_duration '' 5m '' = Inr 300000 \<and>
   (\<exists>num mult v.
      (trim '' 5m '', mult) \<in> {(num @ ''ms'', 1), (num @ ''s'', 1000), (num @ ''m'', 60000),
                        (num @ ''h'', 3600000), (num, 1)} \<and>
      parse_u64 (trim num) = Some v \<and> 300000 = v * mult \<and> 300000 \<le> u64_max)"
proof -
  have t: "trim '' 5m '' = ''5m''" "trim ''5'' = ''5''" by code_simp+
  have d: "duration_unit ''5m'' = (''5'', 60000)"
    by (simp add: duration_unit_def strip_suffix_def ends_with_def)
  have u: "parse_u64 ''5'' = Some 5"
    by (simp add: parse_u64_digits is_ascii_digit_def code_def digits_val_def digit_val_def u64_max_def)
  have "parse_duration '' 5m '' = Inr 300000"
    by (simp add: parse_duration_def t d u checked_mul_def u64_max_def)
  from parse_duration_correct [OF this] this show ?thesis by blast
qed

section \<open>Compilation is sound\<close>

text \<open>
  The meaning of the source text of a rule, directly on the parsed expression: named lists are
  looked up and patterns compiled at the point of use.
\<close>

fun raw_op_holds :: "policy_deps \<Rightarrow> raw_op \<Rightarrow> str \<Rightarrow> bool" where
  "raw_op_holds D (REq w) v = (v = w)"
| "raw_op_holds D (RNe w) v = (v \<noteq> w)"
| "raw_op_holds D (RStartsWith w) v = (\<exists>t. v = w @ t)"
| "raw_op_holds D (REndsWith w) v = (\<exists>t. v = t @ w)"
| "raw_op_holds D (RContains w) v = (\<exists>a b. v = a @ w @ b)"
| "raw_op_holds D (RMatches pat) v = regex_is_match D pat v"

fun raw_holds :: "policy_deps \<Rightarrow> named_lists \<Rightarrow> raw_expr \<Rightarrow> tool_call_context \<Rightarrow> bool" where
  "raw_holds D nls (ROr a b) ctx = (raw_holds D nls a ctx \<or> raw_holds D nls b ctx)"
| "raw_holds D nls (RAnd a b) ctx = (raw_holds D nls a ctx \<and> raw_holds D nls b ctx)"
| "raw_holds D nls (RNot a) ctx = (\<not> raw_holds D nls a ctx)"
| "raw_holds D nls (RPred (RCompare f op)) ctx = (\<exists>v. field_value f ctx = Some v \<and> raw_op_holds D op v)"
| "raw_holds D nls (RPred (RIn f l)) ctx =
     (\<exists>v es. field_value f ctx = Some v \<and> nls l = Some es \<and> (\<exists>e \<in> set es. list_entry_matches e v))"

lemma compile_op_sound: "compile_op D r = Inr p \<Longrightarrow> eval_op D p v = raw_op_holds D r v"
  by (cases r; cases p)
     (simp_all add: starts_with_iff ends_with_iff str_contains_iff split: option.splits)

lemma compile_expr_sound:
  "compile_expr D nls r = Inr e \<Longrightarrow> eval_expr D e ctx = raw_holds D nls r ctx"
proof (induction D nls r arbitrary: e rule: compile_expr.induct)
  case (4 D nls f op)
  then show ?case by (auto simp: result_simps compile_op_sound split: option.splits)
next
  case (5 D nls f l)
  then show ?case by (auto simp: result_simps list_ex_iff split: option.splits)
qed (fastforce simp: result_simps)+

text \<open>What a compiled rule has of its source.\<close>

definition rule_compiled :: "policy_deps \<Rightarrow> named_lists \<Rightarrow> raw_rule \<Rightarrow> compiled_rule \<Rightarrow> bool" where
  "rule_compiled D nls rr r \<longleftrightarrow>
     cr_id r = rr_id rr \<and> trim (cr_id r) \<noteq> [] \<and>
     (\<exists>w. parse_when (rr_when rr) = Inr w \<and> (\<forall>ctx. eval_expr D (cr_when r) ctx = raw_holds D nls w ctx)) \<and>
     parse_rule_verdict (rr_verdict rr) = Inr (cr_verdict r) \<and>
     cr_reason r = rr_reason rr \<and> cr_irreversible r = rr_irreversible rr \<and>
     (case rr_timeout rr of None \<Rightarrow> cr_timeout_ms r = None
      | Some t \<Rightarrow> (\<exists>ms. parse_duration t = Inr ms \<and> cr_timeout_ms r = Some ms)) \<and>
     (cr_verdict r = RvRedact \<longrightarrow> cr_patterns r \<noteq> [])"

lemma compile_rule_sound:
  "compile_rule D nls line rr = Inr r \<Longrightarrow> rule_compiled D nls rr r \<and> cr_line r = line"
  by (auto simp: compile_rule_def rule_compiled_def Let_def result_simps compile_expr_sound
           split: if_splits option.splits)

lemma compile_rules_sound:
  "compile_rules D nls idl i c rrs = Inr rs \<Longrightarrow> list_all2 (rule_compiled D nls) rrs rs"
proof (induction D nls idl i c rrs arbitrary: rs rule: compile_rules.induct)
  case (2 D nls idl i c rr rrs)
  obtain line c' where l: "locate_rule_line idl (rr_id rr) i c = (line, c')" by fastforce
  with 2(2) obtain r rs' where "compile_rule D nls line rr = Inr r" "rs = r # rs'"
      "compile_rules D nls idl (i + 1) c' rrs = Inr rs'"
    by (auto simp: result_simps)
  with 2(1) l show ?case by (auto dest: compile_rule_sound)
qed simp


text \<open>
  A concrete instance of the parameters: a reader that knows one document, patterns that always
  compile and match by containment.
\<close>

definition example_policy :: raw_policy_file where
  "example_policy =
     \<lparr>rp_version = 1, rp_default = DefaultAsk,
      rp_rules =
        [\<lparr>rr_id = ''block-rm'', rr_when = ''tool == \"shell\" and command matches \"rm -rf\"'',
          rr_verdict = ''deny'', rr_reason = Some ''destructive'', rr_irreversible = False,
          rr_timeout = None, rr_patterns = None\<rparr>,
         \<lparr>rr_id = ''known-hosts'', rr_when = ''url.host in hosts.allowed'',
          rr_verdict = ''allow'', rr_reason = None, rr_irreversible = False,
          rr_timeout = None, rr_patterns = None\<rparr>],
      rp_lists = [(''hosts'', YMap [(YStr ''allowed'', YSeq [YStr ''*.github.com''])])]\<rparr>"

definition example_deps :: policy_deps where
  "example_deps =
     \<lparr>yaml_parse = (\<lambda>s. if s = ''demo'' then Inr example_policy else Inl ''unknown document''),
      regex_new = (\<lambda>_. None), regex_is_match = (\<lambda>pat v. str_contains v pat),
      id_line_capture = (\<lambda>_. None)\<rparr>"

definition example_compiled :: compiled_policy where
  "example_compiled =
     \<lparr>cp_version = 1, cp_default = DefaultAsk,
      cp_rules =
        [\<lparr>cr_id = ''block-rm'',
          cr_when = EAnd (EPred (PCompare FTool (OEq ''shell''))) (EPred (PCompare FCommand (OMatches ''rm -rf''))),
          cr_verdict = RvDeny, cr_reason = Some ''destructive'', cr_irreversible = False,
          cr_timeout_ms = None, cr_patterns = [], cr_line = None\<rparr>,
         \<lparr>cr_id = ''known-hosts'', cr_when = EPred (PIn FUrlHost [''*.github.com'']),
          cr_verdict = RvAllow, cr_reason = None, cr_irreversible = False,
          cr_timeout_ms = None, cr_patterns = [], cr_line = None\<rparr>]\<rparr>"

lemma compile_example_parts:
  "parse_when ''tool == \"shell\" and command matches \"rm -rf\"'' =
     Inr (RAnd (RPred (RCompare FTool (REq ''shell''))) (RPred (RCompare FCommand (RMatches ''rm -rf''))))"
  "parse_when ''url.host in hosts.allowed'' = Inr (RPred (RIn FUrlHost ''hosts.allowed''))"
  "trim ''block-rm'' \<noteq> []" "trim ''known-hosts'' \<noteq> []"
  by code_simp+

lemma compile_example: "compile example_deps ''demo'' = Inr example_compiled"
proof -
  have "extract_rule_id_lines example_deps s = []" for s
    by (simp add: extract_rule_id_lines_def example_deps_def List.map_filter_def)
  then show ?thesis
    by (simp add: compile_def compile_rule_def locate_rule_line_def parse_rule_verdict_def Let_def
        compile_example_parts example_policy_def example_compiled_def)
       (simp add: example_deps_def example_policy_def compile_def compile_rule_def locate_rule_line_def parse_rule_verdict_def Let_def
        compile_example_parts example_compiled_def)
qed


section \<open>Evaluation: the first matching rule decides\<close>

text \<open>The meaning of a rule of the file, and the rule verdict a runtime verdict belongs to.\<close>

definition rule_holds :: "policy_deps \<Rightarrow> named_lists \<Rightarrow> tool_call_context \<Rightarrow> raw_rule \<Rightarrow> bool" where
  "rule_holds D nls ctx rr = (case parse_when (rr_when rr) of Inl _ \<Rightarrow> False | Inr w \<Rightarrow> raw_holds D nls w ctx)"

fun verdict_class :: "verdict \<Rightarrow> rule_verdict" where
  "verdict_class (Allow _) = RvAllow"
| "verdict_class (Deny _ _ _) = RvDeny"
| "verdict_class (Ask _ _ _ _ _) = RvAsk"
| "verdict_class (Redact _ _) = RvRedact"

lemma verdict_for_id: "verdict_rule_id (verdict_for r ctx) = Some (cr_id r)"
  by (cases "cr_verdict r") (simp_all add: verdict_for_def Let_def)

lemma verdict_for_class: "verdict_class (verdict_for r ctx) = cr_verdict r"
  by (cases "cr_verdict r") (simp_all add: verdict_for_def Let_def)

lemmas verdict_for_rule = verdict_for_id verdict_for_class

lemma rule_compiledD:
  assumes "rule_compiled D nls rr r"
  shows "eval_expr D (cr_when r) ctx = rule_holds D nls ctx rr \<and> cr_id r = rr_id rr \<and>
    parse_rule_verdict (rr_verdict rr) = Inr (cr_verdict r)"
proof -
  from assms obtain w where "parse_when (rr_when rr) = Inr w"
      "\<forall>ctx. eval_expr D (cr_when r) ctx = raw_holds D nls w ctx"
    unfolding rule_compiled_def by blast
  moreover have "cr_id r = rr_id rr" "parse_rule_verdict (rr_verdict rr) = Inr (cr_verdict r)"
    using assms unfolding rule_compiled_def by blast+
  ultimately show ?thesis unfolding rule_holds_def by simp
qed

lemma evaluate_rules_compiled:
  assumes "list_all2 (rule_compiled D nls) rrs rs"
  shows "case find (rule_holds D nls ctx) rrs of
           None \<Rightarrow> evaluate_rules D rs d ctx = default_verdict d
         | Some rr \<Rightarrow> verdict_rule_id (evaluate_rules D rs d ctx) = Some (rr_id rr) \<and>
             parse_rule_verdict (rr_verdict rr) = Inr (verdict_class (evaluate_rules D rs d ctx))"
  using assms
proof (induction rule: list_all2_induct)
  case (Cons rr rrs r rs)
  have e: "eval_expr D (cr_when r) ctx = rule_holds D nls ctx rr" "cr_id r = rr_id rr"
      "parse_rule_verdict (rr_verdict rr) = Inr (cr_verdict r)"
    using rule_compiledD [OF Cons(1)] by blast+
  show ?case
  proof (cases "rule_holds D nls ctx rr")
    case True
    with e show ?thesis by (simp add: verdict_for_rule)
  next
    case False
    then have "evaluate_rules D (r # rs) d ctx = evaluate_rules D rs d ctx" using e by simp
    with False Cons.IH show ?thesis by (simp only: find.simps if_False)
  qed
qed simp

text \<open>
  C7. From the text of the policy to the verdict: the engine built from a source decides a call
  by the first rule of the file whose \<open>when\<close> holds of the call, with that rule's id and verdict;
  when no rule holds, by the file's default.
\<close>

theorem evaluate_first_match:
  assumes "from_source D source = Inr eng" and "yaml_parse D source = Inr raw"
    and "flatten_lists (rp_lists raw) Map.empty = Inr nls"
  shows "case find (rule_holds D nls ctx) (rp_rules raw) of
           None \<Rightarrow> evaluate D eng ctx = default_verdict (rp_default raw)
         | Some rr \<Rightarrow> verdict_rule_id (evaluate D eng ctx) = Some (rr_id rr) \<and>
             parse_rule_verdict (rr_verdict rr) = Inr (verdict_class (evaluate D eng ctx))"
proof -
  from assms have "list_all2 (rule_compiled D nls) (rp_rules raw) (cp_rules (eng_policy eng))"
    and d: "cp_default (eng_policy eng) = rp_default raw"
    by (auto simp: from_source_def compile_def result_simps compile_rules_sound)
  from evaluate_rules_compiled [OF this(1), where ctx = ctx and d = "rp_default raw"] show ?thesis
    unfolding evaluate_def d .
qed

lemma example_lists:
  "flatten_lists (rp_lists example_policy) Map.empty = Inr [''hosts.allowed'' \<mapsto> [''*.github.com'']]"
  by (simp add: example_policy_def)

lemma example_engine:
  "from_source example_deps ''demo'' = Inr \<lparr>eng_policy = example_compiled\<rparr>"
  "yaml_parse example_deps ''demo'' = Inr example_policy"
  by (simp add: from_source_def compile_example, simp add: example_deps_def)

theorem evaluate_first_match_witness:
  "\<forall>ctx. case find (rule_holds example_deps [''hosts.allowed'' \<mapsto> [''*.github.com'']] ctx) (rp_rules example_policy) of
     None \<Rightarrow> evaluate example_deps \<lparr>eng_policy = example_compiled\<rparr> ctx = default_verdict DefaultAsk
   | Some rr \<Rightarrow> verdict_rule_id (evaluate example_deps \<lparr>eng_policy = example_compiled\<rparr> ctx) = Some (rr_id rr) \<and>
       parse_rule_verdict (rr_verdict rr) = Inr (verdict_class (evaluate example_deps \<lparr>eng_policy = example_compiled\<rparr> ctx))"
proof -
  have "rp_default example_policy = DefaultAsk" by (simp add: example_policy_def)
  with evaluate_first_match [OF example_engine example_lists] show ?thesis
    by (intro allI) (simp only:)
qed

text \<open>
  The fields a condition mentions, and conditions without \<open>not\<close>.
\<close>

fun pred_field :: "predicate \<Rightarrow> field" where
  "pred_field (PCompare f _) = f"
| "pred_field (PIn f _) = f"

primrec expr_fields :: "expr \<Rightarrow> field set" where
  "expr_fields (EOr a b) = expr_fields a \<union> expr_fields b"
| "expr_fields (EAnd a b) = expr_fields a \<union> expr_fields b"
| "expr_fields (ENot a) = expr_fields a"
| "expr_fields (EPred p) = {pred_field p}"

primrec negation_free :: "expr \<Rightarrow> bool" where
  "negation_free (EOr a b) = (negation_free a \<and> negation_free b)"
| "negation_free (EAnd a b) = (negation_free a \<and> negation_free b)"
| "negation_free (ENot a) = False"
| "negation_free (EPred p) = True"

text \<open>
  Absent fields do not match: a condition without \<open>not\<close> is false of a call that has none of
  the fields it mentions, even one built from \<open>!=\<close>; and what other fields hold is irrelevant to
  any condition.
\<close>

theorem absent_fields_never_match:
  "(negation_free e \<and> (\<forall>f \<in> expr_fields e. field_value f ctx = None) \<longrightarrow> \<not> eval_expr D e ctx) \<and>
   ((\<forall>f \<in> expr_fields e. field_value f ctx = field_value f ctx') \<longrightarrow> eval_expr D e ctx = eval_expr D e ctx')"
proof (induction e)
  case (EPred p)
  then show ?case by (cases p) auto
qed auto

definition no_fields_ctx :: tool_call_context where
  "no_fields_ctx = \<lparr>ctx_tool = ''t'', ctx_command = None, ctx_path = None, ctx_url_host = None,
     ctx_query = None, ctx_server = None, ctx_trust = None, ctx_mode = Mcp, ctx_agent = ''a''\<rparr>"

theorem absent_fields_never_match_witness:
  "\<not> eval_expr example_deps (EOr (EPred (PCompare FCommand (ONe ''ls''))) (EPred (PIn FUrlHost [''*.x'']))) no_fields_ctx
   \<and> eval_expr example_deps (EPred (PCompare FTool (OEq ''t''))) no_fields_ctx =
     eval_expr example_deps (EPred (PCompare FTool (OEq ''t''))) (no_fields_ctx\<lparr>ctx_command := Some ''ls''\<rparr>)"
  using absent_fields_never_match [of "EOr (EPred (PCompare FCommand (ONe ''ls''))) (EPred (PIn FUrlHost [''*.x'']))"
      no_fields_ctx example_deps no_fields_ctx]
    absent_fields_never_match [of "EPred (PCompare FTool (OEq ''t''))" no_fields_ctx example_deps
      "no_fields_ctx\<lparr>ctx_command := Some ''ls''\<rparr>"]
  by (simp add: no_fields_ctx_def)

section \<open>Reloading\<close>

text \<open>
  The contract the rest of the program relies on when it hands a policy engine new text: a good
  text takes effect exactly as if the engine had been built from it, a bad one changes nothing.
\<close>

locale policy_engine =
  fixes load :: "'src \<Rightarrow> 'err + 'eng"
    and hot_reload :: "'eng \<Rightarrow> 'src \<Rightarrow> 'eng \<times> ('err + unit)"
    and good :: "'eng \<Rightarrow> bool"
  assumes load_good: "load s = Inr e \<Longrightarrow> good e"
    and reload_ok: "load s = Inr e' \<Longrightarrow> hot_reload e s = (e', Inr ())"
    and reload_err: "load s = Inl x \<Longrightarrow> hot_reload e s = (e, Inl x)"
begin

lemma reload_good: "good e \<Longrightarrow> good (fst (hot_reload e s))"
  by (cases "load s") (auto simp: reload_ok reload_err load_good)

lemma reloads_good: "good e \<Longrightarrow> good (foldl (\<lambda>e s. fst (hot_reload e s)) e ss)"
  by (induction ss arbitrary: e) (auto simp: reload_good)

lemma serves_last_good:
  "load s0 = Inr e0 \<Longrightarrow>
   load (last (filter (\<lambda>s. ok (load s) \<noteq> None) (s0 # ss))) =
     Inr (foldl (\<lambda>e s. fst (hot_reload e s)) e0 ss)"
proof (induction ss rule: rev_induct)
  case (snoc s ss)
  then show ?case by (cases "load s") (auto simp: reload_ok reload_err)
qed simp

end

definition engine_ok :: "native_engine \<Rightarrow> bool" where
  "engine_ok eng \<longleftrightarrow>
     list_all (\<lambda>r. trim (cr_id r) \<noteq> [] \<and> (cr_verdict r = RvRedact \<longrightarrow> cr_patterns r \<noteq> []))
       (cp_rules (eng_policy eng))"

lemma rules_ok:
  assumes "list_all2 (rule_compiled D nls) rrs rs"
  shows "list_all (\<lambda>r. trim (cr_id r) \<noteq> [] \<and> (cr_verdict r = RvRedact \<longrightarrow> cr_patterns r \<noteq> [])) rs"
  using assms by (induction rule: list_all2_induct) (auto simp: rule_compiled_def)

interpretation native: policy_engine "from_source D" "reload D" engine_ok for D
proof
  fix s e
  assume "from_source D s = Inr e"
  then show "engine_ok e"
    by (auto simp: from_source_def compile_def result_simps engine_ok_def dest!: compile_rules_sound intro: rules_ok)
qed (auto simp: from_source_def reload_def result_simps)

text \<open>
  Hot reload is atomic: after any sequence of reloads the engine is exactly the one that would
  be built from the last text that compiles, the initial one included.
\<close>

theorem reloads_serve_last_good:
  assumes "from_source D s0 = Inr e0"
  shows "from_source D (last (filter (\<lambda>s. ok (from_source D s) \<noteq> None) (s0 # ss))) =
           Inr (foldl (\<lambda>e s. fst (reload D e s)) e0 ss)"
  using assms by (rule native.serves_last_good)

theorem reloads_serve_last_good_witness:
  "foldl (\<lambda>e s. fst (reload example_deps e s)) \<lparr>eng_policy = example_compiled\<rparr> [''typo'', ''rules: [''] =
     \<lparr>eng_policy = example_compiled\<rparr>"
proof -
  have "from_source example_deps ''typo'' = Inl (YamlError ''unknown document'')"
    "from_source example_deps ''rules: ['' = Inl (YamlError ''unknown document'')"
    by (simp_all add: from_source_def compile_def example_deps_def)
  then show ?thesis
    using reloads_serve_last_good [OF example_engine(1), of "[''typo'', ''rules: ['']"]
    by (simp add: example_engine)
qed

lemma redact_for_rule: "verdict_for r ctx = Redact i ps \<Longrightarrow> cr_verdict r = RvRedact \<and> cr_patterns r = ps"
  by (cases "cr_verdict r") (simp_all add: verdict_for_def Let_def)

lemma default_attributable:
  "\<exists>rid. verdict_rule_id (default_verdict d) = Some rid \<and> trim rid \<noteq> [] \<and>
     (\<forall>r ps. default_verdict d = Redact r ps \<longrightarrow> ps \<noteq> [])"
proof -
  have "trim ''default'' \<noteq> []" by code_simp
  then show ?thesis by (cases d) (simp_all add: default_verdict_def)
qed

text \<open>
  Every verdict is attributable: whatever sequence of reloads an engine has been through, the
  verdict it gives carries a rule id, the id is not blank, and a \<open>Redact\<close> verdict has patterns.
\<close>

theorem verdict_attributable:
  assumes "from_source D s0 = Inr e0"
  shows "\<exists>rid. verdict_rule_id (evaluate D (foldl (\<lambda>e s. fst (reload D e s)) e0 ss) ctx) = Some rid \<and>
           trim rid \<noteq> [] \<and>
           (\<forall>r ps. evaluate D (foldl (\<lambda>e s. fst (reload D e s)) e0 ss) ctx = Redact r ps \<longrightarrow> ps \<noteq> [])"
proof -
  let ?e = "foldl (\<lambda>e s. fst (reload D e s)) e0 ss"
  have "engine_ok ?e"
    using native.load_good [OF assms] by (rule native.reloads_good)
  moreover have "\<exists>rid. verdict_rule_id (evaluate_rules D rs d ctx) = Some rid \<and> trim rid \<noteq> [] \<and>
      (\<forall>r ps. evaluate_rules D rs d ctx = Redact r ps \<longrightarrow> ps \<noteq> [])"
    if "list_all (\<lambda>r. trim (cr_id r) \<noteq> [] \<and> (cr_verdict r = RvRedact \<longrightarrow> cr_patterns r \<noteq> [])) rs" for rs d
    using that
    by (induction rs)
       (auto simp: verdict_for_rule dest!: redact_for_rule intro!: default_attributable)
  ultimately show ?thesis by (simp add: evaluate_def engine_ok_def)
qed

theorem verdict_attributable_witness:
  "\<exists>rid. verdict_rule_id (evaluate example_deps \<lparr>eng_policy = example_compiled\<rparr> no_fields_ctx) = Some rid \<and>
     trim rid \<noteq> [] \<and>
     (\<forall>r ps. evaluate example_deps \<lparr>eng_policy = example_compiled\<rparr> no_fields_ctx = Redact r ps \<longrightarrow> ps \<noteq> [])"
  using verdict_attributable [OF example_engine(1), where ctx = no_fields_ctx and ss = "[]"] by simp

end
