(* ===== verification/Policy_Fixtures.thy ===== *)
theory Policy_Fixtures
  imports Policy_Engine
begin

text \<open>
  \<open>writ-policy/src/fixtures.rs\<close>: the harness behind \<open>writ policy test\<close>.  A fixture is a call
  context with the verdict expected of it; a run reports which fixtures disagree.

  The text of a disagreement quotes the verdict as JSON or an error of the compiler; it is kept
  as the value the text is rendered from.  \<open>Timestamp::now\<close> is the argument \<open>now\<close>.
\<close>

section \<open>Data\<close>

datatype expected_kind = KAllow | KDeny | KAsk | KRedact

record fixture_ctx =
  fc_tool :: "str option"
  fc_command :: "str option"
  fc_path :: "str option"
  fc_url_host :: "str option"
  fc_query :: "str option"
  fc_server :: "str option"
  fc_trust :: "str option"
  fc_mode :: "str option"
  fc_agent :: "str option"
  fc_args :: "json option"

record expectation =
  exp_verdict :: expected_kind
  exp_rule_id :: "str option"

record fixture =
  fx_name :: str
  fx_policy :: "str option"
  fx_ctx :: fixture_ctx
  fx_expect :: expectation

datatype fixture_actual = FxCompileFailed policy_error | FxBadMode str
  | FxKind expected_kind verdict | FxRule str | FxEmptyReason | FxEmptyDiff

record fixture_failure =
  ff_name :: str
  ff_expected :: str
  ff_actual :: fixture_actual

record test_report =
  rep_total :: nat
  rep_passed :: nat
  rep_failures :: "fixture_failure list"
  rep_error :: "policy_error option"

section \<open>Operations\<close>

definition unwrap_or :: "'a option \<Rightarrow> 'a \<Rightarrow> 'a" where
  "unwrap_or x d = (case x of None \<Rightarrow> d | Some v \<Rightarrow> v)"

text \<open>\<open>if let Some(v) = x { field = Some(v) }\<close>.\<close>

definition or_keep :: "'a option \<Rightarrow> 'a option \<Rightarrow> 'a option" where
  "or_keep x old = (case x of None \<Rightarrow> old | Some v \<Rightarrow> Some v)"

definition fixture_mode :: "str option \<Rightarrow> fixture_actual + intercept_mode" where
  "fixture_mode m =
     (case m of None \<Rightarrow> Inr Mcp
      | Some s \<Rightarrow> if s = ''mcp'' then Inr Mcp else if s = ''processwrap'' then Inr ProcessWrap
                  else if s = ''sdkhook'' then Inr SdkHook else Inl (FxBadMode s))"

definition fixture_call :: "timestamp \<Rightarrow> fixture_ctx \<Rightarrow> intercept_mode \<Rightarrow> json \<Rightarrow> tool_call" where
  "fixture_call now f mode args =
     \<lparr>tc_call_id = ''fixture-call'', tc_session_id = ''fixture-session'',
      tc_caller = \<lparr>agent = unwrap_or (fc_agent f) ''fixture-agent'', agent_version = None,
                   user = None, non_human_id = None\<rparr>,
      tc_mode = mode, tc_tool = unwrap_or (fc_tool f) [], tc_args = args,
      tc_server = map_option (\<lambda>n. \<lparr>srv_name = n, srv_transport = ''stdio'', srv_version = None\<rparr>) (fc_server f),
      tc_trust = None, tc_captured_at = now\<rparr>"

definition to_context :: "timestamp \<Rightarrow> fixture_ctx \<Rightarrow> fixture_actual + tool_call_context" where
  "to_context now f =
     rbind (fixture_mode (fc_mode f)) (\<lambda>mode.
       case fc_args f of
         Some args \<Rightarrow>
           (let ctx = from_call (fixture_call now f mode args)
            in Inr (ctx\<lparr>ctx_command := or_keep (fc_command f) (ctx_command ctx),
                        ctx_path := or_keep (fc_path f) (ctx_path ctx),
                        ctx_url_host := or_keep (fc_url_host f) (ctx_url_host ctx),
                        ctx_query := or_keep (fc_query f) (ctx_query ctx),
                        ctx_trust := or_keep (fc_trust f) (ctx_trust ctx)\<rparr>))
       | None \<Rightarrow>
           Inr \<lparr>ctx_tool = unwrap_or (fc_tool f) [], ctx_command = fc_command f, ctx_path = fc_path f,
                ctx_url_host = fc_url_host f, ctx_query = fc_query f, ctx_server = fc_server f,
                ctx_trust = fc_trust f, ctx_mode = mode, ctx_agent = unwrap_or (fc_agent f) []\<rparr>)"

definition is_pass :: "test_report \<Rightarrow> bool" where
  "is_pass rep \<longleftrightarrow> rep_error rep = None \<and> rep_failures rep = []"

fun verdict_kind :: "verdict \<Rightarrow> expected_kind" where
  "verdict_kind (Allow _) = KAllow"
| "verdict_kind (Deny _ _ _) = KDeny"
| "verdict_kind (Ask _ _ _ _ _) = KAsk"
| "verdict_kind (Redact _ _) = KRedact"

fun kind_str :: "expected_kind \<Rightarrow> str" where
  "kind_str KAllow = ''allow''"
| "kind_str KDeny = ''deny''"
| "kind_str KAsk = ''ask''"
| "kind_str KRedact = ''redact''"

definition expected_text :: "expectation \<Rightarrow> str" where
  "expected_text e = kind_str (exp_verdict e) @
     (case exp_rule_id e of None \<Rightarrow> [] | Some r \<Rightarrow> '' (rule '' @ r @ '')'')"

text \<open>The checks on a verdict, in the order of \<open>run_one\<close>.\<close>

definition check_verdict :: "expectation \<Rightarrow> verdict \<Rightarrow> fixture_actual + unit" where
  "check_verdict e v =
     (if verdict_kind v \<noteq> exp_verdict e then Inl (FxKind (verdict_kind v) v)
      else
        let actual_rule = unwrap_or (verdict_rule_id v) ''<none>''
        in case exp_rule_id e of
             Some r \<Rightarrow> if actual_rule \<noteq> r then Inl (FxRule actual_rule) else
               (case v of
                  Deny _ reason _ \<Rightarrow> if trim reason = [] then Inl FxEmptyReason else Inr ()
                | Ask _ diff _ _ _ \<Rightarrow> if trim diff = [] then Inl FxEmptyDiff else Inr ()
                | _ \<Rightarrow> Inr ())
           | None \<Rightarrow>
               (case v of
                  Deny _ reason _ \<Rightarrow> if trim reason = [] then Inl FxEmptyReason else Inr ()
                | Ask _ diff _ _ _ \<Rightarrow> if trim diff = [] then Inl FxEmptyDiff else Inr ()
                | _ \<Rightarrow> Inr ()))"

definition run_one ::
  "policy_deps \<Rightarrow> timestamp \<Rightarrow> fixture \<Rightarrow> native_engine \<Rightarrow> fixture_failure + unit" where
  "run_one D now fx shared =
     map_err (\<lambda>a. \<lparr>ff_name = fx_name fx, ff_expected = expected_text (fx_expect fx), ff_actual = a\<rparr>)
       (rbind (case fx_policy fx of
                 Some src \<Rightarrow> map_err FxCompileFailed (from_source D src)
               | None \<Rightarrow> Inr shared) (\<lambda>engine.
        rbind (to_context now (fx_ctx fx)) (\<lambda>ctx.
          check_verdict (fx_expect fx) (evaluate D engine ctx))))"

text \<open>The loop of \<open>run_fixtures\<close>; \<open>push\<close> appends.\<close>

fun fixture_loop ::
  "policy_deps \<Rightarrow> timestamp \<Rightarrow> native_engine \<Rightarrow> fixture list \<Rightarrow> test_report \<Rightarrow> test_report" where
  "fixture_loop D now eng [] rep = rep"
| "fixture_loop D now eng (fx # fxs) rep =
     fixture_loop D now eng fxs
       (case run_one D now fx eng of
          Inr _ \<Rightarrow> rep\<lparr>rep_passed := rep_passed rep + 1\<rparr>
        | Inl f \<Rightarrow> rep\<lparr>rep_failures := rep_failures rep @ [f]\<rparr>)"

definition run_fixtures :: "policy_deps \<Rightarrow> timestamp \<Rightarrow> str \<Rightarrow> fixture list \<Rightarrow> test_report" where
  "run_fixtures D now policy_source fxs =
     (case from_source D policy_source of
        Inl e \<Rightarrow> \<lparr>rep_total = length fxs, rep_passed = 0, rep_failures = [], rep_error = Some e\<rparr>
      | Inr eng \<Rightarrow> fixture_loop D now eng fxs
          \<lparr>rep_total = length fxs, rep_passed = 0, rep_failures = [], rep_error = None\<rparr>)"

section \<open>What a passing run means\<close>

lemma fixture_loop_result:
  "fixture_loop D now eng fxs rep =
     rep\<lparr>rep_passed := rep_passed rep + length (filter (\<lambda>fx. run_one D now fx eng = Inr ()) fxs),
         rep_failures := rep_failures rep @
           List.map_filter (\<lambda>fx. case run_one D now fx eng of Inl f \<Rightarrow> Some f | Inr _ \<Rightarrow> None) fxs\<rparr>"
  by (induction D now eng fxs rep rule: fixture_loop.induct)
     (auto simp: List.map_filter_simps split: sum.splits)

lemma map_filter_failures:
  "List.map_filter (\<lambda>x. case f x of Inl e \<Rightarrow> Some e | Inr _ \<Rightarrow> None) xs = [] \<longleftrightarrow>
     (\<forall>x \<in> set xs. f x = Inr ())"
  "length (filter (\<lambda>x. f x = Inr ()) xs) +
     length (List.map_filter (\<lambda>x. case f x of Inl e \<Rightarrow> Some e | Inr _ \<Rightarrow> None) xs) = length xs"
  by (induction xs) (auto simp: List.map_filter_simps split: sum.splits)

text \<open>A verdict that a fixture accepts: kind, rule and a non-blank text for the human.\<close>

definition agrees :: "expectation \<Rightarrow> verdict \<Rightarrow> bool" where
  "agrees e v \<longleftrightarrow> verdict_kind v = exp_verdict e \<and>
     (\<forall>r. exp_rule_id e = Some r \<longrightarrow> unwrap_or (verdict_rule_id v) ''<none>'' = r) \<and>
     (\<forall>r t l. v = Deny r t l \<longrightarrow> trim t \<noteq> []) \<and>
     (\<forall>r t tm irr l. v = Ask r t tm irr l \<longrightarrow> trim t \<noteq> [])"

lemma check_verdict_agrees: "check_verdict e v = Inr () \<longleftrightarrow> agrees e v"
  by (cases v; cases "exp_rule_id e") (simp_all add: check_verdict_def agrees_def Let_def)

definition fixture_passes :: "policy_deps \<Rightarrow> timestamp \<Rightarrow> native_engine \<Rightarrow> fixture \<Rightarrow> bool" where
  "fixture_passes D now shared fx \<longleftrightarrow>
     (\<exists>eng ctx. (case fx_policy fx of None \<Rightarrow> eng = shared | Some src \<Rightarrow> from_source D src = Inr eng) \<and>
        to_context now (fx_ctx fx) = Inr ctx \<and> agrees (fx_expect fx) (evaluate D eng ctx))"

lemma run_one_passes: "run_one D now fx shared = Inr () \<longleftrightarrow> fixture_passes D now shared fx"
  by (auto simp: run_one_def fixture_passes_def result_simps check_verdict_agrees split: option.splits)

text \<open>
  A test run passes exactly when the policy compiles and every fixture's verdict agrees in
  kind, rule and text; and every fixture of a run is counted once, as passed or as failed.
\<close>

theorem run_fixtures_correct:
  "(is_pass (run_fixtures D now src fxs) \<longleftrightarrow>
      (\<exists>eng. from_source D src = Inr eng \<and> list_all (fixture_passes D now eng) fxs)) \<and>
   (rep_error (run_fixtures D now src fxs) = None \<longrightarrow>
      rep_passed (run_fixtures D now src fxs) + length (rep_failures (run_fixtures D now src fxs)) =
      rep_total (run_fixtures D now src fxs) \<and> rep_total (run_fixtures D now src fxs) = length fxs)"
  by (cases "from_source D src")
     (auto simp: run_fixtures_def is_pass_def fixture_loop_result map_filter_failures run_one_passes list_all_iff
       simp flip: run_one_passes)

definition example_fixture :: fixture where
  "example_fixture =
     \<lparr>fx_name = ''plain call'', fx_policy = None,
      fx_ctx = \<lparr>fc_tool = Some ''t'', fc_command = None, fc_path = None, fc_url_host = None, fc_query = None,
                fc_server = None, fc_trust = None, fc_mode = None, fc_agent = None, fc_args = None\<rparr>,
      fx_expect = \<lparr>exp_verdict = KAsk, exp_rule_id = Some ''default''\<rparr>\<rparr>"

theorem run_fixtures_correct_witness:
  "rep_error (run_fixtures example_deps (from_epoch_ms 0) ''demo'' [example_fixture]) = None \<and>
   rep_passed (run_fixtures example_deps (from_epoch_ms 0) ''demo'' [example_fixture]) +
     length (rep_failures (run_fixtures example_deps (from_epoch_ms 0) ''demo'' [example_fixture])) = 1"
proof -
  have "rep_error (run_fixtures example_deps (from_epoch_ms 0) ''demo'' [example_fixture]) = None"
    by (simp add: run_fixtures_def example_engine fixture_loop_result)
  with run_fixtures_correct [of example_deps "from_epoch_ms 0" "''demo''" "[example_fixture]"] show ?thesis by simp
qed

definition silent_rule :: raw_rule where
  "silent_rule = \<lparr>rr_id = ''r'', rr_when = ''tool == \"t\"'', rr_verdict = ''deny'', rr_reason = Some [],
     rr_irreversible = False, rr_timeout = None, rr_patterns = None\<rparr>"

lemma compile_silent_rule:
  "compile_rule D nls line silent_rule =
     Inr \<lparr>cr_id = ''r'', cr_when = EPred (PCompare FTool (OEq ''t'')), cr_verdict = RvDeny, cr_reason = Some [],
          cr_irreversible = False, cr_timeout_ms = None, cr_patterns = [], cr_line = line\<rparr>"
proof -
  have "parse_when ''tool == \"t\"'' = Inr (RPred (RCompare FTool (REq ''t'')))" "trim ''r'' \<noteq> []"
    by code_simp+
  then show ?thesis
    by (simp add: compile_rule_def silent_rule_def parse_rule_verdict_def)
qed

text \<open>
  The engine itself does not enforce what the harness checks: a rule with \<open>reason: ""\<close> compiles,
  and the call it denies gets a verdict with an empty reason.
\<close>

theorem empty_reason_denies:
  "\<exists>r. compile_rule D nls None silent_rule = Inr r \<and> eval_expr D (cr_when r) no_fields_ctx \<and>
     verdict_for r no_fields_ctx = Deny ''r'' [] None \<and>
     check_verdict \<lparr>exp_verdict = KDeny, exp_rule_id = None\<rparr> (verdict_for r no_fields_ctx) = Inl FxEmptyReason"
proof -
  have "trim [] = []" by code_simp
  then show ?thesis
    unfolding compile_silent_rule
    by (simp add: verdict_for_def no_fields_ctx_def check_verdict_def)
qed

end
