(* ===== verification/Ledger_Core.thy ===== *)
theory Ledger_Core
  imports Writ_Call
begin

text \<open>
  \<open>writ-core/src/ledger.rs\<close>: the ledger record, its hash, the \<open>LedgerStore\<close> interface with the
  \<open>LedgerWriter\<close> on top of it, and chain verification.

  \<open>serde_json\<close>, \<open>sha2\<close> and \<open>hex\<close> are parameters, collected in \<open>ledger_deps\<close>.  What the proofs
  need of them is stated where it is used.  Numbers of type \<open>u64\<close> are natural numbers; the one
  addition whose operand comes from stored data, \<open>t.index + 1\<close>, is taken modulo \<open>2^64\<close>.
\<close>

section \<open>Records\<close>

datatype record_kind = Decision | Execution

record ledger_record =
  schema_version :: nat
  rkind :: record_kind
  index :: nat
  call_id :: str
  session_id :: str
  rcall :: "tool_call option"
  rverdict :: "verdict option"
  rule_id :: "str option"
  rapprover :: "approver_identity option"
  decision_index :: "nat option"
  backend :: "str option"
  exit_status :: "int option"
  input_hash :: str
  output_hash :: "str option"
  recorded_at :: timestamp
  prev_hash :: str
  record_hash :: str

text \<open>Everything except \<open>record_hash\<close>: the input of the hash.\<close>

record record_payload =
  pl_schema_version :: nat
  pl_kind :: record_kind
  pl_index :: nat
  pl_call_id :: str
  pl_session_id :: str
  pl_call :: "tool_call option"
  pl_verdict :: "verdict option"
  pl_rule_id :: "str option"
  pl_approver :: "approver_identity option"
  pl_decision_index :: "nat option"
  pl_backend :: "str option"
  pl_exit_status :: "int option"
  pl_input_hash :: str
  pl_output_hash :: "str option"
  pl_recorded_at :: timestamp
  pl_prev_hash :: str

record ledger_deps =
  sha256 :: "bytes \<Rightarrow> bytes"
  hex_encode :: "bytes \<Rightarrow> str"
  ser_payload :: "record_payload \<Rightarrow> str + bytes"
  ser_call :: "tool_call \<Rightarrow> str + bytes"
  ser_record :: "ledger_record \<Rightarrow> str + str"
  parse_record :: "bytes \<Rightarrow> str + ledger_record"

definition SCHEMA_VERSION :: nat where
  "SCHEMA_VERSION = 1"

definition GENESIS_HASH :: str where
  "GENESIS_HASH = replicate 64 (CHR ''0'')"

definition payload :: "ledger_record \<Rightarrow> record_payload" where
  "payload r =
     \<lparr>pl_schema_version = schema_version r, pl_kind = rkind r, pl_index = index r,
      pl_call_id = call_id r, pl_session_id = session_id r, pl_call = rcall r,
      pl_verdict = rverdict r, pl_rule_id = rule_id r, pl_approver = rapprover r,
      pl_decision_index = decision_index r, pl_backend = backend r, pl_exit_status = exit_status r,
      pl_input_hash = input_hash r, pl_output_hash = output_hash r, pl_recorded_at = recorded_at r,
      pl_prev_hash = prev_hash r\<rparr>"

definition hash_bytes :: "ledger_deps \<Rightarrow> bytes \<Rightarrow> str" where
  "hash_bytes L b = hex_encode L (sha256 L b)"

definition compute_hash :: "ledger_deps \<Rightarrow> ledger_record \<Rightarrow> writ_error + str" where
  "compute_hash L r = rbind (map_err SerdeErr (ser_payload L (payload r))) (\<lambda>b. Inr (hash_bytes L b))"

definition hash_call :: "ledger_deps \<Rightarrow> tool_call \<Rightarrow> writ_error + str" where
  "hash_call L c = rbind (map_err SerdeErr (ser_call L c)) (\<lambda>b. Inr (hash_bytes L b))"

section \<open>The store interface and the writer\<close>

text \<open>
  The methods of a \<open>dyn LedgerStore\<close> that the writer calls.  \<open>tip\<close> takes \<open>&self\<close> but may update
  interior state (the file store refreshes its view), so it returns the state too.
\<close>

record 's store_ops =
  st_append :: "'s \<Rightarrow> ledger_record \<Rightarrow> 's \<times> (writ_error + unit)"
  st_tip :: "'s \<Rightarrow> 's \<times> (writ_error + ledger_record option)"

definition next_index_and_prev :: "'s store_ops \<Rightarrow> 's \<Rightarrow> 's \<times> (writ_error + nat \<times> str)" where
  "next_index_and_prev S s =
     sbind (st_tip S s) (\<lambda>t s.
       (s, Inr (case t of Some t \<Rightarrow> ((index t + 1) mod 2 ^ 64, record_hash t)
                | None \<Rightarrow> (0, GENESIS_HASH))))"

definition finalize :: "ledger_deps \<Rightarrow> 's store_ops \<Rightarrow> ledger_record \<Rightarrow> 's \<Rightarrow> 's \<times> (writ_error + ledger_record)" where
  "finalize L S r s =
     (case compute_hash L r of
        Inl e \<Rightarrow> (s, Inl e)
      | Inr h \<Rightarrow> (let r = r\<lparr>record_hash := h\<rparr>
                 in sbind (st_append S s r) (\<lambda>_ s. (s, Inr r))))"

definition decision_record ::
  "timestamp \<Rightarrow> tool_call \<Rightarrow> verdict \<Rightarrow> approver_identity option \<Rightarrow> nat \<Rightarrow> str \<Rightarrow> str \<Rightarrow> ledger_record" where
  "decision_record now c v apr ix prev ih =
     \<lparr>schema_version = SCHEMA_VERSION, rkind = Decision, index = ix, call_id = tc_call_id c,
      session_id = tc_session_id c, rcall = Some c, rverdict = Some v, rule_id = verdict_rule_id v,
      rapprover = apr, decision_index = None, backend = None, exit_status = None,
      input_hash = ih, output_hash = None, recorded_at = now, prev_hash = prev, record_hash = []\<rparr>"

definition record_decision ::
  "ledger_deps \<Rightarrow> 's store_ops \<Rightarrow> timestamp \<Rightarrow> tool_call \<Rightarrow> verdict \<Rightarrow> approver_identity option \<Rightarrow>
   's \<Rightarrow> 's \<times> (writ_error + ledger_record)" where
  "record_decision L S now c v apr s =
     sbind (next_index_and_prev S s) (\<lambda>(ix, prev) s.
       case hash_call L c of
         Inl e \<Rightarrow> (s, Inl e)
       | Inr ih \<Rightarrow> finalize L S (decision_record now c v apr ix prev ih) s)"

definition execution_record ::
  "timestamp \<Rightarrow> ledger_record \<Rightarrow> str \<Rightarrow> int \<Rightarrow> str \<Rightarrow> nat \<Rightarrow> str \<Rightarrow> ledger_record" where
  "execution_record now d bk status oh ix prev =
     \<lparr>schema_version = SCHEMA_VERSION, rkind = Execution, index = ix, call_id = call_id d,
      session_id = session_id d, rcall = None, rverdict = None, rule_id = rule_id d,
      rapprover = None, decision_index = Some (index d), backend = Some bk, exit_status = Some status,
      input_hash = input_hash d, output_hash = Some oh, recorded_at = now, prev_hash = prev,
      record_hash = []\<rparr>"

definition writer_record_execution ::
  "ledger_deps \<Rightarrow> 's store_ops \<Rightarrow> timestamp \<Rightarrow> ledger_record \<Rightarrow> str \<Rightarrow> int \<Rightarrow> bytes \<Rightarrow>
   's \<Rightarrow> 's \<times> (writ_error + ledger_record)" where
  "writer_record_execution L S now d bk status output s =
     (if rkind d \<noteq> Decision then (s, Inl (LedgerErr ''record_execution requires a decision record''))
      else sbind (next_index_and_prev S s) (\<lambda>(ix, prev) s.
             finalize L S (execution_record now d bk status (hash_bytes L output) ix prev) s))"

section \<open>Verification\<close>

record verify_report =
  vr_records :: nat
  vr_intact :: bool
  vr_broken_at :: "nat option"

text \<open>The loop of \<open>verify_chain\<close> over the items of the iterator.\<close>

fun verify_loop ::
  "ledger_deps \<Rightarrow> str \<Rightarrow> nat \<Rightarrow> (writ_error + ledger_record) list \<Rightarrow> writ_error + verify_report" where
  "verify_loop L prev count [] = Inr \<lparr>vr_records = count, vr_intact = True, vr_broken_at = None\<rparr>"
| "verify_loop L prev count (item # items) =
     rbind item (\<lambda>r.
       if index r = count \<and> prev_hash r = prev \<and>
          (case compute_hash L r of Inr h \<Rightarrow> h = record_hash r | Inl _ \<Rightarrow> False)
       then verify_loop L (record_hash r) (count + 1) items
       else Inr \<lparr>vr_records = count, vr_intact = False, vr_broken_at = Some (index r)\<rparr>)"

definition verify_chain :: "ledger_deps \<Rightarrow> (writ_error + ledger_record) list \<Rightarrow> writ_error + verify_report" where
  "verify_chain L items = verify_loop L GENESIS_HASH 0 items"

section \<open>Valid chains\<close>

text \<open>
  A chain is valid when every record carries its position, the hash of its predecessor and its
  own hash.
\<close>

definition tip_hash :: "ledger_record list \<Rightarrow> str" where
  "tip_hash rs = (if rs = [] then GENESIS_HASH else record_hash (last rs))"

definition extends :: "ledger_deps \<Rightarrow> ledger_record list \<Rightarrow> ledger_record \<Rightarrow> bool" where
  "extends L rs r \<longleftrightarrow> index r = length rs \<and> prev_hash r = tip_hash rs \<and> compute_hash L r = Inr (record_hash r)"

definition chain_valid :: "ledger_deps \<Rightarrow> ledger_record list \<Rightarrow> bool" where
  "chain_valid L rs \<longleftrightarrow> (\<forall>i < length rs. extends L (take i rs) (rs ! i))"

lemma chain_valid_Nil [simp]: "chain_valid L []"
  by (simp add: chain_valid_def)

lemma chain_valid_snoc [simp]: "chain_valid L (rs @ [r]) \<longleftrightarrow> chain_valid L rs \<and> extends L rs r"
  by (auto simp: chain_valid_def less_Suc_eq nth_append)

lemma chain_valid_take: "chain_valid L rs \<Longrightarrow> chain_valid L (take n rs)"
  by (auto simp: chain_valid_def min_def)

lemma chain_valid_append: "chain_valid L (rs @ ts) \<Longrightarrow> chain_valid L rs"
  using chain_valid_take [of L "rs @ ts" "length rs"] by simp

lemma tip_hash_Nil [simp]: "tip_hash [] = GENESIS_HASH"
  and tip_hash_snoc [simp]: "tip_hash (rs @ [r]) = record_hash r"
  by (simp_all add: tip_hash_def)

lemma verify_step:
  "(index r = length pre \<and> prev_hash r = tip_hash pre \<and>
    (case compute_hash L r of Inr h \<Rightarrow> h = record_hash r | Inl _ \<Rightarrow> False)) \<longleftrightarrow> extends L pre r"
  by (auto simp: extends_def split: sum.splits)

lemma verify_loop_valid:
  assumes "chain_valid L (pre @ rs)"
  shows "verify_loop L (tip_hash pre) (length pre) (map Inr rs @ items) =
         verify_loop L (tip_hash (pre @ rs)) (length (pre @ rs)) items"
  using assms
proof (induction rs arbitrary: pre)
  case (Cons r rs)
  have "chain_valid L ((pre @ [r]) @ rs)" using Cons.prems by simp
  then have "extends L pre r" by (metis chain_valid_append chain_valid_snoc)
  then have "verify_loop L (tip_hash pre) (length pre) (map Inr (r # rs) @ items) =
      verify_loop L (record_hash r) (length pre + 1) (map Inr rs @ items)"
    by (simp add: verify_step)
  also have "\<dots> = verify_loop L (tip_hash ((pre @ [r]) @ rs)) (length ((pre @ [r]) @ rs)) items"
    using Cons.IH [of "pre @ [r]"] \<open>chain_valid L ((pre @ [r]) @ rs)\<close> by simp
  finally show ?case by simp
qed simp

lemma verify_chain_valid:
  "chain_valid L rs \<Longrightarrow>
   verify_chain L (map Inr rs) = Inr \<lparr>vr_records = length rs, vr_intact = True, vr_broken_at = None\<rparr>"
  using verify_loop_valid [of L "[]" rs "[]"] by (simp add: verify_chain_def)

lemma verify_chain_broken:
  assumes "chain_valid L rs" and "\<not> extends L rs r"
  shows "verify_chain L (map Inr rs @ Inr r # items) =
           Inr \<lparr>vr_records = length rs, vr_intact = False, vr_broken_at = Some (index r)\<rparr>"
  using verify_loop_valid [of L "[]" rs "Inr r # items"] assms
  by (simp add: verify_chain_def verify_step)

lemma chain_valid_split:
  assumes "\<not> chain_valid L rs"
  obtains pre r post where "rs = pre @ r # post" "chain_valid L pre" "\<not> extends L pre r"
  using assms
proof (induction rs arbitrary: thesis rule: rev_induct)
  case (snoc r rs)
  show ?case
  proof (cases "chain_valid L rs")
    case True
    with snoc.prems show ?thesis by (intro snoc.prems(1) [of rs r "[]"]) auto
  next
    case False
    then obtain pre x post where "rs = pre @ x # post" "chain_valid L pre" "\<not> extends L pre x"
      using snoc.IH by blast
    then show ?thesis by (intro snoc.prems(1) [of pre x "post @ [r]"]) auto
  qed
qed simp

text \<open>
  Verification is exact: on records that can all be read it reports \<open>intact\<close> with their number
  if and only if they form a valid chain; otherwise it reports the length of the longest valid
  prefix, and the index field of the record after it.
\<close>

theorem verify_chain_exact:
  "verify_chain L (map Inr rs) =
     (if chain_valid L rs then Inr \<lparr>vr_records = length rs, vr_intact = True, vr_broken_at = None\<rparr>
      else (let n = length (takeWhile (\<lambda>i. extends L (take i rs) (rs ! i)) [0..<length rs])
            in Inr \<lparr>vr_records = n, vr_intact = False, vr_broken_at = Some (index (rs ! n))\<rparr>))"
proof (cases "chain_valid L rs")
  case False
  then obtain pre r post where rs: "rs = pre @ r # post" and v: "chain_valid L pre" "\<not> extends L pre r"
    by (rule chain_valid_split)
  have "[0..<length rs] = [0..<length pre] @ length pre # [Suc (length pre)..<length rs]"
    using upt_add_eq_append [of 0 "length pre" "length (r # post)"]
    by (simp add: rs upt_conv_Cons del: upt_Suc)
  moreover have "\<forall>i \<in> set [0..<length pre]. extends L (take i rs) (rs ! i)"
    using v(1) by (auto simp: rs chain_valid_def nth_append)
  ultimately have "takeWhile (\<lambda>i. extends L (take i rs) (rs ! i)) [0..<length rs] = [0..<length pre]"
    using v(2) by (simp add: takeWhile_append rs)
  with False show ?thesis
    using verify_chain_broken [OF v, of "map Inr post"] by (simp add: rs)
qed (simp add: verify_chain_valid)

text \<open>
  \<open>broken_at\<close> is the index field stored in the offending record, which whoever altered the
  record chooses, not the position where the chain broke: a ledger whose first record claims
  index 7 is reported broken at 7.
\<close>

theorem broken_at_is_claimed_index:
  "index r = 7 \<Longrightarrow>
   verify_chain L [Inr r] = Inr \<lparr>vr_records = 0, vr_intact = False, vr_broken_at = Some 7\<rparr>"
  using verify_chain_broken [of L "[]" r "[]"] by (simp add: extends_def)

definition example_call :: tool_call where
  "example_call =
     \<lparr>tc_call_id = ''c1'', tc_session_id = ''s1'',
      tc_caller = \<lparr>agent = ''agent'', agent_version = None, user = None, non_human_id = None\<rparr>,
      tc_mode = Mcp, tc_tool = ''shell'', tc_args = JObj [(''command'', JStr ''ls'')],
      tc_server = None, tc_trust = None, tc_captured_at = from_epoch_ms 0\<rparr>"

text \<open>A concrete instance of the parameters, used to check statements on small chains.\<close>

definition toy_deps :: ledger_deps where
  "toy_deps = \<lparr>sha256 = (\<lambda>b. b), hex_encode = (\<lambda>b. b),
     ser_payload = (\<lambda>p. Inr (''{'' @ show_nat (pl_index p) @ '','' @ pl_prev_hash p @ ''}'')),
     ser_call = (\<lambda>c. Inr (tc_tool c)),
     ser_record = (\<lambda>r. Inl ''unused''), parse_record = (\<lambda>b. Inl ''unused'')\<rparr>"

definition toy_record :: "nat \<Rightarrow> str \<Rightarrow> ledger_record" where
  "toy_record ix prev =
     (decision_record (from_epoch_ms 0) example_call (Allow None) None ix prev ''h'')
       \<lparr>record_hash := ''{'' @ show_nat ix @ '','' @ prev @ ''}''\<rparr>"

theorem broken_at_is_claimed_index_witness:
  "verify_chain toy_deps [Inr (toy_record 7 GENESIS_HASH)] =
     Inr \<lparr>vr_records = 0, vr_intact = False, vr_broken_at = Some 7\<rparr>"
  by (rule broken_at_is_claimed_index) (simp add: toy_record_def decision_record_def)

section \<open>Tamper evidence\<close>

lemma compute_hash_eq_Inr:
  "compute_hash L r = Inr h \<longleftrightarrow> (\<exists>b. ser_payload L (payload r) = Inr b \<and> h = hash_bytes L b)"
  by (auto simp: compute_hash_def result_simps)

lemma record_eqI: "payload r = payload r' \<Longrightarrow> record_hash r = record_hash r' \<Longrightarrow> r = r'"
  by (cases r; cases r') (simp add: payload_def)

text \<open>
  What the hash chain relies on, for the payloads of two given ledgers: serialization tells them
  apart, and the digest has no collision among their serializations.
\<close>

definition payload_bytes :: "ledger_deps \<Rightarrow> ledger_record set \<Rightarrow> bytes set" where
  "payload_bytes L R = {b. \<exists>r \<in> R. ser_payload L (payload r) = Inr b}"

definition hash_distinguishes :: "ledger_deps \<Rightarrow> ledger_record set \<Rightarrow> bool" where
  "hash_distinguishes L R \<longleftrightarrow> inj_on (ser_payload L) (payload ` R) \<and> inj_on (hash_bytes L) (payload_bytes L R)"

lemma same_hash_same_record:
  assumes "hash_distinguishes L R" and "r \<in> R" and "r' \<in> R"
    and "compute_hash L r = Inr (record_hash r)" and "compute_hash L r' = Inr (record_hash r')"
    and "record_hash r = record_hash r'"
  shows "r = r'"
proof -
  obtain b b' where b: "ser_payload L (payload r) = Inr b" "ser_payload L (payload r') = Inr b'"
      "hash_bytes L b = hash_bytes L b'"
    using assms(4-6) by (auto simp: compute_hash_eq_Inr)
  have "b \<in> payload_bytes L R" "b' \<in> payload_bytes L R"
    using assms(2,3) b by (auto simp: payload_bytes_def)
  then have "b = b'"
    using assms(1) b(3) by (auto simp: hash_distinguishes_def inj_on_def)
  then have "payload r = payload r'"
    using assms(1-3) b by (auto simp: hash_distinguishes_def inj_on_def)
  with assms(6) show ?thesis by (simp add: record_eqI)
qed

lemma chain_valid_nth: "chain_valid L rs \<Longrightarrow> i < length rs \<Longrightarrow> extends L (take i rs) (rs ! i)"
  by (simp add: chain_valid_def)

lemma tip_determines_prefix:
  assumes "chain_valid L rs" and "chain_valid L rs'" and "hash_distinguishes L (set rs \<union> set rs')"
    and "i < length rs" and "i < length rs'" and "record_hash (rs ! i) = record_hash (rs' ! i)"
  shows "take (Suc i) rs = take (Suc i) rs'"
  using assms(4-6)
proof (induction i)
  case (Suc i)
  have e: "extends L (take (Suc i) rs) (rs ! Suc i)" "extends L (take (Suc i) rs') (rs' ! Suc i)"
    using Suc.prems assms(1,2) by (auto intro: chain_valid_nth)
  then have eq: "rs ! Suc i = rs' ! Suc i"
    using Suc.prems assms(3) by (intro same_hash_same_record [OF assms(3)]) (auto simp: extends_def)
  then have "record_hash (rs ! i) = record_hash (rs' ! i)"
    using e Suc.prems by (simp add: extends_def tip_hash_def take_Suc_conv_app_nth)
  with Suc have "take (Suc i) rs = take (Suc i) rs'" by simp
  with eq Suc.prems show ?case by (simp add: take_Suc_conv_app_nth)
next
  case 0
  have "extends L (take 0 rs) (rs ! 0)" "extends L (take 0 rs') (rs' ! 0)"
    using 0 chain_valid_nth [OF assms(1), of 0] chain_valid_nth [OF assms(2), of 0] by auto
  then have "rs ! 0 = rs' ! 0"
    using 0 assms(3) by (intro same_hash_same_record [OF assms(3)]) (auto simp: extends_def)
  with 0 show ?case by (simp add: take_Suc_conv_app_nth)
qed

text \<open>
  C9. Tamper evidence: if two ledgers both verify as intact and a record of one has the same hash
  as a record of the other, then the two records are at the same position and everything up to
  there is identical.  So whoever remembers one record hash can detect any later change of that
  record or of anything before it, insertions, deletions and reorderings included.
\<close>

theorem verified_hash_pins_history:
  assumes "verify_chain L (map Inr rs) = Inr rep" and "vr_intact rep"
    and "verify_chain L (map Inr rs') = Inr rep'" and "vr_intact rep'"
    and "hash_distinguishes L (set rs \<union> set rs')"
    and "i < length rs" and "j < length rs'" and "record_hash (rs ! i) = record_hash (rs' ! j)"
  shows "i = j \<and> take (Suc i) rs = take (Suc j) rs'"
proof -
  have v: "chain_valid L rs" "chain_valid L rs'"
    using assms(1-4) by (auto simp: verify_chain_exact Let_def split: if_splits)
  then have e: "extends L (take i rs) (rs ! i)" "extends L (take j rs') (rs' ! j)"
    using assms by (auto intro: chain_valid_nth)
  then have "rs ! i = rs' ! j"
    using assms by (intro same_hash_same_record [OF assms(5)]) (auto simp: extends_def)
  then have "i = j" using e assms by (simp add: extends_def)
  with tip_determines_prefix [OF v assms(5)] assms show ?thesis by blast
qed

definition toy_ledger :: "ledger_record list" where
  "toy_ledger = [toy_record 0 GENESIS_HASH, toy_record 1 (record_hash (toy_record 0 GENESIS_HASH))]"

lemma toy_ledger_verifies:
  "verify_chain toy_deps (map Inr toy_ledger) = Inr \<lparr>vr_records = 2, vr_intact = True, vr_broken_at = None\<rparr>"
  "verify_chain toy_deps (map Inr (take 1 toy_ledger)) = Inr \<lparr>vr_records = 1, vr_intact = True, vr_broken_at = None\<rparr>"
  by (simp_all add: verify_chain_def toy_ledger_def toy_record_def decision_record_def compute_hash_def
      hash_bytes_def toy_deps_def payload_def)

lemma toy_distinguishes: "hash_distinguishes toy_deps (set toy_ledger)"
proof -
  have "show_nat 0 = ''0''" "show_nat (Suc 0) = ''1''" by code_simp+
  then show ?thesis
    by (simp add: hash_distinguishes_def payload_bytes_def toy_ledger_def toy_record_def decision_record_def
        payload_def hash_bytes_def toy_deps_def inj_on_def)
qed

theorem verified_hash_pins_history_witness:
  "record_hash (toy_ledger ! 0) = record_hash (take 1 toy_ledger ! 0) \<and>
   take (Suc 0) toy_ledger = take (Suc 0) (take 1 toy_ledger)"
  using verified_hash_pins_history [OF toy_ledger_verifies(1) _ toy_ledger_verifies(2) _, of 0 0] toy_distinguishes
  by (simp add: toy_ledger_def)

section \<open>What a store promises\<close>

text \<open>
  \<open>serde_json\<close> is used without its \<open>float_roundtrip\<close> feature, so a call whose arguments contain
  floating-point numbers need not be read back as it was written.  Statements about what is read
  back are about records without them.
\<close>

fun float_free :: "json \<Rightarrow> bool" where
  "float_free (JNum (Float _)) = False"
| "float_free (JArr xs) = list_all float_free xs"
| "float_free (JObj kvs) = list_all (\<lambda>(k, v). float_free v) kvs"
| "float_free _ = True"

definition exact_record :: "ledger_record \<Rightarrow> bool" where
  "exact_record r = (case rcall r of None \<Rightarrow> True | Some c \<Rightarrow> float_free (tc_args c))"

lemma exact_record_simps [simp]:
  "exact_record (r\<lparr>record_hash := h\<rparr>) = exact_record r"
  "exact_record (decision_record now c v apr ix prev ih) = float_free (tc_args c)"
  "exact_record (execution_record now d bk status oh ix prev)"
  by (simp_all add: exact_record_def decision_record_def execution_record_def)

lemma compute_hash_record_hash [simp]: "compute_hash L (r\<lparr>record_hash := h\<rparr>) = compute_hash L r"
  by (simp add: compute_hash_def payload_def)

text \<open>
  The contract of \<open>LedgerStore\<close>, with the chain a state holds as its abstraction: the tip is the
  last record, an accepted record is added at the end, a failed append adds nothing, and what is
  held is a valid chain.  A store that is \<open>ready\<close> (its lock is free) accepts a record
  that extends the chain and can be serialized.
\<close>

locale ledger_store =
  fixes L :: ledger_deps
    and S :: "'s store_ops"
    and chain :: "'s \<Rightarrow> ledger_record list"
    and inv :: "'s \<Rightarrow> bool"
    and ready :: "'s \<Rightarrow> bool"
  assumes inv_valid: "inv s \<Longrightarrow> chain_valid L (chain s)"
    and tip_ok: "inv s \<Longrightarrow> \<exists>s'. inv s' \<and> chain s' = chain s \<and> ready s' = ready s \<and>
          st_tip S s = (s', Inr (if chain s = [] then None else Some (last (chain s))))"
    and append_ok: "inv s \<Longrightarrow> exact_record r \<Longrightarrow> st_append S s r = (s', Inr ()) \<Longrightarrow>
          inv s' \<and> chain s' = chain s @ [r]"
    and append_err: "inv s \<Longrightarrow> st_append S s r = (s', Inl e) \<Longrightarrow> inv s' \<and> chain s' = chain s"
    and append_ready: "inv s \<Longrightarrow> ready s \<Longrightarrow> extends L (chain s) r \<Longrightarrow> ser_record L r = Inr b \<Longrightarrow>
          \<exists>s'. st_append S s r = (s', Inr ())"
begin

lemma tip_hash_of_tip:
  assumes "inv s"
  obtains s' where "inv s'" "chain s' = chain s" "ready s' = ready s"
    "next_index_and_prev S s = (s', Inr (length (chain s) mod 2 ^ 64, tip_hash (chain s)))"
proof -
  obtain s' where s': "inv s'" "chain s' = chain s" "ready s' = ready s"
      "st_tip S s = (s', Inr (if chain s = [] then None else Some (last (chain s))))"
    using tip_ok [OF assms] by blast
  have "index (last (chain s)) + 1 = length (chain s)" if "chain s \<noteq> []"
    using inv_valid [OF assms] that by (cases "chain s" rule: rev_cases) (auto simp: extends_def)
  with s' show thesis
    by (intro that [of s']) (auto simp: next_index_and_prev_def tip_hash_def)
qed

lemma finalize_ok:
  assumes "inv s" and "exact_record r" and "finalize L S r s = (s', Inr rec)"
  shows "inv s' \<and> chain s' = chain s @ [rec] \<and> rec = r\<lparr>record_hash := record_hash rec\<rparr>"
proof -
  from assms(3) obtain h where "st_append S s (r\<lparr>record_hash := h\<rparr>) = (s', Inr ())" "rec = r\<lparr>record_hash := h\<rparr>"
    by (auto simp: finalize_def Let_def result_simps split: sum.splits)
  with append_ok [OF assms(1) _ this(1)] assms(2) show ?thesis by simp
qed

lemma finalize_err:
  assumes "inv s" and "finalize L S r s = (s', Inl e)"
  shows "inv s' \<and> chain s' = chain s"
  using assms append_err [OF assms(1)]
  by (auto simp: finalize_def Let_def result_simps split: sum.splits)

lemma finalize_ready:
  assumes "inv s" and "ready s" and "index r = length (chain s)" and "prev_hash r = tip_hash (chain s)"
    and "compute_hash L r = Inr h" and "ser_record L (r\<lparr>record_hash := h\<rparr>) = Inr b"
  shows "\<exists>s'. finalize L S r s = (s', Inr (r\<lparr>record_hash := h\<rparr>))"
proof -
  have "extends L (chain s) (r\<lparr>record_hash := h\<rparr>)" using assms by (simp add: extends_def)
  with append_ready [OF assms(1,2) _ assms(6)] show ?thesis
    using assms(5) by (auto simp: finalize_def Let_def)
qed

lemma record_decision_ok:
  assumes "inv s" and "float_free (tc_args c)" and "record_decision L S now c v apr s = (s', Inr rec)"
  shows "inv s' \<and> chain s' = chain s @ [rec] \<and> rkind rec = Decision \<and> rcall rec = Some c \<and>
         rverdict rec = Some v \<and> rapprover rec = apr \<and> index rec = length (chain s)"
proof -
  obtain s1 where s1: "inv s1" "chain s1 = chain s"
      "next_index_and_prev S s = (s1, Inr (length (chain s) mod 2 ^ 64, tip_hash (chain s)))"
    using tip_hash_of_tip [OF assms(1)] by blast
  with assms(3) obtain ih where
    f: "finalize L S (decision_record now c v apr (length (chain s) mod 2 ^ 64) (tip_hash (chain s)) ih) s1 = (s', Inr rec)"
    by (auto simp: record_decision_def split: sum.splits)
  from finalize_ok [OF s1(1) _ f] assms(2) s1(2)
  have r: "inv s'" "chain s' = chain s @ [rec]"
      "rec = (decision_record now c v apr (length (chain s) mod 2 ^ 64) (tip_hash (chain s)) ih)\<lparr>record_hash := record_hash rec\<rparr>"
    by auto
  have "index rec = length (chain s)"
    using inv_valid [OF r(1)] by (simp add: r(2) extends_def)
  moreover have "rkind rec = Decision \<and> rcall rec = Some c \<and> rverdict rec = Some v \<and> rapprover rec = apr"
    by (subst r(3), subst (2) r(3), subst (3) r(3), subst (4) r(3)) (simp add: decision_record_def)
  ultimately show ?thesis using r by blast
qed

lemma record_decision_err:
  assumes "inv s" and "record_decision L S now c v apr s = (s', Inl e)"
  shows "inv s' \<and> chain s' = chain s"
proof -
  obtain s1 where "inv s1" "chain s1 = chain s"
      "next_index_and_prev S s = (s1, Inr (length (chain s) mod 2 ^ 64, tip_hash (chain s)))"
    using tip_hash_of_tip [OF assms(1)] by blast
  with assms(2) show ?thesis
    by (auto simp: record_decision_def dest: finalize_err split: sum.splits)
qed

lemma record_execution_ok:
  assumes "inv s" and "writer_record_execution L S now d bk status output s = (s', Inr rec)"
  shows "rkind d = Decision \<and> inv s' \<and> chain s' = chain s @ [rec] \<and> rkind rec = Execution \<and>
         decision_index rec = Some (index d) \<and> call_id rec = call_id d \<and>
         output_hash rec = Some (hash_bytes L output) \<and> index rec = length (chain s)"
proof -
  have d: "rkind d = Decision" using assms(2) by (auto simp: writer_record_execution_def split: if_splits)
  obtain s1 where s1: "inv s1" "chain s1 = chain s"
      "next_index_and_prev S s = (s1, Inr (length (chain s) mod 2 ^ 64, tip_hash (chain s)))"
    using tip_hash_of_tip [OF assms(1)] by blast
  with assms(2) d have
    f: "finalize L S (execution_record now d bk status (hash_bytes L output) (length (chain s) mod 2 ^ 64) (tip_hash (chain s))) s1 = (s', Inr rec)"
    by (simp add: writer_record_execution_def)
  from finalize_ok [OF s1(1) _ f] s1(2)
  have r: "inv s'" "chain s' = chain s @ [rec]"
      "rec = (execution_record now d bk status (hash_bytes L output) (length (chain s) mod 2 ^ 64) (tip_hash (chain s)))
         \<lparr>record_hash := record_hash rec\<rparr>"
    by auto
  have "index rec = length (chain s)"
    using inv_valid [OF r(1)] by (simp add: r(2) extends_def)
  moreover have "rkind rec = Execution \<and> decision_index rec = Some (index d) \<and> call_id rec = call_id d \<and>
      output_hash rec = Some (hash_bytes L output)"
    by (subst r(3), subst (2) r(3), subst (3) r(3), subst (4) r(3)) (simp add: execution_record_def)
  ultimately show ?thesis using r d by blast
qed

lemma writer_record_execution_err:
  assumes "inv s" and "writer_record_execution L S now d bk status output s = (s', Inl e)"
  shows "inv s' \<and> chain s' = chain s"
proof -
  obtain s1 where "inv s1" "chain s1 = chain s"
      "next_index_and_prev S s = (s1, Inr (length (chain s) mod 2 ^ 64, tip_hash (chain s)))"
    using tip_hash_of_tip [OF assms(1)] by blast
  with assms finalize_err show ?thesis by (fastforce simp: writer_record_execution_def split: if_splits)
qed

lemma record_decision_ready:
  assumes "inv s" and "ready s" and "length (chain s) < 2 ^ 64" and "hash_call L c = Inr ih"
    and "\<And>p. \<exists>b. ser_payload L p = Inr b" and "\<And>r. exact_record r \<Longrightarrow> \<exists>b. ser_record L r = Inr b"
    and "float_free (tc_args c)"
  shows "\<exists>s' rec. record_decision L S now c v apr s = (s', Inr rec)"
proof -
  obtain s1 where s1: "inv s1" "chain s1 = chain s" "ready s1 = ready s"
      "next_index_and_prev S s = (s1, Inr (length (chain s) mod 2 ^ 64, tip_hash (chain s)))"
    using tip_hash_of_tip [OF assms(1)] by blast
  let ?r = "decision_record now c v apr (length (chain s)) (tip_hash (chain s)) ih"
  obtain b where "ser_payload L (payload ?r) = Inr b" using assms(5) by blast
  then have h: "compute_hash L ?r = Inr (hash_bytes L b)" by (simp add: compute_hash_def)
  obtain b' where "ser_record L (?r\<lparr>record_hash := hash_bytes L b\<rparr>) = Inr b'"
    using assms(6) [of "?r\<lparr>record_hash := hash_bytes L b\<rparr>"] assms(7) by auto
  from finalize_ready [OF s1(1) _ _ _ h this] show ?thesis
    using s1 assms(2-4) by (auto simp: record_decision_def decision_record_def)
qed

end

end
