(* ===== verification/File_Store.thy ===== *)
theory File_Store
  imports Ledger_Core
begin

text \<open>
  \<open>writ-ledger/src/file_store.rs\<close>: the append-only JSONL store, at the level of the bytes of the
  file, with \<open>verify.rs\<close> and the record queries of \<open>query.rs\<close> on top of its record stream.

  A handle's state is an \<open>fstore\<close>: what \<open>FileLedgerStore\<close> holds (its two paths, by their
  \<open>{:?}\<close> text, and the \<open>ChainState\<close>), the bytes the file has, and what the operating system
  answers to the next request for the lock.  Failures of single reads and writes of the file are
  not modelled, a writer that dies between two of its writes is (theory \<open>File_Writers\<close>).
\<close>

section \<open>Data\<close>

record chain_state =
  cs_offset :: nat
  cs_len :: nat
  cs_tip_hash :: str
  cs_tip_record :: "ledger_record option"

definition chain_state_empty :: chain_state where
  "chain_state_empty = \<lparr>cs_offset = 0, cs_len = 0, cs_tip_hash = GENESIS_HASH, cs_tip_record = None\<rparr>"

datatype lock_outcome = LockAcquired | LockIoError str | LockTimedOut

record fstore =
  fs_path :: str
  fs_lock_path :: str
  fs_lock :: lock_outcome
  fs_file :: bytes
  fs_state :: chain_state

definition APPEND_RETRIES :: nat where
  "APPEND_RETRIES = 64"

abbreviation nl :: char where
  "nl \<equiv> CHR 0x0A"

text \<open>\<open>str::lines\<close>: a final line end adds no line, and one CR before a LF is dropped.\<close>

definition strip_cr :: "str \<Rightarrow> str" where
  "strip_cr l = (if l \<noteq> [] \<and> last l = CHR 0x0D then butlast l else l)"

definition str_lines :: "str \<Rightarrow> str list" where
  "str_lines s =
     (let ps = split_on (\<lambda>c. c = nl) s
      in map strip_cr (butlast ps) @ (if last ps = [] then [] else [last ps]))"

section \<open>Reading\<close>

definition trim_ascii :: "bytes \<Rightarrow> bytes" where
  "trim_ascii b = rev (dropWhile is_ascii_whitespace (rev (dropWhile is_ascii_whitespace b)))"

text \<open>\<open>read_until(b'\n')\<close>: the bytes up to and including the next line feed, or all that is left.\<close>

fun read_until_nl :: "bytes \<Rightarrow> bytes" where
  "read_until_nl [] = []"
| "read_until_nl (c # b) = (if c = nl then [c] else c # read_until_nl b)"

lemma read_until_nl_progress [simp]: "b \<noteq> [] \<Longrightarrow> length b - length (read_until_nl b) < length b"
  by (cases b) auto

definition err_lock :: "fstore \<Rightarrow> writ_error" where
  "err_lock s = LedgerErr (''ledger '' @ fs_path s @ '': another writer held '' @ fs_lock_path s @
     '' for more than 10s (fail closed)'')"

definition lock :: "fstore \<Rightarrow> writ_error + unit" where
  "lock s = (case fs_lock s of LockAcquired \<Rightarrow> Inr () | LockIoError e \<Rightarrow> Inl (IoErr e)
             | LockTimedOut \<Rightarrow> Inl (err_lock s))"

text \<open>The loop of \<open>refresh\<close> on the bytes from \<open>offset\<close> on.\<close>

function refresh_loop ::
  "ledger_deps \<Rightarrow> str \<Rightarrow> bytes \<Rightarrow> chain_state \<Rightarrow> chain_state \<times> (writ_error + bool)" where
  "refresh_loop L path b st =
     (if b = [] then (st, Inr False)
      else
        let line = read_until_nl b; rest = drop (length line) b; trimmed = trim_ascii line
        in if trimmed = [] then refresh_loop L path rest (st\<lparr>cs_offset := cs_offset st + length line\<rparr>)
           else case parse_record L trimmed of
             Inr r \<Rightarrow>
               if index r \<noteq> cs_len st
               then (st, Inl (LedgerErr (''ledger '' @ path @ '': record index '' @ show_nat (index r) @
                      '' out of sequence (expected '' @ show_nat (cs_len st) @ '')'')))
               else if prev_hash r \<noteq> cs_tip_hash st
               then (st, Inl (LedgerErr (''ledger '' @ path @ '': record '' @ show_nat (index r) @
                      '' prev_hash does not match the chain tip'')))
               else refresh_loop L path rest
                      \<lparr>cs_offset = cs_offset st + length line, cs_len = cs_len st + 1,
                       cs_tip_hash = record_hash r, cs_tip_record = Some r\<rparr>
           | Inl e \<Rightarrow>
               if \<not> ends_with line [nl] then (st, Inr True)
               else if trim_ascii rest = [] then (st, Inr True)
               else (st, Inl (LedgerErr (''ledger '' @ path @ '': corrupt record at index '' @
                      show_nat (cs_len st) @ '' (mid-file corruption): '' @ e))))"
  by pat_completeness auto
termination
  by (relation "measure (\<lambda>(L, path, b, st). length b)") auto

declare refresh_loop.simps [simp del]

definition refresh :: "ledger_deps \<Rightarrow> fstore \<Rightarrow> fstore \<times> (writ_error + bool)" where
  "refresh L s =
     (if length (fs_file s) < cs_offset (fs_state s)
      then (s, Inl (LedgerErr (''ledger '' @ fs_path s @
             '' shrank below its last committed record (truncated or rewritten)'')))
      else (let (st, r) = refresh_loop L (fs_path s) (drop (cs_offset (fs_state s)) (fs_file s)) (fs_state s)
            in (s\<lparr>fs_state := st\<rparr>, r)))"

section \<open>Writing\<close>

definition repair_tail :: "fstore \<Rightarrow> fstore \<times> (writ_error + nat)" where
  "repair_tail s =
     (let offset = cs_offset (fs_state s);
          f = (if length (fs_file s) > offset then take offset (fs_file s) else fs_file s)
      in if offset > 0 then
           (if offset - 1 < length f then
              (if f ! (offset - 1) \<noteq> nl
               then (s\<lparr>fs_file := take offset f @ [nl] @ drop (offset + 1) f,
                       fs_state := (fs_state s)\<lparr>cs_offset := offset + 1\<rparr>\<rparr>, Inr (offset + 1))
               else (s\<lparr>fs_file := f\<rparr>, Inr offset))
            else (s\<lparr>fs_file := f\<rparr>, Inl (IoErr ''failed to fill whole buffer'')))
         else (s\<lparr>fs_file := f\<rparr>, Inr offset))"

definition append_index_error :: "ledger_record \<Rightarrow> nat \<Rightarrow> writ_error" where
  "append_index_error r len = LedgerErr (''append rejected: record index '' @ show_nat (index r) @
     '' but ledger length is '' @ show_nat len @ '' (records are append-only and sequential)'')"

definition append_prev_error :: "ledger_record \<Rightarrow> writ_error" where
  "append_prev_error r = LedgerErr (''append rejected: record '' @ show_nat (index r) @
     '' prev_hash does not match the ledger tip'')"

definition append_hash_error :: "ledger_record \<Rightarrow> writ_error" where
  "append_hash_error r = LedgerErr (''append rejected: record '' @ show_nat (index r) @
     '' record_hash does not match its contents'')"

text \<open>\<open>append\<close> up to the write, under the lock; the result is the line and the end of the file.\<close>

definition append_prepare ::
  "ledger_deps \<Rightarrow> fstore \<Rightarrow> ledger_record \<Rightarrow> fstore \<times> (writ_error + bytes \<times> nat)" where
  "append_prepare L s r =
     sbind (s, compute_hash L r) (\<lambda>h s.
     if h \<noteq> record_hash r then (s, Inl (append_hash_error r)) else
     sbind (s, map_err SerdeErr (ser_record L r)) (\<lambda>text s.
     sbind (s, lock s) (\<lambda>_ s.
     sbind (refresh L s) (\<lambda>_ s.
     if index r \<noteq> cs_len (fs_state s) then (s, Inl (append_index_error r (cs_len (fs_state s))))
     else if prev_hash r \<noteq> cs_tip_hash (fs_state s) then (s, Inl (append_prev_error r))
     else sbind (repair_tail s) (\<lambda>end s. (s, Inr (text @ [nl], end)))))))"

text \<open>The write itself, and what the handle remembers after it.\<close>

definition append_commit :: "ledger_record \<Rightarrow> bytes \<Rightarrow> nat \<Rightarrow> fstore \<Rightarrow> fstore" where
  "append_commit r line end s =
     s\<lparr>fs_file := fs_file s @ line,
       fs_state := \<lparr>cs_offset = end + length line, cs_len = cs_len (fs_state s) + 1,
                    cs_tip_hash = record_hash r, cs_tip_record = Some r\<rparr>\<rparr>"

definition fs_append :: "ledger_deps \<Rightarrow> fstore \<Rightarrow> ledger_record \<Rightarrow> fstore \<times> (writ_error + unit)" where
  "fs_append L s r = sbind (append_prepare L s r) (\<lambda>(line, end) s. (append_commit r line end s, Inr ()))"

definition fs_tip :: "ledger_deps \<Rightarrow> fstore \<Rightarrow> fstore \<times> (writ_error + ledger_record option)" where
  "fs_tip L s = sbind (refresh L s) (\<lambda>_ s. (s, Inr (cs_tip_record (fs_state s))))"

definition fs_len :: "ledger_deps \<Rightarrow> fstore \<Rightarrow> fstore \<times> nat" where
  "fs_len L s = (let s = fst (refresh L s) in (s, cs_len (fs_state s)))"

text \<open>\<open>open\<close> on a file with the given contents (an absent file is created empty).\<close>

definition fs_open ::
  "ledger_deps \<Rightarrow> str \<Rightarrow> str \<Rightarrow> lock_outcome \<Rightarrow> bytes \<Rightarrow> fstore \<times> (writ_error + unit)" where
  "fs_open L path lock_path lk file =
     sbind (refresh L \<lparr>fs_path = path, fs_lock_path = lock_path, fs_lock = lk, fs_file = file,
                       fs_state = chain_state_empty\<rparr>) (\<lambda>torn s.
       if torn then
         sbind (s, lock s) (\<lambda>_ s. sbind (refresh L s) (\<lambda>_ s. sbind (repair_tail s) (\<lambda>_ s. (s, Inr ()))))
       else (s, Inr ()))"

text \<open>\<open>record_iter\<close>: the items of the stream over a file's bytes.\<close>

function record_iter :: "ledger_deps \<Rightarrow> bytes \<Rightarrow> (writ_error + ledger_record) list" where
  "record_iter L b =
     (if b = [] then []
      else
        let line = read_until_nl b; rest = drop (length line) b; trimmed = trim_ascii line
        in if trimmed = [] then record_iter L rest
           else case parse_record L trimmed of
             Inr r \<Rightarrow> Inr r # record_iter L rest
           | Inl e \<Rightarrow> if \<not> ends_with line [nl] then [] else Inl (SerdeErr e) # record_iter L rest)"
  by pat_completeness auto
termination
  by (relation "measure (\<lambda>(L, b). length b)") auto

declare record_iter.simps [simp del]

fun get_loop :: "nat \<Rightarrow> (writ_error + ledger_record) list \<Rightarrow> writ_error + ledger_record option" where
  "get_loop ix [] = Inr None"
| "get_loop ix (item # items) =
     rbind item (\<lambda>r. if index r = ix then Inr (Some r) else if index r > ix then Inr None else get_loop ix items)"

definition fs_get :: "ledger_deps \<Rightarrow> fstore \<Rightarrow> nat \<Rightarrow> writ_error + ledger_record option" where
  "fs_get L s ix = get_loop ix (record_iter L (fs_file s))"

section \<open>Races\<close>

fun is_append_race :: "writ_error \<Rightarrow> bool" where
  "is_append_race (LedgerErr m) =
     (starts_with m ''append rejected'' \<and>
      (str_contains m ''but ledger length is'' \<or> str_contains m ''prev_hash does not match the ledger tip''))"
| "is_append_race _ = False"

text \<open>\<open>retry_append\<close>: \<open>left\<close> is \<open>APPEND_RETRIES - attempt\<close>; the sleeps are not modelled.\<close>

fun retry_loop :: "nat \<Rightarrow> ('s \<Rightarrow> 's \<times> (writ_error + 'a)) \<Rightarrow> 's \<Rightarrow> 's \<times> (writ_error + 'a)" where
  "retry_loop left f s =
     (case f s of
        (s', Inl e) \<Rightarrow> (if is_append_race e then (case left of 0 \<Rightarrow> (s', Inl e) | Suc n \<Rightarrow> retry_loop n f s') else (s', Inl e))
      | (s', Inr a) \<Rightarrow> (s', Inr a))"

definition retry_append :: "('s \<Rightarrow> 's \<times> (writ_error + 'a)) \<Rightarrow> 's \<Rightarrow> 's \<times> (writ_error + 'a)" where
  "retry_append f s = retry_loop APPEND_RETRIES f s"

section \<open>What serialization provides\<close>

text \<open>
  The behaviour of \<open>serde_json\<close> on ledger records: compact output, so no line feed and no outer
  white space; a value is read back as it was written (floating-point arguments apart); and the
  text is a JSON object, none of whose proper prefixes is one.
\<close>

definition serde_laws :: "ledger_deps \<Rightarrow> bool" where
  "serde_laws L \<longleftrightarrow>
     (\<forall>r s. exact_record r \<and> ser_record L r = Inr s \<longrightarrow>
        parse_record L s = Inr r \<and> s \<noteq> [] \<and> nl \<notin> set s \<and>
        \<not> is_ascii_whitespace (hd s) \<and> \<not> is_ascii_whitespace (last s) \<and>
        (\<forall>p. strict_prefix p s \<longrightarrow> ok (parse_record L p) = None))"

text \<open>The text of a record that can be written, and the file that holds some records.\<close>

definition rtext :: "ledger_deps \<Rightarrow> ledger_record \<Rightarrow> bytes" where
  "rtext L r = (case ser_record L r of Inr s \<Rightarrow> s | Inl _ \<Rightarrow> [])"

definition writable :: "ledger_deps \<Rightarrow> ledger_record \<Rightarrow> bool" where
  "writable L r \<longleftrightarrow> exact_record r \<and> (\<exists>s. ser_record L r = Inr s)"

definition flines :: "ledger_deps \<Rightarrow> ledger_record list \<Rightarrow> bytes" where
  "flines L rs = concat (map (\<lambda>r. rtext L r @ [nl]) rs)"

lemma flines_simps [simp]:
  "flines L [] = []" "flines L (r # rs) = rtext L r @ [nl] @ flines L rs"
  "flines L (rs @ ts) = flines L rs @ flines L ts"
  by (simp_all add: flines_def)

lemma serde_lawsD:
  assumes "serde_laws L" and "writable L r"
  shows "ser_record L r = Inr (rtext L r)" "parse_record L (rtext L r) = Inr r" "rtext L r \<noteq> []"
    "nl \<notin> set (rtext L r)" "\<not> is_ascii_whitespace (hd (rtext L r))"
    "\<not> is_ascii_whitespace (last (rtext L r))"
    "strict_prefix p (rtext L r) \<Longrightarrow> \<exists>e. parse_record L p = Inl e"
proof -
  obtain s where s: "exact_record r" "ser_record L r = Inr s" using assms(2) by (auto simp: writable_def)
  then have t: "rtext L r = s" by (simp add: rtext_def)
  have law: "parse_record L s = Inr r \<and> s \<noteq> [] \<and> nl \<notin> set s \<and>
      \<not> is_ascii_whitespace (hd s) \<and> \<not> is_ascii_whitespace (last s) \<and>
      (\<forall>p. strict_prefix p s \<longrightarrow> ok (parse_record L p) = None)"
    using assms(1) s unfolding serde_laws_def by blast
  show "ser_record L r = Inr (rtext L r)" "parse_record L (rtext L r) = Inr r" "rtext L r \<noteq> []"
    "nl \<notin> set (rtext L r)" "\<not> is_ascii_whitespace (hd (rtext L r))"
    "\<not> is_ascii_whitespace (last (rtext L r))"
    using law s t by simp_all
  show "\<exists>e. parse_record L p = Inl e" if "strict_prefix p (rtext L r)"
    using law that t by (cases "parse_record L p") auto
qed

lemma is_ascii_whitespace_nl [simp]: "is_ascii_whitespace nl"
  by (simp add: is_ascii_whitespace_def code_def)

lemma trim_ascii_nl [simp]: "trim_ascii [nl] = []"
  by (simp add: trim_ascii_def)

lemma trim_ascii_Nil [simp]: "trim_ascii [] = []"
  by (simp add: trim_ascii_def)

lemma trim_ascii_text:
  assumes "t \<noteq> []" and "\<not> is_ascii_whitespace (hd t)" and "\<not> is_ascii_whitespace (last t)"
  shows "trim_ascii t = t" and "trim_ascii (t @ [nl]) = t"
proof -
  obtain c u where t: "t = c # u" using assms(1) by (cases t) auto
  obtain v d where t': "t = v @ [d]" using assms(1) by (cases t rule: rev_cases) auto
  have "dropWhile is_ascii_whitespace t = t" "dropWhile is_ascii_whitespace (t @ [nl]) = t @ [nl]"
    using assms(2) by (simp_all add: t)
  moreover have "dropWhile is_ascii_whitespace (rev t) = rev t" using assms(3) by (simp add: t')
  ultimately show "trim_ascii t = t" "trim_ascii (t @ [nl]) = t" by (simp_all add: trim_ascii_def)
qed

lemma trim_ascii_prefix:
  assumes "t \<noteq> []" and "\<not> is_ascii_whitespace (hd t)"
  shows "prefix (trim_ascii t) t" and "trim_ascii t \<noteq> []"
proof -
  obtain c u where t: "t = c # u" using assms(1) by (cases t) auto
  have d: "dropWhile is_ascii_whitespace t = t" using assms(2) by (simp add: t)
  let ?e = "dropWhile is_ascii_whitespace (rev t)"
  have "rev t = takeWhile is_ascii_whitespace (rev t) @ ?e" by simp
  then have "rev (rev t) = rev ?e @ rev (takeWhile is_ascii_whitespace (rev t))"
    by (metis rev_append)
  then have "prefix (rev ?e) t" by (metis prefixI rev_rev_ident)
  then show "prefix (trim_ascii t) t" by (simp only: trim_ascii_def d)
  have "?e \<noteq> []" using assms(2) by (auto simp: t dropWhile_eq_Nil_conv)
  then show "trim_ascii t \<noteq> []" by (simp only: trim_ascii_def d) simp
qed

lemma read_until_nl_line [simp]: "nl \<notin> set t \<Longrightarrow> read_until_nl (t @ nl # b) = t @ [nl]"
  by (induction t) auto

lemma read_until_nl_all [simp]: "nl \<notin> set t \<Longrightarrow> read_until_nl t = t"
  by (induction t) auto

section \<open>Steps of the readers\<close>

definition advance :: "chain_state \<Rightarrow> ledger_record \<Rightarrow> nat \<Rightarrow> chain_state" where
  "advance st r n = \<lparr>cs_offset = cs_offset st + n, cs_len = cs_len st + 1,
     cs_tip_hash = record_hash r, cs_tip_record = Some r\<rparr>"

text \<open>What a crashed or unfinished write leaves: a proper prefix of a line's text.\<close>

definition torn :: "ledger_deps \<Rightarrow> bytes \<Rightarrow> bool" where
  "torn L t \<longleftrightarrow> (\<exists>r. writable L r \<and> strict_prefix t (rtext L r))"

lemma torn_props:
  assumes "serde_laws L" and "torn L t" and "t \<noteq> []"
  shows "nl \<notin> set t" and "trim_ascii t \<noteq> []" and "\<exists>e. parse_record L (trim_ascii t) = Inl e"
    and "\<not> ends_with t [nl]"
proof -
  obtain r u where r: "writable L r" "rtext L r = t @ u" "strict_prefix t (rtext L r)"
    using assms(2) by (auto simp: torn_def strict_prefix_def prefix_def)
  note laws = serde_lawsD [OF assms(1) r(1)]
  show n: "nl \<notin> set t" using laws(4) r(2) by auto
  have h: "\<not> is_ascii_whitespace (hd t)" using laws(5) r(2) assms(3) by (cases t) auto
  show "trim_ascii t \<noteq> []" using trim_ascii_prefix(2) [OF assms(3) h] .
  have "strict_prefix (trim_ascii t) (rtext L r)"
    using trim_ascii_prefix(1) [OF assms(3) h] r(3) by (rule prefix_order.le_less_trans)
  then show "\<exists>e. parse_record L (trim_ascii t) = Inl e" by (rule laws(7))
  show "\<not> ends_with t [nl]" using n by (auto simp: ends_with_iff)
qed

lemma refresh_loop_Nil [simp]: "refresh_loop L path [] st = (st, Inr False)"
  by (simp add: refresh_loop.simps)

lemma refresh_loop_nl [simp]:
  "refresh_loop L path (nl # b) st = refresh_loop L path b (st\<lparr>cs_offset := cs_offset st + 1\<rparr>)"
  by (subst refresh_loop.simps) simp

lemma refresh_loop_torn:
  assumes "serde_laws L" and "torn L t" and "t \<noteq> []"
  shows "refresh_loop L path t st = (st, Inr True)"
  using torn_props [OF assms] assms(3) by (subst refresh_loop.simps) (auto simp: Let_def)

lemma refresh_loop_record:
  assumes "serde_laws L" and "writable L r" and "index r = cs_len st" and "prev_hash r = cs_tip_hash st"
  shows "refresh_loop L path (rtext L r @ nl # b) st =
           refresh_loop L path b (advance st r (length (rtext L r) + 1))"
    and "refresh_loop L path (rtext L r) st = (advance st r (length (rtext L r)), Inr False)"
proof -
  note laws = serde_lawsD [OF assms(1,2)]
  note t = trim_ascii_text [OF laws(3,5,6)]
  show "refresh_loop L path (rtext L r @ nl # b) st =
      refresh_loop L path b (advance st r (length (rtext L r) + 1))"
    using laws assms(3,4) by (subst refresh_loop.simps) (simp add: t advance_def)
  show "refresh_loop L path (rtext L r) st = (advance st r (length (rtext L r)), Inr False)"
    using laws assms(3,4) by (subst refresh_loop.simps) (simp add: t advance_def)
qed

lemma record_iter_Nil [simp]: "record_iter L [] = []"
  by (simp add: record_iter.simps)

lemma record_iter_torn:
  assumes "serde_laws L" and "torn L t"
  shows "record_iter L t = []"
  using torn_props [OF assms] by (cases "t = []") (simp, subst record_iter.simps, auto simp: Let_def)

lemma record_iter_record:
  assumes "serde_laws L" and "writable L r"
  shows "record_iter L (rtext L r @ nl # b) = Inr r # record_iter L b"
    and "record_iter L (rtext L r) = [Inr r]"
proof -
  note laws = serde_lawsD [OF assms]
  note t = trim_ascii_text [OF laws(3,5,6)]
  show "record_iter L (rtext L r @ nl # b) = Inr r # record_iter L b"
    using laws by (subst record_iter.simps) (simp add: t)
  show "record_iter L (rtext L r) = [Inr r]"
    using laws by (subst record_iter.simps) (simp add: t)
qed

lemma record_iter_flines:
  assumes "serde_laws L" and "list_all (writable L) rs"
  shows "record_iter L (flines L rs @ b) = map Inr rs @ record_iter L b"
  using assms(2) by (induction rs) (simp_all add: record_iter_record [OF assms(1)])

section \<open>The invariant of the file and of a handle\<close>

text \<open>
  A file holds the records \<open>rs\<close>: a valid chain, one line each, then nothing or the beginning of a
  line; or the last line lacks its line feed.  A handle has read some of the records; it stands
  after the line feed of the last one it read, or just before it.
\<close>

definition file_ok :: "ledger_deps \<Rightarrow> ledger_record list \<Rightarrow> bytes \<Rightarrow> bool" where
  "file_ok L rs F \<longleftrightarrow> chain_valid L rs \<and> list_all (writable L) rs \<and>
     ((\<exists>t. F = flines L rs @ t \<and> (t = [] \<or> torn L t)) \<or> F @ [nl] = flines L rs)"

definition cstate :: "ledger_record list \<Rightarrow> nat \<Rightarrow> chain_state" where
  "cstate rs off = \<lparr>cs_offset = off, cs_len = length rs, cs_tip_hash = tip_hash rs,
     cs_tip_record = (if rs = [] then None else Some (last rs))\<rparr>"

definition handle_ok :: "ledger_deps \<Rightarrow> ledger_record list \<Rightarrow> bytes \<Rightarrow> chain_state \<Rightarrow> bool" where
  "handle_ok L rs F st \<longleftrightarrow> (\<exists>a c. rs = a @ c \<and> st = cstate a (cs_offset st) \<and> cs_offset st \<le> length F \<and>
     (cs_offset st = length (flines L a) \<or> cs_offset st + 1 = length (flines L a)))"

text \<open>Where a handle stands once it has read everything.\<close>

definition at_end :: "ledger_deps \<Rightarrow> ledger_record list \<Rightarrow> bytes \<Rightarrow> nat \<Rightarrow> bool" where
  "at_end L rs F off \<longleftrightarrow> off \<le> length F \<and> take off F = flines L rs \<or> off = length F \<and> F @ [nl] = flines L rs"

lemma cstate_simps [simp]:
  "cs_offset (cstate rs off) = off" "cs_len (cstate rs off) = length rs"
  "cs_tip_hash (cstate rs off) = tip_hash rs"
  "cs_tip_record (cstate rs off) = (if rs = [] then None else Some (last rs))"
  "(cstate rs off)\<lparr>cs_offset := o'\<rparr> = cstate rs o'"
  "advance (cstate rs off) r n = cstate (rs @ [r]) (off + n)"
  by (simp_all add: cstate_def advance_def)

lemma chain_state_empty_cstate: "chain_state_empty = cstate [] 0"
  by (simp add: chain_state_empty_def cstate_def)

lemma refresh_loop_flines:
  assumes "serde_laws L" and "chain_valid L (a @ c)" and "list_all (writable L) c"
  shows "refresh_loop L path (flines L c @ b) (cstate a off) =
         refresh_loop L path b (cstate (a @ c) (off + length (flines L c)))"
  using assms(2,3)
proof (induction c arbitrary: a off)
  case (Cons r c)
  have v: "chain_valid L ((a @ [r]) @ c)" using Cons.prems by simp
  then have "extends L a r" by (metis chain_valid_append chain_valid_snoc)
  then have "refresh_loop L path (flines L (r # c) @ b) (cstate a off) =
      refresh_loop L path (flines L c @ b) (cstate (a @ [r]) (off + (length (rtext L r) + 1)))"
    using refresh_loop_record(1) [OF assms(1), of r "cstate a off" path "flines L c @ b"] Cons.prems
    by (simp add: extends_def)
  also have "\<dots> = refresh_loop L path b (cstate ((a @ [r]) @ c) (off + (length (rtext L r) + 1) + length (flines L c)))"
    using Cons.prems v by (intro Cons.IH) auto
  finally show ?case by (simp add: add.assoc)
qed simp

text \<open>Reading on from the end of a line.\<close>

lemma refresh_loop_rest:
  assumes "serde_laws L" and "file_ok L (a @ c) F" and "length (flines L a) \<le> length F"
  shows "\<exists>off tr. refresh_loop L path (drop (length (flines L a)) F) (cstate a (length (flines L a))) =
           (cstate (a @ c) off, Inr tr) \<and> at_end L (a @ c) F off"
proof -
  have v: "chain_valid L (a @ c)" "list_all (writable L) c" using assms(2) by (auto simp: file_ok_def)
  consider t where "F = flines L (a @ c) @ t" "t = [] \<or> torn L t" | "F @ [nl] = flines L (a @ c)"
    using assms(2) by (auto simp: file_ok_def)
  then show ?thesis
  proof cases
    case 1
    then have "drop (length (flines L a)) F = flines L c @ t" by simp
    then have "refresh_loop L path (drop (length (flines L a)) F) (cstate a (length (flines L a))) =
        refresh_loop L path t (cstate (a @ c) (length (flines L (a @ c))))"
      using refresh_loop_flines [OF assms(1) v] by simp
    moreover obtain tr where "refresh_loop L path t (cstate (a @ c) (length (flines L (a @ c)))) =
        (cstate (a @ c) (length (flines L (a @ c))), Inr tr)"
      using 1 refresh_loop_torn [OF assms(1)] by (cases "t = []") auto
    ultimately show ?thesis using 1
      by (intro exI [of _ "length (flines L (a @ c))"] exI [of _ tr]) (simp add: at_end_def)
  next
    case 2
    have "c \<noteq> []" using 2 assms(3) by (metis Suc_n_not_le_n append.right_neutral length_append_singleton)
    then obtain d r where c: "c = d @ [r]" by (cases c rule: rev_cases) auto
    have F: "F = flines L a @ flines L d @ rtext L r" using 2 by (simp add: c)
    have v': "chain_valid L (a @ d)" "list_all (writable L) d" "writable L r" "extends L (a @ d) r"
      using v by (auto simp: c simp flip: append_assoc)
    have "refresh_loop L path (drop (length (flines L a)) F) (cstate a (length (flines L a))) =
        refresh_loop L path (rtext L r) (cstate (a @ d) (length (flines L (a @ d))))"
      using refresh_loop_flines [OF assms(1) v'(1,2)] by (simp add: F)
    also have "\<dots> = (cstate (a @ c) (length F), Inr False)"
      using refresh_loop_record(2) [OF assms(1) v'(3), of "cstate (a @ d) (length (flines L (a @ d)))" path] v'(4)
      by (simp add: extends_def F c)
    finally show ?thesis using 2 by (auto simp: at_end_def)
  qed
qed

lemma flines_last_nl: "a \<noteq> [] \<Longrightarrow> \<exists>u. flines L a = u @ [nl]"
  by (cases a rule: rev_cases) auto

lemma refresh_spec:
  assumes "serde_laws L" and "file_ok L rs (fs_file s)" and "handle_ok L rs (fs_file s) (fs_state s)"
  shows "\<exists>off tr. refresh L s = (s\<lparr>fs_state := cstate rs off\<rparr>, Inr tr) \<and> at_end L rs (fs_file s) off"
proof -
  let ?F = "fs_file s" and ?st = "fs_state s"
  obtain a c where h: "rs = a @ c" "?st = cstate a (cs_offset ?st)" "cs_offset ?st \<le> length ?F"
      "cs_offset ?st = length (flines L a) \<or> cs_offset ?st + 1 = length (flines L a)"
    using assms(3) unfolding handle_ok_def by blast
  have "\<exists>off tr. refresh_loop L (fs_path s) (drop (cs_offset ?st) ?F) ?st = (cstate rs off, Inr tr) \<and>
      at_end L rs ?F off"
  proof (cases "cs_offset ?st = length (flines L a)")
    case True
    then show ?thesis
      using refresh_loop_rest [OF assms(1), of a c ?F "fs_path s"] assms(2) h by metis
  next
    case False
    with h have o: "cs_offset ?st + 1 = length (flines L a)" by simp
    then have "a \<noteq> []" by auto
    then obtain u where u: "flines L a = u @ [nl]" using flines_last_nl by blast
    with o have ou: "cs_offset ?st = length u" by simp
    show ?thesis
    proof (cases "?F = u")
      case True
      have "c = []"
        using assms(2) True u by (cases c) (auto simp: file_ok_def h(1))
      then show ?thesis
        using True ou u h(1,2) by (auto simp: at_end_def)
    next
      case False
      obtain z where z: "?F = u @ nl # z"
      proof -
        consider t where "?F = u @ nl # flines L c @ t" | "?F @ [nl] = u @ nl # flines L c"
          using assms(2) by (auto simp: file_ok_def h(1) u)
        then show thesis
        proof cases
          case 2
          with False have "flines L c \<noteq> []" by auto
          then obtain y where "flines L c = y @ [nl]" using flines_last_nl [of c] by (cases "c = []") auto
          with 2 that show thesis by (metis append_Cons append_assoc butlast_snoc)
        qed (use that in blast)
      qed
      then have "refresh_loop L (fs_path s) (drop (cs_offset ?st) ?F) ?st =
          refresh_loop L (fs_path s) (nl # z) (cstate a (length u))"
        using h(2) ou by simp
      also have "\<dots> = refresh_loop L (fs_path s) (drop (length (flines L a)) ?F) (cstate a (length (flines L a)))"
        by (simp add: z u)
      finally have "refresh_loop L (fs_path s) (drop (cs_offset ?st) ?F) ?st = \<dots>" .
      moreover have "length (flines L a) \<le> length ?F" using z u by simp
      ultimately show ?thesis
        using refresh_loop_rest [OF assms(1), of a c ?F "fs_path s"] assms(2) h(1) by metis
    qed
  qed
  then show ?thesis using h(3) by (auto simp: refresh_def)
qed

lemma handle_ok_at_end:
  assumes "at_end L rs F off"
  shows "handle_ok L rs F (cstate rs off)"
proof -
  have "off \<le> length F \<and> (off = length (flines L rs) \<or> off + 1 = length (flines L rs))"
    using assms unfolding at_end_def
    by (metis Suc_eq_plus1 le_refl length_append_singleton length_take min.absorb2)
  then show ?thesis
    unfolding handle_ok_def by (intro exI [of _ rs] exI [of _ "[]"]) simp
qed

lemma repair_tail_take:
  "repair_tail s =
     (let offset = cs_offset (fs_state s); f = take offset (fs_file s)
      in if offset > 0 then
           (if offset - 1 < length f then
              (if f ! (offset - 1) \<noteq> nl
               then (s\<lparr>fs_file := f @ [nl],
                       fs_state := (fs_state s)\<lparr>cs_offset := offset + 1\<rparr>\<rparr>, Inr (offset + 1))
               else (s\<lparr>fs_file := f\<rparr>, Inr offset))
            else (s\<lparr>fs_file := f\<rparr>, Inl (IoErr ''failed to fill whole buffer'')))
         else (s\<lparr>fs_file := f\<rparr>, Inr offset))"
proof -
  have "(if length (fs_file s) > n then take n (fs_file s) else fs_file s) = take n (fs_file s)" for n
    by simp
  moreover have "take n (take n f) @ [nl] @ drop (n + 1) (take n f) = take n f @ [nl]" for n and f :: bytes
    by simp
  ultimately show ?thesis unfolding repair_tail_def Let_def by (simp only:)
qed

lemma repair_tail_spec:
  assumes "serde_laws L" and "list_all (writable L) rs"
    and "fs_state s = cstate rs off" and "at_end L rs (fs_file s) off"
  shows "repair_tail s =
    (s\<lparr>fs_file := flines L rs, fs_state := cstate rs (length (flines L rs))\<rparr>, Inr (length (flines L rs)))"
  using assms(4) unfolding at_end_def
proof
  assume a: "off \<le> length (fs_file s) \<and> take off (fs_file s) = flines L rs"
  then have l: "off = length (flines L rs)" by (metis length_take min.absorb2)
  have s: "s\<lparr>fs_state := cstate rs off\<rparr> = s" using assms(3) by (cases s) simp
  have "flines L rs \<noteq> [] \<Longrightarrow> flines L rs ! (length (flines L rs) - 1) = nl"
    using flines_last_nl [of rs L] by (cases "rs = []") (auto simp: nth_append)
  then have "repair_tail s = (s\<lparr>fs_file := flines L rs\<rparr>, Inr off)"
    using a l assms(3) by (cases "flines L rs = []") (simp_all add: repair_tail_take Let_def)
  also have "s\<lparr>fs_file := flines L rs\<rparr> = s\<lparr>fs_file := flines L rs, fs_state := cstate rs off\<rparr>"
    using assms(3) by (cases s) simp
  finally show ?thesis by (simp add: l)
next
  assume a: "off = length (fs_file s) \<and> fs_file s @ [nl] = flines L rs"
  then have "rs \<noteq> []" by auto
  then obtain pre r where rs: "rs = pre @ [r]" by (cases rs rule: rev_cases) auto
  then have F: "fs_file s = flines L pre @ rtext L r" using a by simp
  have t: "rtext L r \<noteq> []" "nl \<notin> set (rtext L r)"
    using serde_lawsD [OF assms(1)] assms(2) by (auto simp: rs)
  then have "fs_file s ! (length (fs_file s) - 1) \<noteq> nl" "fs_file s \<noteq> []"
    unfolding F by (metis append_is_Nil_conv last_appendR last_conv_nth last_in_set, simp)
  moreover have "length (flines L rs) = off + 1" using a by (metis Suc_eq_plus1 length_append_singleton)
  ultimately show ?thesis
    using a assms(3) by (simp add: repair_tail_take Let_def)
qed

section \<open>The file store keeps the contract of a ledger store\<close>

definition fs_ops :: "ledger_deps \<Rightarrow> fstore store_ops" where
  "fs_ops L = \<lparr>st_append = fs_append L, st_tip = fs_tip L\<rparr>"

text \<open>The records a reader of the file gets.\<close>

definition committed :: "ledger_deps \<Rightarrow> bytes \<Rightarrow> ledger_record list" where
  "committed L F = List.map_filter ok (record_iter L F)"

definition fs_chain :: "ledger_deps \<Rightarrow> fstore \<Rightarrow> ledger_record list" where
  "fs_chain L s = committed L (fs_file s)"

definition fs_inv :: "ledger_deps \<Rightarrow> fstore \<Rightarrow> bool" where
  "fs_inv L s \<longleftrightarrow> serde_laws L \<and> file_ok L (fs_chain L s) (fs_file s) \<and>
     handle_ok L (fs_chain L s) (fs_file s) (fs_state s)"

definition fs_ready :: "fstore \<Rightarrow> bool" where
  "fs_ready s \<longleftrightarrow> fs_lock s = LockAcquired"

lemma map_filter_ok_Inr [simp]: "List.map_filter ok (map Inr rs) = rs"
  by (induction rs) (auto simp: List.map_filter_simps)

lemma record_iter_file_ok:
  assumes "serde_laws L" and "file_ok L rs F"
  shows "record_iter L F = map Inr rs"
proof -
  have w: "list_all (writable L) rs" using assms(2) by (simp add: file_ok_def)
  consider t where "F = flines L rs @ t" "t = [] \<or> torn L t" | "F @ [nl] = flines L rs"
    using assms(2) by (auto simp: file_ok_def)
  then show ?thesis
  proof cases
    case 1
    then show ?thesis using record_iter_flines [OF assms(1) w] record_iter_torn [OF assms(1)] by auto
  next
    case 2
    then have "rs \<noteq> []" by auto
    then obtain pre r where rs: "rs = pre @ [r]" by (cases rs rule: rev_cases) auto
    with 2 w show ?thesis
      using record_iter_flines [OF assms(1), of pre] record_iter_record(2) [OF assms(1)] by simp
  qed
qed

lemma committed_file_ok: "serde_laws L \<Longrightarrow> file_ok L rs F \<Longrightarrow> committed L F = rs"
  by (simp add: committed_def record_iter_file_ok)

lemma file_ok_flines: "chain_valid L rs \<Longrightarrow> list_all (writable L) rs \<Longrightarrow> file_ok L rs (flines L rs)"
  by (simp add: file_ok_def)

lemma file_ok_committed: "serde_laws L \<Longrightarrow> file_ok L rs F \<Longrightarrow> file_ok L (committed L F) F"
  by (simp add: committed_file_ok)

lemma refresh_inv:
  assumes "fs_inv L s"
  shows "\<exists>off tr. refresh L s = (s\<lparr>fs_state := cstate (fs_chain L s) off\<rparr>, Inr tr) \<and>
    at_end L (fs_chain L s) (fs_file s) off"
  using assms refresh_spec by (auto simp: fs_inv_def)

lemma refresh_keeps_inv:
  assumes "fs_inv L s" and "at_end L (fs_chain L s) (fs_file s) off"
  shows "fs_inv L (s\<lparr>fs_state := cstate (fs_chain L s) off\<rparr>)"
  using assms handle_ok_at_end by (auto simp: fs_inv_def fs_chain_def)

text \<open>What \<open>append\<close> does up to the write, on every branch.\<close>

lemma append_prepare_spec:
  assumes "fs_inv L s" and "append_prepare L s r = (s', res)"
  shows "(case res of
            Inl e \<Rightarrow> fs_inv L s' \<and> fs_file s' = fs_file s
          | Inr (line, end) \<Rightarrow> extends L (fs_chain L s) r \<and> ser_record L r = Inr (rtext L r) \<and>
              line = rtext L r @ [nl] \<and> end = length (flines L (fs_chain L s)) \<and>
              s' = s\<lparr>fs_file := flines L (fs_chain L s),
                     fs_state := cstate (fs_chain L s) (length (flines L (fs_chain L s)))\<rparr>)"
proof -
  let ?rs = "fs_chain L s"
  obtain off tr where r: "refresh L s = (s\<lparr>fs_state := cstate ?rs off\<rparr>, Inr tr)" "at_end L ?rs (fs_file s) off"
    using refresh_inv [OF assms(1)] by blast
  have rep: "repair_tail (s\<lparr>fs_state := cstate ?rs off\<rparr>) =
      (s\<lparr>fs_file := flines L ?rs, fs_state := cstate ?rs (length (flines L ?rs))\<rparr>, Inr (length (flines L ?rs)))"
    using repair_tail_spec [of L ?rs "s\<lparr>fs_state := cstate ?rs off\<rparr>" off] r(2) assms(1)
    by (auto simp: fs_inv_def file_ok_def)
  show ?thesis
  proof (cases "compute_hash L r = Inr (record_hash r) \<and> lock s = Inr ()")
    case True
    then show ?thesis
      using assms r(1) rep refresh_keeps_inv [OF assms(1) r(2)]
      by (cases "ser_record L r") (auto simp: append_prepare_def rtext_def extends_def split: if_splits)
  next
    case False
    then have "(\<exists>e. res = Inl e) \<and> s' = s"
      using assms(2) by (cases "compute_hash L r"; cases "ser_record L r"; cases "lock s")
        (auto simp: append_prepare_def split: if_splits)
    then show ?thesis using assms(1) by auto
  qed
qed

lemma fs_append_cases:
  assumes "fs_inv L s" and "fs_append L s r = (s', res)"
  shows "(case res of
            Inl e \<Rightarrow> fs_inv L s' \<and> fs_file s' = fs_file s
          | Inr _ \<Rightarrow> extends L (fs_chain L s) r \<and> ser_record L r = Inr (rtext L r) \<and>
              fs_file s' = flines L (fs_chain L s @ [r]) \<and>
              fs_state s' = cstate (fs_chain L s @ [r]) (length (flines L (fs_chain L s @ [r]))))"
proof -
  obtain s1 res1 where p: "append_prepare L s r = (s1, res1)" by fastforce
  with append_prepare_spec [OF assms(1) p] assms(2) show ?thesis
    by (cases res1) (auto simp: fs_append_def append_commit_def cstate_def)
qed

lemma fs_append_ok:
  assumes "fs_inv L s" and "exact_record r" and "fs_append L s r = (s', Inr ())"
  shows "fs_inv L s' \<and> fs_chain L s' = fs_chain L s @ [r]"
proof -
  let ?rs = "fs_chain L s @ [r]"
  have f: "extends L (fs_chain L s) r" "writable L r" "fs_file s' = flines L ?rs"
      "fs_state s' = cstate ?rs (length (flines L ?rs))" "serde_laws L"
    using fs_append_cases [OF assms(1,3)] assms(1,2) by (auto simp: writable_def fs_inv_def)
  then have "file_ok L ?rs (flines L ?rs)"
    using assms(1) by (intro file_ok_flines) (auto simp: fs_inv_def file_ok_def)
  moreover from this have "fs_chain L s' = ?rs"
    by (simp add: fs_chain_def f(3) committed_file_ok [OF f(5)])
  moreover have "handle_ok L ?rs (flines L ?rs) (cstate ?rs (length (flines L ?rs)))"
    by (intro handle_ok_at_end) (simp add: at_end_def)
  ultimately show ?thesis using f by (simp add: fs_inv_def)
qed

lemma fs_append_err:
  assumes "fs_inv L s" and "fs_append L s r = (s', Inl e)"
  shows "fs_inv L s' \<and> fs_chain L s' = fs_chain L s"
  using fs_append_cases [OF assms] by (simp add: fs_chain_def)

lemma fs_append_ready:
  assumes "fs_inv L s" and "fs_ready s" and "extends L (fs_chain L s) r" and "ser_record L r = Inr b"
  shows "\<exists>s'. fs_append L s r = (s', Inr ())"
proof -
  let ?rs = "fs_chain L s"
  obtain off tr where r: "refresh L s = (s\<lparr>fs_state := cstate ?rs off\<rparr>, Inr tr)" "at_end L ?rs (fs_file s) off"
    using refresh_inv [OF assms(1)] by blast
  have "\<exists>s'. repair_tail (s\<lparr>fs_state := cstate ?rs off\<rparr>) = (s', Inr (length (flines L ?rs)))"
    using repair_tail_spec [of L ?rs "s\<lparr>fs_state := cstate ?rs off\<rparr>" off] r(2) assms(1)
    by (auto simp: fs_inv_def file_ok_def)
  with r assms(2-4) show ?thesis
    by (auto simp: fs_append_def append_prepare_def extends_def fs_ready_def lock_def)
qed

lemma fs_tip_ok:
  assumes "fs_inv L s"
  shows "\<exists>s'. fs_inv L s' \<and> fs_chain L s' = fs_chain L s \<and> fs_ready s' = fs_ready s \<and>
    fs_tip L s = (s', Inr (if fs_chain L s = [] then None else Some (last (fs_chain L s))))"
proof -
  obtain off tr where r: "refresh L s = (s\<lparr>fs_state := cstate (fs_chain L s) off\<rparr>, Inr tr)"
      "at_end L (fs_chain L s) (fs_file s) off"
    using refresh_inv [OF assms] by blast
  then show ?thesis
    using refresh_keeps_inv [OF assms r(2)] by (auto simp: fs_tip_def fs_ready_def fs_chain_def)
qed

interpretation fs: ledger_store L "fs_ops L" "fs_chain L" "fs_inv L" fs_ready for L
proof
  show "fs_inv L s \<Longrightarrow> chain_valid L (fs_chain L s)" for s
    by (simp add: fs_inv_def file_ok_def)
  show "\<exists>s'. fs_inv L s' \<and> fs_chain L s' = fs_chain L s \<and> fs_ready s' = fs_ready s \<and>
      st_tip (fs_ops L) s = (s', Inr (if fs_chain L s = [] then None else Some (last (fs_chain L s))))"
    if "fs_inv L s" for s
    unfolding fs_ops_def store_ops.simps by (rule fs_tip_ok [OF that])
  show "fs_inv L s' \<and> fs_chain L s' = fs_chain L s @ [r]"
    if "fs_inv L s" "exact_record r" "st_append (fs_ops L) s r = (s', Inr ())" for s r s'
    using that unfolding fs_ops_def store_ops.simps by (rule fs_append_ok)
  show "fs_inv L s' \<and> fs_chain L s' = fs_chain L s"
    if "fs_inv L s" "st_append (fs_ops L) s r = (s', Inl e)" for s r s' e
    using that unfolding fs_ops_def store_ops.simps by (rule fs_append_err)
  show "\<exists>s'. st_append (fs_ops L) s r = (s', Inr ())"
    if "fs_inv L s" "fs_ready s" "extends L (fs_chain L s) r" "ser_record L r = Inr b" for s r b
    using that unfolding fs_ops_def store_ops.simps by (rule fs_append_ready)
qed

section \<open>Opening after a crash\<close>

lemma fs_open_spec:
  assumes "serde_laws L" and "file_ok L rs F"
  shows "\<exists>s. fs_open L path lp LockAcquired F = (s, Inr ()) \<and> handle_ok L rs (fs_file s) (fs_state s) \<and>
    (fs_file s = F \<or> fs_file s = flines L rs)"
proof -
  define s0 where "s0 = \<lparr>fs_path = path, fs_lock_path = lp, fs_lock = LockAcquired, fs_file = F,
    fs_state = chain_state_empty\<rparr>"
  have s0: "fs_file s0 = F" "fs_state s0 = cstate [] 0" "lock s0 = Inr ()"
    by (simp_all add: s0_def chain_state_empty_cstate lock_def)
  have "handle_ok L rs F (cstate [] 0)"
    unfolding handle_ok_def by (intro exI [of _ "[]"] exI [of _ rs]) simp
  then obtain off tr where r: "refresh L s0 = (s0\<lparr>fs_state := cstate rs off\<rparr>, Inr tr)" "at_end L rs F off"
    using refresh_spec [OF assms(1), of rs s0] assms(2) by (auto simp: s0)
  define s1 where "s1 = s0\<lparr>fs_state := cstate rs off\<rparr>"
  obtain off2 tr2 where r2: "refresh L s1 = (s1\<lparr>fs_state := cstate rs off2\<rparr>, Inr tr2)" "at_end L rs F off2"
    using refresh_spec [OF assms(1), of rs s1] assms(2) handle_ok_at_end [OF r(2)] by (auto simp: s1_def s0)
  have l: "lock s1 = Inr ()" by (simp add: s1_def s0_def lock_def)
  have "fs_file s1 = F" by (simp add: s1_def s0)
  then have rep: "repair_tail (s1\<lparr>fs_state := cstate rs off2\<rparr>) =
      (s1\<lparr>fs_file := flines L rs, fs_state := cstate rs (length (flines L rs))\<rparr>, Inr (length (flines L rs)))"
    using repair_tail_spec [OF assms(1), of rs "s1\<lparr>fs_state := cstate rs off2\<rparr>" off2] r2(2) assms(2)
    by (auto simp: file_ok_def)
  have "handle_ok L rs (flines L rs) (cstate rs (length (flines L rs)))"
    by (intro handle_ok_at_end) (simp add: at_end_def)
  then show ?thesis
    using r r2 rep l handle_ok_at_end [OF r(2)]
    by (cases tr) (auto simp: fs_open_def s1_def s0 simp flip: s0_def)
qed

end
