(* ===== verification/Serde_Example.thy ===== *)
theory Serde_Example
  imports File_Store "HOL-Library.Countable"
begin

text \<open>
  A serializer that satisfies the laws the development assumes of \<open>serde_json\<close>: records are
  countable, and the text of a record is its number between braces.  It shows that the hypotheses
  on the library can hold together; nothing else depends on it.
\<close>

instance json_num :: countable by countable_datatype
instance json :: countable by countable_datatype
instance intercept_mode :: countable by countable_datatype
instance trust_verdict :: countable by countable_datatype
instance verdict :: countable by countable_datatype
instance approver_kind :: countable by countable_datatype
instance record_kind :: countable by countable_datatype

instance timestamp_ext :: (countable) countable
  by (rule countable_classI [of "\<lambda>t. to_nat (epoch_ms t, timestamp.more t)"]) simp

instance caller_identity_ext :: (countable) countable
  by (rule countable_classI [of "\<lambda>t. to_nat (agent t, agent_version t, user t, non_human_id t, caller_identity.more t)"]) simp

instance server_identity_ext :: (countable) countable
  by (rule countable_classI [of "\<lambda>t. to_nat (srv_name t, srv_transport t, srv_version t, server_identity.more t)"]) simp

instance tool_call_ext :: (countable) countable
  by (rule countable_classI [of "\<lambda>t. to_nat (tc_call_id t, tc_session_id t, tc_caller t, tc_mode t, tc_tool t, tc_args t, tc_server t, tc_trust t, tc_captured_at t, tool_call.more t)"]) simp

instance approver_identity_ext :: (countable) countable
  by (rule countable_classI [of "\<lambda>t. to_nat (apr_kind t, apr_id t, approver_identity.more t)"]) simp

instance ledger_record_ext :: (countable) countable
  by (rule countable_classI [of "\<lambda>t. to_nat (schema_version t, rkind t, index t, call_id t, session_id t, rcall t, rverdict t, rule_id t, rapprover t, decision_index t, backend t, exit_status t, input_hash t, output_hash t, recorded_at t, prev_hash t, record_hash t, ledger_record.more t)"]) simp

instance record_payload_ext :: (countable) countable
  by (rule countable_classI [of "\<lambda>t. to_nat (pl_schema_version t, pl_kind t, pl_index t, pl_call_id t, pl_session_id t, pl_call t, pl_verdict t, pl_rule_id t, pl_approver t, pl_decision_index t, pl_backend t, pl_exit_status t, pl_input_hash t, pl_output_hash t, pl_recorded_at t, pl_prev_hash t, record_payload.more t)"]) simp

definition braced :: "nat \<Rightarrow> str" where
  "braced n = ''{'' @ show_nat n @ ''}''"

text \<open>Hashing is the identity here, which no two inputs share.\<close>

definition num_deps :: ledger_deps where
  "num_deps =
     \<lparr>sha256 = (\<lambda>b. b), hex_encode = (\<lambda>b. b),
      ser_payload = (\<lambda>p. Inr (braced (to_nat p))), ser_call = (\<lambda>c. Inr (braced (to_nat c))),
      ser_record = (\<lambda>r. Inr (braced (to_nat r))),
      parse_record = (\<lambda>b. if \<exists>n. b = braced n then Inr (from_nat (THE n. b = braced n)) else Inl ''EOF'')\<rparr>"

lemma digit_not_special:
  "is_ascii_digit c \<Longrightarrow> \<not> is_ascii_whitespace c \<and> c \<noteq> CHR ''}'' \<and> c \<noteq> nl"
  by (auto simp: is_ascii_digit_def is_ascii_whitespace_def code_def)

lemma show_nat_chars: "c \<in> set (show_nat n) \<Longrightarrow> is_ascii_digit c"
  using show_nat_digits [of n] by (simp add: list_all_iff)

lemma braced_inject [simp]: "braced m = braced n \<longleftrightarrow> m = n"
  by (simp add: braced_def)

lemma braced_prefix: "strict_prefix p (braced n) \<Longrightarrow> p \<noteq> braced m"
proof
  assume p: "strict_prefix p (braced n)" "p = braced m"
  then obtain u where u: "braced n = braced m @ u" "u \<noteq> []"
    by (metis append_Nil2 prefix_def strict_prefix_def)
  have "show_nat n @ ''}'' = (show_nat m @ ''}'') @ u" using u(1) by (simp add: braced_def)
  moreover have "takeWhile (\<lambda>c. c \<noteq> CHR ''}'') (show_nat k @ CHR ''}'' # v) = show_nat k" for k v
    using show_nat_chars [of _ k] digit_not_special by (subst takeWhile_append2) auto
  ultimately have "show_nat n = show_nat m"
    by (metis append_Cons append_Nil append_assoc)
  with u show False by (simp add: braced_def)
qed

lemma serde_laws_num_deps: "serde_laws num_deps"
  unfolding serde_laws_def
proof (intro allI impI)
  fix r s
  assume "exact_record r \<and> ser_record num_deps r = Inr s"
  then have s: "s = braced (to_nat r)" by (simp add: num_deps_def)
  have "nl \<notin> set s" using show_nat_chars digit_not_special by (auto simp: s braced_def)
  moreover have "\<not> is_ascii_whitespace (CHR ''{'')" "\<not> is_ascii_whitespace (CHR ''}'')"
    by (simp_all add: is_ascii_whitespace_def code_def)
  then have "\<not> is_ascii_whitespace (hd s)" "\<not> is_ascii_whitespace (last s)"
    by (simp_all add: s braced_def)
  moreover have "ok (parse_record num_deps p) = None" if "strict_prefix p s" for p
    using braced_prefix that by (auto simp: num_deps_def s)
  moreover have "parse_record num_deps s = Inr r"
    by (simp add: num_deps_def s)
  ultimately show "parse_record num_deps s = Inr r \<and> s \<noteq> [] \<and> nl \<notin> set s \<and>
      \<not> is_ascii_whitespace (hd s) \<and> \<not> is_ascii_whitespace (last s) \<and>
      (\<forall>p. strict_prefix p s \<longrightarrow> ok (parse_record num_deps p) = None)"
    by (auto simp: s braced_def)
qed

text \<open>An empty store whose lock is free.\<close>

definition empty_store :: fstore where
  "empty_store = \<lparr>fs_path = ''l.jsonl'', fs_lock_path = ''l.jsonl.lock'', fs_lock = LockAcquired,
     fs_file = [], fs_state = chain_state_empty\<rparr>"

lemma empty_store_simps [simp]: "fs_file empty_store = []" "fs_chain L empty_store = []" "fs_ready empty_store"
  by (simp_all add: empty_store_def fs_chain_def committed_def fs_ready_def List.map_filter_simps)

lemma empty_store_inv: "serde_laws L \<Longrightarrow> fs_inv L empty_store"
  by (simp add: fs_inv_def file_ok_def handle_ok_def) (simp add: empty_store_def chain_state_empty_cstate)

end
