(* ===== verification/File_Writers.thy ===== *)
theory File_Writers
  imports Serde_Example
begin

text \<open>
  Many processes on one ledger file (\<open>file_store.rs\<close>, "Many writers, one chain").  A state of the
  system is the file, the \<open>ChainState\<close> of every open handle, and the append in progress: the
  process that holds the lock, the record it writes and the bytes of the line still to be written.

  Between any two steps of a writer any other process may read.  The bytes of a line reach the
  file in any number of pieces, and a writer may die at any point of an append, leaving what it
  has written; the operating system then releases its lock.
\<close>

section \<open>Steps\<close>

record wsystem =
  ws_file :: bytes
  ws_handles :: "nat \<Rightarrow> chain_state option"
  ws_pending :: "(nat \<times> ledger_record \<times> bytes \<times> nat) option"   \<comment> \<open>process, record, bytes left, \<open>end\<close>\<close>

text \<open>The view process \<open>p\<close> has: its handle on the shared file, the lock free for it.\<close>

definition view :: "wsystem \<Rightarrow> chain_state \<Rightarrow> fstore" where
  "view w st = \<lparr>fs_path = ''l'', fs_lock_path = ''l.lock'', fs_lock = LockAcquired,
     fs_file = ws_file w, fs_state = st\<rparr>"

text \<open>A process inside \<open>append\<close> does nothing else (\<open>append\<close> takes \<open>&mut self\<close>).\<close>

definition busy :: "wsystem \<Rightarrow> nat \<Rightarrow> bool" where
  "busy w p = (case ws_pending w of None \<Rightarrow> False | Some (q, _) \<Rightarrow> q = p)"

inductive wstep :: "ledger_deps \<Rightarrow> wsystem \<Rightarrow> wsystem \<Rightarrow> bool" for L where
  open_clean: "\<not> busy w p \<Longrightarrow> refresh L (view w chain_state_empty) = (s, Inr False) \<Longrightarrow>
    wstep L w (w\<lparr>ws_handles := (ws_handles w)(p \<mapsto> fs_state s)\<rparr>)"
| open_repair: "ws_pending w = None \<Longrightarrow> fs_open L ''l'' ''l.lock'' LockAcquired (ws_file w) = (s, Inr ()) \<Longrightarrow>
    wstep L w (w\<lparr>ws_file := fs_file s, ws_handles := (ws_handles w)(p \<mapsto> fs_state s)\<rparr>)"
| read: "ws_handles w p = Some st \<Longrightarrow> \<not> busy w p \<Longrightarrow> refresh L (view w st) = (s, res) \<Longrightarrow>
    wstep L w (w\<lparr>ws_handles := (ws_handles w)(p \<mapsto> fs_state s)\<rparr>)"
| rejected: "ws_handles w p = Some st \<Longrightarrow> ws_pending w = None \<Longrightarrow> append_prepare L (view w st) r = (s, Inl e) \<Longrightarrow>
    wstep L w (w\<lparr>ws_file := fs_file s, ws_handles := (ws_handles w)(p \<mapsto> fs_state s)\<rparr>)"
| start: "ws_handles w p = Some st \<Longrightarrow> ws_pending w = None \<Longrightarrow> exact_record r \<Longrightarrow>
    append_prepare L (view w st) r = (s, Inr (line, end)) \<Longrightarrow>
    wstep L w (w\<lparr>ws_file := fs_file s, ws_handles := (ws_handles w)(p \<mapsto> fs_state s),
                ws_pending := Some (p, r, line, end)\<rparr>)"
| emit: "ws_pending w = Some (p, r, piece @ rest, end) \<Longrightarrow>
    wstep L w (w\<lparr>ws_file := ws_file w @ piece, ws_pending := Some (p, r, rest, end)\<rparr>)"
| finish: "ws_pending w = Some (p, r, [], end) \<Longrightarrow> ws_handles w p = Some st \<Longrightarrow>
    wstep L w (w\<lparr>ws_handles := (ws_handles w)(p \<mapsto>
                  \<lparr>cs_offset = end + length (rtext L r @ [nl]), cs_len = cs_len st + 1,
                   cs_tip_hash = record_hash r, cs_tip_record = Some r\<rparr>),
                ws_pending := None\<rparr>)"
| crash: "ws_pending w = Some (p, r, rest, end) \<Longrightarrow>
    wstep L w (w\<lparr>ws_handles := (ws_handles w)(p := None), ws_pending := None\<rparr>)"
| crash_in_repair: "ws_handles w p = Some st \<Longrightarrow> ws_pending w = None \<Longrightarrow> refresh L (view w st) = (s, Inr t) \<Longrightarrow>
    wstep L w (w\<lparr>ws_file := take (cs_offset (fs_state s)) (ws_file w), ws_handles := (ws_handles w)(p := None)\<rparr>)"
| close: "\<not> busy w p \<Longrightarrow> wstep L w (w\<lparr>ws_handles := (ws_handles w)(p := None)\<rparr>)"

inductive wreach :: "ledger_deps \<Rightarrow> wsystem \<Rightarrow> wsystem \<Rightarrow> bool" for L where
  refl: "wreach L w w"
| step: "wreach L w w' \<Longrightarrow> wstep L w' w'' \<Longrightarrow> wreach L w w''"

definition wstart :: wsystem where
  "wstart = \<lparr>ws_file = [], ws_handles = (\<lambda>_. None), ws_pending = None\<rparr>"

section \<open>The invariant\<close>

definition pending_ok :: "ledger_deps \<Rightarrow> wsystem \<Rightarrow> bool" where
  "pending_ok L w \<longleftrightarrow>
     (case ws_pending w of None \<Rightarrow> True
      | Some (p, r, rest, end) \<Rightarrow>
          \<exists>rs wrt. chain_valid L (rs @ [r]) \<and> list_all (writable L) (rs @ [r]) \<and>
            rtext L r @ [nl] = wrt @ rest \<and> ws_file w = flines L rs @ wrt \<and>
            end = length (flines L rs) \<and> ws_handles w p = Some (cstate rs end))"

definition winv :: "ledger_deps \<Rightarrow> wsystem \<Rightarrow> bool" where
  "winv L w \<longleftrightarrow> serde_laws L \<and> file_ok L (committed L (ws_file w)) (ws_file w) \<and>
     (\<forall>p st. ws_handles w p = Some st \<longrightarrow> handle_ok L (committed L (ws_file w)) (ws_file w) st) \<and>
     pending_ok L w"

lemma handle_ok_mono:
  assumes "handle_ok L rs F st" and "length (flines L rs) \<le> length F' \<or> length F \<le> length F'"
  shows "handle_ok L (rs @ ts) F' st"
proof -
  obtain a c where "rs = a @ c" "st = cstate a (cs_offset st)" "cs_offset st \<le> length F"
      "cs_offset st = length (flines L a) \<or> cs_offset st + 1 = length (flines L a)"
    using assms(1) unfolding handle_ok_def by blast
  then show ?thesis
    using assms(2) unfolding handle_ok_def by (intro exI [of _ a] exI [of _ "c @ ts"]) auto
qed

text \<open>A line that is being written, at every stage.\<close>

lemma partial_line:
  assumes "serde_laws L" and "chain_valid L (rs @ [r])" and "list_all (writable L) (rs @ [r])"
    and "rtext L r @ [nl] = wrt @ rest"
  shows "file_ok L (if rest = [] \<or> rest = [nl] then rs @ [r] else rs) (flines L rs @ wrt)"
proof -
  consider "rest = []" | "rest = [nl]" | u where "rest = u @ [nl]" "u \<noteq> []"
    using assms(4) by (cases rest rule: rev_cases) auto
  then show ?thesis
  proof cases
    case 3
    then have "rtext L r = wrt @ u" using assms(4) by simp
    then have "strict_prefix wrt (rtext L r)" using 3 by (simp add: strict_prefix_def)
    moreover have "rest \<noteq> []" "rest \<noteq> [nl]" using 3 by auto
    ultimately show ?thesis using assms(2,3) by (auto simp: file_ok_def torn_def)
  qed (use assms in \<open>auto simp: file_ok_def\<close>)
qed

lemma winv_view: "winv L w \<Longrightarrow> ws_handles w p = Some st \<Longrightarrow> fs_inv L (view w st)"
  by (simp add: winv_def fs_inv_def view_def fs_chain_def)

lemma winv_view_empty: "winv L w \<Longrightarrow> fs_inv L (view w chain_state_empty)"
proof -
  have "handle_ok L rs F (cstate [] 0)" for rs F
    unfolding handle_ok_def by (intro exI [of _ "[]"] exI [of _ rs]) simp
  then show "winv L w \<Longrightarrow> fs_inv L (view w chain_state_empty)"
    by (simp add: winv_def fs_inv_def view_def fs_chain_def chain_state_empty_cstate)
qed

lemma view_simps [simp]: "fs_file (view w st) = ws_file w" "fs_chain L (view w st) = committed L (ws_file w)"
    "fs_state (view w st) = st"
  by (simp_all add: view_def fs_chain_def)

text \<open>A new handle state for one process, the file unchanged.\<close>

lemma winv_set_handle:
  assumes "winv L w" and "\<not> busy w p" and "\<And>st. h = Some st \<Longrightarrow> handle_ok L (committed L (ws_file w)) (ws_file w) st"
  shows "winv L (w\<lparr>ws_handles := (ws_handles w)(p := h)\<rparr>)"
  using assms by (auto simp: winv_def pending_ok_def busy_def split: option.splits)

text \<open>No append in progress, the file now ends with the last committed record.\<close>

lemma winv_set_file:
  assumes "winv L w" and "file_ok L (committed L (ws_file w)) F" and "length (flines L (committed L (ws_file w))) \<le> length F \<or> F = ws_file w"
    and "\<And>st. h = Some st \<Longrightarrow> handle_ok L (committed L (ws_file w)) F st"
    and "pending_ok L (w\<lparr>ws_file := F, ws_handles := (ws_handles w)(p := h), ws_pending := pd\<rparr>)"
  shows "winv L (w\<lparr>ws_file := F, ws_handles := (ws_handles w)(p := h), ws_pending := pd\<rparr>) \<and>
    committed L F = committed L (ws_file w)"
proof -
  have "serde_laws L" using assms(1) by (simp add: winv_def)
  then have c: "committed L F = committed L (ws_file w)" using assms(2) by (rule committed_file_ok)
  have "handle_ok L (committed L (ws_file w)) F st" if "ws_handles w q = Some st" for q st
    using handle_ok_mono [of L "committed L (ws_file w)" "ws_file w" st F "[]"] assms(1,3) that
    by (auto simp: winv_def)
  with c assms show ?thesis by (auto simp: winv_def)
qed

lemma winv_set_file_idle:
  assumes "winv L w" and "ws_pending w = None" and "file_ok L (committed L (ws_file w)) F"
    and "length (flines L (committed L (ws_file w))) \<le> length F \<or> F = ws_file w"
    and "\<And>st. h = Some st \<Longrightarrow> handle_ok L (committed L (ws_file w)) F st"
  shows "winv L (w\<lparr>ws_file := F, ws_handles := (ws_handles w)(p := h)\<rparr>) \<and>
    committed L F = committed L (ws_file w)"
proof -
  let ?w = "w\<lparr>ws_file := F, ws_handles := (ws_handles w)(p := h)\<rparr>"
  have "winv L (?w\<lparr>ws_pending := None\<rparr>) \<and> committed L F = committed L (ws_file w)"
    by (rule winv_set_file [OF assms(1,3,4)]) (use assms(5) in \<open>auto simp: pending_ok_def\<close>)
  moreover have "?w\<lparr>ws_pending := None\<rparr> = ?w" using assms(2) by (cases w) simp
  ultimately show ?thesis by (simp only:)
qed

lemma refresh_handle:
  assumes "winv L w" and "fs_inv L (view w st)" and "refresh L (view w st) = (s, res)"
  shows "handle_ok L (committed L (ws_file w)) (ws_file w) (fs_state s) \<and> (\<exists>t. res = Inr t) \<and>
    at_end L (committed L (ws_file w)) (ws_file w) (cs_offset (fs_state s))"
  using refresh_inv [OF assms(2)] assms(3) by (auto simp: handle_ok_at_end)

definition grows :: "ledger_deps \<Rightarrow> wsystem \<Rightarrow> wsystem \<Rightarrow> bool" where
  "grows L w w' \<longleftrightarrow> winv L w' \<and> prefix (committed L (ws_file w)) (committed L (ws_file w'))"

lemma emit_grows:
  assumes "winv L w" and p: "ws_pending w = Some (p, r, piece @ rest, end)"
  shows "grows L w (w\<lparr>ws_file := ws_file w @ piece, ws_pending := Some (p, r, rest, end)\<rparr>)"
proof -
  obtain rs wrt where d: "chain_valid L (rs @ [r])" "list_all (writable L) (rs @ [r])"
      "rtext L r @ [nl] = wrt @ piece @ rest" "ws_file w = flines L rs @ wrt"
      "end = length (flines L rs)" "ws_handles w p = Some (cstate rs end)"
    using assms by (auto simp: winv_def pending_ok_def)
  have L: "serde_laws L" using assms by (simp add: winv_def)
  let ?F' = "ws_file w @ piece"
  let ?a = "if piece @ rest = [] \<or> piece @ rest = [nl] then rs @ [r] else rs"
  let ?b = "if rest = [] \<or> rest = [nl] then rs @ [r] else rs"
  have a: "committed L (ws_file w) = ?a"
    unfolding d(4) by (rule committed_file_ok [OF L partial_line [OF L d(1,2,3)]])
  have fb: "file_ok L ?b ?F'"
    using partial_line [OF L d(1,2), of "wrt @ piece" rest] d(3,4) by simp
  then have b: "committed L ?F' = ?b" by (rule committed_file_ok [OF L])
  have "piece @ rest = [] \<or> piece @ rest = [nl] \<Longrightarrow> rest = [] \<or> rest = [nl]" by (cases piece) auto
  then have "\<exists>ts. ?b = ?a @ ts"
    by (cases "piece @ rest = [] \<or> piece @ rest = [nl]"; cases "rest = [] \<or> rest = [nl]") simp_all
  then obtain ts where ts: "?b = ?a @ ts" ..
  have "handle_ok L ?b ?F' st" if "ws_handles w q = Some st" for q st
    unfolding ts using assms(1) that a
    by (intro handle_ok_mono [of L ?a "ws_file w"]) (auto simp: winv_def)
  moreover have "pending_ok L (w\<lparr>ws_file := ?F', ws_pending := Some (p, r, rest, end)\<rparr>)"
    using d by (auto simp: pending_ok_def intro!: exI [of _ rs] exI [of _ "wrt @ piece"])
  ultimately show ?thesis
    using L fb a b ts by (simp add: grows_def winv_def)
qed

lemma finish_grows:
  assumes "winv L w" and "ws_pending w = Some (p, r, [], end)" and "ws_handles w p = Some st"
  shows "grows L w (w\<lparr>ws_handles := (ws_handles w)(p \<mapsto>
                  \<lparr>cs_offset = end + length (rtext L r @ [nl]), cs_len = cs_len st + 1,
                   cs_tip_hash = record_hash r, cs_tip_record = Some r\<rparr>),
                ws_pending := None\<rparr>)"
proof -
  obtain rs where d: "chain_valid L (rs @ [r])" "list_all (writable L) (rs @ [r])"
      "ws_file w = flines L (rs @ [r])" "end = length (flines L rs)" "st = cstate rs end"
    using assms by (auto simp: winv_def pending_ok_def)
  have L: "serde_laws L" using assms by (simp add: winv_def)
  then have c: "committed L (ws_file w) = rs @ [r]"
    using d committed_file_ok file_ok_flines by metis
  have "\<lparr>cs_offset = end + length (rtext L r @ [nl]), cs_len = cs_len st + 1,
      cs_tip_hash = record_hash r, cs_tip_record = Some r\<rparr> = cstate (rs @ [r]) (length (flines L (rs @ [r])))"
    using d by (simp add: cstate_def)
  moreover have "handle_ok L (rs @ [r]) (ws_file w) (cstate (rs @ [r]) (length (flines L (rs @ [r]))))"
    using d(3) by (intro handle_ok_at_end) (simp add: at_end_def)
  ultimately show ?thesis
    using assms(1) c by (auto simp: grows_def winv_def pending_ok_def)
qed

lemma wstep_grows:
  assumes "wstep L w w'" and "winv L w"
  shows "grows L w w'"
  using assms
proof cases
  case (open_clean p s)
  then show ?thesis
    using refresh_handle [OF assms(2) winv_view_empty [OF assms(2)]] winv_set_handle [OF assms(2), of p]
    by (auto simp: grows_def)
next
  case (open_repair s p)
  have L: "serde_laws L" "file_ok L (committed L (ws_file w)) (ws_file w)" using assms(2) by (auto simp: winv_def)
  from fs_open_spec [OF this, of "''l''" "''l.lock''"] open_repair
  have s: "handle_ok L (committed L (ws_file w)) (fs_file s) (fs_state s)"
      "fs_file s = ws_file w \<or> fs_file s = flines L (committed L (ws_file w))" by auto
  moreover have "file_ok L (committed L (ws_file w)) (fs_file s)"
    using s(2) L(2) by (auto simp: file_ok_def)
  ultimately show ?thesis
    using winv_set_file_idle [OF assms(2), where F = "fs_file s" and h = "Some (fs_state s)" and p = p] open_repair
    by (auto simp: grows_def)
next
  case (read p st s res)
  then have "handle_ok L (committed L (ws_file w)) (ws_file w) (fs_state s)"
    using refresh_handle [OF assms(2) winv_view [OF assms(2)]] by blast
  then show ?thesis
    using winv_set_handle [OF assms(2), of p "Some (fs_state s)"] read by (simp add: grows_def)
next
  case (rejected p st r s e)
  from append_prepare_spec [OF winv_view [OF assms(2) rejected(2)] rejected(4)]
  have "fs_file s = ws_file w" "handle_ok L (committed L (ws_file w)) (ws_file w) (fs_state s)"
    by (auto simp: fs_inv_def fs_chain_def)
  then show ?thesis
    using winv_set_handle [OF assms(2), of p "Some (fs_state s)"] rejected by (auto simp: grows_def busy_def)
next
  case (start p st r s line "end")
  let ?rs = "committed L (ws_file w)"
  from append_prepare_spec [OF winv_view [OF assms(2) start(2)] start(5)]
  have s: "extends L ?rs r" "ser_record L r = Inr (rtext L r)" "line = rtext L r @ [nl]"
      "end = length (flines L ?rs)" "fs_file s = flines L ?rs" "fs_state s = cstate ?rs end"
    by auto
  have v: "chain_valid L ?rs" "list_all (writable L) ?rs" using assms(2) by (auto simp: winv_def file_ok_def)
  have "handle_ok L ?rs (flines L ?rs) (cstate ?rs end)"
    using s by (intro handle_ok_at_end) (simp add: at_end_def)
  moreover have "pending_ok L w'"
    using s v start by (auto simp: pending_ok_def writable_def intro!: exI [of _ ?rs])
  ultimately show ?thesis
    using winv_set_file [OF assms(2), where F = "flines L ?rs" and h = "Some (cstate ?rs end)" and p = p and pd = "Some (p, r, line, end)"]
      start s v file_ok_flines by (auto simp: grows_def)
next
  case (crash p r rest "end")
  then show ?thesis using assms(2) by (auto simp: grows_def winv_def pending_ok_def)
next
  case (crash_in_repair p st s t)
  let ?rs = "committed L (ws_file w)"
  let ?F = "take (cs_offset (fs_state s)) (ws_file w)"
  from refresh_handle [OF assms(2) winv_view [OF assms(2)]] crash_in_repair
  have e: "at_end L ?rs (ws_file w) (cs_offset (fs_state s))" by auto
  have v: "file_ok L ?rs (ws_file w)" using assms(2) by (auto simp: winv_def)
  have "?F = flines L ?rs \<or> ?F = ws_file w" using e by (auto simp: at_end_def)
  then have f: "length (flines L ?rs) \<le> length ?F \<or> ?F = ws_file w" by (metis order_refl)
  from \<open>?F = flines L ?rs \<or> ?F = ws_file w\<close> v have "file_ok L ?rs ?F" by (auto simp: file_ok_def)
  with f show ?thesis
    using winv_set_file_idle [OF assms(2), where F = ?F and h = None and p = p] crash_in_repair
    by (auto simp: grows_def)
next
  case (close p)
  then show ?thesis using winv_set_handle [OF assms(2), of p None] by (auto simp: grows_def)
qed (use assms(2) emit_grows finish_grows in auto)

lemma winv_start: "serde_laws L \<Longrightarrow> winv L wstart"
  by (simp add: winv_def wstart_def pending_ok_def file_ok_def committed_def List.map_filter_simps)

lemma wreach_grows: "wreach L w w' \<Longrightarrow> winv L w \<Longrightarrow> grows L w w'"
proof (induction rule: wreach.induct)
  case (step w w' w'')
  then show ?case using wstep_grows [of L w' w''] prefix_order.trans by (auto simp: grows_def)
qed (simp add: grows_def)


text \<open>
  C29. Durability: a record that is committed in one state of the system is committed at the same
  place in every later one, whatever crashes and repairs happen in between.
\<close>

theorem committed_records_survive:
  assumes "serde_laws L" and "wreach L wstart w" and "wreach L w w'"
  shows "prefix (committed L (ws_file w)) (committed L (ws_file w'))"
  using wreach_grows [OF assms(2) winv_start [OF assms(1)]] wreach_grows [OF assms(3)]
  by (simp add: grows_def)

text \<open>A run: a process opens the ledger, starts to append a record and dies after its first bytes.\<close>

definition torn_run_record :: ledger_record where
  "torn_run_record =
     (let r = decision_record (from_epoch_ms 0) example_call (Allow None) None 0 GENESIS_HASH ''h''
      in r\<lparr>record_hash := braced (to_nat (payload r))\<rparr>)"

lemma torn_run_record_ok:
  "extends num_deps [] torn_run_record" "exact_record torn_run_record"
  "ser_record num_deps torn_run_record = Inr (braced (to_nat torn_run_record))"
proof -
  show "extends num_deps [] torn_run_record"
    by (simp add: torn_run_record_def extends_def Let_def)
       (simp add: decision_record_def compute_hash_def num_deps_def hash_bytes_def payload_def)
  show "exact_record torn_run_record" by (simp add: torn_run_record_def Let_def example_call_def)
qed (simp add: num_deps_def)

definition torn_run_state :: wsystem where
  "torn_run_state = \<lparr>ws_file = ''{'', ws_handles = (\<lambda>_. None), ws_pending = None\<rparr>"

lemma torn_run_reachable: "wreach num_deps wstart torn_run_state"
proof -
  let ?L = num_deps and ?r = torn_run_record
  define w1 where "w1 = wstart\<lparr>ws_handles := [0 \<mapsto> chain_state_empty]\<rparr>"
  have "refresh ?L (view wstart chain_state_empty) = (view wstart chain_state_empty, Inr False)"
    by (simp add: refresh_def view_def wstart_def chain_state_empty_def)
  from wstep.open_clean [OF _ this, of 0] have 1: "wstep ?L wstart w1"
    by (simp add: w1_def busy_def wstart_def view_def)
  obtain s where "append_prepare ?L (view w1 chain_state_empty) ?r = (s, Inr (braced (to_nat ?r) @ [nl], 0))"
      "fs_file s = []"
    using torn_run_record_ok
    by (auto simp: append_prepare_def extends_def view_def w1_def wstart_def lock_def refresh_def
        chain_state_empty_def repair_tail_def)
  from wstep.start [OF _ _ torn_run_record_ok(2) this(1), of 0] this(2)
  have 2: "wstep ?L w1 \<lparr>ws_file = [], ws_handles = [0 \<mapsto> fs_state s],
      ws_pending = Some (0, ?r, ''{'' @ show_nat (to_nat ?r) @ ''}'' @ [nl], 0)\<rparr>" (is "wstep _ _ ?w2")
    by (simp add: w1_def wstart_def braced_def)
  from wstep.emit [of ?w2 0 ?r "''{''" "show_nat (to_nat ?r) @ ''}'' @ [nl]" 0]
  have 3: "wstep ?L ?w2 \<lparr>ws_file = ''{'', ws_handles = [0 \<mapsto> fs_state s],
      ws_pending = Some (0, ?r, show_nat (to_nat ?r) @ ''}'' @ [nl], 0)\<rparr>" (is "wstep _ _ ?w3")
    by simp
  from wstep.crash [of ?w3 0 ?r "show_nat (to_nat ?r) @ ''}'' @ [nl]" 0]
  have 4: "wstep ?L ?w3 torn_run_state" by (simp add: torn_run_state_def)
  from wreach.step [OF wreach.step [OF wreach.step [OF wreach.step [OF wreach.refl 1] 2] 3] 4]
  show ?thesis .
qed


theorem committed_records_survive_witness:
  "prefix (committed num_deps (ws_file wstart)) (committed num_deps (ws_file torn_run_state))"
  by (rule committed_records_survive [OF serde_laws_num_deps wreach.refl torn_run_reachable])

end
