(* ===== verification/Ledger_Query.thy ===== *)
theory Ledger_Query
  imports Serde_Example
begin

text \<open>
  The readers of a ledger: \<open>verify.rs\<close> (verification that maps an unreadable record to a break at
  its position), \<open>query.rs\<close> (session roll-ups and lookup by call) and the choice of the backend and
  the redaction of connection URLs in \<open>store.rs\<close>.
\<close>

section \<open>Verification of a stream\<close>

text \<open>
  \<open>verify_records\<close>: the closure remembers the ordinal of the first item that is an error; the
  ordinal counts the readable records before it.
\<close>

definition name_serde_error :: "nat \<Rightarrow> writ_error \<Rightarrow> writ_error" where
  "name_serde_error ordinal e =
     (case e of SerdeErr s \<Rightarrow> LedgerErr (''record '' @ show_nat ordinal @ '' is not a valid LedgerRecord: '' @ s)
      | _ \<Rightarrow> e)"

fun tag_items :: "nat \<Rightarrow> (writ_error + ledger_record) list \<Rightarrow> (writ_error + ledger_record) list" where
  "tag_items ordinal [] = []"
| "tag_items ordinal (Inr r # items) = Inr r # tag_items (ordinal + 1) items"
| "tag_items ordinal (Inl e # items) = Inl (name_serde_error ordinal e) # tag_items ordinal items"

fun first_failure :: "nat \<Rightarrow> (writ_error + ledger_record) list \<Rightarrow> nat option" where
  "first_failure ordinal [] = None"
| "first_failure ordinal (Inr r # items) = first_failure (ordinal + 1) items"
| "first_failure ordinal (Inl e # items) = Some ordinal"

definition verify_records :: "ledger_deps \<Rightarrow> (writ_error + ledger_record) list \<Rightarrow> writ_error + verify_report" where
  "verify_records L items =
     (case verify_chain L (tag_items 0 items) of
        Inr rep \<Rightarrow> Inr rep
      | Inl e \<Rightarrow> (case first_failure 0 items of
                   Some i \<Rightarrow> Inr \<lparr>vr_records = i, vr_intact = False, vr_broken_at = Some i\<rparr>
                 | None \<Rightarrow> Inl e))"

definition verify_jsonl :: "ledger_deps \<Rightarrow> bytes \<Rightarrow> writ_error + verify_report" where
  "verify_jsonl L file = verify_records L (record_iter L file)"

section \<open>Queries\<close>

record session_summary =
  sm_session_id :: str
  sm_records :: nat
  sm_denied :: nat
  sm_approved_by_human :: bool

definition new_summary :: "str \<Rightarrow> session_summary" where
  "new_summary sid = \<lparr>sm_session_id = sid, sm_records = 0, sm_denied = 0, sm_approved_by_human = False\<rparr>"

definition human_approved :: "ledger_record \<Rightarrow> bool" where
  "human_approved r = (case rapprover r of None \<Rightarrow> False | Some a \<Rightarrow> apr_kind a \<in> {Tui, Rbac})"

definition is_denied :: "ledger_record \<Rightarrow> bool" where
  "is_denied r = (case rverdict r of Some (Deny _ _ _) \<Rightarrow> True | _ \<Rightarrow> False)"

definition count_record :: "ledger_record \<Rightarrow> session_summary \<Rightarrow> session_summary" where
  "count_record r sm =
     sm\<lparr>sm_records := sm_records sm + 1,
        sm_denied := (if is_denied r then sm_denied sm + 1 else sm_denied sm),
        sm_approved_by_human := (human_approved r \<or> sm_approved_by_human sm)\<rparr>"

text \<open>The loop of \<open>sessions_in\<close>: \<open>order\<close> and \<open>by_id\<close>.\<close>

fun sessions_loop ::
  "str list \<Rightarrow> (str \<Rightarrow> session_summary option) \<Rightarrow> (writ_error + ledger_record) list \<Rightarrow>
   writ_error + str list \<times> (str \<Rightarrow> session_summary option)" where
  "sessions_loop order by_id [] = Inr (order, by_id)"
| "sessions_loop order by_id (item # items) =
     rbind item (\<lambda>r.
       let sid = session_id r;
           (order', sm) = (case by_id sid of Some sm \<Rightarrow> (order, sm) | None \<Rightarrow> (order @ [sid], new_summary sid))
       in sessions_loop order' (by_id(sid \<mapsto> count_record r sm)) items)"

definition sessions_in :: "(writ_error + ledger_record) list \<Rightarrow> writ_error + session_summary list" where
  "sessions_in items =
     rbind (sessions_loop [] Map.empty items) (\<lambda>(order, by_id). Inr (map (\<lambda>sid. the (by_id sid)) order))"

fun find_by_call_id_in :: "(writ_error + ledger_record) list \<Rightarrow> str \<Rightarrow> writ_error + ledger_record list" where
  "find_by_call_id_in [] cid = Inr []"
| "find_by_call_id_in (item # items) cid =
     rbind item (\<lambda>r. rbind (find_by_call_id_in items cid) (\<lambda>rs.
       Inr (if call_id r = cid then r # rs else rs)))"

section \<open>Choosing the store\<close>

datatype store_kind = Jsonl | Sqlite | Postgres

definition SQLITE_MAGIC :: bytes where
  "SQLITE_MAGIC = ''SQLite format 3'' @ [CHR 0x00]"

definition scheme_is :: "str \<Rightarrow> str \<Rightarrow> bool" where
  "scheme_is location p = (case str_get location 0 (length p) of None \<Rightarrow> False | Some s \<Rightarrow> eq_ignore_ascii_case s p)"

definition is_postgres_url :: "str \<Rightarrow> bool" where
  "is_postgres_url location \<longleftrightarrow> scheme_is location ''postgres://'' \<or> scheme_is location ''postgresql://''"

definition redact_pair :: "str \<Rightarrow> str" where
  "redact_pair kv =
     (let key = hd (split_on (\<lambda>c. c = CHR ''='') kv)
      in if eq_ignore_ascii_case key ''password'' then ''password=***'' else kv)"

text \<open>\<open>rfind('@')\<close> then \<open>split_at\<close>: the second part starts with the \<open>@\<close>.\<close>

definition redact_userinfo :: "str \<Rightarrow> str" where
  "redact_userinfo before_query =
     (case rsplit_once before_query (CHR ''@'') of
        Some (userinfo, host) \<Rightarrow>
          (case split_once userinfo '':'' of
             Some (usr, _) \<Rightarrow> usr @ '':***'' @ ''@'' @ host
           | None \<Rightarrow> before_query)
      | None \<Rightarrow> before_query)"

definition redact_postgres_url :: "str \<Rightarrow> str" where
  "redact_postgres_url url =
     (case split_once url ''://'' of
        None \<Rightarrow> ''<postgres url>''
      | Some (scheme, rest) \<Rightarrow>
          (case split_once rest ''?'' of
             None \<Rightarrow> scheme @ ''://'' @ redact_userinfo rest
           | Some (b, q) \<Rightarrow> scheme @ ''://'' @ redact_userinfo b @ ''?'' @
               join ''&'' (map redact_pair (split_on (\<lambda>c. c = CHR ''&'') q))))"

text \<open>
  \<open>Path::extension\<close> (Unix): of the last component, what follows its last dot, unless the dot is
  its first character; \<open>.\<close> components and empty ones are skipped, \<open>..\<close> has no file name.
\<close>

definition path_file_name :: "str \<Rightarrow> str option" where
  "path_file_name p =
     (let comps = filter (\<lambda>c. c \<noteq> [] \<and> c \<noteq> ''.'') (split_on (\<lambda>c. c = CHR ''/'') p)
      in if comps = [] then None else if last comps = ''..'' then None else Some (last comps))"

definition path_extension :: "str \<Rightarrow> str option" where
  "path_extension p =
     (case path_file_name p of None \<Rightarrow> None
      | Some f \<Rightarrow> (case rsplit_once f (CHR ''.'') of None \<Rightarrow> None
                  | Some (stem, ext) \<Rightarrow> if stem = [] then None else Some ext))"

definition kind_by_extension :: "str \<Rightarrow> store_kind" where
  "kind_by_extension p =
     (case map_option to_ascii_lowercase (path_extension p) of
        Some e \<Rightarrow> if e \<in> {''db'', ''sqlite'', ''sqlite3''} then Sqlite else Jsonl
      | None \<Rightarrow> Jsonl)"

text \<open>What opening the path for reading gives.\<close>

datatype probe = NotFound | OpenError str | Contents bytes

definition detect_store_kind :: "str \<Rightarrow> str \<Rightarrow> probe \<Rightarrow> writ_error + store_kind" where
  "detect_store_kind p p_debug probe =
     (if is_postgres_url p then Inr Postgres
      else case probe of
        NotFound \<Rightarrow> Inr (kind_by_extension p)
      | OpenError e \<Rightarrow> Inl (IoErr e)
      | Contents b \<Rightarrow>
          (let head = take (length SQLITE_MAGIC) b
           in if head = SQLITE_MAGIC then Inr Sqlite
              else if head = [] then Inr (kind_by_extension p)
              else if kind_by_extension p = Sqlite
              then Inl (LedgerErr (''ledger '' @ p_debug @
                '' has a SQLite file extension but no SQLite header; refusing to guess its format''))
              else Inr Jsonl))"

section \<open>Verification finds the first bad record\<close>

lemma tag_items_map_Inr [simp]: "tag_items n (map Inr rs @ items) = map Inr rs @ tag_items (n + length rs) items"
  by (induction rs arbitrary: n) auto

lemma first_failure_map_Inr [simp]: "first_failure n (map Inr rs @ items) = first_failure (n + length rs) items"
  by (induction rs arbitrary: n) auto

lemma stream_cases:
  obtains (readable) rs where "items = map Inr rs"
  | (broken) rs e rest where "items = map Inr rs @ Inl e # rest"
proof -
  have "(\<exists>rs. items = map Inr rs) \<or> (\<exists>rs e rest. items = map Inr rs @ Inl e # rest)"
  proof (induction items)
    case (Cons x items)
    show ?case
    proof (cases x)
      case (Inl e)
      then show ?thesis by (metis append_Nil list.simps(8))
    next
      case (Inr r)
      with Cons show ?thesis by (metis append_Cons list.simps(9))
    qed
  qed simp
  then show thesis using that by blast
qed

lemma verify_chain_unreadable:
  assumes "chain_valid L rs"
  shows "verify_chain L (map Inr rs @ Inl e # rest) = Inl e"
  using verify_loop_valid [of L "[]" rs "Inl e # rest"] assms by (simp add: verify_chain_def)

lemma verify_records_cases:
  assumes "chain_valid L rs"
  shows "verify_records L (map Inr rs) = Inr \<lparr>vr_records = length rs, vr_intact = True, vr_broken_at = None\<rparr>"
    and "\<not> extends L rs r \<Longrightarrow> verify_records L (map Inr rs @ Inr r # items) =
      Inr \<lparr>vr_records = length rs, vr_intact = False, vr_broken_at = Some (index r)\<rparr>"
    and "verify_records L (map Inr rs @ Inl e # items) =
      Inr \<lparr>vr_records = length rs, vr_intact = False, vr_broken_at = Some (length rs)\<rparr>"
  using verify_chain_valid [OF assms] verify_chain_broken [OF assms] verify_chain_unreadable [OF assms]
    tag_items_map_Inr [of 0 rs "[]"]
  by (simp_all add: verify_records_def)

text \<open>What a report says of a stream.\<close>

definition report_correct :: "ledger_deps \<Rightarrow> (writ_error + ledger_record) list \<Rightarrow> verify_report \<Rightarrow> bool" where
  "report_correct L items rep \<longleftrightarrow>
     (vr_intact rep \<longleftrightarrow> (\<exists>rs. items = map Inr rs \<and> chain_valid L rs)) \<and>
     (vr_intact rep \<longrightarrow> vr_records rep = length items) \<and>
     (\<not> vr_intact rep \<longrightarrow>
        (\<exists>rs bad rest. items = map Inr rs @ bad # rest \<and> length rs = vr_records rep \<and> chain_valid L rs \<and>
           (case bad of Inl e \<Rightarrow> vr_broken_at rep = Some (vr_records rep)
            | Inr r \<Rightarrow> \<not> extends L rs r \<and> vr_broken_at rep = Some (index r))))"

lemma map_Inr_split:
  "map Inr rs = map Inr pre @ bad # rest \<Longrightarrow> \<exists>r us. rs = pre @ r # us \<and> bad = Inr r"
  by (induction pre arbitrary: rs) (auto simp: map_eq_Cons_conv)

lemma bad_item_not_valid:
  assumes "items = map Inr pre @ bad # rest" and "\<And>r. bad = Inr r \<Longrightarrow> \<not> extends L pre r"
  shows "\<not> (\<exists>rs. items = map Inr rs \<and> chain_valid L rs)"
proof
  assume "\<exists>rs. items = map Inr rs \<and> chain_valid L rs"
  then obtain rs where rs: "map Inr rs = map Inr pre @ bad # rest" "chain_valid L rs" using assms(1) by auto
  from map_Inr_split [OF rs(1)] obtain r us where r: "rs = pre @ r # us" "bad = Inr r" by blast
  with rs(2) have "chain_valid L ((pre @ [r]) @ us)" by simp
  then have "chain_valid L (pre @ [r])" by (rule chain_valid_append)
  with assms(2) r(2) show False by simp
qed

lemma verify_records_bad:
  assumes "chain_valid L pre" and "\<And>r. bad = Inr r \<Longrightarrow> \<not> extends L pre r"
  shows "\<exists>rep. verify_records L (map Inr pre @ bad # rest) = Inr rep \<and> report_correct L (map Inr pre @ bad # rest) rep"
proof -
  note n = bad_item_not_valid [OF refl assms(2)]
  show ?thesis
  proof (cases bad)
    case (Inl e)
    then show ?thesis
      using n verify_records_cases(3) [OF assms(1), of e rest] assms(1)
      by (auto simp: report_correct_def intro!: exI [of _ pre] exI [of _ bad] exI [of _ rest])
  next
    case (Inr r)
    then show ?thesis
      using n verify_records_cases(2) [OF assms(1) assms(2) [OF Inr], of rest] assms
      by (auto simp: report_correct_def intro!: exI [of _ pre] exI [of _ bad] exI [of _ rest])
  qed
qed


section \<open>Session roll-ups\<close>

definition first_seen :: "str list \<Rightarrow> str list" where
  "first_seen xs = rev (remdups (rev xs))"

definition summary_of :: "ledger_record list \<Rightarrow> str \<Rightarrow> session_summary" where
  "summary_of rs sid =
     \<lparr>sm_session_id = sid, sm_records = length (filter (\<lambda>r. session_id r = sid) rs),
      sm_denied = length (filter (\<lambda>r. session_id r = sid \<and> is_denied r) rs),
      sm_approved_by_human = list_ex (\<lambda>r. session_id r = sid \<and> human_approved r) rs\<rparr>"

definition summaries :: "ledger_record list \<Rightarrow> str \<Rightarrow> session_summary option" where
  "summaries rs sid = (if sid \<in> session_id ` set rs then Some (summary_of rs sid) else None)"

lemma first_seen_snoc: "first_seen (xs @ [x]) = (if x \<in> set xs then first_seen xs else first_seen xs @ [x])"
  by (simp add: first_seen_def)

lemma summary_new: "session_id r \<notin> session_id ` set rs \<Longrightarrow> summary_of rs (session_id r) = new_summary (session_id r)"
  by (auto simp: summary_of_def new_summary_def filter_empty_conv list_ex_iff image_iff)

lemma summaries_step:
  "(summaries rs)(session_id r \<mapsto> count_record r (summary_of rs (session_id r))) = summaries (rs @ [r])"
  by (rule ext) (auto simp: summaries_def summary_of_def count_record_def)

lemma sessions_loop_spec:
  "sessions_loop (first_seen (map session_id pre)) (summaries pre) (map Inr rs) =
     Inr (first_seen (map session_id (pre @ rs)), summaries (pre @ rs))"
proof (induction rs arbitrary: pre)
  case (Cons r rs)
  let ?sid = "session_id r"
  have "(case summaries pre ?sid of Some sm \<Rightarrow> (first_seen (map session_id pre), sm)
      | None \<Rightarrow> (first_seen (map session_id pre) @ [?sid], new_summary ?sid)) =
      (first_seen (map session_id (pre @ [r])), summary_of pre ?sid)"
    by (auto simp: summaries_def first_seen_snoc summary_new)
  then have "sessions_loop (first_seen (map session_id pre)) (summaries pre) (map Inr (r # rs)) =
      sessions_loop (first_seen (map session_id (pre @ [r]))) (summaries (pre @ [r])) (map Inr rs)"
    by (simp add: Let_def summaries_step)
  with Cons.IH [of "pre @ [r]"] show ?case by simp
qed simp

text \<open>
  Session roll-ups: one summary per session, in the order in which sessions first appear, with
  the number of its records, of its denials, and whether a human approver was involved.
\<close>

theorem sessions_in_correct:
  "sessions_in (map Inr rs) = Inr (map (summary_of rs) (first_seen (map session_id rs)))"
proof -
  have "sessions_loop [] Map.empty (map Inr rs) = Inr (first_seen (map session_id rs), summaries rs)"
  proof -
    have "summaries [] = Map.empty" by (rule ext) (simp add: summaries_def)
    then show ?thesis using sessions_loop_spec [of "[]" rs] by (simp add: first_seen_def)
  qed
  moreover have "the (summaries rs sid) = summary_of rs sid" if "sid \<in> set (first_seen (map session_id rs))" for sid
    using that by (simp add: first_seen_def summaries_def)
  ultimately show ?thesis by (simp add: sessions_in_def)
qed

section \<open>Redaction\<close>

lemma rsplit_once_last: "d \<notin> set b \<Longrightarrow> rsplit_once (a @ d # b) d = Some (a, b)"
proof (induction a)
  case Nil
  have "rsplit_once b d = None" if "d \<notin> set b" for b using that by (induction b) auto
  with Nil show ?case by simp
qed simp

lemma split_once_char: "c \<notin> set a \<Longrightarrow> split_once (a @ c # b) [c] = Some (a, b)"
  by (induction a) auto

lemma split_once_char_None: "c \<notin> set a \<Longrightarrow> split_once a [c] = None"
  by (induction a) auto

definition redact_query :: "str option \<Rightarrow> str" where
  "redact_query q = (case q of None \<Rightarrow> [] | Some q \<Rightarrow> ''?'' @ join ''&'' (map redact_pair (split_on (\<lambda>c. c = CHR ''&'') q)))"

text \<open>
  Redaction hides the password: for a connection URL with user information the displayed text is
  the URL with the password replaced by \<open>***\<close> and every \<open>password\<close> query parameter blanked, whatever
  the password is, as long as it contains no \<open>?\<close>; characters like \<open>@\<close>, \<open>:\<close> and \<open>/\<close> are covered.
\<close>

theorem redact_postgres_url_hides_password:
  assumes "CHR '':'' \<notin> set scheme" and "CHR '':'' \<notin> set usr" and "CHR ''?'' \<notin> set usr"
    and "CHR ''?'' \<notin> set pass" and "CHR ''?'' \<notin> set host" and "CHR ''@'' \<notin> set host"
  shows "redact_postgres_url
      (scheme @ ''://'' @ (usr @ '':'' @ pass @ ''@'' @ host) @ (case q of None \<Rightarrow> [] | Some q \<Rightarrow> ''?'' @ q)) =
    scheme @ ''://'' @ usr @ '':***@'' @ host @ redact_query q"
proof -
  let ?b = "usr @ '':'' @ pass @ ''@'' @ host"
  have "rsplit_once ((usr @ '':'' @ pass) @ CHR ''@'' # host) (CHR ''@'') = Some (usr @ '':'' @ pass, host)"
    using assms(6) by (rule rsplit_once_last)
  moreover have "split_once (usr @ CHR '':'' # pass) '':'' = Some (usr, pass)"
    using assms(2) by (rule split_once_char)
  ultimately have u: "redact_userinfo ?b = usr @ '':***@'' @ host" by (simp add: redact_userinfo_def)
  have b: "CHR ''?'' \<notin> set ?b" using assms by simp
  show ?thesis
  proof (cases q)
    case None
    then show ?thesis
      using split_once_scheme [OF assms(1), of ?b] split_once_char_None [OF b] u
      by (simp add: redact_postgres_url_def redact_query_def)
  next
    case (Some q')
    then show ?thesis
      using split_once_scheme [OF assms(1), of "?b @ ''?'' @ q'"] split_once_char [OF b, of q'] u
      by (simp add: redact_postgres_url_def redact_query_def)
  qed
qed

theorem redact_postgres_url_hides_password_witness:
  "redact_postgres_url ''postgres://u:p@s/w@db:5432/l?sslmode=on&password=x'' =
     ''postgres://u:***@db:5432/l?sslmode=on&password=***''"
proof -
  have "redact_postgres_url (''postgres'' @ ''://'' @ (''u'' @ '':'' @ ''p@s/w'' @ ''@'' @ ''db:5432/l'') @
      (case Some ''sslmode=on&password=x'' of None \<Rightarrow> [] | Some q \<Rightarrow> ''?'' @ q)) =
      ''postgres'' @ ''://'' @ ''u'' @ '':***@'' @ ''db:5432/l'' @ redact_query (Some ''sslmode=on&password=x'')"
    by (rule redact_postgres_url_hides_password) simp_all
  moreover have "redact_query (Some ''sslmode=on&password=x'') = ''?sslmode=on&password=***''" by code_simp
  ultimately show ?thesis by simp
qed

text \<open>
  A password with a raw question mark is shown in full: everything from the question mark on is
  taken for the query, so no user information is recognised.
\<close>

theorem redact_postgres_url_leaks:
  "redact_postgres_url ''postgres://u:se?cret@db/l'' = ''postgres://u:se?cret@db/l''"
  by code_simp

end
