(* ===== verification/Merkle.thy ===== *)
theory Merkle
  imports Writ_Prelude
begin

text \<open>
  \<open>writ-receipts/src/merkle.rs\<close>: the RFC 6962 hash tree over leaf hashes, audit paths and their
  verification.  SHA-256 is the parameter \<open>H\<close>.  A \<open>Hash\<close> is a byte string; the type \<open>[u8; 32]\<close> shows
  up as the hypothesis that digests and given hashes have 32 bytes.
\<close>

section \<open>Operations\<close>

definition leaf_hash :: "(bytes \<Rightarrow> bytes) \<Rightarrow> bytes \<Rightarrow> bytes" where
  "leaf_hash H d = H (CHR 0x00 # d)"

definition node_hash :: "(bytes \<Rightarrow> bytes) \<Rightarrow> bytes \<Rightarrow> bytes \<Rightarrow> bytes" where
  "node_hash H l r = H (CHR 0x01 # l @ r)"

text \<open>\<open>while k << 1 < n { k <<= 1 }\<close>.\<close>

function split_loop :: "nat \<Rightarrow> nat \<Rightarrow> nat" where
  "split_loop k n = (if 0 < k \<and> 2 * k < n then split_loop (2 * k) n else k)"
  by pat_completeness auto
termination
  by (relation "measure (\<lambda>(k, n). n - k)") auto

declare split_loop.simps [simp del]

definition split :: "nat \<Rightarrow> nat" where
  "split n = split_loop 1 n"

lemma split_loop_power: "2 ^ i < n \<Longrightarrow> \<exists>j. split_loop (2 ^ i) n = 2 ^ j \<and> 2 ^ j < n \<and> n \<le> 2 ^ (j + 1)"
proof (induction "n - 2 ^ i" arbitrary: i rule: less_induct)
  case less
  show ?case
  proof (cases "2 * 2 ^ i < n")
    case True
    have "n - 2 ^ (i + 1) < n - 2 ^ i" using less.prems by (simp add: diff_less_mono2)
    then have "\<exists>j. split_loop (2 ^ (i + 1)) n = 2 ^ j \<and> 2 ^ j < n \<and> n \<le> 2 ^ (j + 1)"
      using less.hyps [of "i + 1"] True by simp
    then show ?thesis using True by (subst split_loop.simps) simp
  next
    case False
    then show ?thesis using less.prems by (subst split_loop.simps) (auto intro!: exI [of _ i])
  qed
qed

lemma split_power: "2 \<le> n \<Longrightarrow> \<exists>j. split n = 2 ^ j \<and> 2 ^ j < n \<and> n \<le> 2 ^ (j + 1)"
  using split_loop_power [of 0 n] by (simp add: split_def)

lemma split_bounds: "2 \<le> n \<Longrightarrow> 0 < split n \<and> split n < n"
  using split_power by fastforce

function root :: "(bytes \<Rightarrow> bytes) \<Rightarrow> bytes list \<Rightarrow> bytes" where
  "root H leaves =
     (if length leaves = 0 then H []
      else if length leaves = 1 then leaves ! 0
      else (let k = split (length leaves)
            in node_hash H (root H (take k leaves)) (root H (drop k leaves))))"
  by pat_completeness auto
termination
proof (relation "measure (\<lambda>(H, leaves). length leaves)")
  fix H :: "bytes \<Rightarrow> bytes" and leaves :: "bytes list" and k
  assume "length leaves \<noteq> 0" "length leaves \<noteq> 1" "k = split (length leaves)"
  moreover from this have "2 \<le> length leaves" by linarith
  ultimately have "0 < k \<and> k < length leaves" using split_bounds [of "length leaves"] by simp
  then show "((H, take k leaves), H, leaves) \<in> measure (\<lambda>(H, leaves). length leaves)"
    and "((H, drop k leaves), H, leaves) \<in> measure (\<lambda>(H, leaves). length leaves)"
    by auto
qed simp

declare root.simps [simp del]

function build_path :: "(bytes \<Rightarrow> bytes) \<Rightarrow> bytes list \<Rightarrow> nat \<Rightarrow> bytes list" where
  "build_path H leaves m =
     (if length leaves \<le> 1 then []
      else (let k = split (length leaves)
            in if m < k then build_path H (take k leaves) m @ [root H (drop k leaves)]
               else build_path H (drop k leaves) (m - k) @ [root H (take k leaves)]))"
  by pat_completeness auto
termination
proof (relation "measure (\<lambda>(H, leaves, m). length leaves)")
  fix H :: "bytes \<Rightarrow> bytes" and leaves :: "bytes list" and m k
  assume "\<not> length leaves \<le> 1" "k = split (length leaves)"
  then have "0 < k \<and> k < length leaves" using split_bounds [of "length leaves"] by simp
  then show "((H, take k leaves, m), H, leaves, m) \<in> measure (\<lambda>(H, leaves, m). length leaves)"
    and "((H, drop k leaves, m - k), H, leaves, m) \<in> measure (\<lambda>(H, leaves, m). length leaves)"
    by auto
qed simp

declare build_path.simps [simp del]

definition inclusion_path :: "(bytes \<Rightarrow> bytes) \<Rightarrow> bytes list \<Rightarrow> nat \<Rightarrow> bytes list option" where
  "inclusion_path H leaves m = (if m \<ge> length leaves then None else Some (build_path H leaves m))"

text \<open>The inner \<open>while\<close>: shift both until the first is odd or zero.\<close>

function shift_even :: "nat \<Rightarrow> nat \<Rightarrow> nat \<times> nat" where
  "shift_even f s = (if even f \<and> f \<noteq> 0 then shift_even (f div 2) (s div 2) else (f, s))"
  by pat_completeness auto
termination
  by (relation "measure fst") auto

declare shift_even.simps [simp del]

text \<open>The loop over the path: \<open>None\<close> is the early \<open>return false\<close>.\<close>

fun incl_loop :: "(bytes \<Rightarrow> bytes) \<Rightarrow> nat \<Rightarrow> nat \<Rightarrow> bytes \<Rightarrow> bytes list \<Rightarrow> (nat \<times> bytes) option" where
  "incl_loop H f s r [] = Some (s, r)"
| "incl_loop H f s r (p # ps) =
     (if s = 0 then None
      else if odd f \<or> f = s then
        (let (f', s') = (if even f then shift_even f s else (f, s))
         in incl_loop H (f' div 2) (s' div 2) (node_hash H p r) ps)
      else incl_loop H (f div 2) (s div 2) (node_hash H r p) ps)"

definition verify_inclusion :: "(bytes \<Rightarrow> bytes) \<Rightarrow> bytes \<Rightarrow> nat \<Rightarrow> nat \<Rightarrow> bytes list \<Rightarrow> bytes \<Rightarrow> bool" where
  "verify_inclusion H leaf ix sz path rt \<longleftrightarrow>
     ix < sz \<and>
     (case incl_loop H ix (sz - 1) leaf path of None \<Rightarrow> False | Some (s, r) \<Rightarrow> s = 0 \<and> r = rt)"

section \<open>Audit paths verify\<close>

lemma root_simps:
  "root H [x] = x"
  "2 \<le> length ls \<Longrightarrow>
     root H ls = node_hash H (root H (take (split (length ls)) ls)) (root H (drop (split (length ls)) ls))"
  by (simp add: root.simps [of H "[x]"], cases "ls = []") (simp_all add: root.simps [of H ls] Let_def)

lemma build_path_simps:
  "build_path H [x] m = []"
  "2 \<le> length ls \<Longrightarrow> m < split (length ls) \<Longrightarrow>
     build_path H ls m = build_path H (take (split (length ls)) ls) m @ [root H (drop (split (length ls)) ls)]"
  "2 \<le> length ls \<Longrightarrow> \<not> m < split (length ls) \<Longrightarrow>
     build_path H ls m = build_path H (drop (split (length ls)) ls) (m - split (length ls)) @ [root H (take (split (length ls)) ls)]"
  by (simp_all add: build_path.simps [of H "[x]"] build_path.simps [of H ls m] Let_def)

lemma split_pow: "split (2 ^ (j + 1)) = 2 ^ j"
proof -
  obtain i where i: "split (2 ^ (j + 1)) = 2 ^ i" "(2::nat) ^ i < 2 ^ (j + 1)" "(2::nat) ^ (j + 1) \<le> 2 ^ (i + 1)"
    using split_power [of "2 ^ (j + 1)"] by auto
  then have "i < j + 1" "j + 1 \<le> i + 1" by (auto simp del: power_Suc)
  then show ?thesis using i(1) by simp
qed

text \<open>
  A perfect subtree of \<open>2^j\<close> leaves that is not the last one at its level: its path takes the state
  up \<open>j\<close> levels and gives its root.
\<close>

lemma incl_loop_perfect:
  assumes "length ls = 2 ^ j" and "m < 2 ^ j" and "a < b" and "t < 2 ^ j"
  shows "incl_loop H (a * 2 ^ j + m) (b * 2 ^ j + t) (ls ! m) (build_path H ls m @ rest) =
         incl_loop H a b (root H ls) rest"
  using assms
proof (induction j arbitrary: ls m a b t rest)
  case 0
  then obtain x where "ls = [x]" by (cases ls) auto
  with 0 show ?case by (simp add: root_simps build_path_simps)
next
  case (Suc j)
  let ?L = "take (2 ^ j) ls" and ?R = "drop (2 ^ j) ls"
  have n: "2 \<le> length ls" and sp: "split (length ls) = 2 ^ j"
    using Suc.prems(1) split_pow [of j] by (auto simp: le_Suc_eq)
  have rt: "root H ls = node_hash H (root H ?L) (root H ?R)" using root_simps(2) [OF n] sp by simp
  obtain tb t' where t: "b * 2 ^ Suc j + t = (2 * b + tb) * 2 ^ j + t'" "tb < 2" "t' < 2 ^ j"
  proof
    show "b * 2 ^ Suc j + t = (2 * b + t div 2 ^ j) * 2 ^ j + t mod 2 ^ j"
      by (simp add: algebra_simps)
    show "t div 2 ^ j < 2" using Suc.prems(4) by (simp add: less_mult_imp_div_less)
  qed simp
  then have b: "(2 * b + tb) div 2 = b" by simp
  show ?case
  proof (cases "m < 2 ^ j")
    case True
    have "incl_loop H ((2 * a) * 2 ^ j + m) ((2 * b + tb) * 2 ^ j + t') (?L ! m)
        (build_path H ?L m @ root H ?R # rest) = incl_loop H (2 * a) (2 * b + tb) (root H ?L) (root H ?R # rest)"
      using Suc.prems True t by (intro Suc.IH) auto
    moreover have "build_path H ls m = build_path H ?L m @ [root H ?R]"
      using build_path_simps(2) [OF n] sp True by simp
    moreover have "2 * a \<noteq> 2 * b + tb" using Suc.prems(3) by simp
    moreover have e: "a * 2 ^ Suc j + m = (2 * a) * 2 ^ j + m" by simp
    ultimately show ?thesis unfolding e t(1) rt using True b Suc.prems(3) by simp
  next
    case False
    have "incl_loop H ((2 * a + 1) * 2 ^ j + (m - 2 ^ j)) ((2 * b + tb) * 2 ^ j + t') (?R ! (m - 2 ^ j))
        (build_path H ?R (m - 2 ^ j) @ root H ?L # rest) =
        incl_loop H (2 * a + 1) (2 * b + tb) (root H ?R) (root H ?L # rest)"
      using Suc.prems False t by (intro Suc.IH) auto
    moreover have bp: "build_path H ls m = build_path H ?R (m - 2 ^ j) @ [root H ?L]"
      using build_path_simps(3) [OF n] sp False by simp
    moreover have e: "a * 2 ^ Suc j + m = (2 * a + 1) * 2 ^ j + (m - 2 ^ j)" and x: "ls ! m = ?R ! (m - 2 ^ j)"
      using False Suc.prems by (auto simp: algebra_simps)
    have "incl_loop H (a * 2 ^ Suc j + m) (b * 2 ^ Suc j + t) (ls ! m) (build_path H ls m @ rest) =
        incl_loop H ((2 * a + 1) * 2 ^ j + (m - 2 ^ j)) ((2 * b + tb) * 2 ^ j + t') (?R ! (m - 2 ^ j))
          (build_path H ?R (m - 2 ^ j) @ root H ?L # rest)"
      unfolding e t(1) x bp by simp
    ultimately show ?thesis unfolding rt using b Suc.prems(3) by simp
  qed
qed

text \<open>The last subtree at its level, not necessarily perfect.\<close>

lemma shift_even_odd: "odd a \<Longrightarrow> shift_even (a * 2 ^ i) (a * 2 ^ i) = (a, a)"
proof (induction i)
  case 0
  then show ?case by (simp add: shift_even.simps)
next
  case (Suc i)
  have "a * 2 ^ Suc i div 2 = a * 2 ^ i" by simp
  then show ?case using Suc by (subst shift_even.simps) auto
qed

lemma incl_loop_last_step:
  assumes "odd a"
  shows "incl_loop H (a * 2 ^ i) (a * 2 ^ i) r (p # ps) = incl_loop H (a div 2) (a div 2) (node_hash H p r) ps"
proof (cases i)
  case 0
  with assms show ?thesis by (auto elim: oddE)
next
  case (Suc k)
  then have "a * 2 ^ i \<noteq> 0" "even (a * 2 ^ i)" using assms by (auto elim: oddE)
  then show ?thesis using shift_even_odd [OF assms] by simp
qed

lemma incl_loop_last:
  assumes "ls \<noteq> []" and "m < length ls" and "length ls \<le> 2 ^ j"
  shows "\<exists>i. incl_loop H (a * 2 ^ j + m) (a * 2 ^ j + (length ls - 1)) (ls ! m) (build_path H ls m @ rest) =
             incl_loop H (a * 2 ^ i) (a * 2 ^ i) (root H ls) rest"
  using assms
proof (induction "length ls" arbitrary: ls m a j rest rule: less_induct)
  case less
  show ?case
  proof (cases "length ls = 1")
    case True
    then obtain x where "ls = [x]" by (cases ls) auto
    with less.prems show ?thesis by (auto simp: root_simps build_path_simps)
  next
    case False
    then have n: "2 \<le> length ls" using less.prems(2) by linarith
    then obtain i where i: "split (length ls) = 2 ^ i" "2 ^ i < length ls" "length ls \<le> 2 ^ (i + 1)"
      using split_power by blast
    let ?L = "take (2 ^ i) ls" and ?R = "drop (2 ^ i) ls"
    have rt: "root H ls = node_hash H (root H ?L) (root H ?R)" using root_simps(2) [OF n] i by simp
    have "(2::nat) ^ i < 2 ^ j" using i(2) less.prems(3) by linarith
    then have ij: "i < j" by simp
    then obtain d where d: "j = i + (d + 1)" by (metis add.assoc less_imp_Suc_add Suc_eq_plus1)
    define A where "A = a * 2 ^ (d + 1)"
    have A: "a * 2 ^ j = A * 2 ^ i" "A div 2 = a * 2 ^ d" "even A" by (simp_all add: A_def d power_add)
    have s: "a * 2 ^ j + (length ls - 1) = (A + 1) * 2 ^ i + (length ls - 1 - 2 ^ i)"
      using i(2) by (simp add: A(1))
    show ?thesis
    proof (cases "m < 2 ^ i")
      case True
      have "incl_loop H (A * 2 ^ i + m) ((A + 1) * 2 ^ i + (length ls - 1 - 2 ^ i)) (?L ! m)
          (build_path H ?L m @ root H ?R # rest) = incl_loop H A (A + 1) (root H ?L) (root H ?R # rest)"
        using i True by (intro incl_loop_perfect) auto
      moreover have bp: "build_path H ls m = build_path H ?L m @ [root H ?R]"
        using build_path_simps(2) [OF n] i True by simp
      have "incl_loop H (a * 2 ^ j + m) (a * 2 ^ j + (length ls - 1)) (ls ! m) (build_path H ls m @ rest) =
          incl_loop H (A * 2 ^ i + m) ((A + 1) * 2 ^ i + (length ls - 1 - 2 ^ i)) (?L ! m)
            (build_path H ?L m @ root H ?R # rest)"
        unfolding s bp unfolding A(1) using True by simp
      moreover have "incl_loop H A (A + 1) (root H ?L) (root H ?R # rest) =
          incl_loop H (a * 2 ^ d) (a * 2 ^ d) (root H ls) rest"
        using A(2,3) by (simp add: rt)
      ultimately show ?thesis by (intro exI [of _ d]) (simp only:)
    next
      case False
      have "\<exists>i'. incl_loop H ((A + 1) * 2 ^ i + (m - 2 ^ i)) ((A + 1) * 2 ^ i + (length ?R - 1)) (?R ! (m - 2 ^ i))
          (build_path H ?R (m - 2 ^ i) @ root H ?L # rest) =
          incl_loop H ((A + 1) * 2 ^ i') ((A + 1) * 2 ^ i') (root H ?R) (root H ?L # rest)"
        using i False less.prems by (intro less.hyps) auto
      then obtain i' where "incl_loop H ((A + 1) * 2 ^ i + (m - 2 ^ i)) ((A + 1) * 2 ^ i + (length ?R - 1)) (?R ! (m - 2 ^ i))
          (build_path H ?R (m - 2 ^ i) @ root H ?L # rest) =
          incl_loop H ((A + 1) * 2 ^ i') ((A + 1) * 2 ^ i') (root H ?R) (root H ?L # rest)" ..
      also have "\<dots> = incl_loop H (a * 2 ^ d) (a * 2 ^ d) (root H ls) rest"
        using incl_loop_last_step [of "A + 1" H i'] A by (simp add: rt)
      finally have "incl_loop H ((A + 1) * 2 ^ i + (m - 2 ^ i)) ((A + 1) * 2 ^ i + (length ?R - 1)) (?R ! (m - 2 ^ i))
          (build_path H ?R (m - 2 ^ i) @ root H ?L # rest) = \<dots>" .
      moreover have bp: "build_path H ls m = build_path H ?R (m - 2 ^ i) @ [root H ?L]"
        using build_path_simps(3) [OF n] i False by simp
      have e: "a * 2 ^ j + m = (A + 1) * 2 ^ i + (m - 2 ^ i)" and x: "ls ! m = ?R ! (m - 2 ^ i)"
        and l: "length ls - 1 - 2 ^ i = length ?R - 1"
        using False less.prems by (auto simp: A(1))
      have "incl_loop H (a * 2 ^ j + m) (a * 2 ^ j + (length ls - 1)) (ls ! m) (build_path H ls m @ rest) =
          incl_loop H ((A + 1) * 2 ^ i + (m - 2 ^ i)) ((A + 1) * 2 ^ i + (length ?R - 1)) (?R ! (m - 2 ^ i))
            (build_path H ?R (m - 2 ^ i) @ root H ?L # rest)"
        unfolding s e x l bp by simp
      ultimately show ?thesis by (intro exI [of _ d]) (simp only:)
    qed
  qed
qed

lemma audit_path_verifies:
  assumes "inclusion_path H leaves m = Some path"
  shows "verify_inclusion H (leaves ! m) m (length leaves) path (root H leaves)"
proof -
  have m: "m < length leaves" "path = build_path H leaves m"
    using assms by (auto simp: inclusion_path_def split: if_splits)
  have "length leaves \<le> 2 ^ length leaves" by (simp add: less_imp_le)
  then obtain i where "incl_loop H (0 * 2 ^ length leaves + m) (0 * 2 ^ length leaves + (length leaves - 1))
      (leaves ! m) (build_path H leaves m @ []) = incl_loop H (0 * 2 ^ i) (0 * 2 ^ i) (root H leaves) []"
    using incl_loop_last [of leaves m "length leaves" H 0 "[]"] m by fastforce
  then show ?thesis using m by (simp add: verify_inclusion_def)
qed

text \<open>
  Audit paths are complete: for every leaf of every tree, the path the builder gives verifies
  against the tree's root, for any digest function.
\<close>

theorem inclusion_path_verifies:
  assumes "inclusion_path H leaves m = Some path"
  shows "verify_inclusion H (leaves ! m) m (length leaves) path (root H leaves)"
  using assms by (rule audit_path_verifies)

theorem inclusion_path_verifies_witness:
  "verify_inclusion id ''c'' 2 3 [node_hash id ''a'' ''b''] (root id [''a'', ''b'', ''c''])"
proof -
  have "inclusion_path id [''a'', ''b'', ''c''] 2 = Some [node_hash id ''a'' ''b'']"
    by code_simp
  from inclusion_path_verifies [OF this] show ?thesis by (simp add: numeral_3_eq_3)
qed

section \<open>Only the right leaf verifies\<close>

text \<open>The strings a run of the verifier hashes.\<close>

fun incl_inputs :: "(bytes \<Rightarrow> bytes) \<Rightarrow> nat \<Rightarrow> nat \<Rightarrow> bytes \<Rightarrow> bytes list \<Rightarrow> bytes set" where
  "incl_inputs H f s r [] = {}"
| "incl_inputs H f s r (p # ps) =
     (if s = 0 then {}
      else if odd f \<or> f = s then
        (let (f', s') = (if even f then shift_even f s else (f, s))
         in insert (CHR 0x01 # p @ r) (incl_inputs H (f' div 2) (s' div 2) (node_hash H p r) ps))
      else insert (CHR 0x01 # r @ p) (incl_inputs H (f div 2) (s div 2) (node_hash H r p) ps))"

lemma node_hash_inj:
  assumes "node_hash H a b = node_hash H c d" and "inj_on H I" and "CHR 0x01 # a @ b \<in> I" and "CHR 0x01 # c @ d \<in> I"
    and "length a = length c"
  shows "a = c \<and> b = d"
proof -
  have "CHR 0x01 # a @ b = CHR 0x01 # c @ d"
    using inj_onD [OF assms(2) _ assms(3,4)] assms(1) by (simp add: node_hash_def)
  with assms(5) show ?thesis by simp
qed

text \<open>
  Which way the verifier goes depends on the position only: two successful runs from the same
  position read paths of the same length, and without a collision they are the same run.
\<close>

lemma incl_loop_inj:
  assumes "incl_loop H f s r ps = Some (0, R)" and "incl_loop H f s r' ps' = Some (0, R)"
    and "\<And>b. length (H b) = 32" and "length r = 32" and "length r' = 32"
    and "\<forall>p \<in> set ps. length p = 32" and "\<forall>p \<in> set ps'. length p = 32"
    and "inj_on H (incl_inputs H f s r ps \<union> incl_inputs H f s r' ps')"
  shows "r = r' \<and> ps = ps'"
  using assms
proof (induction ps arbitrary: f s r r' ps')
  case Nil
  then have "s = 0" by simp
  with Nil have "ps' = []" by (cases ps') auto
  with Nil show ?case by simp
next
  case (Cons p ps)
  have s: "s \<noteq> 0" using Cons.prems(1) by (auto split: if_splits)
  then obtain p' qs where q: "ps' = p' # qs" using Cons.prems(2) by (cases ps') auto
  have l: "length (node_hash H a b) = 32" for a b using Cons.prems(3) by (simp add: node_hash_def)
  show ?case
  proof (cases "odd f \<or> f = s")
    case True
    obtain f' s' where fs: "(if even f then shift_even f s else (f, s)) = (f', s')" by fastforce
    have I: "inj_on H (insert (CHR 0x01 # p @ r) (incl_inputs H (f' div 2) (s' div 2) (node_hash H p r) ps) \<union>
        insert (CHR 0x01 # p' @ r') (incl_inputs H (f' div 2) (s' div 2) (node_hash H p' r') qs))"
      using Cons.prems(8) True s q fs by simp
    have "node_hash H p r = node_hash H p' r' \<and> ps = qs"
      using Cons.prems True s q fs l
      by (intro Cons.IH [of "f' div 2" "s' div 2"]) (auto intro: inj_on_subset [OF I])
    moreover from this have "p = p' \<and> r = r'"
      using Cons.prems q by (intro node_hash_inj [OF _ I]) auto
    ultimately show ?thesis using q by simp
  next
    case False
    have I: "inj_on H (insert (CHR 0x01 # r @ p) (incl_inputs H (f div 2) (s div 2) (node_hash H r p) ps) \<union>
        insert (CHR 0x01 # r' @ p') (incl_inputs H (f div 2) (s div 2) (node_hash H r' p') qs))"
      using Cons.prems(8) False s q by simp
    have "node_hash H r p = node_hash H r' p' \<and> ps = qs"
      using Cons.prems False s q l
      by (intro Cons.IH [of "f div 2" "s div 2"]) (auto intro: inj_on_subset [OF I])
    moreover from this have "r = r' \<and> p = p'"
      using Cons.prems q by (intro node_hash_inj [OF _ I]) auto
    ultimately show ?thesis using q by simp
  qed
qed

lemma root_length:
  assumes "\<And>b. length (H b) = 32" and "\<forall>l \<in> set ls. length l = 32"
  shows "length (root H ls) = 32"
  using assms by (subst root.simps) (auto simp: node_hash_def Let_def intro: nth_mem)

lemma build_path_length:
  assumes "\<And>b. length (H b) = 32" and "\<forall>l \<in> set ls. length l = 32"
  shows "\<forall>p \<in> set (build_path H ls m). length p = 32"
  using assms(2)
proof (induction "length ls" arbitrary: ls m rule: less_induct)
  case less
  show ?case
  proof (cases "length ls \<le> 1")
    case True
    then show ?thesis by (subst build_path.simps) simp
  next
    case False
    let ?k = "split (length ls)"
    have "0 < ?k \<and> ?k < length ls" using False split_bounds [of "length ls"] by simp
    moreover have "\<forall>l \<in> set (take ?k ls). length l = 32" "\<forall>l \<in> set (drop ?k ls). length l = 32"
      using less.prems by (auto dest: in_set_takeD in_set_dropD)
    ultimately show ?thesis
      using less.hyps [of "take ?k ls"] less.hyps [of "drop ?k ls"] root_length [OF assms(1)] False
      by (subst build_path.simps) (auto simp: Let_def)
  qed
qed

lemma audit_path_sound:
  assumes "verify_inclusion H leaf m (length leaves) path (root H leaves)"
    and "\<And>b. length (H b) = 32" and "\<forall>l \<in> set leaves. length l = 32" and "length leaf = 32"
    and "\<forall>p \<in> set path. length p = 32"
    and "inj_on H (incl_inputs H m (length leaves - 1) leaf path \<union>
           incl_inputs H m (length leaves - 1) (leaves ! m) (build_path H leaves m))"
  shows "leaf = leaves ! m \<and> path = build_path H leaves m"
proof -
  have m: "m < length leaves" and a: "incl_loop H m (length leaves - 1) leaf path = Some (0, root H leaves)"
    using assms(1) by (auto simp: verify_inclusion_def split: option.splits)
  from m have "inclusion_path H leaves m = Some (build_path H leaves m)" by (simp add: inclusion_path_def)
  from audit_path_verifies [OF this]
  have "incl_loop H m (length leaves - 1) (leaves ! m) (build_path H leaves m) = Some (0, root H leaves)"
    by (auto simp: verify_inclusion_def split: option.splits)
  from incl_loop_inj [OF a this assms(2,4) _ assms(5) build_path_length [OF assms(2,3)] assms(6)]
  show ?thesis using assms(3) m by simp
qed

text \<open>
  Audit paths are sound: if a leaf and a path verify at a position against the root of a tree,
  the leaf is the one the tree has at that position and the path is the tree's own, unless the two
  computations exhibit a collision of the digest.
\<close>

theorem inclusion_proof_sound:
  assumes "verify_inclusion H leaf m (length leaves) path (root H leaves)"
    and "\<And>b. length (H b) = 32" and "\<forall>l \<in> set leaves. length l = 32" and "length leaf = 32"
    and "\<forall>p \<in> set path. length p = 32"
    and "inj_on H (incl_inputs H m (length leaves - 1) leaf path \<union>
           incl_inputs H m (length leaves - 1) (leaves ! m) (build_path H leaves m))"
  shows "leaf = leaves ! m \<and> path = build_path H leaves m"
  using assms by (rule audit_path_sound)

definition pad_hash :: "bytes \<Rightarrow> bytes" where
  "pad_hash b = replicate 32 (CHR 0x00)"

theorem inclusion_proof_sound_witness:
  "(let a = replicate 32 (CHR ''a''); b = replicate 32 (CHR ''b'')
    in verify_inclusion pad_hash a 0 2 [b] (root pad_hash [a, b]) \<and> a = [a, b] ! 0 \<and> [b] = build_path pad_hash [a, b] 0)"
proof -
  define a b where ab: "a = replicate 32 (CHR ''a'')" "b = replicate 32 (CHR ''b'')"
  have p: "build_path pad_hash [a, b] 0 = [b]"
    using build_path_simps(2) [of "[a, b]" 0 pad_hash]
    by (simp add: split_def split_loop.simps root_simps build_path_simps)
  have v: "verify_inclusion pad_hash a 0 (length [a, b]) [b] (root pad_hash [a, b])"
    using audit_path_verifies [of pad_hash "[a, b]" 0] p by (simp add: inclusion_path_def)
  from inclusion_proof_sound [OF v] p v show ?thesis
    by (simp add: ab [symmetric]) (simp add: pad_hash_def ab numeral_2_eq_2)
qed

end
