(* ===== verification/Receipts.thy ===== *)
theory Receipts
  imports Serde_Example Merkle
begin

text \<open>
  \<open>writ-receipts\<close>: signed statements about a ledger.  A checkpoint (\<open>receipt.rs\<close>) names the tip and
  the Merkle root of the records covered; it is built from a ledger and checked against one later
  (\<open>ledger.rs\<close>); an inclusion proof shows that a call's records are covered (\<open>proof.rs\<close>); an anchor
  line in a log witnesses a receipt (\<open>file_anchor.rs\<close>).

  \<open>hex\<close>, \<open>base64\<close>, \<open>sha2\<close> and \<open>ed25519_dalek\<close> are parameters.  A key is its bytes; the functions on
  prehashed messages take the message that is fed to the hash.  Each error site is a constructor;
  its arguments are what the message shows.
\<close>

section \<open>Data\<close>

datatype link_problem = BadIndex nat nat | BadContents | BadPrev nat

datatype break_reason = CannotRead str | BadLink link_problem

datatype receipt_error =
    BadHex str str | HexDecode str str
  | ZeroRecords | RecordsNotTip nat nat | OneRecordTip | BadCreatedAt str | BadSigner str
  | EmptySessionId | BadSessionRecords nat nat
  | UnreadableRecord nat str | ChainBroken nat link_problem | EmptyLedger | NoSessionRecords str
  | CoveredUnreadable nat str | RecordAltered nat link_problem | WrongLedger str str
  | TipRewritten nat str str | Truncated nat nat | RootMismatch nat str str
  | SessionMismatch str nat nat str
  | NoSuchCall str nat | IndexOutside | NoEntries | EntryCall nat str str
  | EntryPosition nat nat nat nat | EntryEdited nat | EntryNotIncluded nat
  | UnsupportedAlg str | BadPublicKey str | NotPinned str str | SignerMismatch str str
  | BadBase64 str | BadSignatureLength | SignatureInvalid | SignFailed str | EncodeKey str
  | AnchorMissing str | AnchorParse str | AnchorMismatch | JsonError str | IoError str
  | NotAReceipt str | NotAProof str | UnsupportedFormat str

record receipt_deps =
  rledger :: ledger_deps
  hex_decode :: "str \<Rightarrow> str + bytes"
  sha512 :: "bytes \<Rightarrow> bytes"
  b64_encode :: "bytes \<Rightarrow> str"
  b64_decode :: "str \<Rightarrow> str + bytes"
  verifying_key :: "bytes \<Rightarrow> bytes"
  sign_prehashed :: "bytes \<Rightarrow> bytes \<Rightarrow> str + bytes"
  verify_prehashed_strict :: "bytes \<Rightarrow> bytes \<Rightarrow> bytes \<Rightarrow> bool"
  to_public_key_pem :: "bytes \<Rightarrow> str + str"
  from_public_key_pem :: "str \<Rightarrow> str + bytes"

abbreviation rhash :: "receipt_deps \<Rightarrow> bytes \<Rightarrow> bytes" where
  "rhash D \<equiv> sha256 (rledger D)"

abbreviation rhex :: "receipt_deps \<Rightarrow> bytes \<Rightarrow> str" where
  "rhex D \<equiv> hex_encode (rledger D)"

record session_scope =
  ss_id :: str
  ss_records :: nat
  ss_merkle_root :: str

record checkpoint =
  cp_ledger_id :: str
  cp_records :: nat
  cp_tip_index :: nat
  cp_tip_hash :: str
  cp_merkle_root :: str
  cp_session :: "session_scope option"
  cp_created_at :: str
  cp_signer :: str

record receipt_signature =
  sig_alg :: str
  sig_public_key :: str
  sig_value :: str

section \<open>Validation and canonical bytes\<close>

definition is_hex64 :: "str \<Rightarrow> bool" where
  "is_hex64 s \<longleftrightarrow> length s = 64 \<and>
     list_all (\<lambda>b. is_ascii_digit b \<or> (code (CHR ''a'') \<le> code b \<and> code b \<le> code (CHR ''f''))) s"

definition hex32 :: "receipt_deps \<Rightarrow> str \<Rightarrow> str \<Rightarrow> receipt_error + bytes" where
  "hex32 D s what = (if \<not> is_hex64 s then Inl (BadHex what s) else map_err (HexDecode what) (hex_decode D s))"

definition is_rfc3339_seconds :: "str \<Rightarrow> bool" where
  "is_rfc3339_seconds s \<longleftrightarrow> length s = 20 \<and>
     list_all (\<lambda>(i, c). if i = 4 \<or> i = 7 then c = CHR ''-'' else if i = 10 then c = CHR ''T''
       else if i = 13 \<or> i = 16 then c = CHR '':'' else if i = 19 then c = CHR ''Z'' else is_ascii_digit c)
       (enumerate 0 s)"

definition check_hex :: "str \<Rightarrow> str \<Rightarrow> receipt_error + unit" where
  "check_hex f v = (if is_hex64 v then Inr () else Inl (BadHex f v))"

definition validate_session :: "checkpoint \<Rightarrow> receipt_error + unit" where
  "validate_session cp =
     (case cp_session cp of None \<Rightarrow> Inr ()
      | Some s \<Rightarrow>
          if ss_id s = [] then Inl EmptySessionId
          else if ss_records s = 0 \<or> ss_records s > cp_records cp then Inl (BadSessionRecords (cp_records cp) (ss_records s))
          else check_hex ''session.merkle_root'' (ss_merkle_root s))"

definition validate :: "checkpoint \<Rightarrow> receipt_error + unit" where
  "validate cp =
     rbind (check_hex ''ledger_id'' (cp_ledger_id cp)) (\<lambda>_.
     rbind (check_hex ''tip_hash'' (cp_tip_hash cp)) (\<lambda>_.
     rbind (check_hex ''merkle_root'' (cp_merkle_root cp)) (\<lambda>_.
     if cp_records cp = 0 then Inl ZeroRecords
     else if \<not> (cp_tip_index cp + 1 \<le> u64_max \<and> cp_tip_index cp + 1 = cp_records cp)
       then Inl (RecordsNotTip (cp_records cp) (cp_tip_index cp))
     else if cp_tip_index cp = 0 \<and> cp_tip_hash cp \<noteq> cp_ledger_id cp then Inl OneRecordTip
     else if \<not> is_rfc3339_seconds (cp_created_at cp) then Inl (BadCreatedAt (cp_created_at cp))
     else if \<not> (case strip_prefix (cp_signer cp) ''ed25519:'' of Some h \<Rightarrow> is_hex64 h | None \<Rightarrow> False)
       then Inl (BadSigner (cp_signer cp))
     else validate_session cp)))"

definition CHECKPOINT_CONTEXT :: str where
  "CHECKPOINT_CONTEXT = ''writ.receipt.checkpoint.v1''"

definition session_text :: "receipt_deps \<Rightarrow> session_scope option \<Rightarrow> str" where
  "session_text D s =
     (case s of None \<Rightarrow> ''-''
      | Some s \<Rightarrow> rhex D (ss_id s) @ '' '' @ show_nat (ss_records s) @ '' '' @ ss_merkle_root s)"

definition canonical_bytes :: "receipt_deps \<Rightarrow> checkpoint \<Rightarrow> receipt_error + bytes" where
  "canonical_bytes D cp =
     rbind (validate cp) (\<lambda>_.
       Inr (CHECKPOINT_CONTEXT @ [nl] @ ''ledger_id '' @ cp_ledger_id cp @ [nl] @
            ''records '' @ show_nat (cp_records cp) @ [nl] @ ''tip_index '' @ show_nat (cp_tip_index cp) @ [nl] @
            ''tip_hash '' @ cp_tip_hash cp @ [nl] @ ''merkle_root '' @ cp_merkle_root cp @ [nl] @
            ''session '' @ session_text D (cp_session cp) @ [nl] @ ''created_at '' @ cp_created_at cp @ [nl] @
            ''signer '' @ cp_signer cp @ [nl]))"

section \<open>Building a checkpoint\<close>

text \<open>A \<open>RecordItem\<close> is a record or the reason why it could not be read.\<close>

type_synonym record_item = "str + ledger_record"

definition link_problem :: "receipt_deps \<Rightarrow> ledger_record \<Rightarrow> nat \<Rightarrow> str \<Rightarrow> link_problem option" where
  "link_problem D r ix prev =
     (if index r \<noteq> ix then Some (BadIndex (index r) ix)
      else if \<not> (case compute_hash (rledger D) r of Inr h \<Rightarrow> h = record_hash r | Inl _ \<Rightarrow> False) then Some BadContents
      else if prev_hash r \<noteq> prev then Some (BadPrev ix)
      else None)"

definition leaf_of :: "receipt_deps \<Rightarrow> ledger_record \<Rightarrow> receipt_error + bytes" where
  "leaf_of D r = rbind (hex32 D (record_hash r) ''record_hash'') (\<lambda>b. Inr (leaf_hash (rhash D) b))"

text \<open>The loop of \<open>build_checkpoint\<close>: position, \<open>prev\<close>, \<open>leaves\<close>, \<open>session_leaves\<close>, \<open>ledger_id\<close>.\<close>

fun build_loop ::
  "receipt_deps \<Rightarrow> str option \<Rightarrow> nat \<Rightarrow> str \<Rightarrow> bytes list \<Rightarrow> bytes list \<Rightarrow> str option \<Rightarrow> record_item list \<Rightarrow>
   receipt_error + str \<times> bytes list \<times> bytes list \<times> str option" where
  "build_loop D session i prev leaves sleaves lid [] = Inr (prev, leaves, sleaves, lid)"
| "build_loop D session i prev leaves sleaves lid (item # items) =
     (case item of
        Inl e \<Rightarrow> Inl (UnreadableRecord i e)
      | Inr r \<Rightarrow>
          (case link_problem D r i prev of
             Some why \<Rightarrow> Inl (ChainBroken i why)
           | None \<Rightarrow>
               rbind (leaf_of D r) (\<lambda>leaf.
                 build_loop D session (i + 1) (record_hash r) (leaves @ [leaf])
                   (if session = Some (session_id r) then sleaves @ [leaf] else sleaves)
                   (if i = 0 then Some (record_hash r) else lid) items)))"

definition build_checkpoint ::
  "receipt_deps \<Rightarrow> timestamp \<Rightarrow> record_item list \<Rightarrow> str option \<Rightarrow> receipt_error + checkpoint" where
  "build_checkpoint D now items session =
     rbind (build_loop D session 0 GENESIS_HASH [] [] None items) (\<lambda>(prev, leaves, sleaves, lid).
       case lid of
         None \<Rightarrow> Inl EmptyLedger
       | Some ledger_id \<Rightarrow>
           rbind (case session of
                    None \<Rightarrow> Inr None
                  | Some sid \<Rightarrow> if sleaves = [] then Inl (NoSessionRecords sid)
                      else Inr (Some \<lparr>ss_id = sid, ss_records = length sleaves,
                                      ss_merkle_root = rhex D (root (rhash D) sleaves)\<rparr>)) (\<lambda>scope.
             Inr \<lparr>cp_ledger_id = ledger_id, cp_records = length leaves, cp_tip_index = length leaves - 1,
                  cp_tip_hash = prev, cp_merkle_root = rhex D (root (rhash D) leaves), cp_session = scope,
                  cp_created_at = to_rfc3339 now, cp_signer = []\<rparr>))"

section \<open>Checking a checkpoint\<close>

record checkpoint_status =
  st_appended_after :: nat
  st_broken_after :: "(nat \<times> break_reason) option"
  st_leaves :: "bytes list"

text \<open>
  The loop of \<open>check_checkpoint\<close>: position, \<open>prev\<close>, \<open>leaves\<close>, \<open>session_leaves\<close>, \<open>appended_after\<close>,
  \<open>seen\<close>; the result adds \<open>broken_after\<close>.
\<close>

fun check_loop ::
  "receipt_deps \<Rightarrow> checkpoint \<Rightarrow> nat \<Rightarrow> str \<Rightarrow> bytes list \<Rightarrow> bytes list \<Rightarrow> nat \<Rightarrow> nat \<Rightarrow> record_item list \<Rightarrow>
   receipt_error + bytes list \<times> bytes list \<times> nat \<times> (nat \<times> break_reason) option \<times> nat" where
  "check_loop D cp i prev leaves sl app seen [] = Inr (leaves, sl, app, None, seen)"
| "check_loop D cp i prev leaves sl app seen (item # items) =
     (case item of
        Inl e \<Rightarrow> if i \<le> cp_tip_index cp then Inl (CoveredUnreadable i e)
                 else Inr (leaves, sl, app, Some (i, CannotRead e), i + 1)
      | Inr r \<Rightarrow>
          (case link_problem D r i prev of
             Some why \<Rightarrow> if i \<le> cp_tip_index cp then Inl (RecordAltered i why)
                         else Inr (leaves, sl, app, Some (i, BadLink why), i + 1)
           | None \<Rightarrow>
               if i \<le> cp_tip_index cp then
                 (if i = 0 \<and> record_hash r \<noteq> cp_ledger_id cp then Inl (WrongLedger (record_hash r) (cp_ledger_id cp))
                  else rbind (leaf_of D r) (\<lambda>leaf.
                    if i = cp_tip_index cp \<and> record_hash r \<noteq> cp_tip_hash cp
                    then Inl (TipRewritten i (record_hash r) (cp_tip_hash cp))
                    else check_loop D cp (i + 1) (record_hash r) (leaves @ [leaf])
                      (case cp_session cp of Some s \<Rightarrow> if session_id r = ss_id s then sl @ [leaf] else sl | None \<Rightarrow> sl)
                      app (i + 1) items))
               else check_loop D cp (i + 1) (record_hash r) leaves sl (app + 1) (i + 1) items))"

definition check_session :: "receipt_deps \<Rightarrow> checkpoint \<Rightarrow> bytes list \<Rightarrow> receipt_error + unit" where
  "check_session D cp sl =
     (case cp_session cp of None \<Rightarrow> Inr ()
      | Some s \<Rightarrow>
          if length sl \<noteq> ss_records s \<or> rhex D (root (rhash D) sl) \<noteq> ss_merkle_root s
          then Inl (SessionMismatch (ss_id s) (length sl) (ss_records s) (rhex D (root (rhash D) sl)))
          else Inr ())"

definition check_checkpoint ::
  "receipt_deps \<Rightarrow> checkpoint \<Rightarrow> record_item list \<Rightarrow> receipt_error + checkpoint_status" where
  "check_checkpoint D cp items =
     rbind (validate cp) (\<lambda>_.
     rbind (check_loop D cp 0 GENESIS_HASH [] [] 0 0 items) (\<lambda>(leaves, sl, app, broken, seen).
       if seen < cp_records cp then Inl (Truncated seen (cp_records cp))
       else if rhex D (root (rhash D) leaves) \<noteq> cp_merkle_root cp
         then Inl (RootMismatch (cp_tip_index cp) (rhex D (root (rhash D) leaves)) (cp_merkle_root cp))
       else rbind (check_session D cp sl) (\<lambda>_.
         Inr \<lparr>st_appended_after = app, st_broken_after = broken, st_leaves = leaves\<rparr>)))"

section \<open>Receipts, proofs and anchors\<close>

record rekor_inclusion_proof =
  rp_log_index :: nat
  rp_root_hash :: str
  rp_tree_size :: nat
  rp_hashes :: "str list"
  rp_checkpoint :: str

record rekor_anchor =
  ra_url :: str
  ra_uuid :: str
  ra_log_id :: str
  ra_log_index :: nat
  ra_integrated_time :: int
  ra_body :: str
  ra_signed_entry_timestamp :: str
  ra_inclusion_proof :: "rekor_inclusion_proof option"

record file_anchor =
  fa_path :: str
  fa_line_sha256 :: str
  fa_anchored_at :: str

datatype anchor = RekorAnchor rekor_anchor | FileAnchor file_anchor

record receipt =
  rc_format :: str
  rc_checkpoint :: checkpoint
  rc_signature :: receipt_signature
  rc_anchors :: "anchor list"

record proof_entry =
  pe_record :: ledger_record
  pe_leaf_index :: nat
  pe_tree_size :: nat
  pe_audit_path :: "str list"

record inclusion_proof =
  ip_format :: str
  ip_call_id :: str
  ip_receipt :: receipt
  ip_entries :: "proof_entry list"

definition RECEIPT_FORMAT :: str where
  "RECEIPT_FORMAT = ''writ.receipt/v1''"

definition PROOF_FORMAT :: str where
  "PROOF_FORMAT = ''writ.inclusion-proof/v1''"

definition SIGNATURE_ALG :: str where
  "SIGNATURE_ALG = ''ed25519ph''"

definition key_id :: "receipt_deps \<Rightarrow> bytes \<Rightarrow> str" where
  "key_id D vk = ''ed25519:'' @ rhex D (rhash D vk)"

definition public_pem :: "receipt_deps \<Rightarrow> bytes \<Rightarrow> receipt_error + str" where
  "public_pem D vk = map_err EncodeKey (to_public_key_pem D vk)"

definition parse_public_pem :: "receipt_deps \<Rightarrow> str \<Rightarrow> receipt_error + bytes" where
  "parse_public_pem D pem = map_err BadPublicKey (from_public_key_pem D (trim pem))"

definition sign :: "receipt_deps \<Rightarrow> checkpoint \<Rightarrow> bytes \<Rightarrow> receipt_error + receipt" where
  "sign D cp key =
     (let vk = verifying_key D key; cp = cp\<lparr>cp_signer := key_id D vk\<rparr>
      in rbind (canonical_bytes D cp) (\<lambda>bytes.
         rbind (map_err SignFailed (sign_prehashed D key bytes)) (\<lambda>sig.
         rbind (public_pem D vk) (\<lambda>pem.
           Inr \<lparr>rc_format = RECEIPT_FORMAT, rc_checkpoint = cp,
                rc_signature = \<lparr>sig_alg = SIGNATURE_ALG, sig_public_key = pem, sig_value = b64_encode D sig\<rparr>,
                rc_anchors = []\<rparr>))))"

text \<open>\<open>from_json\<close>: what \<open>serde_json\<close> made of the text, and the format check.\<close>

definition receipt_from_json :: "(str \<Rightarrow> str + receipt) \<Rightarrow> str \<Rightarrow> receipt_error + receipt" where
  "receipt_from_json parse tx =
     rbind (map_err NotAReceipt (parse tx)) (\<lambda>r.
       if rc_format r \<noteq> RECEIPT_FORMAT then Inl (UnsupportedFormat (rc_format r)) else Inr r)"

definition proof_from_json :: "(str \<Rightarrow> str + inclusion_proof) \<Rightarrow> str \<Rightarrow> receipt_error + inclusion_proof" where
  "proof_from_json parse tx =
     rbind (map_err NotAProof (parse tx)) (\<lambda>p.
       if ip_format p \<noteq> PROOF_FORMAT then Inl (UnsupportedFormat (ip_format p)) else Inr p)"

definition signature_bytes :: "receipt_deps \<Rightarrow> receipt \<Rightarrow> receipt_error + bytes" where
  "signature_bytes D rc =
     rbind (map_err BadBase64 (b64_decode D (trim (sig_value (rc_signature rc))))) (\<lambda>raw.
       if length raw = 64 then Inr raw else Inl BadSignatureLength)"

definition verify_signature :: "receipt_deps \<Rightarrow> receipt \<Rightarrow> bytes option \<Rightarrow> receipt_error + bytes" where
  "verify_signature D rc pinned =
     (if sig_alg (rc_signature rc) \<noteq> SIGNATURE_ALG then Inl (UnsupportedAlg (sig_alg (rc_signature rc)))
      else rbind (parse_public_pem D (sig_public_key (rc_signature rc))) (\<lambda>embedded.
        rbind (case pinned of
                 Some p \<Rightarrow> if p \<noteq> embedded then Inl (NotPinned (key_id D embedded) (key_id D p)) else Inr p
               | None \<Rightarrow> Inr embedded) (\<lambda>key.
        if cp_signer (rc_checkpoint rc) \<noteq> key_id D key
        then Inl (SignerMismatch (cp_signer (rc_checkpoint rc)) (key_id D key))
        else rbind (canonical_bytes D (rc_checkpoint rc)) (\<lambda>bytes.
          rbind (signature_bytes D rc) (\<lambda>sig.
            if verify_prehashed_strict D key bytes sig then Inr key else Inl SignatureInvalid)))))"

text \<open>The records \<open>prove\<close> collects while \<open>check_checkpoint\<close> reads the stream.\<close>

definition matching_records :: "nat \<Rightarrow> str \<Rightarrow> record_item list \<Rightarrow> ledger_record list" where
  "matching_records tip cid items =
     List.map_filter (\<lambda>(i, item). case item of Inr r \<Rightarrow> if i \<le> tip \<and> call_id r = cid then Some r else None | Inl _ \<Rightarrow> None)
       (enumerate 0 items)"

definition prove_entry :: "receipt_deps \<Rightarrow> checkpoint \<Rightarrow> bytes list \<Rightarrow> ledger_record \<Rightarrow> receipt_error + proof_entry" where
  "prove_entry D cp leaves r =
     rbind (ok_or (inclusion_path (rhash D) leaves (index r)) IndexOutside) (\<lambda>path.
       Inr \<lparr>pe_record = r, pe_leaf_index = index r, pe_tree_size = cp_records cp,
            pe_audit_path = map (rhex D) path\<rparr>)"

definition prove :: "receipt_deps \<Rightarrow> receipt \<Rightarrow> record_item list \<Rightarrow> str \<Rightarrow> receipt_error + inclusion_proof" where
  "prove D rc items cid =
     (let cp = rc_checkpoint rc; matched = matching_records (cp_tip_index cp) cid items
      in rbind (check_checkpoint D cp items) (\<lambda>status.
         if matched = [] then Inl (NoSuchCall cid (cp_records cp))
         else rbind (collect_results (prove_entry D cp (st_leaves status)) matched) (\<lambda>entries.
           Inr \<lparr>ip_format = PROOF_FORMAT, ip_call_id = cid, ip_receipt = rc, ip_entries = entries\<rparr>)))"

definition verify_entry :: "receipt_deps \<Rightarrow> checkpoint \<Rightarrow> str \<Rightarrow> bytes \<Rightarrow> proof_entry \<Rightarrow> receipt_error + unit" where
  "verify_entry D cp cid rt e =
     (let r = pe_record e
      in if call_id r \<noteq> cid then Inl (EntryCall (pe_leaf_index e) (call_id r) cid)
         else if index r \<noteq> pe_leaf_index e \<or> pe_tree_size e \<noteq> cp_records cp
         then Inl (EntryPosition (pe_leaf_index e) (pe_tree_size e) (index r) (cp_records cp))
         else if \<not> (case compute_hash (rledger D) r of Inr h \<Rightarrow> h = record_hash r | Inl _ \<Rightarrow> False)
         then Inl (EntryEdited (pe_leaf_index e))
         else rbind (hex32 D (record_hash r) ''record_hash'') (\<lambda>b.
           rbind (collect_results (\<lambda>h. hex32 D h ''audit_path entry'') (pe_audit_path e)) (\<lambda>path.
             if verify_inclusion (rhash D) (leaf_hash (rhash D) b) (pe_leaf_index e) (pe_tree_size e) path rt
             then Inr () else Inl (EntryNotIncluded (pe_leaf_index e)))))"

definition verify_entries :: "receipt_deps \<Rightarrow> inclusion_proof \<Rightarrow> receipt_error + unit" where
  "verify_entries D ip =
     (let cp = rc_checkpoint (ip_receipt ip)
      in rbind (hex32 D (cp_merkle_root cp) ''checkpoint.merkle_root'') (\<lambda>rt.
         if ip_entries ip = [] then Inl NoEntries
         else rbind (collect_results (verify_entry D cp (ip_call_id ip) rt) (ip_entries ip)) (\<lambda>_. Inr ())))"

section \<open>Laws of the encodings\<close>

text \<open>
  The behaviour of SHA-256 and \<open>hex\<close> that receipts rely on: digests have 32 bytes, encoding is
  lowercase hexadecimal, two characters per byte, and decoding inverts it in both directions.
\<close>

definition is_hex_char :: "char \<Rightarrow> bool" where
  "is_hex_char b \<longleftrightarrow> is_ascii_digit b \<or> (code (CHR ''a'') \<le> code b \<and> code b \<le> code (CHR ''f''))"

definition hex_laws :: "receipt_deps \<Rightarrow> bool" where
  "hex_laws D \<longleftrightarrow>
     (\<forall>b. length (rhash D b) = 32) \<and>
     (\<forall>b. length (rhex D b) = 2 * length b \<and> list_all is_hex_char (rhex D b)) \<and>
     (\<forall>b. hex_decode D (rhex D b) = Inr b) \<and>
     (\<forall>s. is_hex64 s \<longrightarrow> (\<exists>b. hex_decode D s = Inr b \<and> rhex D b = s))"

lemma is_hex64_iff: "is_hex64 s \<longleftrightarrow> length s = 64 \<and> list_all is_hex_char s"
  by (simp add: is_hex64_def is_hex_char_def [abs_def])

lemma hex_lawsD:
  assumes "hex_laws D"
  shows "length (rhash D b) = 32" "length (rhex D b) = 2 * length b" "list_all is_hex_char (rhex D b)"
    "hex_decode D (rhex D b) = Inr b" "length b = 32 \<Longrightarrow> hex32 D (rhex D b) w = Inr b"
    "length b = 32 \<Longrightarrow> is_hex64 (rhex D b)"
    "is_hex64 s \<Longrightarrow> \<exists>b. hex_decode D s = Inr b \<and> rhex D b = s"
  using assms by (simp_all add: hex_laws_def hex32_def is_hex64_iff)

lemma link_problem_extends:
  "link_problem D r (length pre) (tip_hash pre) = None \<longleftrightarrow> extends (rledger D) pre r"
  by (auto simp: link_problem_def extends_def split: sum.splits)

text \<open>The leaf of a record in a valid chain.\<close>

definition leaf :: "receipt_deps \<Rightarrow> ledger_record \<Rightarrow> bytes" where
  "leaf D r = leaf_hash (rhash D) (case hex_decode D (record_hash r) of Inr b \<Rightarrow> b | Inl _ \<Rightarrow> [])"

lemma extends_hash:
  assumes "extends (rledger D) pre r"
  obtains b where "record_hash r = rhex D (rhash D b)"
  using assms by (auto simp: extends_def compute_hash_eq_Inr hash_bytes_def)

lemma extends_leaf:
  assumes "hex_laws D" and "extends (rledger D) pre r"
  shows "leaf_of D r = Inr (leaf D r)" and "is_hex64 (record_hash r)"
proof -
  obtain b where b: "record_hash r = rhex D (rhash D b)" using assms(2) by (rule extends_hash)
  then show "leaf_of D r = Inr (leaf D r)" "is_hex64 (record_hash r)"
    using hex_lawsD [OF assms(1)] by (simp_all add: leaf_of_def leaf_def)
qed

end
