(* ===== verification/Receipt_Checks.thy ===== *)
theory Receipt_Checks
  imports Receipts
begin

text \<open>
  What receipts guarantee: the signed bytes determine the checkpoint; a checkpoint is built only
  from a valid chain, still holds after more records are appended, and holds of no ledger that
  differs in a covered record; proofs that are built verify, and a proof that verifies is about a
  covered record.
\<close>

section \<open>The signed bytes determine the checkpoint\<close>

lemma concat_lines_split:
  assumes "\<forall>l \<in> set ls. nl \<notin> set l"
  shows "split_on (\<lambda>c. c = nl) (concat (map (\<lambda>l. l @ [nl]) ls)) = ls @ [[]]"
  using assms
proof (induction ls)
  case (Cons l ls)
  have "split_on (\<lambda>c. c = nl) (l @ nl # concat (map (\<lambda>l. l @ [nl]) ls)) =
      l # split_on (\<lambda>c. c = nl) (concat (map (\<lambda>l. l @ [nl]) ls))"
    using Cons.prems by (intro split_on_append_sep) auto
  with Cons show ?case by simp
qed simp

lemma lines_inject:
  assumes "\<forall>l \<in> set ls. nl \<notin> set l" and "\<forall>l \<in> set ls'. nl \<notin> set l"
    and "concat (map (\<lambda>l. l @ [nl]) ls) = concat (map (\<lambda>l. l @ [nl]) ls')"
  shows "ls = ls'"
proof -
  have "ls @ [[]] = ls' @ [[]]"
    unfolding concat_lines_split [OF assms(1), symmetric] concat_lines_split [OF assms(2), symmetric] assms(3) ..
  then show ?thesis by simp
qed

lemma hex_char_plain: "is_hex_char c \<Longrightarrow> c \<noteq> nl \<and> c \<noteq> CHR '' ''"
  by (auto simp: is_hex_char_def is_ascii_digit_def code_def)

lemma digit_plain: "is_ascii_digit c \<Longrightarrow> c \<noteq> nl \<and> c \<noteq> CHR '' ''"
  by (auto simp: is_ascii_digit_def code_def)

lemma hex64_plain: "is_hex64 s \<Longrightarrow> nl \<notin> set s \<and> CHR '' '' \<notin> set s"
  using hex_char_plain by (auto simp: is_hex64_iff list_all_iff)

lemma show_nat_plain: "nl \<notin> set (show_nat n) \<and> CHR '' '' \<notin> set (show_nat n)"
  using digit_plain show_nat_chars by blast

lemma rhex_plain: "hex_laws D \<Longrightarrow> nl \<notin> set (rhex D b) \<and> CHR '' '' \<notin> set (rhex D b)"
  using hex_char_plain hex_lawsD(3) by (auto simp: list_all_iff)

lemma rfc3339_plain: "is_rfc3339_seconds s \<Longrightarrow> nl \<notin> set s"
proof
  assume r: "is_rfc3339_seconds s" "nl \<in> set s"
  then obtain i where i: "i < length s" "s ! i = nl" by (auto simp: in_set_conv_nth)
  then have "(i, nl) \<in> set (enumerate 0 s)" by (auto simp: in_set_enumerate_eq)
  with r(1) show False using digit_plain by (auto simp: is_rfc3339_seconds_def list_all_iff split: if_splits)
qed

lemma validateD:
  assumes "validate cp = Inr ()"
  shows "is_hex64 (cp_ledger_id cp)" "is_hex64 (cp_tip_hash cp)" "is_hex64 (cp_merkle_root cp)"
    "cp_records cp = cp_tip_index cp + 1" "is_rfc3339_seconds (cp_created_at cp)"
    "\<exists>h. cp_signer cp = ''ed25519:'' @ h \<and> is_hex64 h"
    "cp_session cp = Some s \<Longrightarrow> ss_id s \<noteq> [] \<and> is_hex64 (ss_merkle_root s)"
proof -
  have v: "is_hex64 (cp_ledger_id cp) \<and> is_hex64 (cp_tip_hash cp) \<and> is_hex64 (cp_merkle_root cp) \<and>
      cp_records cp = cp_tip_index cp + 1 \<and> is_rfc3339_seconds (cp_created_at cp) \<and>
      (\<exists>h. strip_prefix (cp_signer cp) ''ed25519:'' = Some h \<and> is_hex64 h) \<and> validate_session cp = Inr ()"
    using assms by (auto simp: validate_def check_hex_def result_simps split: if_splits option.splits)
  then show "is_hex64 (cp_ledger_id cp)" "is_hex64 (cp_tip_hash cp)" "is_hex64 (cp_merkle_root cp)"
    "cp_records cp = cp_tip_index cp + 1" "is_rfc3339_seconds (cp_created_at cp)"
    "\<exists>h. cp_signer cp = ''ed25519:'' @ h \<and> is_hex64 h"
    by (auto simp: strip_prefix_eq_Some)
  show "cp_session cp = Some s \<Longrightarrow> ss_id s \<noteq> [] \<and> is_hex64 (ss_merkle_root s)"
    using v by (auto simp: validate_session_def check_hex_def split: if_splits)
qed

definition cp_lines :: "receipt_deps \<Rightarrow> checkpoint \<Rightarrow> str list" where
  "cp_lines D cp =
     [CHECKPOINT_CONTEXT, ''ledger_id '' @ cp_ledger_id cp, ''records '' @ show_nat (cp_records cp),
      ''tip_index '' @ show_nat (cp_tip_index cp), ''tip_hash '' @ cp_tip_hash cp,
      ''merkle_root '' @ cp_merkle_root cp, ''session '' @ session_text D (cp_session cp),
      ''created_at '' @ cp_created_at cp, ''signer '' @ cp_signer cp]"

lemma canonical_bytes_lines:
  "canonical_bytes D cp = Inr b \<longleftrightarrow> validate cp = Inr () \<and> b = concat (map (\<lambda>l. l @ [nl]) (cp_lines D cp))"
  by (auto simp: canonical_bytes_def cp_lines_def result_simps)

lemma session_text_plain:
  assumes "hex_laws D" and "validate cp = Inr ()"
  shows "nl \<notin> set (session_text D (cp_session cp))"
  using validateD(7) [OF assms(2)] rhex_plain [OF assms(1)] show_nat_plain hex64_plain
  by (cases "cp_session cp") (auto simp: session_text_def)

lemma cp_lines_plain:
  assumes "hex_laws D" and "validate cp = Inr ()"
  shows "\<forall>l \<in> set (cp_lines D cp). nl \<notin> set l"
proof -
  note v = validateD [OF assms(2)]
  have "nl \<notin> set (cp_signer cp)" using v(6) hex64_plain by auto
  with v(1-5) show ?thesis
    using session_text_plain [OF assms] show_nat_plain hex64_plain rfc3339_plain
    by (auto simp: cp_lines_def CHECKPOINT_CONTEXT_def)
qed

lemma session_text_inject:
  assumes "hex_laws D" and "validate cp = Inr ()" and "validate cp' = Inr ()"
    and "session_text D (cp_session cp) = session_text D (cp_session cp')"
  shows "cp_session cp = cp_session cp'"
proof -
  have sp: "CHR '' '' \<in> set (session_text D (Some s))" "CHR '' '' \<notin> set (session_text D None)" for s
    by (simp_all add: session_text_def)
  have parts: "split_on (\<lambda>c. c = CHR '' '') (session_text D (Some s)) = [rhex D (ss_id s), show_nat (ss_records s), ss_merkle_root s]"
    if "is_hex64 (ss_merkle_root s)" for s
  proof -
    have "split_on (\<lambda>c. c = CHR '' '') (rhex D (ss_id s) @ CHR '' '' # show_nat (ss_records s) @ CHR '' '' # ss_merkle_root s) =
        rhex D (ss_id s) # split_on (\<lambda>c. c = CHR '' '') (show_nat (ss_records s) @ CHR '' '' # ss_merkle_root s)"
      using rhex_plain [OF assms(1)] by (intro split_on_append_sep) auto
    also have "split_on (\<lambda>c. c = CHR '' '') (show_nat (ss_records s) @ CHR '' '' # ss_merkle_root s) =
        show_nat (ss_records s) # split_on (\<lambda>c. c = CHR '' '') (ss_merkle_root s)"
      using show_nat_plain by (intro split_on_append_sep) auto
    also have "split_on (\<lambda>c. c = CHR '' '') (ss_merkle_root s) = [ss_merkle_root s]"
      using hex64_plain [OF that] by (intro split_on_no_match) auto
    finally show ?thesis by (simp add: session_text_def)
  qed
  have inj: "rhex D a = rhex D b \<Longrightarrow> a = b" for a b using hex_lawsD(4) [OF assms(1)] by (metis sum.inject(2))
  show ?thesis
  proof (cases "cp_session cp"; cases "cp_session cp'")
    fix s s'
    assume s: "cp_session cp = Some s" "cp_session cp' = Some s'"
    then have "is_hex64 (ss_merkle_root s)" "is_hex64 (ss_merkle_root s')"
      using validateD(7) [OF assms(2)] validateD(7) [OF assms(3)] by auto
    with parts s assms(4) have "[rhex D (ss_id s), show_nat (ss_records s), ss_merkle_root s] =
        [rhex D (ss_id s'), show_nat (ss_records s'), ss_merkle_root s']" by metis
    with inj s show ?thesis by simp
  qed (use sp assms(4) in \<open>metis\<close>)+
qed

lemma canonical_bytes_inject:
  assumes "hex_laws D" and "canonical_bytes D cp = Inr b" and "canonical_bytes D cp' = Inr b"
  shows "cp = cp'"
proof -
  have v: "validate cp = Inr ()" "validate cp' = Inr ()" using assms(2,3) by (simp_all add: canonical_bytes_lines)
  have "cp_lines D cp = cp_lines D cp'"
    using assms(2,3) by (intro lines_inject cp_lines_plain [OF assms(1)] v) (simp add: canonical_bytes_lines)
  then show ?thesis
    using session_text_inject [OF assms(1) v] by (cases cp; cases cp') (simp add: cp_lines_def)
qed

text \<open>
  A signature covers everything: two valid checkpoints with the same canonical bytes are the
  same checkpoint, session scope, time and signer included.
\<close>

theorem canonical_bytes_injective:
  assumes "hex_laws D" and "canonical_bytes D cp = Inr b" and "canonical_bytes D cp' = Inr b"
  shows "cp = cp'"
  using assms by (rule canonical_bytes_inject)

section \<open>A concrete instance of the parameters\<close>

text \<open>
  Hexadecimal digits, the first 32 bytes as digest, and a signature scheme that signs with the key itself
  padded to 64 bytes: enough to satisfy the laws on small inputs.
\<close>

definition hex_digit :: "nat \<Rightarrow> char" where
  "hex_digit n = (if n < 10 then digit n else char_of (87 + n))"

definition hex_val :: "char \<Rightarrow> nat" where
  "hex_val c = (if is_ascii_digit c then code c - 48 else code c - 87)"

fun plain_hex :: "bytes \<Rightarrow> str" where
  "plain_hex [] = []"
| "plain_hex (c # b) = hex_digit (code c div 16) # hex_digit (code c mod 16) # plain_hex b"

fun plain_unhex :: "str \<Rightarrow> bytes" where
  "plain_unhex (a # b # s) = char_of (16 * hex_val a + hex_val b) # plain_unhex s"
| "plain_unhex _ = []"

definition demo_deps :: receipt_deps where
  "demo_deps =
     \<lparr>rledger = num_deps\<lparr>sha256 := (\<lambda>b. take 32 (b @ replicate 32 (CHR 0x00))), hex_encode := plain_hex\<rparr>,
      hex_decode = (\<lambda>s. Inr (plain_unhex s)), sha512 = (\<lambda>b. b),
      b64_encode = plain_hex, b64_decode = (\<lambda>s. Inr (plain_unhex s)), verifying_key = (\<lambda>k. k),
      sign_prehashed = (\<lambda>k m. Inr (take 64 (k @ replicate 64 (CHR ''s'')))),
      verify_prehashed_strict = (\<lambda>k m s. s = take 64 (k @ replicate 64 (CHR ''s''))),
      to_public_key_pem = (\<lambda>k. Inr (plain_hex k)), from_public_key_pem = (\<lambda>s. Inr (plain_unhex s))\<rparr>"

lemma code_less: "code c < 256"
  by (simp add: code_def)

lemma hex_digit_props:
  assumes "n < 16"
  shows "is_hex_char (hex_digit n)" "hex_val (hex_digit n) = n"
proof -
  have c: "\<not> n < 10 \<Longrightarrow> code (char_of (87 + n)) = 87 + n" using assms by (simp add: code_def)
  have a: "code (CHR ''a'') = 97" "code (CHR ''f'') = 102" by (simp_all add: code_def)
  show "is_hex_char (hex_digit n)"
    using assms c by (cases "n < 10") (simp_all add: hex_digit_def is_hex_char_def a)
  show "hex_val (hex_digit n) = n"
    using assms c by (cases "n < 10") (simp_all add: hex_digit_def hex_val_def is_ascii_digit_def)
qed

lemma plain_hex_laws: "length (plain_hex b) = 2 * length b" "list_all is_hex_char (plain_hex b)" "plain_unhex (plain_hex b) = b"
proof -
  have "code c div 16 < 16" "16 * (code c div 16) + code c mod 16 = code c" "char_of (code c) = c" for c
    using code_less [of c] by (auto simp: less_mult_imp_div_less) (simp add: code_def)
  then show "length (plain_hex b) = 2 * length b" "list_all is_hex_char (plain_hex b)" "plain_unhex (plain_hex b) = b"
    by (induction b) (simp_all add: hex_digit_props)
qed

lemma hex_val_props:
  assumes "is_hex_char c"
  shows "hex_val c < 16" "hex_digit (hex_val c) = c"
proof -
  have a: "code (CHR ''a'') = 97" "code (CHR ''f'') = 102" by (simp_all add: code_def)
  have c: "char_of (code c) = c" by (simp add: code_def)
  show "hex_val c < 16" using assms by (auto simp: is_hex_char_def is_ascii_digit_def hex_val_def a)
  consider "48 \<le> code c" "code c \<le> 57" | "97 \<le> code c" "code c \<le> 102"
    using assms by (auto simp: is_hex_char_def is_ascii_digit_def a)
  then show "hex_digit (hex_val c) = c"
  proof cases
    case 1
    then have "code c - 48 < 10" by arith
    with 1 c show ?thesis by (simp add: hex_digit_def hex_val_def is_ascii_digit_def digit_def)
  next
    case 2
    then have "\<not> code c - 87 < 10" by arith
    with 2 c show ?thesis by (simp add: hex_digit_def hex_val_def is_ascii_digit_def)
  qed
qed

lemma plain_hex_unhex:
  "list_all is_hex_char s \<Longrightarrow> even (length s) \<Longrightarrow> plain_hex (plain_unhex s) = s"
proof (induction s rule: plain_unhex.induct)
  case (1 a b s)
  then have "code (char_of (16 * hex_val a + hex_val b)) = 16 * hex_val a + hex_val b"
    using hex_val_props(1) [of a] hex_val_props(1) [of b] by (simp add: code_def)
  with 1 hex_val_props [of a] hex_val_props [of b] show ?case by simp
qed auto

lemma hex_laws_demo: "hex_laws demo_deps"
proof -
  have "min n 32 + (32 - n) = (32::nat)" for n by (simp add: min_def)
  then show ?thesis by (simp add: hex_laws_def demo_deps_def plain_hex_laws plain_hex_unhex is_hex64_iff)
qed

definition demo_checkpoint :: checkpoint where
  "demo_checkpoint =
     \<lparr>cp_ledger_id = replicate 64 (CHR ''a''), cp_records = 1, cp_tip_index = 0, cp_tip_hash = replicate 64 (CHR ''a''),
      cp_merkle_root = replicate 64 (CHR ''b''), cp_session = None, cp_created_at = ''2026-01-02T03:04:05Z'',
      cp_signer = ''ed25519:'' @ replicate 64 (CHR ''c'')\<rparr>"

lemma demo_checkpoint_valid: "validate demo_checkpoint = Inr ()"
proof -
  have h: "is_hex64 (replicate 64 (CHR ''a''))" "is_hex64 (replicate 64 (CHR ''b''))" "is_hex64 (replicate 64 (CHR ''c''))"
    "is_rfc3339_seconds ''2026-01-02T03:04:05Z''" by code_simp+
  moreover have "strip_prefix (''ed25519:'' @ replicate 64 (CHR ''c'')) ''ed25519:'' = Some (replicate 64 (CHR ''c''))"
    by (rule strip_prefix_append)
  ultimately show ?thesis
    by (simp add: validate_def demo_checkpoint_def check_hex_def validate_session_def u64_max_def)
qed

theorem canonical_bytes_injective_witness:
  "\<exists>b. canonical_bytes demo_deps demo_checkpoint = Inr b \<and>
     (\<forall>cp. canonical_bytes demo_deps cp = Inr b \<longrightarrow> cp = demo_checkpoint)"
proof -
  obtain b where b: "canonical_bytes demo_deps demo_checkpoint = Inr b"
    using demo_checkpoint_valid by (simp add: canonical_bytes_def)
  with canonical_bytes_injective [OF hex_laws_demo] show ?thesis by blast
qed

section \<open>Checkpoints are built from valid chains\<close>

definition session_leaves :: "receipt_deps \<Rightarrow> str option \<Rightarrow> ledger_record list \<Rightarrow> bytes list" where
  "session_leaves D sid rs = map (leaf D) (filter (\<lambda>r. sid = Some (session_id r)) rs)"

definition first_hash :: "ledger_record list \<Rightarrow> str option" where
  "first_hash rs = (if rs = [] then None else Some (record_hash (hd rs)))"

lemma session_leaves_snoc:
  "session_leaves D sid (rs @ [r]) =
     (if sid = Some (session_id r) then session_leaves D sid rs @ [leaf D r] else session_leaves D sid rs)"
  by (simp add: session_leaves_def)

lemma first_hash_snoc: "first_hash (rs @ [r]) = (if length rs = 0 then Some (record_hash r) else first_hash rs)"
  by (simp add: first_hash_def)

lemma build_loop_spec:
  assumes "hex_laws D" and "chain_valid (rledger D) pre"
  shows "build_loop D sid (length pre) (tip_hash pre) (map (leaf D) pre) (session_leaves D sid pre) (first_hash pre) items = Inr res \<longleftrightarrow>
    (\<exists>rs. items = map Inr rs \<and> chain_valid (rledger D) (pre @ rs) \<and>
       res = (tip_hash (pre @ rs), map (leaf D) (pre @ rs), session_leaves D sid (pre @ rs), first_hash (pre @ rs)))"
  using assms(2)
proof (induction items arbitrary: pre)
  case Nil
  then show ?case by auto
next
  case (Cons item items)
  show ?case
  proof (cases item)
    case (Inl e)
    then show ?thesis by auto
  next
    case (Inr r)
    show ?thesis
    proof (cases "extends (rledger D) pre r")
      case True
      have v: "chain_valid (rledger D) (pre @ [r])" using Cons.prems True by simp
      have step: "build_loop D sid (length pre) (tip_hash pre) (map (leaf D) pre) (session_leaves D sid pre) (first_hash pre) (item # items) =
          build_loop D sid (length (pre @ [r])) (tip_hash (pre @ [r])) (map (leaf D) (pre @ [r]))
            (session_leaves D sid (pre @ [r])) (first_hash (pre @ [r])) items"
        using True link_problem_extends [of D r pre] extends_leaf(1) [OF assms(1) True] Inr
        by (simp add: session_leaves_snoc first_hash_snoc)
      have "item # items = map Inr rs \<longleftrightarrow> (\<exists>ts. rs = r # ts \<and> items = map Inr ts)" for rs
        by (auto simp: Inr Cons_eq_map_conv)
      then show ?thesis unfolding step Cons.IH [OF v] by fastforce
    next
      case False
      then obtain why where "link_problem D r (length pre) (tip_hash pre) = Some why"
        using link_problem_extends [of D r pre] by (cases "link_problem D r (length pre) (tip_hash pre)") auto
      moreover have "\<not> chain_valid (rledger D) (pre @ r # rs)" for rs
        using False chain_valid_append [of "rledger D" "pre @ [r]" rs] by auto
      ultimately show ?thesis using Inr by (auto simp: Cons_eq_map_conv)
    qed
  qed
qed

text \<open>What a checkpoint built from a ledger holds.\<close>

lemma build_checkpoint_spec:
  assumes "hex_laws D" and "build_checkpoint D now items sid = Inr cp"
  shows "\<exists>rs. items = map Inr rs \<and> rs \<noteq> [] \<and> chain_valid (rledger D) rs \<and>
    cp_ledger_id cp = record_hash (hd rs) \<and> cp_records cp = length rs \<and> cp_tip_index cp = length rs - 1 \<and>
    cp_tip_hash cp = tip_hash rs \<and> cp_merkle_root cp = rhex D (root (rhash D) (map (leaf D) rs)) \<and>
    cp_created_at cp = to_rfc3339 now \<and>
    cp_session cp = map_option (\<lambda>s. \<lparr>ss_id = s, ss_records = length (session_leaves D sid rs),
      ss_merkle_root = rhex D (root (rhash D) (session_leaves D sid rs))\<rparr>) sid \<and>
    (sid \<noteq> None \<longrightarrow> session_leaves D sid rs \<noteq> [])"
proof -
  obtain res where r: "build_loop D sid 0 GENESIS_HASH [] [] None items = Inr res"
    using assms(2) by (auto simp: build_checkpoint_def result_simps)
  have e: "session_leaves D sid [] = []" "first_hash [] = None" by (simp_all add: session_leaves_def first_hash_def)
  obtain rs where rs: "items = map Inr rs" "chain_valid (rledger D) rs"
      "res = (tip_hash rs, map (leaf D) rs, session_leaves D sid rs, first_hash rs)"
    using build_loop_spec [OF assms(1), of "[]" sid items res] r e by auto
  moreover have "rs \<noteq> []"
    using assms(2) r rs(3) by (auto simp: build_checkpoint_def first_hash_def)
  ultimately show ?thesis
    using assms(2) r
    by (cases sid) (auto simp: build_checkpoint_def first_hash_def split: if_splits)
qed

section \<open>Checking a checkpoint\<close>

definition cp_leaves :: "receipt_deps \<Rightarrow> checkpoint \<Rightarrow> ledger_record list \<Rightarrow> bytes list" where
  "cp_leaves D cp rs = session_leaves D (map_option ss_id (cp_session cp)) rs"

lemma cp_leaves_snoc:
  "cp_leaves D cp (rs @ [r]) =
     (case cp_session cp of Some s \<Rightarrow> if session_id r = ss_id s then cp_leaves D cp rs @ [leaf D r] else cp_leaves D cp rs
      | None \<Rightarrow> cp_leaves D cp rs)"
  by (auto simp: cp_leaves_def session_leaves_snoc split: option.splits)

lemma cp_leaves_Nil [simp]: "cp_leaves D cp [] = []"
  by (simp add: cp_leaves_def session_leaves_def)

text \<open>One covered record, and one record after the tip.\<close>

lemma check_loop_covered:
  assumes "hex_laws D" and "extends (rledger D) pre r" and "length pre \<le> cp_tip_index cp"
    and "pre = [] \<Longrightarrow> record_hash r = cp_ledger_id cp"
    and "length pre = cp_tip_index cp \<Longrightarrow> record_hash r = cp_tip_hash cp"
  shows "check_loop D cp (length pre) (tip_hash pre) (map (leaf D) pre) (cp_leaves D cp pre) app seen (Inr r # items) =
    check_loop D cp (length (pre @ [r])) (tip_hash (pre @ [r])) (map (leaf D) (pre @ [r])) (cp_leaves D cp (pre @ [r]))
      app (length (pre @ [r])) items"
  using assms link_problem_extends [of D r pre] extends_leaf(1) [OF assms(1,2)]
  by (auto simp: cp_leaves_snoc split: option.splits)

lemma check_loop_appended:
  assumes "extends (rledger D) pre r" and "cp_tip_index cp < length pre"
  shows "check_loop D cp (length pre) (tip_hash pre) lv sl app seen (Inr r # items) =
    check_loop D cp (length (pre @ [r])) (tip_hash (pre @ [r])) lv sl (app + 1) (length (pre @ [r])) items"
  using assms link_problem_extends [of D r pre] by simp

lemma check_loop_after_keeps:
  "cp_tip_index cp < i \<Longrightarrow> check_loop D cp i prev lv sl app seen items = Inr (lv', sl', app', br, seen') \<Longrightarrow> lv' = lv \<and> sl' = sl"
proof (induction items arbitrary: i prev app seen)
  case (Cons item items)
  then have "cp_tip_index cp < Suc i" by simp
  with Cons.IH [OF this] Cons.prems show ?case by (auto split: sum.splits option.splits)
qed simp

lemma check_loop_after_valid:
  assumes "cp_tip_index cp < length pre" and "chain_valid (rledger D) (pre @ ts)"
  shows "check_loop D cp (length pre) (tip_hash pre) lv sl app (length pre) (map Inr ts) =
    Inr (lv, sl, app + length ts, None, length (pre @ ts))"
  using assms
proof (induction ts arbitrary: pre app)
  case (Cons r ts)
  have v: "chain_valid (rledger D) ((pre @ [r]) @ ts)" using Cons.prems by simp
  then have "extends (rledger D) pre r" by (metis chain_valid_append chain_valid_snoc)
  from check_loop_appended [OF this Cons.prems(1)] Cons.IH [OF _ v] Cons.prems(1) show ?case by simp
qed simp

text \<open>A checkpoint fits the records it was built from.\<close>

definition fits :: "checkpoint \<Rightarrow> ledger_record list \<Rightarrow> bool" where
  "fits cp rs \<longleftrightarrow> rs \<noteq> [] \<and> length rs = cp_tip_index cp + 1 \<and> record_hash (hd rs) = cp_ledger_id cp \<and>
     tip_hash rs = cp_tip_hash cp"

lemma check_loop_fits:
  assumes "hex_laws D" and "fits cp (pre @ rs)" and "chain_valid (rledger D) (pre @ rs)"
  shows "check_loop D cp (length pre) (tip_hash pre) (map (leaf D) pre) (cp_leaves D cp pre) app (length pre) (map Inr rs @ items) =
    check_loop D cp (length (pre @ rs)) (tip_hash (pre @ rs)) (map (leaf D) (pre @ rs)) (cp_leaves D cp (pre @ rs))
      app (length (pre @ rs)) items"
  using assms(2,3)
proof (induction rs arbitrary: pre)
  case (Cons r rs)
  have v: "chain_valid (rledger D) ((pre @ [r]) @ rs)" "fits cp ((pre @ [r]) @ rs)" using Cons.prems by simp_all
  then have e: "extends (rledger D) pre r" by (metis chain_valid_append chain_valid_snoc)
  have l: "length pre \<le> cp_tip_index cp" "pre = [] \<Longrightarrow> record_hash r = cp_ledger_id cp"
    "length pre = cp_tip_index cp \<Longrightarrow> record_hash r = cp_tip_hash cp"
    using Cons.prems(1) by (auto simp: fits_def tip_hash_def)
  show ?case using check_loop_covered [OF assms(1) e l] Cons.IH [OF v(2,1)] by simp
qed simp

text \<open>Conversely, a run that gets to the end has read a chain that fits, or was cut short.\<close>

lemma check_loop_sound:
  assumes "hex_laws D" and "chain_valid (rledger D) pre" and "length pre \<le> cp_tip_index cp"
    and "pre \<noteq> [] \<Longrightarrow> record_hash (hd pre) = cp_ledger_id cp"
    and "check_loop D cp (length pre) (tip_hash pre) (map (leaf D) pre) (cp_leaves D cp pre) app (length pre) items =
      Inr (lv, sl, app', br, seen)"
  shows "(\<exists>rs rest. items = map Inr rs @ rest \<and> chain_valid (rledger D) (pre @ rs) \<and> fits cp (pre @ rs) \<and>
      lv = map (leaf D) (pre @ rs) \<and> sl = cp_leaves D cp (pre @ rs)) \<or> seen \<le> cp_tip_index cp"
  using assms(2-)
proof (induction items arbitrary: pre)
  case (Cons item items)
  show ?case
  proof (cases item)
    case (Inl e)
    with Cons.prems show ?thesis by simp
  next
    case (Inr r)
    have e: "extends (rledger D) pre r"
      using Cons.prems(2,4) link_problem_extends [of D r pre] Inr by (auto split: option.splits if_splits)
    have h: "pre = [] \<Longrightarrow> record_hash r = cp_ledger_id cp"
      "length pre = cp_tip_index cp \<Longrightarrow> record_hash r = cp_tip_hash cp"
      using Cons.prems(2,4) Inr link_problem_extends [of D r pre] e extends_leaf(1) [OF assms(1) e]
      by (auto split: if_splits)
    have c: "check_loop D cp (length (pre @ [r])) (tip_hash (pre @ [r])) (map (leaf D) (pre @ [r])) (cp_leaves D cp (pre @ [r]))
        app (length (pre @ [r])) items = Inr (lv, sl, app', br, seen)"
      using check_loop_covered [OF assms(1) e Cons.prems(2) h, of app "length pre" items] Cons.prems(4) Inr by simp
    have v: "chain_valid (rledger D) (pre @ [r])" using Cons.prems(1) e by simp
    have hd: "record_hash (hd (pre @ [r])) = cp_ledger_id cp" using Cons.prems(3) h(1) by (cases pre) auto
    show ?thesis
    proof (cases "length pre = cp_tip_index cp")
      case True
      with check_loop_after_keeps [OF _ c] v hd h(2)
      have "fits cp (pre @ [r])" "lv = map (leaf D) (pre @ [r])" "sl = cp_leaves D cp (pre @ [r])"
        by (auto simp: fits_def)
      with v Inr have "item # items = map Inr [r] @ items \<and> chain_valid (rledger D) (pre @ [r]) \<and> fits cp (pre @ [r]) \<and>
          lv = map (leaf D) (pre @ [r]) \<and> sl = cp_leaves D cp (pre @ [r])" by simp
      then show ?thesis by blast
    next
      case False
      then have l: "length (pre @ [r]) \<le> cp_tip_index cp" using Cons.prems(2) by simp
      from Cons.IH [OF v l hd c] show ?thesis
      proof (elim disjE exE conjE)
        fix rs rest
        assume "items = map Inr rs @ rest" "chain_valid (rledger D) ((pre @ [r]) @ rs)" "fits cp ((pre @ [r]) @ rs)"
          "lv = map (leaf D) ((pre @ [r]) @ rs)" "sl = cp_leaves D cp ((pre @ [r]) @ rs)"
        with Inr show ?thesis by (intro disjI1 exI [of _ "r # rs"] exI [of _ rest]) simp
      qed simp
    qed
  qed
qed simp

lemma check_checkpoint_sound:
  assumes "hex_laws D" and "check_checkpoint D cp items = Inr st"
  shows "\<exists>rs rest. items = map Inr rs @ rest \<and> chain_valid (rledger D) rs \<and> fits cp rs \<and>
    st_leaves st = map (leaf D) rs \<and> cp_merkle_root cp = rhex D (root (rhash D) (map (leaf D) rs))"
proof -
  obtain lv sl app br seen where c: "check_loop D cp 0 GENESIS_HASH [] [] 0 0 items = Inr (lv, sl, app, br, seen)"
      "\<not> seen < cp_records cp" "rhex D (root (rhash D) lv) = cp_merkle_root cp" "st_leaves st = lv"
      "validate cp = Inr ()"
    using assms(2) by (auto simp: check_checkpoint_def result_simps split: if_splits)
  then have "\<not> seen \<le> cp_tip_index cp" using validateD(4) [OF c(5)] by simp
  with check_loop_sound [OF assms(1), of "[]" cp 0 items lv sl app br seen] c(1) show ?thesis
    using c(3,4) by auto
qed

end
