(* ===== verification/Receipt_Proofs.thy ===== *)
theory Receipt_Proofs
  imports Receipt_Checks
begin

text \<open>
  The life of a receipt: a checkpoint of a valid chain can be built and signed, its signature
  verifies, and it keeps checking while the ledger grows; whatever ledger it checks against has the
  covered records unchanged; the inclusion proofs made from it verify, and what verifies is about a
  covered record; its anchor line is found in the log it was appended to.
\<close>

section \<open>Building and signing succeed\<close>

lemma fmt0_two_digits:
  assumes "0 \<le> i" and "i \<le> 99"
  shows "\<exists>a b. fmt0 2 i = [a, b] \<and> is_ascii_digit a \<and> is_ascii_digit b"
  using fmt0_two [OF assms] by (metis list.pred_inject(2))

lemma fmt0_four_digits:
  assumes "0 \<le> i" and "i \<le> 9999"
  shows "\<exists>a b c d. fmt0 4 i = [a, b, c, d] \<and> is_ascii_digit a \<and> is_ascii_digit b \<and> is_ascii_digit c \<and> is_ascii_digit d"
  using fmt0_four [OF assms] by (metis list.pred_inject(2))

lemma rfc3339_fields_ok:
  assumes "0 \<le> y" "y \<le> 9999" "0 \<le> mo" "mo \<le> 99" "0 \<le> d" "d \<le> 99"
    and "0 \<le> h" "h \<le> 99" "0 \<le> mi" "mi \<le> 99" "0 \<le> sec" "sec \<le> 99"
  shows "is_rfc3339_seconds (fmt0 4 y @ ''-'' @ fmt0 2 mo @ ''-'' @ fmt0 2 d @ ''T'' @
           fmt0 2 h @ '':'' @ fmt0 2 mi @ '':'' @ fmt0 2 sec @ ''Z'')"
  using fmt0_four_digits [OF assms(1,2)] fmt0_two_digits [OF assms(3,4)] fmt0_two_digits [OF assms(5,6)]
    fmt0_two_digits [OF assms(7,8)] fmt0_two_digits [OF assms(9,10)] fmt0_two_digits [OF assms(11,12)]
  by (auto simp: is_rfc3339_seconds_def)

lemma to_rfc3339_ok:
  assumes "- 62167219200000 \<le> epoch_ms t" and "epoch_ms t < 253402300800000"
  shows "is_rfc3339_seconds (to_rfc3339 t)"
proof -
  define secs where "secs = epoch_ms t div 1000"
  define s where "s = secs mod 86400"
  obtain y m d where c: "civil_from_days (secs div 86400) = (y, m, d)" by (metis prod_cases3)
  have s: "0 \<le> s" "s < 86400" by (simp_all add: s_def)
  have "- 719528 \<le> secs div 86400" "secs div 86400 \<le> 2932896" using assms by (simp_all add: secs_def)
  note y = civil_year_range [OF c this] and md = civil_from_days_correct(2-5) [OF c]
  have "is_rfc3339_seconds (fmt0 4 y @ ''-'' @ fmt0 2 m @ ''-'' @ fmt0 2 d @ ''T'' @
           fmt0 2 (s div 3600) @ '':'' @ fmt0 2 (s mod 3600 div 60) @ '':'' @ fmt0 2 (s mod 60) @ ''Z'')"
    using y md s by (intro rfc3339_fields_ok) auto
  then show ?thesis by (simp add: to_rfc3339_def Let_def c s_def flip: secs_def)
qed

text \<open>
  What \<open>ed25519_dalek\<close>, \<open>base64\<close> and \<open>pem\<close> promise: signatures have 64 bytes and verify under the
  public half of the key, and the encodings decode to what was encoded, also after trimming.
\<close>

definition sign_laws :: "receipt_deps \<Rightarrow> bool" where
  "sign_laws D \<longleftrightarrow>
     (\<forall>k m. \<exists>s. sign_prehashed D k m = Inr s \<and> length s = 64 \<and> verify_prehashed_strict D (verifying_key D k) m s) \<and>
     (\<forall>b. b64_decode D (trim (b64_encode D b)) = Inr b) \<and>
     (\<forall>vk. \<exists>pem. to_public_key_pem D vk = Inr pem \<and> from_public_key_pem D (trim pem) = Inr vk)"

lemma build_checkpoint_succeeds:
  assumes "hex_laws D" and "chain_valid (rledger D) rs" and "rs \<noteq> []"
    and "\<And>s. sid = Some s \<Longrightarrow> s \<in> session_id ` set rs"
  shows "\<exists>cp. build_checkpoint D now (map Inr rs) sid = Inr cp"
proof -
  have "build_loop D sid 0 GENESIS_HASH [] [] None (map Inr rs) =
      Inr (tip_hash rs, map (leaf D) rs, session_leaves D sid rs, first_hash rs)"
    using build_loop_spec [OF assms(1), of "[]" sid "map Inr rs"] assms(2)
    by (auto simp: session_leaves_def first_hash_def)
  moreover have "sid = Some s \<Longrightarrow> session_leaves D sid rs \<noteq> []" for s
    using assms(4) by (fastforce simp: session_leaves_def filter_empty_conv)
  ultimately show ?thesis using assms(3)
    by (cases sid) (auto simp: build_checkpoint_def first_hash_def)
qed

lemma key_id_signer:
  assumes "hex_laws D"
  shows "strip_prefix (key_id D vk) ''ed25519:'' = Some (rhex D (rhash D vk)) \<and> is_hex64 (rhex D (rhash D vk))"
  using hex_lawsD(1,6) [OF assms] strip_prefix_append [of "''ed25519:''" "rhex D (rhash D vk)"]
  by (simp add: key_id_def)

lemma chain_hashes_hex:
  assumes "hex_laws D" and "chain_valid (rledger D) rs" and "r \<in> set rs"
  shows "is_hex64 (record_hash r)"
proof -
  obtain i where "i < length rs" "rs ! i = r" using assms(3) by (auto simp: in_set_conv_nth)
  with chain_valid_nth [OF assms(2)] extends_leaf(2) [OF assms(1)] show ?thesis by metis
qed

lemma leaf_length [simp]: "hex_laws D \<Longrightarrow> length (leaf D r) = 32"
  using hex_lawsD(1) by (simp add: leaf_def leaf_hash_def)

lemma root_hex:
  assumes "hex_laws D"
  shows "is_hex64 (rhex D (root (rhash D) (map (leaf D) rs)))"
    "hex32 D (rhex D (root (rhash D) (map (leaf D) rs))) w = Inr (root (rhash D) (map (leaf D) rs))"
proof -
  have "length (root (rhash D) (map (leaf D) rs)) = 32"
    using hex_lawsD(1) [OF assms] assms by (intro root_length) auto
  then show "is_hex64 (rhex D (root (rhash D) (map (leaf D) rs)))"
    "hex32 D (rhex D (root (rhash D) (map (leaf D) rs))) w = Inr (root (rhash D) (map (leaf D) rs))"
    using hex_lawsD(5,6) [OF assms] by auto
qed

lemma built_from:
  assumes "hex_laws D" and "build_checkpoint D now (map Inr rs) sid = Inr cp"
  shows "rs \<noteq> []" "chain_valid (rledger D) rs"
    "cp_ledger_id cp = record_hash (hd rs)" "cp_records cp = length rs" "cp_tip_index cp = length rs - 1"
    "cp_tip_hash cp = tip_hash rs" "cp_merkle_root cp = rhex D (root (rhash D) (map (leaf D) rs))"
    "cp_created_at cp = to_rfc3339 now"
    "cp_session cp = map_option (\<lambda>s. \<lparr>ss_id = s, ss_records = length (session_leaves D sid rs),
       ss_merkle_root = rhex D (root (rhash D) (session_leaves D sid rs))\<rparr>) sid"
    "sid \<noteq> None \<longrightarrow> session_leaves D sid rs \<noteq> []"
  using build_checkpoint_spec [OF assms] by (auto simp: inj_map_eq_map)

lemma built_checkpoint_valid:
  assumes "hex_laws D" and "build_checkpoint D now (map Inr rs) sid = Inr cp"
    and "- 62167219200000 \<le> epoch_ms now" "epoch_ms now < 253402300800000" and "length rs \<le> u64_max" and "sid \<noteq> Some []"
  shows "validate (cp\<lparr>cp_signer := key_id D vk\<rparr>) = Inr ()"
proof -
  note b = built_from [OF assms(1,2)]
  have h: "is_hex64 (record_hash (hd rs))" "is_hex64 (tip_hash rs)"
    using b(1) chain_hashes_hex [OF assms(1) b(2)] by (auto simp: tip_hash_def)
  have one: "length rs - 1 = 0 \<Longrightarrow> tip_hash rs = record_hash (hd rs)"
    using b(1) by (cases rs) (auto simp: tip_hash_def)
  have sl: "length (session_leaves D sid rs) \<le> length rs" by (simp add: session_leaves_def)
  have "validate_session (cp\<lparr>cp_signer := key_id D vk\<rparr>) = Inr ()"
    using b(4,9,10) assms(6) sl root_hex(1) [OF assms(1)]
    by (cases sid) (auto simp: validate_session_def check_hex_def session_leaves_def leD [OF length_filter_le])
  then show ?thesis
    using b(1,3-8) h one key_id_signer [OF assms(1), of vk] root_hex(1) [OF assms(1), of rs] assms(5)
      to_rfc3339_ok [OF assms(3,4)]
    by (simp add: validate_def check_hex_def Suc_le_eq)
qed

lemma sign_succeeds:
  assumes "sign_laws D" and "validate (cp\<lparr>cp_signer := key_id D (verifying_key D key)\<rparr>) = Inr ()"
  shows "\<exists>rc. sign D cp key = Inr rc \<and> rc_checkpoint rc = cp\<lparr>cp_signer := key_id D (verifying_key D key)\<rparr> \<and>
    verify_signature D rc (Some (verifying_key D key)) = Inr (verifying_key D key)"
proof -
  let ?vk = "verifying_key D key"
  let ?cp = "cp\<lparr>cp_signer := key_id D ?vk\<rparr>"
  obtain m where m: "canonical_bytes D ?cp = Inr m" using assms(2) by (simp add: canonical_bytes_def)
  obtain s pem where s: "sign_prehashed D key m = Inr s" "length s = 64" "verify_prehashed_strict D ?vk m s"
      "to_public_key_pem D ?vk = Inr pem" "from_public_key_pem D (trim pem) = Inr ?vk"
      "b64_decode D (trim (b64_encode D s)) = Inr s"
    using assms(1) unfolding sign_laws_def by metis
  show ?thesis
    using m s by (simp add: sign_def Let_def public_pem_def verify_signature_def parse_public_pem_def signature_bytes_def)
qed

section \<open>Receipts outlive appends and detect rewrites\<close>

lemma check_checkpoint_appends:
  assumes "hex_laws D" and "build_checkpoint D now (map Inr rs) sid = Inr cp"
    and "validate (cp\<lparr>cp_signer := sg\<rparr>) = Inr ()" and "chain_valid (rledger D) (rs @ ts)"
  shows "check_checkpoint D (cp\<lparr>cp_signer := sg\<rparr>) (map Inr (rs @ ts)) =
    Inr \<lparr>st_appended_after = length ts, st_broken_after = None, st_leaves = map (leaf D) rs\<rparr>"
proof -
  let ?cp = "cp\<lparr>cp_signer := sg\<rparr>"
  note b = built_from [OF assms(1,2)]
  have f: "fits ?cp rs" and t: "cp_tip_index ?cp < length rs" using b by (simp_all add: fits_def)
  have sl: "cp_leaves D ?cp rs = session_leaves D sid rs"
    unfolding cp_leaves_def using b(9) by (cases sid) simp_all
  have "check_loop D ?cp 0 GENESIS_HASH [] [] 0 0 (map Inr (rs @ ts)) =
      check_loop D ?cp (length rs) (tip_hash rs) (map (leaf D) rs) (cp_leaves D ?cp rs) 0 (length rs) (map Inr ts)"
    using check_loop_fits [OF assms(1), of ?cp "[]" rs 0 "map Inr ts"] f b(2) by simp
  also have "\<dots> = Inr (map (leaf D) rs, cp_leaves D ?cp rs, 0 + length ts, None, length (rs @ ts))"
    by (rule check_loop_after_valid [OF t assms(4)])
  finally have "check_loop D ?cp 0 GENESIS_HASH [] [] 0 0 (map Inr (rs @ ts)) =
      Inr (map (leaf D) rs, session_leaves D sid rs, length ts, None, length rs + length ts)"
    by (simp add: sl)
  moreover have "check_session D ?cp (session_leaves D sid rs) = Inr ()"
    using b(9) by (cases sid) (simp_all add: check_session_def)
  ultimately show ?thesis using assms(3) b(4,7) by (simp add: check_checkpoint_def)
qed

lemma receipt_of_chain:
  assumes "hex_laws D" and "sign_laws D" and "chain_valid (rledger D) rs" and "rs \<noteq> []" and "length rs \<le> u64_max"
    and "\<And>s. sid = Some s \<Longrightarrow> s \<noteq> [] \<and> s \<in> session_id ` set rs"
    and "- 62167219200000 \<le> epoch_ms now" and "epoch_ms now < 253402300800000"
  obtains cp rc sg where "build_checkpoint D now (map Inr rs) sid = Inr cp" "sign D cp key = Inr rc"
    "verify_signature D rc (Some (verifying_key D key)) = Inr (verifying_key D key)"
    "rc_checkpoint rc = cp\<lparr>cp_signer := sg\<rparr>" "validate (cp\<lparr>cp_signer := sg\<rparr>) = Inr ()"
proof -
  obtain cp where cp: "build_checkpoint D now (map Inr rs) sid = Inr cp"
    using build_checkpoint_succeeds [OF assms(1,3,4)] assms(6) by blast
  have v: "validate (cp\<lparr>cp_signer := key_id D vk\<rparr>) = Inr ()" for vk
    using built_checkpoint_valid [OF assms(1) cp assms(7,8,5)] assms(6) by blast
  with cp sign_succeeds [OF assms(2) v] show ?thesis using that by blast
qed

text \<open>
  The life of a receipt: from a valid, non-empty chain (and a session that occurs in it, if one
  is named) a checkpoint can be built and signed at any time between the years 0 and 9999; its
  signature verifies with the signer pinned; and whatever records are appended later, as long as the
  chain stays valid, the receipt still checks and reports exactly how many were appended.
\<close>

theorem receipt_lifecycle:
  assumes "hex_laws D" and "sign_laws D" and "chain_valid (rledger D) rs" and "rs \<noteq> []" and "length rs \<le> u64_max"
    and "\<And>s. sid = Some s \<Longrightarrow> s \<noteq> [] \<and> s \<in> session_id ` set rs"
    and "- 62167219200000 \<le> epoch_ms now" and "epoch_ms now < 253402300800000"
  shows "\<exists>cp rc. build_checkpoint D now (map Inr rs) sid = Inr cp \<and> sign D cp key = Inr rc \<and>
    verify_signature D rc (Some (verifying_key D key)) = Inr (verifying_key D key) \<and>
    (\<forall>ts. chain_valid (rledger D) (rs @ ts) \<longrightarrow>
       check_checkpoint D (rc_checkpoint rc) (map Inr (rs @ ts)) =
         Inr \<lparr>st_appended_after = length ts, st_broken_after = None, st_leaves = map (leaf D) rs\<rparr>)"
proof -
  obtain cp rc sg where "build_checkpoint D now (map Inr rs) sid = Inr cp" "sign D cp key = Inr rc"
      "verify_signature D rc (Some (verifying_key D key)) = Inr (verifying_key D key)"
      "rc_checkpoint rc = cp\<lparr>cp_signer := sg\<rparr>" "validate (cp\<lparr>cp_signer := sg\<rparr>) = Inr ()"
    using receipt_of_chain [OF assms] by metis
  with check_checkpoint_appends [OF assms(1)] show ?thesis by metis
qed

lemma sign_checkpoint: "sign D cp key = Inr rc \<Longrightarrow> \<exists>sg. rc_checkpoint rc = cp\<lparr>cp_signer := sg\<rparr>"
  by (auto simp: sign_def Let_def result_simps)

lemma check_detects_rewrites:
  assumes "hex_laws D" and "build_checkpoint D now (map Inr rs) sid = Inr cp"
    and "check_checkpoint D (cp\<lparr>cp_signer := sg\<rparr>) items = Inr st"
    and "hash_distinguishes (rledger D) (set rs \<union> {r. Inr r \<in> set items})"
  shows "take (length rs) items = map Inr rs"
proof -
  note b = built_from [OF assms(1,2)]
  obtain rs' rest where i: "items = map Inr rs' @ rest" and r: "chain_valid (rledger D) rs'" "fits (cp\<lparr>cp_signer := sg\<rparr>) rs'"
    using check_checkpoint_sound [OF assms(1,3)] by blast
  have l: "length rs' = length rs" and t: "record_hash (last rs') = record_hash (last rs)" and ne: "rs' \<noteq> []"
    using r(2) b(1,5,6) by (auto simp: fits_def tip_hash_def)
  have "set rs' \<subseteq> {r. Inr r \<in> set items}" using i by auto
  then have h: "hash_distinguishes (rledger D) (set rs \<union> set rs')"
    using assms(4) by (auto simp: hash_distinguishes_def payload_bytes_def intro: inj_on_subset)
  have "take (Suc (length rs - 1)) rs = take (Suc (length rs - 1)) rs'"
    using b(1) l ne t by (intro tip_determines_prefix [OF b(2) r(1) h]) (simp_all add: last_conv_nth)
  with b(1) l have "rs = rs'" by simp
  with i show ?thesis by simp
qed

text \<open>
  C8. A receipt pins the past: if a checkpoint was built from the records \<open>rs\<close> and signed, and later
  checks against what some ledger holds, readable or not, then that ledger starts with exactly \<open>rs\<close>.
  The hypothesis says that SHA-256 and the serializer tell the records at hand apart.
\<close>

theorem checkpoint_detects_rewrites:
  assumes "hex_laws D" and "build_checkpoint D now (map Inr rs) sid = Inr cp" and "sign D cp key = Inr rc"
    and "check_checkpoint D (rc_checkpoint rc) items = Inr st"
    and "hash_distinguishes (rledger D) (set rs \<union> {r. Inr r \<in> set items})"
  shows "take (length rs) items = map Inr rs"
proof -
  obtain sg where "rc_checkpoint rc = cp\<lparr>cp_signer := sg\<rparr>" using sign_checkpoint [OF assms(3)] by blast
  with assms(4) check_detects_rewrites [OF assms(1,2) _ assms(5)] show ?thesis by simp
qed

section \<open>Inclusion proofs\<close>

lemma matching_covered:
  "n + length rs \<le> Suc tip \<Longrightarrow>
   List.map_filter (\<lambda>(i, item). case item of Inr r \<Rightarrow> if i \<le> tip \<and> call_id r = cid then Some r else None | Inl _ \<Rightarrow> None)
     (enumerate n (map Inr rs)) = filter (\<lambda>r. call_id r = cid) rs"
  by (induction rs arbitrary: n) (simp_all add: List.map_filter_simps)

lemma matching_after:
  "tip < n \<Longrightarrow>
   List.map_filter (\<lambda>(i, item). case item of Inr r \<Rightarrow> if i \<le> tip \<and> call_id r = cid then Some r else None | Inl _ \<Rightarrow> None)
     (enumerate n items) = []"
  by (induction items arbitrary: n) (auto simp: List.map_filter_simps split: sum.splits)

lemma matching_records_prefix:
  "length rs = tip + 1 \<Longrightarrow> matching_records tip cid (map Inr rs @ rest) = filter (\<lambda>r. call_id r = cid) rs"
  using matching_covered [of 0 rs tip cid] matching_after [of tip "length rs" cid rest]
  by (simp add: matching_records_def enumerate_append_eq List.map_filter_def)

lemma chain_member:
  assumes "chain_valid (rledger D) rs" and "r \<in> set rs"
  shows "index r < length rs" "rs ! index r = r" "compute_hash (rledger D) r = Inr (record_hash r)"
proof -
  obtain i where "i < length rs" "rs ! i = r" using assms(2) by (auto simp: in_set_conv_nth)
  with chain_valid_nth [OF assms(1), of i]
  show "index r < length rs" "rs ! index r = r" "compute_hash (rledger D) r = Inr (record_hash r)"
    by (auto simp: extends_def)
qed

text \<open>The hash a record of a valid chain carries, decoded.\<close>

lemma own_hash_decodes:
  assumes "hex_laws D" and "compute_hash (rledger D) r = Inr (record_hash r)"
  shows "\<exists>b. record_hash r = rhex D b \<and> length b = 32 \<and> hex32 D (record_hash r) w = Inr b \<and> leaf D r = leaf_hash (rhash D) b"
proof -
  obtain p where p: "record_hash r = rhex D (rhash D p)" using assms(2) by (auto simp: compute_hash_eq_Inr hash_bytes_def)
  then show ?thesis using hex_lawsD [OF assms(1)] by (intro exI [of _ "rhash D p"]) (simp add: leaf_def)
qed

lemma prove_entry_verifies:
  assumes "hex_laws D" and "chain_valid (rledger D) rs" and "r \<in> set rs" and "cp_records cp = length rs"
    and "prove_entry D cp (map (leaf D) rs) r = Inr e" and "call_id r = cid"
  shows "pe_record e = r \<and> verify_entry D cp cid (root (rhash D) (map (leaf D) rs)) e = Inr ()"
proof -
  note m = chain_member [OF assms(2,3)]
  obtain path where p: "inclusion_path (rhash D) (map (leaf D) rs) (index r) = Some path"
      and e: "e = \<lparr>pe_record = r, pe_leaf_index = index r, pe_tree_size = cp_records cp, pe_audit_path = map (rhex D) path\<rparr>"
    using assms(5) by (auto simp: prove_entry_def result_simps)
  have "\<forall>q \<in> set path. length q = 32"
    using p build_path_length [of "rhash D" "map (leaf D) rs"] hex_lawsD(1) [OF assms(1)] assms(1)
    by (auto simp: inclusion_path_def split: if_splits)
  then have path: "collect_results (\<lambda>h. hex32 D h ''audit_path entry'') (map (rhex D) path) = Inr path"
    using hex_lawsD(5) [OF assms(1)] by (induction path) auto
  obtain b where b: "hex32 D (record_hash r) ''record_hash'' = Inr b" "leaf D r = leaf_hash (rhash D) b"
    using own_hash_decodes [OF assms(1) m(3)] by blast
  have "verify_inclusion (rhash D) (leaf D r) (index r) (length rs) path (root (rhash D) (map (leaf D) rs))"
    using audit_path_verifies [OF p] m by simp
  with e path b m(3) assms(4,6) show ?thesis by (simp add: verify_entry_def)
qed

lemma prove_verifies:
  assumes "hex_laws D" and "prove D rc items cid = Inr ip"
  shows "verify_entries D ip = Inr () \<and> ip_receipt ip = rc \<and> ip_call_id ip = cid \<and> ip_entries ip \<noteq> [] \<and>
    (\<exists>rs rest. items = map Inr rs @ rest \<and> length rs = cp_records (rc_checkpoint rc) \<and>
       map pe_record (ip_entries ip) = filter (\<lambda>r. call_id r = cid) rs)"
proof -
  let ?cp = "rc_checkpoint rc"
  obtain st es where st: "check_checkpoint D ?cp items = Inr st"
      "collect_results (prove_entry D ?cp (st_leaves st)) (matching_records (cp_tip_index ?cp) cid items) = Inr es"
      "matching_records (cp_tip_index ?cp) cid items \<noteq> []"
      "ip = \<lparr>ip_format = PROOF_FORMAT, ip_call_id = cid, ip_receipt = rc, ip_entries = es\<rparr>"
    using assms(2) by (auto simp: prove_def Let_def result_simps split: if_splits)
  obtain rs rest where rs: "items = map Inr rs @ rest" "chain_valid (rledger D) rs" "fits ?cp rs"
      "st_leaves st = map (leaf D) rs" "cp_merkle_root ?cp = rhex D (root (rhash D) (map (leaf D) rs))"
    using check_checkpoint_sound [OF assms(1) st(1)] by blast
  have "validate ?cp = Inr ()" using st(1) by (auto simp: check_checkpoint_def result_simps)
  then have n: "cp_records ?cp = length rs" using validateD(4) rs(3) by (simp add: fits_def)
  have mr: "matching_records (cp_tip_index ?cp) cid items = filter (\<lambda>r. call_id r = cid) rs"
    unfolding rs(1) using rs(3) by (intro matching_records_prefix) (simp add: fits_def)
  have all: "list_all2 (\<lambda>r e. prove_entry D ?cp (map (leaf D) rs) r = Inr e) (filter (\<lambda>r. call_id r = cid) rs) es"
    using st(2) by (simp add: mr rs(4) collect_results_eq_Inr)
  have each: "list_all2 (\<lambda>r e. pe_record e = r \<and> verify_entry D ?cp cid (root (rhash D) (map (leaf D) rs)) e = Inr ())
      (filter (\<lambda>r. call_id r = cid) rs) es"
    using all
  proof (rule list.rel_mono_strong)
    fix r e
    assume "r \<in> set (filter (\<lambda>r. call_id r = cid) rs)" "prove_entry D ?cp (map (leaf D) rs) r = Inr e"
    then show "pe_record e = r \<and> verify_entry D ?cp cid (root (rhash D) (map (leaf D) rs)) e = Inr ()"
      using prove_entry_verifies [OF assms(1) rs(2) _ n, of r e cid] by simp
  qed
  then have rec: "map pe_record es = filter (\<lambda>r. call_id r = cid) rs"
    by (auto simp: list_all2_conv_all_nth intro: nth_equalityI)
  have "\<forall>e \<in> set es. verify_entry D ?cp cid (root (rhash D) (map (leaf D) rs)) e = Inr ()"
    using each by (auto simp: list_all2_conv_all_nth in_set_conv_nth)
  then have "collect_results (verify_entry D ?cp cid (root (rhash D) (map (leaf D) rs))) es = Inr (map (\<lambda>_. ()) es)"
    by (intro collect_results_map_Inr) simp
  moreover have "es \<noteq> []" using rec st(3) mr by auto
  ultimately have "verify_entries D ip = Inr ()"
    using root_hex(2) [OF assms(1)] by (simp add: verify_entries_def st(4) rs(5))
  with rec rs(1) n st(4) \<open>es \<noteq> []\<close> show ?thesis by auto
qed

text \<open>
  Proofs that are made verify: whenever \<open>prove\<close> succeeds against a ledger, the proof it returns
  passes \<open>verify_entries\<close>, holds the receipt it was asked about, and lists exactly the covered records
  of that call, in ledger order; it never succeeds with an empty list.
\<close>

theorem proofs_verify:
  assumes "hex_laws D" and "prove D rc items cid = Inr ip"
  shows "verify_entries D ip = Inr () \<and> ip_receipt ip = rc \<and> ip_call_id ip = cid \<and> ip_entries ip \<noteq> [] \<and>
    (\<exists>rs rest. items = map Inr rs @ rest \<and> length rs = cp_records (rc_checkpoint rc) \<and>
       map pe_record (ip_entries ip) = filter (\<lambda>r. call_id r = cid) rs)"
  using assms by (rule prove_verifies)

text \<open>
  The inputs on which a proof relies on SHA-256 being collision free: the nodes of its audit paths,
  those of the tree of the covered records, and the two leaves.
\<close>

definition entry_inputs :: "receipt_deps \<Rightarrow> ledger_record list \<Rightarrow> proof_entry \<Rightarrow> bytes set" where
  "entry_inputs D rs e =
     (let path = (case collect_results (hex_decode D) (pe_audit_path e) of Inr p \<Rightarrow> p | Inl _ \<Rightarrow> []);
          i = pe_leaf_index e; n = length rs - 1; lvs = map (leaf D) rs
      in incl_inputs (rhash D) i n (leaf D (pe_record e)) path \<union> incl_inputs (rhash D) i n (lvs ! i) (build_path (rhash D) lvs i) \<union>
         {CHR 0x00 # b |b. hex_decode D (record_hash (pe_record e)) = Inr b \<or> hex_decode D (record_hash (rs ! i)) = Inr b})"

lemma hex32_eq_Inr:
  "hex_laws D \<Longrightarrow> hex32 D s w = Inr b \<longleftrightarrow> is_hex64 s \<and> hex_decode D s = Inr b"
  by (auto simp: hex32_def result_simps)

lemma hex32_length: "hex_laws D \<Longrightarrow> hex32 D s w = Inr b \<Longrightarrow> length b = 32"
  using hex_lawsD(2,7) [of D] by (fastforce simp: hex32_eq_Inr is_hex64_iff)

lemma hex32_path:
  assumes "hex_laws D" and "collect_results (\<lambda>h. hex32 D h w) hs = Inr path"
  shows "collect_results (hex_decode D) hs = Inr path" "\<forall>p \<in> set path. length p = 32"
proof -
  have l: "list_all2 (\<lambda>h p. hex32 D h w = Inr p) hs path" using assms(2) by (simp add: collect_results_eq_Inr)
  then show "collect_results (hex_decode D) hs = Inr path"
    unfolding collect_results_eq_Inr by (rule list_all2_mono) (simp add: hex32_eq_Inr [OF assms(1)])
  show "\<forall>p \<in> set path. length p = 32"
    using l hex32_length [OF assms(1)] by (auto simp: list_all2_conv_all_nth in_set_conv_nth) metis
qed

lemma verify_entry_sound:
  assumes "hex_laws D" and "chain_valid (rledger D) rs" and "cp_records cp = length rs"
    and "verify_entry D cp cid (root (rhash D) (map (leaf D) rs)) e = Inr ()"
    and "inj_on (rhash D) (entry_inputs D rs e)" and "hash_distinguishes (rledger D) (insert (pe_record e) (set rs))"
  shows "pe_leaf_index e < length rs \<and> pe_record e = rs ! pe_leaf_index e \<and> call_id (pe_record e) = cid"
proof -
  let ?r = "pe_record e" and ?i = "pe_leaf_index e" and ?lvs = "map (leaf D) rs"
  obtain b path where v: "call_id ?r = cid" "index ?r = ?i" "pe_tree_size e = length rs"
      "compute_hash (rledger D) ?r = Inr (record_hash ?r)" "hex32 D (record_hash ?r) ''record_hash'' = Inr b"
      "collect_results (\<lambda>h. hex32 D h ''audit_path entry'') (pe_audit_path e) = Inr path"
      "verify_inclusion (rhash D) (leaf_hash (rhash D) b) ?i (length rs) path (root (rhash D) ?lvs)"
    using assms(3,4) by (auto simp: verify_entry_def Let_def result_simps split: if_splits sum.splits)
  have i: "?i < length rs" using v(7) by (simp add: verify_inclusion_def)
  obtain b1 where b1: "leaf D ?r = leaf_hash (rhash D) b1" "record_hash ?r = rhex D b1" "hex32 D (record_hash ?r) ''record_hash'' = Inr b1"
    using own_hash_decodes [OF assms(1) v(4)] by blast
  obtain b2 where b2: "leaf D (rs ! ?i) = leaf_hash (rhash D) b2" "record_hash (rs ! ?i) = rhex D b2"
    using own_hash_decodes [OF assms(1) chain_member(3) [OF assms(2) nth_mem [OF i]]] by blast
  have eb: "b1 = b" using b1(3) v(5) by simp
  note path = hex32_path [OF assms(1) v(6)]
  have I: "entry_inputs D rs e = incl_inputs (rhash D) ?i (length rs - 1) (leaf D ?r) path \<union>
      incl_inputs (rhash D) ?i (length rs - 1) (?lvs ! ?i) (build_path (rhash D) ?lvs ?i) \<union> {CHR 0x00 # b, CHR 0x00 # b2}"
    using path(1) b1(2) b2(2) hex_lawsD(4) [OF assms(1)] by (auto simp: entry_inputs_def eb Let_def)
  have "leaf D ?r = ?lvs ! ?i \<and> path = build_path (rhash D) ?lvs ?i"
    using v(7) b1(1) eb path(2) hex_lawsD(1) [OF assms(1)] assms(1) inj_on_subset [OF assms(5)]
    by (intro audit_path_sound) (auto simp: I leaf_hash_def)
  then have "rhash D (CHR 0x00 # b) = rhash D (CHR 0x00 # b2)"
    using b1(1) b2(1) i eb by (simp add: leaf_hash_def)
  then have "CHR 0x00 # b = CHR 0x00 # b2" by (rule inj_onD [OF assms(5)]) (auto simp: I)
  then have "record_hash ?r = record_hash (rs ! ?i)" using b1(2) b2(2) eb by simp
  then have "?r = rs ! ?i"
    using i v(4) chain_member(3) [OF assms(2) nth_mem [OF i]] by (intro same_hash_same_record [OF assms(6)]) auto
  with i v(1) show ?thesis by simp
qed

text \<open>
  What verifies was in the ledger: if a checkpoint was built from the records \<open>rs\<close> and signed, and
  a proof that carries that receipt passes \<open>verify_entries\<close>, then each record it shows is the record of
  \<open>rs\<close> at the stated position and belongs to the stated call.  The hypotheses say that SHA-256 and the
  serializer do not confuse the inputs this proof feeds them.
\<close>

theorem proof_entries_sound:
  assumes "hex_laws D" and "build_checkpoint D now (map Inr rs) sid = Inr cp" and "sign D cp key = Inr (ip_receipt ip)"
    and "verify_entries D ip = Inr ()"
    and "\<forall>e \<in> set (ip_entries ip). inj_on (rhash D) (entry_inputs D rs e) \<and>
           hash_distinguishes (rledger D) (insert (pe_record e) (set rs))"
  shows "ip_entries ip \<noteq> [] \<and> (\<forall>e \<in> set (ip_entries ip).
    pe_leaf_index e < length rs \<and> pe_record e = rs ! pe_leaf_index e \<and> call_id (pe_record e) = ip_call_id ip)"
proof -
  let ?cp = "rc_checkpoint (ip_receipt ip)"
  note b = built_from [OF assms(1,2)]
  obtain sg where "?cp = cp\<lparr>cp_signer := sg\<rparr>" using sign_checkpoint [OF assms(3)] by blast
  then have cp: "cp_records ?cp = length rs" "cp_merkle_root ?cp = rhex D (root (rhash D) (map (leaf D) rs))"
    using b(4,7) by simp_all
  then have "ip_entries ip \<noteq> [] \<and>
      (\<exists>us. collect_results (verify_entry D ?cp (ip_call_id ip) (root (rhash D) (map (leaf D) rs))) (ip_entries ip) = Inr us)"
    using assms(4) root_hex(2) [OF assms(1)] by (auto simp: verify_entries_def Let_def result_simps split: if_splits)
  then have "ip_entries ip \<noteq> []"
      "\<forall>e \<in> set (ip_entries ip). verify_entry D ?cp (ip_call_id ip) (root (rhash D) (map (leaf D) rs)) e = Inr ()"
    by (auto simp: collect_results_eq_Inr list_all2_conv_all_nth in_set_conv_nth)
  with verify_entry_sound [OF assms(1) b(2) cp(1)] assms(5) show ?thesis by blast
qed

section \<open>A concrete receipt\<close>

lemma sign_laws_demo: "sign_laws demo_deps"
proof -
  have p: "is_hex_char c \<Longrightarrow> is_printable c" for c
    by (auto simp: is_hex_char_def is_printable_def is_ascii_digit_def code_def)
  have "plain_hex b = [] \<or> is_printable (hd (plain_hex b)) \<and> is_printable (last (plain_hex b))" for b
    using plain_hex_laws(2) [of b] p by (cases "plain_hex b = []") (auto simp: list_all_iff)
  then have "trim (plain_hex b) = plain_hex b" for b by (rule trim_printable)
  moreover have "min n 64 + (64 - n) = (64::nat)" for n by (simp add: min_def)
  ultimately show ?thesis by (simp add: sign_laws_def demo_deps_def plain_hex_laws)
qed

definition demo_record :: ledger_record where
  "demo_record = (let r = toy_record 0 GENESIS_HASH
     in r\<lparr>record_hash := hash_bytes (rledger demo_deps) (braced (to_nat (payload r)))\<rparr>)"

lemma demo_extends: "extends (rledger demo_deps) [] demo_record"
proof -
  have "payload (r\<lparr>record_hash := h\<rparr>) = payload r" for r h by (simp add: payload_def)
  then have "compute_hash (rledger demo_deps) demo_record = Inr (record_hash demo_record)"
    by (simp add: compute_hash_eq_Inr demo_record_def Let_def) (simp add: demo_deps_def num_deps_def)
  then show ?thesis
    by (simp add: extends_def) (simp add: demo_record_def Let_def toy_record_def decision_record_def)
qed

lemma demo_chain: "chain_valid (rledger demo_deps) [demo_record]"
  using demo_extends by (simp add: chain_valid_def)

lemma demo_distinguishes: "hash_distinguishes (rledger demo_deps) {demo_record}"
  by (auto simp: hash_distinguishes_def payload_bytes_def inj_on_def)

lemma demo_receipt:
  obtains cp rc where "build_checkpoint demo_deps (from_epoch_ms 0) (map Inr [demo_record]) None = Inr cp"
    "sign demo_deps cp ''k'' = Inr rc"
    "check_checkpoint demo_deps (rc_checkpoint rc) (map Inr [demo_record]) =
       Inr \<lparr>st_appended_after = 0, st_broken_after = None, st_leaves = map (leaf demo_deps) [demo_record]\<rparr>"
proof -
  have "length [demo_record] \<le> u64_max" by (simp add: u64_max_def)
  moreover have "- 62167219200000 \<le> epoch_ms (from_epoch_ms 0)" "epoch_ms (from_epoch_ms 0) < 253402300800000"
    by (simp_all add: from_epoch_ms_def)
  ultimately obtain cp rc sg where "build_checkpoint demo_deps (from_epoch_ms 0) (map Inr [demo_record]) None = Inr cp"
      "sign demo_deps cp ''k'' = Inr rc" "rc_checkpoint rc = cp\<lparr>cp_signer := sg\<rparr>" "validate (cp\<lparr>cp_signer := sg\<rparr>) = Inr ()"
    using receipt_of_chain [OF hex_laws_demo sign_laws_demo demo_chain, of None "from_epoch_ms 0" "''k''"] by (metis list.distinct(1) option.distinct(1))
  with check_checkpoint_appends [OF hex_laws_demo, of "from_epoch_ms 0" "[demo_record]" None cp sg "[]"] demo_chain that
  show ?thesis by simp
qed

theorem receipt_lifecycle_witness:
  "\<exists>cp rc. build_checkpoint demo_deps (from_epoch_ms 0) (map Inr [demo_record]) None = Inr cp \<and>
     sign demo_deps cp ''k'' = Inr rc \<and>
     check_checkpoint demo_deps (rc_checkpoint rc) (map Inr [demo_record]) =
       Inr \<lparr>st_appended_after = 0, st_broken_after = None, st_leaves = map (leaf demo_deps) [demo_record]\<rparr>"
proof -
  have "length [demo_record] \<le> u64_max" by (simp add: u64_max_def)
  with receipt_lifecycle [OF hex_laws_demo sign_laws_demo demo_chain, of None "from_epoch_ms 0" "''k''"] demo_chain
  show ?thesis by (auto simp: from_epoch_ms_def dest: spec [of _ "[]"])
qed

theorem checkpoint_detects_rewrites_witness:
  "\<exists>cp rc st. build_checkpoint demo_deps (from_epoch_ms 0) (map Inr [demo_record]) None = Inr cp \<and>
     sign demo_deps cp ''k'' = Inr rc \<and>
     check_checkpoint demo_deps (rc_checkpoint rc) (map Inr [demo_record]) = Inr st \<and>
     take (length [demo_record]) (map Inr [demo_record]) = (map Inr [demo_record] :: record_item list)"
proof -
  obtain cp rc st where r: "build_checkpoint demo_deps (from_epoch_ms 0) (map Inr [demo_record]) None = Inr cp"
      "sign demo_deps cp ''k'' = Inr rc" "check_checkpoint demo_deps (rc_checkpoint rc) (map Inr [demo_record]) = Inr st"
    using demo_receipt by metis
  have "hash_distinguishes (rledger demo_deps) (set [demo_record] \<union> {r. Inr r \<in> set (map Inr [demo_record] :: record_item list)})"
    using demo_distinguishes by simp
  from checkpoint_detects_rewrites [OF hex_laws_demo r this] r show ?thesis by blast
qed

lemma demo_proof:
  assumes "check_checkpoint demo_deps (rc_checkpoint rc) (map Inr [demo_record]) =
      Inr \<lparr>st_appended_after = 0, st_broken_after = None, st_leaves = map (leaf demo_deps) [demo_record]\<rparr>"
  shows "prove demo_deps rc (map Inr [demo_record]) (call_id demo_record) =
    Inr \<lparr>ip_format = PROOF_FORMAT, ip_call_id = call_id demo_record, ip_receipt = rc,
         ip_entries = [\<lparr>pe_record = demo_record, pe_leaf_index = 0, pe_tree_size = cp_records (rc_checkpoint rc), pe_audit_path = []\<rparr>]\<rparr>"
  using assms demo_extends build_path_simps(1)
  by (simp add: prove_def matching_records_def List.map_filter_simps prove_entry_def inclusion_path_def extends_def)

theorem proofs_verify_witness:
  "\<exists>rc ip. prove demo_deps rc (map Inr [demo_record]) (call_id demo_record) = Inr ip \<and> verify_entries demo_deps ip = Inr ()"
proof -
  obtain rc ip where "prove demo_deps rc (map Inr [demo_record]) (call_id demo_record) = Inr ip"
    using demo_receipt demo_proof by metis
  with proofs_verify [OF hex_laws_demo this] show ?thesis by blast
qed

theorem proof_entries_sound_witness:
  "\<exists>ip. verify_entries demo_deps ip = Inr () \<and> ip_entries ip \<noteq> [] \<and>
     (\<forall>e \<in> set (ip_entries ip). pe_record e = [demo_record] ! pe_leaf_index e)"
proof -
  let ?e = "\<lambda>rc. \<lparr>pe_record = demo_record, pe_leaf_index = 0, pe_tree_size = cp_records (rc_checkpoint rc), pe_audit_path = []\<rparr>"
  let ?ip = "\<lambda>rc. \<lparr>ip_format = PROOF_FORMAT, ip_call_id = call_id demo_record, ip_receipt = rc, ip_entries = [?e rc]\<rparr>"
  obtain cp rc where r: "build_checkpoint demo_deps (from_epoch_ms 0) (map Inr [demo_record]) None = Inr cp"
      "sign demo_deps cp ''k'' = Inr (ip_receipt (?ip rc))"
      "prove demo_deps rc (map Inr [demo_record]) (call_id demo_record) = Inr (?ip rc)"
    using demo_receipt demo_proof by (metis inclusion_proof.select_convs(3))
  have v: "verify_entries demo_deps (?ip rc) = Inr ()" using prove_verifies [OF hex_laws_demo r(3)] by blast
  have "inj_on (rhash demo_deps) (entry_inputs demo_deps [demo_record] (?e rc))"
    by (auto simp: entry_inputs_def build_path_simps(1) inj_on_def)
  with proof_entries_sound [OF hex_laws_demo r(1,2) v] v demo_distinguishes show ?thesis by (intro exI [of _ "?ip rc"]) simp
qed

end
