(* ===== verification/File_Anchor.thy ===== *)
theory File_Anchor
  imports Receipt_Checks
begin

text \<open>
  \<open>writ-receipts/src/file_anchor.rs\<close>: one JSON line per receipt in an anchor log.  \<open>serde_json\<close> on
  \<open>AnchorLine\<close> is a parameter; a log is its text.  A failing write is given as the error and the
  number of bytes that reached the file before it.
\<close>

section \<open>Operations\<close>

record anchor_line =
  al_format :: str
  al_anchored_at :: str
  al_ledger_id :: str
  al_records :: nat
  al_tip_hash :: str
  al_merkle_root :: str
  al_signer :: str
  al_checkpoint_sha512 :: str
  al_signature :: str

record anchor_deps =
  areceipt :: receipt_deps
  ser_anchor :: "anchor_line \<Rightarrow> str + str"
  parse_anchor :: "str \<Rightarrow> str + anchor_line"

definition ANCHOR_LINE_FORMAT :: str where
  "ANCHOR_LINE_FORMAT = ''writ.anchor-line/v1''"

definition line_for :: "anchor_deps \<Rightarrow> receipt \<Rightarrow> str \<Rightarrow> receipt_error + anchor_line" where
  "line_for A rc anchored_at =
     (let cp = rc_checkpoint rc; D = areceipt A
      in rbind (canonical_bytes D cp) (\<lambda>bytes.
           Inr \<lparr>al_format = ANCHOR_LINE_FORMAT, al_anchored_at = anchored_at, al_ledger_id = cp_ledger_id cp,
                al_records = cp_records cp, al_tip_hash = cp_tip_hash cp, al_merkle_root = cp_merkle_root cp,
                al_signer = cp_signer cp, al_checkpoint_sha512 = rhex D (sha512 D bytes),
                al_signature = sig_value (rc_signature rc)\<rparr>))"

definition line_sha256 :: "anchor_deps \<Rightarrow> str \<Rightarrow> str" where
  "line_sha256 A l = rhex (areceipt A) (rhash (areceipt A) l)"

text \<open>The log is \<open>None\<close> while there is no file; \<open>io\<close> is a write that fails after some bytes.\<close>

definition append_anchor ::
  "anchor_deps \<Rightarrow> timestamp \<Rightarrow> receipt \<Rightarrow> str \<Rightarrow> (str \<times> nat) option \<Rightarrow> str option \<Rightarrow>
   str option \<times> (receipt_error + file_anchor)" where
  "append_anchor A now rc path io log =
     (let anchored_at = to_rfc3339 now
      in case rbind (line_for A rc anchored_at) (\<lambda>l. map_err JsonError (ser_anchor A l)) of
           Inl e \<Rightarrow> (log, Inl e)
         | Inr line \<Rightarrow>
             (let old = (case log of None \<Rightarrow> [] | Some t \<Rightarrow> t)
              in case io of
                   Some (e, n) \<Rightarrow> (Some (old @ take n (line @ [nl])), Inl (IoError e))
                 | None \<Rightarrow> (Some (old @ line @ [nl]),
                     Inr \<lparr>fa_path = path, fa_line_sha256 = line_sha256 A line, fa_anchored_at = anchored_at\<rparr>)))"

definition verify_anchor :: "anchor_deps \<Rightarrow> file_anchor \<Rightarrow> receipt \<Rightarrow> str + str \<Rightarrow> receipt_error + unit" where
  "verify_anchor A anchor rc log =
     rbind (map_err AnchorMissing log) (\<lambda>text.
     rbind (ok_or (find (\<lambda>l. line_sha256 A l = fa_line_sha256 anchor) (str_lines text))
              (AnchorMissing (fa_line_sha256 anchor))) (\<lambda>line.
     rbind (map_err AnchorParse (parse_anchor A line)) (\<lambda>parsed.
     rbind (line_for A rc (al_anchored_at parsed)) (\<lambda>expect.
       if parsed \<noteq> expect then Inl AnchorMismatch else Inr ()))))"

section \<open>Anchors verify and bind\<close>

text \<open>
  What \<open>serde_json\<close> promises of the line: it parses back, and it is one line (control characters
  are escaped).
\<close>

definition anchor_laws :: "anchor_deps \<Rightarrow> bool" where
  "anchor_laws A \<longleftrightarrow>
     (\<forall>l s. ser_anchor A l = Inr s \<longrightarrow> parse_anchor A s = Inr l \<and> s \<noteq> [] \<and> nl \<notin> set s \<and> CHR 0x0D \<notin> set s)"

lemma split_on_append:
  "split_on P (a @ b) = butlast (split_on P a) @ (last (split_on P a) @ hd (split_on P b)) # tl (split_on P b)"
proof (induction a)
  case (Cons c a)
  show ?case
  proof (cases "P c")
    case False
    obtain w ws where "split_on P a = w # ws" by (meson neq_Nil_conv split_on_not_Nil)
    with Cons False show ?thesis by (cases ws) auto
  qed (use Cons in simp)
qed simp

lemma str_lines_append_nl:
  assumes "t = [] \<or> last t = nl"
  shows "str_lines (t @ u) = str_lines t @ str_lines u"
proof -
  have "last (split_on (\<lambda>c. c = nl) t) = []"
    using assms
  proof
    assume "last t = nl"
    show ?thesis
    proof (cases t rule: rev_cases)
      case (snoc a c)
      with \<open>last t = nl\<close> show ?thesis by (simp add: split_on_append)
    qed simp
  qed simp
  moreover obtain w ws where "split_on (\<lambda>c. c = nl) u = w # ws" by (meson neq_Nil_conv split_on_not_Nil)
  ultimately show ?thesis by (auto simp: str_lines_def Let_def split_on_append butlast_append)
qed

lemma str_lines_line:
  assumes "nl \<notin> set l" and "CHR 0x0D \<notin> set l"
  shows "str_lines (l @ nl # u) = l # str_lines u"
proof -
  have "split_on (\<lambda>c. c = nl) (l @ nl # u) = l # split_on (\<lambda>c. c = nl) u"
    using assms(1) by (intro split_on_append_sep) auto
  moreover have "strip_cr l = l" using assms(2) last_in_set [of l] by (cases "l = []") (auto simp: strip_cr_def simp del: last_in_set)
  ultimately show ?thesis by (simp add: str_lines_def Let_def)
qed

lemma line_forD:
  assumes "line_for A rc t = Inr l"
  obtains b where "canonical_bytes (areceipt A) (rc_checkpoint rc) = Inr b" "al_anchored_at l = t"
    "al_checkpoint_sha512 l = rhex (areceipt A) (sha512 (areceipt A) b)" "al_signature l = sig_value (rc_signature rc)"
  using assms by (auto simp: line_for_def Let_def result_simps)

lemma append_anchorD:
  assumes "append_anchor A now rc path None log = (Some log', Inr anchor)"
  obtains l line where "line_for A rc (to_rfc3339 now) = Inr l" "ser_anchor A l = Inr line"
    "log' = (case log of None \<Rightarrow> [] | Some t \<Rightarrow> t) @ line @ [nl]" "fa_line_sha256 anchor = line_sha256 A line"
proof (cases "rbind (line_for A rc (to_rfc3339 now)) (\<lambda>l. map_err JsonError (ser_anchor A l))")
  case (Inr line)
  with assms that show ?thesis by (auto simp: append_anchor_def Let_def result_simps)
qed (use assms in \<open>simp add: append_anchor_def Let_def\<close>)

lemma anchor_verifies:
  assumes "anchor_laws A" and "append_anchor A now rc path None log = (Some log', Inr anchor)"
    and "case log of None \<Rightarrow> True | Some t \<Rightarrow> t = [] \<or> last t = nl"
    and "inj_on (line_sha256 A) (set (str_lines (log' @ later)))"
  shows "verify_anchor A anchor rc (Inr (log' @ later)) = Inr ()"
proof -
  define old where "old = (case log of None \<Rightarrow> [] | Some t \<Rightarrow> t)"
  obtain l line where l: "line_for A rc (to_rfc3339 now) = Inr l" "ser_anchor A l = Inr line"
      "log' = old @ line @ [nl]" "fa_line_sha256 anchor = line_sha256 A line"
    using append_anchorD [OF assms(2)] unfolding old_def by metis
  have p: "parse_anchor A line = Inr l" "nl \<notin> set line" "CHR 0x0D \<notin> set line"
    using assms(1) l(2) by (simp_all add: anchor_laws_def)
  have "old = [] \<or> last old = nl" using assms(3) by (auto simp: old_def split: option.splits)
  then have "str_lines (log' @ later) = str_lines old @ line # str_lines later"
    using str_lines_append_nl [of old "line @ nl # later"] str_lines_line [OF p(2,3)] l(3) by simp
  then have "line \<in> set (str_lines (log' @ later))" by simp
  then have "find (\<lambda>k. line_sha256 A k = fa_line_sha256 anchor) (str_lines (log' @ later)) = Some line"
    using assms(4) l(4) by (intro find_unique) (auto dest: inj_onD)
  moreover have "al_anchored_at l = to_rfc3339 now" using l(1) by (rule line_forD)
  ultimately show ?thesis using p(1) l(1) by (simp add: verify_anchor_def)
qed

text \<open>
  An anchored receipt verifies against the log it was appended to, also after more text has been
  appended, provided the log was empty or ended in a line end before and SHA-256 does not confuse
  the anchor line with another line of the log.
\<close>

theorem anchored_receipt_verifies:
  assumes "anchor_laws A" and "append_anchor A now rc path None log = (Some log', Inr anchor)"
    and "case log of None \<Rightarrow> True | Some t \<Rightarrow> t = [] \<or> last t = nl"
    and "inj_on (line_sha256 A) (set (str_lines (log' @ later)))"
  shows "verify_anchor A anchor rc (Inr (log' @ later)) = Inr ()"
  using assms by (rule anchor_verifies)

lemma verify_anchorD:
  assumes "verify_anchor A anchor rc log = Inr ()"
  shows "\<exists>tx line l. log = Inr tx \<and> find (\<lambda>k. line_sha256 A k = fa_line_sha256 anchor) (str_lines tx) = Some line \<and>
    parse_anchor A line = Inr l \<and> line_for A rc (al_anchored_at l) = Inr l"
proof -
  obtain tx line l l' where "log = Inr tx" "find (\<lambda>k. line_sha256 A k = fa_line_sha256 anchor) (str_lines tx) = Some line"
      "parse_anchor A line = Inr l" "line_for A rc (al_anchored_at l) = Inr l'" "\<not> l \<noteq> l'"
    using assms unfolding verify_anchor_def rbind_eq_Inr map_err_eq_Inr ok_or_eq_Inr by (metis Inl_Inr_False)
  then show ?thesis by simp
qed

text \<open>
  An anchor binds one receipt: if the same anchor verifies for two receipts against the same
  log, and SHA-512 and the hexadecimal encoding tell their canonical bytes apart, then the two
  receipts have the same checkpoint and the same signature value.
\<close>

theorem anchor_binds_receipt:
  assumes "hex_laws (areceipt A)" and "verify_anchor A anchor rc log = Inr ()" and "verify_anchor A anchor rc' log = Inr ()"
    and "inj_on (sha512 (areceipt A)) {b. canonical_bytes (areceipt A) (rc_checkpoint rc) = Inr b \<or>
           canonical_bytes (areceipt A) (rc_checkpoint rc') = Inr b}"
  shows "rc_checkpoint rc = rc_checkpoint rc' \<and> sig_value (rc_signature rc) = sig_value (rc_signature rc')"
proof -
  let ?D = "areceipt A"
  obtain tx line l where l: "log = Inr tx" "find (\<lambda>k. line_sha256 A k = fa_line_sha256 anchor) (str_lines tx) = Some line"
      "parse_anchor A line = Inr l" "line_for A rc (al_anchored_at l) = Inr l"
    using verify_anchorD [OF assms(2)] by blast
  then have l': "line_for A rc' (al_anchored_at l) = Inr l" using verify_anchorD [OF assms(3)] by simp
  from l(4) obtain b where b: "canonical_bytes ?D (rc_checkpoint rc) = Inr b"
      "al_checkpoint_sha512 l = rhex ?D (sha512 ?D b)" "al_signature l = sig_value (rc_signature rc)" by (rule line_forD)
  from l' obtain b' where b': "canonical_bytes ?D (rc_checkpoint rc') = Inr b'"
      "al_checkpoint_sha512 l = rhex ?D (sha512 ?D b')" "al_signature l = sig_value (rc_signature rc')" by (rule line_forD)
  have "sha512 ?D b = sha512 ?D b'" 
    using b(2) b'(2) hex_lawsD(4) [OF assms(1), of "sha512 ?D b"] hex_lawsD(4) [OF assms(1), of "sha512 ?D b'"] by simp
  then have "b = b'" by (rule inj_onD [OF assms(4)]) (use b(1) b'(1) in simp_all)
  then have "rc_checkpoint rc = rc_checkpoint rc'"
    using b(1) b'(1) canonical_bytes_inject [OF assms(1)] by blast
  with b(3) b'(3) show ?thesis by simp
qed

section \<open>A concrete anchor\<close>

instance anchor_line_ext :: (countable) countable
  by (rule countable_classI [of "\<lambda>t. to_nat (al_format t, al_anchored_at t, al_ledger_id t, al_records t, al_tip_hash t,
    al_merkle_root t, al_signer t, al_checkpoint_sha512 t, al_signature t, anchor_line.more t)"]) simp

definition demo_anchor_deps :: anchor_deps where
  "demo_anchor_deps =
     \<lparr>areceipt = demo_deps, ser_anchor = (\<lambda>l. Inr (braced (to_nat l))),
      parse_anchor = (\<lambda>s. if \<exists>n. s = braced n then Inr (from_nat (THE n. s = braced n)) else Inl ''EOF'')\<rparr>"

definition demo_signed :: receipt where
  "demo_signed = \<lparr>rc_format = RECEIPT_FORMAT, rc_checkpoint = demo_checkpoint,
     rc_signature = \<lparr>sig_alg = SIGNATURE_ALG, sig_public_key = ''k'', sig_value = ''s''\<rparr>, rc_anchors = []\<rparr>"

lemma anchor_laws_demo: "anchor_laws demo_anchor_deps"
proof -
  have "\<not> is_ascii_digit (CHR 0x0D)" "\<not> is_ascii_digit nl" by (simp_all add: is_ascii_digit_def code_def)
  then have "CHR 0x0D \<notin> set (show_nat n) \<and> nl \<notin> set (show_nat n)" for n
    using show_nat_chars by blast
  then show ?thesis by (simp add: anchor_laws_def demo_anchor_deps_def) (simp add: braced_def)
qed

lemma demo_append:
  obtains log' anchor where "append_anchor demo_anchor_deps (from_epoch_ms 0) demo_signed ''a.log'' None None = (Some log', Inr anchor)"
    "inj_on (line_sha256 demo_anchor_deps) (set (str_lines (log' @ [])))"
proof -
  obtain b where b: "canonical_bytes demo_deps demo_checkpoint = Inr b"
    using demo_checkpoint_valid by (simp add: canonical_bytes_def)
  then obtain l where l: "line_for demo_anchor_deps demo_signed (to_rfc3339 (from_epoch_ms 0)) = Inr l"
    by (simp add: line_for_def demo_signed_def demo_anchor_deps_def Let_def)
  then obtain s where s: "ser_anchor demo_anchor_deps l = Inr s" by (simp add: demo_anchor_deps_def)
  have "str_lines (s @ [nl]) = [s]"
    using anchor_laws_demo s str_lines_line [of s "[]"] by (simp add: anchor_laws_def) (simp add: str_lines_def)
  with l s that show ?thesis by (simp add: append_anchor_def)
qed

theorem anchored_receipt_verifies_witness:
  "\<exists>log' anchor. append_anchor demo_anchor_deps (from_epoch_ms 0) demo_signed ''a.log'' None None = (Some log', Inr anchor) \<and>
     verify_anchor demo_anchor_deps anchor demo_signed (Inr log') = Inr ()"
proof -
  obtain log' anchor where a: "append_anchor demo_anchor_deps (from_epoch_ms 0) demo_signed ''a.log'' None None = (Some log', Inr anchor)"
      "inj_on (line_sha256 demo_anchor_deps) (set (str_lines (log' @ [])))"
    by (rule demo_append)
  with anchored_receipt_verifies [OF anchor_laws_demo a(1) _ a(2)] show ?thesis by auto
qed

theorem anchor_binds_receipt_witness:
  "\<exists>log anchor. verify_anchor demo_anchor_deps anchor demo_signed log = Inr () \<and>
     (\<forall>sg. rc_checkpoint demo_signed = rc_checkpoint (demo_signed\<lparr>rc_signature := sg\<rparr>) \<and>
        (verify_anchor demo_anchor_deps anchor (demo_signed\<lparr>rc_signature := sg\<rparr>) log = Inr () \<longrightarrow>
           sig_value (rc_signature demo_signed) = sig_value sg))"
proof -
  obtain log' anchor where a: "append_anchor demo_anchor_deps (from_epoch_ms 0) demo_signed ''a.log'' None None = (Some log', Inr anchor)"
      "inj_on (line_sha256 demo_anchor_deps) (set (str_lines (log' @ [])))"
    by (rule demo_append)
  have v: "verify_anchor demo_anchor_deps anchor demo_signed (Inr (log' @ [])) = Inr ()"
    using anchor_verifies [OF anchor_laws_demo a(1) _ a(2)] by simp
  have h: "hex_laws (areceipt demo_anchor_deps)" using hex_laws_demo by (simp add: demo_anchor_deps_def)
  have "verify_anchor demo_anchor_deps anchor (demo_signed\<lparr>rc_signature := sg\<rparr>) (Inr (log' @ [])) = Inr () \<Longrightarrow>
      sig_value (rc_signature demo_signed) = sig_value sg" for sg
    using anchor_binds_receipt [OF h v] by (auto simp: inj_on_def)
  with v show ?thesis by auto
qed

end
