(* ===== verification/Pipeline.thy ===== *)
theory Pipeline
  imports Serde_Example
begin

text \<open>
  \<open>writ-core/src/pipeline.rs\<close>: intercept, decide, ask an approver, record.  The policy engine, the
  ledger store and the approver are trait objects in the source and arguments here; what is shown
  of the ledger is proved once from the store contract and read off for the file store.
\<close>

section \<open>Operations\<close>

record decision_outcome =
  do_verdict :: verdict
  do_approval :: "approval_outcome option"
  do_edited_args :: "json option"
  do_record :: ledger_record

definition should_dispatch :: "decision_outcome \<Rightarrow> bool" where
  "should_dispatch d = (case do_verdict d of Allow _ \<Rightarrow> True | Redact _ _ \<Rightarrow> True | _ \<Rightarrow> False)"

definition resolve_approval :: "ask_view \<Rightarrow> approval_outcome \<Rightarrow> verdict" where
  "resolve_approval ask out =
     (case out_decision out of
        DenyOnce \<Rightarrow> Deny (ask_rule_id ask) (''denied by approver '' @ apr_id (out_approver out)) None
      | _ \<Rightarrow> Allow (Some (ask_rule_id ask)))"

definition edited_args_of :: "approval_outcome option \<Rightarrow> json option" where
  "edited_args_of a =
     (case a of Some out \<Rightarrow> (case out_decision out of EditArgs v \<Rightarrow> Some v | _ \<Rightarrow> None) | None \<Rightarrow> None)"

text \<open>The verdict after the approval step, and the approval.\<close>

definition decide ::
  "(tool_call_context \<Rightarrow> verdict) \<Rightarrow> approver \<Rightarrow> tool_call \<Rightarrow> writ_error + verdict \<times> approval_outcome option" where
  "decide policy apr call =
     (let v = policy (from_call call)
      in case ask_from_verdict v of
           None \<Rightarrow> Inr (v, None)
         | Some ask \<Rightarrow> rbind (apr call ask) (\<lambda>out. Inr (resolve_approval ask out, Some out)))"

definition handle_call ::
  "ledger_deps \<Rightarrow> 's store_ops \<Rightarrow> timestamp \<Rightarrow> (tool_call_context \<Rightarrow> verdict) \<Rightarrow> approver \<Rightarrow> tool_call \<Rightarrow>
   's \<Rightarrow> 's \<times> (writ_error + decision_outcome)" where
  "handle_call L S now policy apr call s =
     (case decide policy apr call of
        Inl e \<Rightarrow> (s, Inl e)
      | Inr (v, approval) \<Rightarrow>
          sbind (record_decision L S now call (policy (from_call call)) (map_option out_approver approval) s)
            (\<lambda>rec s. (s, Inr \<lparr>do_verdict = v, do_approval = approval,
                              do_edited_args = edited_args_of approval, do_record = rec\<rparr>)))"

definition record_execution ::
  "ledger_deps \<Rightarrow> 's store_ops \<Rightarrow> timestamp \<Rightarrow> ledger_record \<Rightarrow> str \<Rightarrow> int \<Rightarrow> bytes \<Rightarrow>
   's \<Rightarrow> 's \<times> (writ_error + ledger_record)" where
  "record_execution L S now d bk status output s =
     (if rkind d \<noteq> Decision then (s, Inl (LedgerErr ''execution must link a decision''))
      else writer_record_execution L S now d bk status output s)"

section \<open>Verdicts and dispatch\<close>

fun is_ask :: "verdict \<Rightarrow> bool" where
  "is_ask (Ask _ _ _ _ _) = True"
| "is_ask _ = False"

lemma ask_from_verdict_None [simp]: "ask_from_verdict v = None \<longleftrightarrow> \<not> is_ask v"
  by (cases v) auto

lemma ask_from_verdict_Some: "ask_from_verdict v = Some a \<Longrightarrow> is_ask v \<and> verdict_rule_id v = Some (ask_rule_id a)"
  by (cases v) auto

text \<open>When a call may run: the engine allowed or redacted it, or asked and the approver did not deny.\<close>

definition may_run :: "verdict \<Rightarrow> approval_outcome option \<Rightarrow> bool" where
  "may_run v approval =
     (case v of Allow _ \<Rightarrow> True | Redact _ _ \<Rightarrow> True | Deny _ _ _ \<Rightarrow> False
      | Ask _ _ _ _ _ \<Rightarrow> (case approval of None \<Rightarrow> False | Some out \<Rightarrow> out_decision out \<noteq> DenyOnce))"

lemma may_run_direct:
  "\<not> is_ask v \<Longrightarrow> (case v of Allow _ \<Rightarrow> True | Redact _ _ \<Rightarrow> True | _ \<Rightarrow> False) = may_run v None"
  by (cases v) (simp_all add: may_run_def)

lemma may_run_ask: "is_ask v \<Longrightarrow> may_run v (Some out) \<longleftrightarrow> out_decision out \<noteq> DenyOnce"
  by (cases v) (simp_all add: may_run_def)

lemma decide_Inr:
  assumes "decide policy apr call = Inr (v, approval)"
  shows "(approval \<noteq> None \<longleftrightarrow> is_ask (policy (from_call call))) \<and>
    (\<forall>ask. ask_from_verdict (policy (from_call call)) = Some ask \<longrightarrow> (\<exists>out. apr call ask = Inr out \<and> approval = Some out)) \<and>
    ((case v of Allow _ \<Rightarrow> True | Redact _ _ \<Rightarrow> True | _ \<Rightarrow> False) \<longleftrightarrow> may_run (policy (from_call call)) approval) \<and>
    verdict_rule_id v = verdict_rule_id (policy (from_call call))"
proof (cases "ask_from_verdict (policy (from_call call))")
  case None
  with assms have "v = policy (from_call call)" "approval = None" by (auto simp: decide_def)
  with None show ?thesis by (simp add: may_run_direct)
next
  case (Some ask)
  with assms obtain out where o: "apr call ask = Inr out" "v = resolve_approval ask out" "approval = Some out"
    by (auto simp: decide_def result_simps)
  with Some ask_from_verdict_Some [OF Some] show ?thesis
    by (cases "out_decision out") (simp_all add: may_run_ask resolve_approval_def)
qed

text \<open>A session: calls handled one after the other; the outcomes of those that were decided.\<close>

fun handle_all ::
  "ledger_deps \<Rightarrow> 's store_ops \<Rightarrow> (tool_call_context \<Rightarrow> verdict) \<Rightarrow> approver \<Rightarrow> (timestamp \<times> tool_call) list \<Rightarrow>
   's \<Rightarrow> 's \<times> decision_outcome list" where
  "handle_all L S policy apr [] s = (s, [])"
| "handle_all L S policy apr ((now, c) # cs) s =
     (let (s1, r) = handle_call L S now policy apr c s; (s2, ds) = handle_all L S policy apr cs s1
      in (s2, case r of Inr d \<Rightarrow> d # ds | Inl _ \<Rightarrow> ds))"

context ledger_store
begin

lemma handle_call_ok:
  assumes "inv s" and "float_free (tc_args call)" and "handle_call L S now policy apr call s = (s', Inr d)"
  shows "inv s' \<and> chain s' = chain s @ [do_record d] \<and>
    rkind (do_record d) = Decision \<and> rcall (do_record d) = Some call \<and>
    rverdict (do_record d) = Some (policy (from_call call)) \<and>
    rapprover (do_record d) = map_option out_approver (do_approval d) \<and>
    (should_dispatch d \<longleftrightarrow> may_run (policy (from_call call)) (do_approval d)) \<and>
    (do_approval d \<noteq> None \<longleftrightarrow> is_ask (policy (from_call call)))"
proof -
  obtain v a where d: "decide policy apr call = Inr (v, a)"
    using assms(3) by (auto simp: handle_call_def split: sum.splits)
  with assms(3) obtain rec where
    r: "record_decision L S now call (policy (from_call call)) (map_option out_approver a) s = (s', Inr rec)"
    and o: "d = \<lparr>do_verdict = v, do_approval = a, do_edited_args = edited_args_of a, do_record = rec\<rparr>"
    by (auto simp: handle_call_def result_simps)
  from record_decision_ok [OF assms(1,2) r] decide_Inr [OF d] show ?thesis
    by (simp add: o should_dispatch_def)
qed

lemma handle_call_err:
  assumes "inv s" and "handle_call L S now policy apr call s = (s', Inl e)"
  shows "inv s' \<and> chain s' = chain s"
  using assms record_decision_err [OF assms(1)]
  by (auto simp: handle_call_def result_simps split: sum.splits)

lemma handle_all_ok:
  assumes "inv s" and "list_all (\<lambda>(now, c). float_free (tc_args c)) cs"
    and "handle_all L S policy apr cs s = (s', ds)"
  shows "inv s' \<and> chain s' = chain s @ map do_record ds"
  using assms
proof (induction cs arbitrary: s s' ds)
  case (Cons nc cs)
  obtain now c where nc: "nc = (now, c)" by fastforce
  obtain s1 r where 1: "handle_call L S now policy apr c s = (s1, r)" by fastforce
  obtain s2 ds2 where 2: "handle_all L S policy apr cs s1 = (s2, ds2)" by fastforce
  show ?case
  proof (cases r)
    case (Inl e)
    with handle_call_err [OF Cons.prems(1)] 1 have "inv s1 \<and> chain s1 = chain s" by blast
    with Cons.IH [OF _ _ 2] Cons.prems Inl 1 2 nc show ?thesis by simp
  next
    case (Inr d)
    have "float_free (tc_args c)" using Cons.prems(2) nc by simp
    from handle_call_ok [OF Cons.prems(1) this, of now policy apr s1 d] 1 Inr
    have "inv s1 \<and> chain s1 = chain s @ [do_record d]" by simp
    with Cons.IH [OF _ _ 2] Cons.prems Inr 1 2 nc show ?thesis by auto
  qed
qed simp

lemma handle_call_returns:
  assumes "inv s" and "ready s" and "length (chain s) < 2 ^ 64" and "hash_call L call = Inr ih"
    and "\<And>p. \<exists>b. ser_payload L p = Inr b" and "\<And>r. exact_record r \<Longrightarrow> \<exists>b. ser_record L r = Inr b"
    and "float_free (tc_args call)" and "\<And>ask. \<exists>out. apr call ask = Inr out"
  shows "\<exists>s' d. handle_call L S now policy apr call s = (s', Inr d)"
proof -
  have "\<exists>v a. decide policy apr call = Inr (v, a)"
  proof (cases "ask_from_verdict (policy (from_call call))")
    case (Some ask)
    obtain out where "apr call ask = Inr out" using assms(8) by blast
    with Some show ?thesis by (simp add: decide_def)
  qed (simp add: decide_def Let_def del: ask_from_verdict_None)
  then obtain v a where d: "decide policy apr call = Inr (v, a)" by blast
  obtain s' rec where "record_decision L S now call (policy (from_call call)) (map_option out_approver a) s = (s', Inr rec)"
    using record_decision_ready [OF assms(1-7)] by blast
  with d show ?thesis by (simp add: handle_call_def)
qed

end

section \<open>The pipeline on the file ledger\<close>

text \<open>
  One decision record per decided call: after a session on the file ledger the chain is the
  one before it followed by exactly the decision records of the calls that were decided, in order;
  a call that ended in an error added nothing.
\<close>

theorem session_records_decisions:
  assumes "fs_inv L s" and "list_all (\<lambda>(now, c). float_free (tc_args c)) cs"
    and "handle_all L (fs_ops L) policy apr cs s = (s', ds)"
  shows "fs_inv L s' \<and> fs_chain L s' = fs_chain L s @ map do_record ds"
  using assms by (rule fs.handle_all_ok)

text \<open>
  C21. What one decided call does: its record is durably at the end of the chain, holds the call, the
  engine's own verdict and the identity of the approver that was consulted; an approver is
  consulted exactly for \<open>ask\<close>; and the call may be dispatched only if the engine allowed or
  redacted it, or asked and the approver did not deny.
\<close>

theorem handle_call_decision:
  assumes "fs_inv L s" and "float_free (tc_args call)"
    and "handle_call L (fs_ops L) now policy apr call s = (s', Inr d)"
  shows "fs_inv L s' \<and> fs_chain L s' = fs_chain L s @ [do_record d] \<and>
    rkind (do_record d) = Decision \<and> rcall (do_record d) = Some call \<and>
    rverdict (do_record d) = Some (policy (from_call call)) \<and>
    rapprover (do_record d) = map_option out_approver (do_approval d) \<and>
    (should_dispatch d \<longleftrightarrow> may_run (policy (from_call call)) (do_approval d)) \<and>
    (do_approval d \<noteq> None \<longleftrightarrow> is_ask (policy (from_call call)))"
  using assms by (rule fs.handle_call_ok)

text \<open>
  The pipeline answers: on a file ledger whose lock is free, with an approver that answers and
  a call that can be serialized, every call is decided.
\<close>

theorem handle_call_returns_decision:
  assumes "fs_inv L s" and "fs_ready s" and "length (fs_chain L s) < 2 ^ 64" and "hash_call L call = Inr ih"
    and "\<And>p. \<exists>b. ser_payload L p = Inr b" and "\<And>r. exact_record r \<Longrightarrow> \<exists>b. ser_record L r = Inr b"
    and "float_free (tc_args call)" and "\<And>ask. \<exists>out. apr call ask = Inr out"
  shows "\<exists>s' d. handle_call L (fs_ops L) now policy apr call s = (s', Inr d)"
  using assms by (rule fs.handle_call_returns)

text \<open>
  Failing closed: with the approver that is used when nobody can be asked, a call is dispatched
  only if the engine allowed or redacted it; no \<open>ask\<close> goes through, on any store.
\<close>

theorem fail_closed_never_dispatches_ask:
  assumes "handle_call L S now policy fail_closed_approver call s = (s', Inr d)"
  shows "should_dispatch d \<longleftrightarrow>
    (case policy (from_call call) of Allow _ \<Rightarrow> True | Redact _ _ \<Rightarrow> True | _ \<Rightarrow> False)"
proof -
  obtain v a where d: "decide policy fail_closed_approver call = Inr (v, a)" and "do_verdict d = v"
    using assms by (auto simp: handle_call_def result_simps split: sum.splits)
  moreover have "out_decision out = DenyOnce" if "fail_closed_approver call ask = Inr out" for ask out
    using that by (auto simp: fail_closed_approver_def)
  ultimately show ?thesis
    using decide_Inr [OF d] by (cases "policy (from_call call)") (auto simp: should_dispatch_def may_run_def)
qed

text \<open>
  The ledger does not say how an approver decided: if two approvers with the same identity
  differ only in that one allows and the other denies, the ledger states after the call and the
  decision records are the same, although one call is dispatched and the other is not.
\<close>

theorem denied_and_approved_asks_look_alike:
  assumes "policy (from_call call) = Ask rid diff tmo irr loc"
    and "\<And>ask. yes call ask = Inr \<lparr>out_decision = AllowOnce, out_approver = who, out_waited_ms = w\<rparr>"
    and "\<And>ask. no call ask = Inr \<lparr>out_decision = DenyOnce, out_approver = who, out_waited_ms = w\<rparr>"
    and "handle_call L S now policy yes call s = (s1, Inr d1)"
    and "handle_call L S now policy no call s = (s2, Inr d2)"
  shows "s1 = s2 \<and> do_record d1 = do_record d2 \<and> should_dispatch d1 \<and> \<not> should_dispatch d2"
  using assms(1,4,5)
  by (auto simp: handle_call_def decide_def assms(2,3) resolve_approval_def should_dispatch_def result_simps)

section \<open>A concrete session\<close>

definition ask_policy :: "tool_call_context \<Rightarrow> verdict" where
  "ask_policy ctx = (if ctx_tool ctx = ''shell'' then Ask ''r'' ''why'' None False None else Allow (Some ''d''))"

definition fixed_approver :: "approval_decision \<Rightarrow> approver" where
  "fixed_approver d call ask =
     Inr \<lparr>out_decision = d, out_approver = \<lparr>apr_kind = Tui, apr_id = ''ann''\<rparr>, out_waited_ms = 3\<rparr>"

lemma example_call_asks: "ask_policy (from_call example_call) = Ask ''r'' ''why'' None False None"
  by (simp add: ask_policy_def from_call_def example_call_def)

lemma example_call_exact: "float_free (tc_args example_call)"
  by (simp add: example_call_def)

lemma num_deps_total:
  "\<exists>b. ser_payload num_deps p = Inr b" "\<exists>b. ser_record num_deps r = Inr b"
  "hash_call num_deps c = Inr (braced (to_nat c))"
  by (simp_all add: num_deps_def hash_call_def hash_bytes_def)

lemma example_session:
  "\<exists>s' d. handle_call num_deps (fs_ops num_deps) now ask_policy (fixed_approver dec) example_call empty_store = (s', Inr d)"
  by (rule fs.handle_call_returns [OF empty_store_inv [OF serde_laws_num_deps]])
     (simp_all add: num_deps_total example_call_exact fixed_approver_def)

theorem handle_call_returns_decision_witness:
  "\<exists>s' d. handle_call num_deps (fs_ops num_deps) (from_epoch_ms 0) ask_policy (fixed_approver AllowOnce) example_call empty_store
     = (s', Inr d)"
  by (rule handle_call_returns_decision [OF empty_store_inv [OF serde_laws_num_deps]])
     (simp_all add: num_deps_total example_call_exact fixed_approver_def)

theorem session_records_decisions_witness:
  "\<exists>s' ds. handle_all num_deps (fs_ops num_deps) ask_policy (fixed_approver DenyOnce) [(from_epoch_ms 0, example_call)] empty_store = (s', ds)
     \<and> fs_inv num_deps s' \<and> fs_chain num_deps s' = map do_record ds"
proof -
  obtain s' ds where h: "handle_all num_deps (fs_ops num_deps) ask_policy (fixed_approver DenyOnce)
      [(from_epoch_ms 0, example_call)] empty_store = (s', ds)" by fastforce
  with session_records_decisions [OF empty_store_inv [OF serde_laws_num_deps] _ h] example_call_exact
  show ?thesis by auto
qed

theorem handle_call_decision_witness:
  "\<exists>s' d. fs_inv num_deps s' \<and> fs_chain num_deps s' = [do_record d] \<and> should_dispatch d \<and>
     rapprover (do_record d) = Some \<lparr>apr_kind = Tui, apr_id = ''ann''\<rparr>"
proof -
  obtain s' d where h: "handle_call num_deps (fs_ops num_deps) (from_epoch_ms 0) ask_policy (fixed_approver AllowOnce)
      example_call empty_store = (s', Inr d)" using example_session by blast
  then have "do_approval d = Some \<lparr>out_decision = AllowOnce, out_approver = \<lparr>apr_kind = Tui, apr_id = ''ann''\<rparr>, out_waited_ms = 3\<rparr>"
    by (auto simp: handle_call_def decide_def example_call_asks fixed_approver_def result_simps)
  with handle_call_decision [OF empty_store_inv [OF serde_laws_num_deps] example_call_exact h]
  show ?thesis by (auto simp: example_call_asks may_run_def)
qed

theorem fail_closed_never_dispatches_ask_witness:
  "\<exists>s' d. handle_call num_deps (fs_ops num_deps) (from_epoch_ms 0) ask_policy fail_closed_approver example_call empty_store
     = (s', Inr d) \<and> \<not> should_dispatch d"
proof -
  obtain s' d where h: "handle_call num_deps (fs_ops num_deps) (from_epoch_ms 0) ask_policy fail_closed_approver
      example_call empty_store = (s', Inr d)"
    using fs.handle_call_returns [OF empty_store_inv [OF serde_laws_num_deps], of example_call
        "braced (to_nat example_call)" fail_closed_approver "from_epoch_ms 0" ask_policy]
    by (auto simp: num_deps_total example_call_exact fail_closed_approver_def)
  with fail_closed_never_dispatches_ask [OF h] show ?thesis by (auto simp: example_call_asks)
qed

theorem denied_and_approved_asks_look_alike_witness:
  "\<exists>s1 s2 d1 d2. s1 = s2 \<and> do_record d1 = do_record d2 \<and> should_dispatch d1 \<and> \<not> should_dispatch d2 \<and>
     handle_call num_deps (fs_ops num_deps) (from_epoch_ms 0) ask_policy (fixed_approver AllowOnce) example_call empty_store = (s1, Inr d1)"
proof -
  obtain s1 d1 s2 d2 where
    h: "handle_call num_deps (fs_ops num_deps) (from_epoch_ms 0) ask_policy (fixed_approver AllowOnce) example_call empty_store = (s1, Inr d1)"
       "handle_call num_deps (fs_ops num_deps) (from_epoch_ms 0) ask_policy (fixed_approver DenyOnce) example_call empty_store = (s2, Inr d2)"
    using example_session by metis
  from denied_and_approved_asks_look_alike [OF example_call_asks _ _ h] h(1) show ?thesis
    by (simp add: fixed_approver_def) blast
qed

end
