(* ===== verification/Replay.thy ===== *)
theory Replay
  imports Pipeline Policy_Engine
begin

text \<open>
  \<open>writ-replay/src/lib.rs\<close>: the trajectory of a recorded session, its replay against a candidate
  policy, and guarded branching.  \<open>load_trajectory\<close> takes the items that \<open>store.iter()\<close> yields; the
  error of a candidate policy is kept as the value its text is rendered from.
\<close>

section \<open>Operations\<close>

record recorded_step =
  rs_decision :: ledger_record
  rs_execution :: "ledger_record option"

text \<open>The loop: decisions in order, and the map from decision index to execution.\<close>

fun trajectory_loop ::
  "str \<Rightarrow> ledger_record list \<Rightarrow> (nat \<rightharpoonup> ledger_record) \<Rightarrow> (writ_error + ledger_record) list \<Rightarrow>
   writ_error + ledger_record list \<times> (nat \<rightharpoonup> ledger_record)" where
  "trajectory_loop sid ds es [] = Inr (ds, es)"
| "trajectory_loop sid ds es (item # items) =
     rbind item (\<lambda>r.
       if session_id r \<noteq> sid then trajectory_loop sid ds es items
       else case rkind r of
         Decision \<Rightarrow> trajectory_loop sid (ds @ [r]) es items
       | Execution \<Rightarrow>
           (case decision_index r of
              Some di \<Rightarrow> trajectory_loop sid ds (es(di \<mapsto> r)) items
            | None \<Rightarrow> trajectory_loop sid ds es items))"

definition load_trajectory :: "(writ_error + ledger_record) list \<Rightarrow> str \<Rightarrow> writ_error + recorded_step list" where
  "load_trajectory items sid =
     rbind (trajectory_loop sid [] Map.empty items) (\<lambda>(ds, es).
       Inr (map (\<lambda>d. \<lparr>rs_decision = d, rs_execution = es (index d)\<rparr>) ds))"

fun verdict_label :: "verdict \<Rightarrow> str" where
  "verdict_label (Allow _) = ''allow''"
| "verdict_label (Deny _ _ _) = ''deny''"
| "verdict_label (Ask _ _ _ _ _) = ''ask''"
| "verdict_label (Redact _ _) = ''redact''"

record verdict_change =
  vc_call_id :: str
  vc_tool :: str
  vc_was :: str
  vc_now :: str
  vc_now_rule :: "str option"

record replay_report =
  rp_steps :: nat
  rp_unchanged :: nat
  rp_changes :: "verdict_change list"

definition newly_blocked :: "replay_report \<Rightarrow> nat" where
  "newly_blocked r =
     length (filter (\<lambda>c. vc_was c = ''allow'' \<and> (vc_now c = ''deny'' \<or> vc_now c = ''ask'')) (rp_changes r))"

definition summary :: "replay_report \<Rightarrow> str" where
  "summary r =
     ''policy replay: '' @ show_nat (rp_steps r) @ '' recorded calls '' @ middot @ '' '' @ show_nat (rp_unchanged r) @
     '' unchanged '' @ middot @ '' '' @ show_nat (length (rp_changes r)) @ '' would change '' @ middot @ '' '' @
     show_nat (newly_blocked r) @ '' previously-allowed call(s) would now be blocked''"

fun replay_loop ::
  "(tool_call_context \<Rightarrow> verdict) \<Rightarrow> nat \<Rightarrow> verdict_change list \<Rightarrow> recorded_step list \<Rightarrow> nat \<times> verdict_change list" where
  "replay_loop ev unchanged changes [] = (unchanged, changes)"
| "replay_loop ev unchanged changes (step # steps) =
     (case rcall (rs_decision step) of
        None \<Rightarrow> replay_loop ev unchanged changes steps
      | Some call \<Rightarrow>
          (case rverdict (rs_decision step) of
             None \<Rightarrow> replay_loop ev unchanged changes steps
           | Some was \<Rightarrow>
               (let now = ev (from_call call)
                in if verdict_label was = verdict_label now then replay_loop ev (unchanged + 1) changes steps
                   else replay_loop ev unchanged
                     (changes @ [\<lparr>vc_call_id = tc_call_id call, vc_tool = tc_tool call, vc_was = verdict_label was,
                                  vc_now = verdict_label now, vc_now_rule = verdict_rule_id now\<rparr>]) steps)))"

definition policy_replay :: "policy_deps \<Rightarrow> recorded_step list \<Rightarrow> str \<Rightarrow> policy_error + replay_report" where
  "policy_replay D steps candidate =
     rbind (from_source D candidate) (\<lambda>eng.
       let (unchanged, changes) = replay_loop (evaluate D eng) 0 [] steps
       in Inr \<lparr>rp_steps = length steps, rp_unchanged = unchanged, rp_changes = changes\<rparr>)"

record branch_plan =
  bp_replayable :: "recorded_step list"
  bp_irreversible :: "str list"
  bp_acknowledged :: bool

definition step_irreversible :: "recorded_step \<Rightarrow> bool" where
  "step_irreversible s = (case rverdict (rs_decision s) of Some v \<Rightarrow> is_irreversible v | None \<Rightarrow> False)"

definition branch_from :: "recorded_step list \<Rightarrow> nat \<Rightarrow> bool \<Rightarrow> writ_error + branch_plan" where
  "branch_from steps from ack =
     (let window = filter (\<lambda>s. index (rs_decision s) \<ge> from) steps
      in if window = [] then Inl (LedgerErr (''no recorded step at or after decision index '' @ show_nat from))
         else
           (let irreversible = map (\<lambda>s. call_id (rs_decision s)) (filter step_irreversible window)
            in if irreversible \<noteq> [] \<and> \<not> ack
               then Inl (LedgerErr (''refusing to re-branch: '' @ show_nat (length irreversible) @
                      '' irreversible step(s) in window ['' @ join '', '' irreversible @
                      '']; pass the explicit acknowledgement flag to include them''))
               else Inr \<lparr>bp_replayable = window, bp_irreversible = irreversible, bp_acknowledged = ack\<rparr>))"

section \<open>Trajectories\<close>

text \<open>The execution paired with a decision: the last of the session that links it.\<close>

definition links :: "str \<Rightarrow> nat \<Rightarrow> ledger_record \<Rightarrow> bool" where
  "links sid ix r \<longleftrightarrow> session_id r = sid \<and> rkind r = Execution \<and> decision_index r = Some ix"

definition decisions_of :: "str \<Rightarrow> ledger_record list \<Rightarrow> ledger_record list" where
  "decisions_of sid rs = filter (\<lambda>r. session_id r = sid \<and> rkind r = Decision) rs"

definition execution_for :: "str \<Rightarrow> ledger_record list \<Rightarrow> nat \<Rightarrow> ledger_record option" where
  "execution_for sid rs ix = (case filter (links sid ix) rs of [] \<Rightarrow> None | r # rs' \<Rightarrow> Some (last (r # rs')))"

lemma execution_for_Nil [simp]: "execution_for sid [] = Map.empty"
  by (simp add: execution_for_def fun_eq_iff)

lemma execution_for_snoc:
  "execution_for sid (rs @ [r]) =
     (if session_id r = sid \<and> rkind r = Execution
      then (case decision_index r of Some di \<Rightarrow> (execution_for sid rs)(di \<mapsto> r) | None \<Rightarrow> execution_for sid rs)
      else execution_for sid rs)"
  by (auto simp: execution_for_def links_def fun_eq_iff split: option.splits list.splits)

lemma trajectory_loop_records:
  "trajectory_loop sid (decisions_of sid pre) (execution_for sid pre) (map Inr rs) =
     Inr (decisions_of sid (pre @ rs), execution_for sid (pre @ rs))"
proof (induction rs arbitrary: pre)
  case (Cons r rs)
  have d: "decisions_of sid (pre @ [r]) =
      (if session_id r = sid \<and> rkind r = Decision then decisions_of sid pre @ [r] else decisions_of sid pre)"
    by (simp add: decisions_of_def)
  from Cons [of "pre @ [r]"] show ?case
    by (cases "rkind r") (auto simp: d execution_for_snoc fun_upd_def split: option.splits)
qed simp

lemma trajectory_loop_error:
  "trajectory_loop sid ds es (map Inr rs @ Inl e # items) = Inl e"
  by (induction rs arbitrary: ds es) (auto split: record_kind.splits option.splits)

lemma load_trajectory_records:
  "load_trajectory (map Inr rs) sid =
     Inr (map (\<lambda>d. \<lparr>rs_decision = d, rs_execution = execution_for sid rs (index d)\<rparr>) (decisions_of sid rs))"
  using trajectory_loop_records [of sid "[]" rs] by (simp add: load_trajectory_def decisions_of_def)

section \<open>Replay\<close>

text \<open>What a step says when it can be judged: the recorded verdict and the candidate's.\<close>

definition judged :: "(tool_call_context \<Rightarrow> verdict) \<Rightarrow> recorded_step \<Rightarrow> (tool_call \<times> verdict \<times> verdict) option" where
  "judged ev s =
     (case (rcall (rs_decision s), rverdict (rs_decision s)) of
        (Some c, Some v) \<Rightarrow> Some (c, v, ev (from_call c)) | _ \<Rightarrow> None)"

definition change_of :: "tool_call \<times> verdict \<times> verdict \<Rightarrow> verdict_change" where
  "change_of j = (case j of (c, was, now) \<Rightarrow>
     \<lparr>vc_call_id = tc_call_id c, vc_tool = tc_tool c, vc_was = verdict_label was, vc_now = verdict_label now,
      vc_now_rule = verdict_rule_id now\<rparr>)"

definition differs :: "tool_call \<times> verdict \<times> verdict \<Rightarrow> bool" where
  "differs j = (case j of (c, was, now) \<Rightarrow> verdict_label was \<noteq> verdict_label now)"

lemma replay_loop_spec:
  "replay_loop ev n cs steps =
     (n + length (filter (\<lambda>j. \<not> differs j) (List.map_filter (judged ev) steps)),
      cs @ map change_of (filter differs (List.map_filter (judged ev) steps)))"
  by (induction steps arbitrary: n cs)
     (auto simp: judged_def differs_def change_of_def Let_def List.map_filter_simps split: option.splits)

text \<open>
  The replay report is exact: every recorded call is counted; the steps with a call and a verdict
  are split into those where the candidate gives a verdict of the same kind, which are counted, and
  the others, which are listed in order with both verdicts and the rule that now applies; and the
  number of newly blocked calls is the number of recorded allows that the candidate denies or asks
  about.
\<close>

theorem policy_replay_exact:
  assumes "from_source D candidate = Inr eng"
  shows "\<exists>r. policy_replay D steps candidate = Inr r \<and> rp_steps r = length steps \<and>
    rp_unchanged r + length (rp_changes r) = length (List.map_filter (judged (evaluate D eng)) steps) \<and>
    rp_changes r = map change_of (filter differs (List.map_filter (judged (evaluate D eng)) steps)) \<and>
    newly_blocked r = length (filter (\<lambda>(c, was, now). is_allow was \<and> (is_ask now \<or> (\<exists>rid why loc. now = Deny rid why loc)))
      (List.map_filter (judged (evaluate D eng)) steps))"
proof -
  let ?js = "List.map_filter (judged (evaluate D eng)) steps"
  define r where "r = \<lparr>rp_steps = length steps, rp_unchanged = length (filter (\<lambda>j. \<not> differs j) ?js),
    rp_changes = map change_of (filter differs ?js)\<rparr>"
  have "policy_replay D steps candidate = Inr r"
    using assms by (simp add: policy_replay_def replay_loop_spec r_def)
  moreover have "length (filter (\<lambda>j. \<not> differs j) ?js) + length (filter differs ?js) = length ?js"
    using sum_length_filter_compl [of differs ?js] by simp
  moreover have "(\<lambda>j. (vc_was (change_of j) = ''allow'' \<and> (vc_now (change_of j) = ''deny'' \<or> vc_now (change_of j) = ''ask'')) \<and> differs j) =
      (\<lambda>(c, was, now). is_allow was \<and> (is_ask now \<or> (\<exists>rid why loc. now = Deny rid why loc)))"
  proof
    fix j :: "tool_call \<times> verdict \<times> verdict"
    obtain c was now where j: "j = (c, was, now)" by (cases j)
    show "((vc_was (change_of j) = ''allow'' \<and> (vc_now (change_of j) = ''deny'' \<or> vc_now (change_of j) = ''ask'')) \<and> differs j) =
        (case j of (c, was, now) \<Rightarrow> is_allow was \<and> (is_ask now \<or> (\<exists>rid why loc. now = Deny rid why loc)))"
      unfolding j by (cases was; cases now) (simp_all add: change_of_def differs_def)
  qed
  then have "newly_blocked r = length (filter (\<lambda>(c, was, now). is_allow was \<and> (is_ask now \<or> (\<exists>rid why loc. now = Deny rid why loc))) ?js)"
    by (simp add: newly_blocked_def r_def filter_map o_def conj_commute)
  ultimately show ?thesis by (auto simp: r_def)
qed

section \<open>Replaying under the same policy\<close>

context ledger_store
begin

lemma handle_all_records:
  assumes "inv s" and "list_all (\<lambda>(now, c). float_free (tc_args c)) cs"
    and "handle_all L S policy apr cs s = (s', ds)" and "d \<in> set ds"
  shows "rkind (do_record d) = Decision \<and>
    (\<exists>c. rcall (do_record d) = Some c \<and> rverdict (do_record d) = Some (policy (from_call c)))"
  using assms
proof (induction cs arbitrary: s s' ds)
  case (Cons nc cs)
  obtain now c where nc: "nc = (now, c)" by fastforce
  obtain s1 r where 1: "handle_call L S now policy apr c s = (s1, r)" by fastforce
  obtain s2 ds2 where 2: "handle_all L S policy apr cs s1 = (s2, ds2)" by fastforce
  have f: "float_free (tc_args c)" "list_all (\<lambda>(now, c). float_free (tc_args c)) cs"
    using Cons.prems(2) nc by simp_all
  show ?case
  proof (cases r)
    case (Inl e)
    have "inv s1" using handle_call_err [OF Cons.prems(1)] 1 Inl by blast
    from Cons.IH [OF this f(2) 2] Cons.prems(3,4) Inl 1 2 nc show ?thesis by simp
  next
    case (Inr d1)
    note h = handle_call_ok [OF Cons.prems(1) f(1), of now policy apr s1 d1]
    have i: "inv s1" using h 1 Inr by simp
    have "d = d1 \<or> d \<in> set ds2" using Cons.prems(3,4) Inr 1 2 nc by auto
    then show ?thesis
    proof
      assume "d = d1"
      then show ?thesis using h 1 Inr by simp
    qed (rule Cons.IH [OF i f(2) 2])
  qed
qed simp

end

lemma replay_faithful:
  assumes "\<forall>s \<in> set steps. \<exists>c. rcall (rs_decision s) = Some c \<and> rverdict (rs_decision s) = Some (ev (from_call c))"
  shows "List.map_filter (judged ev) steps =
      map (\<lambda>s. (the (rcall (rs_decision s)), the (rverdict (rs_decision s)), the (rverdict (rs_decision s)))) steps"
  using assms by (induction steps) (auto simp: judged_def List.map_filter_simps)

text \<open>
  C35. Replaying a session against the policy it ran under changes nothing: after any sequence of
  calls on the file ledger, with any approver, the trajectory read back from the file holds exactly
  the decision records of that session, and the replay reports every one of them as unchanged.
\<close>

theorem session_replays_unchanged:
  assumes "fs_inv L s" and "list_all (\<lambda>(now, c). float_free (tc_args c)) cs" and "from_source D src = Inr eng"
    and "handle_all L (fs_ops L) (evaluate D eng) apr cs s = (s', ds)" and "decisions_of sid (fs_chain L s) = []"
  shows "\<exists>steps r. load_trajectory (record_iter L (fs_file s')) sid = Inr steps \<and>
    map rs_decision steps = filter (\<lambda>r. session_id r = sid) (map do_record ds) \<and>
    policy_replay D steps src = Inr r \<and> rp_changes r = [] \<and> rp_unchanged r = length steps"
proof -
  have inv: "fs_inv L s'" and chain: "fs_chain L s' = fs_chain L s @ map do_record ds"
    using fs.handle_all_ok [OF assms(1,2,4)] by auto
  have kinds: "rkind (do_record d) = Decision \<and>
      (\<exists>c. rcall (do_record d) = Some c \<and> rverdict (do_record d) = Some (evaluate D eng (from_call c)))" if "d \<in> set ds" for d
    using fs.handle_all_records [OF assms(1,2,4) that] .
  define steps where "steps = map (\<lambda>d. \<lparr>rs_decision = d, rs_execution = execution_for sid (fs_chain L s') (index d)\<rparr>)
    (decisions_of sid (fs_chain L s'))"
  have load: "load_trajectory (record_iter L (fs_file s')) sid = Inr steps"
    using inv record_iter_file_ok [of L "fs_chain L s'" "fs_file s'"] load_trajectory_records
    by (simp add: fs_inv_def steps_def)
  have ds: "decisions_of sid (fs_chain L s') = filter (\<lambda>r. session_id r = sid) (map do_record ds)"
    unfolding chain decisions_of_def filter_append using assms(5) kinds
    by (simp add: decisions_of_def) (intro filter_cong, auto)
  then have dec: "map rs_decision steps = filter (\<lambda>r. session_id r = sid) (map do_record ds)"
    by (simp add: steps_def o_def)
  have "\<forall>s \<in> set steps. \<exists>c. rcall (rs_decision s) = Some c \<and> rverdict (rs_decision s) = Some (evaluate D eng (from_call c))"
    using kinds by (auto simp: steps_def ds)
  note j = replay_faithful [OF this]
  have "replay_loop (evaluate D eng) 0 [] steps = (length steps, [])"
    by (auto simp: replay_loop_spec j differs_def filter_empty_conv)
  then show ?thesis using load dec assms(3) by (auto simp: policy_replay_def)
qed

section \<open>Branching\<close>

text \<open>
  Branching is guarded: a plan exists exactly if some recorded step is at or after the given
  index and either the irreversible ones were acknowledged or there are none; the plan holds exactly
  the steps from there on and names the irreversible ones; in particular an unacknowledged plan
  replays no irreversible step.
\<close>

theorem branch_from_guarded:
  "branch_from steps from ack = Inr plan \<longleftrightarrow>
     (let window = filter (\<lambda>s. from \<le> index (rs_decision s)) steps
      in window \<noteq> [] \<and> (ack \<or> (\<forall>s \<in> set window. \<not> step_irreversible s)) \<and>
         plan = \<lparr>bp_replayable = window, bp_irreversible = map (\<lambda>s. call_id (rs_decision s)) (filter step_irreversible window),
                 bp_acknowledged = ack\<rparr>)"
  by (auto simp: branch_from_def Let_def filter_empty_conv)

theorem branch_from_guarded_witness:
  "branch_from [\<lparr>rs_decision = toy_record 4 GENESIS_HASH, rs_execution = None\<rparr>] 3 False =
     Inr \<lparr>bp_replayable = [\<lparr>rs_decision = toy_record 4 GENESIS_HASH, rs_execution = None\<rparr>], bp_irreversible = [], bp_acknowledged = False\<rparr>"
  unfolding branch_from_guarded
  by (simp add: step_irreversible_def toy_record_def decision_record_def)

section \<open>A concrete replay\<close>

theorem policy_replay_exact_witness:
  "\<exists>r. policy_replay example_deps [\<lparr>rs_decision = toy_record 0 GENESIS_HASH, rs_execution = None\<rparr>] ''demo'' = Inr r \<and>
     rp_steps r = 1 \<and> rp_unchanged r + length (rp_changes r) = 1"
proof -
  have "List.map_filter (judged ev) [\<lparr>rs_decision = toy_record 0 GENESIS_HASH, rs_execution = None\<rparr>] =
      [(example_call, Allow None, ev (from_call example_call))]" for ev
    by (simp add: judged_def toy_record_def decision_record_def List.map_filter_simps)
  with policy_replay_exact [OF example_engine(1), of "[\<lparr>rs_decision = toy_record 0 GENESIS_HASH, rs_execution = None\<rparr>]"]
  show ?thesis by auto
qed

theorem session_replays_unchanged_witness:
  "\<exists>s' ds steps r.
     handle_all num_deps (fs_ops num_deps) (evaluate example_deps \<lparr>eng_policy = example_compiled\<rparr>) (fixed_approver AllowOnce)
       [(from_epoch_ms 0, example_call)] empty_store = (s', ds) \<and>
     load_trajectory (record_iter num_deps (fs_file s')) (tc_session_id example_call) = Inr steps \<and>
     policy_replay example_deps steps ''demo'' = Inr r \<and> rp_changes r = []"
proof -
  obtain s' ds where h: "handle_all num_deps (fs_ops num_deps) (evaluate example_deps \<lparr>eng_policy = example_compiled\<rparr>)
      (fixed_approver AllowOnce) [(from_epoch_ms 0, example_call)] empty_store = (s', ds)" by fastforce
  have "decisions_of (tc_session_id example_call) (fs_chain num_deps empty_store) = []" by (simp add: decisions_of_def)
  from session_replays_unchanged [OF empty_store_inv [OF serde_laws_num_deps] _ example_engine(1) h this] h example_call_exact
  show ?thesis by auto
qed

end
