(* ===== verification/Mcp_Rpc.thy ===== *)
theory Mcp_Rpc
  imports Policy_Lang Serde_Example
begin

text \<open>
  \<open>writ-mcp/src/jsonrpc.rs\<close> and \<open>transport.rs\<close>: JSON-RPC 2.0 messages, their JSON form, newline
  framing, and the transports of a proxy.  \<open>serde_json\<close> between text and values is a parameter; the
  step between values and messages is the sniffing of the source together with what the derived
  deserializers do (a missing or \<open>null\<close> optional field is \<open>None\<close>, unknown fields are ignored, a struct
  may also be given as an array).  Their error texts are abbreviated.
\<close>

section \<open>Messages\<close>

datatype request_id = IdNum nat | IdStr str

fun show_request_id :: "request_id \<Rightarrow> str" where
  "show_request_id (IdNum n) = show_nat n"
| "show_request_id (IdStr s) = s"

record rpc_error =
  er_code :: int
  er_message :: str
  er_data :: "json option"

record rpc_request =
  rq_jsonrpc :: str
  rq_id :: request_id
  rq_method :: str
  rq_params :: "json option"

record rpc_response =
  rsp_jsonrpc :: str
  rsp_id :: request_id
  rsp_result :: "json option"
  rsp_error :: "rpc_error option"

record rpc_notification =
  nt_jsonrpc :: str
  nt_method :: str
  nt_params :: "json option"

datatype rpc_message = Request rpc_request | Response rpc_response | Notification rpc_notification

definition new_request :: "request_id \<Rightarrow> str \<Rightarrow> json option \<Rightarrow> rpc_request" where
  "new_request i meth ps = \<lparr>rq_jsonrpc = ''2.0'', rq_id = i, rq_method = meth, rq_params = ps\<rparr>"

definition result_response :: "request_id \<Rightarrow> json \<Rightarrow> rpc_response" where
  "result_response i v = \<lparr>rsp_jsonrpc = ''2.0'', rsp_id = i, rsp_result = Some v, rsp_error = None\<rparr>"

definition error_response :: "request_id \<Rightarrow> rpc_error \<Rightarrow> rpc_response" where
  "error_response i e = \<lparr>rsp_jsonrpc = ''2.0'', rsp_id = i, rsp_result = None, rsp_error = Some e\<rparr>"

definition is_error :: "rpc_response \<Rightarrow> bool" where
  "is_error r \<longleftrightarrow> rsp_error r \<noteq> None"

definition new_notification :: "str \<Rightarrow> json option \<Rightarrow> rpc_notification" where
  "new_notification meth ps = \<lparr>nt_jsonrpc = ''2.0'', nt_method = meth, nt_params = ps\<rparr>"

section \<open>JSON form\<close>

fun json_of_id :: "request_id \<Rightarrow> json" where
  "json_of_id (IdNum n) = JNum (PosInt n)"
| "json_of_id (IdStr s) = JStr s"

fun id_of_json :: "json \<Rightarrow> str + request_id" where
  "id_of_json (JNum (PosInt n)) = Inr (IdNum n)"
| "id_of_json (JStr s) = Inr (IdStr s)"
| "id_of_json _ = Inl ''data did not match any variant of untagged enum RequestId''"

definition opt_field :: "str \<Rightarrow> json option \<Rightarrow> (str \<times> json) list" where
  "opt_field k v = (case v of None \<Rightarrow> [] | Some j \<Rightarrow> [(k, j)])"

definition json_of_int :: "int \<Rightarrow> json" where
  "json_of_int i = JNum (if 0 \<le> i then PosInt (nat i) else NegInt i)"

fun i64_of_json :: "json \<Rightarrow> str + int" where
  "i64_of_json (JNum (PosInt n)) = (if n < 2 ^ 63 then Inr (int n) else Inl ''invalid value'')"
| "i64_of_json (JNum (NegInt i)) = Inr i"
| "i64_of_json _ = Inl ''invalid type''"

fun string_of_json :: "json \<Rightarrow> str + str" where
  "string_of_json (JStr s) = Inr s"
| "string_of_json _ = Inl ''invalid type''"

fun option_of_json :: "json option \<Rightarrow> json option" where
  "option_of_json (Some JNull) = None"
| "option_of_json x = x"

definition required :: "json \<Rightarrow> str \<Rightarrow> str + json" where
  "required v k = ok_or (json_get v k) (''missing field `'' @ k @ ''`'')"

definition json_of_error :: "rpc_error \<Rightarrow> json" where
  "json_of_error e =
     JObj ([(''code'', json_of_int (er_code e)), (''message'', JStr (er_message e))] @ opt_field ''data'' (er_data e))"

fun error_of_json :: "json \<Rightarrow> str + rpc_error" where
  "error_of_json (JArr (c # m # rest)) =
     rbind (i64_of_json c) (\<lambda>c. rbind (string_of_json m) (\<lambda>m.
       case rest of [] \<Rightarrow> Inr \<lparr>er_code = c, er_message = m, er_data = None\<rparr>
       | [d] \<Rightarrow> Inr \<lparr>er_code = c, er_message = m, er_data = option_of_json (Some d)\<rparr>
       | _ \<Rightarrow> Inl ''invalid length''))"
| "error_of_json (JObj kvs) =
     rbind (rbind (required (JObj kvs) ''code'') i64_of_json) (\<lambda>c.
     rbind (rbind (required (JObj kvs) ''message'') string_of_json) (\<lambda>m.
       Inr \<lparr>er_code = c, er_message = m, er_data = option_of_json (json_get (JObj kvs) ''data'')\<rparr>))"
| "error_of_json _ = Inl ''invalid type''"

definition json_of_request :: "rpc_request \<Rightarrow> json" where
  "json_of_request r =
     JObj ([(''jsonrpc'', JStr (rq_jsonrpc r)), (''id'', json_of_id (rq_id r)), (''method'', JStr (rq_method r))] @
           opt_field ''params'' (rq_params r))"

definition request_of_json :: "json \<Rightarrow> str + rpc_request" where
  "request_of_json v =
     rbind (rbind (required v ''jsonrpc'') string_of_json) (\<lambda>ver.
     rbind (rbind (required v ''id'') id_of_json) (\<lambda>i.
     rbind (rbind (required v ''method'') string_of_json) (\<lambda>meth.
       Inr \<lparr>rq_jsonrpc = ver, rq_id = i, rq_method = meth, rq_params = option_of_json (json_get v ''params'')\<rparr>)))"

definition json_of_response :: "rpc_response \<Rightarrow> json" where
  "json_of_response r =
     JObj ([(''jsonrpc'', JStr (rsp_jsonrpc r)), (''id'', json_of_id (rsp_id r))] @
           opt_field ''result'' (rsp_result r) @ opt_field ''error'' (map_option json_of_error (rsp_error r)))"

definition response_of_json :: "json \<Rightarrow> str + rpc_response" where
  "response_of_json v =
     rbind (rbind (required v ''jsonrpc'') string_of_json) (\<lambda>ver.
     rbind (rbind (required v ''id'') id_of_json) (\<lambda>i.
     rbind (case option_of_json (json_get v ''error'') of None \<Rightarrow> Inr None
            | Some e \<Rightarrow> rbind (error_of_json e) (\<lambda>e. Inr (Some e))) (\<lambda>e.
       Inr \<lparr>rsp_jsonrpc = ver, rsp_id = i, rsp_result = option_of_json (json_get v ''result''), rsp_error = e\<rparr>)))"

definition json_of_notification :: "rpc_notification \<Rightarrow> json" where
  "json_of_notification n =
     JObj ([(''jsonrpc'', JStr (nt_jsonrpc n)), (''method'', JStr (nt_method n))] @ opt_field ''params'' (nt_params n))"

definition notification_of_json :: "json \<Rightarrow> str + rpc_notification" where
  "notification_of_json v =
     rbind (rbind (required v ''jsonrpc'') string_of_json) (\<lambda>ver.
     rbind (rbind (required v ''method'') string_of_json) (\<lambda>meth.
       Inr \<lparr>nt_jsonrpc = ver, nt_method = meth, nt_params = option_of_json (json_get v ''params'')\<rparr>))"

fun json_of_message :: "rpc_message \<Rightarrow> json" where
  "json_of_message (Request r) = json_of_request r"
| "json_of_message (Response r) = json_of_response r"
| "json_of_message (Notification n) = json_of_notification n"

definition message_of_json :: "json \<Rightarrow> str + rpc_message" where
  "message_of_json v =
     (let has_method = json_get v ''method'' \<noteq> None; has_id = json_get v ''id'' \<noteq> None
      in if has_method \<and> has_id then rbind (request_of_json v) (\<lambda>r. Inr (Request r))
         else if has_method then rbind (notification_of_json v) (\<lambda>n. Inr (Notification n))
         else if json_get v ''result'' \<noteq> None \<or> json_get v ''error'' \<noteq> None
         then rbind (response_of_json v) (\<lambda>r. Inr (Response r))
         else Inl ''not a JSON-RPC 2.0 request, response, or notification'')"

section \<open>Frames\<close>

record rpc_deps =
  json_to_string :: "json \<Rightarrow> str"
  json_from_str :: "str \<Rightarrow> str + json"

text \<open>Valid UTF-8, by the decoder of \<open>Policy_Lang\<close>.\<close>

fun utf8_ok :: "nat \<Rightarrow> str \<Rightarrow> bool" where
  "utf8_ok 0 s = (s = [])"
| "utf8_ok (Suc n) s = (s = [] \<or> (let (w, valid) = utf8_width s in valid \<and> utf8_ok n (drop w s)))"

definition is_utf8 :: "str \<Rightarrow> bool" where
  "is_utf8 s = utf8_ok (length s) s"

definition write_frame :: "rpc_deps \<Rightarrow> rpc_message \<Rightarrow> bytes" where
  "write_frame J msg = json_to_string J (json_of_message msg) @ [nl]"

definition parse_message :: "rpc_deps \<Rightarrow> str \<Rightarrow> str + rpc_message" where
  "parse_message J s = rbind (json_from_str J s) message_of_json"

function read_frame :: "rpc_deps \<Rightarrow> bytes \<Rightarrow> bytes \<times> (writ_error + rpc_message option)" where
  "read_frame J b =
     (let line = read_until_nl b; rest = drop (length line) b
      in if line = [] then (rest, Inr None)
         else if \<not> is_utf8 line then (rest, Inl (IoErr ''stream did not contain valid UTF-8''))
         else if trim line = [] then read_frame J rest
         else (rest, case parse_message J (trim line) of Inl e \<Rightarrow> Inl (SerdeErr e) | Inr m \<Rightarrow> Inr (Some m)))"
  by pat_completeness auto
termination
  by (relation "measure (\<lambda>(J, b). length b)") (auto intro!: read_until_nl_progress)

declare read_frame.simps [simp del]

section \<open>Transports\<close>

record 't transport_ops =
  t_send :: "rpc_message \<Rightarrow> 't \<Rightarrow> 't \<times> (writ_error + unit)"
  t_recv :: "'t \<Rightarrow> 't \<times> (writ_error + rpc_message option)"

record memory_transport =
  mt_incoming :: "rpc_message list"
  mt_sent :: "rpc_message list"

definition memory_ops :: "memory_transport transport_ops" where
  "memory_ops =
     \<lparr>t_send = (\<lambda>msg t. (t\<lparr>mt_sent := mt_sent t @ [msg]\<rparr>, Inr ())),
      t_recv = (\<lambda>t. case mt_incoming t of [] \<Rightarrow> (t, Inr None)
                    | m # ms \<Rightarrow> (t\<lparr>mt_incoming := ms\<rparr>, Inr (Some m)))\<rparr>"

text \<open>A stream transport: the unread bytes, the bytes written, and whether writing fails.\<close>

record stream_transport =
  sr_reader :: bytes
  sr_writer :: bytes
  sr_broken :: "str option"

definition stream_ops :: "rpc_deps \<Rightarrow> stream_transport transport_ops" where
  "stream_ops J =
     \<lparr>t_send = (\<lambda>msg t. case sr_broken t of Some e \<Rightarrow> (t, Inl (IoErr e))
                | None \<Rightarrow> (t\<lparr>sr_writer := sr_writer t @ write_frame J msg\<rparr>, Inr ())),
      t_recv = (\<lambda>t. let (rest, r) = read_frame J (sr_reader t) in (t\<lparr>sr_reader := rest\<rparr>, r))\<rparr>"

section \<open>Round trips\<close>

text \<open>
  The messages whose JSON form determines them: an absent value is not spelt \<open>null\<close>, an error code
  is an \<open>i64\<close>, and a response has a result or an error.
\<close>

definition error_wf :: "rpc_error \<Rightarrow> bool" where
  "error_wf e \<longleftrightarrow> - (2 ^ 63) \<le> er_code e \<and> er_code e < 2 ^ 63 \<and> er_data e \<noteq> Some JNull"

fun message_wf :: "rpc_message \<Rightarrow> bool" where
  "message_wf (Request r) = (rq_params r \<noteq> Some JNull)"
| "message_wf (Notification n) = (nt_params n \<noteq> Some JNull)"
| "message_wf (Response r) =
     (rsp_result r \<noteq> Some JNull \<and> (case rsp_error r of None \<Rightarrow> rsp_result r \<noteq> None | Some e \<Rightarrow> error_wf e))"

lemma option_of_json_id: "x \<noteq> Some JNull \<Longrightarrow> option_of_json x = x"
  by (cases x rule: option_of_json.cases) auto

lemma id_roundtrip [simp]: "id_of_json (json_of_id i) = Inr i"
  by (cases i) auto

lemma error_roundtrip: "error_wf e \<Longrightarrow> error_of_json (json_of_error e) = Inr e"
  by (cases "er_data e")
     (auto simp: json_of_error_def error_wf_def opt_field_def required_def json_of_int_def option_of_json_id nat_less_iff)

lemma message_roundtrip:
  assumes "message_wf m"
  shows "message_of_json (json_of_message m) = Inr m"
proof (cases m)
  case (Request r)
  with assms show ?thesis
    by (cases "rq_params r")
       (simp_all add: message_of_json_def json_of_request_def request_of_json_def opt_field_def required_def option_of_json_id)
next
  case (Notification n)
  with assms show ?thesis
    by (cases "nt_params n")
       (simp_all add: message_of_json_def json_of_notification_def notification_of_json_def opt_field_def required_def option_of_json_id)
next
  case (Response r)
  have e: "json_of_error e \<noteq> JNull" for e by (simp add: json_of_error_def)
  from Response assms show ?thesis
    by (cases "rsp_result r"; cases "rsp_error r")
       (simp_all add: message_of_json_def json_of_response_def response_of_json_def opt_field_def required_def
          option_of_json_id error_roundtrip e)
qed

text \<open>UTF-8 validity of text followed by a line end.\<close>

lemma byte_at_append: "byte_at s i \<noteq> 0 \<Longrightarrow> byte_at (s @ t) i = byte_at s i"
  by (auto simp: byte_at_def nth_append split: if_splits)

lemma byte_at_bound: "byte_at s i \<noteq> 0 \<Longrightarrow> i < length s"
  by (auto simp: byte_at_def split: if_splits)

lemma utf8_width_append:
  assumes "utf8_width s = (w, True)" and "s \<noteq> []"
  shows "utf8_width (s @ t) = (w, True) \<and> w \<le> length s \<and> 0 < w"
proof -
  let ?b = "byte_at s"
  have b0: "byte_at (s @ t) 0 = ?b 0" using assms(2) by (cases s) (simp_all add: byte_at_def)
  have same: "byte_at (s @ t) i = ?b i" and len: "i < length s" if "128 \<le> ?b i" for i
    using that byte_at_append [of s i t] byte_at_bound [of s i] by simp_all
  have l: "0 < length s" using assms(2) by simp
  note u = utf8_width_def [of s] utf8_width_def [of "s @ t"]
  show ?thesis
  proof (cases "?b 0 < 128")
    case True
    with assms(1) b0 l show ?thesis by (auto simp: u Suc_le_eq simp del: length_greater_0_conv)
  next
    case F1: False
    show ?thesis
    proof (cases "194 \<le> ?b 0 \<and> ?b 0 \<le> 223")
      case True
      with F1 assms(1) have "128 \<le> ?b 1" "?b 1 < 192" "w = 2" by (auto simp: u is_cont_def Let_def split: if_splits)
      with True F1 same [of 1] len [of 1] b0 show ?thesis by (simp add: u is_cont_def)
    next
      case F2: False
      show ?thesis
      proof (cases "224 \<le> ?b 0 \<and> ?b 0 \<le> 239")
        case True
        let ?c = "\<lambda>b1. (?b 0 = 224 \<and> 160 \<le> b1 \<and> b1 \<le> 191) \<or> (225 \<le> ?b 0 \<and> ?b 0 \<le> 236 \<and> 128 \<le> b1 \<and> b1 \<le> 191)
                  \<or> (?b 0 = 237 \<and> 128 \<le> b1 \<and> b1 \<le> 159) \<or> (238 \<le> ?b 0 \<and> 128 \<le> b1 \<and> b1 \<le> 191)"
        have c: "utf8_width s = (if \<not> ?c (?b 1) then (1, False) else if \<not> is_cont (?b 2) then (2, False) else (3, True))"
          using True F1 F2 by (simp add: u(1) Let_def)
        then have h: "?c (?b 1)" "is_cont (?b 2)" "w = 3" using assms(1) by (auto simp del: One_nat_def split: if_splits)
        then have "128 \<le> ?b 1" "128 \<le> ?b 2" by (auto simp: is_cont_def)
        note e = same [OF this(1)] len [OF this(1)] same [OF this(2)] len [OF this(2)]
        have "utf8_width (s @ t) = (if \<not> ?c (?b 1) then (1, False) else if \<not> is_cont (?b 2) then (2, False) else (3, True))"
          using True F1 F2 by (simp add: u(2) Let_def b0 e del: One_nat_def)
        with h e show ?thesis by simp
      next
        case F3: False
        have True: "240 \<le> ?b 0 \<and> ?b 0 \<le> 244"
        proof (rule ccontr)
          assume "\<not> ?thesis"
          then have "utf8_width s = (1, False)" using F1 F2 F3 by (simp only: u(1) Let_def if_False)
          with assms(1) show False by simp
        qed
        let ?c = "\<lambda>b1. (?b 0 = 240 \<and> 144 \<le> b1 \<and> b1 \<le> 191) \<or> (241 \<le> ?b 0 \<and> ?b 0 \<le> 243 \<and> 128 \<le> b1 \<and> b1 \<le> 191)
                  \<or> (?b 0 = 244 \<and> 128 \<le> b1 \<and> b1 \<le> 143)"
        let ?f = "\<lambda>b1 b2 b3. if \<not> ?c b1 then (1, False) else if \<not> is_cont b2 then (2, False)
            else if \<not> is_cont b3 then (3, False) else (4::nat, True)"
        have "utf8_width s = ?f (?b 1) (?b 2) (?b 3)"
          using True F1 F2 F3 by (simp add: u(1) Let_def)
        then have h: "?c (?b 1)" "is_cont (?b 2)" "is_cont (?b 3)" "w = 4"
          using assms(1) by (auto simp del: One_nat_def split: if_splits)
        then have "128 \<le> ?b 1" "128 \<le> ?b 2" "128 \<le> ?b 3" by (auto simp: is_cont_def)
        note e = same [OF this(1)] same [OF this(2)] same [OF this(3)] len [OF this(3)]
        have "utf8_width (s @ t) = ?f (?b 1) (?b 2) (?b 3)"
          using True F1 F2 F3 by (simp add: u(2) Let_def b0 e del: One_nat_def)
        with h e show ?thesis by simp
      qed
    qed
  qed
qed

lemma utf8_ok_Nil [simp]: "utf8_ok n []"
  by (cases n) auto

lemma utf8_ok_fuel: "utf8_ok k s \<Longrightarrow> length s \<le> n \<Longrightarrow> utf8_ok n s"
proof (induction k arbitrary: s n)
  case (Suc k)
  show ?case
  proof (cases "s = []")
    case False
    obtain w where w: "utf8_width s = (w, True)" "utf8_ok k (drop w s)"
      using Suc.prems(1) False by (auto split: prod.splits)
    obtain m where n: "n = Suc m" using Suc.prems(2) False by (cases n) auto
    have "0 < w" using utf8_width_append [OF w(1) False, of "[]"] by simp
    with Suc.prems(2) False n have "length (drop w s) \<le> m" by (cases s) auto
    with Suc.IH [OF w(2)] w(1) n show ?thesis by simp
  qed (cases n, auto)
qed (cases n, auto)

lemma utf8_ok_append: "utf8_ok n s \<Longrightarrow> utf8_ok m t \<Longrightarrow> \<exists>k. utf8_ok k (s @ t)"
proof (induction n arbitrary: s)
  case (Suc n)
  show ?case
  proof (cases "s = []")
    case False
    obtain w where w: "utf8_width s = (w, True)" "utf8_ok n (drop w s)"
      using Suc.prems(1) False by (auto split: prod.splits)
    from Suc.IH [OF w(2) Suc.prems(2)] obtain k where "utf8_ok k (drop w s @ t)" by blast
    then show ?thesis using utf8_width_append [OF w(1) False, of t] by (intro exI [of _ "Suc k"]) simp
  qed (use Suc.prems in auto)
qed auto

lemma is_utf8_append: "is_utf8 s \<Longrightarrow> is_utf8 t \<Longrightarrow> is_utf8 (s @ t)"
  using utf8_ok_append utf8_ok_fuel unfolding is_utf8_def by blast

text \<open>
  What is assumed of \<open>serde_json\<close>: the text of a value is one line of UTF-8 without white space at
  its ends, and values without floating-point numbers are read back.
\<close>

definition rpc_laws :: "rpc_deps \<Rightarrow> bool" where
  "rpc_laws J \<longleftrightarrow>
     (\<forall>j. json_to_string J j \<noteq> [] \<and> is_utf8 (json_to_string J j) \<and> nl \<notin> set (json_to_string J j) \<and>
        is_printable (hd (json_to_string J j)) \<and> is_printable (last (json_to_string J j)) \<and>
        (float_free j \<longrightarrow> json_from_str J (json_to_string J j) = Inr j))"

lemma nl_whitespace:
  "[nl] \<in> set whitespace_utf8" "list_all (\<lambda>w. hd (rev w) = nl \<longrightarrow> rev w = [nl]) whitespace_utf8"
  by code_simp+

lemma trim_line_end:
  assumes "s \<noteq> []" and "is_printable (hd s)" and "is_printable (last s)"
  shows "trim (s @ [nl]) = s"
proof -
  have w: "w \<noteq> [] \<and> list_all (\<lambda>c. \<not> is_printable c) w" if "w \<in> set whitespace_utf8" for w
    using whitespace_not_printable that by (simp add: list_all_iff)
  have "trim_start (s @ [nl]) = s @ [nl]"
    unfolding trim_start_def using assms w by (intro trim_with_printable) auto
  moreover have "find (\<lambda>w. starts_with (nl # rev s) w) (map rev whitespace_utf8) = Some [nl]"
  proof (rule find_unique)
    show "[nl] \<in> set (map rev whitespace_utf8)" using nl_whitespace(1) by force
    fix v
    assume "v \<in> set (map rev whitespace_utf8)" "starts_with (nl # rev s) v"
    then obtain x where x: "v = rev x" "x \<in> set whitespace_utf8" "starts_with (nl # rev s) (rev x)" by auto
    then have "hd (rev x) = nl" using w [OF x(2)] by (cases "rev x") auto
    with x(1,2) nl_whitespace(2) show "v = [nl]" by (auto simp: list_all_iff)
  qed simp
  moreover have "trim_with (map rev whitespace_utf8) n (rev s) = rev s" for n
    using assms w by (intro trim_with_printable) (auto simp: hd_rev)
  ultimately show ?thesis by (simp add: trim_def trim_end_def)
qed

text \<open>What the reader at the other end makes of a message that is sent.\<close>

definition wire :: "rpc_deps \<Rightarrow> rpc_message \<Rightarrow> writ_error + rpc_message" where
  "wire J m = map_err SerdeErr (parse_message J (json_to_string J (json_of_message m)))"

lemma read_frame_write:
  assumes "rpc_laws J"
  shows "read_frame J (write_frame J m @ b) = (b, rbind (wire J m) (\<lambda>m. Inr (Some m)))"
proof -
  let ?s = "json_to_string J (json_of_message m)"
  have l: "?s \<noteq> []" "is_utf8 ?s" "nl \<notin> set ?s" "is_printable (hd ?s)" "is_printable (last ?s)"
    using assms by (simp_all add: rpc_laws_def)
  have "utf8_width [nl] = (1, True)" by code_simp
  then have "is_utf8 [nl]" by (simp add: is_utf8_def)
  with l(2) have u: "is_utf8 (?s @ [nl])" by (rule is_utf8_append)
  have "read_until_nl (?s @ nl # b) = ?s @ [nl]" using l(3) by simp
  with u trim_line_end [OF l(1,4,5)] l(1) show ?thesis
    by (subst read_frame.simps) (simp add: write_frame_def wire_def Let_def split: sum.splits)
qed

text \<open>All the frames of a stream.\<close>

function read_frames :: "rpc_deps \<Rightarrow> bytes \<Rightarrow> (writ_error + rpc_message) list" where
  "read_frames J b =
     (case read_frame J b of
        (rest, Inr None) \<Rightarrow> []
      | (rest, Inr (Some m)) \<Rightarrow> if length rest < length b then Inr m # read_frames J rest else []
      | (rest, Inl e) \<Rightarrow> if length rest < length b then Inl e # read_frames J rest else [])"
  by pat_completeness auto
termination
  by (relation "measure (\<lambda>(J, b). length b)") auto

declare read_frames.simps [simp del]

lemma read_frames_Nil [simp]: "read_frames J [] = []"
  by (subst read_frames.simps, subst read_frame.simps) simp

lemma read_frames_write:
  assumes "rpc_laws J"
  shows "read_frames J (concat (map (write_frame J) ms) @ b) = map (wire J) ms @ read_frames J b"
proof (induction ms)
  case (Cons m ms)
  have "length (concat (map (write_frame J) ms) @ b) < length (write_frame J m @ concat (map (write_frame J) ms) @ b)"
    by (simp add: write_frame_def)
  with Cons read_frame_write [OF assms, of m "concat (map (write_frame J) ms) @ b"] show ?case
    by (simp, subst read_frames.simps) (simp split: sum.splits add: result_simps, cases "wire J m", auto)
qed simp

lemma wire_wf:
  assumes "rpc_laws J" and "message_wf m" and "float_free (json_of_message m)"
  shows "wire J m = Inr m"
  using assms message_roundtrip by (simp add: wire_def parse_message_def rpc_laws_def)

text \<open>
  Messages survive framing: any sequence of well-formed messages, written to a stream one after
  the other, is read back as exactly that sequence, whatever follows in the stream; a payload with
  line ends or any other text in it cannot break a frame in two.
\<close>

theorem frames_roundtrip:
  assumes "rpc_laws J" and "\<forall>m \<in> set ms. message_wf m \<and> float_free (json_of_message m)"
  shows "read_frames J (concat (map (write_frame J) ms) @ b) = map Inr ms @ read_frames J b"
  using assms by (simp add: read_frames_write wire_wf)

section \<open>The contract of a transport\<close>

text \<open>
  \<open>inbox\<close> are the messages still to be received, \<open>outbox\<close> is what the peer reads of what was sent,
  \<open>seen\<close> what it makes of one message.  A usable transport neither fails nor garbles.
\<close>

locale transport =
  fixes T :: "'t transport_ops"
    and inbox :: "'t \<Rightarrow> rpc_message list"
    and outbox :: "'t \<Rightarrow> (writ_error + rpc_message) list"
    and seen :: "rpc_message \<Rightarrow> writ_error + rpc_message"
    and usable :: "'t \<Rightarrow> bool"
  assumes recv_Nil: "usable t \<Longrightarrow> inbox t = [] \<Longrightarrow>
      \<exists>t'. t_recv T t = (t', Inr None) \<and> usable t' \<and> inbox t' = [] \<and> outbox t' = outbox t"
    and recv_Cons: "usable t \<Longrightarrow> inbox t = m # ms \<Longrightarrow>
      \<exists>t'. t_recv T t = (t', Inr (Some m)) \<and> usable t' \<and> inbox t' = ms \<and> outbox t' = outbox t"
    and send_ok: "usable t \<Longrightarrow>
      \<exists>t'. t_send T m t = (t', Inr ()) \<and> usable t' \<and> inbox t' = inbox t \<and> outbox t' = outbox t @ [seen m]"

interpretation mem: transport memory_ops mt_incoming "\<lambda>t. map Inr (mt_sent t)" Inr "\<lambda>t. True"
  by unfold_locales (simp_all add: memory_ops_def)

lemma read_frame_None: "read_frame J b = (rest, Inr None) \<Longrightarrow> rest = []"
proof (induction J b rule: read_frame.induct)
  case (1 J b)
  let ?line = "read_until_nl b" and ?rest = "drop (length (read_until_nl b)) b"
  show ?case
  proof (cases "?line = []")
    case True
    then have "b = []" by (cases b) (auto split: if_splits)
    with 1(2) show ?thesis by (subst (asm) read_frame.simps) simp
  next
    case line: False
    have u: "is_utf8 ?line" and e: "trim ?line = []"
      using 1(2) line by (subst (asm) read_frame.simps, auto simp: Let_def split: if_splits sum.splits)+
    then have "read_frame J b = read_frame J ?rest" using line by (subst read_frame.simps) (simp add: Let_def)
    with 1(1) [OF refl refl line] u e 1(2) show ?thesis by simp
  qed
qed

lemma read_frame_shrinks: "read_frame J b = (rest, r) \<Longrightarrow> r \<noteq> Inr None \<Longrightarrow> length rest < length b"
proof (induction J b rule: read_frame.induct)
  case (1 J b)
  let ?line = "read_until_nl b" and ?rest = "drop (length (read_until_nl b)) b"
  have line: "?line \<noteq> []" using 1(2,3) by (subst (asm) read_frame.simps) (auto simp: Let_def)
  then have b: "b \<noteq> []" by auto
  show ?case
  proof (cases "is_utf8 ?line \<and> trim ?line = []")
    case True
    then have "read_frame J b = read_frame J ?rest" using line by (subst read_frame.simps) (simp add: Let_def)
    with 1(1) [OF refl refl line] True 1(2,3) have "length rest < length ?rest" by simp
    then show ?thesis by simp
  next
    case False
    then have "rest = ?rest" using 1(2) line by (subst (asm) read_frame.simps) (auto simp: Let_def split: if_splits)
    with b show ?thesis by simp
  qed
qed

lemma read_frames_step:
  "read_frames J b =
     (case read_frame J b of
        (rest, Inr None) \<Rightarrow> []
      | (rest, Inr (Some m)) \<Rightarrow> Inr m # read_frames J rest
      | (rest, Inl e) \<Rightarrow> Inl e # read_frames J rest)"
  using read_frame_shrinks [of J b]
  by (subst read_frames.simps) (cases "read_frame J b", auto split: sum.splits option.splits)

definition stream_usable :: "rpc_deps \<Rightarrow> stream_transport \<Rightarrow> bool" where
  "stream_usable J t \<longleftrightarrow> rpc_laws J \<and> sr_broken t = None \<and> (\<forall>x \<in> set (read_frames J (sr_reader t)). \<not> isl x) \<and>
     (\<exists>ms. sr_writer t = concat (map (write_frame J) ms))"

interpretation stream: transport "stream_ops J" "\<lambda>t. map projr (read_frames J (sr_reader t))"
  "\<lambda>t. read_frames J (sr_writer t)" "wire J" "stream_usable J" for J
proof
  fix t :: stream_transport
  assume u: "stream_usable J t" "map projr (read_frames J (sr_reader t)) = []"
  then have "\<exists>rest. read_frame J (sr_reader t) = (rest, Inr None)"
    by (subst (asm) read_frames_step) (auto split: prod.splits sum.splits option.splits)
  then have "read_frame J (sr_reader t) = ([], Inr None)" using read_frame_None by blast
  with u show "\<exists>t'. t_recv (stream_ops J) t = (t', Inr None) \<and> stream_usable J t' \<and>
      map projr (read_frames J (sr_reader t')) = [] \<and> read_frames J (sr_writer t') = read_frames J (sr_writer t)"
    by (simp add: stream_ops_def stream_usable_def)
next
  fix t :: stream_transport and m ms
  assume u: "stream_usable J t" "map projr (read_frames J (sr_reader t)) = m # ms"
  obtain rest r where r: "read_frame J (sr_reader t) = (rest, r)" by fastforce
  have s: "\<forall>x \<in> set (read_frames J (sr_reader t)). \<not> isl x" using u(1) by (simp add: stream_usable_def)
  have "r = Inr (Some m) \<and> map projr (read_frames J rest) = ms \<and> (\<forall>x \<in> set (read_frames J rest). \<not> isl x)"
    using u(2) s unfolding read_frames_step [of J "sr_reader t"] r
    by (cases r; cases "projr r") (auto split: option.splits)
  with u(1) r show "\<exists>t'. t_recv (stream_ops J) t = (t', Inr (Some m)) \<and> stream_usable J t' \<and>
      map projr (read_frames J (sr_reader t')) = ms \<and> read_frames J (sr_writer t') = read_frames J (sr_writer t)"
    by (simp add: stream_ops_def stream_usable_def)
next
  fix t :: stream_transport and m
  assume u: "stream_usable J t"
  then obtain ms where ms: "sr_writer t = concat (map (write_frame J) ms)" by (auto simp: stream_usable_def)
  have l: "rpc_laws J" using u by (simp add: stream_usable_def)
  have "sr_writer t @ write_frame J m = concat (map (write_frame J) (ms @ [m]))" by (simp add: ms)
  moreover have "read_frames J (concat (map (write_frame J) (ms @ [m]))) = read_frames J (sr_writer t) @ [wire J m]"
    using read_frames_write [OF l, of "ms @ [m]" "[]"] read_frames_write [OF l, of ms "[]"] by (simp add: ms)
  ultimately show "\<exists>t'. t_send (stream_ops J) m t = (t', Inr ()) \<and> stream_usable J t' \<and>
      map projr (read_frames J (sr_reader t')) = map projr (read_frames J (sr_reader t)) \<and>
      read_frames J (sr_writer t') = read_frames J (sr_writer t) @ [wire J m]"
    using u by (auto simp: stream_ops_def stream_usable_def intro: exI [of _ "ms @ [m]"])
qed

section \<open>A concrete codec\<close>

definition demo_rpc :: rpc_deps where
  "demo_rpc = \<lparr>json_to_string = (\<lambda>j. braced (to_nat j)),
     json_from_str = (\<lambda>b. if \<exists>n. b = braced n then Inr (from_nat (THE n. b = braced n)) else Inl ''EOF'')\<rparr>"

lemma utf8_ok_ascii: "\<forall>c \<in> set s. code c < 128 \<Longrightarrow> utf8_ok (length s) s"
  by (induction s) (auto simp: utf8_width_def byte_at_def)

lemma rpc_laws_demo: "rpc_laws demo_rpc"
proof -
  have d: "is_ascii_digit c" if "c \<in> set (show_nat n)" for c n using that by (rule show_nat_chars)
  have "is_ascii_digit c \<Longrightarrow> code c < 128" "code (CHR ''{'') < 128" "code (CHR ''}'') < 128" for c
    by (simp_all add: is_ascii_digit_def code_def)
  then have "code c < 128" if "c \<in> set (braced n)" for c n
    using that d by (auto simp: braced_def)
  then have "is_utf8 (braced n)" for n unfolding is_utf8_def by (intro utf8_ok_ascii) blast
  moreover have "nl \<notin> set (braced n)" for n using d digit_not_special by (auto simp: braced_def)
  moreover have "hd (braced n) = CHR ''{''" "last (braced n) = CHR ''}''" "braced n \<noteq> []" for n by (simp_all add: braced_def)
  moreover have "is_printable (CHR ''{'')" "is_printable (CHR ''}'')" by (simp_all add: is_printable_def code_def)
  ultimately show ?thesis by (simp add: rpc_laws_def demo_rpc_def)
qed

theorem frames_roundtrip_witness:
  "read_frames demo_rpc (concat (map (write_frame demo_rpc) [Request (new_request (IdNum 7) ''ping'' None)]) @ []) =
     map Inr [Request (new_request (IdNum 7) ''ping'' None)] @ read_frames demo_rpc []"
  by (rule frames_roundtrip [OF rpc_laws_demo]) (simp add: new_request_def json_of_request_def opt_field_def)

end
