(* ===== verification/Mcp_Proxy.thy ===== *)
theory Mcp_Proxy
  imports Mcp_Rpc
begin

text \<open>
  \<open>writ-mcp/src/proxy.rs\<close>: the interceptor and the stdio proxy.  The hooks are closures with state in
  the source; here they act on a world \<open>'h\<close>, which also has the clock.  The proxy loop is proved to
  refine a specification on message lists, for any two transports that keep the contract; the
  properties are proved of the specification.
\<close>

section \<open>The interceptor\<close>

datatype proxy_decision = Forward | Refuse str

record proxy_config =
  pc_server_name :: str
  pc_agent :: str
  pc_trust :: "trust_verdict option"

definition WRIT_REFUSAL_CODE :: int where
  "WRIT_REFUSAL_CODE = -32043"

record 'h hooks =
  hk_decide :: "tool_call \<Rightarrow> 'h \<Rightarrow> 'h \<times> proxy_decision"
  hk_observe :: "(tool_call \<Rightarrow> json \<Rightarrow> 'h \<Rightarrow> 'h) option"
  hk_transform :: "(tool_call \<Rightarrow> json \<Rightarrow> 'h \<Rightarrow> 'h \<times> json) option"
  hk_now :: "'h \<Rightarrow> timestamp"

datatype interception = IForward tool_call | IRefused rpc_response

text \<open>\<open>ic_user\<close> is what the environment says of \<open>USER\<close> or \<open>USERNAME\<close>.\<close>

record interceptor =
  ic_config :: proxy_config
  ic_session_id :: str
  ic_tool_schemas :: "json list"
  ic_transport :: str
  ic_user :: "str option"

definition new_interceptor :: "nat \<Rightarrow> timestamp \<Rightarrow> str option \<Rightarrow> proxy_config \<Rightarrow> str \<Rightarrow> interceptor" where
  "new_interceptor pid now user_var config tr =
     \<lparr>ic_config = config, ic_session_id = ''mcp-'' @ show_nat pid @ ''-'' @ show_int (epoch_ms now),
      ic_tool_schemas = [], ic_transport = tr, ic_user = user_var\<rparr>"

definition make_call :: "interceptor \<Rightarrow> timestamp \<Rightarrow> rpc_request \<Rightarrow> str option \<Rightarrow> tool_call" where
  "make_call ic now req cid =
     (let params = (case rq_params req of None \<Rightarrow> JNull | Some p \<Rightarrow> p)
      in \<lparr>tc_call_id = (case cid of Some c \<Rightarrow> c | None \<Rightarrow> ic_session_id ic @ '':'' @ show_request_id (rq_id req)),
          tc_session_id = ic_session_id ic,
          tc_caller = \<lparr>agent = pc_agent (ic_config ic), agent_version = None, user = ic_user ic, non_human_id = None\<rparr>,
          tc_mode = Mcp,
          tc_tool = (case Option.bind (json_get params ''name'') as_str of Some n \<Rightarrow> n | None \<Rightarrow> ''<unknown>''),
          tc_args = (case json_get params ''arguments'' of Some a \<Rightarrow> a | None \<Rightarrow> JNull),
          tc_server = Some \<lparr>srv_name = pc_server_name (ic_config ic), srv_transport = ic_transport ic, srv_version = None\<rparr>,
          tc_trust = pc_trust (ic_config ic), tc_captured_at = now\<rparr>)"

definition refusal :: "request_id \<Rightarrow> str \<Rightarrow> rpc_response" where
  "refusal i message =
     error_response i \<lparr>er_code = WRIT_REFUSAL_CODE, er_message = message, er_data = Some (JObj [(''writ_refusal'', JBool True)])\<rparr>"

definition intercept :: "'h hooks \<Rightarrow> interceptor \<Rightarrow> rpc_request \<Rightarrow> str option \<Rightarrow> 'h \<Rightarrow> 'h \<times> interception" where
  "intercept hk ic req cid h =
     (let call = make_call ic (hk_now hk h) req cid
      in case hk_decide hk call h of
           (h', Forward) \<Rightarrow> (h', IForward call)
         | (h', Refuse message) \<Rightarrow> (h', IRefused (refusal (rq_id req) message)))"

text \<open>
  \<open>complete\<close>.  The scrutinee of the second \<open>if let\<close> takes the result out of the response before the
  pattern is matched, so without a transform the result is gone.
\<close>

definition complete :: "'h hooks \<Rightarrow> tool_call \<Rightarrow> rpc_response \<Rightarrow> 'h \<Rightarrow> 'h \<times> rpc_response" where
  "complete hk call resp h =
     (let h1 = (case (hk_observe hk, rsp_result resp) of (Some f, Some v) \<Rightarrow> f call v h | _ \<Rightarrow> h)
      in case (hk_transform hk, rsp_result resp) of
           (Some t, Some v) \<Rightarrow> (let (h2, v') = t call v h1 in (h2, resp\<lparr>rsp_result := Some v'\<rparr>))
         | _ \<Rightarrow> (h1, resp\<lparr>rsp_result := None\<rparr>))"

definition mask :: "'h hooks \<Rightarrow> tool_call \<Rightarrow> json \<Rightarrow> 'h \<Rightarrow> 'h \<times> json" where
  "mask hk call v h = (case hk_transform hk of Some t \<Rightarrow> t call v h | None \<Rightarrow> (h, v))"

definition observe_response :: "str \<Rightarrow> rpc_response \<Rightarrow> interceptor \<Rightarrow> interceptor" where
  "observe_response meth resp ic =
     (if meth = ''tools/list''
      then (case Option.bind (Option.bind (rsp_result resp) (\<lambda>r. json_get r ''tools'')) as_array of
              Some tools \<Rightarrow> ic\<lparr>ic_tool_schemas := tools\<rparr> | None \<Rightarrow> ic)
      else ic)"

section \<open>The stdio proxy\<close>

record ('a, 'd, 'h) mcp_proxy =
  px_agent :: 'a
  px_down :: 'd
  px_core :: interceptor
  px_world :: 'h

text \<open>A notification that is relayed: its parameters are taken out and put back only in a tool call.\<close>

definition relayed :: "'h hooks \<Rightarrow> tool_call option \<Rightarrow> rpc_notification \<Rightarrow> 'h \<Rightarrow> 'h \<times> rpc_notification" where
  "relayed hk call n h =
     (case (call, nt_params n) of
        (Some c, Some p) \<Rightarrow> (let (h', p') = mask hk c p h in (h', n\<lparr>nt_params := Some p'\<rparr>))
      | _ \<Rightarrow> (h, n\<lparr>nt_params := None\<rparr>))"

definition not_proxied :: "request_id \<Rightarrow> rpc_response" where
  "not_proxied i = error_response i
     \<lparr>er_code = -32601, er_message = ''writ proxy: server-initiated requests are not proxied over stdio'', er_data = None\<rparr>"

definition closed_error :: "tool_call option \<Rightarrow> writ_error" where
  "closed_error call = InterceptErr (case call of Some _ \<Rightarrow> ''downstream closed during tools/call''
     | None \<Rightarrow> ''downstream closed while awaiting response'')"

partial_function (option) roundtrip_loop ::
  "'a transport_ops \<Rightarrow> 'd transport_ops \<Rightarrow> 'h hooks \<Rightarrow> tool_call option \<Rightarrow> request_id \<Rightarrow> ('a, 'd, 'h) mcp_proxy \<Rightarrow>
   (('a, 'd, 'h) mcp_proxy \<times> (writ_error + rpc_response)) option" where
  "roundtrip_loop A D hk call rid px =
     (case t_recv D (px_down px) of
        (d, Inl e) \<Rightarrow> Some (px\<lparr>px_down := d\<rparr>, Inl e)
      | (d, Inr None) \<Rightarrow> Some (px\<lparr>px_down := d\<rparr>, Inl (closed_error call))
      | (d, Inr (Some (Response resp))) \<Rightarrow>
          if rsp_id resp = rid then Some (px\<lparr>px_down := d\<rparr>, Inr resp)
          else roundtrip_loop A D hk call rid (px\<lparr>px_down := d\<rparr>)
      | (d, Inr (Some (Notification n))) \<Rightarrow>
          (case relayed hk call n (px_world px) of
             (h, n') \<Rightarrow>
               (case t_send A (Notification n') (px_agent px) of
                  (a, Inl e) \<Rightarrow> Some (px\<lparr>px_down := d, px_agent := a, px_world := h\<rparr>, Inl e)
                | (a, Inr _) \<Rightarrow> roundtrip_loop A D hk call rid (px\<lparr>px_down := d, px_agent := a, px_world := h\<rparr>)))
      | (d, Inr (Some (Request r))) \<Rightarrow>
          (case t_send D (Response (not_proxied (rq_id r))) d of
             (d', Inl e) \<Rightarrow> Some (px\<lparr>px_down := d'\<rparr>, Inl e)
           | (d', Inr _) \<Rightarrow> roundtrip_loop A D hk call rid (px\<lparr>px_down := d'\<rparr>)))"

definition roundtrip ::
  "'a transport_ops \<Rightarrow> 'd transport_ops \<Rightarrow> 'h hooks \<Rightarrow> rpc_request \<Rightarrow> tool_call option \<Rightarrow> ('a, 'd, 'h) mcp_proxy \<Rightarrow>
   (('a, 'd, 'h) mcp_proxy \<times> (writ_error + rpc_response)) option" where
  "roundtrip A D hk req call px =
     (case t_send D (Request req) (px_down px) of
        (d, Inl e) \<Rightarrow> Some (px\<lparr>px_down := d\<rparr>, Inl e)
      | (d, Inr _) \<Rightarrow> roundtrip_loop A D hk call (rq_id req) (px\<lparr>px_down := d\<rparr>))"

definition send_agent ::
  "'a transport_ops \<Rightarrow> rpc_message \<Rightarrow> ('a, 'd, 'h) mcp_proxy \<Rightarrow> ('a, 'd, 'h) mcp_proxy \<times> (writ_error + unit)" where
  "send_agent A m px = (let (a, r) = t_send A m (px_agent px) in (px\<lparr>px_agent := a\<rparr>, r))"

definition forward_request ::
  "'a transport_ops \<Rightarrow> 'd transport_ops \<Rightarrow> 'h hooks \<Rightarrow> rpc_request \<Rightarrow> ('a, 'd, 'h) mcp_proxy \<Rightarrow>
   (('a, 'd, 'h) mcp_proxy \<times> (writ_error + unit)) option" where
  "forward_request A D hk req px =
     Option.bind (roundtrip A D hk req None px) (\<lambda>(px, r).
       case r of Inl e \<Rightarrow> Some (px, Inl e)
       | Inr resp \<Rightarrow>
           Some (send_agent A (Response resp) (px\<lparr>px_core := observe_response (rq_method req) resp (px_core px)\<rparr>)))"

definition handle_tool_call ::
  "'a transport_ops \<Rightarrow> 'd transport_ops \<Rightarrow> 'h hooks \<Rightarrow> rpc_request \<Rightarrow> ('a, 'd, 'h) mcp_proxy \<Rightarrow>
   (('a, 'd, 'h) mcp_proxy \<times> (writ_error + unit)) option" where
  "handle_tool_call A D hk req px =
     (case intercept hk (px_core px) req None (px_world px) of
        (h, IForward call) \<Rightarrow>
          Option.bind (roundtrip A D hk req (Some call) (px\<lparr>px_world := h\<rparr>)) (\<lambda>(px, r).
            case r of Inl e \<Rightarrow> Some (px, Inl e)
            | Inr resp \<Rightarrow>
                (let (h', resp') = complete hk call resp (px_world px)
                 in Some (send_agent A (Response resp') (px\<lparr>px_world := h'\<rparr>))))
      | (h, IRefused resp) \<Rightarrow> Some (send_agent A (Response resp) (px\<lparr>px_world := h\<rparr>)))"

definition forward_down ::
  "'d transport_ops \<Rightarrow> rpc_message \<Rightarrow> ('a, 'd, 'h) mcp_proxy \<Rightarrow> ('a, 'd, 'h) mcp_proxy \<times> (writ_error + unit)" where
  "forward_down D m px = (let (d, r) = t_send D m (px_down px) in (px\<lparr>px_down := d\<rparr>, r))"

text \<open>One message from the agent.\<close>

definition handle_message ::
  "'a transport_ops \<Rightarrow> 'd transport_ops \<Rightarrow> 'h hooks \<Rightarrow> rpc_message \<Rightarrow> ('a, 'd, 'h) mcp_proxy \<Rightarrow>
   (('a, 'd, 'h) mcp_proxy \<times> (writ_error + unit)) option" where
  "handle_message A D hk m px =
     (case m of
        Request req \<Rightarrow> if rq_method req = ''tools/call'' then handle_tool_call A D hk req px else forward_request A D hk req px
      | Notification n \<Rightarrow> Some (forward_down D (Notification n) px)
      | Response resp \<Rightarrow> Some (forward_down D (Response resp) px))"

partial_function (option) run ::
  "'a transport_ops \<Rightarrow> 'd transport_ops \<Rightarrow> 'h hooks \<Rightarrow> ('a, 'd, 'h) mcp_proxy \<Rightarrow>
   (('a, 'd, 'h) mcp_proxy \<times> (writ_error + unit)) option" where
  "run A D hk px =
     (case t_recv A (px_agent px) of
        (a, Inl e) \<Rightarrow> Some (px\<lparr>px_agent := a\<rparr>, Inl e)
      | (a, Inr None) \<Rightarrow> Some (px\<lparr>px_agent := a\<rparr>, Inr ())
      | (a, Inr (Some m)) \<Rightarrow>
          Option.bind (handle_message A D hk m (px\<lparr>px_agent := a\<rparr>)) (\<lambda>(px, r).
            case r of Inl e \<Rightarrow> Some (px, Inl e) | Inr _ \<Rightarrow> run A D hk px))"

section \<open>The specification\<close>

text \<open>
  The proxy between two lists of messages: what the downstream server will still say, what the agent
  and the server have been sent, the interceptor and the world.
\<close>

record 'h net =
  nw_from_down :: "rpc_message list"
  nw_to_agent :: "rpc_message list"
  nw_to_down :: "rpc_message list"
  nw_core :: interceptor
  nw_world :: 'h

fun await :: "'h hooks \<Rightarrow> tool_call option \<Rightarrow> request_id \<Rightarrow> rpc_message list \<Rightarrow> 'h net \<Rightarrow> 'h net \<times> (writ_error + rpc_response)" where
  "await hk call rid [] nw = (nw\<lparr>nw_from_down := []\<rparr>, Inl (closed_error call))"
| "await hk call rid (Response resp # ms) nw =
     (if rsp_id resp = rid then (nw\<lparr>nw_from_down := ms\<rparr>, Inr resp) else await hk call rid ms (nw\<lparr>nw_from_down := ms\<rparr>))"
| "await hk call rid (Notification n # ms) nw =
     (let (h, n') = relayed hk call n (nw_world nw)
      in await hk call rid ms (nw\<lparr>nw_from_down := ms, nw_world := h, nw_to_agent := nw_to_agent nw @ [Notification n']\<rparr>))"
| "await hk call rid (Request r # ms) nw =
     await hk call rid ms (nw\<lparr>nw_from_down := ms, nw_to_down := nw_to_down nw @ [Response (not_proxied (rq_id r))]\<rparr>)"

definition ask_down :: "'h hooks \<Rightarrow> rpc_request \<Rightarrow> tool_call option \<Rightarrow> 'h net \<Rightarrow> 'h net \<times> (writ_error + rpc_response)" where
  "ask_down hk req call nw =
     await hk call (rq_id req) (nw_from_down nw) (nw\<lparr>nw_to_down := nw_to_down nw @ [Request req]\<rparr>)"

definition answer :: "rpc_response \<Rightarrow> 'h net \<Rightarrow> 'h net" where
  "answer resp nw = nw\<lparr>nw_to_agent := nw_to_agent nw @ [Response resp]\<rparr>"

definition serve_tool_call :: "'h hooks \<Rightarrow> rpc_request \<Rightarrow> 'h net \<Rightarrow> 'h net \<times> (writ_error + unit)" where
  "serve_tool_call hk req nw =
     (case intercept hk (nw_core nw) req None (nw_world nw) of
        (h, IForward call) \<Rightarrow>
          sbind (ask_down hk req (Some call) (nw\<lparr>nw_world := h\<rparr>)) (\<lambda>resp nw.
            let (h', resp') = complete hk call resp (nw_world nw) in (answer resp' (nw\<lparr>nw_world := h'\<rparr>), Inr ()))
      | (h, IRefused resp) \<Rightarrow> (answer resp (nw\<lparr>nw_world := h\<rparr>), Inr ()))"

definition serve_request :: "'h hooks \<Rightarrow> rpc_request \<Rightarrow> 'h net \<Rightarrow> 'h net \<times> (writ_error + unit)" where
  "serve_request hk req nw =
     sbind (ask_down hk req None nw) (\<lambda>resp nw.
       (answer resp (nw\<lparr>nw_core := observe_response (rq_method req) resp (nw_core nw)\<rparr>), Inr ()))"

definition serve_message :: "'h hooks \<Rightarrow> rpc_message \<Rightarrow> 'h net \<Rightarrow> 'h net \<times> (writ_error + unit)" where
  "serve_message hk m nw =
     (case m of
        Request req \<Rightarrow> if rq_method req = ''tools/call'' then serve_tool_call hk req nw else serve_request hk req nw
      | _ \<Rightarrow> (nw\<lparr>nw_to_down := nw_to_down nw @ [m]\<rparr>, Inr ()))"

fun serve :: "'h hooks \<Rightarrow> rpc_message list \<Rightarrow> 'h net \<Rightarrow> 'h net \<times> (writ_error + unit)" where
  "serve hk [] nw = (nw, Inr ())"
| "serve hk (m # ms) nw = sbind (serve_message hk m nw) (\<lambda>_ nw. serve hk ms nw)"

section \<open>The proxy refines the specification\<close>

locale proxy_ends =
  a: transport A a_in a_out a_seen a_ok + d: transport D d_in d_out d_seen d_ok
  for A :: "'a transport_ops" and a_in and a_out and a_seen and a_ok
    and D :: "'d transport_ops" and d_in and d_out and d_seen and d_ok
begin

text \<open>
  \<open>px\<close> stands where \<open>nw\<close> stands, with the agent's messages \<open>ms\<close> still to come and after the outputs
  \<open>a0\<close> and \<open>d0\<close>.
\<close>

definition at ::
  "(writ_error + rpc_message) list \<Rightarrow> (writ_error + rpc_message) list \<Rightarrow> rpc_message list \<Rightarrow> ('a, 'd, 'h) mcp_proxy \<Rightarrow> 'h net \<Rightarrow> bool" where
  "at a0 d0 ms px nw \<longleftrightarrow> a_ok (px_agent px) \<and> d_ok (px_down px) \<and> a_in (px_agent px) = ms \<and>
     d_in (px_down px) = nw_from_down nw \<and> a_out (px_agent px) = a0 @ map a_seen (nw_to_agent nw) \<and>
     d_out (px_down px) = d0 @ map d_seen (nw_to_down nw) \<and> px_core px = nw_core nw \<and> px_world px = nw_world nw"

lemma at_send_agent:
  assumes "at a0 d0 ms px nw"
  shows "\<exists>px'. send_agent A m px = (px', Inr ()) \<and> at a0 d0 ms px' (nw\<lparr>nw_to_agent := nw_to_agent nw @ [m]\<rparr>)"
proof -
  obtain t where "t_send A m (px_agent px) = (t, Inr ())" "a_ok t" "a_in t = a_in (px_agent px)"
      "a_out t = a_out (px_agent px) @ [a_seen m]"
    using a.send_ok assms unfolding at_def by blast
  with assms show ?thesis by (simp add: send_agent_def at_def)
qed

lemma at_send_down:
  assumes "at a0 d0 ms px nw"
  shows "\<exists>t. t_send D m (px_down px) = (t, Inr ()) \<and>
    at a0 d0 ms (px\<lparr>px_down := t\<rparr>) (nw\<lparr>nw_to_down := nw_to_down nw @ [m]\<rparr>)"
proof -
  obtain t where "t_send D m (px_down px) = (t, Inr ())" "d_ok t" "d_in t = d_in (px_down px)"
      "d_out t = d_out (px_down px) @ [d_seen m]"
    using d.send_ok assms unfolding at_def by blast
  with assms show ?thesis by (auto simp: at_def)
qed

lemma at_recv_down:
  assumes "at a0 d0 ms px nw"
  shows "nw_from_down nw = [] \<Longrightarrow> \<exists>t. t_recv D (px_down px) = (t, Inr None) \<and> at a0 d0 ms (px\<lparr>px_down := t\<rparr>) nw"
    and "nw_from_down nw = m # ns \<Longrightarrow>
      \<exists>t. t_recv D (px_down px) = (t, Inr (Some m)) \<and> at a0 d0 ms (px\<lparr>px_down := t\<rparr>) (nw\<lparr>nw_from_down := ns\<rparr>)"
proof -
  have o: "d_ok (px_down px)" "d_in (px_down px) = nw_from_down nw" using assms by (simp_all add: at_def)
  show "\<exists>t. t_recv D (px_down px) = (t, Inr None) \<and> at a0 d0 ms (px\<lparr>px_down := t\<rparr>) nw" if "nw_from_down nw = []"
    using d.recv_Nil [OF o(1)] o(2) that assms by (auto simp: at_def)
  show "\<exists>t. t_recv D (px_down px) = (t, Inr (Some m)) \<and> at a0 d0 ms (px\<lparr>px_down := t\<rparr>) (nw\<lparr>nw_from_down := ns\<rparr>)"
    if "nw_from_down nw = m # ns"
    using d.recv_Cons [OF o(1), of m ns] o(2) that assms by (auto simp: at_def)
qed

lemma roundtrip_loop_refines:
  assumes "at a0 d0 ms px nw" and "nw_from_down nw = ns"
  shows "\<exists>px'. roundtrip_loop A D hk call rid px = Some (px', snd (await hk call rid ns nw)) \<and>
    at a0 d0 ms px' (fst (await hk call rid ns nw))"
  using assms
proof (induction hk call rid ns nw arbitrary: px rule: await.induct)
  case (1 hk call rid nw)
  with at_recv_down(1) [OF 1(1,2)] show ?case
    by (subst roundtrip_loop.simps) (auto simp: at_def)
next
  case (2 hk call rid resp ns nw)
  from at_recv_down(2) [OF 2(2,3)] obtain t where t: "t_recv D (px_down px) = (t, Inr (Some (Response resp)))"
      "at a0 d0 ms (px\<lparr>px_down := t\<rparr>) (nw\<lparr>nw_from_down := ns\<rparr>)" by blast
  show ?case
  proof (cases "rsp_id resp = rid")
    case True
    with t show ?thesis by (subst roundtrip_loop.simps) simp
  next
    case False
    from 2(1) [OF False t(2)] t(1) False show ?thesis by (subst roundtrip_loop.simps) simp
  qed
next
  case (3 hk call rid n ns nw)
  from at_recv_down(2) [OF 3(2,3)] obtain t where t: "t_recv D (px_down px) = (t, Inr (Some (Notification n)))"
      "at a0 d0 ms (px\<lparr>px_down := t\<rparr>) (nw\<lparr>nw_from_down := ns\<rparr>)" by blast
  obtain h n' where r: "relayed hk call n (nw_world nw) = (h, n')" by fastforce
  have w: "px_world px = nw_world nw" using 3(2) by (simp add: at_def)
  have "at a0 d0 ms (px\<lparr>px_down := t, px_world := h\<rparr>) (nw\<lparr>nw_from_down := ns, nw_world := h\<rparr>)"
    using t(2) by (simp add: at_def)
  from at_send_agent [OF this, of "Notification n'"] obtain t' where
    t': "t_send A (Notification n') (px_agent px) = (t', Inr ())"
      "at a0 d0 ms (px\<lparr>px_down := t, px_world := h, px_agent := t'\<rparr>)
        (nw\<lparr>nw_from_down := ns, nw_world := h, nw_to_agent := nw_to_agent nw @ [Notification n']\<rparr>)"
    by (auto simp: send_agent_def split: prod.splits)
  from 3(1) [OF r [symmetric] refl, of "px\<lparr>px_down := t, px_agent := t', px_world := h\<rparr>"] t' t(1) r w show ?case
    by (subst roundtrip_loop.simps) (simp add: at_def)
next
  case (4 hk call rid r ns nw)
  from at_recv_down(2) [OF 4(2,3)] obtain t where t: "t_recv D (px_down px) = (t, Inr (Some (Request r)))"
      "at a0 d0 ms (px\<lparr>px_down := t\<rparr>) (nw\<lparr>nw_from_down := ns\<rparr>)" by blast
  from at_send_down [OF t(2), of "Response (not_proxied (rq_id r))"] obtain t' where
    t': "t_send D (Response (not_proxied (rq_id r))) t = (t', Inr ())"
      "at a0 d0 ms (px\<lparr>px_down := t'\<rparr>)
        (nw\<lparr>nw_from_down := ns, nw_to_down := nw_to_down nw @ [Response (not_proxied (rq_id r))]\<rparr>)" by auto
  from 4(1) [OF t'(2)] t(1) t'(1) show ?case by (subst roundtrip_loop.simps) simp
qed

lemma roundtrip_refines:
  assumes "at a0 d0 ms px nw"
  shows "\<exists>px'. roundtrip A D hk req call px = Some (px', snd (ask_down hk req call nw)) \<and>
    at a0 d0 ms px' (fst (ask_down hk req call nw))"
proof -
  from at_send_down [OF assms, of "Request req"] obtain t where t: "t_send D (Request req) (px_down px) = (t, Inr ())"
      "at a0 d0 ms (px\<lparr>px_down := t\<rparr>) (nw\<lparr>nw_to_down := nw_to_down nw @ [Request req]\<rparr>)" by blast
  from roundtrip_loop_refines [OF t(2), of "nw_from_down nw" hk call "rq_id req"] t(1) show ?thesis
    by (simp add: roundtrip_def ask_down_def)
qed

lemma at_update:
  "at a0 d0 ms px nw \<Longrightarrow> at a0 d0 ms (px\<lparr>px_world := h\<rparr>) (nw\<lparr>nw_world := h\<rparr>)"
  "at a0 d0 ms px nw \<Longrightarrow> at a0 d0 ms (px\<lparr>px_core := c\<rparr>) (nw\<lparr>nw_core := c\<rparr>)"
  "at a0 d0 ms px nw \<Longrightarrow> px_core px = nw_core nw \<and> px_world px = nw_world nw"
  by (simp_all add: at_def)

lemma handle_message_refines:
  assumes at: "at a0 d0 ms px nw"
  shows "\<exists>px'. handle_message A D hk m px = Some (px', snd (serve_message hk m nw)) \<and>
    at a0 d0 ms px' (fst (serve_message hk m nw))"
proof (cases m)
  case (Request req)
  show ?thesis
  proof (cases "rq_method req = ''tools/call''")
    case True
    obtain h i where i: "intercept hk (nw_core nw) req None (nw_world nw) = (h, i)" by fastforce
    note s = at_update(3) [OF at] at_update(1) [OF at, of h]
    show ?thesis
    proof (cases i)
      case (IForward call)
      obtain nw1 r where a: "ask_down hk req (Some call) (nw\<lparr>nw_world := h\<rparr>) = (nw1, r)" by fastforce
      with roundtrip_refines [OF s(2), of hk req "Some call"] obtain px1 where
        1: "roundtrip A D hk req (Some call) (px\<lparr>px_world := h\<rparr>) = Some (px1, r)" "at a0 d0 ms px1 nw1" by auto
      show ?thesis
      proof (cases r)
        case (Inl e)
        with 1 a i s IForward Request True show ?thesis
          by (simp add: handle_message_def serve_message_def handle_tool_call_def serve_tool_call_def)
      next
        case (Inr resp)
        obtain h' resp' where c: "complete hk call resp (nw_world nw1) = (h', resp')" by fastforce
        from at_send_agent [OF at_update(1) [OF 1(2), of h'], of "Response resp'"] at_update(3) [OF 1(2)] 1 a i s c IForward Inr Request True
        show ?thesis
          by (auto simp: handle_message_def serve_message_def handle_tool_call_def serve_tool_call_def answer_def)
      qed
    next
      case (IRefused resp)
      from at_send_agent [OF s(2), of "Response resp"] i s IRefused Request True show ?thesis
        by (auto simp: handle_message_def serve_message_def handle_tool_call_def serve_tool_call_def answer_def)
    qed
  next
    case False
    obtain nw1 r where a: "ask_down hk req None nw = (nw1, r)" by fastforce
    with roundtrip_refines [OF at, of hk req None] obtain px1 where
      1: "roundtrip A D hk req None px = Some (px1, r)" "at a0 d0 ms px1 nw1" by auto
    show ?thesis
    proof (cases r)
      case (Inl e)
      with 1 a Request False show ?thesis
        by (simp add: handle_message_def serve_message_def forward_request_def serve_request_def)
    next
      case (Inr resp)
      let ?c = "observe_response (rq_method req) resp (nw_core nw1)"
      from at_send_agent [OF at_update(2) [OF 1(2), of ?c], of "Response resp"] at_update(3) [OF 1(2)] 1 a Inr Request False
      show ?thesis
        by (auto simp: handle_message_def serve_message_def forward_request_def serve_request_def answer_def)
    qed
  qed
next
  case (Response resp)
  with at_send_down [OF at, of m] show ?thesis
    by (auto simp: handle_message_def serve_message_def forward_down_def)
next
  case (Notification n)
  with at_send_down [OF at, of m] show ?thesis
    by (auto simp: handle_message_def serve_message_def forward_down_def)
qed

lemma at_recv_agent:
  assumes "at a0 d0 ms px nw"
  shows "ms = [] \<Longrightarrow> \<exists>t. t_recv A (px_agent px) = (t, Inr None) \<and> at a0 d0 [] (px\<lparr>px_agent := t\<rparr>) nw"
    and "ms = m # ms' \<Longrightarrow> \<exists>t. t_recv A (px_agent px) = (t, Inr (Some m)) \<and> at a0 d0 ms' (px\<lparr>px_agent := t\<rparr>) nw"
proof -
  have o: "a_ok (px_agent px)" "a_in (px_agent px) = ms" using assms by (simp_all add: at_def)
  show "\<exists>t. t_recv A (px_agent px) = (t, Inr None) \<and> at a0 d0 [] (px\<lparr>px_agent := t\<rparr>) nw" if "ms = []"
    using a.recv_Nil [OF o(1)] o(2) that assms by (auto simp: at_def)
  show "\<exists>t. t_recv A (px_agent px) = (t, Inr (Some m)) \<and> at a0 d0 ms' (px\<lparr>px_agent := t\<rparr>) nw" if "ms = m # ms'"
    using a.recv_Cons [OF o(1), of m ms'] o(2) that assms by (auto simp: at_def)
qed

lemma run_refines:
  assumes "at a0 d0 ms px nw"
  shows "\<exists>px' ms'. run A D hk px = Some (px', snd (serve hk ms nw)) \<and> at a0 d0 ms' px' (fst (serve hk ms nw))"
  using assms
proof (induction ms arbitrary: px nw)
  case Nil
  with at_recv_agent(1) [OF Nil refl] show ?case by (subst run.simps) auto
next
  case (Cons m ms)
  from at_recv_agent(2) [OF Cons.prems refl] obtain t where t: "t_recv A (px_agent px) = (t, Inr (Some m))"
      "at a0 d0 ms (px\<lparr>px_agent := t\<rparr>) nw" by blast
  obtain nw1 r where s: "serve_message hk m nw = (nw1, r)" by fastforce
  with handle_message_refines [OF t(2), of hk m] obtain px1 where
    1: "handle_message A D hk m (px\<lparr>px_agent := t\<rparr>) = Some (px1, r)" "at a0 d0 ms px1 nw1" by auto
  show ?case
  proof (cases r)
    case (Inl e)
    with t(1) 1 s show ?thesis by (subst run.simps) auto
  next
    case (Inr u)
    from Cons.IH [OF 1(2)] t(1) 1(1) s Inr show ?thesis by (subst run.simps) simp
  qed
qed

text \<open>From the initial state: the loop returns, and with the outputs and the world of the specification.\<close>

lemma run_spec:
  assumes "a_ok (px_agent px)" and "d_ok (px_down px)"
  shows "\<exists>px'. run A D hk px = Some (px', snd (serve hk (a_in (px_agent px))
      \<lparr>nw_from_down = d_in (px_down px), nw_to_agent = [], nw_to_down = [], nw_core = px_core px, nw_world = px_world px\<rparr>)) \<and>
    (let nw' = fst (serve hk (a_in (px_agent px))
      \<lparr>nw_from_down = d_in (px_down px), nw_to_agent = [], nw_to_down = [], nw_core = px_core px, nw_world = px_world px\<rparr>)
     in a_out (px_agent px') = a_out (px_agent px) @ map a_seen (nw_to_agent nw') \<and>
        d_out (px_down px') = d_out (px_down px) @ map d_seen (nw_to_down nw') \<and>
        px_core px' = nw_core nw' \<and> px_world px' = nw_world nw')"
proof -
  let ?nw = "\<lparr>nw_from_down = d_in (px_down px), nw_to_agent = [], nw_to_down = [], nw_core = px_core px, nw_world = px_world px\<rparr>"
  have "at (a_out (px_agent px)) (d_out (px_down px)) (a_in (px_agent px)) px ?nw" using assms by (simp add: at_def)
  from run_refines [OF this, of hk] show ?thesis by (auto simp: at_def Let_def)
qed

end

interpretation mem_proxy: proxy_ends memory_ops mt_incoming "\<lambda>t. map Inr (mt_sent t)" Inr "\<lambda>t. True"
  memory_ops mt_incoming "\<lambda>t. map Inr (mt_sent t)" Inr "\<lambda>t. True"
  ..

interpretation stdio_proxy: proxy_ends
  "stream_ops J" "\<lambda>t. map projr (read_frames J (sr_reader t))" "\<lambda>t. read_frames J (sr_writer t)" "wire J" "stream_usable J"
  "stream_ops K" "\<lambda>t. map projr (read_frames K (sr_reader t))" "\<lambda>t. read_frames K (sr_writer t)" "wire K" "stream_usable K"
  for J K
  ..

section \<open>What the proxy guarantees\<close>

text \<open>
  C28. The stdio proxy does what the specification says: on any two byte streams that carry
  well-formed frames the loop returns, and what the agent and the server read, the discovered
  schemas and the world of the hooks are those of \<open>serve\<close> on the messages of the two streams.
\<close>

theorem stdio_proxy_refines_serve:
  assumes "stream_usable J (px_agent px)" and "stream_usable K (px_down px)"
  shows "\<exists>px'. run (stream_ops J) (stream_ops K) hk px =
      Some (px', snd (serve hk (map projr (read_frames J (sr_reader (px_agent px))))
        \<lparr>nw_from_down = map projr (read_frames K (sr_reader (px_down px))), nw_to_agent = [], nw_to_down = [],
         nw_core = px_core px, nw_world = px_world px\<rparr>)) \<and>
    (let nw' = fst (serve hk (map projr (read_frames J (sr_reader (px_agent px))))
        \<lparr>nw_from_down = map projr (read_frames K (sr_reader (px_down px))), nw_to_agent = [], nw_to_down = [],
         nw_core = px_core px, nw_world = px_world px\<rparr>)
     in read_frames J (sr_writer (px_agent px')) = read_frames J (sr_writer (px_agent px)) @ map (wire J) (nw_to_agent nw') \<and>
        read_frames K (sr_writer (px_down px')) = read_frames K (sr_writer (px_down px)) @ map (wire K) (nw_to_down nw') \<and>
        px_core px' = nw_core nw' \<and> px_world px' = nw_world nw')"
  using stdio_proxy.run_spec [OF assms] .

definition idle_stream :: stream_transport where
  "idle_stream = \<lparr>sr_reader = [], sr_writer = [], sr_broken = None\<rparr>"

lemma idle_stream_usable: "rpc_laws J \<Longrightarrow> stream_usable J idle_stream"
  by (auto simp: stream_usable_def idle_stream_def intro: exI [of _ "[]"])

definition refusing_hooks :: "unit hooks" where
  "refusing_hooks = \<lparr>hk_decide = (\<lambda>c h. (h, Refuse ''no'')), hk_observe = None, hk_transform = None, hk_now = (\<lambda>h. from_epoch_ms 0)\<rparr>"

definition demo_core :: interceptor where
  "demo_core = new_interceptor 7 (from_epoch_ms 0) None \<lparr>pc_server_name = ''s'', pc_agent = ''a'', pc_trust = None\<rparr> ''stdio''"

theorem stdio_proxy_refines_serve_witness:
  "\<exists>px'. run (stream_ops demo_rpc) (stream_ops demo_rpc) refusing_hooks
      \<lparr>px_agent = idle_stream, px_down = idle_stream, px_core = demo_core, px_world = ()\<rparr> = Some (px', Inr ())"
  using stdio_proxy_refines_serve [where J = demo_rpc and K = demo_rpc and hk = refusing_hooks and
      px = "\<lparr>px_agent = idle_stream, px_down = idle_stream, px_core = demo_core, px_world = ()\<rparr>"]
    idle_stream_usable [OF rpc_laws_demo]
  by (auto simp: idle_stream_def)

text \<open>Requests and responses in a list of messages.\<close>

definition request_ids :: "rpc_message list \<Rightarrow> request_id list" where
  "request_ids ms = List.map_filter (\<lambda>m. case m of Request r \<Rightarrow> Some (rq_id r) | _ \<Rightarrow> None) ms"

definition response_ids :: "rpc_message list \<Rightarrow> request_id list" where
  "response_ids ms = List.map_filter (\<lambda>m. case m of Response r \<Rightarrow> Some (rsp_id r) | _ \<Rightarrow> None) ms"

lemma ids_simps [simp]:
  "response_ids [] = []" "response_ids (ms @ ns) = response_ids ms @ response_ids ns"
  "response_ids [Response r] = [rsp_id r]" "response_ids [Notification n] = []"
  "request_ids [] = []" "request_ids (Request q # ms) = rq_id q # request_ids ms"
  "request_ids (Notification n # ms) = request_ids ms" "request_ids (Response r # ms) = request_ids ms"
  by (simp_all add: response_ids_def request_ids_def List.map_filter_simps List.map_filter_def)

lemma await_answers:
  "await hk call rid ns nw = (nw', r) \<Longrightarrow> response_ids (nw_to_agent nw') = response_ids (nw_to_agent nw)"
  "await hk call rid ns nw = (nw', Inr resp) \<Longrightarrow> rsp_id resp = rid"
  by (induction hk call rid ns nw rule: await.induct) (auto split: if_splits prod.splits)

lemma complete_id [simp]: "complete hk call resp h = (h', resp') \<Longrightarrow> rsp_id resp' = rsp_id resp"
  by (auto simp: complete_def Let_def split: option.splits prod.splits)

lemma serve_message_answers:
  assumes "serve_message hk m nw = (nw', Inr u)"
  shows "response_ids (nw_to_agent nw') = response_ids (nw_to_agent nw) @ request_ids [m]"
proof (cases m)
  case (Request req)
  have ask: "response_ids (nw_to_agent nw1) = response_ids (nw_to_agent nw0) \<and> rsp_id resp = rq_id req"
    if "ask_down hk req call nw0 = (nw1, Inr resp)" for call nw0 nw1 resp
    using that await_answers [of hk call "rq_id req" "nw_from_down nw0"] by (fastforce simp: ask_down_def)
  show ?thesis
  proof (cases "rq_method req = ''tools/call''")
    case True
    obtain h i where i: "intercept hk (nw_core nw) req None (nw_world nw) = (h, i)" by fastforce
    show ?thesis
    proof (cases i)
      case (IForward call)
      with assms i Request True obtain nw1 resp where
        "ask_down hk req (Some call) (nw\<lparr>nw_world := h\<rparr>) = (nw1, Inr resp)"
        "nw' = answer (snd (complete hk call resp (nw_world nw1))) (nw1\<lparr>nw_world := fst (complete hk call resp (nw_world nw1))\<rparr>)"
        by (auto simp: serve_message_def serve_tool_call_def result_simps case_prod_beta Let_def)
      with ask Request show ?thesis by (simp add: answer_def) (metis complete_id prod.collapse)
    next
      case (IRefused resp)
      then have "rsp_id resp = rq_id req"
        using i by (auto simp: intercept_def refusal_def error_response_def Let_def split: prod.splits proxy_decision.splits)
      with assms i IRefused Request True show ?thesis by (auto simp: serve_message_def serve_tool_call_def answer_def)
    qed
  next
    case False
    with assms Request ask show ?thesis by (auto simp: serve_message_def serve_request_def answer_def result_simps)
  qed
qed (use assms in \<open>auto simp: serve_message_def\<close>)

text \<open>
  Every request is answered once and in order: when the agent closes the connection and the
  proxy ends normally, the responses it has sent to the agent carry exactly the ids of the agent's
  requests, in the order they came, whatever notifications, requests and stray responses the server
  mixed in.
\<close>

theorem requests_answered_in_order:
  assumes "serve hk ms nw = (nw', Inr ())"
  shows "response_ids (nw_to_agent nw') = response_ids (nw_to_agent nw) @ request_ids ms"
  using assms
proof (induction ms arbitrary: nw)
  case (Cons m ms)
  then obtain nw1 where 1: "serve_message hk m nw = (nw1, Inr ())" "serve hk ms nw1 = (nw', Inr ())"
    by (auto simp: result_simps)
  from Cons.IH [OF 1(2)] serve_message_answers [OF 1(1)] show ?case
    by (cases m) simp_all
qed simp

definition demo_net :: "unit net" where
  "demo_net = \<lparr>nw_from_down = [], nw_to_agent = [], nw_to_down = [], nw_core = demo_core, nw_world = ()\<rparr>"

theorem requests_answered_in_order_witness:
  "\<exists>nw'. serve refusing_hooks [Request (new_request (IdNum 1) ''tools/call'' None)] demo_net = (nw', Inr ()) \<and>
     response_ids (nw_to_agent nw') = [IdNum 1]"
proof -
  obtain nw' where s: "serve refusing_hooks [Request (new_request (IdNum 1) ''tools/call'' None)] demo_net = (nw', Inr ())"
    by (simp add: serve_message_def serve_tool_call_def new_request_def intercept_def refusing_hooks_def)
  from requests_answered_in_order [OF s] s show ?thesis by (simp add: demo_net_def new_request_def)
qed

text \<open>
  A notification that comes while a request other than a tool call is in flight reaches the agent
  without its parameters: they are taken out of the message before the code looks whether there is
  a call to mask them for.
\<close>

theorem notifications_lose_params:
  assumes "rq_method req \<noteq> ''tools/call''" and "rsp_id resp = rq_id req"
    and "nw_from_down nw = [Notification n, Response resp]"
  shows "nw_to_agent (fst (serve_message hk (Request req) nw)) =
    nw_to_agent nw @ [Notification (n\<lparr>nt_params := None\<rparr>), Response resp]"
  using assms by (simp add: serve_message_def serve_request_def ask_down_def relayed_def answer_def)

section \<open>The contract of the hooks\<close>

text \<open>
  The world keeps an invariant, a call that the decision hook forwards is vouched for, and what was
  vouched for stays so.  Only admissible calls need be decided well.
\<close>

locale hook_contract =
  fixes hk :: "'h hooks"
    and I :: "'h \<Rightarrow> bool"
    and vouched :: "'h \<Rightarrow> tool_call \<Rightarrow> bool"
    and admissible :: "tool_call \<Rightarrow> bool"
  assumes decide_ok: "I h \<Longrightarrow> admissible c \<Longrightarrow> hk_decide hk c h = (h', r) \<Longrightarrow>
      I h' \<and> (r = Forward \<longrightarrow> vouched h' c) \<and> (\<forall>c'. vouched h c' \<longrightarrow> vouched h' c')"
    and observe_ok: "I h \<Longrightarrow> hk_observe hk = Some f \<Longrightarrow> I (f c v h) \<and> (\<forall>c'. vouched h c' \<longrightarrow> vouched (f c v h) c')"
    and transform_ok: "I h \<Longrightarrow> hk_transform hk = Some t \<Longrightarrow> t c v h = (h', v') \<Longrightarrow>
      I h' \<and> (\<forall>c'. vouched h c' \<longrightarrow> vouched h' c')"

definition calls_down :: "'h net \<Rightarrow> rpc_request set" where
  "calls_down nw = {r. Request r \<in> set (nw_to_down nw) \<and> rq_method r = ''tools/call''}"

lemma make_call_schemas [simp]: "make_call (ic\<lparr>ic_tool_schemas := x\<rparr>) now req cid = make_call ic now req cid"
  by (cases cid) (simp_all add: make_call_def Let_def)

definition same_core :: "interceptor \<Rightarrow> interceptor \<Rightarrow> bool" where
  "same_core ic ic' \<longleftrightarrow> (\<exists>x. ic' = ic\<lparr>ic_tool_schemas := x\<rparr>)"

lemma same_core_refl [simp]: "same_core ic ic"
  unfolding same_core_def by (rule exI [of _ "ic_tool_schemas ic"]) simp

lemma same_core_observe: "same_core ic ic' \<Longrightarrow> same_core ic (observe_response meth resp ic')"
  by (auto simp: same_core_def observe_response_def split: option.splits)

lemma same_core_call: "same_core ic ic' \<Longrightarrow> make_call ic' now req cid = make_call ic now req cid"
  by (auto simp: same_core_def)

context hook_contract
begin

definition grows :: "'h \<Rightarrow> 'h \<Rightarrow> bool" where
  "grows h h' \<longleftrightarrow> I h' \<and> (\<forall>c. vouched h c \<longrightarrow> vouched h' c)"

lemma grows_trans: "grows h h1 \<Longrightarrow> grows h1 h2 \<Longrightarrow> grows h h2"
  by (simp add: grows_def)

lemma relayed_grows: "I h \<Longrightarrow> relayed hk call n h = (h', n') \<Longrightarrow> grows h h'"
  using transform_ok [of h]
  by (auto simp: relayed_def mask_def grows_def split: option.splits prod.splits)

lemma complete_grows:
  assumes "I h" and "complete hk call resp h = (h', resp')"
  shows "grows h h'"
proof -
  define h1 where "h1 = (case (hk_observe hk, rsp_result resp) of (Some f, Some v) \<Rightarrow> f call v h | _ \<Rightarrow> h)"
  have 1: "grows h h1" using observe_ok [OF assms(1)] assms(1) by (auto simp: h1_def grows_def split: option.splits)
  have c: "complete hk call resp h = (case (hk_transform hk, rsp_result resp) of
      (Some t, Some v) \<Rightarrow> (let (h2, v') = t call v h1 in (h2, resp\<lparr>rsp_result := Some v'\<rparr>))
    | _ \<Rightarrow> (h1, resp\<lparr>rsp_result := None\<rparr>))"
    by (simp only: complete_def h1_def Let_def)
  from 1 have "I h1" by (simp add: grows_def)
  then have "grows h1 h'"
    using assms(2) transform_ok [of h1] unfolding c by (auto simp: grows_def split: option.splits prod.splits)
  with 1 show ?thesis by (rule grows_trans)
qed

lemma await_grows:
  "await hk call rid ns nw = (nw', r) \<Longrightarrow> I (nw_world nw) \<Longrightarrow>
   grows (nw_world nw) (nw_world nw') \<and> calls_down nw' = calls_down nw \<and> nw_core nw' = nw_core nw"
proof (induction ns arbitrary: nw)
  case Nil
  then show ?case by (auto simp: grows_def calls_down_def)
next
  case (Cons m ns)
  show ?case
  proof (cases m)
    case (Request q)
    with Cons.IH [of "nw\<lparr>nw_from_down := ns, nw_to_down := nw_to_down nw @ [Response (not_proxied (rq_id q))]\<rparr>"] Cons.prems
    show ?thesis by (simp add: calls_down_def)
  next
    case (Response q)
    with Cons.IH [of "nw\<lparr>nw_from_down := ns\<rparr>"] Cons.prems show ?thesis
      by (auto simp: calls_down_def grows_def split: if_splits)
  next
    case (Notification n)
    obtain h n' where n: "relayed hk call n (nw_world nw) = (h, n')" by fastforce
    with relayed_grows [OF Cons.prems(2)] have "grows (nw_world nw) h" by blast
    with Notification n Cons.prems Cons.IH
      [of "nw\<lparr>nw_from_down := ns, nw_world := h, nw_to_agent := nw_to_agent nw @ [Notification n']\<rparr>"]
    show ?thesis by (auto simp: calls_down_def grows_def)
  qed
qed

text \<open>Every tool call that has gone downstream is vouched for, at the time it was captured.\<close>

definition safe :: "interceptor \<Rightarrow> 'h net \<Rightarrow> bool" where
  "safe ic nw \<longleftrightarrow> I (nw_world nw) \<and> same_core ic (nw_core nw) \<and>
     (\<forall>r\<in>calls_down nw. \<exists>now. vouched (nw_world nw) (make_call ic now r None))"

lemma safe_step:
  assumes "safe ic nw" and "grows (nw_world nw) (nw_world nw')" and "same_core ic (nw_core nw')"
    and "\<And>r. r \<in> calls_down nw' \<Longrightarrow> r \<in> calls_down nw \<or> (\<exists>now. vouched (nw_world nw') (make_call ic now r None))"
  shows "safe ic nw'"
  using assms unfolding safe_def grows_def by blast

lemma ask_down_safe:
  assumes "ask_down hk req call nw = (nw', r)" and "safe ic nw"
    and "rq_method req = ''tools/call'' \<longrightarrow> (\<exists>now. vouched (nw_world nw) (make_call ic now req None))"
  shows "safe ic nw'"
proof -
  define nw0 where "nw0 = nw\<lparr>nw_to_down := nw_to_down nw @ [Request req]\<rparr>"
  have 0: "safe ic nw0" using assms(2,3) by (auto simp: nw0_def safe_def calls_down_def)
  then have "I (nw_world nw0)" and "same_core ic (nw_core nw0)" by (simp_all only: safe_def)
  with await_grows [of call "rq_id req" "nw_from_down nw" nw0 nw' r] assms(1)
  have "grows (nw_world nw0) (nw_world nw')" "calls_down nw' = calls_down nw0" "same_core ic (nw_core nw')"
    by (simp_all add: ask_down_def nw0_def)
  with 0 show ?thesis by (intro safe_step [of ic nw0 nw']) blast+
qed

lemma serve_tool_call_safe:
  assumes s: "serve_tool_call hk req nw = (nw', r)" and safe: "safe ic nw"
    and adm: "\<And>now. admissible (make_call ic now req None)"
  shows "safe ic nw'"
proof -
  let ?now = "hk_now hk (nw_world nw)"
  let ?c = "make_call ic ?now req None"
  have core: "make_call (nw_core nw) ?now req None = ?c" using safe by (simp add: safe_def same_core_call)
  obtain h d where d: "hk_decide hk ?c (nw_world nw) = (h, d)" by fastforce
  from decide_ok [OF _ adm d] safe have h: "I h" "d = Forward \<longrightarrow> vouched h ?c" "grows (nw_world nw) h"
    by (auto simp: safe_def grows_def)
  from safe h have safe1: "safe ic (nw\<lparr>nw_world := h\<rparr>)"
    by (intro safe_step [OF safe]) (auto simp: safe_def calls_down_def)
  show ?thesis
  proof (cases d)
    case (Refuse message)
    with s d core safe1 show ?thesis
      by (auto simp: serve_tool_call_def intercept_def Let_def answer_def safe_def calls_down_def)
  next
    case Forward
    obtain nw1 x where a: "ask_down hk req (Some ?c) (nw\<lparr>nw_world := h\<rparr>) = (nw1, x)" by fastforce
    have safe2: "safe ic nw1" by (rule ask_down_safe [OF a safe1]) (use h(2) Forward in auto)
    show ?thesis
    proof (cases x)
      case (Inl e)
      with s d core a safe2 Forward show ?thesis by (auto simp: serve_tool_call_def intercept_def Let_def)
    next
      case (Inr resp)
      obtain h2 resp' where c: "complete hk ?c resp (nw_world nw1) = (h2, resp')" by fastforce
      from complete_grows [OF _ c] safe2 have "grows (nw_world nw1) h2" by (simp add: safe_def)
      then have "safe ic (nw1\<lparr>nw_world := h2\<rparr>)"
        using safe2 by (intro safe_step [OF safe2]) (auto simp: safe_def calls_down_def)
      with s d core a c Inr Forward show ?thesis
        by (auto simp: serve_tool_call_def intercept_def Let_def answer_def safe_def calls_down_def)
    qed
  qed
qed

lemma serve_message_safe:
  assumes s: "serve_message hk m nw = (nw', r)" and safe: "safe ic nw"
    and adm: "\<And>req now. m = Request req \<Longrightarrow> admissible (make_call ic now req None)"
  shows "safe ic nw'"
proof (cases m)
  case (Request req)
  show ?thesis
  proof (cases "rq_method req = ''tools/call''")
    case True
    with s Request serve_tool_call_safe [OF _ safe adm [OF Request]] show ?thesis by (auto simp: serve_message_def)
  next
    case False
    obtain nw1 x where a: "ask_down hk req None nw = (nw1, x)" by fastforce
    have "safe ic nw1" by (rule ask_down_safe [OF a safe]) (use False in simp)
    with s a Request False show ?thesis
      by (cases x) (auto simp: serve_message_def serve_request_def answer_def safe_def calls_down_def same_core_observe)
  qed
qed (use s safe in \<open>auto simp: serve_message_def safe_def calls_down_def\<close>)

lemma serve_safe:
  assumes "serve hk ms nw = (nw', r)" and "safe ic nw"
    and "\<And>req now. Request req \<in> set ms \<Longrightarrow> admissible (make_call ic now req None)"
  shows "safe ic nw'"
  using assms
proof (induction ms arbitrary: nw)
  case (Cons m ms)
  obtain nw1 x where 1: "serve_message hk m nw = (nw1, x)" by fastforce
  have "safe ic nw1" by (rule serve_message_safe [OF 1 Cons.prems(2)]) (use Cons.prems(3) in auto)
  with 1 Cons.IH [of nw1] Cons.prems show ?case by (cases x) (auto simp: sbind_def)
qed simp

end

end
