(* ===== verification/Mcp_Gate.thy ===== *)
theory Mcp_Gate
  imports Mcp_Proxy Pipeline Policy_Engine
begin

text \<open>
  \<open>mcp_interceptor\<close> of \<open>writ-cli/src/cmds.rs\<close>: the hooks that put the decision pipeline behind an MCP
  proxy, and what the whole then guarantees: a tool call reaches the server only after its decision
  is in the ledger, and a redacted result reaches the agent only masked.
\<close>

section \<open>The hooks\<close>

text \<open>
  Parameters: \<open>regex\<close> (\<open>Regex::new\<close> is in \<open>policy_deps\<close>), \<open>serde_json\<close>, the derived \<open>Debug\<close> of a
  verdict, and the clock.
\<close>

record gate_deps =
  gd_policy :: policy_deps
  gd_json :: rpc_deps
  gd_replace_all :: "str \<Rightarrow> str \<Rightarrow> str \<Rightarrow> str"
  gd_debug_verdict :: "verdict \<Rightarrow> str"
  gd_clock :: "nat \<Rightarrow> timestamp"

text \<open>What the closures share: the store, the decision map, and how often the clock was read.\<close>

record 's gate_world =
  gw_store :: 's
  gw_decisions :: "str \<rightharpoonup> ledger_record \<times> str list"
  gw_ticks :: nat

fun refusal_message :: "gate_deps \<Rightarrow> verdict \<Rightarrow> str" where
  "refusal_message G (Deny rid why loc) =
     ''writ denied this: rule \"'' @ rid @ ''\" '' @ em_dash @ '' '' @ why @ '' ('' @
     (case loc of Some l \<Rightarrow> l | None \<Rightarrow> ''policy default'') @ '')''"
| "refusal_message G (Ask rid _ _ _ _) =
     ''writ denied this: rule \"'' @ rid @
     ''\" requires human approval; none available in this context (fail closed)''"
| "refusal_message G v = ''writ denied this: '' @ gd_debug_verdict G v"

definition redact_patterns :: "verdict \<Rightarrow> str list" where
  "redact_patterns v = (case v of Redact _ ps \<Rightarrow> ps | _ \<Rightarrow> [])"

text \<open>The decision hook; the telemetry span and the lines printed for people are not modelled.\<close>

definition decide_hook ::
  "ledger_deps \<Rightarrow> 's store_ops \<Rightarrow> gate_deps \<Rightarrow> native_engine \<Rightarrow> tool_call \<Rightarrow> 's gate_world \<Rightarrow>
   's gate_world \<times> proxy_decision" where
  "decide_hook L S G eng call w =
     (case handle_call L S (gd_clock G (Suc (gw_ticks w))) (evaluate (gd_policy G) eng) fail_closed_approver call (gw_store w) of
        (s, Inr d) \<Rightarrow>
          (let w = w\<lparr>gw_store := s, gw_ticks := gw_ticks w + 2\<rparr>
           in if should_dispatch d
              then (w\<lparr>gw_decisions := (gw_decisions w)(tc_call_id call \<mapsto> (do_record d, redact_patterns (do_verdict d)))\<rparr>, Forward)
              else (w, Refuse (refusal_message G (do_verdict d))))
      | (s, Inl e) \<Rightarrow>
          (w\<lparr>gw_store := s, gw_ticks := gw_ticks w + 2\<rparr>,
           Refuse (''writ internal error (fail closed): '' @ show_writ_error e)))"

text \<open>The observation hook: an execution record for a forwarded call; a failure to write it is ignored.\<close>

definition observe_hook ::
  "ledger_deps \<Rightarrow> 's store_ops \<Rightarrow> gate_deps \<Rightarrow> tool_call \<Rightarrow> json \<Rightarrow> 's gate_world \<Rightarrow> 's gate_world" where
  "observe_hook L S G call result w =
     (case gw_decisions w (tc_call_id call) of
        None \<Rightarrow> w
      | Some (rec, _) \<Rightarrow>
          w\<lparr>gw_store := fst (writer_record_execution L S (gd_clock G (gw_ticks w)) rec ''mcp-proxy'' 0
                           (json_to_string (gd_json G) result) (gw_store w)),
            gw_ticks := Suc (gw_ticks w)\<rparr>)"

definition MASK :: str where
  "MASK = ''[redacted-by-writ]''"

definition content_block :: "str \<Rightarrow> (str \<times> json) list \<Rightarrow> json" where
  "content_block t rest = JObj ((''content'', JArr [JObj [(''text'', JStr t), (''type'', JStr ''text'')]]) # rest)"

definition withheld :: json where
  "withheld = content_block ''[output withheld by writ: a redact pattern for this call is invalid]'' [(''isError'', JBool True)]"

text \<open>The loop over the patterns: \<open>None\<close> when one does not compile.\<close>

fun mask_text :: "gate_deps \<Rightarrow> str list \<Rightarrow> str \<Rightarrow> str option" where
  "mask_text G [] t = Some t"
| "mask_text G (p # ps) t =
     (case regex_new (gd_policy G) p of
        None \<Rightarrow> mask_text G ps (gd_replace_all G p t MASK)
      | Some _ \<Rightarrow> None)"

definition redact_json :: "gate_deps \<Rightarrow> str list \<Rightarrow> json \<Rightarrow> json" where
  "redact_json G ps result =
     (if ps = [] then result
      else case mask_text G ps (json_to_string (gd_json G) result) of
             None \<Rightarrow> withheld
           | Some t \<Rightarrow> (case json_from_str (gd_json G) t of Inr j \<Rightarrow> j | Inl _ \<Rightarrow> content_block t []))"

definition transform_hook :: "gate_deps \<Rightarrow> tool_call \<Rightarrow> json \<Rightarrow> 's gate_world \<Rightarrow> 's gate_world \<times> json" where
  "transform_hook G call result w =
     (w, redact_json G (case gw_decisions w (tc_call_id call) of Some (_, ps) \<Rightarrow> ps | None \<Rightarrow> []) result)"

definition mcp_interceptor :: "ledger_deps \<Rightarrow> 's store_ops \<Rightarrow> gate_deps \<Rightarrow> native_engine \<Rightarrow> 's gate_world hooks" where
  "mcp_interceptor L S G eng =
     \<lparr>hk_decide = decide_hook L S G eng, hk_observe = Some (observe_hook L S G),
      hk_transform = Some (transform_hook G), hk_now = (\<lambda>w. gd_clock G (gw_ticks w))\<rparr>"

lemma mcp_interceptor_simps [simp]:
  "hk_decide (mcp_interceptor L S G eng) = decide_hook L S G eng"
  "hk_observe (mcp_interceptor L S G eng) = Some (observe_hook L S G)"
  "hk_transform (mcp_interceptor L S G eng) = Some (transform_hook G)"
  "hk_now (mcp_interceptor L S G eng) w = gd_clock G (gw_ticks w)"
  by (simp_all add: mcp_interceptor_def)

section \<open>The hooks keep the contract\<close>

text \<open>The decision of a call is in the ledger, and it is one that lets the call run.\<close>

definition lets_run :: "verdict \<Rightarrow> bool" where
  "lets_run v = (case v of Allow _ \<Rightarrow> True | Redact _ _ \<Rightarrow> True | _ \<Rightarrow> False)"

definition on_record :: "gate_deps \<Rightarrow> native_engine \<Rightarrow> ledger_record list \<Rightarrow> tool_call \<Rightarrow> bool" where
  "on_record G eng rs c \<longleftrightarrow>
     lets_run (evaluate (gd_policy G) eng (from_call c)) \<and>
     (\<exists>r\<in>set rs. rkind r = Decision \<and> rcall r = Some c \<and> rverdict r = Some (evaluate (gd_policy G) eng (from_call c)))"

lemma on_record_append: "on_record G eng rs c \<Longrightarrow> on_record G eng (rs @ rs') c"
  by (auto simp: on_record_def)

text \<open>The decision map only holds decisions that are in the ledger.\<close>

definition map_ok :: "ledger_record list \<Rightarrow> (str \<rightharpoonup> ledger_record \<times> str list) \<Rightarrow> bool" where
  "map_ok rs m \<longleftrightarrow> (\<forall>k rec ps. m k = Some (rec, ps) \<longrightarrow> rec \<in> set rs \<and> rkind rec = Decision)"

lemma map_ok_append: "map_ok rs m \<Longrightarrow> map_ok (rs @ rs') m"
  by (fastforce simp: map_ok_def)

context ledger_store
begin

lemma observe_hook_ok:
  assumes "inv (gw_store w)" and "map_ok (chain (gw_store w)) (gw_decisions w)"
  shows "\<exists>rs. inv (gw_store (observe_hook L S G c v w)) \<and>
    chain (gw_store (observe_hook L S G c v w)) = chain (gw_store w) @ rs \<and>
    gw_decisions (observe_hook L S G c v w) = gw_decisions w"
proof (cases "gw_decisions w (tc_call_id c)")
  case None
  with assms show ?thesis by (intro exI [of _ "[]"]) (simp add: observe_hook_def)
next
  case (Some e)
  obtain rec ps where e: "e = (rec, ps)" by fastforce
  obtain s' r where x: "writer_record_execution L S (gd_clock G (gw_ticks w)) rec ''mcp-proxy'' 0
      (json_to_string (gd_json G) v) (gw_store w) = (s', r)" by fastforce
  have "\<exists>rs. inv s' \<and> chain s' = chain (gw_store w) @ rs"
  proof (cases r)
    case (Inl e)
    with writer_record_execution_err [OF assms(1)] x have "inv s' \<and> chain s' = chain (gw_store w)" by blast
    then show ?thesis by (intro exI [of _ "[]"]) simp
  next
    case (Inr rec')
    with record_execution_ok [OF assms(1)] x show ?thesis by blast
  qed
  with Some e x show ?thesis by (simp add: observe_hook_def)
qed

lemma decide_hook_ok:
  assumes "inv (gw_store w)" and "map_ok (chain (gw_store w)) (gw_decisions w)" and "float_free (tc_args c)"
    and "decide_hook L S G eng c w = (w', r)"
  shows "inv (gw_store w') \<and> map_ok (chain (gw_store w')) (gw_decisions w') \<and>
    (\<exists>rs. chain (gw_store w') = chain (gw_store w) @ rs) \<and>
    (r = Forward \<longrightarrow> on_record G eng (chain (gw_store w')) c \<and>
       map_option snd (gw_decisions w' (tc_call_id c)) = Some (redact_patterns (evaluate (gd_policy G) eng (from_call c))))"
proof -
  let ?P = "evaluate (gd_policy G) eng"
  obtain s x where x: "handle_call L S (gd_clock G (Suc (gw_ticks w))) ?P fail_closed_approver c (gw_store w) = (s, x)"
    by fastforce
  show ?thesis
  proof (cases x)
    case (Inl e)
    with handle_call_err [OF assms(1)] x have s: "inv s" "chain s = chain (gw_store w)" by blast+
    with assms(2,4) x Inl show ?thesis by (auto simp: decide_hook_def)
  next
    case (Inr d)
    from handle_call_ok [OF assms(1,3), of _ ?P fail_closed_approver s d] x Inr have
      d: "inv s" "chain s = chain (gw_store w) @ [do_record d]" "rkind (do_record d) = Decision"
        "rcall (do_record d) = Some c" "rverdict (do_record d) = Some (?P (from_call c))" by blast+
    have m: "map_ok (chain s) (gw_decisions w)" using assms(2) by (simp add: d(2) map_ok_append)
    show ?thesis
    proof (cases "should_dispatch d")
      case False
      with assms(4) x Inr d m show ?thesis by (auto simp: decide_hook_def Let_def)
    next
      case True
      from x Inr obtain a where a: "decide ?P fail_closed_approver c = Inr (do_verdict d, a)"
        by (auto simp: handle_call_def result_simps split: sum.splits)
      have na: "\<not> is_ask (?P (from_call c))"
      proof
        assume "is_ask (?P (from_call c))"
        then obtain ask where "ask_from_verdict (?P (from_call c)) = Some ask" by (cases "?P (from_call c)") auto
        with a True show False
          by (cases "do_verdict d") (auto simp: decide_def fail_closed_approver_def resolve_approval_def should_dispatch_def)
      qed
      then have v: "do_verdict d = ?P (from_call c)"
        using a by (cases "?P (from_call c)") (auto simp: decide_def)
      with True have "lets_run (?P (from_call c))" by (simp add: should_dispatch_def lets_run_def)
      with d have "on_record G eng (chain s) c" by (auto simp: on_record_def)
      moreover have "map_ok (chain s) ((gw_decisions w)(tc_call_id c \<mapsto> (do_record d, redact_patterns (do_verdict d))))"
        using m d(2,3) by (auto simp: map_ok_def)
      ultimately show ?thesis using assms(4) x Inr True d v by (auto simp: decide_hook_def Let_def)
    qed
  qed
qed

end

definition gate_inv :: "ledger_deps \<Rightarrow> fstore gate_world \<Rightarrow> bool" where
  "gate_inv L w \<longleftrightarrow> fs_inv L (gw_store w) \<and> map_ok (fs_chain L (gw_store w)) (gw_decisions w)"

interpretation gate: hook_contract "mcp_interceptor L (fs_ops L) G eng" "gate_inv L"
  "\<lambda>w. on_record G eng (fs_chain L (gw_store w))" "\<lambda>c. float_free (tc_args c)" for L G eng
proof
  fix w c w' r
  assume "gate_inv L w" "float_free (tc_args c)" "hk_decide (mcp_interceptor L (fs_ops L) G eng) c w = (w', r)"
  with fs.decide_hook_ok [of L w c G eng w' r]
  show "gate_inv L w' \<and> (r = Forward \<longrightarrow> on_record G eng (fs_chain L (gw_store w')) c) \<and>
      (\<forall>c'. on_record G eng (fs_chain L (gw_store w)) c' \<longrightarrow> on_record G eng (fs_chain L (gw_store w')) c')"
    by (auto simp: gate_inv_def on_record_append)
next
  fix w f c v
  assume "gate_inv L w" "hk_observe (mcp_interceptor L (fs_ops L) G eng) = Some f"
  with fs.observe_hook_ok [of L w G c v]
  show "gate_inv L (f c v w) \<and>
      (\<forall>c'. on_record G eng (fs_chain L (gw_store w)) c' \<longrightarrow> on_record G eng (fs_chain L (gw_store (f c v w))) c')"
    by (auto simp: gate_inv_def on_record_append map_ok_append)
next
  fix w t c v w' v'
  assume "gate_inv L w" "hk_transform (mcp_interceptor L (fs_ops L) G eng) = Some t" "t c v w = (w', v')"
  then show "gate_inv L w' \<and>
      (\<forall>c'. on_record G eng (fs_chain L (gw_store w)) c' \<longrightarrow> on_record G eng (fs_chain L (gw_store w')) c')"
    by (auto simp: transform_hook_def)
qed

section \<open>The gate as a whole\<close>

text \<open>
  C1. No tool call reaches the server without its decision: run the proxy between any two byte streams
  of well-formed frames, with the policy engine and the file ledger behind it.  The loop returns,
  the ledger is intact, and for every \<open>tools/call\<close> among the messages written to the server the
  ledger holds the decision record of that call, with a verdict of the engine that allows or
  redacts it.  (The arguments of the agent's calls have no floating-point numbers.)
\<close>

theorem mcp_gate_end_to_end:
  assumes "stream_usable J (px_agent px)" and "stream_usable K (px_down px)" and "gate_inv L (px_world px)"
    and "\<And>req now. Request req \<in> set (map projr (read_frames J (sr_reader (px_agent px)))) \<Longrightarrow>
      float_free (tc_args (make_call (px_core px) now req None))"
  shows "\<exists>px' res ms. run (stream_ops J) (stream_ops K) (mcp_interceptor L (fs_ops L) G eng) px = Some (px', res) \<and>
    read_frames K (sr_writer (px_down px')) = read_frames K (sr_writer (px_down px)) @ map (wire K) ms \<and>
    fs_inv L (gw_store (px_world px')) \<and>
    (\<forall>req. Request req \<in> set ms \<and> rq_method req = ''tools/call'' \<longrightarrow>
       (\<exists>now. on_record G eng (fs_chain L (gw_store (px_world px'))) (make_call (px_core px) now req None)))"
proof -
  let ?hk = "mcp_interceptor L (fs_ops L) G eng"
  let ?ms = "map projr (read_frames J (sr_reader (px_agent px)))"
  let ?nw = "\<lparr>nw_from_down = map projr (read_frames K (sr_reader (px_down px))), nw_to_agent = [], nw_to_down = [],
     nw_core = px_core px, nw_world = px_world px\<rparr>"
  obtain nw' r where s: "serve ?hk ?ms ?nw = (nw', r)" by fastforce
  have "gate.safe L G eng (px_core px) ?nw"
    using assms(3) by (simp add: gate.safe_def calls_down_def)
  from gate.serve_safe [OF s this] assms(4) have safe: "gate.safe L G eng (px_core px) nw'" by blast
  with stdio_proxy.run_spec [OF assms(1,2), of ?hk] s show ?thesis
    by (auto simp: gate.safe_def calls_down_def gate_inv_def)
qed

definition demo_gate :: gate_deps where
  "demo_gate = \<lparr>gd_policy = example_deps, gd_json = demo_rpc, gd_replace_all = (\<lambda>p t r. if str_contains t p then r else t),
     gd_debug_verdict = (\<lambda>_. []), gd_clock = (\<lambda>n. from_epoch_ms 0)\<rparr>"

definition demo_world :: "fstore gate_world" where
  "demo_world = \<lparr>gw_store = empty_store, gw_decisions = Map.empty, gw_ticks = 0\<rparr>"

lemma demo_world_inv: "gate_inv num_deps demo_world"
  using empty_store_inv [OF serde_laws_num_deps] by (simp add: gate_inv_def demo_world_def map_ok_def)

definition demo_request :: rpc_request where
  "demo_request = new_request (IdNum 1) ''tools/call'' (Some (JObj [(''name'', JStr ''ls'')]))"

definition calling_stream :: stream_transport where
  "calling_stream = \<lparr>sr_reader = write_frame demo_rpc (Request demo_request), sr_writer = [], sr_broken = None\<rparr>"

lemma read_calling_stream: "read_frames demo_rpc (sr_reader calling_stream) = [Inr (Request demo_request)]"
proof -
  have "wire demo_rpc (Request demo_request) = Inr (Request demo_request)"
    by (rule wire_wf [OF rpc_laws_demo]) (simp_all add: demo_request_def new_request_def json_of_request_def opt_field_def)
  with read_frames_write [OF rpc_laws_demo, of "[Request demo_request]" "[]"] show ?thesis
    by (simp add: calling_stream_def)
qed

lemma calling_stream_usable: "stream_usable demo_rpc calling_stream"
  unfolding stream_usable_def read_calling_stream
  using rpc_laws_demo by (auto simp: calling_stream_def intro: exI [of _ "[]"])

theorem mcp_gate_end_to_end_witness:
  "\<exists>px' res ms. run (stream_ops demo_rpc) (stream_ops demo_rpc) (mcp_interceptor num_deps (fs_ops num_deps) demo_gate \<lparr>eng_policy = example_compiled\<rparr>)
      \<lparr>px_agent = calling_stream, px_down = idle_stream, px_core = demo_core, px_world = demo_world\<rparr> = Some (px', res) \<and>
    read_frames demo_rpc (sr_writer (px_down px')) = read_frames demo_rpc [] @ map (wire demo_rpc) ms \<and>
    fs_inv num_deps (gw_store (px_world px')) \<and>
    (\<forall>req. Request req \<in> set ms \<and> rq_method req = ''tools/call'' \<longrightarrow>
       (\<exists>now. on_record demo_gate \<lparr>eng_policy = example_compiled\<rparr> (fs_chain num_deps (gw_store (px_world px'))) (make_call demo_core now req None)))"
proof -
  let ?px = "\<lparr>px_agent = calling_stream, px_down = idle_stream, px_core = demo_core, px_world = demo_world\<rparr>"
  have "float_free (tc_args (make_call demo_core now demo_request None))" for now
    by (simp add: make_call_def demo_request_def new_request_def)
  with mcp_gate_end_to_end [of demo_rpc ?px demo_rpc num_deps demo_gate "\<lparr>eng_policy = example_compiled\<rparr>"]
  show ?thesis
    using calling_stream_usable idle_stream_usable [OF rpc_laws_demo] demo_world_inv read_calling_stream by (auto simp: idle_stream_def)
qed

section \<open>Redaction\<close>

text \<open>The patterns that the decision map holds for a call.\<close>

definition patterns_for :: "tool_call \<Rightarrow> 's gate_world \<Rightarrow> str list" where
  "patterns_for c w = (case gw_decisions w (tc_call_id c) of Some (_, ps) \<Rightarrow> ps | None \<Rightarrow> [])"

lemma transform_hook_patterns: "transform_hook G c v w = (w, redact_json G (patterns_for c w) v)"
  by (simp add: transform_hook_def patterns_for_def)

lemma observe_hook_decisions: "gw_decisions (observe_hook L S G c v w) = gw_decisions w"
  by (simp add: observe_hook_def split: option.splits prod.splits)

lemma relayed_masked:
  "relayed (mcp_interceptor L S G eng) (Some c) n w = (w, n\<lparr>nt_params := map_option (redact_json G (patterns_for c w)) (nt_params n)\<rparr>)"
  by (cases "nt_params n") (simp_all add: relayed_def mask_def transform_hook_patterns)

lemma complete_masked:
  "snd (complete (mcp_interceptor L S G eng) c resp w) = resp\<lparr>rsp_result := map_option (redact_json G (patterns_for c w)) (rsp_result resp)\<rparr>"
  by (cases "rsp_result resp")
     (simp_all add: complete_def Let_def transform_hook_patterns patterns_for_def observe_hook_decisions split: prod.splits)

text \<open>What the agent may be shown of the messages \<open>ns\<close> during a call with patterns \<open>ps\<close>.\<close>

fun shown_masked :: "gate_deps \<Rightarrow> str list \<Rightarrow> rpc_message list \<Rightarrow> rpc_message \<Rightarrow> bool" where
  "shown_masked G ps ns (Notification n) \<longleftrightarrow>
     (\<exists>n0. Notification n0 \<in> set ns \<and> n = n0\<lparr>nt_params := map_option (redact_json G ps) (nt_params n0)\<rparr>)"
| "shown_masked G ps ns (Response r) \<longleftrightarrow>
     (\<exists>r0. Response r0 \<in> set ns \<and> r = r0\<lparr>rsp_result := map_option (redact_json G ps) (rsp_result r0)\<rparr>)"
| "shown_masked G ps ns (Request r) \<longleftrightarrow> False"

lemma shown_masked_mono: "shown_masked G ps ns m \<Longrightarrow> set ns \<subseteq> set ns' \<Longrightarrow> shown_masked G ps ns' m"
  by (cases m) auto

lemma await_masked:
  "await (mcp_interceptor L S G eng) (Some c) rid ns nw = (nw', r) \<Longrightarrow>
   nw_world nw' = nw_world nw \<and> (\<forall>resp. r = Inr resp \<longrightarrow> Response resp \<in> set ns) \<and>
   (\<exists>ms. nw_to_agent nw' = nw_to_agent nw @ ms \<and> (\<forall>m\<in>set ms. shown_masked G (patterns_for c (nw_world nw)) ns m))"
proof (induction ns arbitrary: nw)
  case (Cons m ns)
  show ?case
  proof (cases m)
    case (Request q)
    with Cons.IH [of "nw\<lparr>nw_from_down := ns, nw_to_down := nw_to_down nw @ [Response (not_proxied (rq_id q))]\<rparr>"] Cons.prems
    show ?thesis by simp (meson shown_masked_mono set_subset_Cons)
  next
    case (Response q)
    show ?thesis
    proof (cases "rsp_id q = rid")
      case True
      with Cons.prems Response show ?thesis by auto
    next
      case False
      with Cons.IH [of "nw\<lparr>nw_from_down := ns\<rparr>"] Cons.prems Response
      show ?thesis by simp (meson shown_masked_mono set_subset_Cons)
    qed
  next
    case (Notification n)
    let ?n = "n\<lparr>nt_params := map_option (redact_json G (patterns_for c (nw_world nw))) (nt_params n)\<rparr>"
    have "shown_masked G (patterns_for c (nw_world nw)) (m # ns) (Notification ?n)" using Notification by auto
    moreover obtain ms where "nw_world nw' = nw_world nw" "\<forall>resp. r = Inr resp \<longrightarrow> Response resp \<in> set ns"
      "nw_to_agent nw' = nw_to_agent nw @ Notification ?n # ms" "\<forall>x\<in>set ms. shown_masked G (patterns_for c (nw_world nw)) ns x"
      using Cons.IH [of "nw\<lparr>nw_from_down := ns, nw_world := nw_world nw, nw_to_agent := nw_to_agent nw @ [Notification ?n]\<rparr>"]
        Cons.prems Notification by (auto simp: relayed_masked)
    ultimately show ?thesis
      by (intro conjI exI [of _ "Notification ?n # ms"]) (auto intro: shown_masked_mono [of _ _ ns])
  qed
qed auto

text \<open>
  C31. A redacted answer reaches the agent only masked: when the policy redacts a call, everything the
  agent is sent while the call is in flight and in answer to it is a refusal of the gate, or a
  message of the server whose parameters or result have gone through the patterns of that verdict.
  (An error object of the server is passed on as it is.)
\<close>

theorem redacted_answers_masked:
  assumes "fs_inv L (gw_store (nw_world nw))" and "map_ok (fs_chain L (gw_store (nw_world nw))) (gw_decisions (nw_world nw))"
    and "c = make_call (nw_core nw) (gd_clock G (gw_ticks (nw_world nw))) req None" and "float_free (tc_args c)"
    and "evaluate (gd_policy G) eng (from_call c) = Redact rid ps"
    and "serve_tool_call (mcp_interceptor L (fs_ops L) G eng) req nw = (nw', r)"
  shows "\<exists>ms. nw_to_agent nw' = nw_to_agent nw @ ms \<and>
    ((\<exists>why. ms = [Response (refusal (rq_id req) why)]) \<or> (\<forall>m\<in>set ms. shown_masked G ps (nw_from_down nw) m))"
proof -
  let ?hk = "mcp_interceptor L (fs_ops L) G eng"
  obtain w d where d: "decide_hook L (fs_ops L) G eng c (nw_world nw) = (w, d)" by fastforce
  show ?thesis
  proof (cases d)
    case (Refuse why)
    with assms(3,6) d show ?thesis by (auto simp: serve_tool_call_def intercept_def Let_def answer_def)
  next
    case Forward
    with fs.decide_hook_ok [OF assms(1,2,4) d] assms(5) have ps: "patterns_for c w = ps"
      by (auto simp: patterns_for_def redact_patterns_def split: option.splits)
    obtain nw1 x where a: "ask_down ?hk req (Some c) (nw\<lparr>nw_world := w\<rparr>) = (nw1, x)" by fastforce
    with await_masked [of L "fs_ops L" G eng c "rq_id req" "nw_from_down nw"] ps obtain ms where
      ms: "nw_world nw1 = w" "\<And>resp. x = Inr resp \<Longrightarrow> Response resp \<in> set (nw_from_down nw)"
        "nw_to_agent nw1 = nw_to_agent nw @ ms" "\<forall>m\<in>set ms. shown_masked G ps (nw_from_down nw) m"
      by (fastforce simp: ask_down_def)
    show ?thesis
    proof (cases x)
      case (Inl e)
      with assms(3,6) d a ms(3,4) Forward show ?thesis by (auto simp: serve_tool_call_def intercept_def Let_def)
    next
      case (Inr resp)
      let ?r = "snd (complete ?hk c resp w)"
      have "shown_masked G ps (nw_from_down nw) (Response ?r)" using ms(2) [OF Inr] ps by (auto simp: complete_masked)
      moreover have "nw_to_agent nw' = nw_to_agent nw @ ms @ [Response ?r]"
        using assms(3,6) d a ms(1,3) Forward Inr
        by (auto simp: serve_tool_call_def intercept_def Let_def answer_def case_prod_beta)
      ultimately show ?thesis using ms(4) by (intro exI [of _ "ms @ [Response ?r]"]) auto
    qed
  qed
qed

definition redact_engine :: native_engine where
  "redact_engine = \<lparr>eng_policy = \<lparr>cp_version = 1, cp_default = DefaultDeny,
     cp_rules = [\<lparr>cr_id = ''mask'', cr_when = EPred (PCompare FTool (OEq ''ls'')), cr_verdict = RvRedact, cr_reason = None,
       cr_irreversible = False, cr_timeout_ms = None, cr_patterns = [''key''], cr_line = None\<rparr>]\<rparr>\<rparr>"

lemma redact_engine_verdict:
  "evaluate (gd_policy demo_gate) redact_engine (from_call (make_call demo_core now demo_request None)) = Redact ''mask'' [''key'']"
  by (simp add: evaluate_def redact_engine_def from_call_def make_call_def demo_request_def new_request_def
      verdict_for_def)

theorem redacted_answers_masked_witness:
  "\<exists>nw' r ms. serve_tool_call (mcp_interceptor num_deps (fs_ops num_deps) demo_gate redact_engine) demo_request
       \<lparr>nw_from_down = [], nw_to_agent = [], nw_to_down = [], nw_core = demo_core, nw_world = demo_world\<rparr> = (nw', r) \<and>
     nw_to_agent nw' = ms \<and>
     ((\<exists>why. ms = [Response (refusal (rq_id demo_request) why)]) \<or> (\<forall>m\<in>set ms. shown_masked demo_gate [''key''] [] m))"
proof -
  let ?nw = "\<lparr>nw_from_down = [], nw_to_agent = [], nw_to_down = [], nw_core = demo_core, nw_world = demo_world\<rparr>"
  let ?c = "make_call demo_core (gd_clock demo_gate (gw_ticks demo_world)) demo_request None"
  obtain nw' r where s: "serve_tool_call (mcp_interceptor num_deps (fs_ops num_deps) demo_gate redact_engine) demo_request ?nw = (nw', r)"
    by fastforce
  have "float_free (tc_args ?c)" by (simp add: make_call_def demo_request_def new_request_def)
  with redacted_answers_masked [of num_deps ?nw ?c demo_gate demo_request redact_engine "''mask''" "[''key'']" nw' r]
    s redact_engine_verdict demo_world_inv
  show ?thesis by (auto simp: gate_inv_def)
qed

end
