(* ===== verification/Utf8.thy ===== *)
theory Utf8
  imports Mcp_Rpc
begin

text \<open>Texts cut at ASCII characters: the parts of a valid UTF-8 text are valid.\<close>

definition width_of :: "nat \<Rightarrow> nat \<Rightarrow> nat \<Rightarrow> nat \<Rightarrow> nat \<times> bool" where
  "width_of b0 b1 b2 b3 =
     (if b0 < 128 then (1, True)
      else if 194 \<le> b0 \<and> b0 \<le> 223 then (if is_cont b1 then (2, True) else (1, False))
      else if 224 \<le> b0 \<and> b0 \<le> 239 then
        (if \<not> ((b0 = 224 \<and> 160 \<le> b1 \<and> b1 \<le> 191) \<or> (225 \<le> b0 \<and> b0 \<le> 236 \<and> 128 \<le> b1 \<and> b1 \<le> 191)
               \<or> (b0 = 237 \<and> 128 \<le> b1 \<and> b1 \<le> 159) \<or> (238 \<le> b0 \<and> 128 \<le> b1 \<and> b1 \<le> 191))
         then (1, False) else if \<not> is_cont b2 then (2, False) else (3, True))
      else if 240 \<le> b0 \<and> b0 \<le> 244 then
        (if \<not> ((b0 = 240 \<and> 144 \<le> b1 \<and> b1 \<le> 191) \<or> (241 \<le> b0 \<and> b0 \<le> 243 \<and> 128 \<le> b1 \<and> b1 \<le> 191)
               \<or> (b0 = 244 \<and> 128 \<le> b1 \<and> b1 \<le> 143))
         then (1, False) else if \<not> is_cont b2 then (2, False)
         else if \<not> is_cont b3 then (3, False) else (4, True))
      else (1, False))"

lemma utf8_width_of: "utf8_width s = width_of (byte_at s 0) (byte_at s 1) (byte_at s 2) (byte_at s 3)"
  by (simp only: utf8_width_def width_of_def Let_def)

lemma width_of_valid:
  assumes "width_of b0 b1 b2 b3 = (w, True)"
  shows "w = 1 \<and> b0 < 128 \<or>
    w = 2 \<and> 128 \<le> b0 \<and> 128 \<le> b1 \<and> (\<forall>c2 c3. width_of b0 b1 c2 c3 = (w, True)) \<or>
    w = 3 \<and> 128 \<le> b0 \<and> 128 \<le> b1 \<and> 128 \<le> b2 \<and> (\<forall>c3. width_of b0 b1 b2 c3 = (w, True)) \<or>
    w = 4 \<and> 128 \<le> b0 \<and> 128 \<le> b1 \<and> 128 \<le> b2 \<and> 128 \<le> b3"
proof -
  consider "b0 < 128" | "194 \<le> b0 \<and> b0 \<le> 223" | "224 \<le> b0 \<and> b0 \<le> 239" | "240 \<le> b0 \<and> b0 \<le> 244"
    | "128 \<le> b0 \<and> b0 < 194 \<or> 244 < b0"
    by linarith
  then show ?thesis
  proof cases
    case 2
    with assms show ?thesis by (auto simp: width_of_def is_cont_def split: if_splits)
  next
    case 3
    with assms have "width_of b0 b1 b2 c3 = (3, True) \<and> w = 3 \<and> 128 \<le> b1 \<and> is_cont b2" for c3
      by (auto simp: width_of_def split: if_splits)
    with 3 show ?thesis by (auto simp: is_cont_def)
  next
    case 4
    with assms have "w = 4 \<and> 128 \<le> b1 \<and> is_cont b2 \<and> is_cont b3"
      by (auto simp: width_of_def split: if_splits)
    with 4 show ?thesis by (auto simp: is_cont_def)
  next
    case 5
    then have "\<not> b0 < 128" "\<not> (194 \<le> b0 \<and> b0 \<le> 223)" "\<not> (224 \<le> b0 \<and> b0 \<le> 239)" "\<not> (240 \<le> b0 \<and> b0 \<le> 244)"
      by linarith+
    then have "width_of b0 b1 b2 b3 = (1, False)" by (simp only: width_of_def if_False)
    with assms show ?thesis by simp
  qed (use assms in \<open>simp add: width_of_def\<close>)
qed

text \<open>An ASCII character is never inside a longer sequence.\<close>

lemma byte_at_left: "byte_at (a @ b) i = (if i < length a then byte_at a i else byte_at b (i - length a))"
  by (auto simp: byte_at_def nth_append)

lemma utf8_width_cut:
  assumes "utf8_width (a @ c # b) = (w, True)" and "code c < 128" and "a \<noteq> []"
  shows "0 < w \<and> w \<le> length a \<and> utf8_width a = (w, True)"
proof -
  let ?s = "a @ c # b"
  have big: "n < length a" if "n < 4" "\<forall>i\<le>n. 128 \<le> byte_at ?s i" for n
  proof (rule ccontr)
    assume "\<not> n < length a"
    then have "128 \<le> byte_at ?s (length a)" using that(2) by simp
    with assms(2) show False by (simp add: byte_at_def)
  qed
  have same: "byte_at a i = byte_at ?s i" if "i < length a" for i using that by (simp add: byte_at_left)
  have z: "byte_at a 0 = byte_at ?s 0" using assms(3) by (intro same) simp
  from width_of_valid [OF assms(1) [unfolded utf8_width_of]] consider
    "w = 1" "byte_at ?s 0 < 128"
  | "w = 2" "128 \<le> byte_at ?s 0" "128 \<le> byte_at ?s 1" "\<And>c2 c3. width_of (byte_at ?s 0) (byte_at ?s 1) c2 c3 = (w, True)"
  | "w = 3" "128 \<le> byte_at ?s 0" "128 \<le> byte_at ?s 1" "128 \<le> byte_at ?s 2"
      "\<And>c3. width_of (byte_at ?s 0) (byte_at ?s 1) (byte_at ?s 2) c3 = (w, True)"
  | "w = 4" "128 \<le> byte_at ?s 0" "128 \<le> byte_at ?s 1" "128 \<le> byte_at ?s 2" "128 \<le> byte_at ?s 3"
    by blast
  then show ?thesis
  proof cases
    case 1
    with z assms(3) show ?thesis by (cases a) (simp_all add: utf8_width_of width_of_def)
  next
    case 2
    then have "1 < length a" by (intro big) (auto simp: le_Suc_eq)
    with 2 z same [of 1] show ?thesis by (simp add: utf8_width_of del: One_nat_def)
  next
    case 3
    then have "2 < length a" by (intro big) (auto simp: le_Suc_eq numeral_eq_Suc)
    with 3 z same [of 1] same [of 2] show ?thesis by (simp add: utf8_width_of del: One_nat_def)
  next
    case 4
    then have "3 < length a" by (intro big) (auto simp: le_Suc_eq numeral_eq_Suc)
    with 4 z same [of 1] same [of 2] same [of 3] assms(1) show ?thesis by (simp add: utf8_width_of del: One_nat_def)
  qed
qed

lemma utf8_ok_more: "utf8_ok n s \<Longrightarrow> utf8_ok (Suc n) s"
proof (induction n arbitrary: s)
  case (Suc n)
  show ?case
  proof (cases "s = []")
    case False
    with Suc.prems obtain w where w: "utf8_width s = (w, True)" "utf8_ok n (drop w s)" by (auto split: prod.splits)
    from Suc.IH [OF w(2)] w(1) show ?thesis by (subst utf8_ok.simps(2)) simp
  qed simp
qed simp

lemma utf8_ok_cut:
  "utf8_ok n (a @ c # b) \<Longrightarrow> code c < 128 \<Longrightarrow> utf8_ok n a \<and> utf8_ok n b"
proof (induction n arbitrary: a)
  case (Suc n)
  show ?case
  proof (cases "a = []")
    case True
    with Suc.prems have "utf8_ok n b" by (simp add: utf8_width_of width_of_def byte_at_def)
    then have "utf8_ok (Suc n) b" by (rule utf8_ok_more)
    with True show ?thesis by simp
  next
    case False
    obtain w where w: "utf8_width (a @ c # b) = (w, True)" "utf8_ok n (drop w (a @ c # b))"
      using Suc.prems(1) by (auto split: prod.splits)
    from utf8_width_cut [OF w(1) Suc.prems(2) False] have a: "w \<le> length a" "utf8_width a = (w, True)" by auto
    with Suc.IH [of "drop w a"] w(2) Suc.prems(2) have "utf8_ok n (drop w a)" "utf8_ok n b" by auto
    with a show ?thesis using utf8_ok_more by simp
  qed
qed simp

lemma is_utf8_cut: "is_utf8 (a @ c # b) \<Longrightarrow> code c < 128 \<Longrightarrow> is_utf8 a \<and> is_utf8 b"
  using utf8_ok_cut utf8_ok_fuel unfolding is_utf8_def by blast

lemma is_utf8_Nil [simp]: "is_utf8 []"
  by (simp add: is_utf8_def)

lemma is_utf8_ascii: "(\<And>c. c \<in> set s \<Longrightarrow> code c < 128) \<Longrightarrow> is_utf8 s"
  unfolding is_utf8_def by (rule utf8_ok_ascii) blast

lemma is_utf8_filter:
  assumes "is_utf8 s" and "\<And>c. \<not> P c \<Longrightarrow> code c < 128"
  shows "is_utf8 (filter P s)"
  using assms(1)
proof (induction s rule: length_induct)
  case (1 s)
  show ?case
  proof (cases "\<exists>c\<in>set s. \<not> P c")
    case True
    then obtain a c b where s: "s = a @ c # b" "\<not> P c" "\<forall>x\<in>set a. P x"
      using split_list_first_prop [OF True] by blast
    have "is_utf8 a" "is_utf8 b" using is_utf8_cut [OF 1(2) [unfolded s(1)] assms(2) [OF s(2)]] by blast+
    moreover have "is_utf8 (filter P b)" using 1(1) s(1) calculation(2) by simp
    moreover have "filter P s = a @ filter P b" using s by simp
    ultimately show ?thesis by (simp only: is_utf8_append)
  qed (use 1(2) in simp)
qed

lemma is_utf8_split_on:
  assumes "is_utf8 s" and "\<And>c. P c \<Longrightarrow> code c < 128" and "w \<in> set (split_on P s)"
  shows "is_utf8 w"
  using assms(1,3)
proof (induction s rule: length_induct)
  case (1 s)
  show ?case
  proof (cases "\<exists>c\<in>set s. P c")
    case True
    then obtain a c b where s: "s = a @ c # b" "P c" "\<forall>x\<in>set a. \<not> P x"
      using split_list_first_prop [OF True] by blast
    have "is_utf8 a" "is_utf8 b" using is_utf8_cut [OF 1(2) [unfolded s(1)] assms(2) [OF s(2)]] by blast+
    moreover have "split_on P s = a # split_on P b" using s by (simp add: split_on_append_sep)
    moreover have "length b < length s" using s(1) by simp
    ultimately show ?thesis using 1(1,3) by (metis set_ConsD)
  next
    case False
    then have "split_on P s = [s]" by (intro split_on_no_match) blast
    with 1 show ?thesis by simp
  qed
qed

lemma is_utf8_trim_end_matches: "is_utf8 s \<Longrightarrow> code c < 128 \<Longrightarrow> is_utf8 (trim_end_matches c s)"
proof (induction s rule: rev_induct)
  case (snoc x s)
  show ?case
  proof (cases "x = c")
    case True
    with snoc is_utf8_cut [of s x "[]"] show ?thesis by (simp add: trim_end_matches_def)
  qed (use snoc.prems in \<open>simp add: trim_end_matches_def\<close>)
qed (simp add: trim_end_matches_def)

end
