(* ===== verification/Sse.thy ===== *)
theory Sse
  imports Utf8
begin

text \<open>
  \<open>writ-mcp/src/http/sse.rs\<close>: the codec of server-sent events.  The reader is modelled on the chunks
  its buffered source hands out; it is shown not to depend on them, and to read back what \<open>encode\<close>
  writes.
\<close>

section \<open>Events and their encoding\<close>

record sse_event =
  se_event :: "str option"
  se_data :: str
  se_id :: "str option"
  se_retry :: "nat option"
  se_comments :: "str list"

definition sse_default :: sse_event where
  "sse_default = \<lparr>se_event = None, se_data = [], se_id = None, se_retry = None, se_comments = []\<rparr>"

definition sse_message :: "str \<Rightarrow> sse_event" where
  "sse_message d = sse_default\<lparr>se_data := d\<rparr>"

definition sse_keepalive :: sse_event where
  "sse_keepalive = sse_default\<lparr>se_comments := [[]]\<rparr>"

abbreviation cr :: char where
  "cr \<equiv> CHR 0x0D"

definition sse_clean :: "str \<Rightarrow> str" where
  "sse_clean s = filter (\<lambda>c. c \<noteq> cr \<and> c \<noteq> nl) s"

definition has_fields :: "sse_event \<Rightarrow> bool" where
  "has_fields ev \<longleftrightarrow> se_event ev \<noteq> None \<or> se_id ev \<noteq> None \<or> se_retry ev \<noteq> None"

definition sse_encode :: "sse_event \<Rightarrow> bytes" where
  "sse_encode ev =
     concat (map (\<lambda>c. '':'' @ sse_clean c @ [nl]) (se_comments ev)) @
     (case se_event ev of Some e \<Rightarrow> ''event: '' @ sse_clean e @ [nl] | None \<Rightarrow> []) @
     (case se_id ev of Some i \<Rightarrow> ''id: '' @ sse_clean i @ [nl] | None \<Rightarrow> []) @
     (case se_retry ev of Some r \<Rightarrow> ''retry: '' @ show_nat r @ [nl] | None \<Rightarrow> []) @
     (if se_data ev \<noteq> [] \<or> has_fields ev
      then concat (map (\<lambda>l. ''data: '' @ trim_end_matches cr l @ [nl]) (split_on (\<lambda>c. c = nl) (se_data ev)))
      else []) @
     [nl]"

definition is_comment_only :: "sse_event \<Rightarrow> bool" where
  "is_comment_only ev \<longleftrightarrow> se_event ev = None \<and> se_id ev = None \<and> se_retry ev = None \<and> se_data ev = []"

section \<open>The reader\<close>

text \<open>
  A buffered source is the list of the chunks that \<open>fill_buf\<close> will show; no chunk, or an empty one,
  is the end of the stream.  Errors of the source itself are not modelled.
\<close>

definition consume :: "nat \<Rightarrow> bytes list \<Rightarrow> bytes list" where
  "consume n cs = (case cs of [] \<Rightarrow> [] | c # cs \<Rightarrow> if drop n c = [] then cs else drop n c # cs)"

definition err_line :: str where
  "err_line = ''SSE line exceeds the size limit''"

fun read_line_loop :: "nat \<Rightarrow> bytes \<Rightarrow> bytes list \<Rightarrow> bytes list \<times> (str + bytes option)" where
  "read_line_loop limit buf [] = ([], Inr (if buf = [] then None else Some buf))"
| "read_line_loop limit buf (c # cs) =
     (if c = [] then (c # cs, Inr (if buf = [] then None else Some buf))
      else if nl \<in> set c then
        (let pos = length (takeWhile (\<lambda>x. x \<noteq> nl) c) in (consume (pos + 1) (c # cs), Inr (Some (buf @ take pos c))))
      else if length (buf @ c) > limit then (cs, Inl err_line)
      else read_line_loop limit (buf @ c) cs)"

definition end_line :: "nat \<Rightarrow> bytes \<Rightarrow> str + str" where
  "end_line limit buf =
     (if length buf > limit then Inl err_line
      else let line = (if buf \<noteq> [] \<and> last buf = cr then butlast buf else buf)
           in if is_utf8 line then Inr line else Inl ''SSE stream is not UTF-8'')"

definition sse_read_line :: "nat \<Rightarrow> bytes list \<Rightarrow> bytes list \<times> (str + str option)" where
  "sse_read_line limit cs =
     (case read_line_loop limit [] cs of
        (cs', Inl e) \<Rightarrow> (cs', Inl e)
      | (cs', Inr None) \<Rightarrow> (cs', Inr None)
      | (cs', Inr (Some buf)) \<Rightarrow> (cs', rbind (end_line limit buf) (\<lambda>line. Inr (Some line))))"

definition line_field :: "str \<Rightarrow> str \<times> str" where
  "line_field line =
     (case split_once line '':'' of
        Some (f, v) \<Rightarrow> (f, case strip_prefix v '' '' of Some v' \<Rightarrow> v' | None \<Rightarrow> v)
      | None \<Rightarrow> (line, []))"

text \<open>What one non-empty line does to the event and to the data lines.\<close>

definition apply_line :: "str \<Rightarrow> sse_event \<times> str list \<Rightarrow> sse_event \<times> str list" where
  "apply_line line = (\<lambda>(ev, dl).
     case strip_prefix line '':'' of
       Some c \<Rightarrow> (ev\<lparr>se_comments := se_comments ev @ [c]\<rparr>, dl)
     | None \<Rightarrow>
         (let (field, value) = line_field line
          in if field = ''data'' then (ev, dl @ [value])
             else if field = ''event'' then (ev\<lparr>se_event := Some value\<rparr>, dl)
             else if field = ''id'' then (if CHR 0x00 \<in> set value then (ev, dl) else (ev\<lparr>se_id := Some value\<rparr>, dl))
             else if field = ''retry'' then
               (case parse_u64 value of Some ms \<Rightarrow> (ev\<lparr>se_retry := Some ms\<rparr>, dl) | None \<Rightarrow> (ev, dl))
             else (ev, dl)))"

definition unread :: "bytes list \<Rightarrow> nat" where
  "unread cs = length (concat cs)"

lemma unread_simps [simp]: "unread [] = 0" "unread (c # cs) = length c + unread cs"
  by (simp_all add: unread_def)

lemma unread_consume: "0 < n \<Longrightarrow> c \<noteq> [] \<Longrightarrow> unread (consume n (c # cs)) < unread (c # cs)"
  by (auto simp: consume_def)

lemma read_line_loop_shrinks:
  "read_line_loop limit buf cs = (cs', Inr (Some b)) \<Longrightarrow> unread cs' < unread cs \<or> buf \<noteq> [] \<and> unread cs' \<le> unread cs"
proof (induction limit buf cs rule: read_line_loop.induct)
  case (2 limit buf c cs)
  show ?case
  proof (cases "c = []")
    case False
    show ?thesis
    proof (cases "nl \<in> set c")
      case True
      with 2(2) False have "cs' = consume (length (takeWhile (\<lambda>x. x \<noteq> nl) c) + 1) (c # cs)" by (auto simp: Let_def)
      with unread_consume [of "length (takeWhile (\<lambda>x. x \<noteq> nl) c) + 1" c cs] False show ?thesis by simp
    next
      case no: False
      with 2(2) False have l: "\<not> limit < length (buf @ c)" "read_line_loop limit (buf @ c) cs = (cs', Inr (Some b))"
        by (auto split: if_splits)
      from 2(1) [OF False no l] have "unread cs' \<le> unread cs" by auto
      with False show ?thesis by (cases c) auto
    qed
  qed (use 2(2) in \<open>auto split: if_splits\<close>)
qed (auto split: if_splits)

lemma sse_read_line_shrinks: "sse_read_line limit cs = (cs', Inr (Some line)) \<Longrightarrow> unread cs' < unread cs"
  using read_line_loop_shrinks [of limit "[]" cs cs']
  by (auto simp: sse_read_line_def split: prod.splits sum.splits option.splits)

text \<open>The loop of \<open>next_event\<close>; the second component is the flag \<open>done\<close>.\<close>

function event_loop ::
  "nat \<Rightarrow> sse_event \<Rightarrow> str list \<Rightarrow> bool \<Rightarrow> nat \<Rightarrow> bytes list \<Rightarrow> bytes list \<times> bool \<times> (str + sse_event option)" where
  "event_loop mx ev dl seen sz cs =
     (case sse_read_line (mx - sz) cs of
        (cs', Inl e) \<Rightarrow> (cs', False, Inl e)
      | (cs', Inr None) \<Rightarrow> (cs', True, Inr None)
      | (cs', Inr (Some line)) \<Rightarrow>
          (let sz = sz + length line + 1
           in if sz > mx then (cs', False, Inl ''SSE event exceeds the size limit'')
              else if line = [] then
                (if seen then (cs', False, Inr (Some (ev\<lparr>se_data := join [nl] dl\<rparr>))) else event_loop mx ev dl seen sz cs')
              else event_loop mx (fst (apply_line line (ev, dl))) (snd (apply_line line (ev, dl))) True sz cs'))"
  by pat_completeness auto
termination
  by (relation "measure (\<lambda>(mx, ev, dl, seen, sz, cs). unread cs)") (auto dest: sse_read_line_shrinks [OF sym])

declare event_loop.simps [simp del]

record sse_reader =
  rd_chunks :: "bytes list"
  rd_max_event_bytes :: nat
  rd_done :: bool

definition new_reader :: "bytes list \<Rightarrow> nat \<Rightarrow> sse_reader" where
  "new_reader cs mx = \<lparr>rd_chunks = cs, rd_max_event_bytes = mx, rd_done = False\<rparr>"

definition next_event :: "sse_reader \<Rightarrow> sse_reader \<times> (str + sse_event option)" where
  "next_event r =
     (if rd_done r then (r, Inr None)
      else case event_loop (rd_max_event_bytes r) sse_default [] False 0 (rd_chunks r) of
             (cs, fin, x) \<Rightarrow> (r\<lparr>rd_chunks := cs, rd_done := fin\<rparr>, x))"

text \<open>\<open>Iterator::next\<close>: after an error the stream is over.\<close>

definition reader_next :: "sse_reader \<Rightarrow> sse_reader \<times> (str + sse_event) option" where
  "reader_next r =
     (case next_event r of
        (r', Inr (Some e)) \<Rightarrow> (r', Some (Inr e))
      | (r', Inr None) \<Rightarrow> (r', None)
      | (r', Inl e) \<Rightarrow> (r'\<lparr>rd_done := True\<rparr>, Some (Inl e)))"

text \<open>All that the iterator gives.\<close>

lemma event_loop_shrinks: "event_loop mx ev dl seen sz cs = (cs', fin, Inr (Some e)) \<Longrightarrow> unread cs' < unread cs"
proof (induction mx ev dl seen sz cs arbitrary: cs' rule: event_loop.induct)
  case (1 mx ev dl seen sz cs)
  obtain c1 x where r: "sse_read_line (mx - sz) cs = (c1, x)" by fastforce
  from 1(3) obtain line where x: "x = Inr (Some line)"
    by (cases x; cases "projr x") (auto simp: r event_loop.simps [of mx ev dl seen sz cs])
  from sse_read_line_shrinks r x have c1: "unread c1 < unread cs" by blast
  have l: "\<not> mx < sz + length line + 1" using 1(3) by (auto simp: r x event_loop.simps [of mx ev dl seen sz cs])
  have st: "(if line = [] then
       (if seen then (c1, False, Inr (Some (ev\<lparr>se_data := join [nl] dl\<rparr>))) else event_loop mx ev dl seen (sz + length line + 1) c1)
     else event_loop mx (fst (apply_line line (ev, dl))) (snd (apply_line line (ev, dl))) True (sz + length line + 1) c1)
     = (cs', fin, Inr (Some e))"
    using 1(3) l by (subst (asm) event_loop.simps) (cases seen; cases "line = []"; simp add: r x)
  show ?case
  proof (cases "line = []")
    case True
    with st 1(1) [OF r [symmetric] x refl refl l True] c1 show ?thesis by (cases seen) fastforce+
  next
    case False
    with st 1(2) [OF r [symmetric] x refl refl l False] c1 show ?thesis by fastforce
  qed
qed

definition reader_size :: "sse_reader \<Rightarrow> nat" where
  "reader_size r = (if rd_done r then 0 else Suc (unread (rd_chunks r)))"

lemma reader_next_shrinks: "reader_next r = (r', Some x) \<Longrightarrow> reader_size r' < reader_size r"
  using event_loop_shrinks [of "rd_max_event_bytes r" sse_default "[]" False 0 "rd_chunks r"]
  by (auto simp: reader_next_def next_event_def reader_size_def split: if_splits prod.splits sum.splits option.splits)

function reader_items :: "sse_reader \<Rightarrow> (str + sse_event) list" where
  "reader_items r = (case reader_next r of (r', None) \<Rightarrow> [] | (r', Some x) \<Rightarrow> x # reader_items r')"
  by pat_completeness auto
termination
  by (relation "measure reader_size") (auto dest: reader_next_shrinks [OF sym])

declare reader_items.simps [simp del]

section \<open>The chunks do not matter\<close>

text \<open>The reader on the whole text: the next line, and what follows it.\<close>

definition flat_line :: "nat \<Rightarrow> bytes \<Rightarrow> str + str option" where
  "flat_line limit b =
     (if b = [] then Inr None else rbind (end_line limit (takeWhile (\<lambda>x. x \<noteq> nl) b)) (\<lambda>l. Inr (Some l)))"

definition flat_rest :: "bytes \<Rightarrow> bytes" where
  "flat_rest b = drop (length (takeWhile (\<lambda>x. x \<noteq> nl) b) + 1) b"

lemma read_line_loop_flat:
  assumes "[] \<notin> set cs" and "nl \<notin> set buf" and "read_line_loop limit buf cs = (cs', r)"
  shows "r = Inl err_line \<and> limit < length (takeWhile (\<lambda>x. x \<noteq> nl) (buf @ concat cs)) \<and> buf @ concat cs \<noteq> [] \<or>
    r = Inr None \<and> buf @ concat cs = [] \<and> cs' = [] \<or>
    r = Inr (Some (takeWhile (\<lambda>x. x \<noteq> nl) (buf @ concat cs))) \<and> buf @ concat cs \<noteq> [] \<and>
      concat cs' = flat_rest (buf @ concat cs) \<and> [] \<notin> set cs'"
  using assms
proof (induction limit buf cs rule: read_line_loop.induct)
  case (1 limit buf)
  have t: "takeWhile (\<lambda>x. x \<noteq> nl) buf = buf" using 1(2) by (auto simp: takeWhile_eq_all_conv)
  show ?case
  proof (cases "buf = []")
    case True
    with 1(3) show ?thesis by simp
  next
    case False
    with 1(3) have "r = Inr (Some buf)" "cs' = []" by simp_all
    with False show ?thesis by (simp add: flat_rest_def t)
  qed
next
  case (2 limit buf c cs)
  have c: "c \<noteq> []" using 2(2) by auto
  have tb: "takeWhile (\<lambda>x. x \<noteq> nl) (buf @ t) = buf @ takeWhile (\<lambda>x. x \<noteq> nl) t" for t
    using 2(3) by (intro takeWhile_append2) auto
  show ?case
  proof (cases "nl \<in> set c")
    case True
    let ?l = "takeWhile (\<lambda>x. x \<noteq> nl) c"
    have tc: "takeWhile (\<lambda>x. x \<noteq> nl) (c @ t) = ?l" for t using True by (intro takeWhile_append1) auto
    have len: "length ?l < length c" using True by (induction c) auto
    have "r = Inr (Some (buf @ ?l))" "cs' = consume (length ?l + 1) (c # cs)"
      using 2(4) c True by (auto simp: Let_def takeWhile_eq_take [symmetric])
    moreover have "concat (consume (length ?l + 1) (c # cs)) = drop (length ?l + 1) (c @ concat cs)"
      using len by (auto simp: consume_def)
    moreover have "[] \<notin> set (consume (length ?l + 1) (c # cs))" using 2(2) by (auto simp: consume_def)
    ultimately show ?thesis using c tb tc by (simp add: flat_rest_def)
  next
    case False
    show ?thesis
    proof (cases "limit < length (buf @ c)")
      case True
      have "takeWhile (\<lambda>x. x \<noteq> nl) (c @ concat cs) = c @ takeWhile (\<lambda>x. x \<noteq> nl) (concat cs)"
        using False by (intro takeWhile_append2) auto
      with True tb 2(4) c False show ?thesis by auto
    next
      case small: False
      have "[] \<notin> set cs" "nl \<notin> set (buf @ c)" "read_line_loop limit (buf @ c) cs = (cs', r)"
        using 2(2-4) c False small by auto
      from 2(1) [OF c False small this] show ?thesis by simp
    qed
  qed
qed

lemma sse_read_line_flat:
  assumes "[] \<notin> set cs" and "sse_read_line limit cs = (cs', r)"
  shows "r = flat_line limit (concat cs) \<and> (\<forall>x. r = Inr x \<longrightarrow> concat cs' = flat_rest (concat cs) \<and> [] \<notin> set cs')"
proof -
  obtain c1 x where x: "read_line_loop limit [] cs = (c1, x)" by fastforce
  have "\<not> limit < length l" if "end_line limit l = Inr y" for l y using that by (auto simp: end_line_def split: if_splits)
  moreover have "end_line limit l = Inl err_line" if "limit < length l" for l using that by (simp add: end_line_def)
  moreover define b where "b = concat cs"
  ultimately show ?thesis
    using read_line_loop_flat [OF assms(1) _ x] assms(2) x unfolding b_def [symmetric]
    by (auto simp: sse_read_line_def flat_line_def flat_rest_def)
qed

text \<open>What the loop does once the next line, the rest being \<open>cs\<close>, is known.\<close>

definition after_line ::
  "nat \<Rightarrow> sse_event \<Rightarrow> str list \<Rightarrow> bool \<Rightarrow> nat \<Rightarrow> bytes list \<Rightarrow> str + str option \<Rightarrow> bytes list \<times> bool \<times> (str + sse_event option)" where
  "after_line mx ev dl seen sz cs r =
     (case r of
        Inl e \<Rightarrow> (cs, False, Inl e)
      | Inr None \<Rightarrow> (cs, True, Inr None)
      | Inr (Some line) \<Rightarrow>
          if sz + length line + 1 > mx then (cs, False, Inl ''SSE event exceeds the size limit'')
          else if line = [] then
            (if seen then (cs, False, Inr (Some (ev\<lparr>se_data := join [nl] dl\<rparr>)))
             else event_loop mx ev dl seen (sz + length line + 1) cs)
          else event_loop mx (fst (apply_line line (ev, dl))) (snd (apply_line line (ev, dl))) True (sz + length line + 1) cs)"

lemma event_loop_step:
  assumes "[] \<notin> set cs"
  obtains cs' where "\<And>x. flat_line (mx - sz) (concat cs) = Inr x \<Longrightarrow> concat cs' = flat_rest (concat cs) \<and> [] \<notin> set cs'"
    "event_loop mx ev dl seen sz cs = after_line mx ev dl seen sz cs' (flat_line (mx - sz) (concat cs))"
proof -
  obtain cs' r where r: "sse_read_line (mx - sz) cs = (cs', r)" by fastforce
  from sse_read_line_flat [OF assms r] have f: "r = flat_line (mx - sz) (concat cs)"
    "\<And>x. r = Inr x \<Longrightarrow> concat cs' = flat_rest (concat cs) \<and> [] \<notin> set cs'" by blast+
  have "event_loop mx ev dl seen sz cs = after_line mx ev dl seen sz cs' r"
    by (subst event_loop.simps) (simp only: r prod.case after_line_def Let_def)
  with that [of cs'] f show thesis by simp
qed

lemma flat_rest_shrinks: "flat_line limit b = Inr (Some l) \<Longrightarrow> length (flat_rest b) < length b"
  by (cases b) (auto simp: flat_line_def flat_rest_def)

lemma event_loop_chunks:
  assumes "[] \<notin> set cs" and "[] \<notin> set ds" and "concat cs = concat ds"
    and "event_loop mx ev dl seen sz cs = (cs', fin, x)" and "event_loop mx ev dl seen sz ds = (ds', fin', x')"
  shows "fin = fin' \<and> x = x' \<and> (\<forall>y. x = Inr y \<longrightarrow> concat cs' = concat ds' \<and> [] \<notin> set cs' \<and> [] \<notin> set ds')"
  using assms
proof (induction "length (concat cs)" arbitrary: cs ds ev dl seen sz rule: less_induct)
  case less
  define f where "f = flat_line (mx - sz) (concat cs)"
  obtain c1 where c: "\<And>x. f = Inr x \<Longrightarrow> concat c1 = flat_rest (concat cs) \<and> [] \<notin> set c1"
    and ce: "after_line mx ev dl seen sz c1 f = (cs', fin, x)"
    using event_loop_step [OF less.prems(1), of mx sz ev dl seen] less.prems(4) by (metis f_def)
  obtain d1 where d: "\<And>x. f = Inr x \<Longrightarrow> concat d1 = flat_rest (concat cs) \<and> [] \<notin> set d1"
    and de: "after_line mx ev dl seen sz d1 f = (ds', fin', x')"
    using event_loop_step [OF less.prems(2), of mx sz ev dl seen] less.prems(3,5) by (metis f_def)
  show ?case
  proof (cases "\<exists>line. f = Inr (Some line) \<and> \<not> sz + length line + 1 > mx \<and> (line = [] \<longrightarrow> \<not> seen)")
    case False
    with ce de c d show ?thesis
      by (cases f; cases "projr f") (auto simp: after_line_def split: if_splits)
  next
    case True
    then obtain line where l: "f = Inr (Some line)" "\<not> sz + length line + 1 > mx" "line = [] \<longrightarrow> \<not> seen" by blast
    have n: "[] \<notin> set c1" "[] \<notin> set d1" "concat c1 = concat d1" "length (concat c1) < length (concat cs)"
      using c [OF l(1)] d [OF l(1)] flat_rest_shrinks [of "mx - sz" "concat cs" line] l(1) by (simp_all add: f_def)
    note ih = less.hyps [OF n(4) n(1-3)]
    show ?thesis
    proof (cases "line = []")
      case True
      with l have "event_loop mx ev dl seen (sz + length line + 1) c1 = (cs', fin, x)"
        "event_loop mx ev dl seen (sz + length line + 1) d1 = (ds', fin', x')"
        using ce de by (simp_all add: after_line_def)
      then show ?thesis by (rule ih)
    next
      case False
      with l have "event_loop mx (fst (apply_line line (ev, dl))) (snd (apply_line line (ev, dl))) True (sz + length line + 1) c1 = (cs', fin, x)"
        "event_loop mx (fst (apply_line line (ev, dl))) (snd (apply_line line (ev, dl))) True (sz + length line + 1) d1 = (ds', fin', x')"
        using ce de by (simp_all add: after_line_def)
      then show ?thesis by (rule ih)
    qed
  qed
qed

lemma reader_next_chunks:
  assumes "[] \<notin> set cs" and "[] \<notin> set ds" and "concat cs = concat ds"
  shows "\<exists>cs' ds' x. reader_next (new_reader cs mx) = (cs', x) \<and> reader_next (new_reader ds mx) = (ds', x) \<and>
    (rd_done cs' \<and> rd_done ds' \<or>
     (\<exists>c d. cs' = new_reader c mx \<and> ds' = new_reader d mx \<and> concat c = concat d \<and> [] \<notin> set c \<and> [] \<notin> set d))"
proof -
  obtain c1 f1 x1 where c: "event_loop mx sse_default [] False 0 cs = (c1, f1, x1)" by (metis prod_cases3)
  obtain d1 f2 x2 where d: "event_loop mx sse_default [] False 0 ds = (d1, f2, x2)" by (metis prod_cases3)
  have e: "f1 = f2" "x1 = x2" "\<And>y. x1 = Inr y \<Longrightarrow> concat c1 = concat d1 \<and> [] \<notin> set c1 \<and> [] \<notin> set d1"
    using event_loop_chunks [OF assms c d] by auto
  have nx: "reader_next (new_reader bs mx) = (case x of Inr (Some e) \<Rightarrow> (\<lparr>rd_chunks = b, rd_max_event_bytes = mx, rd_done = f\<rparr>, Some (Inr e))
      | Inr None \<Rightarrow> (\<lparr>rd_chunks = b, rd_max_event_bytes = mx, rd_done = f\<rparr>, None)
      | Inl e \<Rightarrow> (\<lparr>rd_chunks = b, rd_max_event_bytes = mx, rd_done = True\<rparr>, Some (Inl e)))"
    if "event_loop mx sse_default [] False 0 bs = (b, f, x)" for bs b f x
    using that by (simp add: reader_next_def next_event_def new_reader_def split: sum.splits option.splits)
  show ?thesis
    unfolding nx [OF c] nx [OF d]
    using e by (cases x2; cases "projr x2"; cases f2) (auto simp: new_reader_def)
qed

lemma reader_items_done: "rd_done r \<Longrightarrow> reader_items r = []"
  by (subst reader_items.simps) (simp add: reader_next_def next_event_def)

text \<open>
  How the transport cuts a stream does not matter: two sequences of non-empty chunks with the same
  bytes give the same events and the same error, whatever the size limit.
\<close>

theorem sse_chunks_irrelevant:
  assumes "[] \<notin> set cs" and "[] \<notin> set ds" and "concat cs = concat ds"
  shows "reader_items (new_reader cs mx) = reader_items (new_reader ds mx)"
  using assms
proof (induction "reader_size (new_reader cs mx)" arbitrary: cs ds rule: less_induct)
  case less
  from reader_next_chunks [OF less.prems, of mx] obtain r1 r2 x where
    n: "reader_next (new_reader cs mx) = (r1, x)" "reader_next (new_reader ds mx) = (r2, x)"
    and r: "rd_done r1 \<and> rd_done r2 \<or>
     (\<exists>c d. r1 = new_reader c mx \<and> r2 = new_reader d mx \<and> concat c = concat d \<and> [] \<notin> set c \<and> [] \<notin> set d)" by blast
  have "reader_items r1 = reader_items r2" if "x = Some y" for y
    using r
  proof
    assume "rd_done r1 \<and> rd_done r2"
    then show ?thesis by (simp add: reader_items_done)
  next
    assume "\<exists>c d. r1 = new_reader c mx \<and> r2 = new_reader d mx \<and> concat c = concat d \<and> [] \<notin> set c \<and> [] \<notin> set d"
    then obtain c d where "r1 = new_reader c mx" "r2 = new_reader d mx" "concat c = concat d" "[] \<notin> set c" "[] \<notin> set d" by blast
    with less.hyps [of c d] reader_next_shrinks [of "new_reader cs mx" r1 y] n that show ?thesis by simp
  qed
  then show ?case
    unfolding reader_items.simps [of "new_reader cs mx"] reader_items.simps [of "new_reader ds mx"] n
    by (cases x) simp_all
qed

section \<open>Reading back what is written\<close>

text \<open>What survives: line ends are removed from fields, carriage returns from the ends of data lines.\<close>

definition sse_norm :: "sse_event \<Rightarrow> sse_event" where
  "sse_norm ev =
     \<lparr>se_event = map_option sse_clean (se_event ev),
      se_data = join [nl] (map (trim_end_matches cr) (split_on (\<lambda>c. c = nl) (se_data ev))),
      se_id = (case se_id ev of Some i \<Rightarrow> if CHR 0x00 \<in> set i then None else Some (sse_clean i) | None \<Rightarrow> None),
      se_retry = se_retry ev, se_comments = map sse_clean (se_comments ev)\<rparr>"

definition encode_lines :: "sse_event \<Rightarrow> str list" where
  "encode_lines ev =
     map (\<lambda>c. '':'' @ sse_clean c) (se_comments ev) @
     (case se_event ev of Some e \<Rightarrow> [''event: '' @ sse_clean e] | None \<Rightarrow> []) @
     (case se_id ev of Some i \<Rightarrow> [''id: '' @ sse_clean i] | None \<Rightarrow> []) @
     (case se_retry ev of Some r \<Rightarrow> [''retry: '' @ show_nat r] | None \<Rightarrow> []) @
     (if se_data ev \<noteq> [] \<or> has_fields ev
      then map (\<lambda>l. ''data: '' @ trim_end_matches cr l) (split_on (\<lambda>c. c = nl) (se_data ev)) else [])"

lemma sse_encode_lines: "sse_encode ev = concat (map (\<lambda>l. l @ [nl]) (encode_lines ev)) @ [nl]"
  by (simp add: sse_encode_def encode_lines_def comp_def split: option.splits)

lemma apply_line_simps:
  "apply_line ('':'' @ c) (ev, dl) = (ev\<lparr>se_comments := se_comments ev @ [c]\<rparr>, dl)"
  "apply_line (''event: '' @ v) (ev, dl) = (ev\<lparr>se_event := Some v\<rparr>, dl)"
  "apply_line (''id: '' @ v) (ev, dl) = (if CHR 0x00 \<in> set v then (ev, dl) else (ev\<lparr>se_id := Some v\<rparr>, dl))"
  "apply_line (''retry: '' @ v) (ev, dl) = (case parse_u64 v of Some ms \<Rightarrow> (ev\<lparr>se_retry := Some ms\<rparr>, dl) | None \<Rightarrow> (ev, dl))"
  "apply_line (''data: '' @ v) (ev, dl) = (ev, dl @ [v])"
  by (simp_all add: apply_line_def line_field_def strip_prefix_def)

lemma fold_comments:
  "fold apply_line (map (\<lambda>c. '':'' @ sse_clean c) cs) (ev, dl) = (ev\<lparr>se_comments := se_comments ev @ map sse_clean cs\<rparr>, dl)"
proof (induction cs arbitrary: ev)
  case (Cons c cs)
  show ?case unfolding list.map fold_Cons comp_apply apply_line_simps Cons.IH by simp
qed simp

lemma fold_data:
  "fold apply_line (map (\<lambda>l. ''data: '' @ trim_end_matches cr l) ls) (ev, dl) = (ev, dl @ map (trim_end_matches cr) ls)"
proof (induction ls arbitrary: dl)
  case (Cons l ls)
  show ?case unfolding list.map fold_Cons comp_apply apply_line_simps Cons.IH by simp
qed simp

lemma clean_set: "CHR 0x00 \<in> set (sse_clean i) \<longleftrightarrow> CHR 0x00 \<in> set i"
  by (auto simp: sse_clean_def)

lemma fold_encode_lines:
  assumes "\<And>r. se_retry ev = Some r \<Longrightarrow> r \<le> u64_max"
  shows "(let (e, dl) = fold apply_line (encode_lines ev) (sse_default, []) in e\<lparr>se_data := join [nl] dl\<rparr>) = sse_norm ev"
proof -
  have p: "parse_u64 (show_nat r) = Some r" if "se_retry ev = Some r" for r using assms that by (simp add: parse_u64_show_nat)
  show ?thesis
    unfolding encode_lines_def fold_append comp_apply fold_comments
    by (cases "se_event ev"; cases "se_id ev"; cases "se_retry ev"; cases "se_data ev = []")
       (simp_all only: option.case fold_simps apply_line_simps fold_data p clean_set has_fields_def if_True if_False
         simp_thms option.simps list.simps fold_Nil fold_Cons comp_apply id_apply split: if_split,
        simp_all add: sse_norm_def sse_default_def trim_end_matches_def)
qed

text \<open>A line as the encoder writes it: not blank, valid UTF-8, without line ends.\<close>

definition line_ok :: "str \<Rightarrow> bool" where
  "line_ok l \<longleftrightarrow> l \<noteq> [] \<and> nl \<notin> set l \<and> last l \<noteq> cr \<and> is_utf8 l"

lemma flat_line_ok:
  assumes "nl \<notin> set l" and "l = [] \<or> last l \<noteq> cr" and "is_utf8 l" and "length l \<le> limit"
  shows "flat_line limit (l @ nl # b) = Inr (Some l)" "flat_rest (l @ nl # b) = b"
proof -
  have t: "takeWhile (\<lambda>x. x \<noteq> nl) (l @ nl # b) = l" using assms(1) by (subst takeWhile_append2) auto
  have "end_line limit l = Inr l" using assms(2-4) by (auto simp: end_line_def)
  then show "flat_line limit (l @ nl # b) = Inr (Some l)" "flat_rest (l @ nl # b) = b"
    by (simp_all add: flat_line_def flat_rest_def t)
qed

lemma event_loop_lines:
  assumes "\<forall>l\<in>set ls. line_ok l" and "[] \<notin> set cs" and "concat cs = concat (map (\<lambda>l. l @ [nl]) ls) @ nl # rest"
    and "sz + length (concat (map (\<lambda>l. l @ [nl]) ls)) + 1 \<le> mx" and "seen \<or> ls \<noteq> []"
  shows "\<exists>cs'. event_loop mx ev dl seen sz cs =
      (cs', False, Inr (Some (let (e, d) = fold apply_line ls (ev, dl) in e\<lparr>se_data := join [nl] d\<rparr>))) \<and>
    concat cs' = rest \<and> [] \<notin> set cs'"
  using assms
proof (induction ls arbitrary: cs ev dl seen sz)
  case Nil
  have f: "flat_line (mx - sz) (concat cs) = Inr (Some [])" "flat_rest (concat cs) = rest"
    using flat_line_ok [of "[]"] Nil.prems(3) by simp_all
  obtain c1 where "concat c1 = rest \<and> [] \<notin> set c1"
    "event_loop mx ev dl seen sz cs = after_line mx ev dl seen sz c1 (Inr (Some []))"
    using event_loop_step [OF Nil.prems(2), of mx sz ev dl seen] f by metis
  with Nil.prems(4,5) show ?case by (simp add: after_line_def)
next
  case (Cons l ls)
  have l: "line_ok l" using Cons.prems(1) by simp
  let ?b = "concat (map (\<lambda>l. l @ [nl]) ls) @ nl # rest"
  have f: "flat_line (mx - sz) (concat cs) = Inr (Some l)" "flat_rest (concat cs) = ?b"
    using flat_line_ok [of l "mx - sz" ?b] l Cons.prems(3,4) by (simp_all add: line_ok_def)
  obtain c1 where c1: "concat c1 = ?b" "[] \<notin> set c1"
    and ev: "event_loop mx ev dl seen sz cs = after_line mx ev dl seen sz c1 (Inr (Some l))"
    using event_loop_step [OF Cons.prems(2), of mx sz ev dl seen] f by metis
  have "event_loop mx ev dl seen sz cs =
      event_loop mx (fst (apply_line l (ev, dl))) (snd (apply_line l (ev, dl))) True (sz + length l + 1) c1"
    using ev l Cons.prems(4) by (simp add: after_line_def line_ok_def)
  moreover have "fold apply_line (l # ls) (ev, dl) = fold apply_line ls (fst (apply_line l (ev, dl)), snd (apply_line l (ev, dl)))"
    by simp
  ultimately show ?case
    using Cons.IH [of c1 "sz + length l + 1" True "fst (apply_line l (ev, dl))" "snd (apply_line l (ev, dl))"]
      Cons.prems(1,4) c1 by simp
qed

text \<open>Every text of an event is valid UTF-8 (they are Rust strings) and the event is not blank.\<close>

definition sse_wf :: "sse_event \<Rightarrow> bool" where
  "sse_wf ev \<longleftrightarrow>
     (\<forall>e. se_event ev = Some e \<longrightarrow> is_utf8 e) \<and> (\<forall>i. se_id ev = Some i \<longrightarrow> is_utf8 i) \<and>
     (\<forall>c\<in>set (se_comments ev). is_utf8 c) \<and> is_utf8 (se_data ev) \<and>
     (\<forall>r. se_retry ev = Some r \<longrightarrow> r \<le> u64_max) \<and> (se_comments ev \<noteq> [] \<or> \<not> is_comment_only ev)"

lemma code_crnl: "code cr < 128" "code nl < 128"
  by (simp_all add: code_def)

lemma line_ok_prefix:
  assumes "is_utf8 t" and "nl \<notin> set t" and "t = [] \<or> last t \<noteq> cr"
    and "p \<noteq> []" and "list_all (\<lambda>c. 31 < code c \<and> code c < 128) p"
  shows "line_ok (p @ t)"
proof -
  have p: "31 < code c \<and> code c < 128" if "c \<in> set p" for c using assms(5) that by (simp add: list_all_iff)
  have "nl \<notin> set p" "cr \<notin> set p" using p by (force simp: code_def)+
  moreover have "is_utf8 (p @ t)" using is_utf8_append [OF is_utf8_ascii assms(1)] p by blast
  moreover have "last p \<noteq> cr" using last_in_set [OF assms(4)] calculation(2) by metis
  ultimately show ?thesis
    using assms(2,3,4) by (auto simp: line_ok_def last_append)
qed

lemma clean_ok: "is_utf8 s \<Longrightarrow> is_utf8 (sse_clean s) \<and> nl \<notin> set (sse_clean s) \<and> (sse_clean s = [] \<or> last (sse_clean s) \<noteq> cr)"
proof -
  assume "is_utf8 s"
  then have "is_utf8 (sse_clean s)" unfolding sse_clean_def by (rule is_utf8_filter) (use code_crnl in auto)
  moreover have "last (sse_clean s) \<noteq> cr" if "sse_clean s \<noteq> []"
    using last_in_set [OF that] by (auto simp: sse_clean_def)
  ultimately show ?thesis by (auto simp: sse_clean_def)
qed

lemma trim_end_matches_last: "trim_end_matches c s = [] \<or> last (trim_end_matches c s) \<noteq> c"
  using hd_dropWhile [of "\<lambda>x. x = c" "rev s"] by (auto simp: trim_end_matches_def last_rev)

lemma trim_end_matches_set: "x \<in> set (trim_end_matches c s) \<Longrightarrow> x \<in> set s"
  by (auto simp: trim_end_matches_def dest: set_dropWhileD)

lemma encode_lines_ok:
  assumes "sse_wf ev"
  shows "\<forall>l\<in>set (encode_lines ev). line_ok l" "encode_lines ev \<noteq> []"
proof -
  have d: "is_utf8 (trim_end_matches cr l) \<and> nl \<notin> set (trim_end_matches cr l)" if "l \<in> set (split_on (\<lambda>c. c = nl) (se_data ev))" for l
  proof -
    have "is_utf8 l" using is_utf8_split_on [OF _ _ that] assms code_crnl(2) by (auto simp: sse_wf_def)
    with is_utf8_trim_end_matches [OF _ code_crnl(1)] split_on_pieces [OF that] trim_end_matches_set show ?thesis by blast
  qed
  have n: "is_utf8 (show_nat r)" "nl \<notin> set (show_nat r)" "last (show_nat r) \<noteq> cr" for r
  proof -
    have dg: "is_ascii_digit c" if "c \<in> set (show_nat r)" for c using show_nat_digits [of r] that by (simp add: list_all_iff)
    then show "is_utf8 (show_nat r)" by (intro is_utf8_ascii) (fastforce simp: is_ascii_digit_def)
    show "nl \<notin> set (show_nat r)" "last (show_nat r) \<noteq> cr"
      using dg [of nl] dg [of "last (show_nat r)"] by (auto simp: is_ascii_digit_def code_def)
  qed
  have parts: "\<And>c. c \<in> set (se_comments ev) \<Longrightarrow> line_ok ('':'' @ sse_clean c)"
    "\<And>e. se_event ev = Some e \<Longrightarrow> line_ok (''event: '' @ sse_clean e)"
    "\<And>i. se_id ev = Some i \<Longrightarrow> line_ok (''id: '' @ sse_clean i)"
    "\<And>r. line_ok (''retry: '' @ show_nat r)"
    "\<And>x. x \<in> set (split_on (\<lambda>c. c = nl) (se_data ev)) \<Longrightarrow> line_ok (''data: '' @ trim_end_matches cr x)"
    by (rule line_ok_prefix; use assms clean_ok d n trim_end_matches_last in \<open>simp add: sse_wf_def code_def\<close>)+
  then show "\<forall>l\<in>set (encode_lines ev). line_ok l"
    by (cases "se_event ev"; cases "se_id ev"; cases "se_retry ev")
       (auto simp: encode_lines_def simp del: append.simps)
  show "encode_lines ev \<noteq> []"
    using assms by (auto simp: encode_lines_def sse_wf_def is_comment_only_def has_fields_def)
qed

lemma reader_next_encode:
  assumes "sse_wf ev" and "length (sse_encode ev) \<le> mx" and "[] \<notin> set cs" and "concat cs = sse_encode ev @ rest"
  shows "\<exists>cs'. reader_next (new_reader cs mx) = (new_reader cs' mx, Some (Inr (sse_norm ev))) \<and> concat cs' = rest \<and> [] \<notin> set cs'"
proof -
  have "concat cs = concat (map (\<lambda>l. l @ [nl]) (encode_lines ev)) @ nl # rest" using assms(4) by (simp add: sse_encode_lines)
  with event_loop_lines [OF encode_lines_ok(1) [OF assms(1)] assms(3), of rest 0 mx False sse_default "[]"]
    encode_lines_ok(2) [OF assms(1)] assms(2)
  obtain cs' where "event_loop mx sse_default [] False 0 cs = (cs', False, Inr (Some (sse_norm ev)))" "concat cs' = rest" "[] \<notin> set cs'"
    using fold_encode_lines [of ev] assms(1) by (auto simp: sse_encode_lines sse_wf_def)
  then show ?thesis by (auto simp: reader_next_def next_event_def new_reader_def)
qed

text \<open>
  Events survive the wire, and one event cannot be forged into two: whatever texts the fields of
  the events hold, the encoded stream, cut into chunks in any way, is read back as exactly one event
  per event written, equal to it up to the line ends that \<open>encode\<close> removes from the fields.  (An id
  with a NUL is dropped, as the format demands; the events fit the size limit.)
\<close>

theorem sse_stream_roundtrip:
  assumes "\<forall>ev\<in>set evs. sse_wf ev \<and> length (sse_encode ev) \<le> mx" and "[] \<notin> set cs"
    and "concat cs = concat (map sse_encode evs)"
  shows "reader_items (new_reader cs mx) = map (\<lambda>ev. Inr (sse_norm ev)) evs"
  using assms
proof (induction evs arbitrary: cs)
  case Nil
  then have "cs = []" by (cases cs) auto
  then show ?case
    by (subst reader_items.simps, simp add: reader_next_def next_event_def new_reader_def, subst event_loop.simps)
       (simp add: sse_read_line_def)
next
  case (Cons ev evs)
  from reader_next_encode [of ev mx cs "concat (map sse_encode evs)"] Cons.prems obtain cs' where
    "reader_next (new_reader cs mx) = (new_reader cs' mx, Some (Inr (sse_norm ev)))"
    "concat cs' = concat (map sse_encode evs)" "[] \<notin> set cs'" by auto
  with Cons.IH [of cs'] Cons.prems(1) show ?case by (subst reader_items.simps) simp
qed

text \<open>Clean events are read back as they are.\<close>

lemma join_split_on: "join [nl] (split_on (\<lambda>c. c = nl) s) = s"
proof (induction s)
  case (Cons c s)
  then show ?case by (cases "split_on (\<lambda>c. c = nl) s" rule: remdups_adj.cases) (auto simp: split_on_not_Nil)
qed simp

lemma sse_norm_id:
  assumes "cr \<notin> set (se_data ev)" and "\<And>e. se_event ev = Some e \<Longrightarrow> sse_clean e = e"
    and "\<And>i. se_id ev = Some i \<Longrightarrow> sse_clean i = i \<and> CHR 0x00 \<notin> set i" and "\<forall>c\<in>set (se_comments ev). sse_clean c = c"
  shows "sse_norm ev = ev"
proof -
  have "trim_end_matches cr l = l" if "l \<in> set (split_on (\<lambda>c. c = nl) (se_data ev))" for l
  proof -
    have "cr \<notin> set l" using split_on_pieces [OF that] assms(1) by blast
    then show ?thesis by (cases l rule: rev_cases) (auto simp: trim_end_matches_def)
  qed
  then have "map (trim_end_matches cr) (split_on (\<lambda>c. c = nl) (se_data ev)) = split_on (\<lambda>c. c = nl) (se_data ev)"
    by (simp add: map_idI)
  moreover have "map sse_clean (se_comments ev) = se_comments ev" using assms(4) by (simp add: map_idI)
  ultimately show ?thesis
    using assms(2,3) by (cases ev; cases "se_event ev"; cases "se_id ev") (simp_all add: sse_norm_def join_split_on)
qed

text \<open>A carriage return inside a data line is written as it is, although the code says otherwise.\<close>

lemma sse_encode_keeps_cr: "sse_encode (sse_message [CHR ''a'', cr, CHR ''b'']) = ''data: a'' @ [cr] @ ''b'' @ [nl, nl]"
  by (simp add: sse_encode_def sse_message_def sse_default_def trim_end_matches_def)

theorem sse_chunks_irrelevant_witness:
  "reader_items (new_reader [''data: a'', [nl, nl]] 100) = reader_items (new_reader [''data: a'' @ [nl], [nl]] 100)"
  by (rule sse_chunks_irrelevant) simp_all

theorem sse_stream_roundtrip_witness:
  "reader_items (new_reader [sse_encode (sse_message ''hi''), sse_encode sse_keepalive] 100) =
     map (\<lambda>ev. Inr (sse_norm ev)) [sse_message ''hi'', sse_keepalive]"
proof (rule sse_stream_roundtrip)
  have "is_utf8 ''hi''" by (rule is_utf8_ascii) (auto simp: code_def)
  then show "\<forall>ev\<in>set [sse_message ''hi'', sse_keepalive]. sse_wf ev \<and> length (sse_encode ev) \<le> 100"
    by (simp add: sse_wf_def sse_message_def sse_keepalive_def sse_default_def is_comment_only_def sse_encode_def
        has_fields_def sse_clean_def trim_end_matches_def)
qed (simp_all add: sse_encode_lines)

end
