(* ===== verification/Btree.thy ===== *)
theory Btree
  imports Writ_Prelude "HOL-Library.Char_ord" "HOL-Library.List_Lexorder"
begin

text \<open>
  \<open>BTreeMap<String, _>\<close> (and \<open>serde_json::Map\<close>, which is one): the list of the entries in the order of
  the keys.  Strings are ordered by their bytes.
\<close>

fun btree_insert :: "str \<Rightarrow> 'v \<Rightarrow> (str \<times> 'v) list \<Rightarrow> (str \<times> 'v) list" where
  "btree_insert k v [] = [(k, v)]"
| "btree_insert k v ((k', v') # kvs) =
     (if k = k' then (k, v) # kvs
      else if k < k' then (k, v) # (k', v') # kvs
      else (k', v') # btree_insert k v kvs)"

text \<open>A map made by inserting entries one after the other.\<close>

definition btree :: "(str \<times> 'v) list \<Rightarrow> (str \<times> 'v) list" where
  "btree kvs = fold (\<lambda>(k, v). btree_insert k v) kvs []"

definition sorted_keys :: "(str \<times> 'v) list \<Rightarrow> bool" where
  "sorted_keys m \<longleftrightarrow> sorted (map fst m) \<and> distinct (map fst m)"

lemma sorted_keys_Nil [simp]: "sorted_keys []"
  by (simp add: sorted_keys_def)

lemma btree_insert_keys: "set (map fst (btree_insert k v m)) = insert k (set (map fst m))"
  by (induction k v m rule: btree_insert.induct) auto

lemma btree_insert_sorted: "sorted_keys m \<Longrightarrow> sorted_keys (btree_insert k v m)"
proof (induction k v m rule: btree_insert.induct)
  case (2 k v k' v' m)
  have "sorted_keys m" using 2(2) by (simp add: sorted_keys_def)
  with 2 btree_insert_keys [of k v m] show ?case
    by (cases k k' rule: linorder_cases) (auto simp: sorted_keys_def)
qed (simp add: sorted_keys_def)

lemma map_of_btree_insert: "sorted_keys m \<Longrightarrow> map_of (btree_insert k v m) = (map_of m)(k \<mapsto> v)"
proof (induction k v m rule: btree_insert.induct)
  case (2 k v k' v' m)
  then have "sorted_keys m" by (simp add: sorted_keys_def)
  with 2 show ?case by (auto simp: fun_eq_iff)
qed auto

lemma btree_snoc: "btree (kvs @ [(k, v)]) = btree_insert k v (btree kvs)"
  by (simp add: btree_def)

lemma btree_sorted: "sorted_keys (btree kvs)"
proof (induction kvs rule: rev_induct)
  case (snoc x kvs)
  then show ?case by (cases x) (simp add: btree_snoc btree_insert_sorted)
qed (simp add: btree_def)

lemma map_of_btree: "map_of (btree kvs) = map_of (rev kvs)"
proof (induction kvs rule: rev_induct)
  case (snoc x kvs)
  then show ?case by (cases x) (simp add: btree_snoc map_of_btree_insert btree_sorted)
qed (simp add: btree_def)

end
