(* ===== verification/Credentials.thy ===== *)
theory Credentials
  imports Btree
begin

text \<open>
  \<open>writ-mcp/src/credentials.rs\<close>: secrets per downstream server, and how they leave the store: into the
  environment of a child process or into the headers of a request.
\<close>

section \<open>The store\<close>

record credential_store =
  secrets :: "str \<rightharpoonup> (str \<times> str) list"

definition new_credentials :: credential_store where
  "new_credentials = \<lparr>secrets = Map.empty\<rparr>"

definition add_credential :: "str \<Rightarrow> str \<Rightarrow> str \<Rightarrow> credential_store \<Rightarrow> credential_store" where
  "add_credential server key secret cs =
     cs\<lparr>secrets := (secrets cs)(server \<mapsto>
       btree_insert key secret (case secrets cs server of Some m \<Rightarrow> m | None \<Rightarrow> []))\<rparr>"

text \<open>
  \<open>load_from_env\<close> on the variables of the process; \<open>up\<close> is \<open>str::to_uppercase\<close>, of which only its
  effect on ASCII is used below.
\<close>

definition cred_prefix :: "(str \<Rightarrow> str) \<Rightarrow> str \<Rightarrow> str" where
  "cred_prefix up server = ''WRIT_CRED_'' @ map (\<lambda>c. if c = CHR ''-'' then CHR ''_'' else c) (up server) @ ''_''"

definition load_from_env :: "(str \<Rightarrow> str) \<Rightarrow> (str \<times> str) list \<Rightarrow> str \<Rightarrow> credential_store \<Rightarrow> credential_store" where
  "load_from_env up vars server cs =
     fold (\<lambda>(k, v) cs. case strip_prefix k (cred_prefix up server) of
        Some key \<Rightarrow> add_credential server key v cs | None \<Rightarrow> cs) vars cs"

definition has_any :: "credential_store \<Rightarrow> str \<Rightarrow> bool" where
  "has_any cs server = (case secrets cs server of Some m \<Rightarrow> m \<noteq> [] | None \<Rightarrow> False)"

definition inject_env :: "credential_store \<Rightarrow> str \<Rightarrow> (str \<rightharpoonup> str) \<Rightarrow> (str \<rightharpoonup> str)" where
  "inject_env cs server env =
     (case secrets cs server of Some m \<Rightarrow> fold (\<lambda>(k, v) env. env(k \<mapsto> v)) m env | None \<Rightarrow> env)"

definition capitalize :: "str \<Rightarrow> str" where
  "capitalize p = (case to_ascii_lowercase p of [] \<Rightarrow> [] | f # rest \<Rightarrow> ascii_upper f # rest)"

definition header_name_from_env :: "str \<Rightarrow> str" where
  "header_name_from_env key =
     join ''-'' (map capitalize (filter (\<lambda>p. p \<noteq> []) (split_on (\<lambda>c. c = CHR ''_'') key)))"

definition token_char :: "char \<Rightarrow> bool" where
  "token_char c \<longleftrightarrow> is_ascii_alphanumeric c \<or> c \<in> set ''!#$%&'' \<or> c = CHR 0x27 \<or> c = CHR 0x60 \<or> c \<in> set ''*+-.^_|~''"

definition name_ok :: "str \<Rightarrow> bool" where
  "name_ok n \<longleftrightarrow> n \<noteq> [] \<and> list_all token_char n"

definition val_ok :: "str \<Rightarrow> bool" where
  "val_ok v \<longleftrightarrow> \<not> list_ex (\<lambda>b. b = CHR 0x0D \<or> b = CHR 0x0A \<or> b = CHR 0x00) v"

text \<open>The header a credential is sent as, if any.\<close>

definition header_for :: "str \<Rightarrow> str \<Rightarrow> (str \<times> str) option" where
  "header_for key secret =
     (let nv = (if key = ''BEARER_TOKEN'' then Some (''Authorization'', ''Bearer '' @ secret)
                else map_option (\<lambda>h. (header_name_from_env h, secret)) (strip_prefix key ''HEADER_''))
      in case nv of None \<Rightarrow> None | Some (n, v) \<Rightarrow> if \<not> name_ok n \<or> \<not> val_ok v then None else Some (n, v))"

text \<open>The calls of \<open>set\<close>, in order.\<close>

definition inject_http_headers :: "credential_store \<Rightarrow> str \<Rightarrow> (str \<times> str) list" where
  "inject_http_headers cs server =
     (case secrets cs server of None \<Rightarrow> [] | Some m \<Rightarrow> List.map_filter (\<lambda>(k, v). header_for k v) m)"

definition http_header_names :: "credential_store \<Rightarrow> str \<Rightarrow> str list" where
  "http_header_names cs server = map fst (inject_http_headers cs server)"

text \<open>The environment of a spawned server: nothing of the process but \<open>PATH\<close>.\<close>

definition child_env :: "credential_store \<Rightarrow> str \<Rightarrow> str option \<Rightarrow> (str \<rightharpoonup> str) \<Rightarrow> (str \<rightharpoonup> str)" where
  "child_env cs server path extra =
     [''PATH'' \<mapsto> (case path of Some p \<Rightarrow> p | None \<Rightarrow> [])] ++ inject_env cs server extra"

section \<open>Isolation\<close>

text \<open>A store after a history of additions.\<close>

definition add_all :: "(str \<times> str \<times> str) list \<Rightarrow> credential_store" where
  "add_all hist = fold (\<lambda>(s, k, v). add_credential s k v) hist new_credentials"

definition added :: "(str \<times> str \<times> str) list \<Rightarrow> str \<Rightarrow> (str \<rightharpoonup> str)" where
  "added hist server = map_of (rev (map snd (filter (\<lambda>x. fst x = server) hist)))"

lemma added_simps [simp]:
  "added [] s = Map.empty" "added (hist @ [(s', k, v)]) s = (if s' = s then (added hist s)(k \<mapsto> v) else added hist s)"
  by (simp_all add: added_def)

text \<open>The entries the store has for a server, \<open>[]\<close> if it has none.\<close>

definition entries :: "credential_store \<Rightarrow> str \<Rightarrow> (str \<times> str) list" where
  "entries cs s = (case secrets cs s of Some m \<Rightarrow> m | None \<Rightarrow> [])"

lemma entries_add: "entries (add_credential s' k v cs) s = (if s' = s then btree_insert k v (entries cs s) else entries cs s)"
  by (simp add: entries_def add_credential_def)

lemma entries_add_all: "sorted_keys (entries (add_all hist) s) \<and> map_of (entries (add_all hist) s) = added hist s"
proof (induction hist rule: rev_induct)
  case Nil
  show ?case by (simp add: add_all_def entries_def new_credentials_def sorted_keys_def)
next
  case (snoc x hist)
  obtain s' k v where x: "x = (s', k, v)" by (metis prod_cases3)
  have "add_all (hist @ [x]) = add_credential s' k v (add_all hist)" by (simp add: add_all_def x)
  with snoc show ?case by (simp add: x entries_add btree_insert_sorted map_of_btree_insert)
qed

lemma inject_env_entries: "inject_env cs s env = fold (\<lambda>(k, v) env. env(k \<mapsto> v)) (entries cs s) env"
  by (simp add: inject_env_def entries_def split: option.splits)

lemma inject_headers_entries: "inject_http_headers cs s = List.map_filter (\<lambda>(k, v). header_for k v) (entries cs s)"
  by (simp add: inject_http_headers_def entries_def List.map_filter_simps split: option.splits)

lemma fold_update: "distinct (map fst m) \<Longrightarrow> fold (\<lambda>(k, v) env. env(k \<mapsto> v)) m env = env ++ map_of m"
proof (induction m arbitrary: env)
  case (Cons kv m)
  obtain k v where kv: "kv = (k, v)" by fastforce
  from Cons kv have "k \<notin> dom (map_of m)" by (auto simp: dom_map_of_conv_image_fst)
  with Cons kv show ?case by (auto simp: fun_eq_iff map_add_def split: option.splits)
qed simp

text \<open>
  Secrets are isolated per server: after any history of additions the environment given to a server
  is the one declared for it, overridden by exactly the latest secrets added for that server; the
  secrets of other servers have no influence.
\<close>

theorem credentials_isolated: "inject_env (add_all hist) server env = env ++ added hist server"
  using entries_add_all [of hist server] by (simp add: inject_env_entries fold_update sorted_keys_def)

text \<open>
  Credential headers are safe: every header that is set has a name that is an HTTP token and a value
  without CR, LF or NUL, so a secret cannot smuggle a second header in; and its value is the latest
  secret added for this very server under a key meant for HTTP, alone or after \<open>Bearer\<close>.
\<close>

theorem credential_headers_safe:
  assumes "(n, v) \<in> set (inject_http_headers (add_all hist) server)"
  shows "name_ok n \<and> val_ok v \<and>
    (\<exists>key secret. added hist server key = Some secret \<and>
       (key = ''BEARER_TOKEN'' \<and> n = ''Authorization'' \<and> v = ''Bearer '' @ secret \<or>
        (\<exists>h. key = ''HEADER_'' @ h \<and> n = header_name_from_env h \<and> v = secret)))"
proof -
  from assms obtain key secret where k: "(key, secret) \<in> set (entries (add_all hist) server)" "header_for key secret = Some (n, v)"
    by (auto simp: inject_headers_entries List.map_filter_def)
  with entries_add_all [of hist server] have "added hist server key = Some secret"
    by (metis map_of_eq_Some_iff sorted_keys_def)
  with k(2) show ?thesis
    by (auto simp: header_for_def Let_def strip_prefix_eq_Some split: if_splits option.splits)
qed

definition demo_history :: "(str \<times> str \<times> str) list" where
  "demo_history = [(''git'', ''BEARER_TOKEN'', ''old''), (''db'', ''HEADER_X_API_KEY'', ''k''), (''git'', ''BEARER_TOKEN'', ''new'')]"

theorem credential_headers_safe_witness:
  "(''Authorization'', ''Bearer new'') \<in> set (inject_http_headers (add_all demo_history) ''git'') \<and>
   name_ok ''Authorization'' \<and> val_ok ''Bearer new''"
proof -
  have "(''Authorization'', ''Bearer new'') \<in> set (inject_http_headers (add_all demo_history) ''git'')"
    by code_simp
  with credential_headers_safe [OF this] show ?thesis by blast
qed

text \<open>
  The names of the variables do not keep servers apart: what is meant for \<open>foo-bar\<close> is also loaded
  for a server called \<open>foo\<close>.
\<close>

theorem load_from_env_prefix_leak:
  assumes "up ''foo'' = ''FOO''" and "up ''foo-bar'' = ''FOO-BAR''"
  shows "inject_env (load_from_env up [(''WRIT_CRED_FOO_BAR_TOKEN'', secret)] ''foo-bar'' new_credentials) ''foo-bar'' Map.empty ''TOKEN'' = Some secret"
    and "inject_env (load_from_env up [(''WRIT_CRED_FOO_BAR_TOKEN'', secret)] ''foo'' new_credentials) ''foo'' Map.empty ''BAR_TOKEN'' = Some secret"
  using assms
  by (simp_all add: load_from_env_def cred_prefix_def strip_prefix_def inject_env_def add_credential_def new_credentials_def)

end
