(* ===== verification/Hook_Ref.thy ===== *)
theory Hook_Ref
  imports Utf8 Btree
begin

text \<open>
  The references of \<open>writ check\<close> (\<open>writ-cli/src/hook.rs\<close>): \<open>make_ref\<close>, \<open>parse_ref\<close>, \<open>parse_approver\<close> and the
  hexadecimal form of approver ids.
\<close>

record gw_error =
  ge_code :: str
  ge_message :: str

definition bad_request :: "str \<Rightarrow> gw_error" where
  "bad_request m = \<lparr>ge_code = ''bad_request'', ge_message = m\<rparr>"

definition bad_ref :: "str \<Rightarrow> gw_error" where
  "bad_ref m = \<lparr>ge_code = ''bad_ref'', ge_message = m\<rparr>"

definition state_error :: "str \<Rightarrow> gw_error" where
  "state_error m = \<lparr>ge_code = ''invalid_state'', ge_message = m\<rparr>"

section \<open>Hexadecimal\<close>

definition hex_digit :: "nat \<Rightarrow> char" where
  "hex_digit n = (if n < 10 then char_of (48 + n) else char_of (87 + n))"

definition hook_hex_encode :: "bytes \<Rightarrow> str" where
  "hook_hex_encode b = concat (map (\<lambda>x. [hex_digit (code x div 16), hex_digit (code x mod 16)]) b)"

text \<open>\<open>u8::from_str_radix\<close> on two characters, which takes a plus sign too.\<close>

definition hex_pair :: "char \<Rightarrow> char \<Rightarrow> char option" where
  "hex_pair a b =
     (case (hex_val a, hex_val b) of
        (Some x, Some y) \<Rightarrow> Some (char_of (16 * x + y))
      | (None, Some y) \<Rightarrow> if a = CHR ''+'' then Some (char_of y) else None
      | _ \<Rightarrow> None)"

fun hook_hex_decode :: "str \<Rightarrow> bytes option" where
  "hook_hex_decode [] = Some []"
| "hook_hex_decode [a] = None"
| "hook_hex_decode (a # b # s) =
     (case (hex_pair a b, hook_hex_decode s) of (Some x, Some xs) \<Rightarrow> Some (x # xs) | _ \<Rightarrow> None)"

definition is_lower_hex :: "char \<Rightarrow> bool" where
  "is_lower_hex c \<longleftrightarrow> 48 \<le> code c \<and> code c \<le> 57 \<or> 97 \<le> code c \<and> code c \<le> 102"

section \<open>References\<close>

definition REF_PREFIX :: str where
  "REF_PREFIX = ''w1''"

record parsed_ref =
  rf_index :: nat
  rf_hash :: str
  rf_approver :: "approver_identity option"

fun kind_name :: "approver_kind \<Rightarrow> str" where
  "kind_name Tui = ''tui''"
| "kind_name OutOfBand = ''oob''"
| "kind_name Rbac = ''rbac''"

definition make_ref :: "ledger_record \<Rightarrow> approver_identity option \<Rightarrow> str" where
  "make_ref rec a =
     REF_PREFIX @ ''.'' @ show_nat (index rec) @ ''.'' @ record_hash rec @
     (case a of None \<Rightarrow> [] | Some a \<Rightarrow> ''.'' @ kind_name (apr_kind a) @ ''.'' @ hook_hex_encode (apr_id a))"

definition bad_ref_text :: gw_error where
  "bad_ref_text = bad_ref ''malformed ref (pass back the ref writ returned, unchanged)''"

definition ref_approver :: "str \<Rightarrow> str \<Rightarrow> gw_error + approver_identity" where
  "ref_approver kind hex =
     rbind (if kind = ''tui'' then Inr Tui else if kind = ''oob'' then Inr OutOfBand
            else if kind = ''rbac'' then Inr Rbac else Inl bad_ref_text) (\<lambda>k.
       case hook_hex_decode hex of
         Some b \<Rightarrow> if is_utf8 b \<and> b \<noteq> [] then Inr \<lparr>apr_kind = k, apr_id = b\<rparr> else Inl bad_ref_text
       | None \<Rightarrow> Inl bad_ref_text)"

definition parse_ref :: "json option \<Rightarrow> gw_error + parsed_ref" where
  "parse_ref v =
     rbind (ok_or (Option.bind v as_str) (bad_request ''missing \"ref\"'')) (\<lambda>s.
       let parts = split_on (\<lambda>c. c = CHR ''.'') s
       in if \<not> (length parts = 3 \<or> length parts = 5) \<or> parts ! 0 \<noteq> REF_PREFIX then Inl bad_ref_text
          else rbind (ok_or (parse_u64 (parts ! 1)) bad_ref_text) (\<lambda>ix.
            if length (parts ! 2) \<noteq> 64 \<or> \<not> list_all is_lower_hex (parts ! 2) then Inl bad_ref_text
            else rbind (if length parts = 5 then rbind (ref_approver (parts ! 3) (parts ! 4)) (\<lambda>a. Inr (Some a))
                        else Inr None)
              (\<lambda>a. Inr \<lparr>rf_index = ix, rf_hash = parts ! 2, rf_approver = a\<rparr>)))"

definition nonempty :: "str option \<Rightarrow> str option" where
  "nonempty s = Option.bind s (\<lambda>i. if i = [] then None else Some i)"

definition parse_approver :: "str \<Rightarrow> approver_identity" where
  "parse_approver s =
     (case nonempty (strip_prefix s ''human:'') of
        Some i \<Rightarrow> \<lparr>apr_kind = Tui, apr_id = i\<rparr>
      | None \<Rightarrow>
          (case nonempty (strip_prefix s ''rbac:'') of
             Some i \<Rightarrow> \<lparr>apr_kind = Rbac, apr_id = i\<rparr>
           | None \<Rightarrow> \<lparr>apr_kind = OutOfBand, apr_id = s\<rparr>))"

section \<open>Round trip\<close>

lemma code_char_of: "n < 256 \<Longrightarrow> code (char_of n) = n"
  by (simp add: code_def)

lemma hex_digit_val: "n < 16 \<Longrightarrow> hex_val (hex_digit n) = Some n \<and> is_lower_hex (hex_digit n) \<and> hex_digit n \<noteq> CHR ''.''"
proof -
  assume n: "n < 16"
  then have "code (hex_digit n) = (if n < 10 then 48 + n else 87 + n)" by (simp add: hex_digit_def code_char_of)
  moreover have "hex_digit n \<noteq> CHR ''.''"
  proof
    assume "hex_digit n = CHR ''.''"
    with calculation have "code (CHR ''.'') = (if n < 10 then 48 + n else 87 + n)" by simp
    then show False by (simp add: code_def split: if_splits)
  qed
  ultimately show ?thesis using n by (simp add: hex_val_def is_lower_hex_def)
qed

lemma hex_digits_val:
  "hex_val (hex_digit (code c div 16)) = Some (code c div 16)" "hex_val (hex_digit (code c mod 16)) = Some (code c mod 16)"
  "hex_digit (code c div 16) \<noteq> CHR ''.''" "hex_digit (code c mod 16) \<noteq> CHR ''.''"
proof -
  have "code c < 256" by (simp add: code_def)
  then have "code c div 16 < 16" "code c mod 16 < 16" by simp_all
  with hex_digit_val show "hex_val (hex_digit (code c div 16)) = Some (code c div 16)" "hex_val (hex_digit (code c mod 16)) = Some (code c mod 16)"
    "hex_digit (code c div 16) \<noteq> CHR ''.''" "hex_digit (code c mod 16) \<noteq> CHR ''.''" by blast+
qed

lemma hex_roundtrip: "hook_hex_decode (hook_hex_encode b) = Some b"
proof (induction b)
  case (Cons c b)
  have "hex_pair (hex_digit (code c div 16)) (hex_digit (code c mod 16)) = Some c"
    by (simp add: hex_pair_def hex_digits_val) (simp add: code_def)
  with Cons show ?case by (simp add: hook_hex_encode_def)
qed (simp add: hook_hex_encode_def)

lemma hex_no_dot: "CHR ''.'' \<notin> set (hook_hex_encode b)"
proof (induction b)
  case (Cons c b)
  then show ?case using hex_digits_val(3,4) [of c] by (simp add: hook_hex_encode_def not_sym)
qed (simp add: hook_hex_encode_def)

lemma split_dot: "CHR ''.'' \<notin> set a \<Longrightarrow> split_on (\<lambda>c. c = CHR ''.'') (a @ CHR ''.'' # b) = a # split_on (\<lambda>c. c = CHR ''.'') b"
  by (rule split_on_append_sep) auto

lemma split_no_dot: "CHR ''.'' \<notin> set a \<Longrightarrow> split_on (\<lambda>c. c = CHR ''.'') a = [a]"
  by (rule split_on_no_match) auto

lemma no_dot:
  "CHR ''.'' \<notin> set (show_nat n)" "list_all is_lower_hex h \<Longrightarrow> CHR ''.'' \<notin> set h"
  "CHR ''.'' \<notin> set (kind_name k)" "CHR ''.'' \<notin> set REF_PREFIX" "CHR ''.'' \<notin> set (hook_hex_encode b)"
proof -
  have "is_ascii_digit c" if "c \<in> set (show_nat n)" for c using show_nat_digits [of n] that by (simp add: list_all_iff)
  from this [of "CHR ''.''"] show "CHR ''.'' \<notin> set (show_nat n)" by (auto simp: is_ascii_digit_def code_def)
  show "CHR ''.'' \<notin> set h" if "list_all is_lower_hex h" using that by (auto simp: list_all_iff is_lower_hex_def code_def)
qed (cases k, simp_all add: REF_PREFIX_def hex_no_dot)

lemma parse_make_ref:
  assumes "index rec \<le> u64_max" and "length (record_hash rec) = 64" and "list_all is_lower_hex (record_hash rec)"
    and "\<And>w. a = Some w \<Longrightarrow> is_utf8 (apr_id w) \<and> apr_id w \<noteq> []"
  shows "parse_ref (Some (JStr (make_ref rec a))) = Inr \<lparr>rf_index = index rec, rf_hash = record_hash rec, rf_approver = a\<rparr>"
proof (cases a)
  case None
  have "split_on (\<lambda>c. c = CHR ''.'') (make_ref rec a) = [REF_PREFIX, show_nat (index rec), record_hash rec]"
    using assms(3) by (simp add: make_ref_def None split_dot split_no_dot no_dot)
  with assms None show ?thesis by (simp add: parse_ref_def parse_u64_show_nat Let_def)
next
  case (Some w)
  have "split_on (\<lambda>c. c = CHR ''.'') (make_ref rec a) =
      [REF_PREFIX, show_nat (index rec), record_hash rec, kind_name (apr_kind w), hook_hex_encode (apr_id w)]"
    using assms(3) by (simp add: make_ref_def Some split_dot split_no_dot no_dot)
  moreover have "ref_approver (kind_name (apr_kind w)) (hook_hex_encode (apr_id w)) = Inr w"
    using assms(4) [OF Some] by (cases w; cases "apr_kind w") (simp_all add: ref_approver_def hex_roundtrip)
  ultimately show ?thesis using assms Some by (simp add: parse_ref_def parse_u64_show_nat Let_def nth_Cons')
qed

end
