(* ===== verification/Hook_Gateway.thy ===== *)
theory Hook_Gateway
  imports Hook_Ref Policy_Engine Pipeline
begin

text \<open>
  \<open>writ check\<close> (\<open>writ-cli/src/hook.rs\<close>), the hook gateway: the requests \<open>decide\<close>, \<open>resolve\<close> and
  \<open>complete\<close> of its JSON protocol.  All state that survives between requests is in the ledger.
\<close>

section \<open>State and surroundings\<close>

datatype ask_mode = AskDeny | AskDefer | AskUi

datatype ui_decision = UiApproved approver_identity | UiDenied str

definition PROTOCOL_V :: nat where "PROTOCOL_V = 1"
definition EXIT_DISPATCH :: int where "EXIT_DISPATCH = 0"
definition EXIT_ERROR :: int where "EXIT_ERROR = 1"
definition EXIT_NO_DISPATCH :: int where "EXIT_NO_DISPATCH = 2"
definition REDACTION_MARK :: str where "REDACTION_MARK = ''[redacted-by-writ]''"

text \<open>The libraries and the ledger backend.\<close>

record 's hook_ctx =
  hc_ledger :: ledger_deps
  hc_store :: "'s store_ops"
  hc_iter :: "'s \<Rightarrow> (writ_error + ledger_record) list"
  hc_policy :: policy_deps
  hc_json :: rpc_deps
  hc_replace_all :: "str \<Rightarrow> str \<Rightarrow> str \<Rightarrow> str"
  hc_debug :: "str \<Rightarrow> str"

text \<open>
  What a request meets: the answer of \<open>open_store\<close> if the store is not open yet, the clock (by the
  place where it is read), the process id, the user, and the console of \<open>writ ui\<close>.
\<close>

record 's hook_env =
  he_open :: "writ_error + 's"
  he_clock :: "nat \<Rightarrow> timestamp"
  he_pid :: nat
  he_user :: "str option"
  he_await :: "ledger_record \<Rightarrow> str \<Rightarrow> nat option \<Rightarrow> ui_decision"
  he_console :: "ledger_record \<Rightarrow> approver_identity option"

record 's gateway =
  gt_engine :: "str + native_engine"
  gt_store :: "'s option"
  gt_ask :: ask_mode
  gt_backend :: str
  gt_seq :: nat

definition ledger_error :: "writ_error \<Rightarrow> gw_error" where
  "ledger_error e = \<lparr>ge_code = ''ledger_error'', ge_message = show_writ_error e\<rparr>"

definition gw_engine :: "'s gateway \<Rightarrow> gw_error + native_engine" where
  "gw_engine gw = map_err (\<lambda>e. \<lparr>ge_code = ''policy_error'', ge_message = e\<rparr>) (gt_engine gw)"

definition gw_store :: "'s hook_env \<Rightarrow> 's gateway \<Rightarrow> 's gateway \<times> (gw_error + 's)" where
  "gw_store E gw =
     (case gt_store gw of
        Some s \<Rightarrow> (gw, Inr s)
      | None \<Rightarrow> (case he_open E of Inl e \<Rightarrow> (gw, Inl (ledger_error e)) | Inr s \<Rightarrow> (gw\<lparr>gt_store := Some s\<rparr>, Inr s)))"

text \<open>Run an append on the open store, with \<open>retry_append\<close>.\<close>

definition gw_append ::
  "'s hook_env \<Rightarrow> ('s \<Rightarrow> 's \<times> (writ_error + ledger_record)) \<Rightarrow> 's gateway \<Rightarrow> 's gateway \<times> (gw_error + ledger_record)" where
  "gw_append E f gw =
     sbind (gw_store E gw) (\<lambda>s gw.
       let (s', r) = retry_append f s in (gw\<lparr>gt_store := Some s'\<rparr>, map_err ledger_error r))"

section \<open>Decisions and executions\<close>

record decided =
  dc_call :: tool_call
  dc_verdict :: verdict
  dc_record :: ledger_record

definition ask_approver :: "ask_mode \<Rightarrow> tool_call \<Rightarrow> verdict \<Rightarrow> gw_error + approver_identity option" where
  "ask_approver mode call v =
     (case (ask_from_verdict v, mode) of
        (Some view, AskDeny) \<Rightarrow>
          rbind (map_err (\<lambda>e. \<lparr>ge_code = ''internal'', ge_message = show_writ_error e\<rparr>) (fail_closed_approver call view))
            (\<lambda>out. Inr (Some (out_approver out)))
      | _ \<Rightarrow> Inr None)"

definition decide_call :: "'s hook_ctx \<Rightarrow> 's hook_env \<Rightarrow> tool_call \<Rightarrow> 's gateway \<Rightarrow> 's gateway \<times> (gw_error + decided)" where
  "decide_call H E call gw =
     sbind (gw, gw_engine gw) (\<lambda>eng gw.
       let v = evaluate (hc_policy H) eng (from_call call)
       in sbind (gw, ask_approver (gt_ask gw) call v) (\<lambda>apr gw.
            sbind (gw_append E (record_decision (hc_ledger H) (hc_store H) (he_clock E 2) call v apr) gw) (\<lambda>rec gw.
              (gw, Inr \<lparr>dc_call = call, dc_verdict = v, dc_record = rec\<rparr>))))"

record located =
  lo_record :: ledger_record
  lo_executed :: bool

fun locate_loop ::
  "(ledger_record \<Rightarrow> bool) \<Rightarrow> located option \<Rightarrow> (writ_error + ledger_record) list \<Rightarrow> gw_error + located option" where
  "locate_loop P found [] = Inr found"
| "locate_loop P found (item # items) =
     rbind (map_err ledger_error item) (\<lambda>rec.
       locate_loop P
         (if rkind rec = Decision then (if P rec then Some \<lparr>lo_record = rec, lo_executed = False\<rparr> else found)
          else map_option (\<lambda>f. if decision_index rec = Some (index (lo_record f)) then f\<lparr>lo_executed := True\<rparr> else f) found)
         items)"

definition locate ::
  "'s hook_ctx \<Rightarrow> 's hook_env \<Rightarrow> (ledger_record \<Rightarrow> bool) \<Rightarrow> 's gateway \<Rightarrow> 's gateway \<times> (gw_error + located option)" where
  "locate H E P gw = sbind (gw_store E gw) (\<lambda>s gw. (gw, locate_loop P None (hc_iter H s)))"

definition locate_ref :: "'s hook_ctx \<Rightarrow> 's hook_env \<Rightarrow> parsed_ref \<Rightarrow> 's gateway \<Rightarrow> 's gateway \<times> (gw_error + located)" where
  "locate_ref H E r gw =
     sbind (locate H E (\<lambda>rec. index rec = rf_index r) gw) (\<lambda>found gw.
       (gw, case found of
              Some l \<Rightarrow> if record_hash (lo_record l) = rf_hash r then Inr l
                        else Inl (bad_ref ''ref does not name a decision record in this ledger'')
            | None \<Rightarrow> Inl (bad_ref ''ref does not name a decision record in this ledger'')))"

text \<open>The execution record with the approval evidence filled in.\<close>

definition approved_execution ::
  "ledger_deps \<Rightarrow> 's store_ops \<Rightarrow> timestamp \<Rightarrow> ledger_record \<Rightarrow> approver_identity \<Rightarrow> str \<Rightarrow> int \<Rightarrow> bytes \<Rightarrow>
   's \<Rightarrow> 's \<times> (writ_error + ledger_record)" where
  "approved_execution L S now d a bk status output s =
     sbind (next_index_and_prev S s) (\<lambda>(ix, prev) s.
       finalize L S ((execution_record now d bk status (hash_bytes L output) ix prev)\<lparr>rapprover := Some a\<rparr>) s)"

definition hook_record_execution ::
  "'s hook_ctx \<Rightarrow> 's hook_env \<Rightarrow> ledger_record \<Rightarrow> approver_identity option \<Rightarrow> int \<Rightarrow> bytes \<Rightarrow>
   's gateway \<Rightarrow> 's gateway \<times> (gw_error + ledger_record)" where
  "hook_record_execution H E d apr status output gw =
     gw_append E
       (case apr of
          None \<Rightarrow> writer_record_execution (hc_ledger H) (hc_store H) (he_clock E 3) d (gt_backend gw) status output
        | Some a \<Rightarrow> approved_execution (hc_ledger H) (hc_store H) (he_clock E 3) d a (gt_backend gw) status output) gw"

section \<open>Requests\<close>

fun as_bool :: "json \<Rightarrow> bool option" where
  "as_bool (JBool b) = Some b" | "as_bool _ = None"

fun as_u64 :: "json \<Rightarrow> nat option" where
  "as_u64 (JNum (PosInt n)) = Some n" | "as_u64 _ = None"

fun as_object :: "json \<Rightarrow> (str \<times> json) list option" where
  "as_object (JObj kvs) = Some kvs" | "as_object _ = None"

fun opt_string_of_json :: "json option \<Rightarrow> str + str option" where
  "opt_string_of_json None = Inr None"
| "opt_string_of_json (Some JNull) = Inr None"
| "opt_string_of_json (Some j) = rbind (string_of_json j) (\<lambda>s. Inr (Some s))"

text \<open>Derived deserialization; the texts of its errors are abbreviated.\<close>

fun caller_of_json :: "json \<Rightarrow> str + caller_identity" where
  "caller_of_json (JArr [a, b, c, d]) =
     rbind (string_of_json a) (\<lambda>a. rbind (opt_string_of_json (Some b)) (\<lambda>b.
     rbind (opt_string_of_json (Some c)) (\<lambda>c. rbind (opt_string_of_json (Some d)) (\<lambda>d.
       Inr \<lparr>agent = a, agent_version = b, user = c, non_human_id = d\<rparr>))))"
| "caller_of_json (JObj kvs) =
     rbind (rbind (required (JObj kvs) ''agent'') string_of_json) (\<lambda>a.
     rbind (opt_string_of_json (map_of kvs ''agent_version'')) (\<lambda>b.
     rbind (opt_string_of_json (map_of kvs ''user'')) (\<lambda>c.
     rbind (opt_string_of_json (map_of kvs ''non_human_id'')) (\<lambda>d.
       Inr \<lparr>agent = a, agent_version = b, user = c, non_human_id = d\<rparr>))))"
| "caller_of_json _ = Inl ''invalid type''"

fun server_of_json :: "json \<Rightarrow> str + server_identity" where
  "server_of_json (JArr [a, b, c]) =
     rbind (string_of_json a) (\<lambda>a. rbind (string_of_json b) (\<lambda>b. rbind (opt_string_of_json (Some c)) (\<lambda>c.
       Inr \<lparr>srv_name = a, srv_transport = b, srv_version = c\<rparr>)))"
| "server_of_json (JObj kvs) =
     rbind (rbind (required (JObj kvs) ''name'') string_of_json) (\<lambda>a.
     rbind (rbind (required (JObj kvs) ''transport'') string_of_json) (\<lambda>b.
     rbind (opt_string_of_json (map_of kvs ''version'')) (\<lambda>c.
       Inr \<lparr>srv_name = a, srv_transport = b, srv_version = c\<rparr>)))"
| "server_of_json _ = Inl ''invalid type''"

definition trust_of_name :: "str \<Rightarrow> str + trust_verdict" where
  "trust_of_name s =
     (if s = ''verified'' then Inr Verified else if s = ''unverified'' then Inr Unverified
      else if s = ''malicious'' then Inr Malicious else Inl ''unknown variant'')"

fun trust_of_json :: "json \<Rightarrow> str + trust_verdict" where
  "trust_of_json (JStr s) = trust_of_name s"
| "trust_of_json (JObj [(k, JNull)]) = trust_of_name k"
| "trust_of_json _ = Inl ''invalid type''"

definition non_empty_str :: "json option \<Rightarrow> str \<Rightarrow> gw_error + str option" where
  "non_empty_str v field =
     (case v of
        None \<Rightarrow> Inr None
      | Some JNull \<Rightarrow> Inr None
      | Some (JStr (c # s)) \<Rightarrow> Inr (Some (c # s))
      | Some _ \<Rightarrow> Inl (bad_request (''call.'' @ field @ '' must be a non-empty string'')))"

text \<open>An optional field of the call that is deserialized.\<close>

definition opt_part :: "str \<Rightarrow> (json \<Rightarrow> str + 'a) \<Rightarrow> json option \<Rightarrow> gw_error + 'a option" where
  "opt_part name f v =
     (case option_of_json v of
        None \<Rightarrow> Inr None
      | Some j \<Rightarrow> rbind (map_err (\<lambda>e. bad_request (''call.'' @ name @ '': '' @ e)) (f j)) (\<lambda>x. Inr (Some x)))"

definition generated_call_id :: "'s hook_env \<Rightarrow> 's gateway \<Rightarrow> 's gateway \<times> (gw_error + str)" where
  "generated_call_id E gw =
     (gw\<lparr>gt_seq := (gt_seq gw + 1) mod 2 ^ 64\<rparr>,
      Inr (''wc-'' @ show_nat (he_pid E) @ ''-'' @ show_int (epoch_ms (he_clock E 0)) @ ''-'' @ show_nat (gt_seq gw)))"

definition parse_call :: "'s hook_env \<Rightarrow> json option \<Rightarrow> 's gateway \<Rightarrow> 's gateway \<times> (gw_error + tool_call)" where
  "parse_call E v gw =
     sbind (gw, ok_or (Option.bind v as_object) (bad_request ''decide needs a \"call\" object'')) (\<lambda>c gw.
     sbind (gw, rbind (non_empty_str (map_of c ''session_id'') ''session_id'')
                  (\<lambda>x. ok_or x (bad_request ''call.session_id is required''))) (\<lambda>sid gw.
     sbind (gw, rbind (non_empty_str (map_of c ''tool'') ''tool'')
                  (\<lambda>x. ok_or x (bad_request ''call.tool is required''))) (\<lambda>tool gw.
     sbind (gw, non_empty_str (map_of c ''call_id'') ''call_id'') (\<lambda>cid gw.
     sbind (case cid of Some i \<Rightarrow> (gw, Inr i) | None \<Rightarrow> generated_call_id E gw) (\<lambda>cid gw.
     sbind (gw, opt_part ''caller'' caller_of_json (map_of c ''caller'')) (\<lambda>caller gw.
     sbind (gw, opt_part ''server'' server_of_json (map_of c ''server'')) (\<lambda>server gw.
     sbind (gw, opt_part ''trust'' trust_of_json (map_of c ''trust'')) (\<lambda>trust gw.
       (gw, Inr \<lparr>tc_call_id = cid, tc_session_id = sid,
          tc_caller = (case caller of Some w \<Rightarrow> w
            | None \<Rightarrow> \<lparr>agent = ''unknown'', agent_version = None, user = None, non_human_id = None\<rparr>),
          tc_mode = SdkHook, tc_tool = tool,
          tc_args = (case option_of_json (map_of c ''args'') of Some a \<Rightarrow> a | None \<Rightarrow> JObj []),
          tc_server = server, tc_trust = trust, tc_captured_at = he_clock E 1\<rparr>)))))))))"

type_synonym answer = "(str \<times> json) list \<times> int"

definition opt_json :: "str option \<Rightarrow> json" where
  "opt_json s = (case s of Some s \<Rightarrow> JStr s | None \<Rightarrow> JNull)"

definition deny_entries :: "str \<Rightarrow> str \<Rightarrow> str option \<Rightarrow> (str \<times> json) list" where
  "deny_entries rid reason loc =
     [(''decision'', JStr ''deny''), (''rule_id'', JStr rid), (''reason'', JStr reason)] @
     (case loc of Some l \<Rightarrow> [(''location'', JStr l)] | None \<Rightarrow> [])"

definition exit_code :: "bool \<Rightarrow> int" where
  "exit_code dispatch = (if dispatch then EXIT_DISPATCH else EXIT_NO_DISPATCH)"

text \<open>The entries for a verdict, the approver the ref carries, and whether to dispatch.\<close>

fun decide_answer :: "ask_mode \<Rightarrow> ui_decision \<Rightarrow> verdict \<Rightarrow> (str \<times> json) list \<times> approver_identity option \<times> bool" where
  "decide_answer m ui (Allow rid) = ([(''decision'', JStr ''allow''), (''rule_id'', opt_json rid)], None, True)"
| "decide_answer m ui (Redact rid ps) =
     ([(''decision'', JStr ''redact''), (''rule_id'', JStr rid), (''patterns'', JArr (map JStr ps))], None, True)"
| "decide_answer m ui (Deny rid reason loc) = (deny_entries rid reason loc, None, False)"
| "decide_answer AskUi (UiApproved who) (Ask rid diff tmo irr loc) =
     ([(''decision'', JStr ''allow''), (''rule_id'', JStr rid), (''approver'', JStr (apr_id who))], Some who, True)"
| "decide_answer AskUi (UiDenied reason) (Ask rid diff tmo irr loc) =
     (deny_entries rid reason loc @ [(''verdict'', JStr ''ask'')], None, False)"
| "decide_answer AskDeny ui (Ask rid diff tmo irr loc) =
     (deny_entries rid (''rule \"'' @ rid @ ''\" requires human approval; `writ check --ask deny` has no approver (fail closed)'') loc @
      [(''verdict'', JStr ''ask'')], None, False)"
| "decide_answer AskDefer ui (Ask rid diff tmo irr loc) =
     ([(''decision'', JStr ''ask''), (''approval'', JStr ''required''), (''rule_id'', JStr rid), (''reason'', JStr diff),
       (''irreversible'', JBool irr)] @
      (case tmo of Some t \<Rightarrow> [(''timeout_ms'', JNum (PosInt t))] | None \<Rightarrow> []) @
      (case loc of Some l \<Rightarrow> [(''location'', JStr l)] | None \<Rightarrow> []), None, False)"

definition op_decide :: "'s hook_ctx \<Rightarrow> 's hook_env \<Rightarrow> (str \<times> json) list \<Rightarrow> 's gateway \<Rightarrow> 's gateway \<times> (gw_error + answer)" where
  "op_decide H E obj gw =
     sbind (parse_call E (map_of obj ''call'') gw) (\<lambda>call gw.
     sbind (decide_call H E call gw) (\<lambda>d gw.
       let (entries, who, dispatch) = decide_answer (gt_ask gw) (he_await E (dc_record d) ''writ'' None) (dc_verdict d)
       in (gw, Inr (btree ([(''call_id'', JStr (tc_call_id (dc_call d)))] @ entries @
                      [(''dispatch'', JBool dispatch), (''ref'', JStr (make_ref (dc_record d) who))]),
                    exit_code dispatch))))"

definition resolve_approver :: "json option \<Rightarrow> gw_error + approver_identity option" where
  "resolve_approver v =
     (case option_of_json v of
        None \<Rightarrow> Inr None
      | Some (JStr s) \<Rightarrow> if trim s \<noteq> [] then Inr (Some (parse_approver (trim s)))
                        else Inl (bad_request ''\"approver\" must be a non-empty string'')
      | Some _ \<Rightarrow> Inl (bad_request ''\"approver\" must be a non-empty string''))"

definition unattributed :: str where
  "unattributed = ''unattributed''"

definition timed_out :: "timestamp \<Rightarrow> ledger_record \<Rightarrow> nat option \<Rightarrow> bool" where
  "timed_out now rec tmo =
     (case tmo of None \<Rightarrow> False
      | Some t \<Rightarrow> epoch_ms now - epoch_ms (recorded_at rec) > (if t < 2 ^ 63 then int t else 2 ^ 63 - 1))"

text \<open>The answer to an ask that is being resolved: entries with the new ref, and whether to dispatch.\<close>

definition resolve_answer ::
  "timestamp \<Rightarrow> ledger_record \<Rightarrow> str \<Rightarrow> nat option \<Rightarrow> str option \<Rightarrow> bool \<Rightarrow> approver_identity option \<Rightarrow> (str \<times> json) list \<times> bool" where
  "resolve_answer now rec rid tmo loc approved who =
     (if timed_out now rec tmo then
        (deny_entries rid (''approval for rule \"'' @ rid @ ''\" arrived after its '' @
            show_nat (case tmo of Some t \<Rightarrow> t | None \<Rightarrow> 0) @ ''ms timeout (fail closed)'') loc @
         [(''ref'', JStr (make_ref rec None))], False)
      else if approved then
        ([(''decision'', JStr ''allow''), (''rule_id'', JStr rid),
          (''ref'', JStr (make_ref rec (Some (case who of Some a \<Rightarrow> a | None \<Rightarrow> \<lparr>apr_kind = OutOfBand, apr_id = unattributed\<rparr>))))], True)
      else
        (deny_entries rid (''denied by approver '' @ (case who of Some a \<Rightarrow> apr_id a | None \<Rightarrow> unattributed)) loc @
         [(''ref'', JStr (make_ref rec None))], False))"

definition op_resolve :: "'s hook_ctx \<Rightarrow> 's hook_env \<Rightarrow> (str \<times> json) list \<Rightarrow> 's gateway \<Rightarrow> 's gateway \<times> (gw_error + answer)" where
  "op_resolve H E obj gw =
     sbind (gw, parse_ref (map_of obj ''ref'')) (\<lambda>r gw.
     if gt_ask gw = AskUi then
       (gw, Inl (state_error ''`--ask ui` takes approvals from the writ ui console only; resolve is not accepted''))
     else if rf_approver r \<noteq> None then (gw, Inl (state_error ''this ref is already resolved''))
     else
     sbind (gw, ok_or (Option.bind (map_of obj ''approved'') as_bool) (bad_request ''resolve needs a boolean \"approved\"'')) (\<lambda>approved gw.
     sbind (gw, resolve_approver (map_of obj ''approver'')) (\<lambda>who gw.
     sbind (locate_ref H E r gw) (\<lambda>l gw.
       (case rverdict (lo_record l) of
          Some (Ask rid diff tmo irr loc) \<Rightarrow>
            if rapprover (lo_record l) \<noteq> None then
              (gw, Inl (state_error ''this ask was already denied by the fail-closed approver (--ask deny)''))
            else if lo_executed l then (gw, Inl (state_error ''this call has already completed''))
            else (let (entries, dispatch) = resolve_answer (he_clock E 4) (lo_record l) rid tmo loc approved who
                  in (gw, Inr (btree ([(''call_id'', JStr (call_id (lo_record l)))] @ entries @ [(''dispatch'', JBool dispatch)]),
                               exit_code dispatch)))
        | _ \<Rightarrow> (gw, Inl (state_error ''resolve is only valid for a decide that returned approval \"required\"'')))))))"

text \<open>The checks of \<open>complete\<close> on its own fields.\<close>

definition complete_exit :: "(str \<times> json) list \<Rightarrow> gw_error + int" where
  "complete_exit obj =
     rbind (case option_of_json (map_of obj ''ok'') of None \<Rightarrow> Inr None | Some (JBool b) \<Rightarrow> Inr (Some b)
            | Some _ \<Rightarrow> Inl (bad_request ''\"ok\" must be a boolean'')) (\<lambda>okf.
     rbind (case option_of_json (map_of obj ''exit'') of None \<Rightarrow> Inr None
            | Some v \<Rightarrow> (case ok (i64_of_json v) of
                Some n \<Rightarrow> if - (2 ^ 31) \<le> n \<and> n < 2 ^ 31 then Inr (Some n) else Inl (bad_request ''\"exit\" must be a 32-bit integer'')
              | None \<Rightarrow> Inl (bad_request ''\"exit\" must be a 32-bit integer''))) (\<lambda>ex.
       case (ex, okf) of
         (Some e, _) \<Rightarrow> Inr e
       | (None, Some True) \<Rightarrow> Inr 0
       | (None, Some False) \<Rightarrow> Inr 1
       | (None, None) \<Rightarrow> Inl (bad_request ''complete needs \"ok\" and/or \"exit\"'')))"

definition complete_output :: "(str \<times> json) list \<Rightarrow> gw_error + str option" where
  "complete_output obj =
     (case option_of_json (map_of obj ''output'') of None \<Rightarrow> Inr None | Some (JStr s) \<Rightarrow> Inr (Some s)
      | Some _ \<Rightarrow> Inl (bad_request ''\"output\" must be a string''))"

text \<open>Whether a located decision may be completed with this approver; the patterns to mask with.\<close>

definition completable :: "ledger_record \<Rightarrow> approver_identity option \<Rightarrow> gw_error + str list option" where
  "completable rec apr =
     (case (rverdict rec, apr) of
        (Some (Allow _), None) \<Rightarrow> Inr None
      | (Some (Redact _ ps), None) \<Rightarrow> Inr (Some ps)
      | (Some (Ask _ _ _ _ _), _) \<Rightarrow>
          if apr \<noteq> None \<and> rapprover rec = None then Inr None
          else Inl (state_error ''complete for an ask that was not approved (send resolve first and use its ref)'')
      | (Some (Deny _ _ _), _) \<Rightarrow> Inl (state_error ''complete for a denied call'')
      | _ \<Rightarrow> Inl (bad_ref ''ref does not name a dispatchable decision''))"

definition compile_patterns :: "'s hook_ctx \<Rightarrow> str list \<Rightarrow> gw_error + str list" where
  "compile_patterns H ps =
     collect_results (\<lambda>p. case regex_new (hc_policy H) p of
        Some e \<Rightarrow> Inl \<lparr>ge_code = ''policy_error'', ge_message = ''redact pattern '' @ hc_debug H p @
                     '' does not compile ('' @ e @ ''); output withheld (fail closed)''\<rparr>
      | None \<Rightarrow> Inr p) ps"

definition hook_mask_text :: "'s hook_ctx \<Rightarrow> str list \<Rightarrow> str \<Rightarrow> str" where
  "hook_mask_text H res t = fold (\<lambda>re out. hc_replace_all H re out REDACTION_MARK) res t"

definition op_complete :: "'s hook_ctx \<Rightarrow> 's hook_env \<Rightarrow> (str \<times> json) list \<Rightarrow> 's gateway \<Rightarrow> 's gateway \<times> (gw_error + answer)" where
  "op_complete H E obj gw =
     sbind (gw, parse_ref (map_of obj ''ref'')) (\<lambda>r gw.
     sbind (gw, complete_exit obj) (\<lambda>status gw.
     sbind (gw, complete_output obj) (\<lambda>output gw.
     sbind (locate_ref H E r gw) (\<lambda>l gw.
     if lo_executed l then (gw, Inl (state_error ''this call has already completed''))
     else
     sbind (gw, completable (lo_record l) (rf_approver r)) (\<lambda>patterns gw.
     sbind (hook_record_execution H E (lo_record l) (rf_approver r) status (case output of Some out \<Rightarrow> out | None \<Rightarrow> []) gw) (\<lambda>_ gw.
       (case (patterns, output) of
          (Some ps, Some out) \<Rightarrow>
            sbind (gw, compile_patterns H ps) (\<lambda>res gw.
              (gw, Inr (btree [(''recorded'', JBool True), (''output'', JStr (hook_mask_text H res out))], EXIT_DISPATCH)))
        | _ \<Rightarrow> (gw, Inr (btree [(''recorded'', JBool True)], EXIT_DISPATCH)))))))))"

definition handle_request :: "'s hook_ctx \<Rightarrow> 's hook_env \<Rightarrow> json \<Rightarrow> 's gateway \<Rightarrow> 's gateway \<times> (gw_error + answer)" where
  "handle_request H E req gw =
     sbind (gw, ok_or (as_object req) (bad_request ''request must be a JSON object'')) (\<lambda>obj gw.
       case Option.bind (map_of obj ''v'') as_u64 of
         None \<Rightarrow> (gw, Inl (bad_request ''missing protocol version \"v\"''))
       | Some v \<Rightarrow>
           if v \<noteq> PROTOCOL_V then
             (gw, Inl (bad_request (''unsupported protocol version '' @ show_nat v @ '' (this writ speaks v'' @ show_nat PROTOCOL_V @ '')'')))
           else
             (case Option.bind (map_of obj ''op'') as_str of
                None \<Rightarrow> (gw, Inl (bad_request ''missing \"op\"''))
              | Some op \<Rightarrow>
                  if op = ''decide'' then op_decide H E obj gw
                  else if op = ''resolve'' then op_resolve H E obj gw
                  else if op = ''complete'' then op_complete H E obj gw
                  else (gw, Inl \<lparr>ge_code = ''unknown_op'', ge_message = ''unknown op '' @ hc_debug H op @ '' (expected decide, resolve or complete)''\<rparr>)))"

definition gw_error_response :: "json \<Rightarrow> gw_error \<Rightarrow> json" where
  "gw_error_response i e =
     JObj [(''error'', JObj [(''code'', JStr (ge_code e)), (''message'', JStr (ge_message e))]),
           (''id'', i), (''v'', JNum (PosInt PROTOCOL_V))]"

definition handle_line :: "'s hook_ctx \<Rightarrow> 's hook_env \<Rightarrow> str \<Rightarrow> 's gateway \<Rightarrow> 's gateway \<times> json \<times> int" where
  "handle_line H E line gw =
     (case json_from_str (hc_json H) line of
        Inl e \<Rightarrow> (gw, gw_error_response JNull (bad_request (''malformed JSON: '' @ e)), EXIT_ERROR)
      | Inr req \<Rightarrow>
          (let i = (case json_get req ''id'' of Some v \<Rightarrow> v | None \<Rightarrow> JNull)
           in case handle_request H E req gw of
                (gw, Inr (body, status)) \<Rightarrow>
                  (gw, JObj (btree_insert ''id'' i (btree_insert ''v'' (JNum (PosInt PROTOCOL_V)) body)), status)
              | (gw, Inl e) \<Rightarrow> (gw, gw_error_response i e, EXIT_ERROR)))"

text \<open>One-shot mode: the whole of standard input is one request.\<close>

definition check_once :: "'s hook_ctx \<Rightarrow> 's hook_env \<Rightarrow> bytes \<Rightarrow> 's gateway \<Rightarrow> 's gateway \<times> json \<times> int" where
  "check_once H E input gw =
     (if \<not> is_utf8 input then
        (gw, gw_error_response JNull (bad_request ''cannot read stdin: stream did not contain valid UTF-8''), EXIT_ERROR)
      else if trim input = [] then (gw, gw_error_response JNull (bad_request ''empty request on stdin''), EXIT_ERROR)
      else handle_line H E (trim input) gw)"

text \<open>\<open>serve_stdio\<close>: one response per request line, until the end of the input.\<close>

function serve_stdio :: "'s hook_ctx \<Rightarrow> (nat \<Rightarrow> 's hook_env) \<Rightarrow> nat \<Rightarrow> bytes \<Rightarrow> 's gateway \<Rightarrow> 's gateway \<times> json list" where
  "serve_stdio H Es n input gw =
     (if input = [] then (gw, [])
      else
        let line = read_until_nl input; rest = drop (length line) input
        in if \<not> is_utf8 line then
             (let (gw', out) = serve_stdio H Es (Suc n) rest gw
              in (gw', gw_error_response JNull (bad_request ''request line is not UTF-8'') # out))
           else if trim line = [] then serve_stdio H Es (Suc n) rest gw
           else
             (let (gw1, resp, _) = handle_line H (Es n) (trim line) gw; (gw', out) = serve_stdio H Es (Suc n) rest gw1
              in (gw', resp # out)))"
  by pat_completeness auto
termination
  by (relation "measure (\<lambda>(H, Es, n, input, gw). length input)") auto

declare serve_stdio.simps [simp del]

end
