(* ===== verification/Approvals.thy ===== *)
theory Approvals
  imports Hook_Gateway
begin

text \<open>
  The queue between \<open>writ check --ask ui\<close> and the console of \<open>writ ui\<close> (\<open>writ-cli/src/ui/approvals.rs\<close>): the
  gateway writes a request, the console a decision, and the gateway polls for it.
\<close>

section \<open>Messages\<close>

definition DEFAULT_TIMEOUT_MS :: nat where "DEFAULT_TIMEOUT_MS = 120000"
definition CLAUDE_CODE_CAP_MS :: nat where "CLAUDE_CODE_CAP_MS = 55000"
definition HEARTBEAT_STALE_MS :: int where "HEARTBEAT_STALE_MS = 10000"
definition APPROVER_PREFIX :: str where "APPROVER_PREFIX = ''web-console:''"

text \<open>Durations are in nanoseconds.\<close>

definition millis :: "nat \<Rightarrow> nat" where "millis n = n * 1000000"
definition HEARTBEAT_EVERY :: nat where "HEARTBEAT_EVERY = millis 2000"

record pending_request =
  pr_v :: nat
  pr_id :: str
  pr_index :: nat
  pr_record_hash :: str
  pr_created_ms :: int
  pr_deadline_ms :: int
  pr_rule_id :: str
  pr_format :: str
  pr_pid :: nat

record console_decision =
  cd_v :: nat
  cd_id :: str
  cd_record_hash :: str
  cd_approved :: bool
  cd_approver :: str
  cd_decided_ms :: int

record heartbeat =
  hb_pid :: nat
  hb_port :: nat
  hb_started_ms :: int
  hb_updated_ms :: int
  hb_ledger :: str

text \<open>
  \<open>serde_json\<close> on the messages, \<open>char::is_alphanumeric\<close> on the characters outside ASCII (as their bytes), and
  the time a file of decisions says it was made at (\<open>decided_ms\<close> of any JSON value).
\<close>

record ui_deps =
  ud_ser_request :: "pending_request \<Rightarrow> bytes"
  ud_parse_request :: "bytes \<Rightarrow> pending_request option"
  ud_ser_decision :: "console_decision \<Rightarrow> bytes"
  ud_parse_decision :: "bytes \<Rightarrow> console_decision option"
  ud_parse_beat :: "bytes \<Rightarrow> heartbeat option"
  ud_decided_ms :: "bytes \<Rightarrow> int option"
  ud_alnum :: "str \<Rightarrow> bool"

definition request_file_id :: "ledger_record \<Rightarrow> str" where
  "request_file_id rec =
     show_nat (index rec) @ ''-'' @ (case str_get (record_hash rec) 0 16 of Some h \<Rightarrow> h | None \<Rightarrow> record_hash rec)"

definition valid_id :: "str \<Rightarrow> bool" where
  "valid_id i =
     (case split_once i ''-'' of
        None \<Rightarrow> False
      | Some (idx, h) \<Rightarrow> idx \<noteq> [] \<and> length idx \<le> 20 \<and> list_all is_ascii_digit idx \<and> length h = 16 \<and> list_all is_lower_hex h)"

text \<open>The characters of a text, each as its bytes.\<close>

definition is_continuation :: "char \<Rightarrow> bool" where
  "is_continuation c \<longleftrightarrow> 128 \<le> code c \<and> code c < 192"

function chars_of :: "str \<Rightarrow> str list" where
  "chars_of [] = []"
| "chars_of (c # s) = (c # takeWhile is_continuation s) # chars_of (dropWhile is_continuation s)"
  by pat_completeness auto
termination
  by (relation "measure length") (auto simp: length_dropWhile_le less_Suc_eq_le)

definition user_char :: "ui_deps \<Rightarrow> str \<Rightarrow> bool" where
  "user_char U ch =
     (case ch of
        [c] \<Rightarrow> is_ascii_alphanumeric c \<or> c \<in> set ''._-@'' \<or> 128 \<le> code c \<and> ud_alnum U ch
      | _ \<Rightarrow> ud_alnum U ch)"

definition web_approver :: "ui_deps \<Rightarrow> str \<Rightarrow> approver_identity option" where
  "web_approver U s =
     Option.bind (strip_prefix s APPROVER_PREFIX) (\<lambda>u.
       if u \<noteq> [] \<and> length u \<le> 128 \<and> list_all (user_char U) (chars_of u)
       then Some \<lparr>apr_kind = Tui, apr_id = s\<rparr> else None)"

section \<open>The gateway's side\<close>

text \<open>
  What the gateway meets: the directories (paths as their components, the console's one also as text),
  the wall clock, the process id, whether the request can be written, the successive
  readings of the monotonic clock, and what the console's files hold when they are read.
\<close>

record ui_env =
  ue_console :: "str + str"
  ue_console_path :: "str list"
  ue_ledger_dir :: "str + str list"
  ue_cwd :: "str list"
  ue_pending :: "str + unit"
  ue_now :: "nat \<Rightarrow> timestamp"
  ue_process :: nat
  ue_write :: "str + unit"
  ue_mono :: "nat \<Rightarrow> nat"
  ue_beat :: "nat \<Rightarrow> bytes option"
  ue_decision :: "nat \<Rightarrow> bytes option"

definition wrap_i64 :: "int \<Rightarrow> int" where
  "wrap_i64 x = (x + 2 ^ 63) mod 2 ^ 64 - 2 ^ 63"

definition heartbeat_fresh :: "timestamp \<Rightarrow> heartbeat \<Rightarrow> bool" where
  "heartbeat_fresh now h =
     (let age = wrap_i64 (epoch_ms now - hb_updated_ms h) in - HEARTBEAT_STALE_MS \<le> age \<and> age \<le> HEARTBEAT_STALE_MS)"

definition beating :: "ui_deps \<Rightarrow> ui_env \<Rightarrow> nat \<Rightarrow> bool" where
  "beating U V n =
     (case Option.bind (ue_beat V n) (ud_parse_beat U) of Some h \<Rightarrow> heartbeat_fresh (ue_now V (n + 1)) h | None \<Rightarrow> False)"

definition read_decision :: "ui_deps \<Rightarrow> bytes option \<Rightarrow> console_decision option" where
  "read_decision U file = Option.bind file (ud_parse_decision U)"

definition answer_of :: "ui_deps \<Rightarrow> ledger_record \<Rightarrow> str \<Rightarrow> console_decision \<Rightarrow> ui_decision" where
  "answer_of U rec rid d =
     (if cd_id d \<noteq> request_file_id rec \<or> cd_record_hash d \<noteq> record_hash rec
      then UiDenied ''the console decision does not name this call (fail closed)''
      else case web_approver U (cd_approver d) of
             None \<Rightarrow> UiDenied ''the console decision carries no web-console approver (fail closed)''
           | Some who \<Rightarrow> if cd_approved d then UiApproved who
                         else UiDenied (''rule \"'' @ rid @ ''\": denied in the writ ui web console by '' @ apr_id who))"

text \<open>
  The polling loop: \<open>n\<close> counts the rounds, \<open>i\<close> the readings of the monotonic clock, of which reading 0 is the
  start; \<open>beat\<close> is the time of the last look at the heartbeat.  The last reading of a round is that of the
  pause.
\<close>

partial_function (option) await_loop ::
  "ui_deps \<Rightarrow> ui_env \<Rightarrow> ledger_record \<Rightarrow> str \<Rightarrow> nat \<Rightarrow> nat \<Rightarrow> nat \<Rightarrow> nat \<Rightarrow> ui_decision option" where
  "await_loop U V rec rid wait n i beat =
     (case read_decision U (ue_decision V n) of
        Some d \<Rightarrow> Some (answer_of U rec rid d)
      | None \<Rightarrow>
          if ue_mono V i - ue_mono V 0 \<ge> millis wait then
            Some (UiDenied (''rule \"'' @ rid @ ''\": no decision from the writ ui console within '' @ show_nat wait @ ''ms (fail closed)''))
          else if ue_mono V (i + 1) - beat \<ge> HEARTBEAT_EVERY then
            (if \<not> beating U V (n + 1)
             then Some (UiDenied (''rule \"'' @ rid @ ''\": the writ ui console stopped while the ask was waiting (fail closed)''))
             else await_loop U V rec rid wait (n + 1) (i + 4) (ue_mono V (i + 2)))
          else await_loop U V rec rid wait (n + 1) (i + 3) beat)"

text \<open>
  The whole wait, on the queue of requests (file name to contents): the request is in the queue while
  the gateway waits and is taken out however the wait ends.
\<close>

definition pending_of :: "ui_env \<Rightarrow> ledger_record \<Rightarrow> str \<Rightarrow> str \<Rightarrow> nat \<Rightarrow> pending_request" where
  "pending_of V rec rid format wait =
     (let now = epoch_ms (ue_now V 0)
      in \<lparr>pr_v = 1, pr_id = request_file_id rec, pr_index = index rec, pr_record_hash = record_hash rec, pr_created_ms = now,
          pr_deadline_ms = wrap_i64 (now + (if wait < 2 ^ 63 then int wait else (2 ^ 63 - 1) div 2)),
          pr_rule_id = rid, pr_format = format, pr_pid = ue_process V\<rparr>)"

definition await_inner ::
  "ui_deps \<Rightarrow> ui_env \<Rightarrow> ledger_record \<Rightarrow> str \<Rightarrow> nat option \<Rightarrow> (str \<rightharpoonup> bytes) \<Rightarrow> ((str \<rightharpoonup> bytes) \<times> (str + ui_decision)) option" where
  "await_inner U V rec format cap q =
     (case rverdict rec of
        Some (Ask rid diff tmo irr loc) \<Rightarrow>
          (let timeout = (case tmo of Some t \<Rightarrow> t | None \<Rightarrow> DEFAULT_TIMEOUT_MS);
               wait = (case cap of Some c \<Rightarrow> min timeout c | None \<Rightarrow> timeout)
           in case ue_console V of
                Inl e \<Rightarrow> Some (q, Inl e)
              | Inr console \<Rightarrow>
                  (case ue_ledger_dir V of
                     Inl e \<Rightarrow> Some (q, Inl e)
                   | Inr dir \<Rightarrow>
                       if prefix dir (ue_console_path V) \<or> ue_cwd V \<noteq> [] \<and> prefix (ue_cwd V) (ue_console_path V) then
                         Some (q, Inr (UiDenied (''the writ ui state directory '' @ console @
                           '' is inside the ledger directory or the working directory, where an agent could write its own approval; refusing (fail closed)'')))
                       else if \<not> beating U V 0 then
                         Some (q, Inr (UiDenied (''rule \"'' @ rid @ ''\" requires human approval and no `writ ui` console is running for this ledger (fail closed); start `writ ui` to approve asks'')))
                       else
                         let file = request_file_id rec @ ''.json''
                         in case rbind (ue_pending V) (\<lambda>_. ue_write V) of
                              Inl e \<Rightarrow> Some (q, Inl e)
                            | Inr _ \<Rightarrow>
                                (let q' = q(file \<mapsto> ud_ser_request U (pending_of V rec rid format wait))
                                 in map_option (\<lambda>d. (q'(file := None), Inr d)) (await_loop U V rec rid wait 0 2 (ue_mono V 1)))))
      | _ \<Rightarrow> Some (q, Inl ''not an ask decision''))"

definition await_decision ::
  "ui_deps \<Rightarrow> ui_env \<Rightarrow> ledger_record \<Rightarrow> str \<Rightarrow> nat option \<Rightarrow> (str \<rightharpoonup> bytes) \<Rightarrow> ((str \<rightharpoonup> bytes) \<times> ui_decision) option" where
  "await_decision U V rec format cap q =
     map_option (\<lambda>(q', r). (q', case r of Inr d \<Rightarrow> d
       | Inl e \<Rightarrow> UiDenied (''`--ask ui` could not reach the writ ui console: '' @ e @ '' (fail closed)'')))
       (await_inner U V rec format cap q)"

text \<open>\<open>files\<close> are the decision files of the console.\<close>

definition decision_path :: "str \<Rightarrow> str" where
  "decision_path i = i @ ''.json''"

definition console_approval :: "ui_deps \<Rightarrow> str + str \<Rightarrow> (str \<rightharpoonup> bytes) \<Rightarrow> ledger_record \<Rightarrow> approver_identity option" where
  "console_approval U console files rec =
     (case console of
        Inl _ \<Rightarrow> None
      | Inr _ \<Rightarrow>
          Option.bind (read_decision U (files (decision_path (request_file_id rec)))) (\<lambda>d.
            if cd_approved d \<and> cd_record_hash d = record_hash rec then web_approver U (cd_approver d) else None))"

section \<open>The console's side\<close>

text \<open>\<open>var\<close> is the environment.\<close>

definition console_approver :: "ui_deps \<Rightarrow> (str \<rightharpoonup> str) \<Rightarrow> str" where
  "console_approver U var =
     (let u = (case var ''USER'' of Some u \<Rightarrow> u | None \<Rightarrow> (case var ''USERNAME'' of Some u \<Rightarrow> u | None \<Rightarrow> ''local-user''));
          clean = concat (take 64 (filter (user_char U) (chars_of u)))
      in APPROVER_PREFIX @ (if clean = [] then ''local-user'' else clean))"

text \<open>A directory entry: its name, whether it is a file, its size and its contents, where they can be read.\<close>

record dir_entry =
  de_name :: "str option"
  de_meta :: "(bool \<times> nat) option"
  de_bytes :: "bytes option"

definition request_of_entry :: "ui_deps \<Rightarrow> dir_entry \<Rightarrow> pending_request option" where
  "request_of_entry U e =
     Option.bind (de_name e) (\<lambda>name.
     Option.bind (strip_suffix name ''.json'') (\<lambda>i.
     if \<not> valid_id i then None
     else Option.bind (de_meta e) (\<lambda>(is_file, size).
     if \<not> is_file \<or> size > 64 * 1024 then None
     else Option.bind (de_bytes e) (\<lambda>b.
     Option.bind (ud_parse_request U b) (\<lambda>r. if pr_id r = i then Some r else None)))))"

definition list_requests :: "ui_deps \<Rightarrow> dir_entry list option \<Rightarrow> pending_request list" where
  "list_requests U dir =
     (case dir of None \<Rightarrow> [] | Some es \<Rightarrow> sort_key pr_index (List.map_filter (request_of_entry U) es))"

text \<open>The write is atomic: it happens or it does not.\<close>

definition write_decision ::
  "ui_deps \<Rightarrow> (str \<rightharpoonup> str) \<Rightarrow> timestamp \<Rightarrow> str + unit \<Rightarrow> str \<Rightarrow> str \<Rightarrow> bool \<Rightarrow> (str \<rightharpoonup> bytes) \<Rightarrow> (str \<rightharpoonup> bytes) \<times> (str + console_decision)" where
  "write_decision U var now write i h approved files =
     (let d = \<lparr>cd_v = 1, cd_id = i, cd_record_hash = h, cd_approved = approved, cd_approver = console_approver U var,
               cd_decided_ms = epoch_ms now\<rparr>
      in case write of
           Inl e \<Rightarrow> (files, Inl e)
         | Inr _ \<Rightarrow> (files(decision_path i \<mapsto> ud_ser_decision U d), Inr d))"

definition gc_decisions :: "ui_deps \<Rightarrow> timestamp \<Rightarrow> (str \<rightharpoonup> bytes) \<Rightarrow> (str \<rightharpoonup> bytes)" where
  "gc_decisions U now files =
     (\<lambda>f. case files f of
        None \<Rightarrow> None
      | Some b \<Rightarrow> (case ud_decided_ms U b of
            Some t \<Rightarrow> if t < epoch_ms now - 24 * 3600000 then None else Some b
          | None \<Rightarrow> None))"

end
