(* ===== verification/Hook_Claude.thy ===== *)
theory Hook_Claude
  imports Hook_Gateway
begin

text \<open>
  \<open>writ check --format claude-code\<close> (\<open>writ-cli/src/hook.rs\<close>): the hook payloads of Claude Code, answered with
  a permission decision before a tool runs and with masked output after it.
\<close>

section \<open>Answers\<close>

record claude_out =
  co_stdout :: json
  co_stderr :: str
  co_code :: int

definition claude_pre :: "str \<Rightarrow> str \<Rightarrow> int \<Rightarrow> claude_out" where
  "claude_pre decision reason status =
     \<lparr>co_stdout = JObj [(''hookSpecificOutput'', JObj [(''hookEventName'', JStr ''PreToolUse''),
        (''permissionDecision'', JStr decision), (''permissionDecisionReason'', JStr reason)])],
      co_stderr = (if status = EXIT_NO_DISPATCH then reason else []), co_code = status\<rparr>"

definition pre_error :: "str \<Rightarrow> claude_out" where
  "pre_error msg = claude_pre ''deny'' (''writ error (fail closed, tool not run): '' @ msg) EXIT_NO_DISPATCH"

definition post_json :: "str \<Rightarrow> json option \<Rightarrow> json" where
  "post_json event updated =
     JObj [(''hookSpecificOutput'', JObj ((''hookEventName'', JStr event) #
        (case updated of Some u \<Rightarrow> [(''updatedToolOutput'', u)] | None \<Rightarrow> [])))]"

definition post_error :: "str \<Rightarrow> str \<Rightarrow> claude_out" where
  "post_error event msg = \<lparr>co_stdout = post_json event None, co_stderr = ''writ error: '' @ msg, co_code = EXIT_NO_DISPATCH\<rparr>"

fun map_strings :: "(str \<Rightarrow> str) \<Rightarrow> json \<Rightarrow> json" where
  "map_strings f (JStr s) = JStr (f s)"
| "map_strings f (JArr xs) = JArr (map (map_strings f) xs)"
| "map_strings f (JObj kvs) = JObj (map (\<lambda>(k, x). (k, map_strings f x)) kvs)"
| "map_strings f j = j"

definition mask_value :: "'s hook_ctx \<Rightarrow> str list \<Rightarrow> json \<Rightarrow> json" where
  "mask_value H res v = map_strings (hook_mask_text H res) v"

definition mask_all :: "json \<Rightarrow> json" where
  "mask_all v = (if v = JNull then JStr REDACTION_MARK else map_strings (\<lambda>_. REDACTION_MARK) v)"

section \<open>Payloads\<close>

text \<open>\<open>"Exit code N"\<close> on the first line of the error text, else 1.\<close>

definition parse_i32 :: "str \<Rightarrow> int option" where
  "parse_i32 s = Option.bind (parse_i64 s) (\<lambda>n. if - (2 ^ 31) \<le> n \<and> n < 2 ^ 31 then Some n else None)"

definition parse_exit_code :: "str \<Rightarrow> int" where
  "parse_exit_code err =
     (case Option.bind (if err = [] then None else strip_prefix (trim (takeWhile (\<lambda>c. c \<noteq> nl) err)) ''Exit code '')
             (\<lambda>n. parse_i32 (trim n)) of
        Some n \<Rightarrow> n | None \<Rightarrow> 1)"

definition FS_READ :: "str list" where
  "FS_READ = [''Read'', ''Glob'', ''Grep'', ''LS'', ''NotebookRead'']"

definition FS_WRITE :: "str list" where
  "FS_WRITE = [''Write'', ''Edit'', ''MultiEdit'', ''NotebookEdit'']"

text \<open>A file tool's arguments with \<open>path\<close> filled in from the native key.\<close>

definition with_path :: "(str \<times> json) list \<Rightarrow> (str \<times> json) list" where
  "with_path args =
     (if Option.bind (map_of args ''path'') as_str \<noteq> None then args
      else case Option.bind (map_of args ''file_path'') as_str of
             Some p \<Rightarrow> btree_insert ''path'' (JStr p) args
           | None \<Rightarrow> (case Option.bind (map_of args ''notebook_path'') as_str of
                        Some p \<Rightarrow> btree_insert ''path'' (JStr p) args
                      | None \<Rightarrow> args))"

definition mcp_tool :: "str \<Rightarrow> str option \<Rightarrow> (str \<times> server_identity) option" where
  "mcp_tool name mcp =
     Option.bind (strip_prefix name ''mcp__'') (\<lambda>rest.
     Option.bind (split_once rest ''__'') (\<lambda>(server, tool).
       if server \<noteq> [] \<and> tool \<noteq> []
       then Some (tool, \<lparr>srv_name = (case mcp of Some n \<Rightarrow> n | None \<Rightarrow> server), srv_transport = ''unknown'', srv_version = None\<rparr>)
       else None))"

definition map_claude_tool ::
  "str \<Rightarrow> (str \<times> json) list \<Rightarrow> str option \<Rightarrow> str \<times> (str \<times> json) list \<times> server_identity option" where
  "map_claude_tool name args mcp =
     (if name = ''Bash'' \<or> name = ''PowerShell'' then (''bash'', args, None)
      else if name \<in> set FS_READ then (''fs.read'', with_path args, None)
      else if name \<in> set FS_WRITE then (''fs.write'', with_path args, None)
      else if name = ''WebFetch'' then (''http'', args, None)
      else if name = ''WebSearch'' then (''web.search'', args, None)
      else case mcp_tool name mcp of
             Some (tool, server) \<Rightarrow> (tool, args, Some server)
           | None \<Rightarrow> (name, args, None))"

definition str_at :: "json \<Rightarrow> str \<Rightarrow> str option" where
  "str_at p k = nonempty (Option.bind (json_get p k) as_str)"

definition cc_call :: "'s hook_env \<Rightarrow> json \<Rightarrow> str + tool_call" where
  "cc_call E p =
     rbind (ok_or (str_at p ''session_id'') ''hook payload lacks session_id'') (\<lambda>sid.
     rbind (ok_or (str_at p ''tool_use_id'') ''hook payload lacks tool_use_id'') (\<lambda>tid.
     rbind (ok_or (str_at p ''tool_name'') ''hook payload lacks tool_name'') (\<lambda>name.
     rbind (case option_of_json (json_get p ''tool_input'') of
              None \<Rightarrow> Inr [] | Some (JObj m) \<Rightarrow> Inr m | Some _ \<Rightarrow> Inl ''tool_input is not a JSON object'') (\<lambda>input.
       let (tool, args, server) = map_claude_tool name input
             (Option.bind (Option.bind (json_get p ''mcp_server'') (\<lambda>m. json_get m ''name'')) as_str)
       in Inr \<lparr>tc_call_id = tid, tc_session_id = sid,
            tc_caller = \<lparr>agent = ''claude-code'', agent_version = None, user = he_user E, non_human_id = str_at p ''agent_id''\<rparr>,
            tc_mode = SdkHook, tc_tool = tool, tc_args = JObj args, tc_server = server, tc_trust = None,
            tc_captured_at = he_clock E 1\<rparr>))))"

section \<open>Before and after a tool\<close>

definition CLAUDE_PROMPT_APPROVER :: approver_identity where
  "CLAUDE_PROMPT_APPROVER = \<lparr>apr_kind = Tui, apr_id = ''claude-code-prompt''\<rparr>"

definition place :: "str option \<Rightarrow> str" where
  "place loc = (case loc of Some l \<Rightarrow> l | None \<Rightarrow> ''policy default'')"

fun cc_answer :: "ask_mode \<Rightarrow> ui_decision \<Rightarrow> verdict \<Rightarrow> claude_out" where
  "cc_answer m ui (Allow rid) =
     claude_pre ''allow'' (''writ: allowed by '' @ (case rid of Some r \<Rightarrow> ''rule \"'' @ r @ ''\"'' | None \<Rightarrow> ''the policy default'')) EXIT_DISPATCH"
| "cc_answer m ui (Redact rid ps) =
     claude_pre ''allow'' (''writ: allowed by rule \"'' @ rid @ ''\"; matched output is redacted'') EXIT_DISPATCH"
| "cc_answer m ui (Deny rid reason loc) =
     claude_pre ''deny'' (''writ denied this: rule \"'' @ rid @ ''\" '' @ em_dash @ '' '' @ reason @ '' ('' @ place loc @ '')'') EXIT_NO_DISPATCH"
| "cc_answer AskDefer ui (Ask rid diff tmo irr loc) =
     claude_pre ''ask'' (''writ: rule \"'' @ rid @ ''\" ('' @ place loc @ '') needs your approval: '' @ diff) EXIT_DISPATCH"
| "cc_answer AskUi (UiApproved who) (Ask rid diff tmo irr loc) =
     claude_pre ''allow'' (''writ: rule \"'' @ rid @ ''\" approved in the writ ui web console by '' @ apr_id who) EXIT_DISPATCH"
| "cc_answer AskUi (UiDenied reason) (Ask rid diff tmo irr loc) =
     claude_pre ''deny'' (''writ denied this: '' @ reason) EXIT_NO_DISPATCH"
| "cc_answer AskDeny ui (Ask rid diff tmo irr loc) =
     claude_pre ''deny'' (''writ denied this: rule \"'' @ rid @ ''\" requires human approval and none is available here (fail closed)'') EXIT_NO_DISPATCH"

text \<open>\<open>cap\<close> is the bound of the console's answer, below Claude Code's own timeout.\<close>

definition cc_pre :: "'s hook_ctx \<Rightarrow> 's hook_env \<Rightarrow> nat \<Rightarrow> json \<Rightarrow> 's gateway \<Rightarrow> 's gateway \<times> claude_out" where
  "cc_pre H E cap p gw =
     (case cc_call E p of
        Inl e \<Rightarrow> (gw, pre_error e)
      | Inr call \<Rightarrow>
          (case decide_call H E call gw of
             (gw, Inl e) \<Rightarrow> (gw, pre_error (ge_code e @ '': '' @ ge_message e))
           | (gw, Inr d) \<Rightarrow> (gw, cc_answer (gt_ask gw) (he_await E (dc_record d) ''claude-code'' (Some cap)) (dc_verdict d))))"

text \<open>Unless the call is known not to be redacted, a failure masks the whole output.\<close>

definition cc_fail :: "str \<Rightarrow> json \<Rightarrow> str \<Rightarrow> bool \<Rightarrow> claude_out" where
  "cc_fail event response msg plain =
     (if \<not> plain \<and> event \<noteq> ''PostToolUseFailure''
      then (post_error event msg)\<lparr>co_stdout := post_json event (Some (mask_all response))\<rparr>
      else post_error event msg)"

definition patterns_of :: "ledger_record \<Rightarrow> str list option" where
  "patterns_of rec = (case rverdict rec of Some (Redact _ ps) \<Rightarrow> Some ps | _ \<Rightarrow> None)"

definition opt_or :: "str option \<Rightarrow> str \<Rightarrow> str" where
  "opt_or s d = (case s of Some x \<Rightarrow> x | None \<Rightarrow> d)"

text \<open>Who let the tool run, or why it should not have run.\<close>

definition post_approver ::
  "ask_mode \<Rightarrow> (ledger_record \<Rightarrow> approver_identity option) \<Rightarrow> str \<Rightarrow> ledger_record \<Rightarrow> str + approver_identity option" where
  "post_approver m console tid rec =
     (case rverdict rec of
        Some (Allow _) \<Rightarrow> Inr None
      | Some (Redact _ _) \<Rightarrow> Inr None
      | Some (Ask _ _ _ _ _) \<Rightarrow>
          if rapprover rec \<noteq> None then
            Inl (''tool '' @ tid @ '' ran although writ did not allow it (rule '' @ opt_or (rule_id rec) ''?'' @ ''); recorded nothing'')
          else if m = AskUi then
            (case console rec of
               Some who \<Rightarrow> Inr (Some who)
             | None \<Rightarrow> Inl (''tool '' @ tid @ '' ran although the writ ui console did not approve it (rule '' @
                         opt_or (rule_id rec) ''?'' @ ''); recorded nothing''))
          else Inr (Some CLAUDE_PROMPT_APPROVER)
      | _ \<Rightarrow> Inl (''tool '' @ tid @ '' ran although writ did not allow it (rule '' @ opt_or (rule_id rec) ''?'' @ ''); recorded nothing''))"

definition post_output :: "'s hook_ctx \<Rightarrow> str \<Rightarrow> json \<Rightarrow> json \<Rightarrow> int \<times> bytes" where
  "post_output H event p response =
     (if event = ''PostToolUseFailure''
      then (let err = opt_or (Option.bind (json_get p ''error'') as_str) [] in (parse_exit_code err, err))
      else (0, json_to_string (hc_json H) response))"

definition input_changed :: "'s hook_env \<Rightarrow> json \<Rightarrow> ledger_record \<Rightarrow> bool" where
  "input_changed E p rec =
     (case (cc_call E p, rcall rec) of
        (Inr now, Some was) \<Rightarrow> tc_tool now \<noteq> tc_tool was \<or> tc_args now \<noteq> tc_args was
      | _ \<Rightarrow> False)"

text \<open>The answer after the execution is on record.\<close>

definition post_answer :: "'s hook_ctx \<Rightarrow> 's hook_env \<Rightarrow> str \<Rightarrow> json \<Rightarrow> json \<Rightarrow> str \<Rightarrow> ledger_record \<Rightarrow> claude_out" where
  "post_answer H E event p response tid rec =
     (case (case (patterns_of rec, event = ''PostToolUseFailure'') of
              (Some ps, False) \<Rightarrow> rbind (compile_patterns H ps) (\<lambda>res. Inr (Some (mask_value H res response)))
            | _ \<Rightarrow> Inr None) of
        Inl e \<Rightarrow> cc_fail event response (ge_message e) False
      | Inr updated \<Rightarrow>
          if input_changed E p rec
          then \<lparr>co_stdout = post_json event updated,
                co_stderr = ''writ: tool '' @ tid @ '' ran with input that differs from the input writ decided on; the ledger records the decided input'',
                co_code = EXIT_NO_DISPATCH\<rparr>
          else \<lparr>co_stdout = post_json event updated, co_stderr = [], co_code = EXIT_DISPATCH\<rparr>)"

definition cc_post :: "'s hook_ctx \<Rightarrow> 's hook_env \<Rightarrow> json \<Rightarrow> str \<Rightarrow> 's gateway \<Rightarrow> 's gateway \<times> claude_out" where
  "cc_post H E p event gw =
     (let response = (case json_get p ''tool_response'' of Some v \<Rightarrow> v | None \<Rightarrow> JNull);
          fail = cc_fail event response
      in case (str_at p ''session_id'', str_at p ''tool_use_id'') of
           (Some sid, Some tid) \<Rightarrow>
             (case locate H E (\<lambda>r. session_id r = sid \<and> call_id r = tid) gw of
                (gw, Inl e) \<Rightarrow> (gw, fail (ge_code e @ '': '' @ ge_message e) False)
              | (gw, Inr None) \<Rightarrow> (gw, fail (''no writ decision recorded for '' @ tid @ '' in '' @ sid) False)
              | (gw, Inr (Some l)) \<Rightarrow>
                  (let rec = lo_record l; plain = (patterns_of rec = None)
                   in case post_approver (gt_ask gw) (he_console E) tid rec of
                        Inl msg \<Rightarrow> (gw, fail msg plain)
                      | Inr apr \<Rightarrow>
                          if lo_executed l then (gw, fail (''tool '' @ tid @ '' was already completed'') plain)
                          else
                            (let (status, output) = post_output H event p response
                             in case hook_record_execution H E rec apr status output gw of
                                  (gw, Inl e) \<Rightarrow> (gw, fail (ge_code e @ '': '' @ ge_message e) plain)
                                | (gw, Inr _) \<Rightarrow> (gw, post_answer H E event p response tid rec))))
         | _ \<Rightarrow> (gw, fail ''hook payload lacks session_id/tool_use_id; cannot correlate'' False))"

definition claude_code :: "'s hook_ctx \<Rightarrow> 's hook_env \<Rightarrow> nat \<Rightarrow> str \<Rightarrow> 's gateway \<Rightarrow> 's gateway \<times> claude_out" where
  "claude_code H E cap input gw =
     (case json_from_str (hc_json H) (trim input) of
        Inl e \<Rightarrow> (gw, pre_error (''malformed hook payload: '' @ e))
      | Inr pl \<Rightarrow>
          if as_object pl = None then (gw, pre_error ''hook payload is not a JSON object'')
          else if json_get pl ''cursor_version'' \<noteq> None then
            (gw, pre_error (''this is a Cursor hook payload (Cursor also runs the Claude Code hooks in .claude/settings.json): '' @
               ''run `writ integrate cursor` and turn off Cursor'' @ [CHR 0x27] @ ''s third-party hook import, or remove writ'' @ [CHR 0x27] @ ''s hooks from .claude/settings.json''))
          else
            (let event = opt_or (Option.bind (json_get pl ''hook_event_name'') as_str) []
             in if event = ''PreToolUse'' then cc_pre H E cap pl gw
                else if event = ''PostToolUse'' \<or> event = ''PostToolUseFailure'' then cc_post H E pl event gw
                else (gw, pre_error (''unsupported hook_event_name '' @ hc_debug H event @
                        '' (writ handles PreToolUse, PostToolUse, PostToolUseFailure)''))))"

end
