(* ===== verification/Hook_Safety.thy ===== *)
theory Hook_Safety
  imports Hook_Claude
begin

text \<open>
  What \<open>writ check\<close> guarantees about the ledger, over any sequence of requests in both formats and
  over any number of processes: executions are authorised, linked and recorded once.
\<close>

section \<open>Authorised executions\<close>

text \<open>When an execution record is evidence that the decision let the call run.\<close>

definition authorised :: "ledger_record \<Rightarrow> ledger_record \<Rightarrow> bool" where
  "authorised d e \<longleftrightarrow>
     rkind d = Decision \<and> decision_index e = Some (index d) \<and> index d < index e \<and>
     call_id e = call_id d \<and> session_id e = session_id d \<and>
     (case rverdict d of
        Some (Allow _) \<Rightarrow> rapprover e = None
      | Some (Redact _ _) \<Rightarrow> rapprover e = None
      | Some (Ask _ _ _ _ _) \<Rightarrow> rapprover d = None \<and> rapprover e \<noteq> None
      | _ \<Rightarrow> False)"

definition executions :: "ledger_record list \<Rightarrow> ledger_record list" where
  "executions rs = filter (\<lambda>r. rkind r = Execution) rs"

definition exec_ok :: "ledger_record list \<Rightarrow> bool" where
  "exec_ok rs \<longleftrightarrow> (\<forall>e\<in>set (executions rs). \<exists>d\<in>set rs. authorised d e) \<and> distinct (map decision_index (executions rs))"

lemma executions_append [simp]: "executions (rs @ ts) = executions rs @ executions ts"
  by (simp add: executions_def)

lemma set_executions: "e \<in> set (executions rs) \<longleftrightarrow> e \<in> set rs \<and> rkind e = Execution"
  by (auto simp: executions_def)

lemma exec_ok_Nil [simp]: "exec_ok []"
  by (simp add: exec_ok_def executions_def)

lemma exec_ok_decision: "exec_ok rs \<Longrightarrow> rkind r = Decision \<Longrightarrow> exec_ok (rs @ [r])"
  by (auto simp: exec_ok_def executions_def)

lemma exec_ok_execution:
  assumes "exec_ok rs" and "d \<in> set rs" and "authorised d e" and "rkind e = Execution"
    and "\<And>e'. e' \<in> set (executions rs) \<Longrightarrow> decision_index e' \<noteq> Some (index d)"
  shows "exec_ok (rs @ [e])"
proof -
  have "decision_index e = Some (index d)" using assms(3) by (simp add: authorised_def)
  with assms(5) have "decision_index e \<notin> set (map decision_index (executions rs))" by (metis image_iff list.set_map)
  moreover have "executions [e] = [e]" using assms(4) by (simp add: executions_def)
  ultimately show ?thesis using assms(1-3) by (auto simp: exec_ok_def)
qed

section \<open>Finding a decision\<close>

definition links_to :: "ledger_record \<Rightarrow> ledger_record \<Rightarrow> bool" where
  "links_to d e \<longleftrightarrow> rkind e = Execution \<and> decision_index e = Some (index d)"

lemma locate_loop_spec:
  "locate_loop P found (map Inr rs) = Inr res \<Longrightarrow>
   (\<exists>xs d ys. rs = xs @ d # ys \<and> rkind d = Decision \<and> P d \<and>
      res = Some \<lparr>lo_record = d, lo_executed = (\<exists>e\<in>set ys. links_to d e)\<rparr>) \<or>
   res = map_option (\<lambda>f. \<lparr>lo_record = lo_record f, lo_executed = lo_executed f \<or> (\<exists>e\<in>set rs. links_to (lo_record f) e)\<rparr>) found"
proof (induction rs arbitrary: found)
  case Nil
  then show ?case by (cases found) auto
next
  case (Cons r rs)
  let ?f = "if rkind r = Decision then (if P r then Some \<lparr>lo_record = r, lo_executed = False\<rparr> else found)
    else map_option (\<lambda>f. if decision_index r = Some (index (lo_record f)) then f\<lparr>lo_executed := True\<rparr> else f) found"
  have "locate_loop P ?f (map Inr rs) = Inr res" using Cons.prems by simp
  from Cons.IH [OF this] show ?case
  proof
    assume "\<exists>xs d ys. rs = xs @ d # ys \<and> rkind d = Decision \<and> P d \<and>
      res = Some \<lparr>lo_record = d, lo_executed = (\<exists>e\<in>set ys. links_to d e)\<rparr>"
    then show ?thesis by (metis append_Cons)
  next
    assume r: "res = map_option (\<lambda>f. \<lparr>lo_record = lo_record f, lo_executed = lo_executed f \<or> (\<exists>e\<in>set rs. links_to (lo_record f) e)\<rparr>) ?f"
    show ?thesis
    proof (cases "rkind r = Decision \<and> P r")
      case True
      with r have "res = Some \<lparr>lo_record = r, lo_executed = (\<exists>e\<in>set rs. links_to r e)\<rparr>" by simp
      with True show ?thesis by (intro disjI1 exI [of _ "[]"] exI [of _ r] exI [of _ rs]) simp
    next
      case False
      have k: "rkind r \<noteq> Decision \<longleftrightarrow> rkind r = Execution" by (cases "rkind r") simp_all
      from False r show ?thesis
        by (cases found) (auto simp: links_to_def k)
    qed
  qed
qed

lemma locate_loop_Some:
  assumes "locate_loop P None (map Inr rs) = Inr (Some l)"
  obtains xs ys where "rs = xs @ lo_record l # ys" "rkind (lo_record l) = Decision" "P (lo_record l)"
    "lo_executed l \<longleftrightarrow> (\<exists>e\<in>set ys. links_to (lo_record l) e)"
  using locate_loop_spec [OF assms] by auto

lemma chain_valid_index:
  assumes "chain_valid L (xs @ r # ys)"
  shows "index r = length xs"
  using chain_valid_nth [OF assms, of "length xs"] by (simp add: extends_def)

text \<open>A decision that the scan did not find executed has no execution anywhere.\<close>

lemma not_executed:
  assumes "chain_valid L (xs @ d # ys)" and "exec_ok (xs @ d # ys)" and "rkind d = Decision"
    and "\<not> (\<exists>e\<in>set ys. links_to d e)" and "e \<in> set (executions (xs @ d # ys))"
  shows "decision_index e \<noteq> Some (index d)"
proof
  assume di: "decision_index e = Some (index d)"
  have ex: "rkind e = Execution" "e \<in> set (xs @ d # ys)" using assms(5) by (simp_all only: set_executions)
  with assms(3,4) di have "e \<in> set xs" by (auto simp: links_to_def)
  then obtain as bs where xs: "xs = as @ e # bs" by (auto simp: in_set_conv_decomp)
  have "index e = length as" using assms(1) chain_valid_index [of L as e "bs @ d # ys"] by (simp add: xs)
  moreover have "index d = length xs" using assms(1) by (rule chain_valid_index)
  moreover obtain d' where "authorised d' e" using assms(2,5) unfolding exec_ok_def by blast
  then have "index d < index e" using di by (simp add: authorised_def)
  ultimately show False by (simp add: xs)
qed

section \<open>The gateway on a readable store\<close>

text \<open>A ledger store whose records can be read back in order.\<close>

locale readable_store = ledger_store L S chain inv ready
  for L :: ledger_deps and S :: "'s store_ops" and chain :: "'s \<Rightarrow> ledger_record list" and inv and ready +
  fixes iter :: "'s \<Rightarrow> (writ_error + ledger_record) list"
  assumes iter_ok: "inv s \<Longrightarrow> iter s = map Inr (chain s)"

text \<open>
  The gateway holds, or will open, a store with the records \<open>rs\<close>; \<open>gw_chain\<close> are the records it holds.
\<close>

definition gw_at :: "('s \<Rightarrow> bool) \<Rightarrow> ('s \<Rightarrow> ledger_record list) \<Rightarrow> 's hook_env \<Rightarrow> 's gateway \<Rightarrow> ledger_record list \<Rightarrow> bool" where
  "gw_at I C E gw rs \<longleftrightarrow>
     (case gt_store gw of
        Some s \<Rightarrow> I s \<and> C s = rs
      | None \<Rightarrow> (\<forall>s. he_open E = Inr s \<longrightarrow> I s \<and> C s = rs))"

definition gw_chain :: "('s \<Rightarrow> ledger_record list) \<Rightarrow> 's gateway \<Rightarrow> ledger_record list \<Rightarrow> ledger_record list" where
  "gw_chain C gw rs = (case gt_store gw of Some s \<Rightarrow> C s | None \<Rightarrow> rs)"

text \<open>What a request leaves alone.\<close>

definition same_setup :: "'s gateway \<Rightarrow> 's gateway \<Rightarrow> bool" where
  "same_setup gw gw' \<longleftrightarrow> gt_engine gw' = gt_engine gw \<and> gt_ask gw' = gt_ask gw \<and> gt_backend gw' = gt_backend gw"

lemma same_setup_refl [simp]: "same_setup gw gw"
  by (simp add: same_setup_def)

lemma gw_store_at:
  assumes "gw_at I C E gw rs" and "gw_store E gw = (gw', r)"
  shows "gw_at I C E gw' rs \<and> same_setup gw gw' \<and> (\<forall>s. r = Inr s \<longrightarrow> gt_store gw' = Some s \<and> I s \<and> C s = rs)"
  using assms by (auto simp: gw_store_def gw_at_def same_setup_def split: option.splits sum.splits)

lemma retry_loop_cases:
  assumes "\<And>s s' e. K s \<Longrightarrow> f s = (s', Inl e) \<Longrightarrow> K s'"
    and "\<And>s s' r. K s \<Longrightarrow> f s = (s', Inr r) \<Longrightarrow> Q s' r"
    and "K s" and "retry_loop n f s = (s', x)"
  shows "case x of Inl e \<Rightarrow> K s' | Inr r \<Rightarrow> Q s' r"
  using assms(3,4)
proof (induction n arbitrary: s)
  case 0
  with assms(1,2) show ?case by (auto split: prod.splits sum.splits if_splits)
next
  case (Suc n)
  obtain s1 y where f: "f s = (s1, y)" by fastforce
  show ?case
  proof (cases y)
    case (Inl e)
    show ?thesis
    proof (cases "is_append_race e")
      case True
      with f Inl Suc.prems have "retry_loop n f s1 = (s', x)" by simp
      with Suc.IH assms(1) [OF Suc.prems(1)] f Inl show ?thesis by blast
    next
      case False
      with f Inl Suc.prems have "s' = s1" "x = Inl e" by auto
      with assms(1) [OF Suc.prems(1)] f Inl show ?thesis by simp
    qed
  next
    case (Inr r)
    with f Suc.prems have "s' = s1" "x = Inr r" by auto
    with assms(2) [OF Suc.prems(1)] f Inr show ?thesis by simp
  qed
qed

lemma gw_append_at:
  assumes "gw_at I C E gw rs" and "gw_append E f gw = (gw', x)"
    and "\<And>s s' e. I s \<Longrightarrow> C s = rs \<Longrightarrow> f s = (s', Inl e) \<Longrightarrow> I s' \<and> C s' = rs"
    and "\<And>s s' r. I s \<Longrightarrow> C s = rs \<Longrightarrow> f s = (s', Inr r) \<Longrightarrow> I s' \<and> C s' = rs @ [r] \<and> Q r"
  shows "same_setup gw gw' \<and>
    (case x of Inl e \<Rightarrow> gw_at I C E gw' rs | Inr r \<Rightarrow> gw_at I C E gw' (rs @ [r]) \<and> gt_store gw' \<noteq> None \<and> Q r)"
proof -
  obtain gw1 y where o: "gw_store E gw = (gw1, y)" by fastforce
  note at = gw_store_at [OF assms(1) o]
  show ?thesis
  proof (cases y)
    case (Inl e)
    with o at assms(2) show ?thesis by (auto simp: gw_append_def)
  next
    case (Inr s)
    obtain s' z where z: "retry_append f s = (s', z)" by fastforce
    have "case z of Inl e \<Rightarrow> I s' \<and> C s' = rs | Inr r \<Rightarrow> I s' \<and> C s' = rs @ [r] \<and> Q r"
    proof (rule retry_loop_cases [where K = "\<lambda>s. I s \<and> C s = rs" and Q = "\<lambda>s' r. I s' \<and> C s' = rs @ [r] \<and> Q r"])
      show "retry_loop APPEND_RETRIES f s = (s', z)" using z by (simp only: retry_append_def)
      show "I s \<and> C s = rs" using at Inr by blast
    qed (use assms(3,4) in blast)+
    moreover have "gw' = gw1\<lparr>gt_store := Some s'\<rparr>" "x = map_err ledger_error z"
      using assms(2) o Inr z by (auto simp: gw_append_def)
    ultimately show ?thesis using at by (cases z) (auto simp: gw_at_def same_setup_def)
  qed
qed

context readable_store
begin

text \<open>The parameters of the gateway are those of the store.\<close>

definition uses :: "'s hook_ctx \<Rightarrow> bool" where
  "uses H \<longleftrightarrow> hc_ledger H = L \<and> hc_store H = S \<and> hc_iter H = iter"

abbreviation at_rs :: "'s hook_env \<Rightarrow> 's gateway \<Rightarrow> ledger_record list \<Rightarrow> bool" where
  "at_rs \<equiv> gw_at inv chain"

lemma decide_call_at:
  assumes "uses H" and "at_rs E gw rs" and "float_free (tc_args call)" and "decide_call H E call gw = (gw', x)"
  shows "same_setup gw gw' \<and> (case x of Inl e \<Rightarrow> at_rs E gw' rs
    | Inr d \<Rightarrow> at_rs E gw' (rs @ [dc_record d]) \<and> gt_store gw' \<noteq> None \<and> dc_call d = call \<and>
        rkind (dc_record d) = Decision \<and> rcall (dc_record d) = Some call \<and>
        rverdict (dc_record d) = Some (dc_verdict d) \<and>
        (\<exists>eng. gt_engine gw = Inr eng \<and> dc_verdict d = evaluate (hc_policy H) eng (from_call call)) \<and>
        rapprover (dc_record d) = (if is_ask (dc_verdict d) \<and> gt_ask gw = AskDeny
          then Some (out_approver (projr (fail_closed_approver call (the (ask_from_verdict (dc_verdict d)))))) else None))"
proof (cases "gt_engine gw")
  case (Inl e)
  with assms(2,4) show ?thesis by (auto simp: decide_call_def gw_engine_def)
next
  case (Inr eng)
  define v where "v = evaluate (hc_policy H) eng (from_call call)"
  define apr where "apr = (if is_ask v \<and> gt_ask gw = AskDeny
      then Some (out_approver (projr (fail_closed_approver call (the (ask_from_verdict v))))) else None)"
  have apr: "ask_approver (gt_ask gw) call v = Inr apr"
    by (cases v; cases "gt_ask gw") (simp_all add: ask_approver_def apr_def fail_closed_approver_def)
  obtain gw1 y where y: "gw_append E (record_decision (hc_ledger H) (hc_store H) (he_clock E 2) call v apr) gw = (gw1, y)" by fastforce
  have "same_setup gw gw1 \<and> (case y of Inl e \<Rightarrow> at_rs E gw1 rs
    | Inr r \<Rightarrow> at_rs E gw1 (rs @ [r]) \<and> gt_store gw1 \<noteq> None \<and>
        (rkind r = Decision \<and> rcall r = Some call \<and> rverdict r = Some v \<and> rapprover r = apr))"
  proof (rule gw_append_at [OF assms(2) y])
    fix s s' e
    assume "inv s" "chain s = rs" "record_decision (hc_ledger H) (hc_store H) (he_clock E 2) call v apr s = (s', Inl e)"
    with record_decision_err [of s] assms(1) show "inv s' \<and> chain s' = rs" by (simp only: uses_def)
  next
    fix s s' r
    assume "inv s" "chain s = rs" "record_decision (hc_ledger H) (hc_store H) (he_clock E 2) call v apr s = (s', Inr r)"
    with record_decision_ok [of s call _ v apr s' r] assms(1,3)
    show "inv s' \<and> chain s' = rs @ [r] \<and> (rkind r = Decision \<and> rcall r = Some call \<and> rverdict r = Some v \<and> rapprover r = apr)"
      unfolding uses_def by blast
  qed
  moreover have "decide_call H E call gw = (case y of Inl e \<Rightarrow> (gw1, Inl e)
      | Inr r \<Rightarrow> (gw1, Inr \<lparr>dc_call = call, dc_verdict = v, dc_record = r\<rparr>))"
    using Inr apr y by (cases y) (simp_all add: decide_call_def gw_engine_def v_def [symmetric] Let_def)
  ultimately show ?thesis using assms(4) Inr
    by (cases y) (auto simp: v_def apr_def)
qed

lemma execution_append:
  assumes "inv s" and "rkind d = Decision"
    and "(case apr of None \<Rightarrow> writer_record_execution L S now d bk status res
          | Some a \<Rightarrow> approved_execution L S now d a bk status res) s = (s', x)"
  shows "case x of Inl e \<Rightarrow> inv s' \<and> chain s' = chain s
    | Inr r \<Rightarrow> inv s' \<and> chain s' = chain s @ [r] \<and> rkind r = Execution \<and> decision_index r = Some (index d) \<and>
        call_id r = call_id d \<and> session_id r = session_id d \<and> rapprover r = apr \<and> output_hash r = Some (hash_bytes L res)"
proof -
  obtain s1 where s1: "inv s1" "chain s1 = chain s"
      "next_index_and_prev S s = (s1, Inr (length (chain s) mod 2 ^ 64, tip_hash (chain s)))"
    using tip_hash_of_tip [OF assms(1)] by blast
  define r0 where "r0 = (execution_record now d bk status (hash_bytes L res) (length (chain s) mod 2 ^ 64) (tip_hash (chain s)))
    \<lparr>rapprover := apr\<rparr>"
  have f: "finalize L S r0 s1 = (s', x)"
    using assms(2,3) s1(3)
    by (cases apr) (simp_all add: writer_record_execution_def approved_execution_def r0_def execution_record_def)
  show ?thesis
  proof (cases x)
    case (Inl e)
    with finalize_err [OF s1(1)] f s1(2) show ?thesis by simp
  next
    case (Inr r)
    have "exact_record r0" by (simp add: r0_def exact_record_def execution_record_def)
    with finalize_ok [OF s1(1)] f s1(2) Inr have r: "inv s'" "chain s' = chain s @ [r]" "r = r0\<lparr>record_hash := record_hash r\<rparr>" by auto
    have "rkind r = Execution \<and> decision_index r = Some (index d) \<and> call_id r = call_id d \<and> session_id r = session_id d \<and>
        rapprover r = apr \<and> output_hash r = Some (hash_bytes L res)"
      by (subst r(3), subst (2) r(3), subst (3) r(3), subst (4) r(3), subst (5) r(3), subst (6) r(3))
         (simp add: r0_def execution_record_def)
    with Inr r show ?thesis by simp
  qed
qed

end

section \<open>Every operation keeps the ledger in order\<close>

definition may_complete :: "ledger_record \<Rightarrow> approver_identity option \<Rightarrow> bool" where
  "may_complete d apr \<longleftrightarrow>
     (case rverdict d of
        Some (Allow _) \<Rightarrow> apr = None
      | Some (Redact _ _) \<Rightarrow> apr = None
      | Some (Ask _ _ _ _ _) \<Rightarrow> rapprover d = None \<and> apr \<noteq> None
      | _ \<Rightarrow> False)"

lemma completable_may: "completable d apr = Inr ps \<Longrightarrow> may_complete d apr"
  by (auto simp: completable_def may_complete_def split: option.splits verdict.splits if_splits)

lemma post_approver_may: "post_approver m console tid d = Inr apr \<Longrightarrow> may_complete d apr"
  by (cases "console d"; cases apr) (auto simp: post_approver_def may_complete_def split: option.splits verdict.splits if_splits)

lemma float_free_get: "float_free (JObj kvs) \<Longrightarrow> map_of kvs k = Some v \<Longrightarrow> float_free v"
  by (auto simp: list_all_iff dest: map_of_SomeD)

lemma float_free_json_get: "float_free j \<Longrightarrow> json_get j k = Some v \<Longrightarrow> float_free v"
  by (cases j) (auto intro: float_free_get)

lemma option_of_json_Some: "option_of_json v = Some j \<Longrightarrow> v = Some j"
  by (cases v rule: option_of_json.cases) auto

lemma parse_call_args:
  assumes "parse_call E v gw = (gw', Inr call)" and "\<And>j. v = Some j \<Longrightarrow> float_free j"
  shows "float_free (tc_args call)"
proof -
  obtain c where c: "v = Some (JObj c)" "tc_args call = (case option_of_json (map_of c ''args'') of Some a \<Rightarrow> a | None \<Rightarrow> JObj [])"
    using assms(1) unfolding parse_call_def
    by (cases v; cases "the v") (auto simp: result_simps ok_or_def)
  with assms(2) float_free_get [of c "''args''"] show ?thesis
    by (auto dest: option_of_json_Some split: option.splits)
qed

lemma parse_call_keeps: "parse_call E v gw = (gw', x) \<Longrightarrow> gt_store gw' = gt_store gw \<and> same_setup gw gw'"
  by (auto simp: parse_call_def sbind_def generated_call_id_def same_setup_def
      split: prod.splits sum.splits option.splits)

context readable_store
begin

definition progress :: "'s hook_env \<Rightarrow> 's gateway \<Rightarrow> ledger_record list \<Rightarrow> 's gateway \<Rightarrow> bool" where
  "progress E gw rs gw' \<longleftrightarrow>
     same_setup gw gw' \<and> at_rs E gw' (gw_chain chain gw' rs) \<and> prefix rs (gw_chain chain gw' rs) \<and>
     (exec_ok rs \<longrightarrow> exec_ok (gw_chain chain gw' rs))"

lemma progressI:
  assumes "same_setup gw gw'" and "at_rs E gw' (rs @ ts)" and "ts = [] \<or> gt_store gw' \<noteq> None"
    and "exec_ok rs \<Longrightarrow> exec_ok (rs @ ts)"
  shows "progress E gw rs gw'"
  using assms by (cases "gt_store gw'") (auto simp: progress_def gw_at_def gw_chain_def)

lemma progress_same: "same_setup gw gw' \<Longrightarrow> at_rs E gw' rs \<Longrightarrow> progress E gw rs gw'"
  by (rule progressI [of _ _ _ _ "[]"]) simp_all

lemma progress_setup: "same_setup gw gw1 \<Longrightarrow> progress E gw1 rs gw' \<Longrightarrow> progress E gw rs gw'"
  by (simp add: progress_def same_setup_def)

lemma locate_at:
  assumes "uses H" and "at_rs E gw rs" and "locate H E P gw = (gw', x)"
  shows "same_setup gw gw' \<and> at_rs E gw' rs \<and>
    (\<forall>l. x = Inr (Some l) \<longrightarrow> gt_store gw' \<noteq> None \<and> chain_valid L rs \<and>
      (\<exists>xs ys. rs = xs @ lo_record l # ys \<and> rkind (lo_record l) = Decision \<and> P (lo_record l) \<and>
        (lo_executed l \<longleftrightarrow> (\<exists>e\<in>set ys. links_to (lo_record l) e))))"
proof -
  obtain gw1 y where y: "gw_store E gw = (gw1, y)" by fastforce
  note at = gw_store_at [OF assms(2) y]
  show ?thesis
  proof (cases y)
    case (Inl e)
    with y at assms(3) show ?thesis by (auto simp: locate_def)
  next
    case (Inr s)
    with at have s: "gt_store gw1 = Some s" "inv s" "chain s = rs" by blast+
    have x: "gw' = gw1" "x = locate_loop P None (map Inr rs)"
      using assms(1,3) y Inr iter_ok [OF s(2)] s(3) by (auto simp: locate_def uses_def)
    have "\<exists>xs ys. rs = xs @ lo_record l # ys \<and> rkind (lo_record l) = Decision \<and> P (lo_record l) \<and>
        (lo_executed l \<longleftrightarrow> (\<exists>e\<in>set ys. links_to (lo_record l) e))" if "x = Inr (Some l)" for l
      using that x(2) by (metis locate_loop_Some)
    with at x(1) s inv_valid [OF s(2)] show ?thesis by auto
  qed
qed

lemma locate_ref_at:
  assumes "uses H" and "at_rs E gw rs" and "locate_ref H E r gw = (gw', x)"
  shows "same_setup gw gw' \<and> at_rs E gw' rs \<and>
    (\<forall>l. x = Inr l \<longrightarrow> gt_store gw' \<noteq> None \<and> chain_valid L rs \<and> record_hash (lo_record l) = rf_hash r \<and>
      (\<exists>xs ys. rs = xs @ lo_record l # ys \<and> rkind (lo_record l) = Decision \<and> index (lo_record l) = rf_index r \<and>
        (lo_executed l \<longleftrightarrow> (\<exists>e\<in>set ys. links_to (lo_record l) e))))"
proof -
  obtain gw1 y where y: "locate H E (\<lambda>rec. index rec = rf_index r) gw = (gw1, y)" by fastforce
  note at = locate_at [OF assms(1,2) y]
  show ?thesis
  proof (cases y)
    case (Inl e)
    with y at assms(3) show ?thesis by (auto simp: locate_ref_def)
  next
    case (Inr found)
    with y assms(3) have "gw' = gw1" "x = (case found of
        Some l \<Rightarrow> if record_hash (lo_record l) = rf_hash r then Inr l
                  else Inl (bad_ref ''ref does not name a decision record in this ledger'')
      | None \<Rightarrow> Inl (bad_ref ''ref does not name a decision record in this ledger''))" by (auto simp: locate_ref_def)
    with at Inr show ?thesis by (cases found) auto
  qed
qed

lemma hook_record_execution_at:
  assumes "uses H" and "at_rs E gw rs" and "chain_valid L rs" and "rs = xs @ d # ys" and "rkind d = Decision"
    and "\<not> (\<exists>e\<in>set ys. links_to d e)" and "may_complete d apr"
    and "hook_record_execution H E d apr status res gw = (gw', x)"
  shows "progress E gw rs gw' \<and> (\<forall>r. x = Inr r \<longrightarrow> gt_store gw' \<noteq> None \<and> at_rs E gw' (rs @ [r]) \<and> authorised d r \<and>
    output_hash r = Some (hash_bytes L res))"
proof -
  let ?f = "case apr of
          None \<Rightarrow> writer_record_execution (hc_ledger H) (hc_store H) (he_clock E 3) d (gt_backend gw) status res
        | Some a \<Rightarrow> approved_execution (hc_ledger H) (hc_store H) (he_clock E 3) d a (gt_backend gw) status res"
  let ?Q = "\<lambda>r. rkind r = Execution \<and> decision_index r = Some (index d) \<and>
        call_id r = call_id d \<and> session_id r = session_id d \<and> rapprover r = apr \<and> output_hash r = Some (hash_bytes L res)"
  have f: "case z of Inl e \<Rightarrow> inv s' \<and> chain s' = rs | Inr r \<Rightarrow> inv s' \<and> chain s' = rs @ [r] \<and> ?Q r"
    if "inv s" "chain s = rs" "?f s = (s', z)" for s s' z
    using execution_append [OF that(1) assms(5), where apr = apr and now = "he_clock E 3" and bk = "gt_backend gw" and
        status = status and res = res and s' = s' and x = z] that assms(1)
    by (simp only: uses_def)
  have a: "same_setup gw gw' \<and> (case x of Inl e \<Rightarrow> at_rs E gw' rs | Inr r \<Rightarrow> at_rs E gw' (rs @ [r]) \<and> gt_store gw' \<noteq> None \<and> ?Q r)"
  proof (rule gw_append_at [OF assms(2)])
    show "gw_append E ?f gw = (gw', x)" using assms(8) by (simp only: hook_record_execution_def)
    show "inv s' \<and> chain s' = rs" if "inv s" "chain s = rs" "?f s = (s', Inl e)" for s s' e
      using f [OF that] by simp
    show "inv s' \<and> chain s' = rs @ [r] \<and> ?Q r" if "inv s" "chain s = rs" "?f s = (s', Inr r)" for s s' r
      using f [OF that] by simp
  qed
  show ?thesis
  proof (cases x)
    case (Inl e)
    with a progress_same show ?thesis by simp
  next
    case (Inr r)
    with a obtain s where s: "gt_store gw' = Some s" "inv s" "chain s = rs @ [r]" by (auto simp: gw_at_def split: option.splits)
    have "index r = length rs" using inv_valid [OF s(2)] by (simp add: s(3) extends_def)
    moreover have "index d = length xs" using assms(3) unfolding assms(4) by (rule chain_valid_index)
    ultimately have auth: "authorised d r"
      using a Inr assms(4,5,7) by (auto simp: authorised_def may_complete_def split: option.splits verdict.splits)
    have "exec_ok (rs @ [r])" if "exec_ok rs"
    proof (rule exec_ok_execution [OF that _ auth])
      show "d \<in> set rs" using assms(4) by simp
      show "rkind r = Execution" using a Inr by simp
      show "decision_index e' \<noteq> Some (index d)" if "e' \<in> set (executions rs)" for e'
        using not_executed [OF assms(3) [unfolded assms(4)] \<open>exec_ok rs\<close> [unfolded assms(4)] assms(5,6)] that assms(4) by simp
    qed
    with a Inr auth progressI [of gw gw' E rs "[r]"] show ?thesis by simp
  qed
qed

end

end
