(* ===== verification/Hook_Progress.thy ===== *)
theory Hook_Progress
  imports Hook_Safety
begin

text \<open>
  Every request of \<open>writ check\<close>, in its own format and in Claude Code's, keeps the ledger in order: what was
  recorded stays, what is added is a decision, or the one execution of an authorised decision.
\<close>

section \<open>Claude Code's calls\<close>

lemma float_free_btree_insert:
  "list_all (\<lambda>kv. float_free (snd kv)) kvs \<Longrightarrow> float_free v \<Longrightarrow> list_all (\<lambda>kv. float_free (snd kv)) (btree_insert k v kvs)"
  by (induction k v kvs rule: btree_insert.induct) auto

lemma float_free_with_path:
  "list_all (\<lambda>kv. float_free (snd kv)) kvs \<Longrightarrow> list_all (\<lambda>kv. float_free (snd kv)) (with_path kvs)"
  by (auto simp: with_path_def intro!: float_free_btree_insert split: option.splits)

lemma map_claude_tool_args:
  assumes "list_all (\<lambda>kv. float_free (snd kv)) kvs" and "map_claude_tool name kvs mcp = (tool, args, server)"
  shows "list_all (\<lambda>kv. float_free (snd kv)) args"
  using assms float_free_with_path [OF assms(1)]
  by (auto simp: map_claude_tool_def split: if_splits option.splits)

lemma cc_call_args:
  assumes "cc_call E p = Inr call" and "float_free p"
  shows "float_free (tc_args call)"
proof -
  obtain input where input: "(case option_of_json (json_get p ''tool_input'') of
      None \<Rightarrow> Inr [] | Some (JObj m) \<Rightarrow> Inr m | Some _ \<Rightarrow> Inl ''tool_input is not a JSON object'') = Inr input"
      (is "?c = _")
    using assms(1) unfolding cc_call_def by (cases ?c) (simp_all add: result_simps ok_or_def split: option.splits)
  have "list_all (\<lambda>kv. float_free (snd kv)) input"
  proof (cases "option_of_json (json_get p ''tool_input'')")
    case None
    with input show ?thesis by simp
  next
    case (Some j)
    with assms(2) have "float_free j" using float_free_json_get option_of_json_Some by metis
    with Some input show ?thesis by (cases j) (auto simp: list_all_iff)
  qed
  note args = map_claude_tool_args [OF this]
  obtain name mcp tool as server where m: "map_claude_tool name input mcp = (tool, as, server)" "tc_args call = JObj as"
    using assms(1) input unfolding cc_call_def
    by (auto simp: result_simps ok_or_def case_prod_beta Let_def split: option.splits) (metis prod.collapse)+
  then show ?thesis using args [OF m(1)] by (auto simp: list_all_iff)
qed

section \<open>Each operation\<close>

context readable_store
begin

lemma decide_call_progress:
  assumes "uses H" and "at_rs E gw rs" and "float_free (tc_args call)" and "decide_call H E call gw = (gw', x)"
  shows "progress E gw rs gw'"
proof (cases x)
  case (Inl e)
  with decide_call_at [OF assms] progress_same show ?thesis by simp
next
  case (Inr d)
  with decide_call_at [OF assms] have "same_setup gw gw'" "at_rs E gw' (rs @ [dc_record d])" "gt_store gw' \<noteq> None"
    "rkind (dc_record d) = Decision" by auto
  with exec_ok_decision progressI [of gw gw' E rs "[dc_record d]"] show ?thesis by blast
qed

lemma at_rs_keep: "at_rs E gw rs \<Longrightarrow> gt_store gw' = gt_store gw \<Longrightarrow> at_rs E gw' rs"
  by (simp add: gw_at_def)

lemma op_decide_progress:
  assumes "uses H" and "at_rs E gw rs" and "float_free (JObj obj)" and "op_decide H E obj gw = (gw', x)"
  shows "progress E gw rs gw'"
proof -
  obtain gw1 c where c: "parse_call E (map_of obj ''call'') gw = (gw1, c)" by fastforce
  note keep = parse_call_keeps [OF c]
  then have at: "at_rs E gw1 rs" using assms(2) at_rs_keep by blast
  show ?thesis
  proof (cases c)
    case (Inl e)
    with assms(4) c keep at progress_same show ?thesis by (auto simp: op_decide_def)
  next
    case (Inr call)
    obtain gw2 d where d: "decide_call H E call gw1 = (gw2, d)" by fastforce
    have "float_free (tc_args call)"
      using parse_call_args c Inr float_free_get [OF assms(3)] by blast
    from decide_call_progress [OF assms(1) at this d] keep have "progress E gw rs gw2" using progress_setup by blast
    moreover have "gw' = gw2" using assms(4) c Inr d by (cases d) (auto simp: op_decide_def case_prod_beta Let_def)
    ultimately show ?thesis by simp
  qed
qed

lemma op_resolve_progress:
  assumes "uses H" and "at_rs E gw rs" and "op_resolve H E obj gw = (gw', x)"
  shows "progress E gw rs gw'"
proof -
  have "gw' = gw \<or> (\<exists>r y. locate_ref H E r gw = (gw', y))"
  proof (cases "parse_ref (map_of obj ''ref'')")
    case (Inr r)
    obtain gw1 y where y: "locate_ref H E r gw = (gw1, y)" by fastforce
    have "gw' = gw \<or> gw' = gw1" using assms(3) Inr y unfolding op_resolve_def
      by (cases y) (auto simp: case_prod_beta Let_def sbind_def split: sum.splits if_splits option.splits verdict.splits)
    with y show ?thesis by blast
  qed (use assms(3) in \<open>simp add: op_resolve_def\<close>)
  with assms(2) locate_ref_at [OF assms(1,2)] progress_same [of gw gw' E rs] show ?thesis by auto
qed

lemma record_located:
  assumes "uses H" and "at_rs E gw rs" and "chain_valid L rs" and "\<not> lo_executed l" and "may_complete (lo_record l) apr"
    and "\<exists>xs ys. rs = xs @ lo_record l # ys \<and> rkind (lo_record l) = Decision \<and> P \<and>
        (lo_executed l \<longleftrightarrow> (\<exists>e\<in>set ys. links_to (lo_record l) e))"
    and "hook_record_execution H E (lo_record l) apr status res gw = (gw', x)"
  shows "progress E gw rs gw' \<and> (\<forall>r. x = Inr r \<longrightarrow> at_rs E gw' (rs @ [r]) \<and> authorised (lo_record l) r)"
proof -
  obtain xs ys where rs: "rs = xs @ lo_record l # ys" "rkind (lo_record l) = Decision" "\<not> (\<exists>e\<in>set ys. links_to (lo_record l) e)"
    using assms(4,6) by blast
  show ?thesis using hook_record_execution_at [OF assms(1-3) rs assms(5,7)] by blast
qed

lemma op_complete_progress:
  assumes "uses H" and "at_rs E gw rs" and "op_complete H E obj gw = (gw', x)"
  shows "progress E gw rs gw'"
proof (cases "\<exists>r status out. parse_ref (map_of obj ''ref'') = Inr r \<and> complete_exit obj = Inr status \<and> complete_output obj = Inr out")
  case False
  then have "gw' = gw" using assms(3) unfolding op_complete_def by (auto simp: sbind_def split: sum.splits)
  with assms(2) progress_same show ?thesis by simp
next
  case True
  then obtain r status out where r: "parse_ref (map_of obj ''ref'') = Inr r" "complete_exit obj = Inr status" "complete_output obj = Inr out"
    by blast
  obtain gw1 y where y: "locate_ref H E r gw = (gw1, y)" by fastforce
  note at = locate_ref_at [OF assms(1,2) y]
  show ?thesis
  proof (cases "\<exists>l ps. y = Inr l \<and> \<not> lo_executed l \<and> completable (lo_record l) (rf_approver r) = Inr ps")
    case False
    then have "gw' = gw1" using assms(3) r y unfolding op_complete_def by (auto simp: sbind_def split: sum.splits if_splits)
    with at progress_same show ?thesis by simp
  next
    case True
    then obtain l ps where l: "y = Inr l" "\<not> lo_executed l" "completable (lo_record l) (rf_approver r) = Inr ps" by blast
    define res where "res = (case out of Some out \<Rightarrow> out | None \<Rightarrow> [])"
    obtain gw2 z where z: "hook_record_execution H E (lo_record l) (rf_approver r) status res gw1 = (gw2, z)" by fastforce
    have "gw' = gw2" using assms(3) r y l z unfolding op_complete_def res_def
      by (cases z; cases ps; cases out) (auto simp: sbind_def split: sum.splits)
    moreover have "progress E gw1 rs gw2"
      using record_located [OF assms(1) _ _ l(2) completable_may [OF l(3)] _ z, of rs "index (lo_record l) = rf_index r"] at l(1)
      by blast
    ultimately show ?thesis using at progress_setup by blast
  qed
qed

lemma handle_request_progress:
  assumes "uses H" and "at_rs E gw rs" and "float_free req" and "handle_request H E req gw = (gw', x)"
  shows "progress E gw rs gw'"
proof -
  have "gw' = gw \<or> (\<exists>obj. req = JObj obj \<and> (op_decide H E obj gw = (gw', x) \<or> op_resolve H E obj gw = (gw', x) \<or>
      op_complete H E obj gw = (gw', x)))"
    using assms(4) unfolding handle_request_def
    by (cases req) (auto simp: ok_or_def split: option.splits if_splits)
  with op_decide_progress op_resolve_progress op_complete_progress assms(1-3) progress_same show ?thesis by auto
qed

lemma handle_line_progress:
  assumes "uses H" and "at_rs E gw rs" and "\<And>j. json_from_str (hc_json H) line = Inr j \<Longrightarrow> float_free j"
    and "handle_line H E line gw = (gw', out)"
  shows "progress E gw rs gw'"
proof (cases "json_from_str (hc_json H) line")
  case (Inl e)
  with assms(2,4) progress_same show ?thesis by (auto simp: handle_line_def)
next
  case (Inr req)
  obtain gw1 x where x: "handle_request H E req gw = (gw1, x)" by fastforce
  with assms(4) Inr have "gw' = gw1" by (cases x) (auto simp: handle_line_def Let_def)
  with handle_request_progress [OF assms(1,2) assms(3) [OF Inr] x] show ?thesis by simp
qed

lemma cc_pre_progress:
  assumes "uses H" and "at_rs E gw rs" and "float_free p" and "cc_pre H E cap p gw = (gw', out)"
  shows "progress E gw rs gw'"
proof (cases "cc_call E p")
  case (Inl e)
  with assms(2,4) progress_same show ?thesis by (auto simp: cc_pre_def)
next
  case (Inr call)
  obtain gw1 x where x: "decide_call H E call gw = (gw1, x)" by fastforce
  with assms(4) Inr have "gw' = gw1" by (cases x) (auto simp: cc_pre_def)
  with decide_call_progress [OF assms(1,2) cc_call_args [OF Inr assms(3)] x] show ?thesis by simp
qed

lemma cc_post_progress:
  assumes "uses H" and "at_rs E gw rs" and "cc_post H E p event gw = (gw', out)"
  shows "progress E gw rs gw'"
proof (cases "\<exists>sid tid. str_at p ''session_id'' = Some sid \<and> str_at p ''tool_use_id'' = Some tid")
  case False
  then have "gw' = gw" using assms(3) by (auto simp: cc_post_def Let_def split: option.splits)
  with assms(2) progress_same show ?thesis by simp
next
  case True
  then obtain sid tid where ids: "str_at p ''session_id'' = Some sid" "str_at p ''tool_use_id'' = Some tid" by blast
  obtain gw1 y where y: "locate H E (\<lambda>r. session_id r = sid \<and> call_id r = tid) gw = (gw1, y)" by fastforce
  note at = locate_at [OF assms(1,2) y]
  show ?thesis
  proof (cases "\<exists>l apr. y = Inr (Some l) \<and> \<not> lo_executed l \<and> post_approver (gt_ask gw1) (he_console E) tid (lo_record l) = Inr apr")
    case False
    then have "gw' = gw1" using assms(3) ids y unfolding cc_post_def by (auto simp: Let_def split: sum.splits option.splits if_splits)
    with at progress_same show ?thesis by simp
  next
    case True
    then obtain l apr where l: "y = Inr (Some l)" "\<not> lo_executed l"
      "post_approver (gt_ask gw1) (he_console E) tid (lo_record l) = Inr apr" by blast
    obtain status res where o: "post_output H event p (case json_get p ''tool_response'' of Some v \<Rightarrow> v | None \<Rightarrow> JNull) = (status, res)"
      by fastforce
    obtain gw2 z where z: "hook_record_execution H E (lo_record l) apr status res gw1 = (gw2, z)" by fastforce
    have "gw' = gw2" using assms(3) ids y l o z unfolding cc_post_def Let_def by (cases z) auto
    moreover have "progress E gw1 rs gw2"
      using record_located [OF assms(1) _ _ l(2) post_approver_may [OF l(3)] _ z,
          of rs "session_id (lo_record l) = sid \<and> call_id (lo_record l) = tid"] at l(1) by blast
    ultimately show ?thesis using at progress_setup by blast
  qed
qed

lemma claude_code_progress:
  assumes "uses H" and "at_rs E gw rs" and "\<And>j. json_from_str (hc_json H) (trim input) = Inr j \<Longrightarrow> float_free j"
    and "claude_code H E cap input gw = (gw', out)"
  shows "progress E gw rs gw'"
proof (cases "json_from_str (hc_json H) (trim input)")
  case (Inl e)
  with assms(2,4) progress_same show ?thesis by (auto simp: claude_code_def)
next
  case (Inr pl)
  then have "gw' = gw \<or> cc_pre H E cap pl gw = (gw', out) \<or> (\<exists>event. cc_post H E pl event gw = (gw', out))"
    using assms(4) by (auto simp: claude_code_def Let_def split: if_splits)
  with cc_pre_progress [OF assms(1,2) assms(3) [OF Inr]] cc_post_progress [OF assms(1,2)] assms(2) progress_same
  show ?thesis by auto
qed

end

end
