(* ===== verification/Hook_Agents.thy ===== *)
theory Hook_Agents
  imports Hook_Claude Approvals
begin

text \<open>
  \<open>writ check --format codex|gemini|cursor|windsurf\<close> (\<open>writ-cli/src/hook/agents.rs\<close>): the hooks of the other coding
  agents.  Each format has its own blocking answer, its own mapping of tools to calls and its own way
  to find the decision a finished tool belongs to.
\<close>

section \<open>Answers\<close>

datatype hook_format = Codex | Gemini | Cursor | Windsurf

record hook_out =
  ho_stdout :: "json option"
  ho_stderr :: str
  ho_code :: int

definition GEMINI_PROMPT_APPROVER :: str where "GEMINI_PROMPT_APPROVER = ''gemini-cli-prompt''"
definition CURSOR_PROMPT_APPROVER :: str where "CURSOR_PROMPT_APPROVER = ''cursor-prompt''"
definition ADDED_KEYS :: "str list" where "ADDED_KEYS = [''path'', ''url'', ''paths'', ''urls'']"

text \<open>The blocking answer of each agent.\<close>

fun agent_deny :: "hook_format \<Rightarrow> str \<Rightarrow> hook_out" where
  "agent_deny Codex reason =
     \<lparr>ho_stdout = Some (JObj [(''hookSpecificOutput'', JObj [(''hookEventName'', JStr ''PreToolUse''),
        (''permissionDecision'', JStr ''deny''), (''permissionDecisionReason'', JStr reason)])]),
      ho_stderr = reason, ho_code = EXIT_DISPATCH\<rparr>"
| "agent_deny Gemini reason =
     \<lparr>ho_stdout = Some (JObj [(''decision'', JStr ''deny''), (''reason'', JStr reason)]), ho_stderr = reason, ho_code = EXIT_NO_DISPATCH\<rparr>"
| "agent_deny Cursor reason =
     \<lparr>ho_stdout = Some (JObj [(''agent_message'', JStr reason), (''permission'', JStr ''deny''), (''user_message'', JStr reason)]),
      ho_stderr = reason, ho_code = EXIT_DISPATCH\<rparr>"
| "agent_deny Windsurf reason = \<lparr>ho_stdout = None, ho_stderr = reason, ho_code = EXIT_NO_DISPATCH\<rparr>"

definition agent_error :: "hook_format \<Rightarrow> str \<Rightarrow> hook_out" where
  "agent_error f msg = agent_deny f (''writ error (fail closed, tool not run): '' @ msg)"

definition silent :: hook_out where
  "silent = \<lparr>ho_stdout = None, ho_stderr = [], ho_code = EXIT_DISPATCH\<rparr>"

definition said :: "(str \<times> json) list \<Rightarrow> hook_out" where
  "said kvs = \<lparr>ho_stdout = Some (JObj kvs), ho_stderr = [], ho_code = EXIT_DISPATCH\<rparr>"

definition gw_text :: "gw_error \<Rightarrow> str" where
  "gw_text e = ge_code e @ '': '' @ ge_message e"

section \<open>Calls\<close>

text \<open>A tool input as an object; \<open>parse\<close> says whether strings are parsed as JSON.\<close>

definition input_object :: "rpc_deps \<Rightarrow> json option \<Rightarrow> bool \<Rightarrow> (str \<times> json) list" where
  "input_object J v parse =
     (case v of
        None \<Rightarrow> []
      | Some JNull \<Rightarrow> []
      | Some (JObj m) \<Rightarrow> m
      | Some (JStr s) \<Rightarrow>
          if parse then (case json_from_str J s of Inr (JObj m) \<Rightarrow> m | Inr JNull \<Rightarrow> [] | _ \<Rightarrow> [(''input'', JStr s)])
          else [(''input'', JStr s)]
      | Some other \<Rightarrow> [(''input'', other)])"

definition agent_caller :: "'s hook_env \<Rightarrow> str \<Rightarrow> str option \<Rightarrow> caller_identity" where
  "agent_caller E name nhi = \<lparr>agent = name, agent_version = None, user = he_user E, non_human_id = nhi\<rparr>"

record mapped =
  mp_tool :: str
  mp_args :: "(str \<times> json) list"
  mp_server :: "server_identity option"
  mp_candidates :: "(str \<times> str list) option"

definition plain_mapped :: "str \<Rightarrow> (str \<times> json) list \<Rightarrow> mapped" where
  "plain_mapped tool args = \<lparr>mp_tool = tool, mp_args = args, mp_server = None, mp_candidates = None\<rparr>"

text \<open>\<open>retain\<close> with a set of the values seen so far.\<close>

fun retain_new :: "str list \<Rightarrow> str list \<Rightarrow> str list" where
  "retain_new seen [] = []"
| "retain_new seen (v # vs) = (if v \<in> set seen then retain_new seen vs else v # retain_new (v # seen) vs)"

definition into_call :: "'s hook_env \<Rightarrow> mapped \<Rightarrow> str \<Rightarrow> str \<Rightarrow> caller_identity \<Rightarrow> tool_call \<times> (str \<times> str list) option" where
  "into_call E m sid cid who =
     (let (args, cands) =
        (case mp_candidates m of
           None \<Rightarrow> (mp_args m, None)
         | Some (key, vals) \<Rightarrow>
             (case retain_new [] vals of
                [] \<Rightarrow> (mp_args m, None)
              | [v] \<Rightarrow> (btree_insert key (JStr v) (mp_args m), None)
              | vs \<Rightarrow> (if map_of (mp_args m) (key @ ''s'') \<noteq> None then mp_args m
                       else btree_insert (key @ ''s'') (JArr (map JStr vs)) (mp_args m), Some (key, vs))))
      in (\<lparr>tc_call_id = cid, tc_session_id = sid, tc_caller = who, tc_mode = SdkHook, tc_tool = mp_tool m, tc_args = JObj args,
           tc_server = mp_server m, tc_trust = None, tc_captured_at = he_clock E 1\<rparr>, cands))"

definition agent_server :: "str \<Rightarrow> str \<Rightarrow> server_identity" where
  "agent_server name tr = \<lparr>srv_name = name, srv_transport = tr, srv_version = None\<rparr>"

fun severity :: "verdict \<Rightarrow> nat" where
  "severity (Allow _) = 0" | "severity (Redact _ _) = 1" | "severity (Ask _ _ _ _ _) = 2" | "severity (Deny _ _ _) = 3"

definition strip_added :: "json \<Rightarrow> (str \<times> json) list" where
  "strip_added v = filter (\<lambda>(k, _). k \<notin> set ADDED_KEYS) (case as_object v of Some m \<Rightarrow> m | None \<Rightarrow> [])"

definition same_call :: "ledger_record \<Rightarrow> tool_call \<Rightarrow> bool" where
  "same_call rec now =
     (case rcall rec of
        None \<Rightarrow> False
      | Some was \<Rightarrow> tc_tool was = tc_tool now \<and> map_option srv_name (tc_server was) = map_option srv_name (tc_server now) \<and>
          strip_added (tc_args was) = strip_added (tc_args now))"

definition text_of :: "rpc_deps \<Rightarrow> json \<Rightarrow> str" where
  "text_of J v = (case v of JStr s \<Rightarrow> s | JNull \<Rightarrow> [] | _ \<Rightarrow> json_to_string J v)"

definition deny_reason :: "str \<Rightarrow> str \<Rightarrow> str option \<Rightarrow> str" where
  "deny_reason rid reason loc = ''writ denied this: rule \"'' @ rid @ ''\" '' @ em_dash @ '' '' @ reason @ '' ('' @ place loc @ '')''"

definition ask_reason :: "str \<Rightarrow> str \<Rightarrow> str option \<Rightarrow> str" where
  "ask_reason rid diff loc = ''writ: rule \"'' @ rid @ ''\" ('' @ place loc @ '') needs your approval: '' @ diff"

definition ask_fail_closed :: "str \<Rightarrow> str \<Rightarrow> str" where
  "ask_fail_closed rid why = ''writ denied this: rule \"'' @ rid @ ''\" requires human approval and '' @ why @ '' (fail closed)''"

section \<open>Deciding and completing\<close>

definition with_value :: "tool_call \<Rightarrow> str \<Rightarrow> str \<Rightarrow> tool_call" where
  "with_value c key v = (case tc_args c of JObj args \<Rightarrow> c\<lparr>tc_args := JObj (btree_insert key (JStr v) args)\<rparr> | _ \<Rightarrow> c)"

text \<open>The first of the candidates with the strictest verdict.\<close>

fun strictest :: "(tool_call \<Rightarrow> nat) \<Rightarrow> (nat \<times> tool_call) option \<Rightarrow> tool_call list \<Rightarrow> (nat \<times> tool_call) option" where
  "strictest sev best [] = best"
| "strictest sev best (c # cs) =
     strictest sev (case best of Some (s, _) \<Rightarrow> if sev c > s then Some (sev c, c) else best | None \<Rightarrow> Some (sev c, c)) cs"

definition decide_candidates ::
  "'s hook_ctx \<Rightarrow> 's hook_env \<Rightarrow> tool_call \<Rightarrow> (str \<times> str list) option \<Rightarrow> 's gateway \<Rightarrow> 's gateway \<times> (gw_error + decided)" where
  "decide_candidates H E call cands gw =
     (case cands of
        None \<Rightarrow> decide_call H E call gw
      | Some (key, vals) \<Rightarrow>
          sbind (gw, gw_engine gw) (\<lambda>eng gw.
            let best = strictest (\<lambda>c. severity (evaluate (hc_policy H) eng (from_call c))) None (map (with_value call key) vals)
            in decide_call H E (case best of Some (_, c) \<Rightarrow> c | None \<Rightarrow> call) gw))"

fun open_loop ::
  "(ledger_record \<Rightarrow> bool) \<Rightarrow> ledger_record list \<Rightarrow> (writ_error + ledger_record) list \<Rightarrow> gw_error + ledger_record list" where
  "open_loop P opn [] = Inr opn"
| "open_loop P opn (item # items) =
     rbind (map_err ledger_error item) (\<lambda>rec.
       open_loop P
         (if rkind rec = Decision then (if P rec then opn @ [rec] else opn)
          else case decision_index rec of Some i \<Rightarrow> filter (\<lambda>d. index d \<noteq> i) opn | None \<Rightarrow> opn)
         items)"

definition locate_open ::
  "'s hook_ctx \<Rightarrow> 's hook_env \<Rightarrow> str \<Rightarrow> (ledger_record \<Rightarrow> bool) \<Rightarrow> 's gateway \<Rightarrow> 's gateway \<times> (gw_error + ledger_record option)" where
  "locate_open H E sid P gw =
     sbind (gw_store E gw) (\<lambda>s gw.
       (gw, rbind (open_loop (\<lambda>rec. session_id rec = sid \<and> P rec) [] (hc_iter H s)) (\<lambda>opn.
              Inr (if opn = [] then None else Some (last opn)))))"

definition not_allowed :: "ledger_record \<Rightarrow> str" where
  "not_allowed rec = ''tool '' @ call_id rec @ '' ran although writ did not allow it (rule '' @ opt_or (rule_id rec) ''?'' @ ''); recorded nothing''"

definition dispatch_approver ::
  "ask_mode \<Rightarrow> (ledger_record \<Rightarrow> approver_identity option) \<Rightarrow> ledger_record \<Rightarrow> str option \<Rightarrow> str + approver_identity option" where
  "dispatch_approver m console rec prompt =
     (case rverdict rec of
        Some (Allow _) \<Rightarrow> Inr None
      | Some (Redact _ _) \<Rightarrow> Inr None
      | Some (Ask _ _ _ _ _) \<Rightarrow>
          if rapprover rec = None \<and> m = AskUi then
            (case console rec of
               Some who \<Rightarrow> Inr (Some who)
             | None \<Rightarrow> Inl (''tool '' @ call_id rec @ '' ran although the writ ui console did not approve it (rule '' @
                         opt_or (rule_id rec) ''?'' @ ''); recorded nothing''))
          else if rapprover rec = None \<and> m = AskDefer then
            (case prompt of Some i \<Rightarrow> Inr (Some \<lparr>apr_kind = Tui, apr_id = i\<rparr>) | None \<Rightarrow> Inl (not_allowed rec))
          else Inl (not_allowed rec)
      | _ \<Rightarrow> Inl (not_allowed rec))"

definition complete_located ::
  "'s hook_ctx \<Rightarrow> 's hook_env \<Rightarrow> ledger_record \<Rightarrow> str option \<Rightarrow> int \<Rightarrow> bytes \<Rightarrow> 's gateway \<Rightarrow> 's gateway \<times> (str + str list option)" where
  "complete_located H E rec prompt status res gw =
     sbind (gw, dispatch_approver (gt_ask gw) (he_console E) rec prompt) (\<lambda>apr gw.
     sbind (let (gw, r) = hook_record_execution H E rec apr status res gw in (gw, map_err gw_text r)) (\<lambda>_ gw.
       (gw, case rverdict rec of
              Some (Redact _ ps) \<Rightarrow> rbind (map_err ge_message (compile_patterns H ps)) (\<lambda>p. Inr (Some p))
            | _ \<Rightarrow> Inr None)))"

text \<open>A call id of the gateway's own; it always succeeds.\<close>

definition next_call_id :: "'s hook_env \<Rightarrow> 's gateway \<Rightarrow> 's gateway \<times> str" where
  "next_call_id E gw = (fst (generated_call_id E gw), projr (snd (generated_call_id E gw)))"

definition is_redact :: "ledger_record \<Rightarrow> bool" where
  "is_redact rec = (case rverdict rec of Some (Redact _ _) \<Rightarrow> True | _ \<Rightarrow> False)"

definition event_of :: "json \<Rightarrow> str \<Rightarrow> str" where
  "event_of p k = opt_or (Option.bind (json_get p k) as_str) []"

definition as_i64 :: "json option \<Rightarrow> int option" where
  "as_i64 v = Option.bind v (\<lambda>j. ok (i64_of_json j))"

text \<open>An exit code, or 0 if it is missing or out of range.\<close>

definition i32_or_0 :: "int option \<Rightarrow> int" where
  "i32_or_0 v = (case v of Some n \<Rightarrow> if - (2 ^ 31) \<le> n \<and> n < 2 ^ 31 then n else 0 | None \<Rightarrow> 0)"

section \<open>Codex\<close>

definition PATCH_HEADERS :: "str list" where
  "PATCH_HEADERS = [''*** Add File:'', ''*** Update File:'', ''*** Delete File:'', ''*** Move to:'']"

text \<open>\<open>find_map\<close> over a list.\<close>

fun find_map :: "('a \<Rightarrow> 'b option) \<Rightarrow> 'a list \<Rightarrow> 'b option" where
  "find_map f [] = None"
| "find_map f (x # xs) = (case f x of Some y \<Rightarrow> Some y | None \<Rightarrow> find_map f xs)"

text \<open>\<open>Path::join\<close> of a relative path, on Unix.\<close>

definition path_join :: "str \<Rightarrow> str \<Rightarrow> str" where
  "path_join c p = (if c = [] \<or> last c = CHR ''/'' then c @ p else c @ ''/'' @ p)"

definition patch_paths :: "str \<Rightarrow> str option \<Rightarrow> str list" where
  "patch_paths patch cwd =
     map (\<lambda>p. case cwd of Some c \<Rightarrow> if starts_with p ''/'' then p else path_join c p | None \<Rightarrow> p)
       (filter (\<lambda>p. p \<noteq> [])
         (List.map_filter (\<lambda>l. map_option trim (find_map (strip_prefix (trim_start l)) PATCH_HEADERS)) (str_lines patch)))"

definition codex_map :: "rpc_deps \<Rightarrow> str \<Rightarrow> (str \<times> json) list \<Rightarrow> str option \<Rightarrow> mapped" where
  "codex_map J name input cwd =
     (if name \<in> set [''Bash'', ''shell'', ''local_shell'', ''exec_command''] then
        plain_mapped ''bash'' (case map_of input ''command'' of
           Some (JArr argv) \<Rightarrow> btree_insert ''command'' (JStr (join '' '' (map (text_of J) argv))) input | _ \<Rightarrow> input)
      else if name = ''apply_patch'' then
        (let paths = (case Option.bind (map_of input ''command'') as_str of Some c \<Rightarrow> patch_paths c cwd | None \<Rightarrow> []);
             m = plain_mapped ''fs.write'' input
         in if Option.bind (map_of input ''path'') as_str \<noteq> None then m else m\<lparr>mp_candidates := Some (''path'', paths)\<rparr>)
      else if name = ''view_image'' then plain_mapped ''fs.read'' input
      else (let (tool, args, srv) = map_claude_tool name input None
            in \<lparr>mp_tool = tool, mp_args = args, mp_server = srv, mp_candidates = None\<rparr>))"

definition codex_call :: "rpc_deps \<Rightarrow> 's hook_env \<Rightarrow> json \<Rightarrow> str + tool_call \<times> (str \<times> str list) option" where
  "codex_call J E p =
     rbind (ok_or (str_at p ''session_id'') ''hook payload lacks session_id'') (\<lambda>sid.
     rbind (ok_or (str_at p ''tool_use_id'') ''hook payload lacks tool_use_id'') (\<lambda>tid.
     rbind (ok_or (str_at p ''tool_name'') ''hook payload lacks tool_name'') (\<lambda>name.
       Inr (into_call E (codex_map J name (input_object J (json_get p ''tool_input'') False) (Option.bind (json_get p ''cwd'') as_str))
              sid tid (agent_caller E ''codex'' (str_at p ''agent_id''))))))"

fun codex_answer :: "verdict \<Rightarrow> hook_out" where
  "codex_answer (Allow _) = silent"
| "codex_answer (Redact _ _) = silent"
| "codex_answer (Deny rid reason loc) = agent_deny Codex (deny_reason rid reason loc)"
| "codex_answer (Ask rid _ _ _ _) = agent_deny Codex (ask_fail_closed rid ''Codex hooks cannot raise an approval prompt'')"

definition codex_pre :: "'s hook_ctx \<Rightarrow> 's hook_env \<Rightarrow> json \<Rightarrow> 's gateway \<Rightarrow> 's gateway \<times> hook_out" where
  "codex_pre H E p gw =
     (case codex_call (hc_json H) E p of
        Inl e \<Rightarrow> (gw, agent_error Codex e)
      | Inr (call, cands) \<Rightarrow>
          (case decide_candidates H E call cands gw of
             (gw, Inl e) \<Rightarrow> (gw, agent_error Codex (gw_text e))
           | (gw, Inr d) \<Rightarrow> (gw, codex_answer (dc_verdict d))))"

definition codex_block :: "str \<Rightarrow> str \<Rightarrow> hook_out" where
  "codex_block reason err =
     \<lparr>ho_stdout = Some (JObj [(''decision'', JStr ''block''), (''reason'', JStr reason)]), ho_stderr = err, ho_code = EXIT_DISPATCH\<rparr>"

definition codex_fail :: "str \<Rightarrow> hook_out" where
  "codex_fail msg = codex_block (''writ error: '' @ msg @ ''; the tool output is withheld'') (''writ error: '' @ msg)"

definition exit_from_response :: "json \<Rightarrow> int" where
  "exit_from_response v =
     i32_or_0 (case find_map (\<lambda>k. as_i64 (json_get v k)) [''exit_code'', ''exitCode''] of
                 Some n \<Rightarrow> Some n
               | None \<Rightarrow> as_i64 (Option.bind (json_get v ''metadata'') (\<lambda>m. json_get m ''exit_code'')))"

definition command_changed :: "ledger_record \<Rightarrow> tool_call \<Rightarrow> bool" where
  "command_changed rec now =
     (case rcall rec of
        None \<Rightarrow> False
      | Some was \<Rightarrow> tc_tool was \<noteq> tc_tool now \<or> json_get (tc_args was) ''command'' \<noteq> json_get (tc_args now) ''command'')"

definition response_of :: "json \<Rightarrow> json" where
  "response_of p = (case json_get p ''tool_response'' of Some v \<Rightarrow> v | None \<Rightarrow> JNull)"

definition codex_post :: "'s hook_ctx \<Rightarrow> 's hook_env \<Rightarrow> json \<Rightarrow> 's gateway \<Rightarrow> 's gateway \<times> hook_out" where
  "codex_post H E p gw =
     (let response = response_of p
      in case codex_call (hc_json H) E p of
           Inl e \<Rightarrow> (gw, codex_fail (e @ ''; cannot correlate''))
         | Inr (now, _) \<Rightarrow>
             (case locate H E (\<lambda>r. session_id r = tc_session_id now \<and> call_id r = tc_call_id now) gw of
                (gw, Inl e) \<Rightarrow> (gw, codex_fail (gw_text e))
              | (gw, Inr None) \<Rightarrow> (gw, codex_fail (''no writ decision recorded for '' @ tc_call_id now @ '' in '' @ tc_session_id now))
              | (gw, Inr (Some l)) \<Rightarrow>
                  if lo_executed l then (gw, codex_fail (''tool '' @ tc_call_id now @ '' was already completed''))
                  else
                    (case complete_located H E (lo_record l) None (exit_from_response response) (json_to_string (hc_json H) response) gw of
                       (gw, Inl e) \<Rightarrow> (gw, codex_fail e)
                     | (gw, Inr patterns) \<Rightarrow>
                         (gw, if command_changed (lo_record l) now
                              then codex_fail (''tool '' @ tc_call_id now @ '' ran with input that differs from the input writ decided on'')
                              else case patterns of
                                     Some res \<Rightarrow> codex_block (text_of (hc_json H) (mask_value H res response)) []
                                   | None \<Rightarrow> silent))))"

definition codex :: "'s hook_ctx \<Rightarrow> 's hook_env \<Rightarrow> json \<Rightarrow> 's gateway \<Rightarrow> 's gateway \<times> hook_out" where
  "codex H E p gw =
     (let event = event_of p ''hook_event_name''
      in if event = ''PreToolUse'' then codex_pre H E p gw
         else if event = ''PostToolUse'' then codex_post H E p gw
         else (gw, agent_error Codex (''unsupported hook_event_name '' @ hc_debug H event @ '' (writ handles PreToolUse, PostToolUse)'')))"

section \<open>Gemini\<close>

definition GEMINI_READ :: "str list" where
  "GEMINI_READ = [''read_file'', ''read_many_files'', ''list_directory'', ''glob'', ''grep_search'', ''search_file_content'']"

definition GEMINI_WRITE :: "str list" where
  "GEMINI_WRITE = [''write_file'', ''replace'', ''edit'']"

definition present :: "json option \<Rightarrow> bool" where
  "present v \<longleftrightarrow> v \<noteq> None \<and> v \<noteq> Some JNull"

definition gemini_mcp :: "json option \<Rightarrow> (str \<times> server_identity) option" where
  "gemini_mcp mcp =
     Option.bind mcp (\<lambda>ctx.
       case (Option.bind (json_get ctx ''server_name'') as_str, Option.bind (json_get ctx ''tool_name'') as_str) of
         (Some srv, Some tool) \<Rightarrow>
           Some (tool, agent_server srv (if present (json_get ctx ''url'') then ''http''
                                         else if present (json_get ctx ''command'') then ''stdio'' else ''unknown''))
       | _ \<Rightarrow> None)"

definition str_items :: "json option \<Rightarrow> str list" where
  "str_items v = (case v of Some (JArr xs) \<Rightarrow> List.map_filter as_str xs | _ \<Rightarrow> [])"

definition trim_url :: "str \<Rightarrow> str" where
  "trim_url u = rev (dropWhile (\<lambda>c. c \<in> set ''.,;:'') (rev u))"

text \<open>\<open>urls\<close> are the matches of the pattern for URLs.\<close>

definition gemini_map :: "(str \<Rightarrow> str list) \<Rightarrow> str \<Rightarrow> (str \<times> json) list \<Rightarrow> json option \<Rightarrow> mapped" where
  "gemini_map urls name input mcp =
     (case gemini_mcp mcp of
        Some (tool, srv) \<Rightarrow> (plain_mapped tool input)\<lparr>mp_server := Some srv\<rparr>
      | None \<Rightarrow>
          if name = ''run_shell_command'' then plain_mapped ''bash'' input
          else if name \<in> set GEMINI_READ \<or> name \<in> set GEMINI_WRITE then
            (let (args, cands) =
               (if Option.bind (map_of input ''path'') as_str \<noteq> None then (input, [])
                else case find_map (\<lambda>k. Option.bind (map_of input k) as_str) [''file_path'', ''dir_path'', ''absolute_path'', ''path''] of
                       Some p \<Rightarrow> (btree_insert ''path'' (JStr p) input, [])
                     | None \<Rightarrow> (input, str_items (map_of input ''include'') @ str_items (map_of input ''paths'')));
                 m = plain_mapped (if name \<in> set GEMINI_READ then ''fs.read'' else ''fs.write'') args
             in if cands = [] then m else m\<lparr>mp_candidates := Some (''path'', cands)\<rparr>)
          else if name = ''web_fetch'' then
            (let us = (if Option.bind (map_of input ''url'') as_str \<noteq> None then []
                       else map trim_url (urls (opt_or (Option.bind (map_of input ''prompt'') as_str) [])));
                 m = plain_mapped ''http'' input
             in if us = [] then m else m\<lparr>mp_candidates := Some (''url'', us)\<rparr>)
          else if name = ''google_web_search'' then plain_mapped ''web.search'' input
          else plain_mapped name input)"

definition gemini_call ::
  "rpc_deps \<Rightarrow> (str \<Rightarrow> str list) \<Rightarrow> 's hook_env \<Rightarrow> json \<Rightarrow> str \<Rightarrow> str + tool_call \<times> (str \<times> str list) option" where
  "gemini_call J urls E p cid =
     rbind (ok_or (str_at p ''session_id'') ''hook payload lacks session_id'') (\<lambda>sid.
     rbind (ok_or (str_at p ''tool_name'') ''hook payload lacks tool_name'') (\<lambda>name.
       Inr (into_call E (gemini_map urls name (input_object J (json_get p ''tool_input'') False) (json_get p ''mcp_context''))
              sid cid (agent_caller E ''gemini-cli'' None))))"

definition allowed_text :: "str option \<Rightarrow> str" where
  "allowed_text rid = (case rid of Some r \<Rightarrow> ''writ: allowed by rule \"'' @ r @ ''\"'' | None \<Rightarrow> ''writ: allowed by the policy default'')"

definition redacted_text :: "str \<Rightarrow> str" where
  "redacted_text rid = ''writ: allowed by rule \"'' @ rid @ ''\"; matched output is redacted''"

definition approved_text :: "str \<Rightarrow> str \<Rightarrow> str" where
  "approved_text rid who = ''writ: rule \"'' @ rid @ ''\" approved in the writ ui web console by '' @ who"

definition gemini_allow :: "str \<Rightarrow> hook_out" where
  "gemini_allow reason = said [(''decision'', JStr ''allow''), (''reason'', JStr reason)]"

fun gemini_answer :: "ask_mode \<Rightarrow> ui_decision \<Rightarrow> verdict \<Rightarrow> hook_out" where
  "gemini_answer m ui (Allow rid) = gemini_allow (allowed_text rid)"
| "gemini_answer m ui (Redact rid _) = gemini_allow (redacted_text rid)"
| "gemini_answer m ui (Deny rid reason loc) = agent_deny Gemini (deny_reason rid reason loc)"
| "gemini_answer AskDefer ui (Ask rid diff _ _ loc) =
     said [(''decision'', JStr ''ask''), (''reason'', JStr (ask_reason rid diff loc)), (''systemMessage'', JStr (ask_reason rid diff loc))]"
| "gemini_answer AskUi (UiApproved who) (Ask rid _ _ _ _) = gemini_allow (approved_text rid (apr_id who))"
| "gemini_answer AskUi (UiDenied reason) (Ask rid _ _ _ _) = agent_deny Gemini (''writ denied this: '' @ reason)"
| "gemini_answer AskDeny ui (Ask rid _ _ _ _) = agent_deny Gemini (ask_fail_closed rid ''none is available here'')"

definition gemini_pre :: "'s hook_ctx \<Rightarrow> (str \<Rightarrow> str list) \<Rightarrow> 's hook_env \<Rightarrow> json \<Rightarrow> 's gateway \<Rightarrow> 's gateway \<times> hook_out" where
  "gemini_pre H urls E p gw =
     (case next_call_id E gw of
        (gw, cid) \<Rightarrow>
          (case gemini_call (hc_json H) urls E p cid of
             Inl e \<Rightarrow> (gw, agent_error Gemini e)
           | Inr (call, cands) \<Rightarrow>
               (case decide_candidates H E call cands gw of
                  (gw, Inl e) \<Rightarrow> (gw, agent_error Gemini (gw_text e))
                | (gw, Inr d) \<Rightarrow> (gw, gemini_answer (gt_ask gw) (he_await E (dc_record d) ''gemini'' None) (dc_verdict d)))))"

definition gemini_fail :: "str \<Rightarrow> hook_out" where
  "gemini_fail msg =
     \<lparr>ho_stdout = Some (JObj [(''decision'', JStr ''deny''), (''reason'', JStr (''writ error: '' @ msg @ ''; the tool output is withheld''))]),
      ho_stderr = ''writ error: '' @ msg, ho_code = EXIT_NO_DISPATCH\<rparr>"

definition no_open_decision :: "tool_call \<Rightarrow> str" where
  "no_open_decision now = ''no open writ decision for this '' @ tc_tool now @ '' call in '' @ tc_session_id now"

definition gemini_post :: "'s hook_ctx \<Rightarrow> (str \<Rightarrow> str list) \<Rightarrow> 's hook_env \<Rightarrow> json \<Rightarrow> 's gateway \<Rightarrow> 's gateway \<times> hook_out" where
  "gemini_post H urls E p gw =
     (let response = response_of p
      in case gemini_call (hc_json H) urls E p [] of
           Inl e \<Rightarrow> (gw, gemini_fail (e @ ''; cannot correlate''))
         | Inr (now, _) \<Rightarrow>
             (case locate_open H E (tc_session_id now) (\<lambda>r. same_call r now) gw of
                (gw, Inl e) \<Rightarrow> (gw, gemini_fail (gw_text e))
              | (gw, Inr None) \<Rightarrow> (gw, gemini_fail (no_open_decision now))
              | (gw, Inr (Some rec)) \<Rightarrow>
                  (case complete_located H E rec (Some GEMINI_PROMPT_APPROVER) (if present (json_get response ''error'') then 1 else 0)
                          (json_to_string (hc_json H) response) gw of
                     (gw, Inl e) \<Rightarrow> (gw, gemini_fail e)
                   | (gw, Inr (Some res)) \<Rightarrow>
                       (gw, said [(''decision'', JStr ''deny''), (''reason'', JStr (text_of (hc_json H) (mask_value H res
                              (case json_get response ''llmContent'' of Some c \<Rightarrow> c | None \<Rightarrow> response))))])
                   | (gw, Inr None) \<Rightarrow> (gw, said []))))"

definition gemini :: "'s hook_ctx \<Rightarrow> (str \<Rightarrow> str list) \<Rightarrow> 's hook_env \<Rightarrow> json \<Rightarrow> 's gateway \<Rightarrow> 's gateway \<times> hook_out" where
  "gemini H urls E p gw =
     (let event = event_of p ''hook_event_name''
      in if event = ''BeforeTool'' then gemini_pre H urls E p gw
         else if event = ''AfterTool'' then gemini_post H urls E p gw
         else (gw, agent_error Gemini (''unsupported hook_event_name '' @ hc_debug H event @ '' (writ handles BeforeTool, AfterTool)'')))"

section \<open>Cursor\<close>

definition cursor_mcp_tool :: "str \<Rightarrow> str option" where
  "cursor_mcp_tool name = strip_prefix name ''MCP:''"

definition or_else :: "'a option \<Rightarrow> 'a option \<Rightarrow> 'a option" where
  "or_else a b = (case a of Some x \<Rightarrow> Some x | None \<Rightarrow> b)"

definition cursor_session :: "json \<Rightarrow> str + str" where
  "cursor_session p = ok_or (or_else (str_at p ''conversation_id'') (str_at p ''session_id'')) ''hook payload lacks conversation_id''"

definition CURSOR_PATH_KEYS :: "str list" where
  "CURSOR_PATH_KEYS = [''file_path'', ''target_file'', ''notebook_path'', ''relative_workspace_path'', ''target_directory'']"

definition cursor_path :: "(str \<times> json) list \<Rightarrow> (str \<times> json) list" where
  "cursor_path m =
     (if Option.bind (map_of m ''path'') as_str \<noteq> None then m
      else case find_map (\<lambda>k. Option.bind (map_of m k) as_str) CURSOR_PATH_KEYS of
             Some p \<Rightarrow> btree_insert ''path'' (JStr p) m
           | None \<Rightarrow> m)"

definition cursor_map :: "str \<Rightarrow> (str \<times> json) list \<Rightarrow> mapped" where
  "cursor_map name input =
     (if name = ''Shell'' then plain_mapped ''bash'' input
      else if name = ''Delete'' then plain_mapped ''fs.write'' (cursor_path input)
      else (let (tool, args, srv) = map_claude_tool name
                  (if name \<in> set [''Read'', ''Write'', ''Edit'', ''Grep'', ''Glob'', ''LS''] then cursor_path input else input) None
            in \<lparr>mp_tool = tool, mp_args = args, mp_server = srv, mp_candidates = None\<rparr>))"

definition cursor_call :: "rpc_deps \<Rightarrow> 's hook_env \<Rightarrow> json \<Rightarrow> str + tool_call \<times> (str \<times> str list) option" where
  "cursor_call J E p =
     rbind (cursor_session p) (\<lambda>sid.
     rbind (ok_or (str_at p ''tool_use_id'') ''hook payload lacks tool_use_id'') (\<lambda>tid.
     rbind (ok_or (str_at p ''tool_name'') ''hook payload lacks tool_name'') (\<lambda>name.
       Inr (into_call E (cursor_map name (input_object J (json_get p ''tool_input'') True)) sid tid (agent_caller E ''cursor'' None)))))"

definition cursor_allow :: "str \<Rightarrow> hook_out" where
  "cursor_allow reason = said [(''agent_message'', JStr reason), (''permission'', JStr ''allow'')]"

definition cursor_answer :: "decided \<Rightarrow> hook_out" where
  "cursor_answer d =
     (case dc_verdict d of
        Allow rid \<Rightarrow> cursor_allow (allowed_text rid)
      | Redact rid _ \<Rightarrow>
          if tc_server (dc_call d) = None then
            agent_deny Cursor (''writ denied this: rule \"'' @ rid @ ''\" redacts this tool'' @ [CHR 0x27] @ ''s output, and Cursor lets a hook replace only MCP tool output (fail closed)'')
          else cursor_allow (redacted_text rid)
      | Deny rid reason loc \<Rightarrow> agent_deny Cursor (deny_reason rid reason loc)
      | Ask rid _ _ _ _ \<Rightarrow>
          agent_deny Cursor (ask_fail_closed rid (''Cursor'' @ [CHR 0x27] @ ''s preToolUse cannot ask (only MCP calls can)'')))"

definition cursor_pre :: "'s hook_ctx \<Rightarrow> 's hook_env \<Rightarrow> json \<Rightarrow> 's gateway \<Rightarrow> 's gateway \<times> hook_out" where
  "cursor_pre H E p gw =
     (if Option.bind (Option.bind (json_get p ''tool_name'') as_str) cursor_mcp_tool \<noteq> None then
        (gw, cursor_allow ''writ: MCP calls are decided at beforeMCPExecution'')
      else
        case cursor_call (hc_json H) E p of
          Inl e \<Rightarrow> (gw, agent_error Cursor e)
        | Inr (call, cands) \<Rightarrow>
            (case decide_candidates H E call cands gw of
               (gw, Inl e) \<Rightarrow> (gw, agent_error Cursor (gw_text e))
             | (gw, Inr d) \<Rightarrow> (gw, cursor_answer d)))"

definition cursor_mcp_call :: "rpc_deps \<Rightarrow> 's hook_env \<Rightarrow> json \<Rightarrow> str \<Rightarrow> str + tool_call" where
  "cursor_mcp_call J E p cid =
     rbind (cursor_session p) (\<lambda>sid.
     rbind (ok_or (str_at p ''tool_name'') ''hook payload lacks tool_name'') (\<lambda>tool.
     rbind (ok_or (str_at p ''mcp_server_name'') ''hook payload lacks mcp_server_name'') (\<lambda>srv.
       let tr = (if or_else (str_at p ''mcp_server_url'') (str_at p ''url'') \<noteq> None then ''http''
                 else if str_at p ''command'' \<noteq> None then ''stdio'' else ''unknown'')
       in Inr (fst (into_call E ((plain_mapped tool (input_object J (json_get p ''tool_input'') True))\<lparr>mp_server := Some (agent_server srv tr)\<rparr>)
                 sid cid (agent_caller E ''cursor'' None))))))"

fun cursor_mcp_answer :: "ask_mode \<Rightarrow> ui_decision \<Rightarrow> verdict \<Rightarrow> hook_out" where
  "cursor_mcp_answer m ui (Allow _) = cursor_allow ''writ: allowed''"
| "cursor_mcp_answer m ui (Redact rid _) = cursor_allow (redacted_text rid)"
| "cursor_mcp_answer m ui (Deny rid reason loc) = agent_deny Cursor (deny_reason rid reason loc)"
| "cursor_mcp_answer AskDefer ui (Ask rid diff _ _ loc) =
     said [(''agent_message'', JStr (ask_reason rid diff loc)), (''permission'', JStr ''ask''), (''user_message'', JStr (ask_reason rid diff loc))]"
| "cursor_mcp_answer AskUi (UiApproved who) (Ask rid _ _ _ _) = cursor_allow (approved_text rid (apr_id who))"
| "cursor_mcp_answer AskUi (UiDenied reason) (Ask rid _ _ _ _) = agent_deny Cursor (''writ denied this: '' @ reason)"
| "cursor_mcp_answer AskDeny ui (Ask rid _ _ _ _) = agent_deny Cursor (ask_fail_closed rid ''none is available here'')"

definition cursor_mcp_pre :: "'s hook_ctx \<Rightarrow> 's hook_env \<Rightarrow> json \<Rightarrow> 's gateway \<Rightarrow> 's gateway \<times> hook_out" where
  "cursor_mcp_pre H E p gw =
     (case next_call_id E gw of
        (gw, cid) \<Rightarrow>
          (case cursor_mcp_call (hc_json H) E p cid of
             Inl e \<Rightarrow> (gw, agent_error Cursor e)
           | Inr call \<Rightarrow>
               (case decide_call H E call gw of
                  (gw, Inl e) \<Rightarrow> (gw, agent_error Cursor (gw_text e))
                | (gw, Inr d) \<Rightarrow>
                    (gw, cursor_mcp_answer (gt_ask gw) (he_await E (dc_record d) ''cursor'' (Some CLAUDE_CODE_CAP_MS)) (dc_verdict d)))))"

text \<open>After the tool: the failure answer, with an MCP result that may need masking masked.\<close>

definition cursor_fail :: "rpc_deps \<Rightarrow> bool \<Rightarrow> json \<Rightarrow> str \<Rightarrow> bool \<Rightarrow> hook_out" where
  "cursor_fail J maskable res msg plain =
     \<lparr>ho_stdout = Some (JObj ((''additional_context'', JStr (''writ error: '' @ msg)) #
        (if maskable \<and> \<not> plain then [(''updated_mcp_tool_output'',
           (case mask_all res of
              JObj m \<Rightarrow> JObj m
            | v \<Rightarrow> JObj [(''content'', JArr [JObj [(''text'', JStr (text_of J v)), (''type'', JStr ''text'')]])]))] else []))),
      ho_stderr = ''writ error: '' @ msg, ho_code = EXIT_DISPATCH\<rparr>"

definition mcp_matches :: "str \<Rightarrow> (str \<times> json) list \<Rightarrow> ledger_record \<Rightarrow> bool" where
  "mcp_matches tool input r =
     (case rcall r of
        None \<Rightarrow> False
      | Some c \<Rightarrow> tc_server c \<noteq> None \<and> (tc_tool c = tool \<or> ends_with tool (''-'' @ tc_tool c)) \<and> as_object (tc_args c) = Some input)"

text \<open>The decision a finished tool belongs to, or the message and whether its output needs no masking.\<close>

definition cursor_find ::
  "'s hook_ctx \<Rightarrow> 's hook_env \<Rightarrow> json \<Rightarrow> str \<Rightarrow> str option \<Rightarrow> 's gateway \<Rightarrow> 's gateway \<times> (str \<times> bool + ledger_record)" where
  "cursor_find H E p sid mcp gw =
     (case mcp of
        Some tool \<Rightarrow>
          (case locate_open H E sid (mcp_matches tool (input_object (hc_json H) (json_get p ''tool_input'') True)) gw of
             (gw, Inl e) \<Rightarrow> (gw, Inl (gw_text e, False))
           | (gw, Inr None) \<Rightarrow> (gw, Inl (''no open writ decision for MCP tool '' @ tool @ '' in '' @ sid, False))
           | (gw, Inr (Some r)) \<Rightarrow> (gw, Inr r))
      | None \<Rightarrow>
          (case str_at p ''tool_use_id'' of
             None \<Rightarrow> (gw, Inl (''hook payload lacks tool_use_id; cannot correlate'', False))
           | Some i \<Rightarrow>
               (case locate H E (\<lambda>r. session_id r = sid \<and> call_id r = i) gw of
                  (gw, Inl e) \<Rightarrow> (gw, Inl (gw_text e, False))
                | (gw, Inr None) \<Rightarrow> (gw, Inl (''no writ decision recorded for '' @ i @ '' in '' @ sid, False))
                | (gw, Inr (Some l)) \<Rightarrow>
                    (gw, if lo_executed l then Inl (''tool '' @ i @ '' was already completed'', \<not> is_redact (lo_record l))
                         else Inr (lo_record l)))))"

definition cursor_post :: "'s hook_ctx \<Rightarrow> 's hook_env \<Rightarrow> json \<Rightarrow> bool \<Rightarrow> 's gateway \<Rightarrow> 's gateway \<times> hook_out" where
  "cursor_post H E p failure gw =
     (let mcp = cursor_mcp_tool (event_of p ''tool_name'');
          raw = (case json_get p ''tool_output'' of Some v \<Rightarrow> v | None \<Rightarrow> JNull);
          parsed = (case raw of JStr s \<Rightarrow> (case json_from_str (hc_json H) s of Inr v \<Rightarrow> v | Inl _ \<Rightarrow> raw) | v \<Rightarrow> v);
          fail = cursor_fail (hc_json H) (mcp \<noteq> None \<and> \<not> failure) parsed
      in case cursor_session p of
           Inl e \<Rightarrow> (gw, fail (e @ ''; cannot correlate'') False)
         | Inr sid \<Rightarrow>
             (case cursor_find H E p sid mcp gw of
                (gw, Inl (msg, plain)) \<Rightarrow> (gw, fail msg plain)
              | (gw, Inr rec) \<Rightarrow>
                  (let (status, res) =
                     (if failure then (1, event_of p ''error_message'')
                      else (i32_or_0 (as_i64 (json_get parsed ''exitCode'')), case raw of JStr s \<Rightarrow> s | v \<Rightarrow> json_to_string (hc_json H) v))
                   in case complete_located H E rec (Some CURSOR_PROMPT_APPROVER) status res gw of
                        (gw, Inl e) \<Rightarrow> (gw, fail e (\<not> is_redact rec))
                      | (gw, Inr patterns) \<Rightarrow>
                          (gw, case patterns of
                                 Some ps \<Rightarrow> if mcp \<noteq> None \<and> \<not> failure then said [(''updated_mcp_tool_output'', mask_value H ps parsed)] else said []
                               | None \<Rightarrow> said []))))"

definition cursor :: "'s hook_ctx \<Rightarrow> 's hook_env \<Rightarrow> json \<Rightarrow> 's gateway \<Rightarrow> 's gateway \<times> hook_out" where
  "cursor H E p gw =
     (let event = event_of p ''hook_event_name''
      in if event = ''preToolUse'' then cursor_pre H E p gw
         else if event = ''beforeMCPExecution'' then cursor_mcp_pre H E p gw
         else if event = ''postToolUse'' then cursor_post H E p False gw
         else if event = ''postToolUseFailure'' then cursor_post H E p True gw
         else (gw, agent_error Cursor (''unsupported hook_event_name '' @ hc_debug H event @
                 '' (writ handles preToolUse, beforeMCPExecution, postToolUse, postToolUseFailure)'')))"

section \<open>Windsurf\<close>

text \<open>
  Reading a call ends in an error, or panics when an index finds no entry; a panic is answered like an error
  before the tool (\<open>install_fail_closed_panic_hook\<close>).
\<close>

datatype call_error = CallErr str | CallPanic

definition windsurf_map :: "rpc_deps \<Rightarrow> (str \<times> json) list \<Rightarrow> str \<Rightarrow> str + mapped" where
  "windsurf_map J info action =
     (let s = (\<lambda>k. case map_of info k of Some v \<Rightarrow> v | None \<Rightarrow> JNull)
      in if action = ''run_command'' then Inr (plain_mapped ''bash'' [(''command'', s ''command_line''), (''cwd'', s ''cwd'')])
         else if action = ''read_code'' then Inr (plain_mapped ''fs.read'' [(''path'', s ''file_path'')])
         else if action = ''write_code'' then Inr (plain_mapped ''fs.write'' [(''path'', s ''file_path'')])
         else
           rbind (ok_or (nonempty (Option.bind (map_of info ''mcp_tool_name'') as_str)) ''tool_info lacks mcp_tool_name'') (\<lambda>tool.
           rbind (ok_or (nonempty (Option.bind (map_of info ''mcp_server_name'') as_str)) ''tool_info lacks mcp_server_name'') (\<lambda>srv.
             Inr ((plain_mapped tool (input_object J (map_of info ''mcp_tool_arguments'') True))\<lparr>mp_server := Some (agent_server srv ''unknown'')\<rparr>))))"

text \<open>\<open>args[k].is_string()\<close>.\<close>

definition index_is_string :: "(str \<times> json) list \<Rightarrow> str \<Rightarrow> call_error + bool" where
  "index_is_string m k = (case map_of m k of None \<Rightarrow> Inl CallPanic | Some v \<Rightarrow> Inr (as_str v \<noteq> None))"

definition windsurf_call :: "rpc_deps \<Rightarrow> 's hook_env \<Rightarrow> json \<Rightarrow> str \<Rightarrow> str \<Rightarrow> call_error + tool_call" where
  "windsurf_call J E p action cid =
     rbind (map_err CallErr (ok_or (str_at p ''trajectory_id'') ''hook payload lacks trajectory_id'')) (\<lambda>sid.
     rbind (map_err CallErr (ok_or (Option.bind (json_get p ''tool_info'') as_object) ''hook payload lacks a tool_info object'')) (\<lambda>info.
     rbind (map_err CallErr (windsurf_map J info action)) (\<lambda>m.
     rbind (if mp_tool m \<noteq> ''bash'' \<and> mp_server m = None
            then rbind (index_is_string (mp_args m) ''path'') (\<lambda>b. if b then Inr () else Inl (CallErr ''tool_info lacks file_path''))
            else Inr ()) (\<lambda>_.
     rbind (if mp_tool m = ''bash''
            then rbind (index_is_string (mp_args m) ''command'') (\<lambda>b. if b then Inr () else Inl (CallErr ''tool_info lacks command_line''))
            else Inr ()) (\<lambda>_.
       Inr (fst (into_call E m sid cid (agent_caller E ''windsurf'' None))))))))"

fun windsurf_answer :: "verdict \<Rightarrow> hook_out" where
  "windsurf_answer (Allow _) = silent"
| "windsurf_answer (Redact rid _) =
     agent_deny Windsurf (''writ denied this: rule \"'' @ rid @ ''\" redacts this tool'' @ [CHR 0x27] @ ''s output, and Windsurf hooks cannot replace tool output (fail closed)'')"
| "windsurf_answer (Deny rid reason loc) = agent_deny Windsurf (deny_reason rid reason loc)"
| "windsurf_answer (Ask rid _ _ _ _) = agent_deny Windsurf (ask_fail_closed rid ''Windsurf hooks cannot raise an approval prompt'')"

text \<open>\<open>info\<close> is the text of a panic.\<close>

definition panicked :: "str \<Rightarrow> hook_out" where
  "panicked info = agent_error Windsurf (''writ check panicked: '' @ info)"

definition windsurf_pre :: "'s hook_ctx \<Rightarrow> str \<Rightarrow> 's hook_env \<Rightarrow> json \<Rightarrow> str \<Rightarrow> 's gateway \<Rightarrow> 's gateway \<times> hook_out" where
  "windsurf_pre H info E p action gw =
     (case next_call_id E gw of
        (gw, cid) \<Rightarrow>
          (case windsurf_call (hc_json H) E p action cid of
             Inl (CallErr e) \<Rightarrow> (gw, agent_error Windsurf e)
           | Inl CallPanic \<Rightarrow> (gw, panicked info)
           | Inr call \<Rightarrow>
               (case decide_call H E call gw of
                  (gw, Inl e) \<Rightarrow> (gw, agent_error Windsurf (gw_text e))
                | (gw, Inr d) \<Rightarrow> (gw, windsurf_answer (dc_verdict d)))))"

definition windsurf_fail :: "str \<Rightarrow> hook_out" where
  "windsurf_fail msg = \<lparr>ho_stdout = None, ho_stderr = ''writ error: '' @ msg, ho_code = EXIT_NO_DISPATCH\<rparr>"

definition windsurf_post :: "'s hook_ctx \<Rightarrow> str \<Rightarrow> 's hook_env \<Rightarrow> json \<Rightarrow> str \<Rightarrow> 's gateway \<Rightarrow> 's gateway \<times> hook_out" where
  "windsurf_post H info E p action gw =
     (case windsurf_call (hc_json H) E p action [] of
        Inl (CallErr e) \<Rightarrow> (gw, windsurf_fail (e @ ''; cannot correlate''))
      | Inl CallPanic \<Rightarrow> (gw, panicked info)
      | Inr now \<Rightarrow>
          (case locate_open H E (tc_session_id now) (\<lambda>r. same_call r now) gw of
             (gw, Inl e) \<Rightarrow> (gw, windsurf_fail (gw_text e))
           | (gw, Inr None) \<Rightarrow> (gw, windsurf_fail (no_open_decision now))
           | (gw, Inr (Some rec)) \<Rightarrow>
               (let res = (case Option.bind (json_get p ''tool_info'') (\<lambda>i. json_get i ''mcp_result'') of
                             Some v \<Rightarrow> text_of (hc_json H) v | None \<Rightarrow> [])
                in case complete_located H E rec None 0 res gw of
                     (gw, Inl e) \<Rightarrow> (gw, windsurf_fail e)
                   | (gw, Inr _) \<Rightarrow> (gw, silent))))"

definition windsurf_event :: "str \<Rightarrow> str \<times> str" where
  "windsurf_event event =
     (case split_once event ''_'' of
        Some (ph, a) \<Rightarrow> if ph = ''pre'' \<or> ph = ''post'' then (ph, a) else ([], [])
      | None \<Rightarrow> ([], []))"

definition windsurf :: "'s hook_ctx \<Rightarrow> str \<Rightarrow> 's hook_env \<Rightarrow> json \<Rightarrow> 's gateway \<Rightarrow> 's gateway \<times> hook_out" where
  "windsurf H info E p gw =
     (let event = event_of p ''agent_action_name''; (phase, action) = windsurf_event event
      in if action \<notin> set [''run_command'', ''read_code'', ''write_code'', ''mcp_tool_use''] then
           (gw, agent_error Windsurf (''unsupported agent_action_name '' @ hc_debug H event @
              '' (writ handles pre_/post_ run_command, read_code, write_code, mcp_tool_use)''))
         else if phase = ''pre'' then windsurf_pre H info E p action gw
         else windsurf_post H info E p action gw)"

section \<open>Every format\<close>

definition agent_handle ::
  "'s hook_ctx \<Rightarrow> (str \<Rightarrow> str list) \<Rightarrow> str \<Rightarrow> 's hook_env \<Rightarrow> hook_format \<Rightarrow> str \<Rightarrow> 's gateway \<Rightarrow> 's gateway \<times> hook_out" where
  "agent_handle H urls info E f input gw =
     (case json_from_str (hc_json H) (trim input) of
        Inl e \<Rightarrow> (gw, agent_error f (''malformed hook payload: '' @ e))
      | Inr p \<Rightarrow>
          if as_object p = None then (gw, agent_error f ''hook payload is not a JSON object'')
          else case f of
                 Codex \<Rightarrow> codex H E p gw
               | Gemini \<Rightarrow> gemini H urls E p gw
               | Cursor \<Rightarrow> cursor H E p gw
               | Windsurf \<Rightarrow> windsurf H info E p gw)"

end
