(* ===== verification/Hook_Agent_Progress.thy ===== *)
theory Hook_Agent_Progress
  imports Hook_Progress Hook_Agents
begin

text \<open>
  The hooks of the other agents keep the ledger in order as well: they decide and complete through the same
  operations, and an open decision they find has no execution.
\<close>

section \<open>Calls without floating-point numbers\<close>

text \<open>No floating-point numbers in a payload, nor in the JSON texts that are its fields.\<close>

definition clean_payload :: "rpc_deps \<Rightarrow> json \<Rightarrow> bool" where
  "clean_payload J p \<longleftrightarrow> float_free p \<and>
     (\<forall>k s v. json_get p k = Some (JStr s) \<longrightarrow> json_from_str J s = Inr v \<longrightarrow> float_free v) \<and>
     (\<forall>i k s v. json_get p ''tool_info'' = Some i \<longrightarrow> json_get i k = Some (JStr s) \<longrightarrow> json_from_str J s = Inr v \<longrightarrow> float_free v)"

abbreviation args_ok :: "(str \<times> json) list \<Rightarrow> bool" where
  "args_ok kvs \<equiv> list_all (\<lambda>kv. float_free (snd kv)) kvs"

lemma args_ok_obj: "float_free (JObj kvs) \<longleftrightarrow> args_ok kvs"
  by (auto simp: list_all_iff)

lemma input_object_ok:
  assumes "\<And>j. v = Some j \<Longrightarrow> float_free j" and "\<And>s w. v = Some (JStr s) \<Longrightarrow> json_from_str J s = Inr w \<Longrightarrow> float_free w"
  shows "args_ok (input_object J v parse)"
proof (cases "\<exists>s m. v = Some (JStr s) \<and> parse \<and> json_from_str J s = Inr (JObj m)")
  case True
  then obtain s m where s: "v = Some (JStr s)" "parse" "json_from_str J s = Inr (JObj m)" by blast
  with assms(2) have "float_free (JObj m)" by blast
  with s show ?thesis by (simp only: args_ok_obj) (simp add: input_object_def)
next
  case False
  show ?thesis
  proof (cases v)
    case (Some j)
    with assms(1) have "float_free j" by blast
    then show ?thesis using Some False
      by (cases j) (auto simp: input_object_def list_all_iff split: sum.splits json.splits)
  qed (simp add: input_object_def)
qed

lemma field_ok:
  assumes "clean_payload J p"
  shows "args_ok (input_object J (json_get p k) parse)"
  using assms float_free_json_get [of p k] by (intro input_object_ok) (auto simp: clean_payload_def)

lemma into_call_ok: "args_ok (mp_args m) \<Longrightarrow> float_free (tc_args (fst (into_call E m sid cid who)))"
  by (auto simp: into_call_def Let_def args_ok_obj list_all_iff case_prod_beta dest!: float_free_btree_insert [unfolded list_all_iff, THEN bspec, rotated 2]
      split: option.splits list.splits)

lemma claude_tool_ok:
  assumes "args_ok kvs"
  shows "args_ok (fst (snd (map_claude_tool name kvs mcp)))"
  using map_claude_tool_args [OF assms, of name mcp "fst (map_claude_tool name kvs mcp)" _ "snd (snd (map_claude_tool name kvs mcp))"] by simp

text \<open>Whatever the conditions are, it is enough that every alternative is in order.\<close>

lemma if_ok: "args_ok (mp_args x) \<Longrightarrow> args_ok (mp_args y) \<Longrightarrow> args_ok (mp_args (if b then x else y))"
  by simp

lemma plain_ok [simp]: "mp_args (plain_mapped tool kvs) = kvs"
  by (simp add: plain_mapped_def)

lemma codex_map_ok:
  assumes "args_ok kvs"
  shows "args_ok (mp_args (codex_map J name kvs cwd))"
proof -
  have "args_ok (case map_of kvs ''command'' of
      Some (JArr argv) \<Rightarrow> btree_insert ''command'' (JStr (join '' '' (map (text_of J) argv))) kvs | _ \<Rightarrow> kvs)"
    using assms by (auto intro!: float_free_btree_insert split: option.split json.split)
  with assms claude_tool_ok [OF assms, of name None] show ?thesis
    unfolding codex_map_def Let_def by (intro if_ok) (simp_all add: case_prod_beta)
qed

lemma gemini_map_ok:
  assumes "args_ok kvs"
  shows "args_ok (mp_args (gemini_map urls name kvs mcp))"
proof (cases "gemini_mcp mcp")
  case None
  have "args_ok (fst (if c then (kvs, []) else case fm of Some p \<Rightarrow> (btree_insert ''path'' (JStr p) kvs, []) | None \<Rightarrow> (kvs, cs)))"
    for c and fm :: "str option" and cs :: "str list"
    using assms by (cases c; cases fm) (auto intro: float_free_btree_insert)
  with assms show ?thesis
    unfolding gemini_map_def None option.case Let_def case_prod_beta by (intro if_ok) (simp_all)
next
  case (Some x)
  with assms show ?thesis by (cases x) (simp add: gemini_map_def)
qed

lemma cursor_path_ok: "args_ok kvs \<Longrightarrow> args_ok (cursor_path kvs)"
  by (auto simp: cursor_path_def intro!: float_free_btree_insert split: option.splits)

lemma cursor_map_ok: "args_ok kvs \<Longrightarrow> args_ok (mp_args (cursor_map name kvs))"
  using claude_tool_ok [of kvs name None] claude_tool_ok [OF cursor_path_ok, of kvs name None] cursor_path_ok [of kvs]
  by (auto simp: cursor_map_def plain_mapped_def Let_def case_prod_beta)

lemma codex_call_ok: "clean_payload J p \<Longrightarrow> codex_call J E p = Inr (call, cands) \<Longrightarrow> float_free (tc_args call)"
  by (auto simp: codex_call_def result_simps ok_or_def split: option.splits) (metis codex_map_ok field_ok fst_conv into_call_ok)

lemma gemini_call_ok: "clean_payload J p \<Longrightarrow> gemini_call J urls E p cid = Inr (call, cands) \<Longrightarrow> float_free (tc_args call)"
  by (auto simp: gemini_call_def result_simps ok_or_def split: option.splits) (metis gemini_map_ok field_ok fst_conv into_call_ok)

lemma cursor_call_ok: "clean_payload J p \<Longrightarrow> cursor_call J E p = Inr (call, cands) \<Longrightarrow> float_free (tc_args call)"
  by (auto simp: cursor_call_def result_simps ok_or_def split: option.splits) (metis cursor_map_ok field_ok fst_conv into_call_ok)

lemma cursor_mcp_call_ok: "clean_payload J p \<Longrightarrow> cursor_mcp_call J E p cid = Inr call \<Longrightarrow> float_free (tc_args call)"
  by (auto simp: cursor_mcp_call_def result_simps ok_or_def Let_def plain_mapped_def split: option.splits intro!: into_call_ok field_ok)

lemma windsurf_map_ok:
  assumes "clean_payload J p" and "json_get p ''tool_info'' = Some (JObj info)" and "windsurf_map J info action = Inr m"
  shows "args_ok (mp_args m)"
proof -
  have i: "float_free (JObj info)" using float_free_json_get [OF _ assms(2)] assms(1) unfolding clean_payload_def by blast
  have "args_ok (input_object J (map_of info k) True)" for k
    using assms(1,2) float_free_get [OF i, of k] by (intro input_object_ok) (auto simp: clean_payload_def)
  then show ?thesis using assms(3) float_free_get [OF i]
    by (auto simp: windsurf_map_def Let_def plain_mapped_def result_simps ok_or_def split: if_splits option.splits)
qed

lemma windsurf_call_ok: 
  assumes "clean_payload J p" and "windsurf_call J E p action cid = Inr call"
  shows "float_free (tc_args call)"
proof -
  obtain info m sid who where "json_get p ''tool_info'' = Some (JObj info)" "windsurf_map J info action = Inr m"
      "call = fst (into_call E m sid cid who)"
    using assms(2) by (cases "json_get p ''tool_info''"; cases "the (json_get p ''tool_info'')")
      (auto simp: windsurf_call_def result_simps ok_or_def split: option.splits)
  with windsurf_map_ok [OF assms(1)] into_call_ok show ?thesis by blast
qed

section \<open>Open decisions\<close>

lemma open_loop_spec:
  "open_loop P opn (map Inr rs) = Inr res \<Longrightarrow> d \<in> set res \<Longrightarrow>
   (d \<in> set opn \<and> \<not> (\<exists>e\<in>set rs. links_to d e)) \<or>
   (\<exists>xs ys. rs = xs @ d # ys \<and> rkind d = Decision \<and> P d \<and> \<not> (\<exists>e\<in>set ys. links_to d e))"
proof (induction rs arbitrary: opn)
  case (Cons r rs)
  let ?opn = "if rkind r = Decision then (if P r then opn @ [r] else opn)
    else case decision_index r of Some i \<Rightarrow> filter (\<lambda>d. index d \<noteq> i) opn | None \<Rightarrow> opn"
  have "open_loop P ?opn (map Inr rs) = Inr res" using Cons.prems by simp
  from Cons.IH [OF this Cons.prems(2)] show ?case
  proof
    assume "\<exists>xs ys. rs = xs @ d # ys \<and> rkind d = Decision \<and> P d \<and> \<not> (\<exists>e\<in>set ys. links_to d e)"
    then show ?thesis by (metis append_Cons)
  next
    assume o: "d \<in> set ?opn \<and> \<not> (\<exists>e\<in>set rs. links_to d e)"
    show ?thesis
    proof (cases "rkind r = Decision \<and> P r \<and> d = r")
      case True
      with o show ?thesis by (intro disjI2 exI [of _ "[]"] exI [of _ rs]) simp
    next
      case False
      with o show ?thesis by (auto simp: links_to_def split: if_splits option.splits)
    qed
  qed
qed simp

lemma dispatch_approver_may: "dispatch_approver m console d prompt = Inr apr \<Longrightarrow> may_complete d apr"
  by (cases "console d"; cases apr; cases prompt) (auto simp: dispatch_approver_def may_complete_def split: option.splits verdict.splits if_splits)

lemma with_value_ok:
  assumes "float_free (tc_args c)"
  shows "float_free (tc_args (with_value c key v))"
proof (cases "tc_args c")
  case (JObj kvs)
  with assms have "args_ok kvs" by (simp only: args_ok_obj)
  then have "args_ok (btree_insert key (JStr v) kvs)" by (rule float_free_btree_insert) simp
  then have "float_free (JObj (btree_insert key (JStr v) kvs))" by (simp only: args_ok_obj)
  with JObj show ?thesis by (simp add: with_value_def)
qed (use assms in \<open>simp_all add: with_value_def\<close>)

text \<open>The chosen candidate is among the candidates, and none of them is judged more strictly.\<close>

lemma strictest_max:
  "strictest sev best cs = Some (n, c) \<Longrightarrow> (\<And>m b. best = Some (m, b) \<Longrightarrow> m = sev b) \<Longrightarrow>
   (best = Some (n, c) \<or> c \<in> set cs) \<and> n = sev c \<and> (\<forall>x\<in>set cs. sev x \<le> n) \<and> (\<forall>m b. best = Some (m, b) \<longrightarrow> m \<le> n)"
proof (induction cs arbitrary: best)
  case (Cons x cs)
  let ?best = "case best of Some (s, _) \<Rightarrow> if sev x > s then Some (sev x, x) else best | None \<Rightarrow> Some (sev x, x)"
  have "strictest sev ?best cs = Some (n, c)" using Cons.prems(1) by simp
  moreover have "m = sev b" if "?best = Some (m, b)" for m b
    using that Cons.prems(2) by (auto split: option.splits if_splits)
  ultimately have IH: "?best = Some (n, c) \<or> c \<in> set cs" "n = sev c" "\<forall>x\<in>set cs. sev x \<le> n" "\<And>m b. ?best = Some (m, b) \<Longrightarrow> m \<le> n"
    using Cons.IH by blast+
  show ?case
  proof (cases best)
    case None
    with IH show ?thesis by auto
  next
    case (Some mb)
    obtain m b where "mb = (m, b)" by fastforce
    with Some IH show ?thesis by (cases "m < sev x") (auto intro: le_trans [OF less_imp_le])
  qed
qed auto

lemma chosen_ok:
  assumes "float_free (tc_args call)"
  shows "float_free (tc_args (case strictest sev None (map (with_value call key) vals) of Some (_, c) \<Rightarrow> c | None \<Rightarrow> call))"
  using assms strictest_max [of sev None "map (with_value call key) vals"] with_value_ok [OF assms]
  by (fastforce split: option.split)

lemma next_call_id_keeps: "next_call_id E gw = (gw', i) \<Longrightarrow> gt_store gw' = gt_store gw \<and> same_setup gw gw'"
  by (auto simp: next_call_id_def generated_call_id_def same_setup_def)

section \<open>Each hook\<close>

context readable_store
begin

lemma decide_candidates_progress:
  assumes "uses H" and "at_rs E gw rs" and "float_free (tc_args call)" and "decide_candidates H E call cands gw = (gw', x)"
  shows "progress E gw rs gw'"
proof (cases cands)
  case None
  with assms(4) decide_call_progress [OF assms(1-3)] show ?thesis by (simp add: decide_candidates_def)
next
  case (Some kv)
  show ?thesis
  proof (cases "gw_engine gw")
    case (Inl e)
    with assms(2,4) Some progress_same show ?thesis by (auto simp: decide_candidates_def)
  next
    case (Inr eng)
    with assms(4) Some obtain sev where
      "decide_call H E (case strictest sev None (map (with_value call (fst kv)) (snd kv)) of Some (_, c) \<Rightarrow> c | None \<Rightarrow> call) gw = (gw', x)"
      by (auto simp: decide_candidates_def case_prod_beta Let_def)
    with decide_call_progress [OF assms(1,2) chosen_ok [OF assms(3)]] show ?thesis by blast
  qed
qed

lemma locate_open_at:
  assumes "uses H" and "at_rs E gw rs" and "locate_open H E sid P gw = (gw', x)"
  shows "same_setup gw gw' \<and> at_rs E gw' rs \<and>
    (\<forall>d. x = Inr (Some d) \<longrightarrow> chain_valid L rs \<and>
      (\<exists>xs ys. rs = xs @ d # ys \<and> rkind d = Decision \<and> session_id d = sid \<and> P d \<and> \<not> (\<exists>e\<in>set ys. links_to d e)))"
proof -
  obtain gw1 y where y: "gw_store E gw = (gw1, y)" by fastforce
  note at = gw_store_at [OF assms(2) y]
  show ?thesis
  proof (cases y)
    case (Inl e)
    with y at assms(3) show ?thesis by (auto simp: locate_open_def)
  next
    case (Inr s)
    with at have s: "gt_store gw1 = Some s" "inv s" "chain s = rs" by blast+
    let ?P = "\<lambda>rec. session_id rec = sid \<and> P rec"
    have x: "gw' = gw1" "x = rbind (open_loop ?P [] (map Inr rs)) (\<lambda>opn. Inr (if opn = [] then None else Some (last opn)))"
      using assms(1,3) y Inr iter_ok [OF s(2)] s(3) by (auto simp: locate_open_def uses_def)
    have "\<exists>xs ys. rs = xs @ d # ys \<and> rkind d = Decision \<and> session_id d = sid \<and> P d \<and> \<not> (\<exists>e\<in>set ys. links_to d e)"
      if d: "x = Inr (Some d)" for d
    proof -
      obtain opn where "open_loop ?P [] (map Inr rs) = Inr opn" "d \<in> set opn"
        using d x(2) by (auto simp: result_simps split: if_splits)
      from open_loop_spec [OF this] show ?thesis by auto
    qed
    with at x(1) s inv_valid [OF s(2)] show ?thesis by auto
  qed
qed

lemma complete_located_progress:
  assumes "uses H" and "at_rs E gw rs" and "chain_valid L rs"
    and "\<exists>xs ys. rs = xs @ d # ys \<and> rkind d = Decision \<and> \<not> (\<exists>e\<in>set ys. links_to d e)"
    and "complete_located H E d prompt status res gw = (gw', x)"
  shows "progress E gw rs gw'"
proof (cases "dispatch_approver (gt_ask gw) (he_console E) d prompt")
  case (Inl e)
  with assms(2,5) progress_same show ?thesis by (auto simp: complete_located_def)
next
  case (Inr apr)
  obtain gw1 y where y: "hook_record_execution H E d apr status res gw = (gw1, y)" by fastforce
  have "gw' = gw1" using assms(5) Inr y by (cases y) (auto simp: complete_located_def)
  moreover obtain xs ys where "rs = xs @ d # ys" "rkind d = Decision" "\<not> (\<exists>e\<in>set ys. links_to d e)" using assms(4) by blast
  ultimately show ?thesis using hook_record_execution_at [OF assms(1-3) _ _ _ dispatch_approver_may [OF Inr] y] by blast
qed

lemma locate_complete_progress:
  assumes "uses H" and "at_rs E gw rs" and "locate H E P gw = (gw1, Inr (Some l))" and "\<not> lo_executed l"
    and "complete_located H E (lo_record l) prompt status res gw1 = (gw', x)"
  shows "progress E gw rs gw'"
proof -
  from locate_at [OF assms(1-3)] have l: "same_setup gw gw1" "at_rs E gw1 rs" "chain_valid L rs"
    "\<exists>xs ys. rs = xs @ lo_record l # ys \<and> rkind (lo_record l) = Decision \<and> \<not> (\<exists>e\<in>set ys. links_to (lo_record l) e)"
    using assms(4) by blast+
  from complete_located_progress [OF assms(1) l(2-4) assms(5)] l(1) show ?thesis using progress_setup by blast
qed

lemma locate_open_complete_progress:
  assumes "uses H" and "at_rs E gw rs" and "locate_open H E sid P gw = (gw1, Inr (Some d))"
    and "complete_located H E d prompt status res gw1 = (gw', x)"
  shows "progress E gw rs gw'"
proof -
  from locate_open_at [OF assms(1-3)] have l: "same_setup gw gw1" "at_rs E gw1 rs" "chain_valid L rs"
    "\<exists>xs ys. rs = xs @ d # ys \<and> rkind d = Decision \<and> \<not> (\<exists>e\<in>set ys. links_to d e)"
    by blast+
  from complete_located_progress [OF assms(1) l(2-4) assms(4)] l(1) show ?thesis using progress_setup by blast
qed

lemma fresh_progress:
  assumes "next_call_id E gw = (gw1, i)" and "at_rs E gw rs" and "at_rs E gw1 rs \<Longrightarrow> progress E gw1 rs gw'"
  shows "progress E gw rs gw'"
  using next_call_id_keeps [OF assms(1)] at_rs_keep [OF assms(2), of gw1] assms(3) progress_setup by blast

lemma codex_pre_progress:
  assumes "uses H" and "at_rs E gw rs" and "clean_payload (hc_json H) p" and "codex_pre H E p gw = (gw', out)"
  shows "progress E gw rs gw'"
proof (cases "codex_call (hc_json H) E p")
  case (Inl e)
  with assms(2,4) progress_same show ?thesis by (auto simp: codex_pre_def)
next
  case (Inr cc)
  obtain gw1 x where x: "decide_candidates H E (fst cc) (snd cc) gw = (gw1, x)" by fastforce
  with assms(4) Inr have "gw' = gw1" by (cases x) (auto simp: codex_pre_def case_prod_beta)
  with decide_candidates_progress [OF assms(1,2) codex_call_ok [OF assms(3)] x] Inr show ?thesis by (cases cc) auto
qed

lemma gemini_pre_progress:
  assumes "uses H" and "at_rs E gw rs" and "clean_payload (hc_json H) p" and "gemini_pre H urls E p gw = (gw', out)"
  shows "progress E gw rs gw'"
proof -
  obtain gw0 i where i: "next_call_id E gw = (gw0, i)" by fastforce
  show ?thesis
  proof (rule fresh_progress [OF i assms(2)])
    assume at: "at_rs E gw0 rs"
    show "progress E gw0 rs gw'"
    proof (cases "gemini_call (hc_json H) urls E p i")
      case (Inl e)
      with assms(4) at i progress_same show ?thesis by (auto simp: gemini_pre_def)
    next
      case (Inr cc)
      obtain gw1 x where x: "decide_candidates H E (fst cc) (snd cc) gw0 = (gw1, x)" by fastforce
      with assms(4) i Inr have "gw' = gw1" by (cases x) (auto simp: gemini_pre_def case_prod_beta)
      with decide_candidates_progress [OF assms(1) at gemini_call_ok [OF assms(3)] x] Inr show ?thesis by (cases cc) auto
    qed
  qed
qed

lemma cursor_pre_progress:
  assumes "uses H" and "at_rs E gw rs" and "clean_payload (hc_json H) p" and "cursor_pre H E p gw = (gw', out)"
  shows "progress E gw rs gw'"
proof (cases "Option.bind (Option.bind (json_get p ''tool_name'') as_str) cursor_mcp_tool \<noteq> None")
  case True
  with assms(2,4) progress_same show ?thesis by (auto simp: cursor_pre_def)
next
  case False
  show ?thesis
  proof (cases "cursor_call (hc_json H) E p")
    case (Inl e)
    with False assms(2,4) progress_same show ?thesis by (auto simp: cursor_pre_def)
  next
    case (Inr cc)
    obtain gw1 x where x: "decide_candidates H E (fst cc) (snd cc) gw = (gw1, x)" by fastforce
    with False assms(4) Inr have "gw' = gw1" by (cases x) (auto simp: cursor_pre_def case_prod_beta)
    with decide_candidates_progress [OF assms(1,2) cursor_call_ok [OF assms(3)] x] Inr show ?thesis by (cases cc) auto
  qed
qed

lemma cursor_mcp_pre_progress:
  assumes "uses H" and "at_rs E gw rs" and "clean_payload (hc_json H) p" and "cursor_mcp_pre H E p gw = (gw', out)"
  shows "progress E gw rs gw'"
proof -
  obtain gw0 i where i: "next_call_id E gw = (gw0, i)" by fastforce
  show ?thesis
  proof (rule fresh_progress [OF i assms(2)])
    assume at: "at_rs E gw0 rs"
    show "progress E gw0 rs gw'"
    proof (cases "cursor_mcp_call (hc_json H) E p i")
      case (Inl e)
      with assms(4) at i progress_same show ?thesis by (auto simp: cursor_mcp_pre_def)
    next
      case (Inr call)
      obtain gw1 x where x: "decide_call H E call gw0 = (gw1, x)" by fastforce
      with assms(4) i Inr have "gw' = gw1" by (cases x) (auto simp: cursor_mcp_pre_def)
      with decide_call_progress [OF assms(1) at cursor_mcp_call_ok [OF assms(3) Inr] x] show ?thesis by simp
    qed
  qed
qed

lemma windsurf_pre_progress:
  assumes "uses H" and "at_rs E gw rs" and "clean_payload (hc_json H) p" and "windsurf_pre H info E p action gw = (gw', out)"
  shows "progress E gw rs gw'"
proof -
  obtain gw0 i where i: "next_call_id E gw = (gw0, i)" by fastforce
  show ?thesis
  proof (rule fresh_progress [OF i assms(2)])
    assume at: "at_rs E gw0 rs"
    show "progress E gw0 rs gw'"
    proof (cases "windsurf_call (hc_json H) E p action i")
      case (Inl e)
      with assms(4) at i progress_same show ?thesis by (cases e) (auto simp: windsurf_pre_def)
    next
      case (Inr call)
      obtain gw1 x where x: "decide_call H E call gw0 = (gw1, x)" by fastforce
      with assms(4) i Inr have "gw' = gw1" by (cases x) (auto simp: windsurf_pre_def)
      with decide_call_progress [OF assms(1) at windsurf_call_ok [OF assms(3) Inr] x] show ?thesis by simp
    qed
  qed
qed

lemma locate_progress: "uses H \<Longrightarrow> at_rs E gw rs \<Longrightarrow> locate H E P gw = (gw', y) \<Longrightarrow> progress E gw rs gw'"
  using locate_at progress_same by blast

lemma locate_open_progress: "uses H \<Longrightarrow> at_rs E gw rs \<Longrightarrow> locate_open H E sid P gw = (gw', y) \<Longrightarrow> progress E gw rs gw'"
  using locate_open_at progress_same by blast

lemma codex_post_progress:
  assumes "uses H" and "at_rs E gw rs" and "codex_post H E p gw = (gw', out)"
  shows "progress E gw rs gw'"
proof (cases "codex_call (hc_json H) E p")
  case (Inl e)
  with assms(2,3) progress_same show ?thesis by (auto simp: codex_post_def Let_def)
next
  case (Inr cc)
  let ?P = "\<lambda>r. session_id r = tc_session_id (fst cc) \<and> call_id r = tc_call_id (fst cc)"
  obtain gw1 y where y: "locate H E ?P gw = (gw1, y)" by fastforce
  show ?thesis
  proof (cases "\<exists>l. y = Inr (Some l) \<and> \<not> lo_executed l")
    case False
    then have "gw' = gw1" using assms(3) Inr y
      by (auto simp: codex_post_def Let_def case_prod_beta split: sum.splits option.splits if_splits)
    with locate_progress [OF assms(1,2) y] show ?thesis by simp
  next
    case True
    then obtain l where l: "y = Inr (Some l)" "\<not> lo_executed l" by blast
    obtain gw2 z where z: "complete_located H E (lo_record l) None (exit_from_response (response_of p))
        (json_to_string (hc_json H) (response_of p)) gw1 = (gw2, z)" by fastforce
    have "gw' = gw2" using assms(3) Inr y l z by (cases z) (auto simp: codex_post_def Let_def case_prod_beta)
    with y l z locate_complete_progress [OF assms(1,2)] show ?thesis by blast
  qed
qed

lemma gemini_post_progress:
  assumes "uses H" and "at_rs E gw rs" and "gemini_post H urls E p gw = (gw', out)"
  shows "progress E gw rs gw'"
proof (cases "gemini_call (hc_json H) urls E p []")
  case (Inl e)
  with assms(2,3) progress_same show ?thesis by (auto simp: gemini_post_def Let_def)
next
  case (Inr cc)
  obtain gw1 y where y: "locate_open H E (tc_session_id (fst cc)) (\<lambda>r. same_call r (fst cc)) gw = (gw1, y)" by fastforce
  show ?thesis
  proof (cases "\<exists>d. y = Inr (Some d)")
    case False
    then have "gw' = gw1" using assms(3) Inr y by (auto simp: gemini_post_def Let_def case_prod_beta split: sum.splits option.splits)
    with locate_open_progress [OF assms(1,2) y] show ?thesis by simp
  next
    case True
    then obtain d where d: "y = Inr (Some d)" by blast
    obtain gw2 z where z: "complete_located H E d (Some GEMINI_PROMPT_APPROVER) (if present (json_get (response_of p) ''error'') then 1 else 0)
        (json_to_string (hc_json H) (response_of p)) gw1 = (gw2, z)" by fastforce
    have "gw' = gw2" using assms(3) Inr y d z
      by (cases z; cases "projr z") (auto simp: gemini_post_def Let_def case_prod_beta split: option.splits)
    with y d z locate_open_complete_progress [OF assms(1,2)] show ?thesis by blast
  qed
qed

lemma windsurf_post_progress:
  assumes "uses H" and "at_rs E gw rs" and "windsurf_post H info E p action gw = (gw', out)"
  shows "progress E gw rs gw'"
proof (cases "windsurf_call (hc_json H) E p action []")
  case (Inl e)
  with assms(2,3) progress_same show ?thesis by (cases e) (auto simp: windsurf_post_def)
next
  case (Inr now)
  obtain gw1 y where y: "locate_open H E (tc_session_id now) (\<lambda>r. same_call r now) gw = (gw1, y)" by fastforce
  show ?thesis
  proof (cases "\<exists>d. y = Inr (Some d)")
    case False
    then have "gw' = gw1" using assms(3) Inr y by (auto simp: windsurf_post_def split: sum.splits option.splits)
    with locate_open_progress [OF assms(1,2) y] show ?thesis by simp
  next
    case True
    then obtain d where d: "y = Inr (Some d)" by blast
    define res where "res = (case Option.bind (json_get p ''tool_info'') (\<lambda>i. json_get i ''mcp_result'') of
        Some v \<Rightarrow> text_of (hc_json H) v | None \<Rightarrow> [])"
    obtain gw2 z where z: "complete_located H E d None 0 res gw1 = (gw2, z)" by fastforce
    have "gw' = gw2" using assms(3) Inr y d z
      by (cases z) (auto simp: windsurf_post_def Let_def res_def [symmetric])
    with y d z locate_open_complete_progress [OF assms(1,2)] show ?thesis by blast
  qed
qed

lemma cursor_find_at:
  assumes "uses H" and "at_rs E gw rs" and "cursor_find H E p sid mcp gw = (gw', y)"
  shows "progress E gw rs gw' \<and> (\<forall>d prompt status res gw2 x. y = Inr d \<longrightarrow>
    complete_located H E d prompt status res gw' = (gw2, x) \<longrightarrow> progress E gw rs gw2)"
proof (cases mcp)
  case (Some tool)
  let ?P = "mcp_matches tool (input_object (hc_json H) (json_get p ''tool_input'') True)"
  obtain gw1 z where z: "locate_open H E sid ?P gw = (gw1, z)" by fastforce
  have "gw' = gw1" "\<And>d. y = Inr d \<Longrightarrow> z = Inr (Some d)"
    using assms(3) Some z by (auto simp: cursor_find_def split: sum.splits option.splits)
  with z locate_open_progress [OF assms(1,2) z] locate_open_complete_progress [OF assms(1,2)] show ?thesis by blast
next
  case None
  show ?thesis
  proof (cases "str_at p ''tool_use_id''")
    case (Some i)
    obtain gw1 z where z: "locate H E (\<lambda>r. session_id r = sid \<and> call_id r = i) gw = (gw1, z)" by fastforce
    have g: "gw' = gw1" "\<And>d. y = Inr d \<Longrightarrow> \<exists>l. z = Inr (Some l) \<and> \<not> lo_executed l \<and> lo_record l = d"
      using assms(3) None Some z by (auto simp: cursor_find_def split: sum.splits option.splits if_splits)
    with z locate_progress [OF assms(1,2) z] locate_complete_progress [OF assms(1,2)] show ?thesis by metis
  qed (use None assms(2,3) progress_same in \<open>auto simp: cursor_find_def\<close>)
qed

lemma cursor_post_progress:
  assumes "uses H" and "at_rs E gw rs" and "cursor_post H E p failure gw = (gw', out)"
  shows "progress E gw rs gw'"
proof (cases "cursor_session p")
  case (Inl e)
  with assms(2,3) progress_same show ?thesis by (auto simp: cursor_post_def Let_def)
next
  case (Inr sid)
  obtain gw1 y where y: "cursor_find H E p sid (cursor_mcp_tool (event_of p ''tool_name'')) gw = (gw1, y)" by fastforce
  note at = cursor_find_at [OF assms(1,2) y]
  have "gw' = gw1 \<or> (\<exists>d prompt status res x. y = Inr d \<and> complete_located H E d prompt status res gw1 = (gw', x))"
  proof (cases y)
    case (Inl e)
    with assms(3) Inr y show ?thesis by (auto simp: cursor_post_def Let_def case_prod_beta)
  next
    case d: (Inr d)
    have "\<exists>status res. gw' = fst (complete_located H E d (Some CURSOR_PROMPT_APPROVER) status res gw1)"
      using assms(3) Inr y d
      by (auto simp: cursor_post_def Let_def case_prod_beta split: sum.splits prod.splits intro: fst_conv)
    then show ?thesis using d by (metis prod.collapse)
  qed
  with at show ?thesis by blast
qed

lemma agent_handle_progress:
  assumes "uses H" and "at_rs E gw rs" and "\<And>j. json_from_str (hc_json H) (trim input) = Inr j \<Longrightarrow> clean_payload (hc_json H) j"
    and "agent_handle H urls info E f input gw = (gw', out)"
  shows "progress E gw rs gw'"
proof (cases "json_from_str (hc_json H) (trim input)")
  case (Inl e)
  with assms(2,4) progress_same show ?thesis by (auto simp: agent_handle_def)
next
  case (Inr p)
  have "gw' = gw \<or> codex_pre H E p gw = (gw', out) \<or> codex_post H E p gw = (gw', out) \<or>
      gemini_pre H urls E p gw = (gw', out) \<or> gemini_post H urls E p gw = (gw', out) \<or>
      cursor_pre H E p gw = (gw', out) \<or> cursor_mcp_pre H E p gw = (gw', out) \<or> (\<exists>b. cursor_post H E p b gw = (gw', out)) \<or>
      (\<exists>a. windsurf_pre H info E p a gw = (gw', out)) \<or> (\<exists>a. windsurf_post H info E p a gw = (gw', out))"
    using assms(4) Inr
    by (cases f) (auto simp: agent_handle_def codex_def gemini_def cursor_def windsurf_def Let_def case_prod_beta split: if_splits)
  then show ?thesis
  proof (elim disjE exE)
    assume "gw' = gw"
    with assms(2) show ?thesis by (simp add: progress_same)
  qed (erule codex_pre_progress [OF assms(1,2) assms(3) [OF Inr]] codex_post_progress [OF assms(1,2)]
      gemini_pre_progress [OF assms(1,2) assms(3) [OF Inr]] gemini_post_progress [OF assms(1,2)]
      cursor_pre_progress [OF assms(1,2) assms(3) [OF Inr]] cursor_mcp_pre_progress [OF assms(1,2) assms(3) [OF Inr]]
      cursor_post_progress [OF assms(1,2)] windsurf_pre_progress [OF assms(1,2) assms(3) [OF Inr]]
      windsurf_post_progress [OF assms(1,2)])+
qed

end

end
