(* ===== verification/Hook_Runs.thy ===== *)
theory Hook_Runs
  imports Hook_Agent_Progress File_Writers
begin

text \<open>
  Sequences of requests to \<open>writ check\<close>, in all its formats, by any number of processes on one ledger file:
  what holds of the ledger after each of them.
\<close>

section \<open>Many processes on one ledger file\<close>

text \<open>
  The ledger file as a readable store, for a process that found the file with contents \<open>F\<close>: its appends
  leave the file as it is or write it out as the lines of the chain.
\<close>

definition fs_from :: "ledger_deps \<Rightarrow> bytes \<Rightarrow> fstore \<Rightarrow> bool" where
  "fs_from L F s \<longleftrightarrow> fs_inv L s \<and> prefix (committed L F) (fs_chain L s) \<and>
     (fs_file s = F \<or> fs_file s = flines L (fs_chain L s))"

lemma refresh_file: "fs_inv L s \<Longrightarrow> refresh L s = (s', x) \<Longrightarrow> fs_file s' = fs_file s"
  using refresh_inv [of L s] by auto

lemma fs_from_append:
  assumes "fs_from L F s" and "exact_record r" and "fs_append L s r = (s', Inr ())"
  shows "fs_from L F s' \<and> fs_chain L s' = fs_chain L s @ [r]"
  using fs_append_cases [OF _ assms(3)] fs_append_ok [OF _ assms(2,3)] assms(1) by (auto simp: fs_from_def)

interpretation rfs: readable_store L "fs_ops L" "fs_chain L" "fs_from L F" fs_ready "\<lambda>s. record_iter L (fs_file s)" for L F
proof
  show "chain_valid L (fs_chain L s)" if "fs_from L F s" for s
    using that fs.inv_valid by (simp add: fs_from_def)
  show "\<exists>s'. fs_from L F s' \<and> fs_chain L s' = fs_chain L s \<and> fs_ready s' = fs_ready s \<and>
      st_tip (fs_ops L) s = (s', Inr (if fs_chain L s = [] then None else Some (last (fs_chain L s))))"
    if s: "fs_from L F s" for s
  proof -
    have i: "fs_inv L s" using s by (simp add: fs_from_def)
    obtain s' where s': "fs_inv L s'" "fs_chain L s' = fs_chain L s" "fs_ready s' = fs_ready s"
        "fs_tip L s = (s', Inr (if fs_chain L s = [] then None else Some (last (fs_chain L s))))"
      using fs_tip_ok [OF i] by blast
    then have "fs_file s' = fs_file s" using refresh_inv [OF i] by (auto simp: fs_tip_def)
    with s s' show ?thesis by (auto simp: fs_from_def fs_ops_def)
  qed
  show "fs_from L F s' \<and> fs_chain L s' = fs_chain L s @ [r]"
    if "fs_from L F s" "exact_record r" "st_append (fs_ops L) s r = (s', Inr ())" for s r s'
    using that unfolding fs_ops_def store_ops.simps by (rule fs_from_append)
  show "fs_from L F s' \<and> fs_chain L s' = fs_chain L s"
    if "fs_from L F s" "st_append (fs_ops L) s r = (s', Inl e)" for s r s' e
    using that fs_append_cases [of L s r s' "Inl e"] by (auto simp: fs_from_def fs_ops_def fs_chain_def)
  show "\<exists>s'. st_append (fs_ops L) s r = (s', Inr ())"
    if "fs_from L F s" "fs_ready s" "extends L (fs_chain L s) r" "ser_record L r = Inr b" for s r b
    using that fs.append_ready by (auto simp: fs_from_def)
  show "record_iter L (fs_file s) = map Inr (fs_chain L s)" if "fs_from L F s" for s
    using that record_iter_file_ok by (auto simp: fs_from_def fs_inv_def)
qed

text \<open>A process sees the file as it is now, and gets its lock or not.\<close>

record hook_world =
  hw_file :: bytes
  hw_procs :: "nat \<Rightarrow> fstore gateway option"

definition sees :: "bytes \<Rightarrow> lock_outcome \<Rightarrow> fstore gateway \<Rightarrow> fstore gateway" where
  "sees F lk gw = gw\<lparr>gt_store := map_option (\<lambda>s. s\<lparr>fs_file := F, fs_lock := lk\<rparr>) (gt_store gw)\<rparr>"

definition opened :: "fstore \<times> (writ_error + unit) \<Rightarrow> writ_error + fstore" where
  "opened r = (case snd r of Inl e \<Rightarrow> Inl e | Inr _ \<Rightarrow> Inr (fst r))"

definition file_after :: "bytes \<Rightarrow> fstore gateway \<Rightarrow> bytes" where
  "file_after F gw = (case gt_store gw of Some s \<Rightarrow> fs_file s | None \<Rightarrow> F)"

definition check_ctx :: "ledger_deps \<Rightarrow> policy_deps \<Rightarrow> rpc_deps \<Rightarrow> (str \<Rightarrow> str \<Rightarrow> str \<Rightarrow> str) \<Rightarrow> (str \<Rightarrow> str) \<Rightarrow> fstore hook_ctx" where
  "check_ctx L P J rep dbg = \<lparr>hc_ledger = L, hc_store = fs_ops L, hc_iter = (\<lambda>s. record_iter L (fs_file s)),
     hc_policy = P, hc_json = J, hc_replace_all = rep, hc_debug = dbg\<rparr>"

text \<open>
  One step of the system: a process starts, with any policy and mode, or ends; or a running process
  answers one request, in the format of \<open>writ\<close>, of Claude Code or of another agent.
\<close>

inductive hook_step :: "fstore hook_ctx \<Rightarrow> hook_world \<Rightarrow> hook_world \<Rightarrow> bool" for H where
  start: "hw_procs w p = None \<Longrightarrow> gt_store gw = None \<Longrightarrow> hook_step H w (w\<lparr>hw_procs := (hw_procs w)(p := Some gw)\<rparr>)"
| stop: "hook_step H w (w\<lparr>hw_procs := (hw_procs w)(p := None)\<rparr>)"
| writ: "hw_procs w p = Some gw \<Longrightarrow> he_open E = opened (fs_open (hc_ledger H) path lp lk (hw_file w)) \<Longrightarrow>
    (\<forall>j. json_from_str (hc_json H) line = Inr j \<longrightarrow> float_free j) \<Longrightarrow>
    handle_line H E line (sees (hw_file w) lk gw) = (gw', out) \<Longrightarrow>
    hook_step H w \<lparr>hw_file = file_after (hw_file w) gw', hw_procs = (hw_procs w)(p := Some gw')\<rparr>"
| claude: "hw_procs w p = Some gw \<Longrightarrow> he_open E = opened (fs_open (hc_ledger H) path lp lk (hw_file w)) \<Longrightarrow>
    (\<forall>j. json_from_str (hc_json H) (trim input) = Inr j \<longrightarrow> float_free j) \<Longrightarrow>
    claude_code H E cap input (sees (hw_file w) lk gw) = (gw', cout) \<Longrightarrow>
    hook_step H w \<lparr>hw_file = file_after (hw_file w) gw', hw_procs = (hw_procs w)(p := Some gw')\<rparr>"
| agent: "hw_procs w p = Some gw \<Longrightarrow> he_open E = opened (fs_open (hc_ledger H) path lp lk (hw_file w)) \<Longrightarrow>
    (\<forall>j. json_from_str (hc_json H) (trim input) = Inr j \<longrightarrow> clean_payload (hc_json H) j) \<Longrightarrow>
    agent_handle H urls info E f input (sees (hw_file w) lk gw) = (gw', aout) \<Longrightarrow>
    hook_step H w \<lparr>hw_file = file_after (hw_file w) gw', hw_procs = (hw_procs w)(p := Some gw')\<rparr>"

inductive_cases hook_stepE: "hook_step H w w'"

definition world_ok :: "ledger_deps \<Rightarrow> ledger_record list \<Rightarrow> hook_world \<Rightarrow> bool" where
  "world_ok L rs w \<longleftrightarrow> serde_laws L \<and> file_ok L rs (hw_file w) \<and> exec_ok rs \<and>
     (\<forall>p gw s. hw_procs w p = Some gw \<and> gt_store gw = Some s \<longrightarrow> handle_ok L rs (hw_file w) (fs_state s))"

lemma fs_from_sees:
  assumes "serde_laws L" and "file_ok L rs F" and "handle_ok L rs F (fs_state s)"
  shows "fs_from L F (s\<lparr>fs_file := F, fs_lock := lk\<rparr>) \<and> fs_chain L (s\<lparr>fs_file := F, fs_lock := lk\<rparr>) = rs"
  using assms by (simp add: fs_from_def fs_inv_def fs_chain_def committed_file_ok)

lemma fs_from_file:
  assumes "serde_laws L" and "file_ok L rs F" and "fs_file s = F \<or> fs_file s = flines L rs" and "handle_ok L rs (fs_file s) (fs_state s)"
  shows "fs_from L F s \<and> fs_chain L s = rs"
proof -
  have "file_ok L rs (flines L rs)" using assms(2) by (intro file_ok_flines) (simp_all add: file_ok_def)
  with assms(2,3) have f: "file_ok L rs (fs_file s)" by auto
  from committed_file_ok [OF assms(1) this] committed_file_ok [OF assms(1,2)] f assms show ?thesis
    by (auto simp: fs_from_def fs_inv_def fs_chain_def)
qed

lemma fs_from_opened:
  assumes "serde_laws L" and "file_ok L rs F" and "opened (fs_open L path lp lk F) = Inr s"
  shows "fs_from L F s \<and> fs_chain L s = rs"
proof (cases "lk = LockAcquired")
  case True
  then show ?thesis using fs_open_spec [OF assms(1,2), of path lp] assms(3) fs_from_file [OF assms(1,2), of s]
    by (auto simp: opened_def)
next
  case False
  define s0 where "s0 = \<lparr>fs_path = path, fs_lock_path = lp, fs_lock = lk, fs_file = F, fs_state = chain_state_empty\<rparr>"
  have "handle_ok L rs F (cstate [] 0)" unfolding handle_ok_def by (intro exI [of _ "[]"] exI [of _ rs]) simp
  then obtain off tr where r: "refresh L s0 = (s0\<lparr>fs_state := cstate rs off\<rparr>, Inr tr)" "at_end L rs F off"
    using refresh_spec [OF assms(1), of rs s0] assms(2) by (auto simp: s0_def chain_state_empty_cstate)
  have "\<exists>e. lock (s0\<lparr>fs_state := cstate rs off\<rparr>) = Inl e" using False by (cases lk) (simp_all add: lock_def s0_def)
  moreover have "fs_open L path lp lk F = sbind (refresh L s0) (\<lambda>torn s.
       if torn then
         sbind (s, lock s) (\<lambda>_ s. sbind (refresh L s) (\<lambda>_ s. sbind (repair_tail s) (\<lambda>_ s. (s, Inr ()))))
       else (s, Inr ()))" by (simp only: fs_open_def s0_def)
  ultimately have "s = s0\<lparr>fs_state := cstate rs off\<rparr>"
    using assms(3) r(1) by (cases tr) (auto simp: opened_def)
  with fs_from_file [OF assms(1,2), of s] handle_ok_at_end [OF r(2)] show ?thesis by (simp add: s0_def)
qed

lemma world_at:
  assumes "world_ok L rs w" and "hw_procs w p = Some gw" and "he_open E = opened (fs_open L path lp lk (hw_file w))"
  shows "gw_at (fs_from L (hw_file w)) (fs_chain L) E (sees (hw_file w) lk gw) rs"
proof (cases "gt_store gw")
  case None
  with fs_from_opened [of L rs "hw_file w"] assms show ?thesis by (auto simp: gw_at_def sees_def world_ok_def)
next
  case (Some s)
  with fs_from_sees [of L rs "hw_file w" s lk] assms(1,2) show ?thesis by (auto simp: gw_at_def sees_def world_ok_def)
qed

lemma world_progress:
  assumes "world_ok L rs w" and "gw_at (fs_from L (hw_file w)) (fs_chain L) E gw rs" and "rfs.progress L (hw_file w) E gw rs gw'"
  shows "\<exists>rs'. prefix rs rs' \<and> world_ok L rs' \<lparr>hw_file = file_after (hw_file w) gw', hw_procs = (hw_procs w)(p := Some gw')\<rparr>"
proof -
  let ?F = "hw_file w"
  have w: "serde_laws L" "file_ok L rs ?F" "exec_ok rs" using assms(1) by (simp_all add: world_ok_def)
  show ?thesis
  proof (cases "gt_store gw'")
    case None
    with assms(1) show ?thesis by (intro exI [of _ rs]) (auto simp: world_ok_def file_after_def)
  next
    case (Some s)
    with assms(3) w(3) have s: "fs_from L ?F s" "prefix rs (fs_chain L s)" "exec_ok (fs_chain L s)"
      by (auto simp: rfs.progress_def gw_chain_def gw_at_def)
    then have i: "file_ok L (fs_chain L s) (fs_file s)" "handle_ok L (fs_chain L s) (fs_file s) (fs_state s)"
      by (simp_all add: fs_from_def fs_inv_def)
    obtain ts where ts: "fs_chain L s = rs @ ts" using s(2) by (auto simp: prefix_def)
    have "length (flines L rs) \<le> length (fs_file s) \<or> length ?F \<le> length (fs_file s)"
      using s(1) ts by (auto simp: fs_from_def)
    then have "handle_ok L (fs_chain L s) (fs_file s) st" if "handle_ok L rs ?F st" for st
      unfolding ts by (rule handle_ok_mono [OF that])
    with assms(1) i s Some w(1) show ?thesis
      by (intro exI [of _ "fs_chain L s"]) (auto simp: world_ok_def file_after_def)
  qed
qed

lemma hook_step_ok:
  assumes "hook_step (check_ctx L P J rep dbg) w w'" and "world_ok L rs w"
  shows "\<exists>rs'. prefix rs rs' \<and> world_ok L rs' w'"
proof -
  let ?H = "check_ctx L P J rep dbg"
  have u: "rfs.uses L ?H" by (simp add: rfs.uses_def check_ctx_def)
  show ?thesis using assms(1)
  proof cases
    case (start p gw)
    with assms(2) show ?thesis by (intro exI [of _ rs]) (auto simp: world_ok_def)
  next
    case (stop p)
    with assms(2) show ?thesis by (intro exI [of _ rs]) (auto simp: world_ok_def)
  next
    case (writ p gw E path lp lk line gw' out)
    have at: "gw_at (fs_from L (hw_file w)) (fs_chain L) E (sees (hw_file w) lk gw) rs"
      using world_at [OF assms(2) writ(2), of E path lp lk] writ(3) by (simp add: check_ctx_def)
    have "rfs.progress L (hw_file w) E (sees (hw_file w) lk gw) rs gw'"
      using rfs.handle_line_progress [OF u at _ writ(5)] writ(4) by blast
    with world_progress [OF assms(2) at] writ(1) show ?thesis by simp
  next
    case (claude p gw E path lp lk input cap gw' cout)
    have at: "gw_at (fs_from L (hw_file w)) (fs_chain L) E (sees (hw_file w) lk gw) rs"
      using world_at [OF assms(2) claude(2), of E path lp lk] claude(3) by (simp add: check_ctx_def)
    have "rfs.progress L (hw_file w) E (sees (hw_file w) lk gw) rs gw'"
      using rfs.claude_code_progress [OF u at _ claude(5)] claude(4) by blast
    with world_progress [OF assms(2) at] claude(1) show ?thesis by simp
  next
    case (agent p gw E path lp lk urls info f input gw' aout)
    have at: "gw_at (fs_from L (hw_file w)) (fs_chain L) E (sees (hw_file w) lk gw) rs"
      using world_at [OF assms(2) agent(2), of E path lp lk] agent(3) by (simp add: check_ctx_def)
    have "rfs.progress L (hw_file w) E (sees (hw_file w) lk gw) rs gw'"
      using rfs.agent_handle_progress [OF u at _ agent(5)] agent(4) by blast
    with world_progress [OF assms(2) at] agent(1) show ?thesis by simp
  qed
qed

lemma hook_run_ok:
  assumes "(hook_step (check_ctx L P J rep dbg))\<^sup>*\<^sup>* w w'" and "world_ok L rs w"
  shows "\<exists>rs'. prefix rs rs' \<and> world_ok L rs' w'"
  using assms
proof (induction rule: rtranclp_induct)
  case (step y z)
  with hook_step_ok show ?case by (meson prefix_order.trans)
qed blast

end
