(* ===== verification/Hook_Claims.thy ===== *)
theory Hook_Claims
  imports Hook_Runs
begin

text \<open>
  What \<open>writ check\<close> promises: executions on the ledger are authorised, an answer to dispatch comes after its
  decision record, redacted output does not leak, every request is answered, and references round-trip.
\<close>

section \<open>What the ledger shows\<close>


section \<open>What an answer to dispatch means\<close>

text \<open>The verdict lets the call run, by itself or with an approval from the console.\<close>

definition runs :: "ask_mode \<Rightarrow> ui_decision \<Rightarrow> verdict \<Rightarrow> bool" where
  "runs m ui v \<longleftrightarrow> (case v of Allow _ \<Rightarrow> True | Redact _ _ \<Rightarrow> True | Deny _ _ _ \<Rightarrow> False
     | Ask _ _ _ _ _ \<Rightarrow> m = AskUi \<and> (\<exists>who. ui = UiApproved who))"

lemma decide_answer_dispatch: "snd (snd (decide_answer m ui v)) \<longleftrightarrow> runs m ui v"
  by (cases "(m, ui, v)" rule: decide_answer.cases) (simp_all add: runs_def)

lemma exits [simp]: "EXIT_DISPATCH \<noteq> EXIT_NO_DISPATCH" "EXIT_NO_DISPATCH \<noteq> EXIT_DISPATCH" "EXIT_ERROR \<noteq> EXIT_DISPATCH"
  by (simp_all add: EXIT_DISPATCH_def EXIT_NO_DISPATCH_def EXIT_ERROR_def)

lemma cc_answer_dispatch:
  "co_code (cc_answer m ui v) = EXIT_DISPATCH \<longleftrightarrow> runs m ui v \<or> is_ask v \<and> m = AskDefer"
  by (cases "(m, ui, v)" rule: cc_answer.cases) (simp_all add: runs_def claude_pre_def)

text \<open>The new record, for a decision that was recorded.\<close>

definition decided_on :: "fstore hook_ctx \<Rightarrow> fstore gateway \<Rightarrow> tool_call \<Rightarrow> ledger_record \<Rightarrow> verdict \<Rightarrow> bool" where
  "decided_on H gw call r v \<longleftrightarrow> rkind r = Decision \<and> rcall r = Some call \<and> rverdict r = Some v \<and>
     (\<exists>eng. gt_engine gw = Inr eng \<and> v = evaluate (hc_policy H) eng (from_call call))"

lemma decide_call_recorded:
  assumes "gw_at (fs_from L F) (fs_chain L) E gw rs" and "float_free (tc_args call)"
    and "decide_call (check_ctx L P J rep dbg) E call gw = (gw', Inr d)"
  shows "same_setup gw gw' \<and> (\<exists>s. gt_store gw' = Some s \<and> fs_inv L s \<and> fs_chain L s = rs @ [dc_record d]) \<and>
    decided_on (check_ctx L P J rep dbg) gw call (dc_record d) (dc_verdict d)"
proof -
  have "rfs.uses L (check_ctx L P J rep dbg)" by (simp add: rfs.uses_def check_ctx_def)
  from rfs.decide_call_at [OF this assms] show ?thesis
    by (auto simp: gw_at_def fs_from_def decided_on_def split: option.splits)
qed

text \<open>
  C10. Claude Code is told to go on only when the decision is on record: when the hook of a tool about to
  run exits with 0, the ledger has one more record, the decision of the policy on exactly this call,
  and that decision allows or redacts it, or asks and was approved in the console or is handed to
  Claude Code's own prompt.  Every other outcome, errors included, is an answer of \<open>deny\<close> with
  exit code 2.
\<close>

theorem claude_pre_fails_closed:
  assumes "gw_at (fs_from L F) (fs_chain L) E gw rs" and "float_free p"
    and "cc_pre (check_ctx L P J rep dbg) E cap p gw = (gw', out)"
  shows "(co_code out = EXIT_NO_DISPATCH \<and> (\<exists>why. co_stdout out = co_stdout (claude_pre ''deny'' why EXIT_NO_DISPATCH))) \<or>
    (co_code out = EXIT_DISPATCH \<and> (\<exists>call s r v. cc_call E p = Inr call \<and> gt_store gw' = Some s \<and>
       fs_chain L s = rs @ [r] \<and> decided_on (check_ctx L P J rep dbg) gw call r v \<and>
       (runs (gt_ask gw) (he_await E r ''claude-code'' (Some cap)) v \<or>
        is_ask v \<and> gt_ask gw = AskDefer \<and> (\<exists>why. co_stdout out = co_stdout (claude_pre ''ask'' why EXIT_DISPATCH)))))"
proof (cases "cc_call E p")
  case (Inl e)
  with assms(3) show ?thesis by (auto simp: cc_pre_def pre_error_def claude_pre_def)
next
  case (Inr call)
  let ?H = "check_ctx L P J rep dbg"
  obtain gw1 x where x: "decide_call ?H E call gw = (gw1, x)" by fastforce
  show ?thesis
  proof (cases x)
    case (Inl e)
    with assms(3) Inr x show ?thesis by (auto simp: cc_pre_def pre_error_def claude_pre_def)
  next
    case d: (Inr d)
    let ?ui = "he_await E (dc_record d) ''claude-code'' (Some cap)"
    note rec = decide_call_recorded [OF assms(1) cc_call_args [OF Inr assms(2)] x [unfolded d]]
    have out: "gw' = gw1" "out = cc_answer (gt_ask gw) ?ui (dc_verdict d)"
      using assms(3) Inr x d rec by (auto simp: cc_pre_def same_setup_def)
    show ?thesis
    proof (cases "runs (gt_ask gw) ?ui (dc_verdict d)")
      case True
      then have "co_code out = EXIT_DISPATCH" using out(2) cc_answer_dispatch by simp
      with True Inr out(1) rec show ?thesis by blast
    next
      case False
      then have "(is_ask (dc_verdict d) \<and> gt_ask gw = AskDefer \<and> co_code out = EXIT_DISPATCH \<and>
            (\<exists>why. co_stdout out = co_stdout (claude_pre ''ask'' why EXIT_DISPATCH))) \<or>
          (co_code out = EXIT_NO_DISPATCH \<and> (\<exists>why. co_stdout out = co_stdout (claude_pre ''deny'' why EXIT_NO_DISPATCH)))"
        unfolding out(2)
        by (cases "(gt_ask gw, ?ui, dc_verdict d)" rule: cc_answer.cases) (auto simp: runs_def claude_pre_def)
      with Inr out(1) rec show ?thesis by blast
    qed
  qed
qed

text \<open>The answer of \<open>decide\<close>, over a gateway whose ledger holds \<open>rs\<close>.\<close>

lemma op_decide_cases:
  assumes "gw_at (fs_from L F) (fs_chain L) E gw rs" and "float_free (JObj obj)"
    and "op_decide (check_ctx L P J rep dbg) E obj gw = (gw', x)"
  obtains e where "x = Inl e" "gw_at (fs_from L F) (fs_chain L) E gw' rs"
  | call and d :: decided and entries who disp s where "gt_store gw' = Some s" "fs_inv L s" "fs_chain L s = rs @ [dc_record d]"
      "decided_on (check_ctx L P J rep dbg) gw call (dc_record d) (dc_verdict d)"
      "decide_answer (gt_ask gw) (he_await E (dc_record d) ''writ'' None) (dc_verdict d) = (entries, who, disp)"
      "x = Inr (btree ([(''call_id'', JStr (tc_call_id call))] @ entries @
        [(''dispatch'', JBool disp), (''ref'', JStr (make_ref (dc_record d) who))]), exit_code disp)"
proof -
  let ?H = "check_ctx L P J rep dbg"
  obtain gw1 c where c: "parse_call E (map_of obj ''call'') gw = (gw1, c)" by fastforce
  note keep = parse_call_keeps [OF c]
  then have at: "gw_at (fs_from L F) (fs_chain L) E gw1 rs" using assms(1) by (simp add: gw_at_def)
  show thesis
  proof (cases c)
    case (Inl e)
    with assms(3) c at that(1) show thesis by (auto simp: op_decide_def)
  next
    case (Inr call)
    then have ff: "float_free (tc_args call)" using parse_call_args c float_free_get [OF assms(2)] by blast
    obtain gw2 y where y: "decide_call ?H E call gw1 = (gw2, y)" by fastforce
    show thesis
    proof (cases y)
      case e: (Inl e)
      have "rfs.uses L ?H" by (simp add: rfs.uses_def check_ctx_def)
      from rfs.decide_call_at [OF this at ff y] e assms(3) c Inr y that(1) show thesis by (auto simp: op_decide_def)
    next
      case d: (Inr d)
      note rec = decide_call_recorded [OF at ff y [unfolded d]]
      have call: "dc_call d = call" using y d by (auto simp: decide_call_def sbind_def Let_def split: prod.splits sum.splits)
      have ask: "gt_ask gw2 = gt_ask gw" using rec keep by (simp add: same_setup_def)
      obtain entries who disp where a: "decide_answer (gt_ask gw) (he_await E (dc_record d) ''writ'' None) (dc_verdict d) = (entries, who, disp)"
        by (metis prod_cases3)
      have b: "gw' = gw2" "x = Inr (btree ([(''call_id'', JStr (tc_call_id call))] @ entries @
          [(''dispatch'', JBool disp), (''ref'', JStr (make_ref (dc_record d) who))]), exit_code disp)"
        using assms(3) c Inr y d a call ask by (auto simp: op_decide_def)
      moreover have "decided_on ?H gw call (dc_record d) (dc_verdict d)" using rec keep by (auto simp: decided_on_def same_setup_def)
      moreover obtain s where s: "gt_store gw2 = Some s" "fs_inv L s" "fs_chain L s = rs @ [dc_record d]" using rec by blast
      ultimately show thesis using that(2) [OF _ s(2,3) _ a] by simp
    qed
  qed
qed

lemma decide_answer_entries:
  assumes "decide_answer m ui v = (entries, who, disp)"
  shows "(''call_id'', j) \<notin> set entries" "disp = runs m ui v"
  using assms decide_answer_dispatch [of m ui v]
  by (cases "(m, ui, v)" rule: decide_answer.cases; auto simp: deny_entries_def split: option.splits)+

text \<open>
  An adapter is told to dispatch only when the decision is on record: an answer of \<open>decide\<close> has
  added one record, the decision of the policy on the call it names, and says to dispatch (exit code
  0) exactly when that decision lets the call run.  An error (exit code 1) has added none.
\<close>

theorem decide_dispatch_recorded:
  assumes "gw_at (fs_from L F) (fs_chain L) E gw rs" and "float_free (JObj obj)"
    and "op_decide (check_ctx L P J rep dbg) E obj gw = (gw', x)"
  shows "case x of
      Inl e \<Rightarrow> gw_at (fs_from L F) (fs_chain L) E gw' rs
    | Inr (body, status) \<Rightarrow> \<exists>call s r v. gt_store gw' = Some s \<and> fs_inv L s \<and> fs_chain L s = rs @ [r] \<and>
        decided_on (check_ctx L P J rep dbg) gw call r v \<and> map_of body ''call_id'' = Some (JStr (tc_call_id call)) \<and>
        status = (if runs (gt_ask gw) (he_await E r ''writ'' None) v then EXIT_DISPATCH else EXIT_NO_DISPATCH) \<and>
        map_of body ''dispatch'' = Some (JBool (status = EXIT_DISPATCH))"
proof (rule op_decide_cases [OF assms], goal_cases)
  case (2 call d entries who disp s)
  have "map_of (rev entries) ''call_id'' = None"
    using decide_answer_entries(1) [OF 2(5)] by (auto simp: map_of_eq_None_iff)
  with 2 decide_answer_entries(2) [OF 2(5)] show ?thesis
    by (auto simp: exit_code_def map_of_btree map_add_def)
qed simp

section \<open>Masked output\<close>


section \<open>One answer per request\<close>

text \<open>The request lines of an input: the last may lack its newline.\<close>

function input_lines :: "bytes \<Rightarrow> bytes list" where
  "input_lines b = (if b = [] then [] else read_until_nl b # input_lines (drop (length (read_until_nl b)) b))"
  by pat_completeness auto
termination
  by (relation "measure length") auto

declare input_lines.simps [simp del]

lemma take_read_until_nl: "take (length (read_until_nl b)) b = read_until_nl b"
  by (induction b) auto

lemma read_until_nl_rest: "read_until_nl b @ drop (length (read_until_nl b)) b = b"
  using append_take_drop_id [of "length (read_until_nl b)" b] by (simp only: take_read_until_nl)

lemma concat_input_lines: "concat (input_lines b) = b"
proof (induction b rule: input_lines.induct)
  case (1 b)
  then show ?case by (subst input_lines.simps) (simp add: read_until_nl_rest)
qed

text \<open>Answering lines one at a time.\<close>

fun serve_lines :: "'s hook_ctx \<Rightarrow> (nat \<Rightarrow> 's hook_env) \<Rightarrow> nat \<Rightarrow> bytes list \<Rightarrow> 's gateway \<Rightarrow> 's gateway \<times> json list" where
  "serve_lines H Es n [] gw = (gw, [])"
| "serve_lines H Es n (line # ls) gw =
     (let (gw1, out) = (if \<not> is_utf8 line then (gw, [gw_error_response JNull (bad_request ''request line is not UTF-8'')])
                        else if trim line = [] then (gw, [])
                        else let (gw1, resp, _) = handle_line H (Es n) (trim line) gw in (gw1, [resp]));
          (gw2, rest) = serve_lines H Es (Suc n) ls gw1
      in (gw2, out @ rest))"

lemma serve_stdio_lines: "serve_stdio H Es n input gw = serve_lines H Es n (input_lines input) gw"
proof (induction "length input" arbitrary: n input gw rule: less_induct)
  case less
  show ?case
  proof (cases "input = []")
    case True
    then show ?thesis by (simp add: serve_stdio.simps input_lines.simps)
  next
    case False
    let ?rest = "drop (length (read_until_nl input)) input"
    have l: "input_lines input = read_until_nl input # input_lines ?rest"
      using False by (subst input_lines.simps) simp
    have IH: "serve_stdio H Es m ?rest g = serve_lines H Es m (input_lines ?rest) g" for m g
      using False by (intro less) simp
    show ?thesis
      unfolding l using False by (subst serve_stdio.simps) (simp add: IH Let_def case_prod_beta)
  qed
qed

definition blank_line :: "bytes \<Rightarrow> bool" where
  "blank_line line \<longleftrightarrow> is_utf8 line \<and> trim line = []"

lemma serve_lines_length:
  "length (snd (serve_lines H Es n ls gw)) = length (filter (\<lambda>line. \<not> blank_line line) ls)"
  by (induction H Es n ls gw rule: serve_lines.induct) (auto simp: Let_def case_prod_beta blank_line_def)

text \<open>
  C36. \<open>writ check --stdio\<close> stops at the end of any input, having read all of it, and has answered
  every line that is not blank exactly once and in order: a line that is not UTF-8 with an error,
  any other with the answer \<open>handle_line\<close> gives in the state the earlier requests have left.
\<close>

theorem serve_stdio_answers:
  "serve_stdio H Es n input gw = serve_lines H Es n (input_lines input) gw \<and> concat (input_lines input) = input \<and>
   length (snd (serve_stdio H Es n input gw)) =
     length (filter (\<lambda>line. \<not> blank_line line) (input_lines input))"
  by (simp add: serve_stdio_lines serve_lines_length concat_input_lines)

section \<open>References carry their approver\<close>

text \<open>
  References are read back as they were made: the index, the hash and the approver of a ledger
  record, for any approver with a non-empty id.
\<close>

theorem ref_roundtrip:
  assumes "index rec \<le> u64_max" and "length (record_hash rec) = 64" and "list_all is_lower_hex (record_hash rec)"
    and "\<And>w. a = Some w \<Longrightarrow> is_utf8 (apr_id w) \<and> apr_id w \<noteq> []"
  shows "parse_ref (Some (JStr (make_ref rec a))) = Inr \<lparr>rf_index = index rec, rf_hash = record_hash rec, rf_approver = a\<rparr>"
  using assms by (rule parse_make_ref)

text \<open>
  The approver of a reference is not checked against anything: whoever holds the reference of an open
  ask can write one with any approver, and \<open>complete\<close> takes it as the approval.
\<close>

lemma complete_trusts_ref_approver:
  assumes "index d \<le> u64_max" and "length (record_hash d) = 64" and "list_all is_lower_hex (record_hash d)"
    and "rverdict d = Some (Ask rid diff tmo irr loc)" and "rapprover d = None" and "is_utf8 (apr_id who)" and "apr_id who \<noteq> []"
  shows "\<exists>r. parse_ref (Some (JStr (make_ref d (Some who)))) = Inr r \<and> rf_index r = index d \<and> rf_hash r = record_hash d \<and>
    completable d (rf_approver r) = Inr None"
  using parse_make_ref [OF assms(1-3), of "Some who"] assms(4-7) by (simp add: completable_def)

section \<open>A concrete gateway\<close>

definition demo_hook :: "fstore hook_ctx" where
  "demo_hook = check_ctx num_deps example_deps demo_rpc (\<lambda>p t r. if str_contains t p then r else t) (\<lambda>s. s)"

definition demo_hook_gateway :: "fstore gateway" where
  "demo_hook_gateway = \<lparr>gt_engine = Inr \<lparr>eng_policy = example_compiled\<rparr>, gt_store = None, gt_ask = AskDefer,
     gt_backend = ''hook'', gt_seq = 0\<rparr>"

definition demo_hook_env :: "fstore hook_env" where
  "demo_hook_env = \<lparr>he_open = opened (fs_open num_deps ''l'' ''l.lock'' LockAcquired []), he_clock = (\<lambda>_. from_epoch_ms 0),
     he_pid = 1, he_user = None, he_await = (\<lambda>_ _ _. UiDenied ''no console''), he_console = (\<lambda>_. None)\<rparr>"

definition demo_decide :: "(str \<times> json) list" where
  "demo_decide = [(''call'', JObj [(''session_id'', JStr ''s''), (''tool'', JStr ''ls'')]), (''op'', JStr ''decide''), (''v'', JNum (PosInt 1))]"

definition demo_payload :: json where
  "demo_payload = JObj [(''session_id'', JStr ''s''), (''tool_name'', JStr ''Bash''), (''tool_use_id'', JStr ''t'')]"

lemma demo_hook_at: "gw_at (fs_from num_deps []) (fs_chain num_deps) demo_hook_env demo_hook_gateway []"
  using fs_from_opened [OF serde_laws_num_deps, of "[]" "[]" "''l''" "''l.lock''" LockAcquired]
  by (simp add: gw_at_def demo_hook_gateway_def demo_hook_env_def file_ok_def)

lemma demo_line_float_free:
  "json_from_str demo_rpc (json_to_string demo_rpc (JObj demo_decide)) = Inr j \<Longrightarrow> float_free j"
  using rpc_laws_demo by (auto simp: rpc_laws_def demo_decide_def)


theorem claude_pre_fails_closed_witness:
  "\<exists>gw' out. cc_pre demo_hook demo_hook_env 5 demo_payload demo_hook_gateway = (gw', out) \<and>
    ((co_code out = EXIT_NO_DISPATCH \<and> (\<exists>why. co_stdout out = co_stdout (claude_pre ''deny'' why EXIT_NO_DISPATCH))) \<or>
     (co_code out = EXIT_DISPATCH \<and> (\<exists>call s r. cc_call demo_hook_env demo_payload = Inr call \<and> gt_store gw' = Some s \<and>
       fs_chain num_deps s = [r] \<and> rcall r = Some call)))"
proof -
  obtain gw' out where c: "cc_pre demo_hook demo_hook_env 5 demo_payload demo_hook_gateway = (gw', out)" by fastforce
  have "float_free demo_payload" by (simp add: demo_payload_def)
  from claude_pre_fails_closed [OF demo_hook_at this c [unfolded demo_hook_def]] c show ?thesis
    by (simp add: decided_on_def) blast
qed

theorem decide_dispatch_recorded_witness:
  "\<exists>gw' x. op_decide demo_hook demo_hook_env demo_decide demo_hook_gateway = (gw', x) \<and>
    (case x of Inl e \<Rightarrow> gw_at (fs_from num_deps []) (fs_chain num_deps) demo_hook_env gw' []
     | Inr (body, status) \<Rightarrow> \<exists>call s r. gt_store gw' = Some s \<and> fs_chain num_deps s = [r] \<and> rcall r = Some call \<and>
        map_of body ''dispatch'' = Some (JBool (status = EXIT_DISPATCH)))"
proof -
  obtain gw' x where c: "op_decide demo_hook demo_hook_env demo_decide demo_hook_gateway = (gw', x)" by fastforce
  have "float_free (JObj demo_decide)" by (simp add: demo_decide_def)
  from decide_dispatch_recorded [OF demo_hook_at this c [unfolded demo_hook_def]] c show ?thesis
    by (auto simp: decided_on_def split: sum.splits)
qed


definition ref_record :: ledger_record where
  "ref_record = (decision_record (from_epoch_ms 0) example_call (Allow None) None 7 [] [])\<lparr>record_hash := replicate 64 CHR ''a''\<rparr>"

theorem ref_roundtrip_witness:
  "parse_ref (Some (JStr (make_ref ref_record (Some \<lparr>apr_kind = Tui, apr_id = ''ann''\<rparr>)))) =
     Inr \<lparr>rf_index = 7, rf_hash = replicate 64 CHR ''a'', rf_approver = Some \<lparr>apr_kind = Tui, apr_id = ''ann''\<rparr>\<rparr>"
proof -
  have r: "index ref_record = 7" "record_hash ref_record = replicate 64 CHR ''a''"
    by (simp_all add: ref_record_def decision_record_def)
  have "is_lower_hex CHR ''a''" "is_utf8 ''ann''" by code_simp+
  with ref_roundtrip [of ref_record "Some \<lparr>apr_kind = Tui, apr_id = ''ann''\<rparr>"] r show ?thesis
    by (simp add: u64_max_def list_all_iff)
qed

end
