(* ===== verification/Approval_Claims.thy ===== *)
theory Approval_Claims
  imports Approvals Hook_Claims
begin

text \<open>
  What the approval queue guarantees: an approval is a decision of the console on exactly this record,
  every wait ends, the console's own approvals are accepted, and a call the gateway lets run because of the
  console was confirmed there.
\<close>

section \<open>What an approval rests on\<close>

definition approved_by :: "ui_deps \<Rightarrow> ui_env \<Rightarrow> ledger_record \<Rightarrow> approver_identity \<Rightarrow> nat \<Rightarrow> bool" where
  "approved_by U V rec who n \<longleftrightarrow>
     (\<exists>b d. ue_decision V n = Some b \<and> ud_parse_decision U b = Some d \<and> cd_id d = request_file_id rec \<and>
        cd_record_hash d = record_hash rec \<and> cd_approved d \<and> web_approver U (cd_approver d) = Some who)"

lemma answer_of_approved:
  assumes "read_decision U (ue_decision V n) = Some d" and "answer_of U rec rid d = UiApproved who"
  shows "approved_by U V rec who n"
  using assms by (cases "ue_decision V n") (auto simp: answer_of_def approved_by_def read_decision_def split: if_splits option.splits)

lemma await_loop_approved:
  assumes "await_loop U V rec rid wait n i lst = Some (UiApproved who)"
  shows "\<exists>k\<ge>n. approved_by U V rec who k \<and> (\<forall>j. n \<le> j \<and> j < k \<longrightarrow> read_decision U (ue_decision V j) = None)"
proof -
  let ?P = "\<lambda>U V rec rid wait n i lst r. \<forall>who. r = UiApproved who \<longrightarrow>
      (\<exists>k\<ge>n. approved_by U V rec who k \<and> (\<forall>j. n \<le> j \<and> j < k \<longrightarrow> read_decision U (ue_decision V j) = None))"
  have "?P U V rec rid wait n i lst (UiApproved who)"
  proof (rule await_loop.raw_induct [where P = ?P], goal_cases)
    case (1 loop U V rec rid wait n i lst r)
    show ?case
    proof (intro allI impI)
      fix who
      assume r: "r = UiApproved who"
      show "\<exists>k\<ge>n. approved_by U V rec who k \<and> (\<forall>j. n \<le> j \<and> j < k \<longrightarrow> read_decision U (ue_decision V j) = None)"
      proof (cases "read_decision U (ue_decision V n)")
        case (Some d)
        with 1(2) r answer_of_approved [OF Some] show ?thesis by (intro exI [of _ n]) auto
      next
        case None
        then obtain i' lst' where "loop U V rec rid wait (n + 1) i' lst' = Some (UiApproved who)"
          using 1(2) r by (auto split: if_splits)
        from 1(1) [OF this] obtain k where k: "k \<ge> n + 1" "approved_by U V rec who k"
            "\<forall>j. n + 1 \<le> j \<and> j < k \<longrightarrow> read_decision U (ue_decision V j) = None" by blast
        have "read_decision U (ue_decision V j) = None" if "n \<le> j" "j < k" for j
          using that k(3) None by (cases "j = n") auto
        with k show ?thesis by (intro exI [of _ k]) auto
      qed
    qed
  qed (rule assms)
  then show ?thesis by blast
qed

lemma await_decision_approved:
  assumes "await_decision U V rec format cap q = Some (q', UiApproved who)"
  shows "is_ask (the (rverdict rec)) \<and> beating U V 0 \<and> (\<forall>dir. ue_ledger_dir V = Inr dir \<longrightarrow> \<not> prefix dir (ue_console_path V)) \<and>
    (\<exists>k. approved_by U V rec who k \<and> (\<forall>j<k. read_decision U (ue_decision V j) = None))"
proof -
  obtain r where "await_inner U V rec format cap q = Some (q', r)"
      "UiApproved who = (case r of Inr d \<Rightarrow> d | Inl e \<Rightarrow> UiDenied (''`--ask ui` could not reach the writ ui console: '' @ e @ '' (fail closed)''))"
    using assms by (auto simp: await_decision_def)
  then have "is_ask (the (rverdict rec)) \<and> beating U V 0 \<and> (\<forall>dir. ue_ledger_dir V = Inr dir \<longrightarrow> \<not> prefix dir (ue_console_path V)) \<and>
      (\<exists>rid wait. await_loop U V rec rid wait 0 2 (ue_mono V 1) = Some (UiApproved who))"
    by (auto simp: await_inner_def Let_def split: option.splits verdict.splits sum.splits if_splits)
  then show ?thesis using await_loop_approved [of U V rec _ _ 0] by blast
qed


section \<open>Every wait ends\<close>

lemma mono_le: "(\<forall>i. ue_mono V i \<le> ue_mono V (Suc i)) \<Longrightarrow> i \<le> j \<Longrightarrow> ue_mono V i \<le> ue_mono V j"
  by (rule lift_Suc_mono_le) auto

lemma await_loop_ends:
  assumes "\<forall>i. ue_mono V i \<le> ue_mono V (Suc i)" and "millis wait \<le> ue_mono V m - ue_mono V 0"
  shows "\<exists>d. await_loop U V rec rid wait n i lst = Some d"
proof (induction "m - i" arbitrary: n i lst rule: less_induct)
  case less
  show ?case
  proof (cases "read_decision U (ue_decision V n)")
    case None
    show ?thesis
    proof (cases "ue_mono V i - ue_mono V 0 \<ge> millis wait")
      case False
      then have "i < m" using assms mono_le [OF assms(1), of m i] by (metis diff_le_mono le_trans not_le)
      then have "\<exists>d. await_loop U V rec rid wait (n + 1) (i + 4) l = Some d" "\<exists>d. await_loop U V rec rid wait (n + 1) (i + 3) l = Some d" for l
        by (intro less; simp)+
      with None False show ?thesis by (subst await_loop.simps) auto
    qed (use None in \<open>subst await_loop.simps, auto\<close>)
  qed (subst await_loop.simps, auto)
qed

lemma await_decision_ends:
  assumes "\<forall>i. ue_mono V i \<le> ue_mono V (Suc i)" and "\<forall>t. \<exists>i. t \<le> ue_mono V i"
  shows "\<exists>q' d. await_decision U V rec format cap q = Some (q', d)"
proof -
  have "\<exists>d. await_loop U V rec rid wait 0 2 lst = Some d" for rid wait lst
  proof -
    obtain m where "millis wait + ue_mono V 0 \<le> ue_mono V m" using assms(2) by blast
    then show ?thesis using await_loop_ends [OF assms(1), of wait m] by simp
  qed
  then have "\<exists>z. await_inner U V rec format cap q = Some z"
    by (fastforce simp: await_inner_def Let_def split: option.splits verdict.splits sum.splits)
  then show ?thesis by (auto simp: await_decision_def)
qed


section \<open>The console's approvals are accepted\<close>

text \<open>Characters: the first may be anything, the others start with a byte that starts a character.\<close>

definition char_bytes :: "str \<Rightarrow> bool" where
  "char_bytes ch \<longleftrightarrow> (\<exists>c s. ch = c # s \<and> list_all is_continuation s)"

definition chars_ok :: "str list \<Rightarrow> bool" where
  "chars_ok chs \<longleftrightarrow> list_all char_bytes chs \<and> list_all (\<lambda>ch. \<not> is_continuation (hd ch)) (tl chs)"

lemma chars_of_shape: "list_all char_bytes (chars_of s) \<and> (\<forall>ch\<in>set (tl (chars_of s)). \<not> is_continuation (hd ch)) \<and>
   (s \<noteq> [] \<longrightarrow> hd (hd (chars_of s)) = hd s)"
proof (induction s rule: chars_of.induct)
  case (2 c s)
  have h: "\<not> is_continuation (hd (dropWhile is_continuation s))" if "dropWhile is_continuation s \<noteq> []"
    using that hd_dropWhile by blast
  have "\<not> is_continuation (hd ch)" if "ch \<in> set (chars_of (dropWhile is_continuation s))" for ch
  proof (cases "dropWhile is_continuation s")
    case Nil
    with that show ?thesis by simp
  next
    case (Cons d t)
    with 2 h that show ?thesis by (cases "chars_of (dropWhile is_continuation s)") auto
  qed
  moreover have "list_all is_continuation (takeWhile is_continuation s)" by (auto simp: list_all_iff dest: set_takeWhileD)
  ultimately show ?case using 2 by (auto simp: char_bytes_def list_all_iff)
qed simp

lemma chars_ok_chars_of: "chars_ok (chars_of s)"
  using chars_of_shape [of s] by (auto simp: chars_ok_def list_all_iff)

lemma chars_ok_sub:
  assumes "chars_ok chs"
  shows "chars_ok (filter P chs)" "chars_ok (take n chs)"
proof -
  have tl: "set (tl ys) \<subseteq> set ys" for ys :: "str list" by (cases ys) auto
  have "set (tl (filter P chs)) \<subseteq> set (tl chs)" using tl [of "filter P (tl chs)"] by (cases chs) auto
  moreover have "set (tl (take n chs)) \<subseteq> set (tl chs)" by (cases chs; cases n) (auto dest: in_set_takeD)
  ultimately show "chars_ok (filter P chs)" "chars_ok (take n chs)"
    using assms by (auto simp: chars_ok_def list_all_iff dest: in_set_takeD)
qed

lemma while_stops: "ys = [] \<or> \<not> P (hd ys) \<Longrightarrow> takeWhile P ys = [] \<and> dropWhile P ys = ys"
  by (cases ys) auto

lemma chars_of_concat: "chars_ok chs \<Longrightarrow> chars_of (concat chs) = chs"
proof (induction chs)
  case (Cons ch chs)
  obtain c s where ch: "ch = c # s" "list_all is_continuation s" using Cons.prems by (auto simp: chars_ok_def char_bytes_def)
  have "chars_ok chs" using Cons.prems by (cases chs) (auto simp: chars_ok_def)
  moreover have "takeWhile is_continuation (s @ concat chs) = s" "dropWhile is_continuation (s @ concat chs) = concat chs"
  proof -
    have "concat chs = [] \<or> \<not> is_continuation (hd (concat chs))"
    proof (cases chs)
      case (Cons ch' chs')
      with Cons.prems have "\<not> is_continuation (hd ch')" "ch' \<noteq> []" by (auto simp: chars_ok_def char_bytes_def)
      with Cons show ?thesis by simp
    qed simp
    from while_stops [where P = is_continuation, OF this] ch(2) show "takeWhile is_continuation (s @ concat chs) = s" "dropWhile is_continuation (s @ concat chs) = concat chs"
      by (simp_all add: list_all_iff takeWhile_append2 dropWhile_append2)
  qed
  ultimately show ?case using Cons.IH ch(1) by simp
qed simp

text \<open>The user name as the console records it.\<close>

definition console_user :: "ui_deps \<Rightarrow> (str \<rightharpoonup> str) \<Rightarrow> str" where
  "console_user U var =
     concat (take 64 (filter (user_char U) (chars_of
       (case var ''USER'' of Some u \<Rightarrow> u | None \<Rightarrow> (case var ''USERNAME'' of Some u \<Rightarrow> u | None \<Rightarrow> ''local-user'')))))"

lemma local_user_ok: "list_all (user_char U) (chars_of ''local-user'')"
  by (simp add: is_continuation_def code_def user_char_def is_ascii_alphanumeric_def is_ascii_digit_def)

lemma console_approver_user: "console_approver U var = APPROVER_PREFIX @ (if console_user U var = [] then ''local-user'' else console_user U var)"
  by (simp only: console_approver_def console_user_def Let_def)

lemma web_approver_console:
  "web_approver U (console_approver U var) =
     (if length (console_user U var) \<le> 128 then Some \<lparr>apr_kind = Tui, apr_id = console_approver U var\<rparr> else None)"
proof -
  let ?u = "console_user U var"
  have "list_all (user_char U) (chars_of ?u)"
    unfolding console_user_def
    by (subst chars_of_concat) (auto simp: chars_ok_sub chars_ok_chars_of list_all_iff dest: in_set_takeD)
  then show ?thesis using local_user_ok
    by (auto simp: web_approver_def strip_prefix_append console_approver_user)
qed

text \<open>
  What the console approves, the gateway accepts: after the console has written an approval for a
  record, both the waiting hook and the hook after the tool take it as the approval of the console's
  user, as long as the name of that user is not longer than 128 bytes.
\<close>

theorem console_approval_accepted:
  assumes "write_decision U var now (Inr ()) (request_file_id rec) (record_hash rec) True files = (files', Inr d)"
    and "\<And>d. ud_parse_decision U (ud_ser_decision U d) = Some d" and "length (console_user U var) \<le> 128"
    and "ue_decision V 0 = files' (decision_path (request_file_id rec))"
  shows "console_approval U (Inr console) files' rec = Some \<lparr>apr_kind = Tui, apr_id = console_approver U var\<rparr> \<and>
    await_loop U V rec rid wait 0 i beat = Some (UiApproved \<lparr>apr_kind = Tui, apr_id = console_approver U var\<rparr>)"
proof -
  have f: "files' (decision_path (request_file_id rec)) = Some (ud_ser_decision U d)"
    and d: "cd_id d = request_file_id rec" "cd_record_hash d = record_hash rec" "cd_approved d" "cd_approver d = console_approver U var"
    using assms(1) by (auto simp: write_decision_def Let_def)
  have r: "read_decision U (files' (decision_path (request_file_id rec))) = Some d" using f assms(2) by (simp add: read_decision_def)
  then have "read_decision U (ue_decision V 0) = Some d" using assms(4) by simp
  with r d assms(3) show ?thesis
    by (subst await_loop.simps) (simp add: console_approval_def answer_of_def web_approver_console)
qed

text \<open>
  A user name of more than 42 letters of three bytes makes every approval of the console void: the
  console cuts the name to 64 characters, the gateway accepts 128 bytes.
\<close>

lemma long_user_names_never_approve:
  assumes "var ''USER'' = Some (concat (replicate 43 ch))" and "length ch = 3" and "char_bytes ch" and "\<not> is_continuation (hd ch)"
    and "user_char U ch"
  shows "web_approver U (console_approver U var) = None"
proof -
  have "chars_ok (replicate 43 ch)" using assms(3,4) by (simp add: chars_ok_def list_all_iff)
  then have "console_user U var = concat (replicate 43 ch)"
    using assms(1,5) by (simp add: console_user_def chars_of_concat)
  then have "length (console_user U var) = 129"
    using assms(2) by (simp add: length_concat sum_list_replicate)
  then show ?thesis by (simp add: web_approver_console)
qed

section \<open>The gateway with its console\<close>

text \<open>
  C20. With \<open>--ask ui\<close> nothing that needs approval runs without the console: when \<open>decide\<close> tells an adapter to dispatch
  and the verdict was to ask, the console's decision file named exactly the decision record that has
  just been written, and approved it.
\<close>

theorem ui_dispatch_confirmed:
  assumes "gw_at (fs_from L F) (fs_chain L) E gw rs" and "float_free (JObj obj)" and "gt_ask gw = AskUi"
    and "op_decide (check_ctx L P J rep dbg) E obj gw = (gw', x)"
    and "\<And>r. \<exists>q'. await_decision U V r ''writ'' None q = Some (q', he_await E r ''writ'' None)"
  shows "case x of Inl e \<Rightarrow> True | Inr (body, status) \<Rightarrow>
    \<exists>s r. gt_store gw' = Some s \<and> fs_chain L s = rs @ [r] \<and>
      (status = EXIT_DISPATCH \<and> is_ask (the (rverdict r)) \<longrightarrow>
        (\<exists>who k. he_await E r ''writ'' None = UiApproved who \<and> approved_by U V r who k))"
proof (rule op_decide_cases [OF assms(1,2,4)], goal_cases)
  case (2 call d entries who disp s)
  have v: "rverdict (dc_record d) = Some (dc_verdict d)" using 2(4) by (simp add: decided_on_def)
  have "\<exists>who k. he_await E (dc_record d) ''writ'' None = UiApproved who \<and> approved_by U V (dc_record d) who k"
    if ask: "is_ask (dc_verdict d)" "exit_code disp = EXIT_DISPATCH"
  proof -
    have "disp" using ask(2) by (cases disp) (simp_all add: exit_code_def)
    then have run: "runs AskUi (he_await E (dc_record d) ''writ'' None) (dc_verdict d)"
      using decide_answer_entries(2) [OF 2(5)] assms(3) by simp
    obtain who where w: "he_await E (dc_record d) ''writ'' None = UiApproved who"
      using run ask by (cases "dc_verdict d") (auto simp: runs_def)
    with assms(5) [of "dc_record d"] await_decision_approved [of U V "dc_record d"] show ?thesis by metis
  qed
  with 2 v show ?case by auto
qed simp

section \<open>A concrete console\<close>

text \<open>Messages told apart by the tokens of a countable type stand for their JSON texts.\<close>

definition demo_ui :: ui_deps where
  "demo_ui = \<lparr>ud_ser_request = (\<lambda>_. []), ud_parse_request = (\<lambda>_. None),
     ud_ser_decision = (\<lambda>d. braced (to_nat (cd_v d, cd_id d, cd_record_hash d, cd_approved d, cd_approver d, cd_decided_ms d))),
     ud_parse_decision = (\<lambda>b. if \<exists>n. b = braced n
        then (case from_nat (THE n. b = braced n) of (v, i, h, a, w, t) \<Rightarrow>
          Some \<lparr>cd_v = v, cd_id = i, cd_record_hash = h, cd_approved = a, cd_approver = w, cd_decided_ms = t\<rparr>) else None),
     ud_parse_beat = (\<lambda>b. Some \<lparr>hb_pid = 1, hb_port = 1, hb_started_ms = 0, hb_updated_ms = 0, hb_ledger = b\<rparr>),
     ud_decided_ms = (\<lambda>_. None), ud_alnum = (\<lambda>_. False)\<rparr>"

lemma demo_ui_roundtrip: "ud_parse_decision demo_ui (ud_ser_decision demo_ui d) = Some d"
  by (simp add: demo_ui_def braced_inject)

definition demo_user :: "str \<rightharpoonup> str" where
  "demo_user = [''USER'' \<mapsto> ''ann'']"

definition ask_record :: ledger_record where
  "ask_record = ref_record\<lparr>rverdict := Some (Ask ''r'' ''why'' None False None)\<rparr>"

definition demo_ui_env :: "bytes option \<Rightarrow> ui_env" where
  "demo_ui_env b = \<lparr>ue_console = Inr ''/state/writ'', ue_console_path = [''state'', ''writ''], ue_ledger_dir = Inr [''work''], ue_cwd = [],
     ue_pending = Inr (), ue_now = (\<lambda>_. from_epoch_ms 0), ue_process = 1, ue_write = Inr (), ue_mono = (\<lambda>i. i * millis 60000),
     ue_beat = (\<lambda>_. Some []), ue_decision = (\<lambda>_. b)\<rparr>"

lemma demo_ui_clock:
  "\<forall>i. ue_mono (demo_ui_env b) i \<le> ue_mono (demo_ui_env b) (Suc i)" "\<forall>t. \<exists>i. t \<le> ue_mono (demo_ui_env b) i"
proof -
  show "\<forall>i. ue_mono (demo_ui_env b) i \<le> ue_mono (demo_ui_env b) (Suc i)" by (simp add: demo_ui_env_def)
  have "t \<le> ue_mono (demo_ui_env b) t" for t by (simp add: demo_ui_env_def millis_def)
  then show "\<forall>t. \<exists>i. t \<le> ue_mono (demo_ui_env b) i" by blast
qed



theorem console_approval_accepted_witness:
  "\<exists>files' d. write_decision demo_ui demo_user (from_epoch_ms 0) (Inr ()) (request_file_id ask_record) (record_hash ask_record) True Map.empty
      = (files', Inr d) \<and>
    console_approval demo_ui (Inr ''c'') files' ask_record = Some \<lparr>apr_kind = Tui, apr_id = ''web-console:ann''\<rparr>"
proof -
  obtain files' d where w: "write_decision demo_ui demo_user (from_epoch_ms 0) (Inr ()) (request_file_id ask_record) (record_hash ask_record) True Map.empty
      = (files', Inr d)" by (auto simp: write_decision_def Let_def)
  have u: "console_user demo_ui demo_user = ''ann''"
    by (simp add: console_user_def demo_user_def is_continuation_def code_def user_char_def is_ascii_alphanumeric_def is_ascii_digit_def)
  then have "console_approver demo_ui demo_user = ''web-console:ann''"
    by (simp add: console_approver_user APPROVER_PREFIX_def)
  with console_approval_accepted [OF w demo_ui_roundtrip, of "demo_ui_env (files' (decision_path (request_file_id ask_record)))" "''c''"] w u
  show ?thesis by (simp add: demo_ui_env_def)
qed

definition console_hook_env :: "fstore hook_env" where
  "console_hook_env = demo_hook_env\<lparr>he_await := (\<lambda>r format cap. snd (the (await_decision demo_ui (demo_ui_env None) r format cap Map.empty)))\<rparr>"

theorem ui_dispatch_confirmed_witness:
  "\<exists>gw' x. op_decide demo_hook console_hook_env demo_decide (demo_hook_gateway\<lparr>gt_ask := AskUi\<rparr>) = (gw', x) \<and>
    (case x of Inl e \<Rightarrow> True | Inr (body, status) \<Rightarrow>
      \<exists>s r. gt_store gw' = Some s \<and> fs_chain num_deps s = [r] \<and>
        (status = EXIT_DISPATCH \<and> is_ask (the (rverdict r)) \<longrightarrow> (\<exists>who k. approved_by demo_ui (demo_ui_env None) r who k)))"
proof -
  let ?gw = "demo_hook_gateway\<lparr>gt_ask := AskUi\<rparr>"
  obtain gw' x where c: "op_decide demo_hook console_hook_env demo_decide ?gw = (gw', x)" by fastforce
  have "gw_at (fs_from num_deps []) (fs_chain num_deps) console_hook_env ?gw []"
    using demo_hook_at by (simp add: gw_at_def console_hook_env_def split: option.splits)
  moreover have "float_free (JObj demo_decide)" by (simp add: demo_decide_def)
  moreover have "\<exists>q'. await_decision demo_ui (demo_ui_env None) r ''writ'' None Map.empty = Some (q', he_await console_hook_env r ''writ'' None)" for r
    using await_decision_ends [OF demo_ui_clock, of demo_ui None r "''writ''" None Map.empty] by (auto simp: console_hook_env_def)
  ultimately have "case x of Inl e \<Rightarrow> True | Inr (body, status) \<Rightarrow>
    \<exists>s r. gt_store gw' = Some s \<and> fs_chain num_deps s = [] @ [r] \<and>
      (status = EXIT_DISPATCH \<and> is_ask (the (rverdict r)) \<longrightarrow>
        (\<exists>who k. he_await console_hook_env r ''writ'' None = UiApproved who \<and> approved_by demo_ui (demo_ui_env None) r who k))"
    using ui_dispatch_confirmed [OF _ _ _ c [unfolded demo_hook_def], where U = demo_ui and V = "demo_ui_env None" and q = Map.empty] by simp
  with c show ?thesis by (cases x) (auto simp: case_prod_beta)
qed

end
