(* ===== verification/Hook_Agent_Claims.thy ===== *)
theory Hook_Agent_Claims
  imports Hook_Claims
begin

text \<open>
  What the hooks of Codex, Gemini CLI, Cursor and Windsurf promise: a tool goes on only with its decision on
  record, the decision is the strictest over all the paths or URLs a tool names, and redacted output is
  replaced wherever the agent lets a hook replace it.
\<close>

section \<open>Decisions over several paths or URLs\<close>

definition candidates :: "tool_call \<Rightarrow> (str \<times> str list) option \<Rightarrow> tool_call list" where
  "candidates call cands =
     (case cands of Some (key, v # vs) \<Rightarrow> map (with_value call key) (v # vs) | _ \<Rightarrow> [call])"

text \<open>No candidate has a stricter verdict than \<open>v\<close>.\<close>

definition strictest_of :: "fstore hook_ctx \<Rightarrow> fstore gateway \<Rightarrow> tool_call list \<Rightarrow> verdict \<Rightarrow> bool" where
  "strictest_of H gw calls v \<longleftrightarrow>
     (\<exists>eng. gt_engine gw = Inr eng \<and> (\<forall>c\<in>set calls. severity (evaluate (hc_policy H) eng (from_call c)) \<le> severity v))"

lemma strictest_finds: "cs \<noteq> [] \<or> best \<noteq> None \<Longrightarrow> strictest sev best cs \<noteq> None"
proof (induction cs arbitrary: best)
  case (Cons c cs)
  show ?case by (simp del: not_None_eq, rule Cons.IH) (auto split: option.splits)
qed simp

lemma chosen_candidate:
  fixes sev call key vals
  defines "c \<equiv> (case strictest sev None (map (with_value call key) vals) of Some (_, c) \<Rightarrow> c | None \<Rightarrow> call)"
  shows "c \<in> set (candidates call (Some (key, vals)))" "\<forall>x\<in>set (candidates call (Some (key, vals))). sev x \<le> sev c"
proof -
  have "c \<in> set (candidates call (Some (key, vals))) \<and> (\<forall>x\<in>set (candidates call (Some (key, vals))). sev x \<le> sev c)"
  proof (cases vals)
    case (Cons v vs)
    then obtain n b where b: "strictest sev None (map (with_value call key) vals) = Some (n, b)"
      using strictest_finds [of "map (with_value call key) vals" None sev] by auto
    have "(None = Some (n, b) \<or> b \<in> set (map (with_value call key) vals)) \<and> n = sev b \<and> (\<forall>x\<in>set (map (with_value call key) vals). sev x \<le> n)"
      using strictest_max [OF b] by auto
    moreover have "c = b" using b by (simp add: c_def)
    ultimately show ?thesis using Cons by (auto simp: candidates_def)
  qed (simp add: candidates_def c_def)
  then show "c \<in> set (candidates call (Some (key, vals)))" "\<forall>x\<in>set (candidates call (Some (key, vals))). sev x \<le> sev c" by blast+
qed

lemma decide_candidates_recorded:
  assumes "gw_at (fs_from L F) (fs_chain L) E gw rs" and "float_free (tc_args call)"
    and "decide_candidates (check_ctx L P J rep dbg) E call cands gw = (gw', Inr d)"
  shows "same_setup gw gw' \<and> (\<exists>s. gt_store gw' = Some s \<and> fs_chain L s = rs @ [dc_record d]) \<and>
    dc_call d \<in> set (candidates call cands) \<and>
    decided_on (check_ctx L P J rep dbg) gw (dc_call d) (dc_record d) (dc_verdict d) \<and>
    strictest_of (check_ctx L P J rep dbg) gw (candidates call cands) (dc_verdict d)"
proof -
  let ?H = "check_ctx L P J rep dbg"
  obtain c where c: "decide_call ?H E c gw = (gw', Inr d)" "c \<in> set (candidates call cands)" "float_free (tc_args c)"
    "\<And>eng. gt_engine gw = Inr eng \<Longrightarrow> \<forall>x\<in>set (candidates call cands).
       severity (evaluate (hc_policy ?H) eng (from_call x)) \<le> severity (evaluate (hc_policy ?H) eng (from_call c))"
  proof (cases cands)
    case None
    with assms that [of call] show thesis by (simp add: decide_candidates_def candidates_def)
  next
    case (Some kv)
    obtain key vals where kv: "kv = (key, vals)" by fastforce
    obtain eng where eng: "gw_engine gw = Inr eng" using assms(3) Some kv
      by (cases "gw_engine gw") (auto simp: decide_candidates_def)
    then have g: "gt_engine gw = Inr eng" by (auto simp: gw_engine_def map_err_def split: sum.splits)
    let ?sev = "\<lambda>c. severity (evaluate (hc_policy ?H) eng (from_call c))"
    let ?c = "case strictest ?sev None (map (with_value call key) vals) of Some (_, c) \<Rightarrow> c | None \<Rightarrow> call"
    have "decide_call ?H E ?c gw = (gw', Inr d)" using assms(3) Some kv eng by (simp add: decide_candidates_def Let_def)
    moreover note chosen_candidate [where sev = ?sev and call = call and key = key and vals = vals] chosen_ok [OF assms(2), of ?sev key vals]
    ultimately show thesis using that [of ?c] Some kv g by simp
  qed
  have "dc_call d = c" using c(1) by (auto simp: decide_call_def sbind_def Let_def split: prod.splits sum.splits)
  with decide_call_recorded [OF assms(1) c(3,1)] c(2,4) show ?thesis
    by (auto simp: decided_on_def strictest_of_def)
qed

section \<open>Before a tool runs\<close>

definition blocks :: "hook_format \<Rightarrow> hook_out \<Rightarrow> bool" where
  "blocks f out \<longleftrightarrow> out = agent_deny f (ho_stderr out)"

lemma blocks_deny [simp]: "blocks f (agent_deny f why)" "blocks f (agent_error f why)"
  by (cases f; simp add: blocks_def agent_error_def)+

declare agent_deny.simps [simp del]

definition is_pre :: "hook_format \<Rightarrow> json \<Rightarrow> bool" where
  "is_pre f p = (case f of
     Codex \<Rightarrow> event_of p ''hook_event_name'' = ''PreToolUse''
   | Gemini \<Rightarrow> event_of p ''hook_event_name'' = ''BeforeTool''
   | Cursor \<Rightarrow> event_of p ''hook_event_name'' \<in> set [''preToolUse'', ''beforeMCPExecution'']
   | Windsurf \<Rightarrow> fst (windsurf_event (event_of p ''agent_action_name'')) = ''pre'')"

definition is_mcp_event :: "hook_format \<Rightarrow> json \<Rightarrow> bool" where
  "is_mcp_event f p \<longleftrightarrow> f = Cursor \<and> event_of p ''hook_event_name'' = ''beforeMCPExecution''"

text \<open>Cursor announces an MCP tool twice; \<open>preToolUse\<close> leaves it to \<open>beforeMCPExecution\<close>.\<close>

definition left_to_mcp_event :: "hook_format \<Rightarrow> json \<Rightarrow> bool" where
  "left_to_mcp_event f p \<longleftrightarrow> f = Cursor \<and> \<not> is_mcp_event f p \<and>
     Option.bind (Option.bind (json_get p ''tool_name'') as_str) cursor_mcp_tool \<noteq> None"

text \<open>The call an announced tool stands for, with the paths or URLs to judge it by.\<close>

definition announced ::
  "rpc_deps \<Rightarrow> (str \<Rightarrow> str list) \<Rightarrow> 's hook_env \<Rightarrow> hook_format \<Rightarrow> json \<Rightarrow> str \<Rightarrow> (tool_call \<times> (str \<times> str list) option) option" where
  "announced J urls E f p cid = (case f of
     Codex \<Rightarrow> ok (codex_call J E p)
   | Gemini \<Rightarrow> ok (gemini_call J urls E p cid)
   | Cursor \<Rightarrow> if is_mcp_event f p then map_option (\<lambda>c. (c, None)) (ok (cursor_mcp_call J E p cid)) else ok (cursor_call J E p)
   | Windsurf \<Rightarrow> map_option (\<lambda>c. (c, None)) (ok (windsurf_call J E p (snd (windsurf_event (event_of p ''agent_action_name''))) cid)))"

lemma announcedI:
  "gemini_call J urls E p cid = Inr call \<Longrightarrow> announced J urls E Gemini p cid = Some call"
  "cursor_mcp_call J E p cid = Inr c \<Longrightarrow> is_mcp_event Cursor p \<Longrightarrow> announced J urls E Cursor p cid = Some (c, None)"
  "windsurf_call J E p (snd (windsurf_event (event_of p ''agent_action_name''))) cid = Inr c \<Longrightarrow> announced J urls E Windsurf p cid = Some (c, None)"
  by (simp_all add: announced_def)

text \<open>The agent may run a call with this verdict, given what it can enforce.\<close>

definition lets_run :: "hook_format \<Rightarrow> bool \<Rightarrow> ask_mode \<Rightarrow> ui_decision \<Rightarrow> tool_call \<Rightarrow> verdict \<Rightarrow> bool" where
  "lets_run f mcp m ui call v = (case v of
     Allow _ \<Rightarrow> True
   | Redact _ _ \<Rightarrow> f = Codex \<or> f = Gemini \<or> (f = Cursor \<and> tc_server call \<noteq> None)
   | Ask _ _ _ _ _ \<Rightarrow> (f = Gemini \<or> (f = Cursor \<and> mcp)) \<and> (m = AskDefer \<or> runs m ui v)
   | Deny _ _ _ \<Rightarrow> False)"

definition awaited :: "'s hook_env \<Rightarrow> hook_format \<Rightarrow> ledger_record \<Rightarrow> ui_decision" where
  "awaited E f r = (if f = Gemini then he_await E r ''gemini'' None else he_await E r ''cursor'' (Some CLAUDE_CODE_CAP_MS))"

lemma codex_answer_blocks: "\<not> lets_run Codex b m ui c v \<Longrightarrow> blocks Codex (codex_answer v)"
  by (cases v) (simp_all add: lets_run_def)

lemma windsurf_answer_blocks: "\<not> lets_run Windsurf b m ui c v \<Longrightarrow> blocks Windsurf (windsurf_answer v)"
  by (cases v) (simp_all add: lets_run_def)

lemma gemini_answer_blocks: "\<not> lets_run Gemini b m ui c v \<Longrightarrow> blocks Gemini (gemini_answer m ui v)"
  by (cases "(m, ui, v)" rule: gemini_answer.cases) (simp_all add: lets_run_def runs_def)

lemma cursor_answer_blocks: "\<not> lets_run Cursor False m ui (dc_call d) (dc_verdict d) \<Longrightarrow> blocks Cursor (cursor_answer d)"
  by (cases "dc_verdict d") (simp_all add: lets_run_def cursor_answer_def)

lemma cursor_mcp_answer_blocks:
  "\<not> lets_run Cursor True m ui c v \<Longrightarrow> tc_server c \<noteq> None \<Longrightarrow> blocks Cursor (cursor_mcp_answer m ui v)"
  by (cases "(m, ui, v)" rule: cursor_mcp_answer.cases) (simp_all add: lets_run_def runs_def)

text \<open>What it takes for an announced call to go on: one more record, the strictest decision on it, and a verdict the agent may act on.\<close>

definition goes_on ::
  "ledger_deps \<Rightarrow> fstore hook_ctx \<Rightarrow> fstore hook_env \<Rightarrow> hook_format \<Rightarrow> bool \<Rightarrow> fstore gateway \<Rightarrow> ledger_record list \<Rightarrow>
   tool_call \<times> (str \<times> str list) option \<Rightarrow> fstore gateway \<Rightarrow> bool" where
  "goes_on L H E f mcp gw rs call gw' \<longleftrightarrow>
     (\<exists>c\<in>set (candidates (fst call) (snd call)). \<exists>s r v. gt_store gw' = Some s \<and> fs_chain L s = rs @ [r] \<and> decided_on H gw c r v \<and>
        strictest_of H gw (candidates (fst call) (snd call)) v \<and> lets_run f mcp (gt_ask gw) (awaited E f r) c v)"

lemma pre_recorded:
  assumes "gw_at (fs_from L F) (fs_chain L) E gw1 rs" and "same_setup gw gw1" and "float_free (tc_args call)"
    and "decide_candidates (check_ctx L P J rep dbg) E call cands gw1 = (gw', x)"
    and "\<And>e. x = Inl e \<Longrightarrow> blocks f out"
    and "\<And>d. x = Inr d \<Longrightarrow> dc_call d \<in> set (candidates call cands) \<Longrightarrow>
      \<not> lets_run f mcp (gt_ask gw') (awaited E f (dc_record d)) (dc_call d) (dc_verdict d) \<Longrightarrow> blocks f out"
  shows "blocks f out \<or> goes_on L (check_ctx L P J rep dbg) E f mcp gw rs (call, cands) gw'"
proof (cases x)
  case (Inl e)
  with assms(5) show ?thesis by blast
next
  case (Inr d)
  let ?H = "check_ctx L P J rep dbg"
  note rec = decide_candidates_recorded [OF assms(1,3) assms(4) [unfolded Inr]]
  then have "gt_ask gw' = gt_ask gw" "decided_on ?H gw (dc_call d) (dc_record d) (dc_verdict d)"
    "strictest_of ?H gw (candidates call cands) (dc_verdict d)"
    using assms(2) by (auto simp: same_setup_def decided_on_def strictest_of_def)
  with rec assms(6) [OF Inr] show ?thesis unfolding goes_on_def fst_conv snd_conv by metis
qed

lemma codex_pre_recorded:
  assumes "gw_at (fs_from L F) (fs_chain L) E gw rs" and "clean_payload J p" and "H = check_ctx L P J rep dbg"
    and a: "codex_pre H E p gw = (gw', out)"
  shows "blocks Codex out \<or> (\<exists>call. codex_call J E p = Inr call \<and> goes_on L H E Codex False gw rs call gw')"
proof -
  have J: "hc_json H = J" by (simp add: assms(3) check_ctx_def)
  show ?thesis
  proof (cases "codex_call J E p")
    case (Inl e)
    with a J show ?thesis by (auto simp: codex_pre_def split: call_error.splits)
  next
    case (Inr cc)
    obtain call cands where cc: "cc = (call, cands)" by fastforce
    obtain gw2 x where x: "decide_candidates H E call cands gw = (gw2, x)" by fastforce
    have out: "gw' = gw2" "out = (case x of Inl e \<Rightarrow> agent_error Codex (gw_text e) | Inr d \<Rightarrow> codex_answer (dc_verdict d))"
      using a J Inr cc x by (auto simp: codex_pre_def split: sum.splits)
    from pre_recorded [OF assms(1) same_setup_refl codex_call_ok [OF assms(2) Inr [unfolded cc]] x [unfolded assms(3)], of Codex out False]
    show ?thesis using Inr cc out codex_answer_blocks assms(3) by fastforce
  qed
qed

lemma cursor_pre_recorded:
  assumes "gw_at (fs_from L F) (fs_chain L) E gw rs" and "clean_payload J p" and "H = check_ctx L P J rep dbg"
    and a: "cursor_pre H E p gw = (gw', out)"
      "Option.bind (Option.bind (json_get p ''tool_name'') as_str) cursor_mcp_tool = None"
  shows "blocks Cursor out \<or> (\<exists>call. cursor_call J E p = Inr call \<and> goes_on L H E Cursor False gw rs call gw')"
proof -
  have J: "hc_json H = J" by (simp add: assms(3) check_ctx_def)
  show ?thesis
  proof (cases "cursor_call J E p")
    case (Inl e)
    with a J show ?thesis by (auto simp: cursor_pre_def split: call_error.splits)
  next
    case (Inr cc)
    obtain call cands where cc: "cc = (call, cands)" by fastforce
    obtain gw2 x where x: "decide_candidates H E call cands gw = (gw2, x)" by fastforce
    have out: "gw' = gw2" "out = (case x of Inl e \<Rightarrow> agent_error Cursor (gw_text e) | Inr d \<Rightarrow> cursor_answer d)"
      using a J Inr cc x by (auto simp: cursor_pre_def split: sum.splits)
    from pre_recorded [OF assms(1) same_setup_refl cursor_call_ok [OF assms(2) Inr [unfolded cc]] x [unfolded assms(3)], of Cursor out False]
    show ?thesis using Inr cc out cursor_answer_blocks assms(3) by fastforce
  qed
qed

lemma gemini_pre_recorded:
  assumes "gw_at (fs_from L F) (fs_chain L) E gw rs" and "clean_payload J p" and "H = check_ctx L P J rep dbg"
    and a: "gemini_pre H urls E p gw = (gw', out)"
  shows "blocks Gemini out \<or> (\<exists>cid call. gemini_call J urls E p cid = Inr call \<and> goes_on L H E Gemini False gw rs call gw')"
proof -
  have J: "hc_json H = J" by (simp add: assms(3) check_ctx_def)
  obtain gw1 cid where n: "next_call_id E gw = (gw1, cid)" by fastforce
  note keep = next_call_id_keeps [OF n]
  then have at: "gw_at (fs_from L F) (fs_chain L) E gw1 rs" using assms(1) by (simp add: gw_at_def)
  show ?thesis
  proof (cases "gemini_call J urls E p cid")
    case (Inl e)
    with a J n show ?thesis by (auto simp: gemini_pre_def)
  next
    case (Inr cc)
    obtain call cands where cc: "cc = (call, cands)" by fastforce
    obtain gw2 x where x: "decide_candidates H E call cands gw1 = (gw2, x)" by fastforce
    have out: "gw' = gw2" "out = (case x of Inl e \<Rightarrow> agent_error Gemini (gw_text e) | Inr d \<Rightarrow> gemini_answer (gt_ask gw2) (he_await E (dc_record d) ''gemini'' None) (dc_verdict d))"
      using a J Inr cc x n by (auto simp: gemini_pre_def split: sum.splits)
    from pre_recorded [OF at conjunct2 [OF keep] gemini_call_ok [OF assms(2) Inr [unfolded cc]] x [unfolded assms(3)], of Gemini out False]
    show ?thesis using Inr cc out gemini_answer_blocks assms(3) awaited_def [of E Gemini] by fastforce
  qed
qed

lemma cursor_mcp_call_server: "cursor_mcp_call J E p cid = Inr call \<Longrightarrow> tc_server call \<noteq> None"
  by (auto simp: cursor_mcp_call_def result_simps ok_or_def Let_def into_call_def plain_mapped_def split: option.splits)

lemma cursor_mcp_pre_recorded:
  assumes "gw_at (fs_from L F) (fs_chain L) E gw rs" and "clean_payload J p" and "H = check_ctx L P J rep dbg"
    and a: "cursor_mcp_pre H E p gw = (gw', out)"
  shows "blocks Cursor out \<or> (\<exists>cid call. cursor_mcp_call J E p cid = Inr call \<and> goes_on L H E Cursor True gw rs (call, None) gw')"
proof -
  have J: "hc_json H = J" by (simp add: assms(3) check_ctx_def)
  obtain gw1 cid where n: "next_call_id E gw = (gw1, cid)" by fastforce
  note keep = next_call_id_keeps [OF n]
  then have at: "gw_at (fs_from L F) (fs_chain L) E gw1 rs" using assms(1) by (simp add: gw_at_def)
  show ?thesis
  proof (cases "cursor_mcp_call J E p cid")
    case (Inl e)
    with a J n show ?thesis by (auto simp: cursor_mcp_pre_def)
  next
    case (Inr call)
    obtain gw2 x where x: "decide_candidates H E call None gw1 = (gw2, x)" by fastforce
    have out: "gw' = gw2" "out = (case x of Inl e \<Rightarrow> agent_error Cursor (gw_text e) | Inr d \<Rightarrow> cursor_mcp_answer (gt_ask gw2) (he_await E (dc_record d) ''cursor'' (Some CLAUDE_CODE_CAP_MS)) (dc_verdict d))"
      using a J Inr x n by (auto simp: cursor_mcp_pre_def decide_candidates_def split: sum.splits)
    from pre_recorded [OF at conjunct2 [OF keep] cursor_mcp_call_ok [OF assms(2) Inr] x [unfolded assms(3)], of Cursor out True]
    show ?thesis using Inr out cursor_mcp_answer_blocks assms(3) awaited_def [of E Cursor] cursor_mcp_call_server [OF Inr] candidates_def [of call None] by fastforce
  qed
qed

lemma windsurf_pre_recorded:
  assumes "gw_at (fs_from L F) (fs_chain L) E gw rs" and "clean_payload J p" and "H = check_ctx L P J rep dbg"
    and a: "windsurf_pre H info E p action gw = (gw', out)"
  shows "blocks Windsurf out \<or> (\<exists>cid call. windsurf_call J E p action cid = Inr call \<and> goes_on L H E Windsurf False gw rs (call, None) gw')"
proof -
  have J: "hc_json H = J" by (simp add: assms(3) check_ctx_def)
  obtain gw1 cid where n: "next_call_id E gw = (gw1, cid)" by fastforce
  note keep = next_call_id_keeps [OF n]
  then have at: "gw_at (fs_from L F) (fs_chain L) E gw1 rs" using assms(1) by (simp add: gw_at_def)
  show ?thesis
  proof (cases "windsurf_call J E p action cid")
    case (Inl e)
    with a J n show ?thesis by (cases e) (auto simp: windsurf_pre_def panicked_def)
  next
    case (Inr call)
    obtain gw2 x where x: "decide_candidates H E call None gw1 = (gw2, x)" by fastforce
    have out: "gw' = gw2" "out = (case x of Inl e \<Rightarrow> agent_error Windsurf (gw_text e) | Inr d \<Rightarrow> windsurf_answer (dc_verdict d))"
      using a J Inr x n by (auto simp: windsurf_pre_def decide_candidates_def split: sum.splits)
    from pre_recorded [OF at conjunct2 [OF keep] windsurf_call_ok [OF assms(2) Inr] x [unfolded assms(3)], of Windsurf out False]
    show ?thesis using Inr out windsurf_answer_blocks assms(3) by fastforce
  qed
qed

lemma ended:
  assumes "blocks g out \<or> (\<exists>cid call. C cid = Inr call \<and> goes_on L H E g b gw rs (k call) gw')"
    and "f = g" and "is_mcp_event f p = b" and "\<And>cid call. C cid = Inr call \<Longrightarrow> announced J urls E g p cid = Some (k call)"
  shows "blocks f out \<or> A \<or> (\<exists>cid call. announced J urls E f p cid = Some call \<and> goes_on L H E f (is_mcp_event f p) gw rs call gw')"
proof (cases "blocks g out")
  case True
  with assms(2) show ?thesis by simp
next
  case False
  with assms(1) obtain cid call where c: "C cid = Inr call" "goes_on L H E g b gw rs (k call) gw'" by blast
  have "announced J urls E f p cid = Some (k call) \<and> goes_on L H E f (is_mcp_event f p) gw rs (k call) gw'"
    using assms(2,3) assms(4) [OF c(1)] c(2) by simp
  then show ?thesis by (intro disjI2 exI)
qed


section \<open>After a tool has run\<close>

text \<open>The hooks that can replace the output of a tool.\<close>

definition can_replace :: "hook_format \<Rightarrow> json \<Rightarrow> bool" where
  "can_replace f p = (case f of
     Codex \<Rightarrow> event_of p ''hook_event_name'' = ''PostToolUse''
   | Gemini \<Rightarrow> event_of p ''hook_event_name'' = ''AfterTool''
   | Cursor \<Rightarrow> event_of p ''hook_event_name'' = ''postToolUse'' \<and> cursor_mcp_tool (event_of p ''tool_name'') \<noteq> None
   | Windsurf \<Rightarrow> False)"

text \<open>What the agent takes instead of the output.\<close>

definition replacement :: "hook_format \<Rightarrow> hook_out \<Rightarrow> json option" where
  "replacement f out =
     (case ho_stdout out of
        Some (JObj kvs) \<Rightarrow>
          (if f = Cursor then map_of kvs ''updated_mcp_tool_output''
           else if map_of kvs ''decision'' \<in> {Some (JStr ''block''), Some (JStr ''deny'')} then map_of kvs ''reason'' else None)
      | _ \<Rightarrow> None)"

definition tool_output :: "rpc_deps \<Rightarrow> hook_format \<Rightarrow> json \<Rightarrow> json" where
  "tool_output J f p = (case f of
     Cursor \<Rightarrow>
       (case json_get p ''tool_output'' of
          Some (JStr s) \<Rightarrow> (case json_from_str J s of Inr v \<Rightarrow> v | Inl _ \<Rightarrow> JStr s) | Some v \<Rightarrow> v | None \<Rightarrow> JNull)
   | Gemini \<Rightarrow> (case json_get (response_of p) ''llmContent'' of Some c \<Rightarrow> c | None \<Rightarrow> response_of p)
   | _ \<Rightarrow> response_of p)"

text \<open>A replacement made of an error text, or of the output with every string or every match masked.\<close>

definition hides :: "'s hook_ctx \<Rightarrow> hook_format \<Rightarrow> json \<Rightarrow> json \<Rightarrow> bool" where
  "hides H f orig v \<longleftrightarrow>
     (\<exists>msg. v = JStr (''writ error: '' @ msg @ ''; the tool output is withheld'')) \<or>
     (\<exists>masked. ((\<exists>ps res. compile_patterns H ps = Inr res \<and> masked = mask_value H res orig) \<or> masked = mask_all orig) \<and>
        (v = masked \<or> v = JStr (text_of (hc_json H) masked) \<or>
         v = JObj [(''content'', JArr [JObj [(''text'', JStr (text_of (hc_json H) masked)), (''type'', JStr ''text'')]])]))"

text \<open>The decision a finished tool belongs to.\<close>

definition belongs :: "rpc_deps \<Rightarrow> (str \<Rightarrow> str list) \<Rightarrow> 's hook_env \<Rightarrow> hook_format \<Rightarrow> json \<Rightarrow> ledger_record \<Rightarrow> bool" where
  "belongs J urls E f p d \<longleftrightarrow> rkind d = Decision \<and> (case f of
     Codex \<Rightarrow> (case codex_call J E p of Inr (now, _) \<Rightarrow> session_id d = tc_session_id now \<and> call_id d = tc_call_id now | Inl _ \<Rightarrow> False)
   | Gemini \<Rightarrow> (case gemini_call J urls E p [] of Inr (now, _) \<Rightarrow> session_id d = tc_session_id now \<and> same_call d now | Inl _ \<Rightarrow> False)
   | Cursor \<Rightarrow>
       (case (cursor_session p, cursor_mcp_tool (event_of p ''tool_name'')) of
          (Inr sid, Some tool) \<Rightarrow> session_id d = sid \<and> mcp_matches tool (input_object J (json_get p ''tool_input'') True) d
        | _ \<Rightarrow> False)
   | Windsurf \<Rightarrow> False)"

lemma hidesI:
  assumes "compile_patterns H ps = Inr res"
  shows "hides H f orig (mask_value H res orig)" "hides H f orig (JStr (text_of (hc_json H) (mask_value H res orig)))"
  unfolding hides_def using assms by blast+

lemma codex_fail_hides: "\<exists>v. replacement Codex (codex_fail msg) = Some v \<and> hides H Codex orig v"
  by (auto simp: replacement_def codex_fail_def codex_block_def hides_def)

lemma gemini_fail_hides: "\<exists>v. replacement Gemini (gemini_fail msg) = Some v \<and> hides H Gemini orig v"
  by (auto simp: replacement_def gemini_fail_def hides_def)

lemma cursor_fail_hides:
  assumes "hc_json H = J"
  shows "\<exists>v. replacement Cursor (cursor_fail J True orig msg False) = Some v \<and> hides H Cursor orig v"
  unfolding replacement_def hides_def assms cursor_fail_def
  by (cases "mask_all orig") auto

lemma complete_located_patterns:
  assumes "complete_located H E rec prompt status res gw = (gw', Inr x)"
  shows "(x = None \<and> \<not> is_redact rec) \<or> (\<exists>ps ms. x = Some ms \<and> compile_patterns H ps = Inr ms)"
  using assms by (auto simp: complete_located_def sbind_def result_simps is_redact_def map_err_def split: prod.splits sum.splits verdict.splits option.splits)

lemma codex_post_hides:
  assumes "gw_at (fs_from L F) (fs_chain L) E gw rs" and "H = check_ctx L P J rep dbg" and a: "codex_post H E p gw = (gw', out)"
  shows "(\<exists>d\<in>set rs. belongs J urls E Codex p d \<and> \<not> is_redact d) \<or>
    (\<exists>v. replacement Codex out = Some v \<and> hides H Codex (tool_output J Codex p) v)"
proof (cases "\<exists>msg. out = codex_fail msg")
  case True
  with codex_fail_hides show ?thesis by blast
next
  case ok: False
  have J: "hc_json H = J" and u: "rfs.uses L H" by (simp_all add: assms(2) check_ctx_def rfs.uses_def)
  from a ok J obtain now cs gw1 l where l: "codex_call J E p = Inr (now, cs)"
    "locate H E (\<lambda>r. session_id r = tc_session_id now \<and> call_id r = tc_call_id now) gw = (gw1, Inr (Some l))"
    by (auto simp: codex_post_def Let_def split: sum.splits prod.splits option.splits)
  from rfs.locate_at [OF u assms(1) l(2)] have b: "lo_record l \<in> set rs" "belongs J urls E Codex p (lo_record l)"
    using l(1) by (auto simp: belongs_def)
  from a ok J l obtain x gw2 where x: "complete_located H E (lo_record l) None (exit_from_response (response_of p)) (json_to_string J (response_of p)) gw1 = (gw2, Inr x)"
    "out = (case x of Some res \<Rightarrow> codex_block (text_of J (mask_value H res (response_of p))) [] | None \<Rightarrow> silent)"
    by (auto simp: codex_post_def Let_def split: sum.splits prod.splits if_splits)
  from complete_located_patterns [OF x(1)] show ?thesis
  proof (elim disjE exE conjE)
    fix ps ms
    assume "x = Some ms" "compile_patterns H ps = Inr ms"
    with x(2) J hidesI(2) [of H ps ms Codex "response_of p"] show ?thesis by (simp add: replacement_def codex_block_def tool_output_def)
  qed (use b in blast)
qed

lemma gemini_post_hides:
  assumes "gw_at (fs_from L F) (fs_chain L) E gw rs" and "H = check_ctx L P J rep dbg" and a: "gemini_post H urls E p gw = (gw', out)"
  shows "(\<exists>d\<in>set rs. belongs J urls E Gemini p d \<and> \<not> is_redact d) \<or>
    (\<exists>v. replacement Gemini out = Some v \<and> hides H Gemini (tool_output J Gemini p) v)"
proof (cases "\<exists>msg. out = gemini_fail msg")
  case True
  with gemini_fail_hides show ?thesis by blast
next
  case ok: False
  have J: "hc_json H = J" and u: "rfs.uses L H" by (simp_all add: assms(2) check_ctx_def rfs.uses_def)
  from a ok J obtain now cs gw1 d where l: "gemini_call J urls E p [] = Inr (now, cs)"
    "locate_open H E (tc_session_id now) (\<lambda>r. same_call r now) gw = (gw1, Inr (Some d))"
    by (auto simp: gemini_post_def Let_def split: sum.splits prod.splits option.splits)
  from rfs.locate_open_at [OF u assms(1) l(2)] have b: "d \<in> set rs" "belongs J urls E Gemini p d"
    using l(1) by (auto simp: belongs_def)
  from a ok J l obtain x gw2 status where x: "complete_located H E d (Some GEMINI_PROMPT_APPROVER) status (json_to_string J (response_of p)) gw1 = (gw2, Inr x)"
    "out = (case x of Some res \<Rightarrow> said [(''decision'', JStr ''deny''), (''reason'', JStr (text_of J (mask_value H res (tool_output J Gemini p))))] | None \<Rightarrow> said [])"
    by (auto simp: gemini_post_def Let_def tool_output_def split: sum.splits prod.splits option.splits)
  from complete_located_patterns [OF x(1)] show ?thesis
  proof (elim disjE exE conjE)
    fix ps ms
    assume "x = Some ms" "compile_patterns H ps = Inr ms"
    with x(2) J hidesI(2) [of H ps ms Gemini "tool_output J Gemini p"] show ?thesis by (simp add: replacement_def said_def)
  qed (use b in blast)
qed

lemma cursor_post_hides:
  assumes "gw_at (fs_from L F) (fs_chain L) E gw rs" and "H = check_ctx L P J rep dbg" and a: "cursor_post H E p False gw = (gw', out)"
    and tool: "cursor_mcp_tool (event_of p ''tool_name'') = Some tool"
  shows "(\<exists>d\<in>set rs. belongs J urls E Cursor p d \<and> \<not> is_redact d) \<or>
    (\<exists>v. replacement Cursor out = Some v \<and> hides H Cursor (tool_output J Cursor p) v)"
proof -
  have J: "hc_json H = J" and u: "rfs.uses L H" by (simp_all add: assms(2) check_ctx_def rfs.uses_def)
  let ?raw = "case json_get p ''tool_output'' of Some v \<Rightarrow> v | None \<Rightarrow> JNull"
  let ?P = "mcp_matches tool (input_object J (json_get p ''tool_input'') True)"
  have o: "(case ?raw of JStr s \<Rightarrow> (case json_from_str J s of Inr v \<Rightarrow> v | Inl _ \<Rightarrow> ?raw) | v \<Rightarrow> v) = tool_output J Cursor p"
    by (auto simp: tool_output_def split: option.splits json.splits)
  show ?thesis
  proof (cases "\<exists>msg. out = cursor_fail J True (tool_output J Cursor p) msg False")
    case True
    with cursor_fail_hides [OF J] show ?thesis by blast
  next
    case ok: False
    from a ok J tool obtain sid gw1 d where l: "cursor_session p = Inr sid" "locate_open H E sid ?P gw = (gw1, Inr (Some d))"
      unfolding cursor_post_def Let_def J o
      by (auto simp: cursor_find_def J split: sum.splits prod.splits option.splits)
    from rfs.locate_open_at [OF u assms(1) l(2)] have b: "d \<in> set rs" "belongs J urls E Cursor p d"
      using l(1) tool by (auto simp: belongs_def)
    show ?thesis
    proof (cases "is_redact d")
      case False
      with b show ?thesis by blast
    next
      case True
      with a ok J l tool obtain x gw2 status res where x: "complete_located H E d (Some CURSOR_PROMPT_APPROVER) status res gw1 = (gw2, Inr x)"
        "out = (case x of Some ps \<Rightarrow>
             if cursor_mcp_tool (event_of p ''tool_name'') \<noteq> None \<and> \<not> False then said [(''updated_mcp_tool_output'', mask_value H ps (tool_output J Cursor p))] else said []
           | None \<Rightarrow> said [])"
        unfolding cursor_post_def Let_def J o
        by (auto simp: cursor_find_def J split: sum.splits prod.splits)
      from complete_located_patterns [OF x(1)] True obtain ps ms where "x = Some ms" "compile_patterns H ps = Inr ms" by blast
      with x(2) tool hidesI(1) [of H ps ms Cursor "tool_output J Cursor p"] show ?thesis by (simp add: replacement_def said_def)
    qed
  qed
qed


section \<open>Where the formats fall short\<close>

text \<open>
  Windsurf's file actions carry only a path, and matching a finished call ignores \<open>path\<close>: any two reads
  (or writes) of a trajectory are taken for the same call, whatever their files.
\<close>

lemma windsurf_files_confused:
  assumes "windsurf_call J E p action cid = Inr was" and "windsurf_call J E' q action cid' = Inr now"
    and "action = ''read_code'' \<or> action = ''write_code''" and "rcall rec = Some was"
  shows "same_call rec now"
proof -
  have f: "tc_tool c = (if action = ''read_code'' then ''fs.read'' else ''fs.write'') \<and> tc_server c = None \<and> strip_added (tc_args c) = []"
    if "windsurf_call J E p action cid = Inr c" for E :: "'s hook_env" and p cid c
  proof -
    from that obtain info m sid where m: "windsurf_map J info action = Inr m" "c = fst (into_call E m sid cid (agent_caller E ''windsurf'' None))"
      by (auto simp: windsurf_call_def result_simps)
    then have "m = plain_mapped (if action = ''read_code'' then ''fs.read'' else ''fs.write'')
        [(''path'', case map_of info ''file_path'' of Some v \<Rightarrow> v | None \<Rightarrow> JNull)]"
      using assms(3) by (auto simp: windsurf_map_def Let_def)
    with m(2) show ?thesis by (simp add: into_call_def plain_mapped_def strip_added_def ADDED_KEYS_def)
  qed
  show ?thesis using f [OF assms(1)] f [OF assms(2)] assms(4) by (simp add: same_call_def)
qed

text \<open>An MCP tool that is itself named \<open>bash\<close> and takes no \<open>command\<close> makes the Windsurf hook panic.\<close>

lemma windsurf_bash_tool_panics:
  "windsurf_call J E (JObj [(''tool_info'', JObj [(''mcp_server_name'', JStr ''srv''), (''mcp_tool_name'', JStr ''bash'')]),
     (''trajectory_id'', JStr ''t'')]) ''mcp_tool_use'' cid = Inl CallPanic"
  by (simp add: windsurf_call_def windsurf_map_def Let_def str_at_def nonempty_def ok_or_def result_simps map_err_def
      plain_mapped_def input_object_def index_is_string_def)

text \<open>
  Cursor's \<open>preToolUse\<close> lets a redacted call to \<open>mcp__server__tool\<close> run, since it has a server, but
  \<open>postToolUse\<close> replaces the output of a tool only if its name starts with \<open>MCP:\<close>.
\<close>

lemma cursor_redacts_only_announced_mcp:
  assumes "cursor_mcp_tool (event_of p ''tool_name'') = None"
  shows "replacement Cursor (snd (cursor_post H E p failure gw)) = None"
proof -
  obtain gw' out where c: "cursor_post H E p failure gw = (gw', out)" by fastforce
  have f: "replacement Cursor (cursor_fail J False orig msg plain) = None" for J orig msg plain
    by (simp add: replacement_def cursor_fail_def)
  have s: "replacement Cursor (said []) = None" by (simp add: replacement_def said_def)
  have "out = said [] \<or> (\<exists>orig msg plain. out = cursor_fail (hc_json H) False orig msg plain)"
    using c assms unfolding cursor_post_def Let_def
    by (auto split: sum.splits prod.splits option.splits if_splits)
  with c f s show ?thesis by auto
qed

section \<open>A concrete announcement\<close>

definition codex_payload :: "str \<Rightarrow> json" where
  "codex_payload event = JObj [(''hook_event_name'', JStr event), (''session_id'', JStr ''s''),
     (''tool_input'', JObj [(''command'', JStr ''ls'')]), (''tool_name'', JStr ''Bash''), (''tool_use_id'', JStr ''t'')]"

definition codex_rpc :: "str \<Rightarrow> rpc_deps" where
  "codex_rpc event = \<lparr>json_to_string = (\<lambda>_. ''{}''), json_from_str = (\<lambda>s. if s = ''p'' then Inr (codex_payload event) else Inl ''EOF'')\<rparr>"

definition codex_hook :: "str \<Rightarrow> fstore hook_ctx" where
  "codex_hook event = check_ctx num_deps example_deps (codex_rpc event) (\<lambda>p t r. if str_contains t p then r else t) (\<lambda>s. s)"

lemma codex_payload_read: "json_from_str (codex_rpc event) (trim ''p'') = Inr (codex_payload event)"
proof -
  have "trim ''p'' = ''p''" by code_simp
  then show ?thesis by (simp add: codex_rpc_def)
qed

lemma codex_payload_clean: "clean_payload (codex_rpc event) (codex_payload event)"
proof -
  have "float_free (codex_payload event)" by (simp add: codex_payload_def)
  then show ?thesis by (auto simp: clean_payload_def codex_rpc_def split: if_splits)
qed



end
