(* ===== verification/Loopback.thy ===== *)
theory Loopback
  imports Writ_Prelude "HOL-Library.Word"
begin

unbundle bit_operations_syntax

text \<open>
  Which hosts and origins are loopback ones, and how tokens are compared (\<open>writ-mcp/src/http/gateway.rs\<close>).
  \<open>IpAddr::from_str\<close> is the recursive-descent reader of the standard library; a reader takes the text
  and gives the value and the text after it, or fails without taking anything.
\<close>

section \<open>Numbers and addresses\<close>

definition to_digit :: "nat \<Rightarrow> char \<Rightarrow> nat option" where
  "to_digit radix c = (case hex_val c of Some d \<Rightarrow> if d < radix then Some d else None | None \<Rightarrow> None)"

text \<open>The digits are taken greedily; one digit too many is an error, and so is a number that does not fit.\<close>

definition read_number :: "nat \<Rightarrow> nat \<Rightarrow> bool \<Rightarrow> nat \<Rightarrow> str \<Rightarrow> (nat \<times> str) option" where
  "read_number radix max_digits zero_prefix bound s =
     (let ds = takeWhile (\<lambda>c. to_digit radix c \<noteq> None) s;
          n = foldl (\<lambda>n c. radix * n + the (to_digit radix c)) 0 ds
      in if ds = [] \<or> length ds > max_digits \<or> n > bound \<or> (\<not> zero_prefix \<and> hd ds = CHR ''0'' \<and> length ds > 1) then None
         else Some (n, drop (length ds) s))"

definition read_given_char :: "char \<Rightarrow> str \<Rightarrow> str option" where
  "read_given_char c s = (case s of [] \<Rightarrow> None | d # s \<Rightarrow> if c = d then Some s else None)"

definition read_separator :: "char \<Rightarrow> nat \<Rightarrow> (str \<Rightarrow> ('a \<times> str) option) \<Rightarrow> str \<Rightarrow> ('a \<times> str) option" where
  "read_separator sep i rd s = (if i = 0 then rd s else Option.bind (read_given_char sep s) rd)"

definition octet :: "str \<Rightarrow> (nat \<times> str) option" where
  "octet = read_number 10 3 False 255"

definition read_ipv4 :: "str \<Rightarrow> (nat list \<times> str) option" where
  "read_ipv4 s =
     Option.bind (read_separator CHR ''.'' 0 octet s) (\<lambda>(a, s).
     Option.bind (read_separator CHR ''.'' 1 octet s) (\<lambda>(b, s).
     Option.bind (read_separator CHR ''.'' 2 octet s) (\<lambda>(c, s).
     Option.bind (read_separator CHR ''.'' 3 octet s) (\<lambda>(d, s). Some ([a, b, c, d], s)))))"

text \<open>
  Up to \<open>limit\<close> groups of 16 bits, of which the last two may be an IPv4 address; \<open>left\<close> counts down.  The
  result says whether it ended in an IPv4 address.
\<close>

fun read_groups :: "nat \<Rightarrow> nat \<Rightarrow> str \<Rightarrow> nat list \<times> bool \<times> str" where
  "read_groups i 0 s = ([], False, s)"
| "read_groups i (Suc left) s =
     (case (if left > 0 then read_separator CHR '':'' i read_ipv4 s else None) of
        Some (q, s') \<Rightarrow> ([256 * q ! 0 + q ! 1, 256 * q ! 2 + q ! 3], True, s')
      | None \<Rightarrow>
          (case read_separator CHR '':'' i (read_number 16 4 True 65535) s of
             None \<Rightarrow> ([], False, s)
           | Some (g, s') \<Rightarrow> (let (gs, v4, s'') = read_groups (Suc i) left s' in (g # gs, v4, s''))))"

definition read_ipv6 :: "str \<Rightarrow> (nat list \<times> str) option" where
  "read_ipv6 s =
     (let (gs, v4, s) = read_groups 0 8 s
      in if length gs = 8 then Some (gs, s)
         else if v4 then None
         else Option.bind (read_given_char CHR '':'' s) (\<lambda>s.
              Option.bind (read_given_char CHR '':'' s) (\<lambda>s.
                let (tl, _, s) = read_groups 0 (8 - (length gs + 1)) s
                in Some (gs @ replicate (8 - length gs - length tl) 0 @ tl, s))))"

datatype ip_addr = V4 "nat list" | V6 "nat list"

definition parse_ip :: "str \<Rightarrow> ip_addr option" where
  "parse_ip s =
     (case read_ipv4 s of
        Some (q, r) \<Rightarrow> if r = [] then Some (V4 q) else None
      | None \<Rightarrow> (case read_ipv6 s of Some (gs, r) \<Rightarrow> if r = [] then Some (V6 gs) else None | None \<Rightarrow> None))"

fun is_loopback :: "ip_addr \<Rightarrow> bool" where
  "is_loopback (V4 q) = (q ! 0 = 127)"
| "is_loopback (V6 gs) = (gs = [0, 0, 0, 0, 0, 0, 0, 1])"

section \<open>Hosts and origins\<close>

definition host_part :: "str \<Rightarrow> str" where
  "host_part authority =
     (let a = trim authority
      in case strip_prefix a ''['' of
           Some rest \<Rightarrow> hd (split_on (\<lambda>c. c = CHR '']'') rest)
         | None \<Rightarrow>
             (case rsplit_once a CHR '':'' of
                Some (h, port) \<Rightarrow> if list_all is_ascii_digit port then h else a
              | None \<Rightarrow> a))"

definition is_loopback_name :: "str \<Rightarrow> bool" where
  "is_loopback_name host \<longleftrightarrow>
     eq_ignore_ascii_case host ''localhost'' \<or> (case parse_ip host of Some ip \<Rightarrow> is_loopback ip | None \<Rightarrow> False)"

definition origin_is_loopback :: "str \<Rightarrow> bool" where
  "origin_is_loopback origin =
     (case split_once origin ''://'' of
        None \<Rightarrow> False
      | Some (scheme, rest) \<Rightarrow>
          (eq_ignore_ascii_case scheme ''http'' \<or> eq_ignore_ascii_case scheme ''https'') \<and>
          is_loopback_name (host_part (hd (split_on (\<lambda>c. c = CHR ''/'') rest))))"

section \<open>Comparing tokens\<close>

text \<open>The comparison looks at every byte whatever it has seen so far.\<close>

definition byte_of :: "char \<Rightarrow> 8 word" where
  "byte_of c = of_nat (code c)"

definition ct_eq :: "str \<Rightarrow> str \<Rightarrow> bool" where
  "ct_eq a b = (if length a \<noteq> length b then False else foldl (\<lambda>acc (x, y). acc OR (byte_of x XOR byte_of y)) 0 (zip a b) = 0)"

lemma or_zero_iff: "(a OR b = 0) \<longleftrightarrow> a = 0 \<and> b = 0" for a b :: "8 word"
  by (auto simp: bit_eq_iff bit_or_iff)

lemma xor_zero_iff: "(a XOR b = 0) \<longleftrightarrow> a = b" for a b :: "8 word"
  by (auto simp: bit_eq_iff bit_xor_iff)

lemma byte_of_inj: "byte_of x = byte_of y \<longleftrightarrow> x = y"
proof
  assume "byte_of x = byte_of y"
  then have "unat (byte_of x) = unat (byte_of y)" by simp
  then have "(of_char x :: nat) = of_char y" by (simp add: byte_of_def code_def unat_of_nat)
  then show "x = y" by (simp add: of_char_eq_iff)
qed simp

lemma ct_fold: "foldl (\<lambda>acc (x, y). acc OR (byte_of x XOR byte_of y)) acc xys = 0 \<longleftrightarrow> acc = 0 \<and> (\<forall>(x, y)\<in>set xys. x = y)"
  by (induction xys arbitrary: acc) (auto simp: or_zero_iff xor_zero_iff byte_of_inj)

lemma ct_eq_iff: "ct_eq a b \<longleftrightarrow> a = b"
proof (cases "length a = length b")
  case True
  then have "ct_eq a b \<longleftrightarrow> (\<forall>(x, y)\<in>set (zip a b). x = y)" by (simp add: ct_eq_def ct_fold)
  also have "\<dots> \<longleftrightarrow> a = b" using True by (induction a b rule: list_induct2) auto
  finally show ?thesis .
qed (auto simp: ct_eq_def)

end
