(* ===== verification/Mcp_Http.thy ===== *)
theory Mcp_Http
  imports Mcp_Gate Sse Loopback
begin

text \<open>
  \<open>writ-mcp/src/http/gateway.rs\<close>: the Streamable HTTP proxy, a server to the agent and a client to the
  upstream MCP server.  A request is handled on the shared state: the interceptor with its world, the
  tool calls in flight, and the upstream.  The requests and replies are those of \<open>server.rs\<close> and
  \<open>upstream.rs\<close>; sockets and threads are not modelled.
\<close>

section \<open>Requests, replies, answers\<close>

type_synonym headers = "(str \<times> str) list"

record http_request =
  hr_method :: str
  hr_target :: str
  hr_minor :: nat
  hr_headers :: headers
  hr_body :: bytes

definition header :: "http_request \<Rightarrow> str \<Rightarrow> str option" where
  "header req name = map_option snd (find (\<lambda>(k, _). eq_ignore_ascii_case k name) (hr_headers req))"

definition req_path :: "http_request \<Rightarrow> str" where
  "req_path req = hd (split_on (\<lambda>c. c = CHR ''?'') (hr_target req))"

text \<open>An event stream is the list of what it will give, an error being the last item that counts.\<close>

datatype reply =
    Full nat headers "str option" bytes
  | Stream nat headers "(str + sse_event) list"

fun reply_status :: "reply \<Rightarrow> nat" where
  "reply_status (Full status _ _ _) = status"
| "reply_status (Stream status _ _) = status"

record 'u upstream_ops =
  uo_post :: "bytes \<Rightarrow> headers \<Rightarrow> 'u \<Rightarrow> 'u \<times> (str + reply)"
  uo_get :: "headers \<Rightarrow> 'u \<Rightarrow> 'u \<times> (str + reply)"
  uo_delete :: "headers \<Rightarrow> 'u \<Rightarrow> 'u \<times> (str + reply)"
  uo_kind :: str

text \<open>
  What the agent is sent: a complete answer, or a stream of chunks with whether it was ended properly.
  Nothing is sent if the head of a stream cannot be written.
\<close>

datatype http_answer = Send nat headers bytes | Streamed nat headers "bytes list" bool | Nothing

text \<open>The agent's end of the connection: whether the head of a stream and its chunks can be written.\<close>

record responder =
  rd_open :: bool
  rd_write :: "nat \<Rightarrow> bool"

record http_options =
  op_path :: str
  op_allow_remote :: bool
  op_allowed_origins :: "str list"
  op_agent_token :: "str option"
  op_forward_agent_auth :: bool

definition WRIT_UPSTREAM_ERROR_CODE :: int where "WRIT_UPSTREAM_ERROR_CODE = -32044"
definition HEADER_MISMATCH_CODE :: int where "HEADER_MISMATCH_CODE = -32020"
definition INFLIGHT_CAP :: nat where "INFLIGHT_CAP = 4096"
definition MAX_BATCH :: nat where "MAX_BATCH = 64"
definition FORWARD :: "str list" where
  "FORWARD = [''mcp-session-id'', ''mcp-protocol-version'', ''last-event-id'', ''mcp-method'', ''mcp-name'']"

section \<open>The shared state\<close>

type_synonym flight_key = "str \<times> request_id"

record inflight =
  if_map :: "flight_key \<rightharpoonup> tool_call \<times> bool"
  if_order :: "flight_key list"

fun evict :: "nat \<Rightarrow> inflight \<Rightarrow> inflight" where
  "evict 0 i = i"
| "evict (Suc n) i =
     (case if_order i of
        [] \<Rightarrow> i
      | k # ks \<Rightarrow> if length (k # ks) > INFLIGHT_CAP then evict n \<lparr>if_map = (if_map i)(k := None), if_order = ks\<rparr> else i)"

text \<open>The queue has at most one key too many; its length is enough fuel.\<close>

definition inflight_insert :: "flight_key \<Rightarrow> tool_call \<Rightarrow> inflight \<Rightarrow> inflight" where
  "inflight_insert k call i =
     (let j = \<lparr>if_map = (if_map i)(k \<mapsto> (call, False)), if_order = (if if_map i k = None then if_order i @ [k] else if_order i)\<rparr>
      in evict (length (if_order j)) j)"

definition inflight_remove :: "flight_key \<Rightarrow> inflight \<Rightarrow> inflight" where
  "inflight_remove k i = \<lparr>if_map = (if_map i)(k := None), if_order = filter (\<lambda>k'. k' \<noteq> k) (if_order i)\<rparr>"

definition drop_session :: "str \<Rightarrow> inflight \<Rightarrow> inflight" where
  "drop_session s i =
     \<lparr>if_map = (\<lambda>k. if fst k \<noteq> s then if_map i k else None), if_order = filter (\<lambda>k. fst k \<noteq> s) (if_order i)\<rparr>"

text \<open>\<open>hx_running\<close>: the thread that owns the interceptor still takes jobs.\<close>

record ('u, 'h) http_proxy =
  hx_core :: interceptor
  hx_world :: 'h
  hx_running :: bool
  hx_seq :: nat
  hx_inflight :: inflight
  hx_upstream :: 'u

record relay_ctx =
  cx_session :: str
  cx_req_id :: "request_id option"
  cx_method :: "str option"
  cx_call :: "tool_call option"

text \<open>Parameters: the hooks, \<open>serde_json\<close>, base64, the upstream and the options.\<close>

record ('u, 'h) http_deps =
  hd_hooks :: "'h hooks"
  hd_json :: rpc_deps
  hd_base64 :: "str \<Rightarrow> bytes option"
  hd_upstream :: "'u upstream_ops"
  hd_options :: http_options

section \<open>Small functions\<close>

definition obj_error :: "int \<Rightarrow> str \<Rightarrow> json" where
  "obj_error c msg = JObj [(''code'', json_of_int c), (''message'', JStr msg)]"

definition error_json :: "json option \<Rightarrow> int \<Rightarrow> str \<Rightarrow> json" where
  "error_json i c msg = JObj ([(''error'', obj_error c msg)] @ opt_field ''id'' i @ [(''jsonrpc'', JStr ''2.0'')])"

definition error_body :: "rpc_deps \<Rightarrow> request_id option \<Rightarrow> int \<Rightarrow> str \<Rightarrow> bytes" where
  "error_body J i c msg = json_to_string J (error_json (map_option json_of_id i) c msg)"

definition json_headers :: "headers \<Rightarrow> headers" where
  "json_headers extra = (''Content-Type'', ''application/json'') # extra"

definition decode_mirrored :: "(str \<Rightarrow> bytes option) \<Rightarrow> str \<Rightarrow> str option" where
  "decode_mirrored b64 v =
     (case Option.bind (strip_prefix v ''=?base64?'') (\<lambda>r. strip_suffix r ''?='') of
        Some t \<Rightarrow> (case b64 t of Some b \<Rightarrow> if is_utf8 b then Some b else None | None \<Rightarrow> None)
      | None \<Rightarrow> Some v)"

definition session_of :: "http_request \<Rightarrow> str" where
  "session_of req = (case header req ''mcp-session-id'' of Some s \<Rightarrow> s | None \<Rightarrow> [])"

definition upstream_msg :: "str \<Rightarrow> str" where
  "upstream_msg detail = ''writ proxy: upstream MCP server unavailable (fail closed): '' @ detail"

definition withheld_response :: "request_id \<Rightarrow> rpc_response" where
  "withheld_response i = error_response i
     \<lparr>er_code = WRIT_UPSTREAM_ERROR_CODE,
      er_message = ''writ proxy: the upstream reply could not be inspected and was withheld (fail closed)'',
      er_data = Some (JObj [(''writ_withheld'', JBool True)])\<rparr>"

definition quoted :: "str \<Rightarrow> str" where
  "quoted s = [CHR 0x27] @ s @ [CHR 0x27]"

definition check_mirrored :: "(str \<Rightarrow> bytes option) \<Rightarrow> http_request \<Rightarrow> rpc_message \<Rightarrow> str + unit" where
  "check_mirrored b64 req msg =
     (let check = (\<lambda>meth params.
        rbind (case header req ''mcp-method'' of
                 Some h \<Rightarrow> if h \<noteq> meth then Inl (''Header mismatch: Mcp-Method header value '' @ quoted h @ '' does not match body value '' @ quoted meth)
                           else Inr ()
               | None \<Rightarrow> Inr ()) (\<lambda>_.
          case header req ''mcp-name'' of
            None \<Rightarrow> Inr ()
          | Some h \<Rightarrow>
              rbind (ok_or (decode_mirrored b64 h) ''Header mismatch: Mcp-Name is not valid base64'') (\<lambda>decoded.
                let body = (case Option.bind (Option.bind params (\<lambda>p. case json_get p ''name'' of Some v \<Rightarrow> Some v | None \<Rightarrow> json_get p ''uri'')) as_str of
                              Some s \<Rightarrow> s | None \<Rightarrow> [])
                in if decoded \<noteq> body then Inl (''Header mismatch: Mcp-Name header value '' @ quoted decoded @ '' does not match body value '' @ quoted body)
                   else Inr ())))
      in case msg of Request r \<Rightarrow> check (rq_method r) (rq_params r) | Notification n \<Rightarrow> check (nt_method n) (nt_params n) | Response _ \<Rightarrow> Inr ())"

definition forward_headers :: "http_options \<Rightarrow> http_request \<Rightarrow> headers" where
  "forward_headers opts req =
     filter (\<lambda>(k, _). let lower = to_ascii_lowercase k in
         lower \<in> set FORWARD \<or> starts_with lower ''mcp-param-'' \<or>
         (lower = ''authorization'' \<and> op_forward_agent_auth opts \<and> op_agent_token opts = None))
       (hr_headers req)"

definition check_security :: "http_options \<Rightarrow> http_request \<Rightarrow> nat \<times> str + unit" where
  "check_security opts req =
     rbind (if \<not> op_allow_remote opts \<and> \<not> (case header req ''host'' of Some h \<Rightarrow> is_loopback_name (host_part h) | None \<Rightarrow> False)
            then Inl (403, ''writ proxy: Host is not a loopback name (DNS-rebinding guard)'') else Inr ()) (\<lambda>_.
     rbind (case header req ''origin'' of
              None \<Rightarrow> Inr ()
            | Some origin \<Rightarrow>
                if (\<forall>allowed\<in>set (op_allowed_origins opts).
                      \<not> eq_ignore_ascii_case (trim_end_matches CHR ''/'' allowed) (trim_end_matches CHR ''/'' origin)) \<and> \<not> origin_is_loopback origin
                then Inl (403, ''writ proxy: Origin not allowed (DNS-rebinding guard)'') else Inr ()) (\<lambda>_.
       case op_agent_token opts of
         None \<Rightarrow> Inr ()
       | Some token \<Rightarrow>
           let presented = (case Option.bind (header req ''authorization'')
                                (\<lambda>a. case strip_prefix a ''Bearer '' of Some t \<Rightarrow> Some t | None \<Rightarrow> strip_prefix a ''bearer '') of
                              Some t \<Rightarrow> t | None \<Rightarrow> [])
           in if \<not> ct_eq (trim presented) token then Inl (401, ''writ proxy: missing or wrong proxy token'') else Inr ()))"

section \<open>Jobs of the interceptor\<close>

text \<open>The next number, as the atomic counter of 64 bits gives it.\<close>

definition shared_intercept ::
  "('u, 'h) http_deps \<Rightarrow> rpc_request \<Rightarrow> ('u, 'h) http_proxy \<Rightarrow> ('u, 'h) http_proxy \<times> interception" where
  "shared_intercept D req px =
     (let n = (hx_seq px + 1) mod 2 ^ 64; px = px\<lparr>hx_seq := n\<rparr>
      in if \<not> hx_running px
         then (px, IRefused (refusal (rq_id req) ''writ internal error (fail closed): decision pipeline unavailable''))
         else
           let core = (hx_core px)\<lparr>ic_transport := uo_kind (hd_upstream D)\<rparr>;
               cid = ic_session_id core @ '':'' @ show_nat n @ '':'' @ show_request_id (rq_id req);
               (h, i) = intercept (hd_hooks D) core req (Some cid) (hx_world px)
           in (px\<lparr>hx_core := core, hx_world := h\<rparr>, i))"

definition shared_mask :: "('u, 'h) http_deps \<Rightarrow> tool_call \<Rightarrow> json \<Rightarrow> ('u, 'h) http_proxy \<Rightarrow> ('u, 'h) http_proxy \<times> json" where
  "shared_mask D call v px =
     (if hx_running px then (let (h, v') = mask (hd_hooks D) call v (hx_world px) in (px\<lparr>hx_world := h\<rparr>, v'))
      else (px, JObj [(''withheld_by_writ'', JBool True)]))"

text \<open>\<open>Option::take\<close> on the parameters happens whether or not there is a call (as in the stdio proxy).\<close>

definition mask_params ::
  "('u, 'h) http_deps \<Rightarrow> tool_call option \<Rightarrow> json option \<Rightarrow> ('u, 'h) http_proxy \<Rightarrow> ('u, 'h) http_proxy \<times> json option" where
  "mask_params D call params px =
     (case (call, params) of
        (Some c, Some p) \<Rightarrow> (let (px, p') = shared_mask D c p px in (px, Some p'))
      | _ \<Rightarrow> (px, None))"

definition finish_response ::
  "('u, 'h) http_deps \<Rightarrow> relay_ctx \<Rightarrow> rpc_response \<Rightarrow> ('u, 'h) http_proxy \<Rightarrow> ('u, 'h) http_proxy \<times> rpc_response" where
  "finish_response D ctx r px =
     (let k = (cx_session ctx, rsp_id r)
      in case if_map (hx_inflight px) k of
           Some (call, seen) \<Rightarrow>
             (let px = px\<lparr>hx_inflight := (hx_inflight px)\<lparr>if_map := (if_map (hx_inflight px))(k \<mapsto> (call, True))\<rparr>\<rparr>
              in if \<not> seen then
                   (if hx_running px
                    then (let (h, r') = complete (hd_hooks D) call r (hx_world px) in (px\<lparr>hx_world := h\<rparr>, r'))
                    else (px, withheld_response (rsp_id r)))
                 else
                   (case rsp_result r of
                      Some v \<Rightarrow> (let (px, v') = shared_mask D call v px in (px, r\<lparr>rsp_result := Some v'\<rparr>))
                    | None \<Rightarrow> (px, r)))
         | None \<Rightarrow>
             (case (cx_method ctx, cx_req_id ctx) of
                (Some meth, Some i) \<Rightarrow>
                  (if i = rsp_id r \<and> hx_running px then px\<lparr>hx_core := observe_response meth r (hx_core px)\<rparr> else px, r)
              | _ \<Rightarrow> (px, r)))"

section \<open>Replies of the upstream\<close>

definition from_message :: "rpc_deps \<Rightarrow> rpc_message \<Rightarrow> bytes" where
  "from_message J m = json_to_string J (json_of_message m)"

definition process_event ::
  "('u, 'h) http_deps \<Rightarrow> relay_ctx \<Rightarrow> sse_event \<Rightarrow> ('u, 'h) http_proxy \<Rightarrow> ('u, 'h) http_proxy \<times> sse_event option \<times> bool" where
  "process_event D ctx ev px =
     (if se_data ev = [] then (px, Some ev, False)
      else
        let foreign = (case se_event ev of Some e \<Rightarrow> e \<noteq> ''message'' | None \<Rightarrow> False);
            parsed = (if foreign then None else ok (parse_message (hd_json D) (se_data ev)));
            out = (\<lambda>m. Some (ev\<lparr>se_data := from_message (hd_json D) m\<rparr>))
        in case parsed of
             None \<Rightarrow> if cx_call ctx \<noteq> None then (px, None, False) else (px, Some ev, False)
           | Some (Response r) \<Rightarrow>
               (let (px, r') = finish_response D ctx r px in (px, out (Response r'), cx_req_id ctx = Some (rsp_id r)))
           | Some (Notification n) \<Rightarrow>
               (let (px, p) = mask_params D (cx_call ctx) (nt_params n) px in (px, out (Notification (n\<lparr>nt_params := p\<rparr>)), False))
           | Some (Request q) \<Rightarrow>
               (let (px, p) = mask_params D (cx_call ctx) (rq_params q) px in (px, out (Request (q\<lparr>rq_params := p\<rparr>)), False)))"

definition rewrite_full ::
  "('u, 'h) http_deps \<Rightarrow> relay_ctx \<Rightarrow> nat \<Rightarrow> str option \<Rightarrow> bytes \<Rightarrow> ('u, 'h) http_proxy \<Rightarrow> ('u, 'h) http_proxy \<times> nat \<times> str option \<times> bytes" where
  "rewrite_full D ctx status ctype body px =
     (if body = [] then (px, status, ctype, body)
      else
        let is_json = (case ctype of Some c \<Rightarrow> starts_with (to_ascii_lowercase c) ''application/json'' | None \<Rightarrow> False)
        in case (if is_json then ok (parse_message (hd_json D) body) else None) of
             Some (Response r) \<Rightarrow>
               (let (px, r') = finish_response D ctx r px in (px, status, ctype, from_message (hd_json D) (Response r')))
           | _ \<Rightarrow>
               (case (cx_call ctx, cx_req_id ctx) of
                  (Some _, Some i) \<Rightarrow>
                    (px, if 200 \<le> status \<and> status < 300 then 200 else status, Some ''application/json'',
                     from_message (hd_json D) (Response (withheld_response i)))
                | _ \<Rightarrow> (px, status, ctype, body)))"

text \<open>The first event with the final response.\<close>

fun collapse_events ::
  "('u, 'h) http_deps \<Rightarrow> relay_ctx \<Rightarrow> (str + sse_event) list \<Rightarrow> ('u, 'h) http_proxy \<Rightarrow> ('u, 'h) http_proxy \<times> str option" where
  "collapse_events D ctx [] px = (px, None)"
| "collapse_events D ctx (Inl e # evs) px = (px, None)"
| "collapse_events D ctx (Inr ev # evs) px =
     (case process_event D ctx ev px of
        (px, Some out, True) \<Rightarrow> (px, Some (se_data out))
      | (px, _, _) \<Rightarrow> collapse_events D ctx evs px)"

definition collapse ::
  "('u, 'h) http_deps \<Rightarrow> reply \<Rightarrow> relay_ctx \<Rightarrow> ('u, 'h) http_proxy \<Rightarrow> ('u, 'h) http_proxy \<times> nat \<times> headers \<times> str option \<times> bytes" where
  "collapse D rep ctx px =
     (case rep of
        Full status hs ctype body \<Rightarrow>
          (let (px, s, c, b) = rewrite_full D ctx status ctype body px in (px, s, hs, c, b))
      | Stream _ hs evs \<Rightarrow>
          (case collapse_events D ctx evs px of
             (px, Some d) \<Rightarrow> (px, 200, hs, Some ''application/json'', d)
           | (px, None) \<Rightarrow>
               (px, if cx_req_id ctx \<noteq> None then 200 else 406, hs, Some ''application/json'',
                case cx_req_id ctx of
                  Some i \<Rightarrow> error_body (hd_json D) (Some i) WRIT_UPSTREAM_ERROR_CODE ''writ proxy: upstream stream ended without a response''
                | None \<Rightarrow> error_body (hd_json D) None (-32000) ''writ proxy: this client does not accept text/event-stream'')))"

text \<open>
  Relaying a stream: the chunks written so far, and whether the stream was ended properly.  An error of
  the upstream, or of a write, ends it abruptly.
\<close>

fun relay_events ::
  "('u, 'h) http_deps \<Rightarrow> relay_ctx \<Rightarrow> (nat \<Rightarrow> bool) \<Rightarrow> (str + sse_event) list \<Rightarrow> bytes list \<Rightarrow> ('u, 'h) http_proxy \<Rightarrow>
   ('u, 'h) http_proxy \<times> bytes list \<times> bool" where
  "relay_events D ctx wr [] sent px = (px, sent, True)"
| "relay_events D ctx wr (Inl e # evs) sent px = (px, sent, False)"
| "relay_events D ctx wr (Inr ev # evs) sent px =
     (case process_event D ctx ev px of
        (px, Some out, final) \<Rightarrow>
          if \<not> wr (length sent) then (px, sent, False)
          else if final then (px, sent @ [sse_encode out], True)
          else relay_events D ctx wr evs (sent @ [sse_encode out]) px
      | (px, None, final) \<Rightarrow> if final then (px, sent, True) else relay_events D ctx wr evs sent px)"

definition stream_headers :: "headers \<Rightarrow> headers" where
  "stream_headers hs = hs @ [(''Content-Type'', ''text/event-stream''), (''Cache-Control'', ''no-cache''), (''X-Accel-Buffering'', ''no'')]"

definition relay ::
  "('u, 'h) http_deps \<Rightarrow> reply \<Rightarrow> relay_ctx \<Rightarrow> responder \<Rightarrow> bool \<Rightarrow> ('u, 'h) http_proxy \<Rightarrow> ('u, 'h) http_proxy \<times> http_answer" where
  "relay D rep ctx rd accepts_sse px =
     (let whole = (let (px, status, hs, ctype, body) = collapse D rep ctx px
                   in (px, Send status (case ctype of Some c \<Rightarrow> if body \<noteq> [] then hs @ [(''Content-Type'', c)] else hs | None \<Rightarrow> hs) body))
      in case rep of
           Stream status hs evs \<Rightarrow>
             if \<not> accepts_sse then whole
             else if \<not> rd_open rd then (px, Nothing)
             else (let (px, sent, finished) = relay_events D ctx (rd_write rd) evs [] px
                   in (px, Streamed status (stream_headers hs) sent finished))
         | Full _ _ _ _ \<Rightarrow> whole)"

section \<open>Requests of the agent\<close>

definition up_post :: "('u, 'h) http_deps \<Rightarrow> bytes \<Rightarrow> headers \<Rightarrow> ('u, 'h) http_proxy \<Rightarrow> ('u, 'h) http_proxy \<times> (str + reply)" where
  "up_post D body hs px = (let (u, r) = uo_post (hd_upstream D) body hs (hx_upstream px) in (px\<lparr>hx_upstream := u\<rparr>, r))"

definition bad_reply :: "('u, 'h) http_deps \<Rightarrow> nat \<Rightarrow> request_id option \<Rightarrow> int \<Rightarrow> str \<Rightarrow> http_answer" where
  "bad_reply D status i c msg = Send status (json_headers []) (error_body (hd_json D) i c msg)"

text \<open>A \<open>tools/call\<close> is decided and entered before it is posted: the refusal, or the call to forward.\<close>

definition admit ::
  "('u, 'h) http_deps \<Rightarrow> str \<Rightarrow> rpc_request \<Rightarrow> ('u, 'h) http_proxy \<Rightarrow> ('u, 'h) http_proxy \<times> (rpc_response + tool_call option)" where
  "admit D session r px =
     (if rq_method r = ''tools/call'' then
        (case shared_intercept D r px of
           (px, IRefused resp) \<Rightarrow> (px, Inl resp)
         | (px, IForward call) \<Rightarrow>
             (px\<lparr>hx_inflight := inflight_insert (session, rq_id r) call (hx_inflight px)\<rparr>, Inr (Some call)))
      else (px, Inr None))"

definition request_ctx :: "str \<Rightarrow> rpc_request \<Rightarrow> tool_call option \<Rightarrow> relay_ctx" where
  "request_ctx session r call = \<lparr>cx_session = session, cx_req_id = Some (rq_id r), cx_method = Some (rq_method r), cx_call = call\<rparr>"

definition plain_ctx :: "str \<Rightarrow> relay_ctx" where
  "plain_ctx session = \<lparr>cx_session = session, cx_req_id = None, cx_method = None, cx_call = None\<rparr>"

fun batch_loop ::
  "('u, 'h) http_deps \<Rightarrow> str \<Rightarrow> headers \<Rightarrow> json list \<Rightarrow> json list \<Rightarrow> headers \<Rightarrow> ('u, 'h) http_proxy \<Rightarrow>
   ('u, 'h) http_proxy \<times> json list \<times> headers" where
  "batch_loop D session fwd [] out hs px = (px, out, hs)"
| "batch_loop D session fwd (item # items) out hs px =
     (case message_of_json item of
        Inl _ \<Rightarrow> batch_loop D session fwd items (out @ [error_json (Some JNull) (-32600) ''Invalid Request'']) hs px
      | Inr (Request r) \<Rightarrow>
          (case admit D session r px of
             (px, Inl resp) \<Rightarrow> batch_loop D session fwd items (out @ [json_of_response resp]) hs px
           | (px, Inr call) \<Rightarrow>
               (case up_post D (from_message (hd_json D) (Request r)) fwd px of
                  (px, Inr rep) \<Rightarrow>
                    (let (px, _, hs', _, body) = collapse D rep (request_ctx session r call) px
                     in batch_loop D session fwd items
                          (out @ [case json_from_str (hd_json D) body of Inr v \<Rightarrow> v
                                  | Inl _ \<Rightarrow> error_json (Some (json_of_id (rq_id r))) WRIT_UPSTREAM_ERROR_CODE ''writ proxy: unusable upstream reply (withheld)''])
                          (if hs = [] then hs' else hs) px)
                | (px, Inl e) \<Rightarrow>
                    batch_loop D session fwd items
                      (out @ [case json_from_str (hd_json D) (error_body (hd_json D) (Some (rq_id r)) WRIT_UPSTREAM_ERROR_CODE (upstream_msg e)) of
                                Inr v \<Rightarrow> v | Inl _ \<Rightarrow> JNull]) hs px))
      | Inr m \<Rightarrow> (let (px, _) = up_post D (from_message (hd_json D) m) fwd px in batch_loop D session fwd items out hs px))"

definition batch_items :: "('u, 'h) http_deps \<Rightarrow> http_request \<Rightarrow> json list \<Rightarrow> ('u, 'h) http_proxy \<Rightarrow> ('u, 'h) http_proxy \<times> http_answer" where
  "batch_items D req items px =
     (if items = [] \<or> length items > MAX_BATCH then (px, bad_reply D 400 None (-32600) ''Invalid Request: empty or oversized batch'')
      else
        let (px, out, hs) = batch_loop D (session_of req) (forward_headers (hd_options D) req) items [] [] px
        in (px, if out = [] then Send 202 hs [] else Send 200 (json_headers hs) (json_to_string (hd_json D) (JArr out))))"

definition batch :: "('u, 'h) http_deps \<Rightarrow> http_request \<Rightarrow> json list \<Rightarrow> ('u, 'h) http_proxy \<Rightarrow> ('u, 'h) http_proxy \<times> http_answer" where
  "batch D req items px =
     (case header req ''mcp-protocol-version'' of
        Some v \<Rightarrow>
          if v \<noteq> ''2025-03-26''
          then (px, bad_reply D 400 None (-32600) (''Invalid Request: JSON-RPC batches are not part of MCP '' @ v))
          else batch_items D req items px
      | None \<Rightarrow> batch_items D req items px)"

definition post_request ::
  "('u, 'h) http_deps \<Rightarrow> http_request \<Rightarrow> rpc_request \<Rightarrow> responder \<Rightarrow> bool \<Rightarrow> ('u, 'h) http_proxy \<Rightarrow> ('u, 'h) http_proxy \<times> http_answer" where
  "post_request D req r rd accepts_sse px =
     (let session = session_of req
      in case admit D session r px of
           (px, Inl resp) \<Rightarrow> (px, Send 200 (json_headers []) (from_message (hd_json D) (Response resp)))
         | (px, Inr call) \<Rightarrow>
             (case up_post D (from_message (hd_json D) (Request r)) (forward_headers (hd_options D) req) px of
                (px, Inr rep) \<Rightarrow> relay D rep (request_ctx session r call) rd accepts_sse px
              | (px, Inl e) \<Rightarrow>
                  (if call \<noteq> None then px\<lparr>hx_inflight := inflight_remove (session, rq_id r) (hx_inflight px)\<rparr> else px,
                   bad_reply D 200 (Some (rq_id r)) WRIT_UPSTREAM_ERROR_CODE (upstream_msg e))))"

text \<open>A body that is not a batch.\<close>

definition post_message ::
  "('u, 'h) http_deps \<Rightarrow> http_request \<Rightarrow> responder \<Rightarrow> bool \<Rightarrow> json \<Rightarrow> ('u, 'h) http_proxy \<Rightarrow> ('u, 'h) http_proxy \<times> http_answer" where
  "post_message D req rd accepts_sse v px =
     (case message_of_json v of
        Inl _ \<Rightarrow> (px, bad_reply D 400 None (-32600) ''Invalid Request: not a JSON-RPC 2.0 message'')
      | Inr msg \<Rightarrow>
          (case check_mirrored (hd_base64 D) req msg of
             Inl m \<Rightarrow> (px, bad_reply D 400 (case msg of Request r \<Rightarrow> Some (rq_id r) | _ \<Rightarrow> None) HEADER_MISMATCH_CODE m)
           | Inr _ \<Rightarrow>
               (case msg of
                  Request r \<Rightarrow> post_request D req r rd accepts_sse px
                | _ \<Rightarrow>
                    (case up_post D (from_message (hd_json D) msg) (forward_headers (hd_options D) req) px of
                       (px, Inr rep) \<Rightarrow> relay D rep (plain_ctx (session_of req)) rd accepts_sse px
                     | (px, Inl e) \<Rightarrow> (px, bad_reply D 502 None WRIT_UPSTREAM_ERROR_CODE (upstream_msg e))))))"

definition post :: "('u, 'h) http_deps \<Rightarrow> http_request \<Rightarrow> responder \<Rightarrow> ('u, 'h) http_proxy \<Rightarrow> ('u, 'h) http_proxy \<times> http_answer" where
  "post D req rd px =
     (let ct = to_ascii_lowercase (case header req ''content-type'' of Some c \<Rightarrow> c | None \<Rightarrow> [])
      in if \<not> starts_with ct ''application/json'' then (px, bad_reply D 415 None (-32600) ''writ proxy: POST body must be application/json'')
         else
           case json_from_str (hd_json D) (hr_body req) of
             Inl _ \<Rightarrow> (px, bad_reply D 400 None (-32700) ''Parse error'')
           | Inr v \<Rightarrow>
               let accepts_sse = (case header req ''accept'' of Some a \<Rightarrow> str_contains a ''text/event-stream'' \<or> str_contains a ''*/*'' | None \<Rightarrow> False)
               in case as_array v of
                    Some items \<Rightarrow> batch D req items px
                  | None \<Rightarrow> post_message D req rd accepts_sse v px)"

definition http_handle :: "('u, 'h) http_deps \<Rightarrow> http_request \<Rightarrow> responder \<Rightarrow> ('u, 'h) http_proxy \<Rightarrow> ('u, 'h) http_proxy \<times> http_answer" where
  "http_handle D req rd px =
     (let fwd = forward_headers (hd_options D) req; U = hd_upstream D; ctx = plain_ctx (session_of req);
          down = (\<lambda>e. bad_reply D 502 None WRIT_UPSTREAM_ERROR_CODE (upstream_msg e))
      in if req_path req \<noteq> op_path (hd_options D) then (px, Send 404 [] [])
         else
           case check_security (hd_options D) req of
             Inl (status, msg) \<Rightarrow>
               (px, Send status (json_headers [] @ (if status = 401 then [(''WWW-Authenticate'', ''Bearer'')] else []))
                      (error_body (hd_json D) None (-32000) msg))
           | Inr _ \<Rightarrow>
               if hr_method req = ''POST'' then post D req rd px
               else if hr_method req = ''GET'' then
                 (case uo_get U fwd (hx_upstream px) of
                    (u, Inr rep) \<Rightarrow> relay D rep ctx rd True (px\<lparr>hx_upstream := u\<rparr>)
                  | (u, Inl e) \<Rightarrow> (px\<lparr>hx_upstream := u\<rparr>, down e))
               else if hr_method req = ''DELETE'' then
                 (case uo_delete U fwd (hx_upstream px) of
                    (u, Inr rep) \<Rightarrow>
                      (let px = px\<lparr>hx_upstream := u\<rparr>;
                           px = (if 200 \<le> reply_status rep \<and> reply_status rep < 300
                                 then px\<lparr>hx_inflight := drop_session (session_of req) (hx_inflight px)\<rparr> else px)
                       in relay D rep ctx rd False px)
                  | (u, Inl e) \<Rightarrow> (px\<lparr>hx_upstream := u\<rparr>, down e))
               else (px, Send 405 [(''Allow'', ''GET, POST, DELETE'')] []))"

end
