(* ===== verification/Mcp_Http_Claims.thy ===== *)
theory Mcp_Http_Claims
  imports Mcp_Http
begin

text \<open>
  What the Streamable HTTP proxy promises: requests are guarded, the table of calls in flight is bounded,
  a \<open>tools/call\<close> reaches the upstream only with its decision on record, and its output goes back masked.
\<close>

section \<open>What every request keeps\<close>

text \<open>The JSON-RPC requests in the body of an HTTP request.\<close>

definition body_requests :: "rpc_deps \<Rightarrow> http_request \<Rightarrow> rpc_request set" where
  "body_requests J req =
     {r. \<exists>v. json_from_str J (hr_body req) = Inr v \<and>
        (message_of_json v = Inr (Request r) \<or> (\<exists>items. v = JArr items \<and> Inr (Request r) \<in> set (map message_of_json items)))}"

text \<open>
  A property \<open>P\<close> of the shared state is kept by every request if it is kept by the operations the
  handlers are made of.  \<open>Q\<close> says which messages may be posted, \<open>adm\<close> which requests the agent may make.
\<close>

locale http_kept =
  fixes D :: "('u, 'h) http_deps"
    and P :: "('u, 'h) http_proxy \<Rightarrow> bool"
    and Q :: "('u, 'h) http_proxy \<Rightarrow> rpc_message \<Rightarrow> bool"
    and adm :: "rpc_request \<Rightarrow> bool"
  assumes admit_refuses: "P px \<Longrightarrow> adm r \<Longrightarrow> admit D s r px = (px', Inl resp) \<Longrightarrow> P px'"
    and admit_forwards: "P px \<Longrightarrow> adm r \<Longrightarrow> admit D s r px = (px', Inr call) \<Longrightarrow> P px' \<and> Q px' (Request r)"
    and no_request: "P px \<Longrightarrow> (\<And>r. m \<noteq> Request r) \<Longrightarrow> Q px m"
    and post_kept: "P px \<Longrightarrow> Q px m \<Longrightarrow> up_post D (from_message (hd_json D) m) hs px = (px', x) \<Longrightarrow> P px'"
    and finish_kept: "P px \<Longrightarrow> finish_response D ctx resp px = (px', resp') \<Longrightarrow> P px'"
    and mask_kept: "P px \<Longrightarrow> shared_mask D c v px = (px', v') \<Longrightarrow> P px'"
    and get_kept: "P px \<Longrightarrow> uo_get (hd_upstream D) hs (hx_upstream px) = (u, x) \<Longrightarrow> P (px\<lparr>hx_upstream := u\<rparr>)"
    and delete_kept: "P px \<Longrightarrow> uo_delete (hd_upstream D) hs (hx_upstream px) = (u, x) \<Longrightarrow> P (px\<lparr>hx_upstream := u\<rparr>)"
    and remove_kept: "P px \<Longrightarrow> P (px\<lparr>hx_inflight := inflight_remove k (hx_inflight px)\<rparr>)"
    and drop_kept: "P px \<Longrightarrow> P (px\<lparr>hx_inflight := drop_session s (hx_inflight px)\<rparr>)"
begin

lemma mask_params_kept: "P px \<Longrightarrow> mask_params D call ps px = (px', ps') \<Longrightarrow> P px'"
  using mask_kept by (auto simp: mask_params_def split: option.splits prod.splits)

lemma process_event_kept:
  assumes "P px" and "process_event D ctx ev px = (px', x)"
  shows "P px'"
proof -
  have "px' = px \<or> (\<exists>r r'. finish_response D ctx r px = (px', r')) \<or> (\<exists>c v v'. mask_params D c v px = (px', v'))"
    using assms(2) unfolding process_event_def Let_def by (auto split: if_splits option.splits rpc_message.splits prod.splits)
  with assms(1) finish_kept mask_params_kept show ?thesis by blast
qed

lemma collapse_events_kept: "P px \<Longrightarrow> collapse_events D ctx evs px = (px', x) \<Longrightarrow> P px'"
proof (induction evs arbitrary: px)
  case (Cons e evs)
  show ?case
  proof (cases e)
    case (Inr ev)
    obtain px1 out fin where e: "process_event D ctx ev px = (px1, out, fin)" by (metis prod_cases3)
    with Cons Inr process_event_kept [OF Cons.prems(1) e] show ?thesis by (cases out; cases fin) auto
  qed (use Cons.prems in simp)
qed simp

lemma relay_events_kept: "P px \<Longrightarrow> relay_events D ctx wr evs sent px = (px', x) \<Longrightarrow> P px'"
proof (induction evs arbitrary: px sent)
  case (Cons e evs)
  show ?case
  proof (cases e)
    case (Inr ev)
    obtain px1 out fin where e: "process_event D ctx ev px = (px1, out, fin)" by (metis prod_cases3)
    with Cons Inr process_event_kept [OF Cons.prems(1) e] show ?thesis by (cases out; cases fin) (auto split: if_splits)
  qed (use Cons.prems in simp)
qed simp

lemma collapse_kept:
  assumes "P px" and "collapse D rep ctx px = (px', x)"
  shows "P px'"
proof (cases rep)
  case (Full status hs ctype body)
  with assms finish_kept show ?thesis
    by (auto simp: collapse_def rewrite_full_def Let_def split: if_splits option.splits rpc_message.splits prod.splits)
next
  case (Stream status hs evs)
  with assms collapse_events_kept [OF assms(1)] show ?thesis
    by (auto simp: collapse_def split: option.splits prod.splits)
qed

lemma relay_kept: "P px \<Longrightarrow> relay D rep ctx rd sse px = (px', ans) \<Longrightarrow> P px'"
proof -
  assume p: "P px" and r: "relay D rep ctx rd sse px = (px', ans)"
  have "px' = px \<or> px' = fst (collapse D rep ctx px) \<or> (\<exists>evs. px' = fst (relay_events D ctx (rd_write rd) evs [] px))"
    using r by (cases rep) (auto simp: relay_def Let_def case_prod_beta split: if_splits)
  with p collapse_kept [OF p prod.collapse [symmetric]] relay_events_kept [OF p prod.collapse [symmetric]] show "P px'" by metis
qed

lemma post_request_kept:
  assumes "P px" and "adm r" and "post_request D req r rd sse px = (px', ans)"
  shows "P px'"
proof -
  obtain px1 x where a: "admit D (session_of req) r px = (px1, x)" by fastforce
  show ?thesis
  proof (cases x)
    case (Inl resp)
    with assms a admit_refuses show ?thesis by (auto simp: post_request_def Let_def)
  next
    case (Inr call)
    obtain px2 y where p: "up_post D (from_message (hd_json D) (Request r)) (forward_headers (hd_options D) req) px1 = (px2, y)" by fastforce
    with admit_forwards [OF assms(1,2)] post_kept a Inr have p2: "P px2" by blast
    note kept = relay_kept [OF p2] remove_kept [OF p2]
    show ?thesis
    proof (cases y)
      case (Inl e)
      with assms(3) a Inr p p2 kept(2) show ?thesis by (auto simp: post_request_def Let_def)
    next
      case rep: (Inr rep)
      with assms(3) a Inr p have "relay D rep (request_ctx (session_of req) r call) rd sse px2 = (px', ans)"
        by (simp add: post_request_def Let_def)
      then show ?thesis by (rule kept(1))
    qed
  qed
qed

lemma batch_loop_kept:
  assumes "P px" and "\<And>r. Inr (Request r) \<in> set (map message_of_json items) \<Longrightarrow> adm r"
    and "batch_loop D s fwd items out hs px = (px', x)"
  shows "P px'"
  using assms
proof (induction items arbitrary: out hs px)
  case (Cons item items)
  have adm': "adm r" if "Inr (Request r) \<in> set (map message_of_json items)" for r using that Cons.prems(2) by simp
  show ?case
  proof (cases "message_of_json item")
    case (Inl e)
    with Cons.IH [OF Cons.prems(1) adm'] Cons.prems(3) show ?thesis by simp
  next
    case (Inr m)
    show ?thesis
    proof (cases "\<exists>r. m = Request r")
      case False
      obtain px1 y where y: "up_post D (from_message (hd_json D) m) fwd px = (px1, y)" by fastforce
      then have "P px1" using post_kept [OF Cons.prems(1) no_request [OF Cons.prems(1)]] False by blast
      from Cons.IH [OF this adm'] Cons.prems(3) Inr False y show ?thesis by (cases m) auto
    next
      case True
      then obtain r where r: "m = Request r" by blast
      with Inr Cons.prems(2) have "adm r" by auto
      obtain px1 y where y: "admit D s r px = (px1, y)" by fastforce
      show ?thesis
      proof (cases y)
        case (Inl resp)
        from Cons.IH [OF admit_refuses [OF Cons.prems(1) \<open>adm r\<close> y [unfolded Inl]] adm'] Cons.prems(3) Inr r y Inl show ?thesis by simp
      next
        case call: (Inr call)
        obtain px2 z where z: "up_post D (from_message (hd_json D) (Request r)) fwd px1 = (px2, z)" by fastforce
        with admit_forwards [OF Cons.prems(1) \<open>adm r\<close> y [unfolded call]] post_kept have p2: "P px2" by blast
        show ?thesis
        proof (cases z)
          case (Inl e)
          from Cons.IH [OF p2 adm'] Cons.prems(3) Inr r y call z Inl show ?thesis by simp
        next
          case rep: (Inr rep)
          obtain px3 w where c: "collapse D rep (request_ctx s r call) px2 = (px3, w)" by (meson surj_pair)
          from Cons.IH [OF collapse_kept [OF p2 c] adm'] Cons.prems(3) Inr r y call z rep c show ?thesis
            by (cases w) (simp add: case_prod_beta)
        qed
      qed
    qed
  qed
qed simp

lemma post_message_kept:
  assumes "P px" and "\<And>r. message_of_json v = Inr (Request r) \<Longrightarrow> adm r" and "post_message D req rd sse v px = (px', ans)"
  shows "P px'"
proof (cases "message_of_json v")
  case (Inr m)
  show ?thesis
  proof (cases "\<exists>r. m = Request r")
    case True
    with assms Inr post_request_kept show ?thesis by (auto simp: post_message_def split: sum.splits)
  next
    case False
    obtain px1 y where y: "up_post D (from_message (hd_json D) m) (forward_headers (hd_options D) req) px = (px1, y)" by fastforce
    then have "P px1" using post_kept [OF assms(1) no_request [OF assms(1)]] False by blast
    with assms(1,3) Inr False y relay_kept show ?thesis
      by (cases m; cases y) (auto simp: post_message_def split: sum.splits)
  qed
qed (use assms in \<open>auto simp: post_message_def\<close>)

lemma post_all_kept:
  assumes "P px" and "\<And>r. r \<in> body_requests (hd_json D) req \<Longrightarrow> adm r" and "post D req rd px = (px', ans)"
  shows "P px'"
proof (cases "json_from_str (hd_json D) (hr_body req)")
  case (Inl e)
  with assms show ?thesis by (auto simp: post_def Let_def split: if_splits)
next
  case (Inr v)
  have a: "adm r" if "as_array v = Some items" "Inr (Request r) \<in> set (map message_of_json items)" for r items
    using assms(2) [of r] that Inr by (cases v) (auto simp: body_requests_def)
  have "P px'" if "as_array v = Some items" "batch_items D req items px = (px', ans)" for items
    using that(2) assms(1) batch_loop_kept [OF assms(1) a [OF that(1)]] by (auto simp: batch_items_def Let_def split: if_splits prod.splits)
  moreover have "P px'" if "post_message D req rd sse v px = (px', ans)" for sse
    using post_message_kept [OF assms(1) _ that] assms(2) Inr by (auto simp: body_requests_def)
  ultimately show ?thesis using assms(1,3) Inr
    by (auto simp: post_def Let_def batch_def split: if_splits option.splits)
qed

lemma http_handle_kept:
  assumes "P px" and "\<And>r. r \<in> body_requests (hd_json D) req \<Longrightarrow> adm r" and "http_handle D req rd px = (px', ans)"
  shows "P px'"
proof -
  let ?fwd = "forward_headers (hd_options D) req" and ?ctx = "plain_ctx (session_of req)"
  let ?down = "\<lambda>e. bad_reply D 502 None WRIT_UPSTREAM_ERROR_CODE (upstream_msg e)"
  let ?dropped = "\<lambda>u rep. if 200 \<le> reply_status rep \<and> reply_status rep < 300
    then px\<lparr>hx_upstream := u, hx_inflight := drop_session (session_of req) (hx_inflight px)\<rparr> else px\<lparr>hx_upstream := u\<rparr>"
  have "px' = px \<or> post D req rd px = (px', ans) \<or>
      (case uo_get (hd_upstream D) ?fwd (hx_upstream px) of
         (u, Inr rep) \<Rightarrow> relay D rep ?ctx rd True (px\<lparr>hx_upstream := u\<rparr>) | (u, Inl e) \<Rightarrow> (px\<lparr>hx_upstream := u\<rparr>, ?down e)) = (px', ans) \<or>
      (case uo_delete (hd_upstream D) ?fwd (hx_upstream px) of
         (u, Inr rep) \<Rightarrow> relay D rep ?ctx rd False (?dropped u rep) | (u, Inl e) \<Rightarrow> (px\<lparr>hx_upstream := u\<rparr>, ?down e)) = (px', ans)"
    using assms(3) by (auto simp: http_handle_def Let_def case_prod_beta split: if_splits sum.split_asm)
  then show ?thesis
  proof (elim disjE)
    assume g: "(case uo_get (hd_upstream D) ?fwd (hx_upstream px) of
         (u, Inr rep) \<Rightarrow> relay D rep ?ctx rd True (px\<lparr>hx_upstream := u\<rparr>) | (u, Inl e) \<Rightarrow> (px\<lparr>hx_upstream := u\<rparr>, ?down e)) = (px', ans)"
    obtain u x where u: "uo_get (hd_upstream D) ?fwd (hx_upstream px) = (u, x)" by fastforce
    from g u get_kept [OF assms(1) u] relay_kept [OF get_kept [OF assms(1) u]] show ?thesis by (cases x) auto
  next
    assume g: "(case uo_delete (hd_upstream D) ?fwd (hx_upstream px) of
         (u, Inr rep) \<Rightarrow> relay D rep ?ctx rd False (?dropped u rep) | (u, Inl e) \<Rightarrow> (px\<lparr>hx_upstream := u\<rparr>, ?down e)) = (px', ans)"
    obtain u x where u: "uo_delete (hd_upstream D) ?fwd (hx_upstream px) = (u, x)" by fastforce
    note k = delete_kept [OF assms(1) u]
    have "P (?dropped u rep)" for rep using k drop_kept [OF k, of "session_of req"] by simp
    show ?thesis
    proof (cases x)
      case (Inl e)
      with k g u show ?thesis by simp
    next
      case (Inr rep)
      with g u have "relay D rep ?ctx rd False (?dropped u rep) = (px', ans)" by simp
      then show ?thesis by (rule relay_kept [OF \<open>\<And>rep. P (?dropped u rep)\<close>])
    qed
  qed (use assms(1) post_all_kept [OF assms(1,2)] in blast)+
qed

end

section \<open>The calls in flight\<close>

definition inflight_ok :: "inflight \<Rightarrow> bool" where
  "inflight_ok i \<longleftrightarrow> distinct (if_order i) \<and> set (if_order i) = dom (if_map i) \<and> length (if_order i) \<le> INFLIGHT_CAP"

lemma evict_ok:
  assumes "distinct (if_order i)" and "set (if_order i) = dom (if_map i)"
  shows "distinct (if_order (evict n i)) \<and> set (if_order (evict n i)) = dom (if_map (evict n i)) \<and>
    length (if_order (evict n i)) \<le> max INFLIGHT_CAP (length (if_order i) - n)"
  using assms
proof (induction n i rule: evict.induct)
  case (2 n i)
  show ?case
  proof (cases "if_order i")
    case (Cons k ks)
    let ?i = "\<lparr>if_map = (if_map i)(k := None), if_order = ks\<rparr>"
    show ?thesis
    proof (cases "length (k # ks) > INFLIGHT_CAP")
      case True
      have "distinct (if_order ?i)" "set (if_order ?i) = dom (if_map ?i)" using 2(2,3) Cons by auto
      note IH = 2(1) [OF Cons True this]
      have "evict (Suc n) i = evict n ?i" "length (if_order ?i) - n = length (if_order i) - Suc n" using Cons True by simp_all
      with IH show ?thesis by simp
    qed (use 2 Cons in simp)
  qed (use 2 in simp)
qed simp

lemma inflight_insert_ok: "inflight_ok i \<Longrightarrow> inflight_ok (inflight_insert k c i)"
proof -
  assume ok: "inflight_ok i"
  define j where "j = \<lparr>if_map = (if_map i)(k \<mapsto> (c, False)), if_order = (if if_map i k = None then if_order i @ [k] else if_order i)\<rparr>"
  have "distinct (if_order j)" "set (if_order j) = dom (if_map j)"
    using ok by (auto simp: j_def inflight_ok_def insert_absorb domI)
  from evict_ok [OF this, of "length (if_order j)"] have "inflight_ok (evict (length (if_order j)) j)"
    by (simp add: inflight_ok_def)
  then show ?thesis by (simp add: inflight_insert_def j_def)
qed

lemma inflight_remove_ok: "inflight_ok i \<Longrightarrow> inflight_ok (inflight_remove k i)"
  by (auto simp: inflight_ok_def inflight_remove_def intro: le_trans [OF length_filter_le])

lemma drop_session_ok: "inflight_ok i \<Longrightarrow> inflight_ok (drop_session s i)"
  by (auto simp: inflight_ok_def drop_session_def dom_def intro: le_trans [OF length_filter_le])

lemma inflight_seen_ok: "inflight_ok i \<Longrightarrow> if_map i k = Some x \<Longrightarrow> inflight_ok (i\<lparr>if_map := (if_map i)(k \<mapsto> y)\<rparr>)"
  by (auto simp: inflight_ok_def insert_absorb domI)

lemma shared_intercept_frame:
  "shared_intercept D r px = (px', x) \<Longrightarrow> hx_inflight px' = hx_inflight px \<and> hx_upstream px' = hx_upstream px"
  by (auto simp: shared_intercept_def Let_def split: if_splits prod.splits)

lemma shared_mask_frame:
  "shared_mask D c v px = (px', v') \<Longrightarrow> hx_inflight px' = hx_inflight px \<and> hx_upstream px' = hx_upstream px \<and> hx_core px' = hx_core px"
  by (auto simp: shared_mask_def split: if_splits prod.splits)

lemma finish_response_inflight:
  assumes "finish_response D ctx r px = (px', r')"
  shows "hx_inflight px' = hx_inflight px \<or>
    (\<exists>k c b. if_map (hx_inflight px) k = Some (c, b) \<and> hx_inflight px' = (hx_inflight px)\<lparr>if_map := (if_map (hx_inflight px))(k \<mapsto> (c, True))\<rparr>)"
  using assms
  by (fastforce simp: finish_response_def Let_def dest!: shared_mask_frame split: option.splits prod.splits if_splits)

interpretation bounded: http_kept D "\<lambda>px. inflight_ok (hx_inflight px)" "\<lambda>_ _. True" "\<lambda>_. True" for D
proof
  fix px r s px' resp
  assume "inflight_ok (hx_inflight px)" "admit D s r px = (px', Inl resp)"
  then show "inflight_ok (hx_inflight px')"
    by (auto simp: admit_def dest: shared_intercept_frame split: if_splits prod.splits interception.splits)
next
  fix px r s px' call
  assume "inflight_ok (hx_inflight px)" "admit D s r px = (px', Inr call)"
  then show "inflight_ok (hx_inflight px') \<and> True"
    by (auto simp: admit_def dest!: shared_intercept_frame intro!: inflight_insert_ok split: if_splits prod.splits interception.splits)
next
  fix px ctx resp px' resp'
  assume "inflight_ok (hx_inflight px)" "finish_response D ctx resp px = (px', resp')"
  from this(1) finish_response_inflight [OF this(2)] show "inflight_ok (hx_inflight px')"
    by (elim disjE exE conjE) (simp_all add: inflight_seen_ok)
next
  fix px c v px' v'
  assume "inflight_ok (hx_inflight px)" "shared_mask D c v px = (px', v')"
  then show "inflight_ok (hx_inflight px')" by (auto dest: shared_mask_frame)
qed (auto simp: up_post_def inflight_remove_ok drop_session_ok split: prod.splits)

text \<open>The requests the proxy serves, one after the other, each with the agent's end of its connection.\<close>

fun http_serve ::
  "('u, 'h) http_deps \<Rightarrow> (http_request \<times> responder) list \<Rightarrow> ('u, 'h) http_proxy \<Rightarrow> ('u, 'h) http_proxy \<times> http_answer list" where
  "http_serve D [] px = (px, [])"
| "http_serve D ((req, rd) # reqs) px =
     (let (px, ans) = http_handle D req rd px; (px, answers) = http_serve D reqs px in (px, ans # answers))"

context http_kept
begin

lemma http_serve_kept:
  "P px \<Longrightarrow> (\<And>req rd r. (req, rd) \<in> set reqs \<Longrightarrow> r \<in> body_requests (hd_json D) req \<Longrightarrow> adm r) \<Longrightarrow> http_serve D reqs px = (px', answers) \<Longrightarrow> P px'"
proof (induction reqs arbitrary: px answers)
  case (Cons x reqs)
  obtain req rd where x: "x = (req, rd)" by fastforce
  obtain px1 ans where h: "http_handle D req rd px = (px1, ans)" by fastforce
  obtain px2 rest where r: "http_serve D reqs px1 = (px2, rest)" by fastforce
  have "P px1" using http_handle_kept [OF Cons.prems(1) _ h] Cons.prems(2) x by auto
  moreover have "px' = px2" using Cons.prems(3) x h r by simp
  ultimately show ?case using Cons.IH [of px1 rest] Cons.prems(2) r by auto
qed simp

end

text \<open>
  C30. The table of calls in flight stays within its bound: whatever requests are served, every key is
  queued once and there are never more than 4096, so an agent cannot make the proxy grow.
\<close>

theorem http_inflight_bounded:
  assumes "inflight_ok (hx_inflight px)" and "http_serve D reqs px = (px', answers)"
  shows "inflight_ok (hx_inflight px')"
  using bounded.http_serve_kept [OF assms(1) _ assms(2)] by simp

section \<open>Decided before it is posted\<close>

text \<open>An upstream that remembers the bodies it was posted.\<close>

definition logging :: "'u upstream_ops \<Rightarrow> ('u \<times> bytes list) upstream_ops" where
  "logging U =
     \<lparr>uo_post = (\<lambda>body hs (u, log). let (u', r) = uo_post U body hs u in ((u', log @ [body]), r)),
      uo_get = (\<lambda>hs (u, log). let (u', r) = uo_get U hs u in ((u', log), r)),
      uo_delete = (\<lambda>hs (u, log). let (u', r) = uo_delete U hs u in ((u', log), r)),
      uo_kind = uo_kind U\<rparr>"

text \<open>The proxy with the policy engine and the file ledger behind it.\<close>

definition gate_http ::
  "ledger_deps \<Rightarrow> gate_deps \<Rightarrow> native_engine \<Rightarrow> rpc_deps \<Rightarrow> (str \<Rightarrow> bytes option) \<Rightarrow> 'u upstream_ops \<Rightarrow> http_options \<Rightarrow>
   ('u \<times> bytes list, fstore gate_world) http_deps" where
  "gate_http L G eng J b64 U opts = \<lparr>hd_hooks = mcp_interceptor L (fs_ops L) G eng, hd_json = J, hd_base64 = b64,
     hd_upstream = logging U, hd_options = opts\<rparr>"

lemma gate_http_simps [simp]:
  "hd_hooks (gate_http L G eng J b64 U opts) = mcp_interceptor L (fs_ops L) G eng"
  "hd_json (gate_http L G eng J b64 U opts) = J"
  "hd_upstream (gate_http L G eng J b64 U opts) = logging U"
  "hd_options (gate_http L G eng J b64 U opts) = opts"
  by (simp_all add: gate_http_def)

text \<open>The interceptor is the same, up to the transport and the schemas it has seen.\<close>

definition same_owner :: "interceptor \<Rightarrow> interceptor \<Rightarrow> bool" where
  "same_owner ic ic' \<longleftrightarrow> ic_config ic' = ic_config ic \<and> ic_session_id ic' = ic_session_id ic \<and> ic_user ic' = ic_user ic"

definition http_call :: "interceptor \<Rightarrow> str \<Rightarrow> timestamp \<Rightarrow> rpc_request \<Rightarrow> str \<Rightarrow> tool_call" where
  "http_call ic kind now r cid = make_call (ic\<lparr>ic_transport := kind\<rparr>) now r (Some cid)"

lemma http_call_owner: "same_owner ic ic' \<Longrightarrow> http_call ic' kind now r cid = http_call ic kind now r cid"
  by (simp add: http_call_def make_call_def same_owner_def Let_def)

text \<open>The arguments of a tool call have no floating-point numbers.\<close>

definition exact_args :: "rpc_request \<Rightarrow> bool" where
  "exact_args r \<longleftrightarrow> float_free (case Option.bind (rq_params r) (\<lambda>p. json_get p ''arguments'') of Some a \<Rightarrow> a | None \<Rightarrow> JNull)"

lemma exact_args_call: "exact_args r \<Longrightarrow> float_free (tc_args (http_call ic kind now r cid))"
  by (cases "rq_params r") (auto simp: exact_args_def http_call_def make_call_def Let_def split: option.splits)

text \<open>A body that may be posted: a message that is no tool call, or one whose decision is on record.\<close>

definition decided_message :: "gate_deps \<Rightarrow> native_engine \<Rightarrow> interceptor \<Rightarrow> str \<Rightarrow> ledger_record list \<Rightarrow> rpc_message \<Rightarrow> bool" where
  "decided_message G eng ic kind rs m \<longleftrightarrow>
     (\<forall>r. m = Request r \<and> rq_method r = ''tools/call'' \<longrightarrow> (\<exists>now cid. on_record G eng rs (http_call ic kind now r cid)))"

definition http_safe ::
  "ledger_deps \<Rightarrow> gate_deps \<Rightarrow> native_engine \<Rightarrow> rpc_deps \<Rightarrow> 'u upstream_ops \<Rightarrow> interceptor \<Rightarrow> bytes list \<Rightarrow>
   ('u \<times> bytes list, fstore gate_world) http_proxy \<Rightarrow> bool" where
  "http_safe L G eng J U ic old px \<longleftrightarrow> gate_inv L (hx_world px) \<and> same_owner ic (hx_core px) \<and>
     (\<exists>ms. snd (hx_upstream px) = old @ map (from_message J) ms \<and>
        (\<forall>m\<in>set ms. decided_message G eng ic (uo_kind U) (fs_chain L (gw_store (hx_world px))) m))"

lemma decided_grows:
  assumes "gate.grows L G eng h h'" and "decided_message G eng ic kind (fs_chain L (gw_store h)) m"
  shows "decided_message G eng ic kind (fs_chain L (gw_store h')) m"
  using assms by (fastforce simp: decided_message_def gate.grows_def)

lemma http_safe_step:
  assumes "http_safe L G eng J U ic old px" and "gate.grows L G eng (hx_world px) (hx_world px')"
    and "same_owner ic (hx_core px')" and "snd (hx_upstream px') = snd (hx_upstream px)"
  shows "http_safe L G eng J U ic old px'"
  using assms decided_grows [OF assms(2)] unfolding http_safe_def gate.grows_def by (metis (no_types, lifting))

lemma grows_refl: "gate_inv L h \<Longrightarrow> gate.grows L G eng h h"
  by (simp add: gate.grows_def)

lemma shared_mask_safe:
  assumes "http_safe L G eng J U ic old px" and "shared_mask (gate_http L G eng J b64 U opts) c v px = (px', v')"
  shows "http_safe L G eng J U ic old px'"
proof -
  have "gate_inv L (hx_world px)" "same_owner ic (hx_core px)" using assms(1) by (simp_all add: http_safe_def)
  with assms show ?thesis
    by (intro http_safe_step [OF assms(1)]) (auto simp: shared_mask_def mask_def transform_hook_def grows_refl split: if_splits)
qed

lemma finish_response_safe:
  assumes "http_safe L G eng J U ic old px" and "finish_response (gate_http L G eng J b64 U opts) ctx resp px = (px', resp')"
  shows "http_safe L G eng J U ic old px'"
proof -
  let ?D = "gate_http L G eng J b64 U opts"
  have g: "gate_inv L (hx_world px)" "same_owner ic (hx_core px)" using assms(1) by (simp_all add: http_safe_def)
  show ?thesis
  proof (cases "if_map (hx_inflight px) (cx_session ctx, rsp_id resp)")
    case None
    then have "hx_world px' = hx_world px \<and> hx_upstream px' = hx_upstream px \<and> same_owner ic (hx_core px')"
      using assms(2) g(2)
      by (auto simp: finish_response_def observe_response_def same_owner_def split: option.splits if_splits)
    with g grows_refl show ?thesis by (intro http_safe_step [OF assms(1)]) auto
  next
    case (Some cb)
    obtain call seen where cb: "cb = (call, seen)" by fastforce
    let ?px = "px\<lparr>hx_inflight := (hx_inflight px)\<lparr>if_map := (if_map (hx_inflight px))((cx_session ctx, rsp_id resp) \<mapsto> (call, True))\<rparr>\<rparr>"
    have s: "http_safe L G eng J U ic old ?px" using assms(1) by (simp add: http_safe_def)
    show ?thesis
    proof (cases seen)
      case True
      with assms(2) Some cb s shared_mask_safe [OF s] show ?thesis
        by (auto simp: finish_response_def Let_def split: option.splits prod.splits)
    next
      case False
      obtain h r where c: "complete (hd_hooks ?D) call resp (hx_world px) = (h, r)" by fastforce
      then have "gate.grows L G eng (hx_world ?px) h" using gate.complete_grows [OF g(1)] by simp
      then have "http_safe L G eng J U ic old (?px\<lparr>hx_world := h\<rparr>)"
        using g(2) by (intro http_safe_step [OF s]) simp_all
      with assms(2) Some cb s c False show ?thesis
        by (auto simp: finish_response_def Let_def split: if_splits)
    qed
  qed
qed

lemma admit_safe:
  assumes "http_safe L G eng J U ic old px" and "exact_args r" and "admit (gate_http L G eng J b64 U opts) session r px = (px', x)"
  shows "http_safe L G eng J U ic old px' \<and>
    (x \<in> range Inr \<longrightarrow> decided_message G eng ic (uo_kind U) (fs_chain L (gw_store (hx_world px'))) (Request r))"
proof (cases "rq_method r = ''tools/call''")
  case False
  with assms show ?thesis by (auto simp: admit_def decided_message_def)
next
  case tool: True
  let ?D = "gate_http L G eng J b64 U opts" and ?n = "(hx_seq px + 1) mod 2 ^ 64"
  have g: "gate_inv L (hx_world px)" "same_owner ic (hx_core px)" using assms(1) by (simp_all add: http_safe_def)
  show ?thesis
  proof (cases "hx_running px")
    case False
    then have "px' = px\<lparr>hx_seq := ?n\<rparr> \<and> x \<notin> range Inr" using assms(3) tool by (auto simp: admit_def shared_intercept_def)
    with assms(1) show ?thesis by (simp add: http_safe_def)
  next
    case True
    let ?now = "gd_clock G (gw_ticks (hx_world px))"
    let ?cid = "ic_session_id (hx_core px) @ '':'' @ show_nat ?n @ '':'' @ show_request_id (rq_id r)"
    let ?c = "http_call ic (uo_kind U) ?now r ?cid"
    have mk: "make_call ((hx_core px)\<lparr>ic_transport := uo_kind U\<rparr>) ?now r (Some ?cid) = ?c"
      using http_call_owner [OF g(2)] by (simp add: http_call_def)
    obtain h d where d: "hk_decide (hd_hooks ?D) ?c (hx_world px) = (h, d)" by fastforce
    then have ok: "gate_inv L h \<and> (d = Forward \<longrightarrow> on_record G eng (fs_chain L (gw_store h)) ?c) \<and>
        (\<forall>c'. on_record G eng (fs_chain L (gw_store (hx_world px))) c' \<longrightarrow> on_record G eng (fs_chain L (gw_store h)) c')"
      using gate.decide_ok [OF g(1) exact_args_call [OF assms(2)]] by simp
    let ?px = "px\<lparr>hx_seq := ?n, hx_core := (hx_core px)\<lparr>ic_transport := uo_kind U\<rparr>, hx_world := h\<rparr>"
    have "http_safe L G eng J U ic old ?px"
      using ok g(2) by (intro http_safe_step [OF assms(1)]) (simp_all add: gate.grows_def same_owner_def)
    moreover have "px' = ?px \<and> d \<noteq> Forward \<and> x \<notin> range Inr \<or>
        (\<exists>i. px' = ?px\<lparr>hx_inflight := i\<rparr>) \<and> d = Forward"
      using assms(3) tool True d mk
      by (cases d) (auto simp: admit_def shared_intercept_def intercept_def Let_def logging_def)
    moreover have "d = Forward \<Longrightarrow> decided_message G eng ic (uo_kind U) (fs_chain L (gw_store h)) (Request r)"
      using ok unfolding decided_message_def by blast
    ultimately show ?thesis by (auto simp: http_safe_def)
  qed
qed

interpretation recorded: http_kept "gate_http L G eng J b64 U opts" "http_safe L G eng J U ic old"
  "\<lambda>px. decided_message G eng ic (uo_kind U) (fs_chain L (gw_store (hx_world px)))" exact_args
  for L G eng J b64 U opts ic old
proof
  fix px m hs px' x
  assume a: "http_safe L G eng J U ic old px" "decided_message G eng ic (uo_kind U) (fs_chain L (gw_store (hx_world px))) m"
    "up_post (gate_http L G eng J b64 U opts) (from_message (hd_json (gate_http L G eng J b64 U opts)) m) hs px = (px', x)"
  then obtain ms where "snd (hx_upstream px) = old @ map (from_message J) ms"
      "\<forall>m\<in>set ms. decided_message G eng ic (uo_kind U) (fs_chain L (gw_store (hx_world px))) m"
    by (auto simp: http_safe_def)
  moreover from a(3) have "snd (hx_upstream px') = snd (hx_upstream px) @ [from_message J m]" "hx_world px' = hx_world px" "hx_core px' = hx_core px"
    by (auto simp: up_post_def logging_def split: prod.splits)
  ultimately show "http_safe L G eng J U ic old px'"
    using a(1,2) unfolding http_safe_def by (auto intro!: exI [of _ "ms @ [m]"])
next
  fix px hs u and x :: "str + reply"
  assume "http_safe L G eng J U ic old px"
    "uo_get (hd_upstream (gate_http L G eng J b64 U opts)) hs (hx_upstream px) = (u, x)"
  then show "http_safe L G eng J U ic old (px\<lparr>hx_upstream := u\<rparr>)"
    by (auto simp: http_safe_def logging_def split: prod.splits)
next
  fix px hs u and x :: "str + reply"
  assume "http_safe L G eng J U ic old px"
    "uo_delete (hd_upstream (gate_http L G eng J b64 U opts)) hs (hx_upstream px) = (u, x)"
  then show "http_safe L G eng J U ic old (px\<lparr>hx_upstream := u\<rparr>)"
    by (auto simp: http_safe_def logging_def split: prod.splits)
next
  fix px k s
  assume "http_safe L G eng J U ic old px"
  then show "http_safe L G eng J U ic old (px\<lparr>hx_inflight := inflight_remove k (hx_inflight px)\<rparr>)"
    "http_safe L G eng J U ic old (px\<lparr>hx_inflight := drop_session s (hx_inflight px)\<rparr>)"
    by (simp_all add: http_safe_def)
qed (blast dest: admit_safe shared_mask_safe finish_response_safe, blast dest: admit_safe, simp add: decided_message_def,
  blast dest: finish_response_safe, blast dest: shared_mask_safe)

text \<open>
  C3. Over HTTP too, no tool call reaches the server undecided: whatever requests are served, batches
  included, the ledger stays intact, and each body posted to the upstream is the serialization of a
  message; if that message is a \<open>tools/call\<close>, the ledger has the decision record of that call, with a
  verdict of the engine that allows or redacts it.  (The arguments of the calls have no
  floating-point numbers; requests are served one after the other.)
\<close>

theorem http_calls_decided:
  assumes "gate_inv L (hx_world px)" and "http_serve (gate_http L G eng J b64 U opts) reqs px = (px', answers)"
    and "\<And>req rd r. (req, rd) \<in> set reqs \<Longrightarrow> r \<in> body_requests J req \<Longrightarrow> exact_args r"
  shows "\<exists>ms. snd (hx_upstream px') = snd (hx_upstream px) @ map (from_message J) ms \<and> fs_inv L (gw_store (hx_world px')) \<and>
    (\<forall>r. Request r \<in> set ms \<and> rq_method r = ''tools/call'' \<longrightarrow>
       (\<exists>now cid. on_record G eng (fs_chain L (gw_store (hx_world px'))) (http_call (hx_core px) (uo_kind U) now r cid)))"
proof -
  have "http_safe L G eng J U (hx_core px) (snd (hx_upstream px)) px"
    using assms(1) by (auto simp: http_safe_def same_owner_def)
  then have "http_safe L G eng J U (hx_core px) (snd (hx_upstream px)) px'"
    by (rule recorded.http_serve_kept [OF _ _ assms(2)]) (use assms(3) in simp)
  then show ?thesis by (auto simp: http_safe_def decided_message_def gate_inv_def)
qed

section \<open>The guard\<close>

definition guarded :: "http_options \<Rightarrow> http_request \<Rightarrow> bool" where
  "guarded opts req \<longleftrightarrow>
     (op_allow_remote opts \<or> (\<exists>h. header req ''host'' = Some h \<and> is_loopback_name (host_part h))) \<and>
     (case header req ''origin'' of None \<Rightarrow> True
      | Some origin \<Rightarrow> origin_is_loopback origin \<or>
          (\<exists>allowed\<in>set (op_allowed_origins opts). eq_ignore_ascii_case (trim_end_matches CHR ''/'' allowed) (trim_end_matches CHR ''/'' origin))) \<and>
     (case op_agent_token opts of None \<Rightarrow> True
      | Some token \<Rightarrow> \<exists>a t. header req ''authorization'' = Some a \<and> (a = ''Bearer '' @ t \<or> a = ''bearer '' @ t) \<and> trim t = token)"

lemma check_security_guarded:
  assumes "check_security opts req = Inr u" and "op_agent_token opts \<noteq> Some []"
  shows "guarded opts req"
proof -
  have "\<exists>a t. header req ''authorization'' = Some a \<and> (a = ''Bearer '' @ t \<or> a = ''bearer '' @ t) \<and> trim t = token"
    if "op_agent_token opts = Some token" for token
  proof -
    let ?p = "Option.bind (header req ''authorization'')
      (\<lambda>a. case strip_prefix a ''Bearer '' of Some t \<Rightarrow> Some t | None \<Rightarrow> strip_prefix a ''bearer '')"
    have eq: "trim (case ?p of Some t \<Rightarrow> t | None \<Rightarrow> []) = token"
      using assms(1) that by (auto simp: check_security_def rbind_def Let_def ct_eq_iff split: sum.splits if_splits)
    have "trim [] = []" by code_simp
    with eq assms(2) that obtain t where t: "?p = Some t" "trim t = token" by (cases ?p) auto
    then obtain a where a: "header req ''authorization'' = Some a" "strip_prefix a ''Bearer '' = Some t \<or> strip_prefix a ''bearer '' = Some t"
      by (cases "header req ''authorization''") (auto split: option.splits)
    have "a = p @ t" if "strip_prefix a p = Some t" for p
      using that by (auto simp: strip_prefix_def starts_with_iff split: if_splits)
    with a t show ?thesis by blast
  qed
  with assms(1) show ?thesis
    by (auto simp: check_security_def guarded_def rbind_def split: sum.splits if_splits option.splits)
qed

text \<open>
  C15. Nothing happens before the guard: a request that is for another path, whose host is no loopback name,
  whose origin is neither allowed nor loopback, or that does not present the proxy token exactly, is
  answered with 404, 403 or 401 and changes nothing: no decision is made or recorded, and the upstream
  with its injected credentials is not contacted.  (A token of the options is not empty.)
\<close>

theorem http_requests_guarded:
  assumes "http_handle D req rd px = (px', ans)" and "op_agent_token (hd_options D) \<noteq> Some []"
  shows "(px' = px \<and> (\<exists>status hs body. ans = Send status hs body \<and> status \<in> {401, 403, 404})) \<or>
    (req_path req = op_path (hd_options D) \<and> guarded (hd_options D) req)"
proof (cases "check_security (hd_options D) req")
  case (Inl e)
  obtain status msg where e: "e = (status, msg)" by fastforce
  then have "status \<in> {401, 403}" using Inl by (auto simp: check_security_def rbind_def Let_def split: if_splits option.splits)
  with assms(1) Inl e show ?thesis by (auto simp: http_handle_def Let_def split: if_splits)
next
  case (Inr u)
  with assms(1) check_security_guarded [OF Inr assms(2)] show ?thesis
    by (cases "req_path req = op_path (hd_options D)") (auto simp: http_handle_def Let_def)
qed

section \<open>The properties at concrete requests\<close>

text \<open>The request of \<open>demo_request\<close> over HTTP, and an upstream that answers it.\<close>

definition demo_options :: http_options where
  "demo_options = \<lparr>op_path = ''/mcp'', op_allow_remote = False, op_allowed_origins = [], op_agent_token = None, op_forward_agent_auth = False\<rparr>"

definition http_demo :: "headers \<Rightarrow> http_request" where
  "http_demo hs = \<lparr>hr_method = ''POST'', hr_target = ''/mcp'', hr_minor = 1,
     hr_headers = hs @ [(''Content-Type'', ''application/json'')], hr_body = from_message demo_rpc (Request demo_request)\<rparr>"

definition demo_response :: rpc_response where
  "demo_response = \<lparr>rsp_jsonrpc = ''2.0'', rsp_id = IdNum 1, rsp_result = Some (JStr ''the key''), rsp_error = None\<rparr>"

definition demo_upstream :: "unit upstream_ops" where
  "demo_upstream = \<lparr>uo_post = (\<lambda>body hs u. (u, Inr (Full 200 [] (Some ''application/json'') (from_message demo_rpc (Response demo_response))))),
     uo_get = (\<lambda>hs u. (u, Inl ''down'')), uo_delete = (\<lambda>hs u. (u, Inl ''down'')), uo_kind = ''http''\<rparr>"

definition demo_proxy :: "(unit \<times> bytes list, fstore gate_world) http_proxy" where
  "demo_proxy = \<lparr>hx_core = demo_core, hx_world = demo_world, hx_running = True, hx_seq = 0,
     hx_inflight = \<lparr>if_map = Map.empty, if_order = []\<rparr>, hx_upstream = ((), [])\<rparr>"

definition demo_http :: "native_engine \<Rightarrow> (unit \<times> bytes list, fstore gate_world) http_deps" where
  "demo_http eng = gate_http num_deps demo_gate eng demo_rpc (\<lambda>_. None) demo_upstream demo_options"

definition demo_agent :: responder where
  "demo_agent = \<lparr>rd_open = True, rd_write = (\<lambda>_. True)\<rparr>"

lemma demo_body:
  "json_from_str demo_rpc (hr_body (http_demo hs)) = Inr (json_of_request demo_request)"
  "message_of_json (json_of_request demo_request) = Inr (Request demo_request)"
proof -
  have f: "float_free (json_of_request demo_request)"
    by (simp add: demo_request_def new_request_def json_of_request_def opt_field_def)
  with rpc_laws_demo show "json_from_str demo_rpc (hr_body (http_demo hs)) = Inr (json_of_request demo_request)"
    by (simp add: http_demo_def from_message_def rpc_laws_def)
  have "message_wf (Request demo_request)" by (simp add: demo_request_def new_request_def)
  from message_roundtrip [OF this] show "message_of_json (json_of_request demo_request) = Inr (Request demo_request)" by simp
qed

lemma demo_exact: "r \<in> body_requests demo_rpc (http_demo hs) \<Longrightarrow> exact_args r"
proof -
  assume "r \<in> body_requests demo_rpc (http_demo hs)"
  moreover have "json_of_request demo_request \<noteq> JArr items" for items by (simp add: json_of_request_def)
  ultimately have "r = demo_request" using demo_body by (auto simp: body_requests_def)
  then show ?thesis by (simp add: exact_args_def demo_request_def new_request_def)
qed

theorem http_inflight_bounded_witness:
  "\<exists>px' answers. http_serve (demo_http redact_engine) [(http_demo [(''Host'', ''localhost'')], demo_agent)] demo_proxy = (px', answers) \<and>
     inflight_ok (hx_inflight px')"
proof -
  have "inflight_ok (hx_inflight demo_proxy)" by (simp add: demo_proxy_def inflight_ok_def)
  with http_inflight_bounded [of demo_proxy "demo_http redact_engine"] show ?thesis by (meson surj_pair)
qed

theorem http_calls_decided_witness:
  "\<exists>px' answers ms. http_serve (demo_http redact_engine) [(http_demo [(''Host'', ''localhost'')], demo_agent)] demo_proxy = (px', answers) \<and>
     snd (hx_upstream px') = map (from_message demo_rpc) ms \<and> fs_inv num_deps (gw_store (hx_world px')) \<and>
     (\<forall>r. Request r \<in> set ms \<and> rq_method r = ''tools/call'' \<longrightarrow>
       (\<exists>now cid. on_record demo_gate redact_engine (fs_chain num_deps (gw_store (hx_world px'))) (http_call demo_core ''http'' now r cid)))"
proof -
  obtain px' answers where s: "http_serve (demo_http redact_engine) [(http_demo [(''Host'', ''localhost'')], demo_agent)] demo_proxy = (px', answers)"
    by fastforce
  have "gate_inv num_deps (hx_world demo_proxy)" by (simp add: demo_proxy_def demo_world_inv)
  from http_calls_decided [OF this s [unfolded demo_http_def]] demo_exact obtain ms where
    "snd (hx_upstream px') = snd (hx_upstream demo_proxy) @ map (from_message demo_rpc) ms \<and> fs_inv num_deps (gw_store (hx_world px')) \<and>
     (\<forall>r. Request r \<in> set ms \<and> rq_method r = ''tools/call'' \<longrightarrow>
       (\<exists>now cid. on_record demo_gate redact_engine (fs_chain num_deps (gw_store (hx_world px'))) (http_call (hx_core demo_proxy) (uo_kind demo_upstream) now r cid)))"
    by auto
  with s show ?thesis by (auto simp: demo_proxy_def demo_upstream_def)
qed

lemma hostless_not_guarded: "\<not> guarded demo_options (http_demo [])"
proof -
  have "\<not> eq_ignore_ascii_case ''Content-Type'' ''host''" by code_simp
  then have "header (http_demo []) ''host'' = None" by (simp add: header_def http_demo_def)
  then show ?thesis by (simp add: guarded_def demo_options_def)
qed

theorem http_requests_guarded_witness:
  "\<exists>status hs body. http_handle (demo_http redact_engine) (http_demo []) demo_agent demo_proxy = (demo_proxy, Send status hs body) \<and>
     status \<in> {401, 403, 404}"
proof -
  obtain px' ans where h: "http_handle (demo_http redact_engine) (http_demo []) demo_agent demo_proxy = (px', ans)" by fastforce
  have "op_agent_token (hd_options (demo_http redact_engine)) \<noteq> Some []" by (simp add: demo_http_def demo_options_def)
  from http_requests_guarded [OF h this] hostless_not_guarded h show ?thesis by (auto simp: demo_http_def)
qed

end
