(* ===== verification/Mcp_Http_Masks.thy ===== *)
theory Mcp_Http_Masks
  imports Mcp_Http_Claims
begin

text \<open>
  Redaction over HTTP: what an agent is shown of the replies to a redacted tool call, and the two ways in
  which the proxy falls short of what it is meant to show.
\<close>

section \<open>Masked messages\<close>

text \<open>A payload the agent may see: masked, or withheld because the interceptor is gone.\<close>

definition payload_masked :: "gate_deps \<Rightarrow> str list \<Rightarrow> json option \<Rightarrow> bool" where
  "payload_masked G ps v \<longleftrightarrow> v = None \<or> v = Some (JObj [(''withheld_by_writ'', JBool True)]) \<or> (\<exists>u. v = Some (redact_json G ps u))"

fun message_masked :: "gate_deps \<Rightarrow> str list \<Rightarrow> rpc_message \<Rightarrow> bool" where
  "message_masked G ps (Request q) \<longleftrightarrow> payload_masked G ps (rq_params q)"
| "message_masked G ps (Notification n) \<longleftrightarrow> payload_masked G ps (nt_params n)"
| "message_masked G ps (Response r) \<longleftrightarrow> payload_masked G ps (rsp_result r)"

definition text_masked :: "gate_deps \<Rightarrow> rpc_deps \<Rightarrow> str list \<Rightarrow> bytes \<Rightarrow> bool" where
  "text_masked G J ps b \<longleftrightarrow> b = [] \<or> (\<exists>m. b = from_message J m \<and> message_masked G ps m) \<or> (\<exists>i c msg. b = error_body J i c msg)"

text \<open>Whole answers and the data of streamed events.\<close>

fun answer_masked :: "gate_deps \<Rightarrow> rpc_deps \<Rightarrow> str list \<Rightarrow> http_answer \<Rightarrow> bool" where
  "answer_masked G J ps (Send status hs body) \<longleftrightarrow> text_masked G J ps body"
| "answer_masked G J ps (Streamed status hs chunks finished) \<longleftrightarrow>
     (\<forall>chunk\<in>set chunks. \<exists>ev. chunk = sse_encode ev \<and> text_masked G J ps (se_data ev))"
| "answer_masked G J ps Nothing \<longleftrightarrow> True"

text \<open>The responses among a reply carry the id of the request.\<close>

definition own_text :: "rpc_deps \<Rightarrow> request_id \<Rightarrow> str \<Rightarrow> bool" where
  "own_text J i t \<longleftrightarrow> (\<forall>r. parse_message J t = Inr (Response r) \<longrightarrow> rsp_id r = i)"

fun own_reply :: "rpc_deps \<Rightarrow> request_id \<Rightarrow> reply \<Rightarrow> bool" where
  "own_reply J i (Full status hs ctype body) \<longleftrightarrow> own_text J i body"
| "own_reply J i (Stream status hs evs) \<longleftrightarrow> (\<forall>ev. Inr ev \<in> set evs \<longrightarrow> own_text J i (se_data ev))"

text \<open>A tool call is in flight under the context's key, and its patterns are \<open>ps\<close>.\<close>

definition in_flight :: "relay_ctx \<Rightarrow> request_id \<Rightarrow> tool_call \<Rightarrow> str list \<Rightarrow> ('u, 's gate_world) http_proxy \<Rightarrow> bool" where
  "in_flight ctx i call ps px \<longleftrightarrow> cx_call ctx = Some call \<and> cx_req_id ctx = Some i \<and>
     (\<exists>b. if_map (hx_inflight px) (cx_session ctx, i) = Some (call, b)) \<and> patterns_for call (hx_world px) = ps"

section \<open>Replies to a tool call\<close>

lemma shared_mask_gate:
  assumes "shared_mask (gate_http L G eng J b64 U opts) call v px = (px', v')" and "patterns_for call (hx_world px) = ps"
  shows "px' = px \<and> payload_masked G ps (Some v')"
  using assms by (auto simp: shared_mask_def mask_def transform_hook_patterns payload_masked_def split: if_splits)

lemma mask_params_gate:
  assumes "mask_params (gate_http L G eng J b64 U opts) (Some call) v px = (px', v')" and "patterns_for call (hx_world px) = ps"
  shows "px' = px \<and> payload_masked G ps v'"
proof (cases v)
  case None
  with assms(1) show ?thesis by (simp add: mask_params_def payload_masked_def)
next
  case (Some p)
  obtain px1 w where m: "shared_mask (gate_http L G eng J b64 U opts) call p px = (px1, w)" by fastforce
  with shared_mask_gate [OF this assms(2)] assms(1) Some show ?thesis by (auto simp: mask_params_def)
qed

lemma patterns_observed: "patterns_for c (observe_hook L S G call v w) = patterns_for c w"
  by (simp add: patterns_for_def observe_hook_decisions)

lemma complete_gate:
  assumes "complete (mcp_interceptor L (fs_ops L) G eng) call resp w = (w', resp')"
  shows "patterns_for c w' = patterns_for c w \<and>
    resp' = resp\<lparr>rsp_result := map_option (redact_json G (patterns_for call w)) (rsp_result resp)\<rparr>"
proof -
  have "gw_decisions w' = gw_decisions w"
    using assms by (cases "rsp_result resp") (auto simp: complete_def Let_def transform_hook_patterns observe_hook_decisions)
  then show ?thesis using assms complete_masked [of L "fs_ops L" G eng call resp w] by (simp add: patterns_for_def)
qed

lemma finish_response_gate:
  assumes "finish_response (gate_http L G eng J b64 U opts) ctx r px = (px', r')" and "in_flight ctx i call ps px" and "rsp_id r = i"
  shows "in_flight ctx i call ps px' \<and> payload_masked G ps (rsp_result r')"
proof -
  let ?D = "gate_http L G eng J b64 U opts"
  from assms(2,3) obtain seen where f: "if_map (hx_inflight px) (cx_session ctx, rsp_id r) = Some (call, seen)"
    and ps: "patterns_for call (hx_world px) = ps" by (auto simp: in_flight_def)
  let ?px = "px\<lparr>hx_inflight := (hx_inflight px)\<lparr>if_map := (if_map (hx_inflight px))((cx_session ctx, rsp_id r) \<mapsto> (call, True))\<rparr>\<rparr>"
  have i: "in_flight ctx i call ps ?px" using assms(2,3) by (auto simp: in_flight_def)
  show ?thesis
  proof (cases seen)
    case True
    show ?thesis
    proof (cases "rsp_result r")
      case None
      with assms(1) f True i show ?thesis by (auto simp: finish_response_def payload_masked_def)
    next
      case (Some v)
      obtain px1 v' where m: "shared_mask ?D call v ?px = (px1, v')" by fastforce
      with shared_mask_gate [OF m, of ps] ps assms(1) f True i Some show ?thesis by (auto simp: finish_response_def)
    qed
  next
    case False
    show ?thesis
    proof (cases "hx_running px")
      case False
      with assms(1) f \<open>\<not> seen\<close> i show ?thesis
        by (auto simp: finish_response_def payload_masked_def withheld_response_def error_response_def)
    next
      case True
      obtain h r1 where c: "complete (mcp_interceptor L (fs_ops L) G eng) call r (hx_world px) = (h, r1)" by fastforce
      with complete_gate [OF c, of call] assms(1) f \<open>\<not> seen\<close> i True ps show ?thesis
        by (cases "rsp_result r") (auto simp: finish_response_def in_flight_def payload_masked_def)
    qed
  qed
qed

lemma process_event_gate:
  assumes "process_event (gate_http L G eng J b64 U opts) ctx ev px = (px', out, fin)" and "in_flight ctx i call ps px"
    and "own_text J i (se_data ev)"
  shows "in_flight ctx i call ps px' \<and> (\<forall>e. out = Some e \<longrightarrow> text_masked G J ps (se_data e))"
proof (cases "se_data ev = []")
  case True
  with assms show ?thesis by (auto simp: process_event_def text_masked_def)
next
  case data: False
  let ?D = "gate_http L G eng J b64 U opts"
  have c: "cx_call ctx = Some call" and ps: "patterns_for call (hx_world px) = ps" using assms(2) by (simp_all add: in_flight_def)
  let ?parsed = "if (case se_event ev of Some e \<Rightarrow> e \<noteq> ''message'' | None \<Rightarrow> False) then None else ok (parse_message J (se_data ev))"
  show ?thesis
  proof (cases ?parsed)
    case None
    with assms(1,2) data c show ?thesis by (auto simp: process_event_def Let_def split: if_splits)
  next
    case (Some m)
    then have p: "parse_message J (se_data ev) = Inr m"
      by (cases "parse_message J (se_data ev)") (auto split: if_splits)
    show ?thesis
    proof (cases m)
      case (Request q)
      obtain px1 v where v: "mask_params ?D (Some call) (rq_params q) px = (px1, v)" by fastforce
      with mask_params_gate [OF v ps] assms(1,2) data c Some Request show ?thesis
        by (auto simp: process_event_def Let_def text_masked_def intro!: exI [of _ "Request (q\<lparr>rq_params := v\<rparr>)"] split: if_splits)
    next
      case (Notification n)
      obtain px1 v where v: "mask_params ?D (Some call) (nt_params n) px = (px1, v)" by fastforce
      with mask_params_gate [OF v ps] assms(1,2) data c Some Notification show ?thesis
        by (auto simp: process_event_def Let_def text_masked_def intro!: exI [of _ "Notification (n\<lparr>nt_params := v\<rparr>)"] split: if_splits)
    next
      case (Response r)
      obtain px1 r' where v: "finish_response ?D ctx r px = (px1, r')" by fastforce
      have "rsp_id r = i" using assms(3) p Response by (simp add: own_text_def)
      with finish_response_gate [OF v assms(2)] v assms(1) data Some Response show ?thesis
        by (auto simp: process_event_def Let_def text_masked_def intro!: exI [of _ "Response r'"] split: if_splits)
    qed
  qed
qed

lemma collapse_events_gate:
  "collapse_events (gate_http L G eng J b64 U opts) ctx evs px = (px', out) \<Longrightarrow> in_flight ctx i call ps px \<Longrightarrow>
   (\<And>ev. Inr ev \<in> set evs \<Longrightarrow> own_text J i (se_data ev)) \<Longrightarrow> (\<forall>t. out = Some t \<longrightarrow> text_masked G J ps t)"
proof (induction evs arbitrary: px)
  case (Cons e evs)
  show ?case
  proof (cases e)
    case (Inl msg)
    with Cons.prems(1) show ?thesis by simp
  next
    case (Inr ev)
    obtain px1 o1 fin where p: "process_event (gate_http L G eng J b64 U opts) ctx ev px = (px1, o1, fin)" by (metis prod_cases3)
    have own: "own_text J i (se_data ev)" using Cons.prems(3) Inr by simp
    note g = process_event_gate [OF p Cons.prems(2) own]
    show ?thesis
    proof (cases "\<exists>o2. o1 = Some o2 \<and> fin")
      case True
      with Cons.prems(1) Inr p g show ?thesis by auto
    next
      case False
      with Cons.prems(1) Inr p have "collapse_events (gate_http L G eng J b64 U opts) ctx evs px1 = (px', out)"
        by (cases o1; cases fin) auto
      with Cons.IH [OF this conjunct1 [OF g]] Cons.prems(3) show ?thesis by simp
    qed
  qed
qed simp

lemma relay_events_gate:
  "relay_events (gate_http L G eng J b64 U opts) ctx wr evs sent px = (px', chunks, finished) \<Longrightarrow> in_flight ctx i call ps px \<Longrightarrow>
   (\<And>ev. Inr ev \<in> set evs \<Longrightarrow> own_text J i (se_data ev)) \<Longrightarrow>
   (\<forall>c\<in>set sent. \<exists>ev. c = sse_encode ev \<and> text_masked G J ps (se_data ev)) \<Longrightarrow>
   (\<forall>c\<in>set chunks. \<exists>ev. c = sse_encode ev \<and> text_masked G J ps (se_data ev))"
proof (induction evs arbitrary: px sent)
  case (Cons e evs)
  show ?case
  proof (cases e)
    case (Inl msg)
    with Cons.prems show ?thesis by simp
  next
    case (Inr ev)
    obtain px1 o1 fin where p: "process_event (gate_http L G eng J b64 U opts) ctx ev px = (px1, o1, fin)" by (metis prod_cases3)
    have own: "own_text J i (se_data ev)" using Cons.prems(3) Inr by simp
    note g = process_event_gate [OF p Cons.prems(2) own]
    let ?sent = "case o1 of Some o2 \<Rightarrow> sent @ [sse_encode o2] | None \<Rightarrow> sent"
    have s: "\<forall>c\<in>set ?sent. \<exists>ev. c = sse_encode ev \<and> text_masked G J ps (se_data ev)"
      using g Cons.prems(4) by (auto split: option.splits)
    have "chunks = sent \<or> chunks = ?sent \<or> relay_events (gate_http L G eng J b64 U opts) ctx wr evs ?sent px1 = (px', chunks, finished)"
      using Cons.prems(1) Inr p by (cases o1) (auto split: if_splits)
    then show ?thesis
    proof (elim disjE)
      assume "relay_events (gate_http L G eng J b64 U opts) ctx wr evs ?sent px1 = (px', chunks, finished)"
      from Cons.IH [OF this conjunct1 [OF g] _ s] Cons.prems(3) show ?thesis by simp
    qed (use s Cons.prems(4) in simp_all)
  qed
qed simp

lemma rewrite_full_gate:
  assumes "rewrite_full (gate_http L G eng J b64 U opts) ctx status ctype body px = (px', s, c, b)" and "in_flight ctx i call ps px"
    and "own_text J i body"
  shows "text_masked G J ps b"
proof (cases "body = []")
  case True
  with assms(1) show ?thesis by (simp add: rewrite_full_def text_masked_def)
next
  case body: False
  let ?D = "gate_http L G eng J b64 U opts"
  let ?m = "if (case ctype of Some c \<Rightarrow> starts_with (to_ascii_lowercase c) ''application/json'' | None \<Rightarrow> False) then ok (parse_message J body) else None"
  show ?thesis
  proof (cases "\<exists>r. ?m = Some (Response r)")
    case True
    then obtain r where r: "?m = Some (Response r)" by blast
    then have "parse_message J body = Inr (Response r)" by (cases "parse_message J body") (auto split: if_splits)
    then have "rsp_id r = i" using assms(3) by (simp add: own_text_def)
    moreover obtain px1 r' where f: "finish_response ?D ctx r px = (px1, r')" by fastforce
    ultimately have "payload_masked G ps (rsp_result r')" using finish_response_gate [OF f assms(2)] by blast
    moreover have "b = from_message J (Response r')" using assms(1) body r f by (auto simp: rewrite_full_def Let_def split: if_splits)
    ultimately show ?thesis by (auto simp: text_masked_def intro!: exI [of _ "Response r'"])
  next
    case False
    then have "b = from_message J (Response (withheld_response i))"
      using assms(1,2) body by (auto simp: rewrite_full_def Let_def in_flight_def split: if_splits option.splits rpc_message.splits)
    then show ?thesis
      by (auto simp: text_masked_def payload_masked_def withheld_response_def error_response_def
          intro!: exI [of _ "Response (withheld_response i)"])
  qed
qed

lemma relay_gate:
  assumes "relay (gate_http L G eng J b64 U opts) rep ctx rd sse px = (px', ans)" and "in_flight ctx i call ps px" and "own_reply J i rep"
  shows "answer_masked G J ps ans"
proof (cases rep)
  case (Full status hs ctype body)
  let ?D = "gate_http L G eng J b64 U opts"
  obtain px1 s c b where r: "rewrite_full ?D ctx status ctype body px = (px1, s, c, b)" by (metis prod_cases4)
  with assms(1) Full have "\<exists>hs'. ans = Send s hs' b" by (auto simp: relay_def collapse_def Let_def)
  with rewrite_full_gate [OF r assms(2)] assms(3) Full show ?thesis by auto
next
  case (Stream status hs evs)
  let ?D = "gate_http L G eng J b64 U opts"
  have own: "own_text J i (se_data ev)" if "Inr ev \<in> set evs" for ev using assms(3) Stream that by simp
  have req: "cx_req_id ctx = Some i" using assms(2) by (simp add: in_flight_def)
  show ?thesis
  proof (cases sse)
    case True
    obtain px1 chunks fin where e: "relay_events ?D ctx (rd_write rd) evs [] px = (px1, chunks, fin)" by (metis prod_cases3)
    with relay_events_gate [OF e assms(2) own] assms(1) Stream True show ?thesis
      by (auto simp: relay_def Let_def split: if_splits)
  next
    case False
    obtain px1 out where e: "collapse_events ?D ctx evs px = (px1, out)" by fastforce
    note g = collapse_events_gate [OF e assms(2) own]
    have err: "text_masked G J ps (error_body J (Some i) c msg)" for c msg by (auto simp: text_masked_def)
    from g err e assms(1) Stream False req show ?thesis
      by (cases out) (auto simp: relay_def collapse_def Let_def)
  qed
qed

lemma evict_short: "length (if_order i) \<le> INFLIGHT_CAP \<Longrightarrow> evict n i = i"
  by (cases n) (auto split: list.splits)

text \<open>A call that has just been entered is not the one that is evicted.\<close>

lemma inflight_insert_lookup:
  assumes "inflight_ok i"
  shows "if_map (inflight_insert k c i) k = Some (c, False)"
proof -
  define j where "j = \<lparr>if_map = (if_map i)(k \<mapsto> (c, False)), if_order = (if if_map i k = None then if_order i @ [k] else if_order i)\<rparr>"
  have "if_map (evict (length (if_order j)) j) k = Some (c, False)"
  proof (cases "length (if_order j) \<le> INFLIGHT_CAP")
    case True
    then show ?thesis by (simp add: evict_short) (simp add: j_def)
  next
    case False
    then have n: "if_map i k = None" "length (if_order i) = INFLIGHT_CAP"
      using assms by (auto simp: j_def inflight_ok_def split: if_splits)
    then obtain k0 ks where o: "if_order i = k0 # ks" by (cases "if_order i") (auto simp: INFLIGHT_CAP_def)
    then have k0: "k0 \<noteq> k" using n(1) assms by (auto simp: inflight_ok_def domIff)
    have "evict (length (if_order j)) j = evict (length (if_order i)) \<lparr>if_map = (if_map j)(k0 := None), if_order = ks @ [k]\<rparr>"
      using n o by (simp add: j_def)
    also have "\<dots> = \<lparr>if_map = (if_map j)(k0 := None), if_order = ks @ [k]\<rparr>"
      using n(2) o by (intro evict_short) simp
    finally show ?thesis using k0 by (simp add: j_def)
  qed
  then show ?thesis by (simp add: inflight_insert_def j_def)
qed

section \<open>Redacted over HTTP\<close>

text \<open>The call id the proxy gives to a request.\<close>

definition call_number :: "('u, 'h) http_proxy \<Rightarrow> rpc_request \<Rightarrow> str" where
  "call_number px r = ic_session_id (hx_core px) @ '':'' @ show_nat ((hx_seq px + 1) mod 2 ^ 64) @ '':'' @ show_request_id (rq_id r)"

lemma tc_call_id_http [simp]: "tc_call_id (http_call ic kind now r cid) = cid"
  by (simp add: http_call_def make_call_def Let_def)

text \<open>A request that is admitted is in flight, with the patterns of its verdict.\<close>

lemma admit_in_flight:
  assumes "gate_inv L (hx_world px)" and "inflight_ok (hx_inflight px)" and "exact_args r" and "rq_method r = ''tools/call''"
    and "admit (gate_http L G eng J b64 U opts) session r px = (px', Inr call)"
    and "c = http_call (hx_core px) (uo_kind U) (gd_clock G (gw_ticks (hx_world px))) r (call_number px r)"
  shows "call = Some c \<and> in_flight (request_ctx session r call) (rq_id r) c (redact_patterns (evaluate (gd_policy G) eng (from_call c))) px'"
proof -
  obtain h d where d: "decide_hook L (fs_ops L) G eng c (hx_world px) = (h, d)" by fastforce
  have mk: "make_call ((hx_core px)\<lparr>ic_transport := uo_kind U\<rparr>) (gd_clock G (gw_ticks (hx_world px))) r (Some (call_number px r)) = c"
    by (simp add: assms(6) http_call_def)
  have run: "hx_running px" and fwd: "d = Forward" and call: "call = Some c"
    and px': "hx_world px' = h" "hx_inflight px' = inflight_insert (session, rq_id r) c (hx_inflight px)"
    using assms(4,5) d mk
    by (auto simp: admit_def shared_intercept_def intercept_def Let_def logging_def call_number_def
        split: if_splits proxy_decision.splits prod.splits interception.splits)
  have "float_free (tc_args c)" using exact_args_call [OF assms(3)] by (simp add: assms(6))
  from fs.decide_hook_ok [OF _ _ this d] assms(1) fwd
  have "map_option snd (gw_decisions h (tc_call_id c)) = Some (redact_patterns (evaluate (gd_policy G) eng (from_call c)))"
    by (simp add: gate_inv_def)
  then have "patterns_for c h = redact_patterns (evaluate (gd_policy G) eng (from_call c))"
    by (auto simp: patterns_for_def)
  with inflight_insert_lookup [OF assms(2)] call px' show ?thesis
    by (auto simp: in_flight_def request_ctx_def)
qed

lemma error_body_masked [simp]: "text_masked G J ps (error_body J i c msg)"
  by (auto simp: text_masked_def)

lemma post_request_gate:
  assumes "gate_inv L (hx_world px)" and "inflight_ok (hx_inflight px)" and "exact_args r" and "rq_method r = ''tools/call''"
    and "c = http_call (hx_core px) (uo_kind U) (gd_clock G (gw_ticks (hx_world px))) r (call_number px r)"
    and "\<And>body hs u u' rep. uo_post U body hs u = (u', Inr rep) \<Longrightarrow> own_reply J (rq_id r) rep"
    and "post_request (gate_http L G eng J b64 U opts) req r rd sse px = (px', ans)"
  shows "answer_masked G J (redact_patterns (evaluate (gd_policy G) eng (from_call c))) ans"
proof -
  let ?D = "gate_http L G eng J b64 U opts" and ?ps = "redact_patterns (evaluate (gd_policy G) eng (from_call c))"
  obtain px1 x where a: "admit ?D (session_of req) r px = (px1, x)" by fastforce
  show ?thesis
  proof (cases x)
    case (Inl resp)
    have "rsp_result resp = None"
      using a Inl by (auto simp: admit_def shared_intercept_def intercept_def Let_def refusal_def error_response_def
          split: if_splits proxy_decision.splits prod.splits interception.splits)
    then have "text_masked G J ?ps (from_message J (Response resp))"
      by (auto simp: text_masked_def payload_masked_def intro!: exI [of _ "Response resp"])
    with assms(7) a Inl show ?thesis by (auto simp: post_request_def)
  next
    case (Inr call)
    note f = admit_in_flight [OF assms(1-4) a [unfolded Inr] assms(5)]
    obtain px2 y where p: "up_post ?D (from_message J (Request r)) (forward_headers opts req) px1 = (px2, y)" by fastforce
    then have f2: "in_flight (request_ctx (session_of req) r call) (rq_id r) c ?ps px2"
      using f by (auto simp: up_post_def in_flight_def split: prod.splits)
    show ?thesis
    proof (cases y)
      case (Inl e)
      with assms(7) a Inr p show ?thesis by (auto simp: post_request_def bad_reply_def Let_def)
    next
      case rep: (Inr rep)
      with p assms(6) have "own_reply J (rq_id r) rep" by (fastforce simp: up_post_def logging_def split: prod.splits)
      moreover have "relay ?D rep (request_ctx (session_of req) r call) rd sse px2 = (px', ans)"
        using assms(7) a Inr p rep by (simp add: post_request_def Let_def)
      ultimately show ?thesis using relay_gate f2 by blast
    qed
  qed
qed


lemma demo_reply: "uo_post demo_upstream body hs u = (u', Inr rep) \<Longrightarrow> own_reply demo_rpc (IdNum 1) rep"
proof -
  assume "uo_post demo_upstream body hs u = (u', Inr rep)"
  then have rep: "rep = Full 200 [] (Some ''application/json'') (from_message demo_rpc (Response demo_response))"
    by (simp add: demo_upstream_def)
  have wf: "message_wf (Response demo_response)" and "float_free (json_of_message (Response demo_response))"
    by (simp_all add: demo_response_def json_of_response_def opt_field_def)
  with rpc_laws_demo message_roundtrip [OF wf]
  have "parse_message demo_rpc (from_message demo_rpc (Response demo_response)) = Inr (Response demo_response)"
    by (simp add: from_message_def parse_message_def rpc_laws_def)
  then show ?thesis by (simp add: rep own_text_def) (simp add: demo_response_def)
qed


section \<open>Where the proxy falls short\<close>

text \<open>
  A response whose call is no longer in the table (evicted by 4096 later calls, or resumed under another
  session id) is passed on as it came: a replay of a redacted answer is not masked.
\<close>

lemma http_evicted_replay_unmasked:
  assumes "if_map (hx_inflight px) (session_of req, rsp_id r) = None" and "parse_message (hd_json D) (se_data ev) = Inr (Response r)"
    and "se_data ev \<noteq> []" and "se_event ev = None"
  shows "process_event D (plain_ctx (session_of req)) ev px = (px, Some (ev\<lparr>se_data := from_message (hd_json D) (Response r)\<rparr>), False)"
  using assms by (simp add: process_event_def finish_response_def plain_ctx_def Let_def)

text \<open>On every stream but that of a tool call, the messages of the server lose their parameters.\<close>

lemma http_params_lost:
  assumes "cx_call ctx = None" and "parse_message (hd_json D) (se_data ev) = Inr (Request q)"
    and "se_data ev \<noteq> []" and "se_event ev = None"
  shows "process_event D ctx ev px = (px, Some (ev\<lparr>se_data := from_message (hd_json D) (Request (q\<lparr>rq_params := None\<rparr>))\<rparr>), False)"
  using assms by (simp add: process_event_def mask_params_def Let_def)

end
