(* ===== verification/Integrate.thy ===== *)
theory Integrate
  imports Btree Ledger_Query Mcp_Rpc
begin

text \<open>
  \<open>writ-cli/src/integrate.rs\<close>: writing writ's hooks into the configuration of an agent.  Hook command
  lines and their quoting, the merge of the hooks into the settings of Claude Code, Gemini CLI, Cursor
  and Windsurf, and the command itself.  The Codex configuration is TOML edited by a library and is
  not modelled.
\<close>

section \<open>Command lines\<close>

record wiring =
  wr_exe :: str
  wr_policy :: str
  wr_ledger :: str

definition hook_argv :: "wiring \<Rightarrow> str \<Rightarrow> bool \<Rightarrow> str list" where
  "hook_argv w format ask_defer =
     [wr_exe w, ''--policy'', wr_policy w, ''--ledger'', wr_ledger w, ''check'', ''--format'', format] @
     (if ask_defer then [''--ask'', ''defer''] else [])"

definition quote :: char where "quote = CHR 0x27"
definition backslash :: char where "backslash = CHR 0x5C"

definition bare_char :: "str \<Rightarrow> char \<Rightarrow> bool" where
  "bare_char extra c \<longleftrightarrow> is_ascii_alphanumeric c \<or> c \<in> set ''_-./:'' \<or> c \<in> set extra"

definition is_bare :: "str \<Rightarrow> str \<Rightarrow> bool" where
  "is_bare s extra \<longleftrightarrow> s \<noteq> [] \<and> list_all (bare_char extra) s"

text \<open>\<open>str::replace\<close> of one character.\<close>

definition replace_char :: "char \<Rightarrow> str \<Rightarrow> str \<Rightarrow> str" where
  "replace_char c r s = concat (map (\<lambda>d. if d = c then r else [d]) s)"

definition posix_quote :: "str \<Rightarrow> str" where
  "posix_quote s =
     (if is_bare s ''=@%+,'' then s else [quote] @ replace_char quote [quote, backslash, quote, quote] s @ [quote])"

definition posix_command :: "str list \<Rightarrow> str" where
  "posix_command argv = join '' '' (map posix_quote argv)"

definition powershell_literal :: "str \<Rightarrow> str" where
  "powershell_literal s = [quote] @ replace_char quote [quote, quote] s @ [quote]"

definition powershell_quote :: "str \<Rightarrow> str" where
  "powershell_quote s = (if is_bare s [] then s else powershell_literal s)"

definition powershell_command :: "str list \<Rightarrow> bool \<Rightarrow> str" where
  "powershell_command argv propagate =
     ''& '' @ powershell_literal (hd argv) @ concat (map (\<lambda>a. '' '' @ powershell_quote a) (tl argv)) @
     (if propagate then ''; exit $LASTEXITCODE'' else [])"

text \<open>\<open>windows\<close> is \<open>cfg!(windows)\<close>; the debug form of the refused token is a parameter.\<close>

definition portable_command :: "bool \<Rightarrow> (str \<Rightarrow> str) \<Rightarrow> str list \<Rightarrow> str + str" where
  "portable_command windows dbg argv =
     (if windows then
        let toks = map (replace_char backslash ''/'') argv
        in case find (\<lambda>t. \<not> is_bare t ''~'' \<or> starts_with t ''~'') toks of
             Some bad \<Rightarrow> Inl (dbg bad @ '' cannot be written into a hook command that works under both cmd.exe and PowerShell (it needs quoting). Move writ, the policy and the ledger to paths without spaces or shell metacharacters (e.g. `--policy C:/work/proj/writ.yaml`)'')
           | None \<Rightarrow> Inr (join '' '' toks)
      else Inr (posix_command argv))"

definition is_writ_command :: "str \<Rightarrow> str \<Rightarrow> bool" where
  "is_writ_command cmd format =
     (let plain = filter (\<lambda>c. c \<noteq> quote \<and> c \<noteq> CHR 0x22) cmd
      in str_contains plain ''writ'' \<and> str_contains plain (''check --format '' @ format))"

section \<open>Merging settings\<close>

text \<open>
  \<open>serde_json::Map\<close>: \<open>entry\<close> adds a missing key (in the order of the keys), \<open>get_mut\<close> changes a value
  in place.
\<close>

definition entry_or :: "str \<Rightarrow> json \<Rightarrow> (str \<times> json) list \<Rightarrow> (str \<times> json) list" where
  "entry_or k v kvs = (if map_of kvs k = None then btree_insert k v kvs else kvs)"

definition set_key :: "str \<Rightarrow> json \<Rightarrow> (str \<times> json) list \<Rightarrow> (str \<times> json) list" where
  "set_key k v kvs = map (\<lambda>(k', v'). (k', if k' = k then v else v')) kvs"

definition quoted_key :: "str \<Rightarrow> str" where
  "quoted_key s = CHR 0x22 # s @ [CHR 0x22]"

text \<open>
  The loop over the events of the fragment, for the lists of groups and for the flat lists of handlers:
  \<open>strip\<close> takes writ's earlier handlers out of a list.
\<close>

fun merge_events ::
  "(json list \<Rightarrow> json list) \<Rightarrow> str \<Rightarrow> (str \<times> json) list \<Rightarrow> (str \<times> json) list \<Rightarrow> str + (str \<times> json) list" where
  "merge_events strip label [] hooks = Inr hooks"
| "merge_events strip label ((event, new) # evs) hooks =
     (let hooks = entry_or event (JArr []) hooks
      in case map_of hooks event of
           Some (JArr xs) \<Rightarrow>
             merge_events strip label evs
               (set_key event (JArr (strip xs @ (case as_array new of Some a \<Rightarrow> a | None \<Rightarrow> []))) hooks)
         | _ \<Rightarrow> Inl (quoted_key (''hooks.'' @ event) @ '' in '' @ label @ '' is not an array; not touching it''))"

definition strip_group :: "(json \<Rightarrow> bool) \<Rightarrow> json \<Rightarrow> json option" where
  "strip_group is_ours grp =
     (case grp of
        JObj kvs \<Rightarrow>
          (case map_of kvs ''hooks'' of
             Some (JArr xs) \<Rightarrow>
               (let ys = filter (\<lambda>h. \<not> is_ours h) xs
                in if xs \<noteq> [] \<and> ys = [] then None else Some (JObj (set_key ''hooks'' (JArr ys) kvs)))
           | _ \<Rightarrow> Some grp)
      | _ \<Rightarrow> Some grp)"

definition merge_into_hooks ::
  "(json list \<Rightarrow> json list) \<Rightarrow> str \<Rightarrow> (str \<times> json) list \<Rightarrow> json \<Rightarrow> str + json" where
  "merge_into_hooks strip label root fragment =
     (let root = entry_or ''hooks'' (JObj []) root
      in case map_of root ''hooks'' of
           Some (JObj hooks) \<Rightarrow>
             (case json_get fragment ''hooks'' of
                Some (JObj new) \<Rightarrow>
                  rbind (merge_events strip label new hooks) (\<lambda>hooks. Inr (JObj (set_key ''hooks'' (JObj hooks) root)))
              | _ \<Rightarrow> Inl (''internal: hook fragment has no '' @ quoted_key ''hooks'' @ '' object''))
         | _ \<Rightarrow> Inl (quoted_key ''hooks'' @ '' in '' @ label @ '' is not an object; not touching it''))"

definition merge_hook_groups :: "(json \<Rightarrow> bool) \<Rightarrow> str \<Rightarrow> json \<Rightarrow> json \<Rightarrow> str + json" where
  "merge_hook_groups is_ours label settings fragment =
     (case settings of
        JObj root \<Rightarrow> merge_into_hooks (List.map_filter (strip_group is_ours)) label root fragment
      | _ \<Rightarrow> Inl (label @ '' must be a JSON object; not touching it''))"

definition merge_flat_hooks :: "(json \<Rightarrow> bool) \<Rightarrow> str \<Rightarrow> json \<Rightarrow> json \<Rightarrow> str + json" where
  "merge_flat_hooks is_ours label settings fragment =
     (case settings of
        JObj root \<Rightarrow>
          (case fragment of
             JObj frag \<Rightarrow>
               merge_into_hooks (filter (\<lambda>h. \<not> is_ours h)) label
                 (fold (\<lambda>(k, v). entry_or k v) (filter (\<lambda>(k, _). k \<noteq> ''hooks'') frag) root) fragment
           | _ \<Rightarrow> Inl ''internal: hook fragment is not an object'')
      | _ \<Rightarrow> Inl (label @ '' must be a JSON object; not touching it''))"

section \<open>The agents\<close>

text \<open>\<open>Path::file_stem\<close>, for \<open>/\<close> as the separator.\<close>

definition file_name :: "str \<Rightarrow> str option" where
  "file_name p =
     (case rev (filter (\<lambda>c. c \<noteq> [] \<and> c \<noteq> ''.'') (split_on (\<lambda>c. c = CHR ''/'') p)) of
        [] \<Rightarrow> None
      | c # _ \<Rightarrow> if c = ''..'' then None else Some c)"

definition file_stem :: "str \<Rightarrow> str option" where
  "file_stem p =
     map_option (\<lambda>n. case rsplit_once n CHR ''.'' of Some (b, _) \<Rightarrow> if b = [] then n else b | None \<Rightarrow> n) (file_name p)"

definition is_writ_hook :: "json \<Rightarrow> bool" where
  "is_writ_hook h =
     (case Option.bind (json_get h ''command'') as_str of
        None \<Rightarrow> False
      | Some cmd \<Rightarrow>
          (case Option.bind (json_get h ''args'') as_array of
             Some args \<Rightarrow>
               (let stem = (case file_stem cmd of Some s \<Rightarrow> s | None \<Rightarrow> []);
                    has = (\<lambda>a. list_ex (\<lambda>x. as_str x = Some a) args)
                in eq_ignore_ascii_case stem ''writ'' \<and> has ''check'' \<and> has ''claude-code'')
           | None \<Rightarrow> str_contains cmd ''check --format claude-code''))"

definition merge_hook_settings :: "json \<Rightarrow> json \<Rightarrow> str + json" where
  "merge_hook_settings settings fragment = merge_hook_groups is_writ_hook ''Claude Code settings'' settings fragment"

text \<open>The objects that \<open>json!\<close> writes have their keys in order.\<close>

definition hooks_of :: "str list \<Rightarrow> json \<Rightarrow> json" where
  "hooks_of events v = JObj (btree (map (\<lambda>e. (e, v)) events))"

definition claude_code_hook_settings :: "wiring \<Rightarrow> json" where
  "claude_code_hook_settings w =
     JObj [(''hooks'', hooks_of [''PreToolUse'', ''PostToolUse'', ''PostToolUseFailure'']
       (JArr [JObj [
          (''hooks'', JArr [JObj [
             (''args'', JArr (map JStr [''--policy'', wr_policy w, ''--ledger'', wr_ledger w, ''check'', ''--format'', ''claude-code'', ''--ask'', ''defer''])),
             (''command'', JStr (wr_exe w)),
             (''type'', JStr ''command'')]]),
          (''matcher'', JStr ''*'')]]))]"

definition gemini_hook_command :: "bool \<Rightarrow> wiring \<Rightarrow> str" where
  "gemini_hook_command windows w =
     (let argv = hook_argv w ''gemini'' True in if windows then powershell_command argv False else posix_command argv)"

definition gemini_hook_settings :: "bool \<Rightarrow> wiring \<Rightarrow> str \<Rightarrow> json" where
  "gemini_hook_settings windows w name =
     JObj [(''hooks'', hooks_of [''BeforeTool'', ''AfterTool'']
       (JArr [JObj [
          (''hooks'', JArr [JObj [
             (''command'', JStr (gemini_hook_command windows w)),
             (''description'', JStr ''writ: policy decision and ledger record for this tool call''),
             (''name'', JStr name),
             (''timeout'', JNum (PosInt 600000)),
             (''type'', JStr ''command'')]]),
          (''matcher'', JStr ''*'')]]))]"

definition command_field_is :: "str \<Rightarrow> str \<Rightarrow> json \<Rightarrow> bool" where
  "command_field_is k format h =
     (case Option.bind (json_get h k) as_str of Some c \<Rightarrow> is_writ_command c format | None \<Rightarrow> False)"

definition merge_gemini_settings :: "json \<Rightarrow> json \<Rightarrow> str + json" where
  "merge_gemini_settings settings fragment =
     merge_hook_groups (command_field_is ''command'' ''gemini'') ''Gemini CLI settings'' settings fragment"

definition command_is :: "str \<Rightarrow> json \<Rightarrow> bool" where
  "command_is format h = list_ex (\<lambda>k. command_field_is k format h) [''command'', ''powershell'']"

definition cursor_hook_settings :: "bool \<Rightarrow> (str \<Rightarrow> str) \<Rightarrow> wiring \<Rightarrow> str + json" where
  "cursor_hook_settings windows dbg w =
     rbind (portable_command windows dbg (hook_argv w ''cursor'' True)) (\<lambda>cmd.
       Inr (JObj [(''hooks'', hooks_of [''preToolUse'', ''beforeMCPExecution'', ''postToolUse'', ''postToolUseFailure'']
         (JArr [JObj [(''command'', JStr cmd), (''failClosed'', JBool True), (''timeout'', JNum (PosInt 60))]])),
         (''version'', JNum (PosInt 1))]))"

definition merge_cursor_hooks :: "json \<Rightarrow> json \<Rightarrow> str + json" where
  "merge_cursor_hooks settings fragment = merge_flat_hooks (command_is ''cursor'') ''Cursor hooks.json'' settings fragment"

definition WINDSURF_EVENTS :: "str list" where
  "WINDSURF_EVENTS = [''pre_run_command'', ''pre_read_code'', ''pre_write_code'', ''pre_mcp_tool_use'',
     ''post_run_command'', ''post_read_code'', ''post_write_code'', ''post_mcp_tool_use'']"

definition windsurf_hook_settings :: "wiring \<Rightarrow> json" where
  "windsurf_hook_settings w =
     (let argv = hook_argv w ''windsurf'' False
      in JObj [(''hooks'', hooks_of WINDSURF_EVENTS
           (JArr [JObj [(''command'', JStr (posix_command argv)), (''powershell'', JStr (powershell_command argv True)), (''show_output'', JBool False)]]))])"

definition merge_windsurf_hooks :: "json \<Rightarrow> json \<Rightarrow> str + json" where
  "merge_windsurf_hooks settings fragment = merge_flat_hooks (command_is ''windsurf'') ''Windsurf hooks.json'' settings fragment"

section \<open>The command\<close>

datatype target = ClaudeCode | Gemini | Cursor | Windsurf

text \<open>
  What the command finds: the executable, absolute forms of paths, whether the policy loads, the files of
  the project, \<open>serde_json\<close> and its pretty printer.
\<close>

datatype file_text = Missing | Unreadable str | Text str

record integrate_env =
  ie_windows :: bool
  ie_debug :: "str \<Rightarrow> str"
  ie_exe :: "str + str"
  ie_absolute :: "str \<Rightarrow> str + str"
  ie_load :: "str \<Rightarrow> str + unit"
  ie_file :: "str \<Rightarrow> file_text"
  ie_json :: rpc_deps
  ie_pretty :: "json \<Rightarrow> str"

definition read_json_object_file :: "integrate_env \<Rightarrow> str \<Rightarrow> str + json" where
  "read_json_object_file E path =
     (case ie_file E path of
        Text s \<Rightarrow> if trim s = [] then Inr (JObj [])
                  else map_err (\<lambda>_. path @ '' is not valid JSON; not touching it'') (json_from_str (ie_json E) s)
      | Missing \<Rightarrow> Inr (JObj [])
      | Unreadable e \<Rightarrow> Inl (''read '' @ path))"

definition windsurf_path :: "integrate_env \<Rightarrow> str" where
  "windsurf_path E =
     (if ie_file E ''.devin/hooks.json'' = Missing \<and> ie_file E ''.windsurf/hooks.json'' \<noteq> Missing
      then ''.windsurf/hooks.json'' else ''.devin/hooks.json'')"

text \<open>The path of the configuration and the new one, which is written atomically or printed.\<close>

definition merge_target :: "integrate_env \<Rightarrow> wiring \<Rightarrow> target \<Rightarrow> json \<Rightarrow> str + json" where
  "merge_target E w t existing =
     (case t of
        ClaudeCode \<Rightarrow> merge_hook_settings existing (claude_code_hook_settings w)
      | Gemini \<Rightarrow> merge_gemini_settings existing (gemini_hook_settings (ie_windows E) w ''writ'')
      | Cursor \<Rightarrow> rbind (cursor_hook_settings (ie_windows E) (ie_debug E) w) (merge_cursor_hooks existing)
      | Windsurf \<Rightarrow> merge_windsurf_hooks existing (windsurf_hook_settings w))"

definition target_path :: "integrate_env \<Rightarrow> target \<Rightarrow> str" where
  "target_path E t =
     (case t of
        ClaudeCode \<Rightarrow> ''.claude/settings.json'' | Gemini \<Rightarrow> ''.gemini/settings.json''
      | Cursor \<Rightarrow> ''.cursor/hooks.json'' | Windsurf \<Rightarrow> windsurf_path E)"

definition integrate_wired :: "integrate_env \<Rightarrow> wiring \<Rightarrow> target \<Rightarrow> str + str \<times> str" where
  "integrate_wired E w t =
     (let path = target_path E t
      in rbind (read_json_object_file E path) (\<lambda>existing.
         rbind (merge_target E w t existing) (\<lambda>merged. Inr (path, ie_pretty E merged @ [CHR 0x0A]))))"

definition integrate :: "integrate_env \<Rightarrow> str \<Rightarrow> str \<Rightarrow> target \<Rightarrow> str + str \<times> str" where
  "integrate E policy ledger t =
     rbind (map_err (\<lambda>_. ''resolve --policy'') (ie_absolute E policy)) (\<lambda>policy.
     rbind (if is_postgres_url ledger then
              (if redact_postgres_url ledger \<noteq> ledger
               then Inl (''refusing to write a Postgres password into agent hook configuration; remove it from --ledger ('' @
                      redact_postgres_url ledger @ '') and provide it via PGPASSWORD or ~/.pgpass'')
               else Inr ledger)
            else map_err (\<lambda>_. ''resolve --ledger'') (ie_absolute E ledger)) (\<lambda>ledger.
     rbind (map_err (\<lambda>_. ''refusing to integrate: the hooks would deny every tool call until '' @ policy @ '' loads'') (ie_load E policy)) (\<lambda>_.
     rbind (map_err (\<lambda>_. ''locate the running writ executable'') (ie_exe E)) (\<lambda>exe.
       integrate_wired E \<lparr>wr_exe = exe, wr_policy = policy, wr_ledger = ledger\<rparr> t))))"

end
