(* ===== verification/Integrate_Claims.thy ===== *)
theory Integrate_Claims
  imports Integrate
begin

text \<open>
  What \<open>writ integrate\<close> promises: other settings and foreign hooks are preserved, writ's own entries are
  replaced and never duplicated, and the command lines it writes mean the arguments they were made from.
\<close>

section \<open>Objects\<close>

lemma map_of_btree_insert_new: "map_of m k = None \<Longrightarrow> map_of (btree_insert k v m) = (map_of m)(k \<mapsto> v)"
  by (induction k v m rule: btree_insert.induct) (auto simp: fun_eq_iff split: if_splits)

lemma distinct_btree_insert_new: "map_of m k = None \<Longrightarrow> distinct (map fst m) \<Longrightarrow> distinct (map fst (btree_insert k v m))"
  by (induction k v m rule: btree_insert.induct)
     (auto simp: btree_insert_keys [unfolded set_map] map_of_eq_None_iff split: if_splits)

lemma map_of_entry_or: "map_of (entry_or k v kvs) = (if map_of kvs k = None then (map_of kvs)(k \<mapsto> v) else map_of kvs)"
  by (simp add: entry_or_def map_of_btree_insert_new)

lemma distinct_entry_or: "distinct (map fst kvs) \<Longrightarrow> distinct (map fst (entry_or k v kvs))"
  by (simp add: entry_or_def distinct_btree_insert_new)

lemma entry_or_present: "map_of kvs k \<noteq> None \<Longrightarrow> entry_or k v kvs = kvs"
  by (auto simp: entry_or_def)

lemma map_of_set_key: "map_of (set_key k v kvs) = (if map_of kvs k = None then map_of kvs else (map_of kvs)(k \<mapsto> v))"
proof (rule ext)
  fix x
  have "map_of (set_key k v kvs) x = map_option (\<lambda>v'. if x = k then v else v') (map_of kvs x)"
    by (induction kvs) (auto simp: set_key_def)
  then show "map_of (set_key k v kvs) x = (if map_of kvs k = None then map_of kvs else (map_of kvs)(k \<mapsto> v)) x"
    by (cases "map_of kvs x") auto
qed

lemma keys_set_key [simp]: "map fst (set_key k v kvs) = map fst kvs"
  by (auto simp: set_key_def)

lemma assoc_eqI:
  assumes "map fst xs = map fst ys" and "distinct (map fst xs)" and "map_of xs = map_of ys"
  shows "xs = ys"
proof -
  have "zs = map (\<lambda>k. (k, the (map_of zs k))) (map fst zs)" if "distinct (map fst zs)" for zs :: "('a \<times> 'b) list"
    using that by (auto intro!: map_idI [symmetric])
  from this [of xs] this [of ys] assms show ?thesis by simp
qed

text \<open>The keys of an object, which are all that decides where a new one goes.\<close>

fun key_insert :: "str \<Rightarrow> str list \<Rightarrow> str list" where
  "key_insert k [] = [k]"
| "key_insert k (k' # ks) = (if k = k' then k # ks else if k < k' then k # k' # ks else k' # key_insert k ks)"

definition key_entry :: "str \<Rightarrow> str list \<Rightarrow> str list" where
  "key_entry k ks = (if k \<in> set ks then ks else key_insert k ks)"

lemma keys_btree_insert: "map fst (btree_insert k v m) = key_insert k (map fst m)"
  by (induction k v m rule: btree_insert.induct) auto

lemma keys_entry_or [simp]: "map fst (entry_or k v m) = key_entry k (map fst m)"
  by (simp add: entry_or_def key_entry_def keys_btree_insert map_of_eq_None_iff)

lemma set_key_entry [simp]: "set (key_entry k ks) = insert k (set ks)"
proof -
  have "set (key_insert k ks) = insert k (set ks)" by (induction k ks rule: key_insert.induct) auto
  then show ?thesis by (auto simp: key_entry_def)
qed

lemma distinct_key_entry: "distinct ks \<Longrightarrow> distinct (key_entry k ks)"
proof -
  have "distinct ks \<Longrightarrow> k \<notin> set ks \<Longrightarrow> distinct (key_insert k ks)"
  proof (induction k ks rule: key_insert.induct)
    case (2 k k' ks)
    have "set (key_insert k ks) = insert k (set ks)" by (induction k ks rule: key_insert.induct) auto
    with 2 show ?case by auto
  qed simp
  then show "distinct ks \<Longrightarrow> distinct (key_entry k ks)" by (simp add: key_entry_def)
qed

lemma fold_key_entry:
  "set (fold key_entry es ks) = set es \<union> set ks"
  "distinct ks \<Longrightarrow> distinct (fold key_entry es ks)"
  "set es \<subseteq> set ks \<Longrightarrow> fold key_entry es ks = ks"
proof -
  show "set (fold key_entry es ks) = set es \<union> set ks" by (induction es arbitrary: ks) auto
  show "distinct ks \<Longrightarrow> distinct (fold key_entry es ks)" by (induction es arbitrary: ks) (simp_all add: distinct_key_entry)
  show "set es \<subseteq> set ks \<Longrightarrow> fold key_entry es ks = ks" by (induction es) (simp_all add: key_entry_def)
qed

text \<open>The object under \<open>hooks\<close>.\<close>

definition hooks_object :: "json \<Rightarrow> (str \<times> json) list" where
  "hooks_object v = (case json_get v ''hooks'' of Some (JObj hooks) \<Rightarrow> hooks | _ \<Rightarrow> [])"

text \<open>The list of an event, as the merge sees it.\<close>

definition listed :: "(str \<times> json) list \<Rightarrow> str \<Rightarrow> json list" where
  "listed hooks e = (case map_of hooks e of Some (JArr xs) \<Rightarrow> xs | _ \<Rightarrow> [])"

section \<open>Lists of hooks\<close>

text \<open>
  What the merge needs of a list of hooks: \<open>strip\<close> takes writ's handlers out and leaves the others, and
  leaves nothing of a list that holds writ's handlers only.
\<close>

locale hook_list =
  fixes strip :: "json list \<Rightarrow> json list"
    and handlers :: "json list \<Rightarrow> json list"
    and ours :: "json \<Rightarrow> bool"
    and fresh :: "json list \<Rightarrow> bool"
  assumes strip_append: "strip (xs @ ys) = strip xs @ strip ys"
    and strip_strip: "strip (strip xs) = strip xs"
    and strip_fresh: "fresh xs \<Longrightarrow> strip xs = []"
    and handlers_append: "handlers (xs @ ys) = handlers xs @ handlers ys"
    and handlers_strip: "handlers (strip xs) = filter (\<lambda>h. \<not> ours h) (handlers xs)"
    and handlers_fresh: "fresh xs \<Longrightarrow> list_all ours (handlers xs)"
begin

definition fresh_event :: "str \<times> json \<Rightarrow> bool" where
  "fresh_event ev \<longleftrightarrow> (\<exists>xs. snd ev = JArr xs \<and> fresh xs)"

lemma merge_events_spec:
  "merge_events strip label evs hooks = Inr hooks' \<Longrightarrow> distinct (map fst evs) \<Longrightarrow> list_all fresh_event evs \<Longrightarrow>
   map_of hooks' = (\<lambda>e. case map_of evs e of Some (JArr new) \<Rightarrow> Some (JArr (strip (listed hooks e) @ new)) | _ \<Rightarrow> map_of hooks e) \<and>
   map fst hooks' = fold key_entry (map fst evs) (map fst hooks) \<and>
   (\<forall>e\<in>set (map fst evs). map_of hooks e = None \<or> (\<exists>xs. map_of hooks e = Some (JArr xs)))"
proof (induction evs arbitrary: hooks)
  case (Cons ev evs)
  obtain e new where ev: "ev = (e, JArr new)" and f: "fresh new" using Cons.prems(3) by (cases ev) (auto simp: fresh_event_def)
  let ?h = "entry_or e (JArr []) hooks"
  obtain xs where xs: "map_of ?h e = Some (JArr xs)"
    using Cons.prems(1) ev by (auto simp: Let_def split: option.splits json.splits)
  let ?h' = "set_key e (JArr (strip xs @ new)) ?h"
  have m: "merge_events strip label evs ?h' = Inr hooks'" using Cons.prems(1) ev xs by (simp add: Let_def)
  have l: "listed hooks e = xs" and sh: "map_of hooks e = None \<or> map_of hooks e = Some (JArr xs)"
    using xs by (auto simp: map_of_entry_or listed_def split: if_splits)
  have h': "map_of ?h' = (map_of hooks)(e \<mapsto> JArr (strip xs @ new))"
    using xs by (auto simp: map_of_set_key map_of_entry_or fun_eq_iff)
  have ne: "map_of evs e = None" using Cons.prems(2) ev by (simp add: map_of_eq_None_iff)
  have o: "listed ?h' e' = listed hooks e'" if "e' \<noteq> e" for e' using that by (simp add: listed_def h')
  from Cons.IH [OF m] Cons.prems(2,3)
  have IH: "map_of hooks' = (\<lambda>e. case map_of evs e of Some (JArr new) \<Rightarrow> Some (JArr (strip (listed ?h' e) @ new)) | _ \<Rightarrow> map_of ?h' e)"
      "map fst hooks' = fold key_entry (map fst evs) (map fst ?h')"
      "\<forall>e\<in>set (map fst evs). map_of ?h' e = None \<or> (\<exists>xs. map_of ?h' e = Some (JArr xs))"
    by auto
  have "map_of hooks' x = (case map_of (ev # evs) x of Some (JArr new) \<Rightarrow> Some (JArr (strip (listed hooks x) @ new)) | _ \<Rightarrow> map_of hooks x)" for x
    using o [of x] by (cases "x = e") (simp_all add: IH(1) ev ne h' l split: option.split json.split)
  moreover have "map_of hooks x = None \<or> (\<exists>xs. map_of hooks x = Some (JArr xs))" if "x \<in> set (map fst (ev # evs))" for x
    using IH(3) that sh ev h' by (cases "x = e") auto
  ultimately show ?case using IH(2) ev by (auto simp: fun_eq_iff)
qed simp

lemma merge_events_ok:
  "\<forall>e\<in>set (map fst evs). map_of hooks e = None \<or> (\<exists>xs. map_of hooks e = Some (JArr xs)) \<Longrightarrow>
   \<exists>hooks'. merge_events strip label evs hooks = Inr hooks'"
proof (induction evs arbitrary: hooks)
  case (Cons ev evs)
  obtain e new where ev: "ev = (e, new)" by fastforce
  obtain xs where "map_of (entry_or e (JArr []) hooks) e = Some (JArr xs)"
    using Cons.prems ev by (auto simp: map_of_entry_or)
  with Cons ev show ?case by (auto simp: Let_def map_of_set_key map_of_entry_or intro!: Cons.IH)
qed simp

text \<open>Merging again, with other handlers for the same events, replaces the first ones.\<close>

lemma merge_events_again:
  assumes "merge_events strip label evs hooks = Inr hooks'" and "map fst evs' = map fst evs" and "distinct (map fst evs)"
    and "list_all fresh_event evs" and "list_all fresh_event evs'" and "distinct (map fst hooks)"
  shows "merge_events strip label evs' hooks' = merge_events strip label evs' hooks"
proof -
  note s = merge_events_spec [OF assms(1,3,4)]
  have dom: "map_of evs e = None \<longleftrightarrow> map_of evs' e = None" for e by (simp add: map_of_eq_None_iff assms(2) flip: set_map)
  have fr: "\<exists>xs. map_of es e = Some (JArr xs) \<and> fresh xs" if "list_all fresh_event es" "map_of es e \<noteq> None" for es e
    using that by (force simp: list_all_iff fresh_event_def dest: map_of_SomeD)
  have l: "strip (listed hooks' e) = strip (listed hooks e)" for e
  proof (cases "map_of evs e")
    case None
    then show ?thesis by (simp add: listed_def s)
  next
    case (Some v)
    with fr [OF assms(4)] obtain xs where "map_of evs e = Some (JArr xs)" "fresh xs" by force
    then show ?thesis by (simp add: listed_def s strip_append strip_strip strip_fresh)
  qed
  have sh: "\<forall>e\<in>set (map fst evs'). map_of hooks' e = None \<or> (\<exists>xs. map_of hooks' e = Some (JArr xs))"
    using s fr [OF assms(4)] assms(2) by (force simp: map_of_eq_None_iff split: option.splits)
  from s assms(2) obtain h1 where h1: "merge_events strip label evs' hooks = Inr h1" using merge_events_ok by metis
  from sh obtain h2 where h2: "merge_events strip label evs' hooks' = Inr h2" using merge_events_ok by blast
  have d': "distinct (map fst evs')" using assms(2,3) by simp
  note s1 = merge_events_spec [OF h1 d' assms(5)] and s2 = merge_events_spec [OF h2 d' assms(5)]
  have "h2 = h1"
  proof (rule assoc_eqI)
    show "map fst h2 = map fst h1" using s1 s2 s assms(2) by (simp add: fold_key_entry)
    show "distinct (map fst h2)" using s2 s assms(6) by (simp add: fold_key_entry)
    show "map_of h2 = map_of h1"
    proof (rule ext)
      fix e
      show "map_of h2 e = map_of h1 e"
      proof (cases "map_of evs' e")
        case None
        then have "map_of evs e = None" by (simp add: dom)
        with None s1 s2 s show ?thesis by simp
      next
        case (Some v)
        with fr [OF assms(5)] obtain xs where "map_of evs' e = Some (JArr xs)" by force
        with s1 s2 l show ?thesis by simp
      qed
    qed
  qed
  with h1 h2 show ?thesis by simp
qed

text \<open>The handlers of an event: the others are kept, writ's are those of the fragment.\<close>

lemma merge_events_handlers:
  assumes "merge_events strip label evs hooks = Inr hooks'" and "distinct (map fst evs)" and "list_all fresh_event evs"
  shows "filter (\<lambda>h. \<not> ours h) (handlers (listed hooks' e)) = filter (\<lambda>h. \<not> ours h) (handlers (listed hooks e))"
    and "map_of evs e = Some (JArr new) \<Longrightarrow> filter ours (handlers (listed hooks' e)) = handlers new"
    and "map_of evs e = None \<Longrightarrow> map_of hooks' e = map_of hooks e"
proof -
  note s = merge_events_spec [OF assms]
  have l: "listed hooks' e = strip (listed hooks e) @ xs" if "map_of evs e = Some (JArr xs)" for xs
    using that by (simp add: s listed_def)
  have fr: "fresh xs" if "map_of evs e = Some (JArr xs)" for xs
    using that assms(3) by (force simp: list_all_iff fresh_event_def dest: map_of_SomeD)
  have none: "filter (\<lambda>h. \<not> ours h) (handlers xs) = []" "filter ours (handlers xs) = handlers xs" if "fresh xs" for xs
    using handlers_fresh [OF that] by (auto simp: list_all_iff filter_empty_conv filter_id_conv)
  show "filter (\<lambda>h. \<not> ours h) (handlers (listed hooks' e)) = filter (\<lambda>h. \<not> ours h) (handlers (listed hooks e))"
  proof (cases "map_of evs e")
    case None
    then show ?thesis by (simp add: listed_def s)
  next
    case (Some v)
    then obtain xs where xs: "map_of evs e = Some (JArr xs)"
      using assms(3) by (force simp: list_all_iff fresh_event_def dest: map_of_SomeD)
    then show ?thesis using none [OF fr [OF xs]] by (simp add: l handlers_append handlers_strip)
  qed
  show "filter ours (handlers (listed hooks' e)) = handlers new" if "map_of evs e = Some (JArr new)"
    using l [OF that] none [OF fr [OF that]] by (simp add: handlers_append handlers_strip)
  show "map_of evs e = None \<Longrightarrow> map_of hooks' e = map_of hooks e" by (simp add: s)
qed

text \<open>The whole merge.\<close>

lemma merge_into_cases:
  assumes "merge_into_hooks strip label root frag = Inr m" and "json_get frag ''hooks'' = Some (JObj evs)"
  obtains hooks hooks' where "map_of (entry_or ''hooks'' (JObj []) root) ''hooks'' = Some (JObj hooks)"
    "merge_events strip label evs hooks = Inr hooks'"
    "m = JObj (set_key ''hooks'' (JObj hooks') (entry_or ''hooks'' (JObj []) root))"
  using assms by (auto simp: merge_into_hooks_def Let_def result_simps split: option.splits json.splits)

lemma merge_into_again:
  assumes "merge_into_hooks strip label root frag = Inr m" and "distinct (map fst (hooks_object (JObj root)))"
    and "json_get frag ''hooks'' = Some (JObj evs)" and "json_get frag' ''hooks'' = Some (JObj evs')" and "map fst evs' = map fst evs"
    and "distinct (map fst evs)" and "list_all fresh_event evs" and "list_all fresh_event evs'"
  shows "\<exists>root'. m = JObj root' \<and> map_of root' ''hooks'' \<noteq> None \<and> (\<forall>k. k \<noteq> ''hooks'' \<longrightarrow> map_of root' k = map_of root k) \<and>
    merge_into_hooks strip label root' frag' = merge_into_hooks strip label root frag'"
proof -
  let ?r = "entry_or ''hooks'' (JObj []) root"
  from merge_into_cases [OF assms(1,3)] obtain hooks hooks' where
    h: "map_of ?r ''hooks'' = Some (JObj hooks)" "merge_events strip label evs hooks = Inr hooks'" "m = JObj (set_key ''hooks'' (JObj hooks') ?r)"
    by blast
  have "hooks = hooks_object (JObj root)" using h(1) by (auto simp: map_of_entry_or hooks_object_def split: if_splits)
  then have d: "distinct (map fst hooks)" using assms(2) by simp
  let ?r' = "set_key ''hooks'' (JObj hooks') ?r"
  have r': "map_of ?r' ''hooks'' = Some (JObj hooks')" using h(1) by (simp add: map_of_set_key)
  have "merge_events strip label evs' hooks' = merge_events strip label evs' hooks"
    by (rule merge_events_again [OF h(2) assms(5-8) d])
  moreover have "set_key ''hooks'' v ?r' = set_key ''hooks'' v ?r" for v by (auto simp: set_key_def)
  ultimately have "merge_into_hooks strip label ?r' frag' = merge_into_hooks strip label root frag'"
    using h(1) r' assms(4) by (simp add: merge_into_hooks_def Let_def entry_or_present)
  moreover have "map_of ?r' k = map_of root k" if "k \<noteq> ''hooks''" for k
    using that h(1) by (simp add: map_of_set_key map_of_entry_or)
  ultimately show ?thesis using h(3) r' by blast
qed

lemma merge_into_handlers:
  assumes "merge_into_hooks strip label root frag = Inr m" and "json_get frag ''hooks'' = Some (JObj evs)"
    and "distinct (map fst evs)" and "list_all fresh_event evs"
  shows "filter (\<lambda>h. \<not> ours h) (handlers (listed (hooks_object m) e)) = filter (\<lambda>h. \<not> ours h) (handlers (listed (hooks_object (JObj root)) e))"
    and "map_of evs e = Some (JArr new) \<Longrightarrow> filter ours (handlers (listed (hooks_object m) e)) = handlers new"
    and "map_of evs e = None \<Longrightarrow> map_of (hooks_object m) e = map_of (hooks_object (JObj root)) e"
    and "k \<noteq> ''hooks'' \<Longrightarrow> json_get m k = map_of root k"
proof -
  let ?r = "entry_or ''hooks'' (JObj []) root"
  from merge_into_cases [OF assms(1,2)] obtain hooks hooks' where
    h: "map_of ?r ''hooks'' = Some (JObj hooks)" "merge_events strip label evs hooks = Inr hooks'" "m = JObj (set_key ''hooks'' (JObj hooks') ?r)"
    by blast
  have 1: "hooks = hooks_object (JObj root)" using h(1) by (auto simp: map_of_entry_or hooks_object_def split: if_splits)
  have 2: "hooks' = hooks_object m" using h(1,3) by (simp add: map_of_set_key hooks_object_def)
  note m = merge_events_handlers [OF h(2) assms(3,4), unfolded 1 2]
  show "filter (\<lambda>h. \<not> ours h) (handlers (listed (hooks_object m) e)) = filter (\<lambda>h. \<not> ours h) (handlers (listed (hooks_object (JObj root)) e))"
    by (rule m(1))
  show "map_of evs e = Some (JArr new) \<Longrightarrow> filter ours (handlers (listed (hooks_object m) e)) = handlers new" by (rule m(2))
  show "map_of evs e = None \<Longrightarrow> map_of (hooks_object m) e = map_of (hooks_object (JObj root)) e" by (rule m(3))
  show "k \<noteq> ''hooks'' \<Longrightarrow> json_get m k = map_of root k" using h(1,3) by (simp add: map_of_set_key map_of_entry_or)
qed

end

section \<open>The two shapes\<close>

definition group_handlers :: "json \<Rightarrow> json list" where
  "group_handlers g = (case g of JObj kvs \<Rightarrow> (case map_of kvs ''hooks'' of Some (JArr xs) \<Rightarrow> xs | _ \<Rightarrow> []) | _ \<Rightarrow> [])"

definition fresh_groups :: "(json \<Rightarrow> bool) \<Rightarrow> json list \<Rightarrow> bool" where
  "fresh_groups ours gs \<longleftrightarrow>
     list_all (\<lambda>g. \<exists>kvs xs. g = JObj kvs \<and> map_of kvs ''hooks'' = Some (JArr xs) \<and> xs \<noteq> [] \<and> list_all ours xs) gs"

lemma strip_group_twice: "strip_group ours g = Some g' \<Longrightarrow> strip_group ours g' = Some g'"
proof -
  have [simp]: "set_key k v (set_key k v' kvs) = set_key k v kvs" for k v v' kvs by (auto simp: set_key_def)
  show "strip_group ours g = Some g' \<Longrightarrow> strip_group ours g' = Some g'"
    by (cases g) (auto simp: strip_group_def Let_def map_of_set_key split: option.splits json.splits if_splits)
qed

lemma strip_group_handlers:
  "filter (\<lambda>h. \<not> ours h) (group_handlers g) = (case strip_group ours g of None \<Rightarrow> [] | Some g' \<Rightarrow> group_handlers g')"
  by (cases g) (auto simp: strip_group_def group_handlers_def Let_def map_of_set_key split: option.splits json.splits)

interpretation grouped: hook_list "List.map_filter (strip_group ours)" "\<lambda>gs. concat (map group_handlers gs)" ours "fresh_groups ours"
  for ours
proof
  fix xs ys
  show "List.map_filter (strip_group ours) (xs @ ys) = List.map_filter (strip_group ours) xs @ List.map_filter (strip_group ours) ys"
    by (simp add: List.map_filter_def)
  show "List.map_filter (strip_group ours) (List.map_filter (strip_group ours) xs) = List.map_filter (strip_group ours) xs"
    by (induction xs) (auto simp: List.map_filter_simps strip_group_twice split: option.splits)
  show "concat (map group_handlers (xs @ ys)) = concat (map group_handlers xs) @ concat (map group_handlers ys)" by simp
  show "concat (map group_handlers (List.map_filter (strip_group ours) xs)) = filter (\<lambda>h. \<not> ours h) (concat (map group_handlers xs))"
    by (induction xs) (auto simp: List.map_filter_simps strip_group_handlers split: option.splits)
  show "List.map_filter (strip_group ours) xs = []" if "fresh_groups ours xs"
    using that by (induction xs)
      (auto simp: List.map_filter_simps fresh_groups_def strip_group_def list_all_iff filter_empty_conv split: option.splits)
  show "list_all ours (concat (map group_handlers xs))" if "fresh_groups ours xs"
    using that by (induction xs) (auto simp: fresh_groups_def group_handlers_def)
qed

interpretation flat: hook_list "filter (\<lambda>h. \<not> ours h)" "\<lambda>hs. hs" ours "list_all ours" for ours
  by unfold_locales (auto simp: list_all_iff filter_empty_conv)

section \<open>Fragments\<close>

lemma map_of_same: "map_of (btree (map (\<lambda>e. (e, v)) es)) e = (if e \<in> set es then Some v else None)"
  by (auto simp: map_of_btree map_of_eq_None_iff simp flip: map_map dest: map_of_SomeD) (auto simp: rev_map map_of_map_restrict restrict_map_def)

lemma keys_same: "map fst (btree (map (\<lambda>e. (e, v)) es)) = sorted_list_of_set (set es)"
proof -
  let ?m = "btree (map (\<lambda>e. (e, v)) es)"
  have "set (map fst ?m) = set es"
  proof -
    have "x \<in> set (map fst ?m) \<longleftrightarrow> map_of ?m x \<noteq> None" for x by (simp add: map_of_eq_None_iff)
    then show ?thesis by (auto simp: map_of_same split: if_splits simp del: set_map)
  qed
  then show ?thesis using btree_sorted [of "map (\<lambda>e. (e, v)) es"]
    by (metis sorted_keys_def sorted_list_of_set.idem_if_sorted_distinct)
qed

lemma values_same: "(e, x) \<in> set (btree (map (\<lambda>e. (e, v)) es)) \<Longrightarrow> x = v"
  using btree_sorted [of "map (\<lambda>e. (e, v)) es"] map_of_same [of v es e]
  by (auto simp: sorted_keys_def dest: map_of_is_SomeI split: if_splits)

text \<open>The handler that is written, the events it is written for, and which handlers count as writ's.\<close>

definition is_grouped :: "target \<Rightarrow> bool" where
  "is_grouped t \<longleftrightarrow> t = ClaudeCode \<or> t = Gemini"

definition own_hook :: "target \<Rightarrow> json \<Rightarrow> bool" where
  "own_hook t = (case t of ClaudeCode \<Rightarrow> is_writ_hook | Gemini \<Rightarrow> command_field_is ''command'' ''gemini''
     | Cursor \<Rightarrow> command_is ''cursor'' | Windsurf \<Rightarrow> command_is ''windsurf'')"

definition target_label :: "target \<Rightarrow> str" where
  "target_label t = (case t of ClaudeCode \<Rightarrow> ''Claude Code settings'' | Gemini \<Rightarrow> ''Gemini CLI settings''
     | Cursor \<Rightarrow> ''Cursor hooks.json'' | Windsurf \<Rightarrow> ''Windsurf hooks.json'')"

definition target_events :: "target \<Rightarrow> str list" where
  "target_events t = (case t of ClaudeCode \<Rightarrow> [''PreToolUse'', ''PostToolUse'', ''PostToolUseFailure''] | Gemini \<Rightarrow> [''BeforeTool'', ''AfterTool'']
     | Cursor \<Rightarrow> [''preToolUse'', ''beforeMCPExecution'', ''postToolUse'', ''postToolUseFailure''] | Windsurf \<Rightarrow> WINDSURF_EVENTS)"

definition target_fragment :: "integrate_env \<Rightarrow> wiring \<Rightarrow> target \<Rightarrow> str + json" where
  "target_fragment E w t = (case t of ClaudeCode \<Rightarrow> Inr (claude_code_hook_settings w)
     | Gemini \<Rightarrow> Inr (gemini_hook_settings (ie_windows E) w ''writ'')
     | Cursor \<Rightarrow> cursor_hook_settings (ie_windows E) (ie_debug E) w | Windsurf \<Rightarrow> Inr (windsurf_hook_settings w))"

definition merge_as :: "target \<Rightarrow> json \<Rightarrow> json \<Rightarrow> str + json" where
  "merge_as t existing f = (if is_grouped t then merge_hook_groups (own_hook t) (target_label t) existing f
     else merge_flat_hooks (own_hook t) (target_label t) existing f)"

lemma merge_target_as: "merge_target E w t existing = rbind (target_fragment E w t) (merge_as t existing)"
proof -
  have "merge_cursor_hooks existing = merge_as Cursor existing"
    by (simp add: fun_eq_iff merge_cursor_hooks_def merge_as_def is_grouped_def own_hook_def target_label_def)
  then show ?thesis
    by (cases t) (simp_all add: merge_target_def target_fragment_def merge_as_def is_grouped_def own_hook_def target_label_def
        merge_hook_settings_def merge_gemini_settings_def merge_windsurf_hooks_def)
qed

text \<open>The executable is one that a later run knows again.\<close>

definition recognised :: "wiring \<Rightarrow> target \<Rightarrow> bool" where
  "recognised w t \<longleftrightarrow> (if t = ClaudeCode then (\<exists>s. file_stem (wr_exe w) = Some s \<and> eq_ignore_ascii_case s ''writ'')
     else str_contains (wr_exe w) ''writ'')"

lemma str_contains_mid: "str_contains (a @ p @ b) p"
  by (auto simp: str_contains_iff)

lemma replace_char_append [simp]: "replace_char c r (a @ b) = replace_char c r a @ replace_char c r b"
  by (simp add: replace_char_def)

lemma filter_contains: "filter P p = p \<Longrightarrow> str_contains s p \<Longrightarrow> str_contains (filter P s) p"
  by (auto simp: str_contains_iff) (metis filter_append)

lemma is_writ_commandI:
  assumes "str_contains s ''writ''" and "str_contains s (''check --format '' @ format)" and "quote \<notin> set format" and "CHR 0x22 \<notin> set format"
  shows "is_writ_command s format"
proof -
  have "filter (\<lambda>c. c \<noteq> quote \<and> c \<noteq> CHR 0x22) ''writ'' = ''writ''" by (simp add: quote_def)
  moreover have "filter (\<lambda>c. c \<noteq> quote \<and> c \<noteq> CHR 0x22) format = format" using assms(3,4) by (induction format) auto
  then have "filter (\<lambda>c. c \<noteq> quote \<and> c \<noteq> CHR 0x22) (''check --format '' @ format) = ''check --format '' @ format" by (simp add: quote_def)
  ultimately show ?thesis using filter_contains assms(1,2) unfolding is_writ_command_def Let_def by blast
qed

lemma replace_char_keeps: "c \<notin> set p \<Longrightarrow> replace_char c r p = p"
  by (induction p) (auto simp: replace_char_def)

lemma replace_char_contains: "c \<notin> set p \<Longrightarrow> str_contains s p \<Longrightarrow> str_contains (replace_char c r s) p"
  unfolding str_contains_iff by (auto simp: replace_char_keeps) blast

lemma str_contains_append: "str_contains s p \<Longrightarrow> str_contains (a @ s @ b) p"
  by (auto simp: str_contains_iff) (metis append.assoc)

lemma posix_quote_contains: "quote \<notin> set p \<Longrightarrow> str_contains s p \<Longrightarrow> str_contains (posix_quote s) p"
  using str_contains_append [OF replace_char_contains, of quote p s "[quote]" "[quote, backslash, quote, quote]" "[quote]"]
  by (simp add: posix_quote_def del: str_contains.simps)

lemma powershell_literal_contains: "quote \<notin> set p \<Longrightarrow> str_contains s p \<Longrightarrow> str_contains (powershell_literal s) p"
  using str_contains_append [OF replace_char_contains, of quote p s "[quote]" "[quote, quote]" "[quote]"]
  by (simp add: powershell_literal_def del: str_contains.simps)

lemma join_contains: "w \<in> set xs \<Longrightarrow> str_contains w p \<Longrightarrow> str_contains (join sep xs) p"
proof (induction sep xs rule: join.induct)
  case (3 sep x y zs)
  then show ?case
    using str_contains_append [of x p "[]" "sep @ join sep (y # zs)"] str_contains_append [of "join sep (y # zs)" p "x @ sep" "[]"] by auto
qed simp_all

text \<open>Two neighbours stay neighbours.\<close>

lemma join_Cons: "join sep (y # ys) = y @ (if ys = [] then [] else sep @ join sep ys)"
  by (cases ys) simp_all

lemma join_append: "join sep (xs @ y # ys) = (if xs = [] then [] else join sep xs @ sep) @ join sep (y # ys)"
proof (induction xs)
  case (Cons z xs)
  then show ?case by (cases xs) simp_all
qed simp

lemma join_neighbours: "\<exists>a b. join sep (xs @ x # y # ys) = a @ x @ sep @ y @ b"
proof -
  have "join sep (xs @ x # y # ys) = (if xs = [] then [] else join sep xs @ sep) @ x @ sep @ y @ (if ys = [] then [] else sep @ join sep ys)"
    by (simp only: join_append join_Cons [of sep x] join_Cons [of sep y]) simp
  then show ?thesis by blast
qed

text \<open>The formats are bare words.\<close>

definition word_format :: "str \<Rightarrow> bool" where
  "word_format f \<longleftrightarrow> is_bare f [] \<and> quote \<notin> set f \<and> CHR 0x22 \<notin> set f \<and> backslash \<notin> set f"

lemma bare_words: "is_bare ''check'' []" "is_bare ''--format'' []"
  by code_simp+

lemma bare_char_mono: "bare_char [] c \<Longrightarrow> bare_char e c"
  by (auto simp: bare_char_def)

lemma is_bare_mono: "is_bare s [] \<Longrightarrow> is_bare s e"
  by (auto simp: is_bare_def list_all_iff intro: bare_char_mono)

lemma quoted_words [simp]:
  "is_bare s [] \<Longrightarrow> posix_quote s = s" "is_bare s [] \<Longrightarrow> powershell_quote s = s"
  by (simp_all add: posix_quote_def powershell_quote_def is_bare_mono)

lemma joined_is_writ:
  assumes "word_format f" and "w \<in> set (xs @ ''check'' # ''--format'' # f # ys)" and "str_contains w ''writ''"
  shows "is_writ_command (join '' '' (xs @ ''check'' # ''--format'' # f # ys)) f"
proof (rule is_writ_commandI)
  show "quote \<notin> set f" "CHR 0x22 \<notin> set f" using assms(1) by (simp_all add: word_format_def)
  show "str_contains (join '' '' (xs @ ''check'' # ''--format'' # f # ys)) ''writ''" by (rule join_contains [OF assms(2,3)])
  have "join '' '' (xs @ x # y # ys) = join '' '' (xs @ (x @ '' '' @ y) # ys)" for x y and ys :: "str list"
    by (simp only: join_append join_Cons [of _ x] join_Cons [of _ y] join_Cons [of _ "x @ _"]) simp
  moreover obtain a b where "join '' '' (xs @ (''check'' @ '' '' @ ''--format'') # f # ys) = a @ (''check'' @ '' '' @ ''--format'') @ '' '' @ f @ b"
    using join_neighbours by blast
  ultimately have "join '' '' (xs @ ''check'' # ''--format'' # f # ys) = a @ (''check --format '' @ f) @ b" by simp
  then show "str_contains (join '' '' (xs @ ''check'' # ''--format'' # f # ys)) (''check --format '' @ f)" by (auto simp: str_contains_iff)
qed

definition argv_head :: "wiring \<Rightarrow> str list" where
  "argv_head w = [wr_exe w, ''--policy'', wr_policy w, ''--ledger'', wr_ledger w]"

lemma hook_argv_split: "hook_argv w f d = argv_head w @ ''check'' # ''--format'' # f # (if d then [''--ask'', ''defer''] else [])"
  by (simp add: hook_argv_def argv_head_def)

lemma posix_command_is_writ:
  assumes "str_contains (wr_exe w) ''writ''" and "word_format f"
  shows "is_writ_command (posix_command (hook_argv w f d)) f"
proof -
  have eq: "posix_command (hook_argv w f d) = join '' '' (map posix_quote (argv_head w) @ ''check'' # ''--format'' # f #
      map posix_quote (if d then [''--ask'', ''defer''] else []))"
    using assms(2) bare_words by (simp add: posix_command_def hook_argv_split word_format_def)
  have "str_contains (posix_quote (wr_exe w)) ''writ''" by (rule posix_quote_contains [OF _ assms(1)]) (simp add: quote_def)
  then show ?thesis unfolding eq by (rule joined_is_writ [OF assms(2), rotated]) (simp add: argv_head_def)
qed

lemma portable_command_is_writ:
  assumes "portable_command win dbg (hook_argv w f d) = Inr cmd" and "str_contains (wr_exe w) ''writ''" and "word_format f"
  shows "is_writ_command cmd f"
proof (cases win)
  case True
  let ?r = "replace_char backslash ''/''"
  have k: "?r ''check'' = ''check''" "?r ''--format'' = ''--format''" "?r f = f"
    using assms(3) by (auto simp: word_format_def backslash_def intro!: replace_char_keeps)
  have "cmd = join '' '' (map ?r (hook_argv w f d))" using assms(1) True by (auto simp: portable_command_def Let_def split: option.splits)
  then have eq: "cmd = join '' '' (map ?r (argv_head w) @ ''check'' # ''--format'' # f # map ?r (if d then [''--ask'', ''defer''] else []))"
    by (simp only: hook_argv_split map_append list.map k)
  have "str_contains (?r (wr_exe w)) ''writ''" by (rule replace_char_contains [OF _ assms(2)]) (simp add: backslash_def)
  then show ?thesis unfolding eq by (rule joined_is_writ [OF assms(3), rotated]) (simp add: argv_head_def)
next
  case False
  with assms posix_command_is_writ show ?thesis by (auto simp: portable_command_def)
qed

lemma powershell_command_is_writ:
  assumes "str_contains (wr_exe w) ''writ''" and "word_format f"
  shows "is_writ_command (powershell_command (hook_argv w f d) p) f"
proof (rule is_writ_commandI)
  show "quote \<notin> set f" "CHR 0x22 \<notin> set f" using assms(2) by (simp_all add: word_format_def)
  have "str_contains (powershell_literal (wr_exe w)) ''writ''" by (rule powershell_literal_contains [OF _ assms(1)]) (simp add: quote_def)
  from str_contains_append [OF this] show "str_contains (powershell_command (hook_argv w f d) p) ''writ''"
    unfolding powershell_command_def hook_argv_def by (simp del: str_contains.simps append.simps)
  let ?q = "\<lambda>as. concat (map (\<lambda>a. '' '' @ powershell_quote a) as)"
  have "powershell_command (hook_argv w f d) p = (''& '' @ powershell_literal (wr_exe w) @ ?q (tl (argv_head w)) @ '' '') @ (''check --format '' @ f) @
      (?q (if d then [''--ask'', ''defer''] else []) @ (if p then ''; exit $LASTEXITCODE'' else []))"
    using assms(2) bare_words by (simp add: powershell_command_def hook_argv_split argv_head_def word_format_def)
  then show "str_contains (powershell_command (hook_argv w f d) p) (''check --format '' @ f)" unfolding str_contains_iff by blast
qed

text \<open>What is written for an event.\<close>

definition written_hook :: "integrate_env \<Rightarrow> wiring \<Rightarrow> target \<Rightarrow> str + json" where
  "written_hook E w t = (case t of
       ClaudeCode \<Rightarrow> Inr (JObj [
             (''args'', JArr (map JStr [''--policy'', wr_policy w, ''--ledger'', wr_ledger w, ''check'', ''--format'', ''claude-code'', ''--ask'', ''defer''])),
             (''command'', JStr (wr_exe w)), (''type'', JStr ''command'')])
     | Gemini \<Rightarrow> Inr (JObj [
             (''command'', JStr (gemini_hook_command (ie_windows E) w)),
             (''description'', JStr ''writ: policy decision and ledger record for this tool call''),
             (''name'', JStr ''writ''), (''timeout'', JNum (PosInt 600000)), (''type'', JStr ''command'')])
     | Cursor \<Rightarrow> rbind (portable_command (ie_windows E) (ie_debug E) (hook_argv w ''cursor'' True)) (\<lambda>cmd.
           Inr (JObj [(''command'', JStr cmd), (''failClosed'', JBool True), (''timeout'', JNum (PosInt 60))]))
     | Windsurf \<Rightarrow> Inr (JObj [(''command'', JStr (posix_command (hook_argv w ''windsurf'' False))),
             (''powershell'', JStr (powershell_command (hook_argv w ''windsurf'' False) True)), (''show_output'', JBool False)]))"

definition in_shape :: "target \<Rightarrow> json \<Rightarrow> json list" where
  "in_shape t h = (if is_grouped t then [JObj [(''hooks'', JArr [h]), (''matcher'', JStr ''*'')]] else [h])"

lemma target_fragment_written:
  assumes "target_fragment E w t = Inr f"
  shows "\<exists>h. written_hook E w t = Inr h \<and> json_get f ''hooks'' = Some (JObj (btree (map (\<lambda>e. (e, JArr (in_shape t h))) (target_events t))))"
  using assms
  by (cases t) (auto simp: target_fragment_def written_hook_def claude_code_hook_settings_def gemini_hook_settings_def
      cursor_hook_settings_def windsurf_hook_settings_def hooks_of_def target_events_def in_shape_def is_grouped_def result_simps Let_def)

lemma formats: "word_format ''gemini''" "word_format ''cursor''" "word_format ''windsurf''"
  by (simp_all add: word_format_def quote_def backslash_def) (code_simp+)

lemma written_hook_own:
  assumes "written_hook E w t = Inr h" and "recognised w t"
  shows "own_hook t h"
proof (cases t)
  case ClaudeCode
  with assms show ?thesis by (auto simp: written_hook_def own_hook_def recognised_def is_writ_hook_def)
next
  case Gemini
  with assms show ?thesis using posix_command_is_writ [OF _ formats(1)] powershell_command_is_writ [OF _ formats(1)]
    by (auto simp: written_hook_def own_hook_def recognised_def command_field_is_def gemini_hook_command_def Let_def)
next
  case Cursor
  with assms show ?thesis using portable_command_is_writ [OF _ _ formats(2)]
    by (auto simp: written_hook_def own_hook_def recognised_def command_field_is_def command_is_def result_simps)
next
  case Windsurf
  with assms show ?thesis using posix_command_is_writ [OF _ formats(3)]
    by (auto simp: written_hook_def own_hook_def recognised_def command_field_is_def command_is_def)
qed

section \<open>Running it again\<close>

definition added_keys :: "target \<Rightarrow> (str \<times> json) list" where
  "added_keys t = (if t = Cursor then [(''version'', JNum (PosInt 1))] else [])"

definition with_added :: "target \<Rightarrow> (str \<times> json) list \<Rightarrow> (str \<times> json) list" where
  "with_added t root = fold (\<lambda>(k, v). entry_or k v) (added_keys t) root"

definition strip_hooks :: "target \<Rightarrow> json list \<Rightarrow> json list" where
  "strip_hooks t = (if is_grouped t then List.map_filter (strip_group (own_hook t)) else filter (\<lambda>h. \<not> own_hook t h))"

lemma target_fragment_rest:
  "target_fragment E w t = Inr f \<Longrightarrow> \<exists>frag. f = JObj frag \<and> filter (\<lambda>(k, _). k \<noteq> ''hooks'') frag = added_keys t"
  by (cases t) (auto simp: target_fragment_def claude_code_hook_settings_def gemini_hook_settings_def cursor_hook_settings_def
      windsurf_hook_settings_def added_keys_def result_simps Let_def)

lemma merge_as_into:
  assumes "target_fragment E w t = Inr f"
  shows "merge_as t (JObj root) f = merge_into_hooks (strip_hooks t) (target_label t) (with_added t root) f"
proof -
  obtain frag where f: "f = JObj frag" "filter (\<lambda>(k, _). k \<noteq> ''hooks'') frag = added_keys t"
    using target_fragment_rest [OF assms] by blast
  show ?thesis
  proof (cases "is_grouped t")
    case True
    then show ?thesis by (auto simp: merge_as_def merge_hook_groups_def strip_hooks_def with_added_def added_keys_def is_grouped_def)
  next
    case False
    then show ?thesis by (simp add: merge_as_def merge_flat_hooks_def strip_hooks_def with_added_def f)
  qed
qed

lemma merge_as_object: "merge_as t existing f = Inr m \<Longrightarrow> \<exists>root. existing = JObj root"
  by (cases existing) (auto simp: merge_as_def merge_hook_groups_def merge_flat_hooks_def split: if_splits)

lemma with_added_lookup: "k \<noteq> ''version'' \<or> t \<noteq> Cursor \<or> map_of root k \<noteq> None \<Longrightarrow> map_of (with_added t root) k = map_of root k"
  by (auto simp: with_added_def added_keys_def map_of_entry_or)

lemma with_added_present: "map_of (with_added t root) ''version'' = None \<Longrightarrow> t \<noteq> Cursor"
  by (auto simp: with_added_def added_keys_def map_of_entry_or split: if_splits)

lemma hooks_object_with_added: "hooks_object (JObj (with_added t root)) = hooks_object (JObj root)"
  by (simp add: hooks_object_def with_added_lookup)

text \<open>The hooks of an event, whatever the shape.\<close>

definition event_hooks :: "target \<Rightarrow> json \<Rightarrow> str \<Rightarrow> json list" where
  "event_hooks t v e = (let xs = listed (hooks_object v) e in if is_grouped t then concat (map group_handlers xs) else xs)"

definition fresh_list :: "target \<Rightarrow> json list \<Rightarrow> bool" where
  "fresh_list t = (if is_grouped t then fresh_groups (own_hook t) else list_all (own_hook t))"

definition list_hooks :: "target \<Rightarrow> json list \<Rightarrow> json list" where
  "list_hooks t xs = (if is_grouped t then concat (map group_handlers xs) else xs)"

interpretation shaped: hook_list "strip_hooks t" "list_hooks t" "own_hook t" "fresh_list t" for t
  by (cases "is_grouped t") (simp_all add: strip_hooks_def list_hooks_def [abs_def] fresh_list_def grouped.hook_list_axioms flat.hook_list_axioms)

lemma target_events_facts:
  assumes "target_fragment E w t = Inr f" and "recognised w t"
  obtains h evs where "written_hook E w t = Inr h" "json_get f ''hooks'' = Some (JObj evs)"
    "map fst evs = sorted_list_of_set (set (target_events t))" "distinct (map fst evs)" "list_all (shaped.fresh_event t) evs"
    "\<And>e. map_of evs e = (if e \<in> set (target_events t) then Some (JArr (in_shape t h)) else None)" "list_hooks t (in_shape t h) = [h]"
proof -
  obtain h where h: "written_hook E w t = Inr h"
      "json_get f ''hooks'' = Some (JObj (btree (map (\<lambda>e. (e, JArr (in_shape t h))) (target_events t))))"
    using target_fragment_written [OF assms(1)] by blast
  let ?evs = "btree (map (\<lambda>e. (e, JArr (in_shape t h))) (target_events t))"
  have "fresh_list t (in_shape t h)" using written_hook_own [OF h(1) assms(2)] by (simp add: fresh_list_def in_shape_def fresh_groups_def)
  then have "list_all (shaped.fresh_event t) ?evs"
    by (auto simp: list_all_iff shaped.fresh_event_def dest: values_same)
  moreover have "list_hooks t (in_shape t h) = [h]" by (simp add: list_hooks_def in_shape_def group_handlers_def)
  moreover have "distinct (map fst ?evs)" using btree_sorted by (auto simp: sorted_keys_def)
  ultimately show thesis using that [OF h] by (simp add: keys_same map_of_same)
qed

text \<open>
  C25. Integrating again replaces, and changes nothing else: after the hooks were merged into the settings of
  an agent, merging them once more, from the same place or from wherever the binary, the policy or the
  ledger have moved to, gives exactly what merging into the first settings would have given; in
  particular a second run changes nothing.  (The executable is one that writ knows again: its name
  is \<open>writ\<close> for Claude Code, its path contains \<open>writ\<close> for the others.)
\<close>

theorem integrate_again:
  assumes "merge_target E w t existing = Inr m" and "distinct (map fst (hooks_object existing))"
    and "recognised w t" and "recognised w' t"
  shows "merge_target E w' t m = merge_target E w' t existing"
proof -
  obtain f where f: "target_fragment E w t = Inr f" "merge_as t existing f = Inr m"
    using assms(1) by (auto simp: merge_target_as result_simps)
  obtain root where root: "existing = JObj root" using merge_as_object [OF f(2)] by blast
  show ?thesis
  proof (cases "target_fragment E w' t")
    case (Inl e)
    then show ?thesis by (simp add: merge_target_as)
  next
    case (Inr f')
    obtain evs where evs: "json_get f ''hooks'' = Some (JObj evs)" "map fst evs = sorted_list_of_set (set (target_events t))"
        "distinct (map fst evs)" "list_all (shaped.fresh_event t) evs"
      using target_events_facts [OF f(1) assms(3)] by metis
    obtain evs' where evs': "json_get f' ''hooks'' = Some (JObj evs')" "map fst evs' = sorted_list_of_set (set (target_events t))"
        "list_all (shaped.fresh_event t) evs'"
      using target_events_facts [OF Inr assms(4)] by metis
    have i: "merge_into_hooks (strip_hooks t) (target_label t) (with_added t root) f = Inr m"
      using f root merge_as_into [OF f(1)] by simp
    have "distinct (map fst (hooks_object (JObj (with_added t root))))" using assms(2) root by (simp add: hooks_object_with_added)
    from shaped.merge_into_again [OF i this evs(1) evs'(1) _ evs(3,4) evs'(3)] evs(2) evs'(2) obtain root' where
      r: "m = JObj root'" "\<And>k. k \<noteq> ''hooks'' \<Longrightarrow> map_of root' k = map_of (with_added t root) k"
        "merge_into_hooks (strip_hooks t) (target_label t) root' f' = merge_into_hooks (strip_hooks t) (target_label t) (with_added t root) f'"
      by auto
    have "with_added t root' = root'"
      using with_added_present [of t root] r(2) [of "''version''"] by (auto simp: with_added_def added_keys_def entry_or_def)
    then show ?thesis using Inr r(1,3) root merge_as_into [OF Inr] by (simp add: merge_target_as)
  qed
qed


text \<open>A project whose settings have a hook of their own, and two places of the binary.\<close>

definition demo_env :: integrate_env where
  "demo_env = \<lparr>ie_windows = False, ie_debug = (\<lambda>s. s), ie_exe = Inr ''/opt/writ/writ'', ie_absolute = Inr, ie_load = (\<lambda>_. Inr ()),
     ie_file = (\<lambda>_. Missing), ie_json = demo_rpc, ie_pretty = json_to_string demo_rpc\<rparr>"

definition demo_wiring :: "str \<Rightarrow> wiring" where
  "demo_wiring exe = \<lparr>wr_exe = exe, wr_policy = ''/p/writ.yaml'', wr_ledger = ''/p/l.jsonl''\<rparr>"

definition demo_settings :: json where
  "demo_settings = JObj [(''hooks'', JObj [(''PreToolUse'', JArr [JObj [(''hooks'', JArr [JObj [(''command'', JStr ''lint.sh'')]])]])]),
     (''model'', JStr ''opus'')]"

lemma demo_merge: "\<exists>m. merge_target demo_env (demo_wiring exe) ClaudeCode demo_settings = Inr m"
proof -
  have f: "target_fragment demo_env (demo_wiring exe) ClaudeCode = Inr (claude_code_hook_settings (demo_wiring exe))"
    by (simp add: target_fragment_def)
  obtain h where h: "json_get (claude_code_hook_settings (demo_wiring exe)) ''hooks'' =
      Some (JObj (btree (map (\<lambda>e. (e, JArr (in_shape ClaudeCode h))) (target_events ClaudeCode))))"
    using target_fragment_written [OF f] by blast
  let ?evs = "btree (map (\<lambda>e. (e, JArr (in_shape ClaudeCode h))) (target_events ClaudeCode))"
  obtain hooks where hooks: "hooks_object demo_settings = hooks" "json_get demo_settings ''hooks'' = Some (JObj hooks)"
    "\<forall>e. map_of hooks e = None \<or> (\<exists>xs. map_of hooks e = Some (JArr xs))"
    by (simp add: demo_settings_def hooks_object_def)
  then obtain hooks' where "merge_events (strip_hooks ClaudeCode) (target_label ClaudeCode) ?evs hooks = Inr hooks'"
    using shaped.merge_events_ok by blast
  moreover obtain root where root: "demo_settings = JObj root" by (simp add: demo_settings_def)
  have "map_of root ''hooks'' = Some (JObj hooks)" using hooks(2) unfolding root json_get.simps .
  ultimately show ?thesis using h f root merge_as_into [OF f, of root]
    by (simp add: merge_target_as merge_into_hooks_def with_added_def added_keys_def entry_or_def Let_def)
qed

lemma demo_recognised: "recognised (demo_wiring ''/opt/writ/writ'') ClaudeCode" "recognised (demo_wiring ''/new/writ.exe'') ClaudeCode"
proof -
  have "file_stem ''/opt/writ/writ'' = Some ''writ''" "file_stem ''/new/writ.exe'' = Some ''writ''" by code_simp+
  then show "recognised (demo_wiring ''/opt/writ/writ'') ClaudeCode" "recognised (demo_wiring ''/new/writ.exe'') ClaudeCode"
    by (simp_all add: recognised_def demo_wiring_def eq_ignore_ascii_case_def)
qed

theorem integrate_again_witness:
  "\<exists>m. merge_target demo_env (demo_wiring ''/opt/writ/writ'') ClaudeCode demo_settings = Inr m \<and>
     merge_target demo_env (demo_wiring ''/new/writ.exe'') ClaudeCode m = merge_target demo_env (demo_wiring ''/new/writ.exe'') ClaudeCode demo_settings"
proof -
  have "distinct (map fst (hooks_object demo_settings))" by (simp add: hooks_object_def demo_settings_def)
  with demo_merge integrate_again [OF _ this demo_recognised] show ?thesis by blast
qed


text \<open>
  A binary with another name is not known again: for Claude Code a second run adds a second set of hooks,
  although it is documented to change nothing.
\<close>

lemma renamed_binary_duplicates:
  assumes "written_hook E w ClaudeCode = Inr h" and "file_stem (wr_exe w) = Some s" and "\<not> eq_ignore_ascii_case s ''writ''"
  shows "\<not> own_hook ClaudeCode h" and "strip_hooks ClaudeCode (in_shape ClaudeCode h) = in_shape ClaudeCode h"
proof -
  show "\<not> own_hook ClaudeCode h" using assms by (auto simp: written_hook_def own_hook_def is_writ_hook_def)
  then show "strip_hooks ClaudeCode (in_shape ClaudeCode h) = in_shape ClaudeCode h"
    by (simp add: strip_hooks_def in_shape_def is_grouped_def List.map_filter_simps strip_group_def set_key_def)
qed

section \<open>Quoting\<close>

text \<open>
  The words a POSIX shell makes of a simple command: blanks separate, single quotes keep everything up to
  the next one, a backslash keeps the next character.  Any other character that may have a meaning to
  the shell gives no answer.
\<close>

definition word_so_far :: "str option \<Rightarrow> str" where
  "word_so_far cur = (case cur of Some w \<Rightarrow> w | None \<Rightarrow> [])"

fun sh_words :: "str \<Rightarrow> str option \<Rightarrow> bool \<Rightarrow> str list option" where
  "sh_words [] cur quoting = (if quoting then None else Some (case cur of None \<Rightarrow> [] | Some w \<Rightarrow> [w]))"
| "sh_words (c # s) cur quoting =
     (if quoting then
        (if c = quote then sh_words s (Some (word_so_far cur)) False else sh_words s (Some (word_so_far cur @ [c])) True)
      else if c = CHR '' '' then
        (case cur of None \<Rightarrow> sh_words s None False | Some w \<Rightarrow> map_option (Cons w) (sh_words s None False))
      else if c = quote then sh_words s (Some (word_so_far cur)) True
      else if c = backslash then (case s of [] \<Rightarrow> None | d # s' \<Rightarrow> sh_words s' (Some (word_so_far cur @ [d])) False)
      else if bare_char ''=@%+,'' c then sh_words s (Some (word_so_far cur @ [c])) False
      else None)"

lemma not_bare: "\<not> bare_char ''=@%+,'' (CHR '' '')" "\<not> bare_char ''=@%+,'' quote" "\<not> bare_char ''=@%+,'' backslash"
  by code_simp+

lemma sh_words_bare:
  "list_all (bare_char ''=@%+,'') s \<Longrightarrow> sh_words (s @ rest) cur False = sh_words rest (if s = [] then cur else Some (word_so_far cur @ s)) False"
proof (induction s arbitrary: cur)
  case (Cons c s)
  then have "c \<noteq> CHR '' ''" "c \<noteq> quote" "c \<noteq> backslash" using not_bare by auto
  with Cons show ?case by (simp add: word_so_far_def)
qed simp

lemma sh_words_quoted:
  "sh_words (replace_char quote [quote, backslash, quote, quote] s @ quote # rest) cur True = sh_words rest (Some (word_so_far cur @ s)) False"
proof (induction s arbitrary: cur)
  case (Cons c s)
  have "quote \<noteq> backslash" "quote \<noteq> CHR '' ''" "backslash \<noteq> CHR '' ''" by (simp_all add: quote_def backslash_def)
  with Cons show ?case by (auto simp: replace_char_def word_so_far_def)
qed (simp add: replace_char_def word_so_far_def)

lemma sh_words_posix_quote: "sh_words (posix_quote s @ rest) None False = sh_words rest (Some s) False"
proof (cases "is_bare s ''=@%+,''")
  case True
  then show ?thesis using sh_words_bare [of s rest None] by (simp add: posix_quote_def is_bare_def word_so_far_def)
next
  case False
  have "quote \<noteq> CHR '' ''" by (simp add: quote_def)
  with False show ?thesis using sh_words_quoted [of s rest "Some []"] by (simp add: posix_quote_def word_so_far_def)
qed

text \<open>
  A POSIX hook command line is read by the shell as exactly the arguments it was made from: the
  executable, the paths of the policy and the ledger and the flags arrive as they are, whatever
  blanks, quotes or other characters the paths have, and nothing in a path is executed.
\<close>

theorem posix_command_roundtrip: "sh_words (posix_command argv) None False = Some argv"
proof (induction argv)
  case (Cons a argv)
  show ?case
  proof (cases argv)
    case Nil
    then show ?thesis using sh_words_posix_quote [of a "[]"] by (simp add: posix_command_def)
  next
    case (Cons b bs)
    then have "posix_command (a # argv) = posix_quote a @ CHR '' '' # posix_command argv" by (simp add: posix_command_def)
    with Cons.IH show ?thesis by (simp add: sh_words_posix_quote)
  qed
qed (simp add: posix_command_def)

end
