(* ===== verification/Console_Http.thy ===== *)
theory Console_Http
  imports Loopback Mcp_Rpc
begin

text \<open>
  \<open>writ-cli/src/ui/http.rs\<close>: the HTTP server of the console.  One request per connection: reading it within
  its bounds, the security checks before routing, and the response.  Sockets and threads are not modelled.
\<close>

definition MAX_HEAD :: nat where "MAX_HEAD = 16 * 1024"
definition MAX_BODY :: nat where "MAX_BODY = 2 * 1024 * 1024"
definition TOKEN_HEADER :: str where "TOKEN_HEADER = ''x-writ-token''"

definition squoted :: "str \<Rightarrow> str" where "squoted s = CHR 0x27 # s @ [CHR 0x27]"

definition CSP :: str where
  "CSP = (let none = squoted ''none''; self = squoted ''self''
     in ''default-src '' @ none @ ''; script-src '' @ self @ ''; style-src '' @ self @ ''; img-src '' @ self @ '' data:; font-src '' @
        self @ ''; connect-src '' @ self @ ''; manifest-src '' @ self @ ''; base-uri '' @ none @ ''; form-action '' @ none @
        ''; frame-ancestors '' @ none)"

section \<open>Requests and responses\<close>

record ui_request =
  ur_method :: str
  ur_path :: str
  ur_query :: "str \<rightharpoonup> str"
  ur_headers :: "str \<rightharpoonup> str"
  ur_body :: bytes

datatype ui_body = UiBytes bytes | UiStream

record ui_response =
  us_status :: nat
  us_type :: str
  us_body :: ui_body
  us_headers :: "(str \<times> str) list"

definition resp_bytes :: "nat \<Rightarrow> str \<Rightarrow> bytes \<Rightarrow> ui_response" where
  "resp_bytes status t b = \<lparr>us_status = status, us_type = t, us_body = UiBytes b, us_headers = []\<rparr>"

definition resp_json :: "rpc_deps \<Rightarrow> nat \<Rightarrow> json \<Rightarrow> ui_response" where
  "resp_json J status v = resp_bytes status ''application/json; charset=utf-8'' (json_to_string J v)"

definition resp_ok :: "rpc_deps \<Rightarrow> json \<Rightarrow> ui_response" where
  "resp_ok J v = resp_json J 200 v"

definition resp_error :: "rpc_deps \<Rightarrow> nat \<Rightarrow> str \<Rightarrow> str \<Rightarrow> ui_response" where
  "resp_error J status c msg = resp_json J status (JObj [(''error'', JObj [(''code'', JStr c), (''message'', JStr msg)])])"

definition resp_stream :: ui_response where
  "resp_stream = \<lparr>us_status = 200, us_type = ''text/event-stream; charset=utf-8'', us_body = UiStream, us_headers = []\<rparr>"

definition request_json :: "rpc_deps \<Rightarrow> ui_request \<Rightarrow> ui_response + json" where
  "request_json J req = map_err (\<lambda>e. resp_error J 400 ''bad_request'' (''body is not JSON: '' @ e)) (json_from_str J (ur_body req))"

section \<open>Security\<close>

record security =
  sc_port :: nat
  sc_token :: str

definition own_hosts :: "security \<Rightarrow> str list" where
  "own_hosts sec = [''127.0.0.1:'' @ show_nat (sc_port sec), ''localhost:'' @ show_nat (sc_port sec)]"

definition security_check :: "rpc_deps \<Rightarrow> security \<Rightarrow> ui_request \<Rightarrow> ui_response option" where
  "security_check J sec req =
     (let hosts = own_hosts sec; hdr = ur_headers req
      in if \<not> (case hdr ''host'' of Some h \<Rightarrow> list_ex (\<lambda>x. eq_ignore_ascii_case x (trim h)) hosts | None \<Rightarrow> False)
         then Some (resp_error J 421 ''bad_host'' (''Host must be this console'' @ [CHR 0x27] @ ''s loopback address''))
         else if (case hdr ''origin'' of Some o' \<Rightarrow> \<not> list_ex (\<lambda>h. eq_ignore_ascii_case (trim o') (''http://'' @ h)) hosts | None \<Rightarrow> False)
         then Some (resp_error J 403 ''bad_origin'' ''cross-origin requests are refused'')
         else if (case hdr ''sec-fetch-site'' of Some s \<Rightarrow> eq_ignore_ascii_case s ''cross-site'' | None \<Rightarrow> False)
         then Some (resp_error J 403 ''bad_origin'' ''cross-site requests are refused'')
         else if starts_with (ur_path req) ''/api/'' then
           (if \<not> (case hdr TOKEN_HEADER of Some t \<Rightarrow> ct_eq (trim t) (sc_token sec) | None \<Rightarrow> False)
            then Some (resp_error J 401 ''bad_token'' ''missing or wrong session token (open the URL writ ui printed)'')
            else if ur_method req = ''POST'' \<and>
                \<not> eq_ignore_ascii_case (trim (hd (split_on (\<lambda>c. c = CHR '';'') (case hdr ''content-type'' of Some t \<Rightarrow> t | None \<Rightarrow> [])))) ''application/json''
            then Some (resp_error J 415 ''bad_content_type'' ''POST bodies must be application/json'')
            else None)
         else None)"

section \<open>Reading a request\<close>

text \<open>Two hexadecimal digits, the first of which may be a sign (\<open>u8::from_str_radix\<close>).\<close>

definition hex_byte :: "char \<Rightarrow> char \<Rightarrow> nat option" where
  "hex_byte a b =
     (case hex_val b of
        None \<Rightarrow> None
      | Some y \<Rightarrow> if a = CHR ''+'' then Some y else map_option (\<lambda>x. 16 * x + y) (hex_val a))"

fun pct_bytes :: "str \<Rightarrow> bytes" where
  "pct_bytes [] = []"
| "pct_bytes (c # s) =
     (if c = CHR ''+'' then CHR '' '' # pct_bytes s
      else if c = CHR ''%'' then
        (case s of
           a # b # s' \<Rightarrow> (case hex_byte a b of Some v \<Rightarrow> char_of v # pct_bytes s' | None \<Rightarrow> CHR ''%'' # pct_bytes s)
         | _ \<Rightarrow> CHR ''%'' # pct_bytes s)
      else c # pct_bytes s)"

definition pct_decode :: "str \<Rightarrow> str" where
  "pct_decode s = from_utf8_lossy (pct_bytes s)"

definition query_pair :: "str \<Rightarrow> str \<times> str" where
  "query_pair p = (case split_once p ''='' of Some (k, v) \<Rightarrow> (pct_decode k, pct_decode v) | None \<Rightarrow> (pct_decode p, []))"

definition parse_query :: "str \<Rightarrow> str \<rightharpoonup> str" where
  "parse_query q = map_of (rev (map query_pair (filter (\<lambda>p. p \<noteq> []) (split_on (\<lambda>c. c = CHR ''&'') q))))"

text \<open>
  What comes in on a connection: the bytes until the client closes its side (\<open>True\<close>), or until an error or a
  timeout (\<open>False\<close>).
\<close>

type_synonym incoming = "bytes \<times> bool"

text \<open>Reading a line of at most \<open>n\<close> bytes: the line with its end, and what is left.\<close>

definition take_line_limit :: "nat \<Rightarrow> incoming \<Rightarrow> (bytes \<times> incoming) option" where
  "take_line_limit n inp =
     (let b = take n (fst inp); line = takeWhile (\<lambda>c. c \<noteq> CHR 0x0A) b
      in if length line < length b then Some (line @ [CHR 0x0A], (drop (Suc (length line)) (fst inp), snd inp))
         else if length b = n \<or> snd inp then Some (b, (drop (length b) (fst inp), snd inp))
         else None)"

definition read_head_line :: "rpc_deps \<Rightarrow> nat \<times> incoming \<Rightarrow> ui_response + str \<times> nat \<times> incoming" where
  "read_head_line J st =
     (case take_line_limit (MAX_HEAD - min (fst st) MAX_HEAD + 1) (snd st) of
        None \<Rightarrow> Inl (resp_error J 400 ''bad_request'' ''could not read request'')
      | Some (line, inp) \<Rightarrow>
          if \<not> is_utf8 line then Inl (resp_error J 400 ''bad_request'' ''could not read request'')
          else if line = [] then Inl (resp_error J 400 ''bad_request'' ''connection closed'')
          else if fst st + length line > MAX_HEAD then Inl (resp_error J 431 ''too_large'' ''request head too large'')
          else Inr (line, fst st + length line, inp))"

definition trim_line_ends :: "str \<Rightarrow> str" where
  "trim_line_ends s = rev (dropWhile (\<lambda>c. c = CHR 0x0D \<or> c = CHR 0x0A) (rev s))"

definition SINGLE_HEADERS :: "str list" where
  "SINGLE_HEADERS = [''host'', ''content-length'', ''origin'', ''x-writ-token'']"

lemma take_line_limit_shrinks: "take_line_limit n inp = Some (line, inp') \<Longrightarrow> line \<noteq> [] \<Longrightarrow> length (fst inp') < length (fst inp)"
  by (auto simp: take_line_limit_def Let_def split: if_splits)

lemma read_head_line_shrinks: "read_head_line J st = Inr (line, n, inp) \<Longrightarrow> length (fst inp) < length (fst (snd st))"
  by (auto simp: read_head_line_def split: option.splits if_splits dest: take_line_limit_shrinks)

function read_headers :: "rpc_deps \<Rightarrow> nat \<times> incoming \<Rightarrow> (str \<rightharpoonup> str) \<Rightarrow> ui_response + (str \<rightharpoonup> str) \<times> incoming" where
  "read_headers J st hdrs =
     (case read_head_line J st of
        Inl r \<Rightarrow> Inl r
      | Inr (line, n, inp) \<Rightarrow>
          (let l = trim_line_ends line
           in if l = [] then Inr (hdrs, inp)
              else case split_once l '':'' of
                     None \<Rightarrow> Inl (resp_error J 400 ''bad_request'' ''malformed header'')
                   | Some (k, v) \<Rightarrow>
                       (let k = to_ascii_lowercase (trim k)
                        in if hdrs k \<noteq> None \<and> k \<in> set SINGLE_HEADERS
                           then Inl (resp_error J 400 ''bad_request'' ''duplicate header'')
                           else read_headers J (n, inp) (hdrs(k \<mapsto> trim v)))))"
  by pat_completeness auto
termination
  by (relation "measure (\<lambda>(J, st, hdrs). length (fst (snd st)))") (auto dest: read_head_line_shrinks)

declare read_headers.simps [simp del]

definition read_body :: "rpc_deps \<Rightarrow> (str \<rightharpoonup> str) \<Rightarrow> incoming \<Rightarrow> ui_response + bytes" where
  "read_body J hdrs inp =
     (if hdrs ''transfer-encoding'' \<noteq> None
      then Inl (resp_error J 501 ''bad_request'' ''Transfer-Encoding is not supported; send Content-Length'')
      else
        rbind (case hdrs ''content-length'' of None \<Rightarrow> Inr 0
               | Some v \<Rightarrow> ok_or (parse_u64 v) (resp_error J 400 ''bad_request'' ''bad Content-Length'')) (\<lambda>len.
        if len > MAX_BODY then Inl (resp_error J 413 ''too_large'' ''request body too large'')
        else if length (fst inp) < len then Inl (resp_error J 400 ''bad_request'' ''short body'')
        else Inr (take len (fst inp))))"

definition ui_read_request :: "rpc_deps \<Rightarrow> incoming \<Rightarrow> ui_response + ui_request" where
  "ui_read_request J inp =
     (let N = MAX_HEAD + MAX_BODY + 1; inp = (take N (fst inp), N \<le> length (fst inp) \<or> snd inp)
      in rbind (read_head_line J (0, inp)) (\<lambda>(line, n, inp).
         let parts = split_on (\<lambda>c. c = CHR '' '') (trim_end line); part = (\<lambda>i. if i < length parts then parts ! i else []);
             target = part 1
         in if part 0 = [] \<or> \<not> starts_with target ''/'' \<or> \<not> starts_with (part 2) ''HTTP/1.''
            then Inl (resp_error J 400 ''bad_request'' ''malformed request line'')
            else
              rbind (read_headers J (n, inp) Map.empty) (\<lambda>(hdrs, inp).
              rbind (read_body J hdrs inp) (\<lambda>body.
                let (path, query) = (case split_once target ''?'' of Some (p, q) \<Rightarrow> (p, parse_query q) | None \<Rightarrow> (target, Map.empty))
                in Inr \<lparr>ur_method = part 0, ur_path = path, ur_query = query, ur_headers = hdrs, ur_body = body\<rparr>))))"

section \<open>The response\<close>

fun ui_reason :: "nat \<Rightarrow> str" where
  "ui_reason status =
     (if status = 200 then ''OK'' else if status = 204 then ''No Content'' else if status = 400 then ''Bad Request''
      else if status = 401 then ''Unauthorized'' else if status = 403 then ''Forbidden'' else if status = 404 then ''Not Found''
      else if status = 405 then ''Method Not Allowed'' else if status = 409 then ''Conflict'' else if status = 411 then ''Length Required''
      else if status = 413 then ''Payload Too Large'' else if status = 415 then ''Unsupported Media Type''
      else if status = 421 then ''Misdirected Request'' else if status = 422 then ''Unprocessable Content''
      else if status = 431 then ''Request Header Fields Too Large'' else if status = 500 then ''Internal Server Error''
      else if status = 501 then ''Not Implemented'' else if status = 503 then ''Service Unavailable'' else ''Status'')"

definition crlf :: str where "crlf = [CHR 0x0D, CHR 0x0A]"

definition FIXED_HEADERS :: str where
  "FIXED_HEADERS = ''Content-Security-Policy: '' @ CSP @ crlf @ ''X-Content-Type-Options: nosniff'' @ crlf @
     ''Referrer-Policy: no-referrer'' @ crlf @ ''X-Frame-Options: DENY'' @ crlf @ ''Cross-Origin-Opener-Policy: same-origin'' @ crlf @
     ''Cross-Origin-Resource-Policy: same-origin'' @ crlf @
     ''Permissions-Policy: camera=(), microphone=(), geolocation=(), clipboard-read=()'' @ crlf @ ''Cache-Control: no-store'' @ crlf"

definition ui_head :: "ui_response \<Rightarrow> nat option \<Rightarrow> str" where
  "ui_head r len =
     ''HTTP/1.1 '' @ show_nat (us_status r) @ '' '' @ ui_reason (us_status r) @ crlf @ ''Content-Type: '' @ us_type r @ crlf @
     (case len of Some n \<Rightarrow> ''Content-Length: '' @ show_nat n @ crlf @ ''Connection: close'' @ crlf
      | None \<Rightarrow> ''Connection: close'' @ crlf @ ''X-Accel-Buffering: no'' @ crlf) @
     FIXED_HEADERS @ concat (map (\<lambda>(k, v). k @ '': '' @ v @ crlf) (us_headers r)) @ crlf"

text \<open>What is sent, up to the events of a stream.\<close>

definition ui_send :: "ui_response \<Rightarrow> bool \<Rightarrow> bytes" where
  "ui_send r head_only =
     (case us_body r of
        UiBytes b \<Rightarrow> ui_head r (Some (length b)) @ (if head_only then [] else b)
      | UiStream \<Rightarrow> ui_head r None)"

section \<open>A connection\<close>

text \<open>The handler works on a state and may panic (\<open>None\<close>).\<close>

type_synonym 's ui_handler = "ui_request \<Rightarrow> 's \<Rightarrow> 's \<times> ui_response option"

definition ui_respond :: "rpc_deps \<Rightarrow> security \<Rightarrow> 's ui_handler \<Rightarrow> incoming \<Rightarrow> 's \<Rightarrow> 's \<times> ui_response \<times> bool" where
  "ui_respond J sec h inp s =
     (case ui_read_request J inp of
        Inl r \<Rightarrow> (s, r, False)
      | Inr req \<Rightarrow>
          (case security_check J sec req of
             Some r \<Rightarrow> (s, r, ur_method req = ''HEAD'')
           | None \<Rightarrow>
               (case h req s of
                  (s', r) \<Rightarrow> (s', case r of Some r \<Rightarrow> r | None \<Rightarrow> resp_error J 500 ''internal'' ''handler panicked'', ur_method req = ''HEAD''))))"

definition ui_connection :: "rpc_deps \<Rightarrow> security \<Rightarrow> 's ui_handler \<Rightarrow> incoming \<Rightarrow> 's \<Rightarrow> 's \<times> bytes" where
  "ui_connection J sec h inp s = (let (s', r, head) = ui_respond J sec h inp s in (s', ui_send r head))"

end
