(* ===== verification/Console_View.thy ===== *)
theory Console_View
  imports Approvals Btree Ledger_Query
begin

text \<open>
  \<open>writ-cli/src/ui/ledger.rs\<close>: the console's read-only view of the ledger, brought up to date by reading
  what was appended, and the summaries of decisions it shows.
\<close>

section \<open>The view\<close>

text \<open>\<open>lv_execs\<close> maps the index of a decision to the positions of its execution records.\<close>

record ledger_view =
  lv_offset :: nat
  lv_records :: "ledger_record list"
  lv_execs :: "nat \<Rightarrow> nat list"
  lv_error :: "str option"
  lv_version :: nat

definition new_view :: ledger_view where
  "new_view = \<lparr>lv_offset = 0, lv_records = [], lv_execs = (\<lambda>_. []), lv_error = None, lv_version = 0\<rparr>"

definition view_reset :: "ledger_view \<Rightarrow> ledger_view" where
  "view_reset v = v\<lparr>lv_offset := 0, lv_records := [], lv_execs := (\<lambda>_. []), lv_version := lv_version v + 1\<rparr>"

definition view_push :: "ledger_record \<Rightarrow> ledger_view \<times> nat list \<Rightarrow> ledger_view \<times> nat list" where
  "view_push rec va =
     (case va of (v, affected) \<Rightarrow>
        (let v' = v\<lparr>lv_records := lv_records v @ [rec]\<rparr>
         in case rkind rec of
              Decision \<Rightarrow> (v', affected @ [index rec])
            | Execution \<Rightarrow>
                (case decision_index rec of
                   Some d \<Rightarrow> (v'\<lparr>lv_execs := (lv_execs v)(d := lv_execs v d @ [length (lv_records v)])\<rparr>, affected @ [d])
                 | None \<Rightarrow> (v', affected))))"

definition wrong_index :: "nat \<Rightarrow> nat \<Rightarrow> str" where
  "wrong_index pos i = ''record at position '' @ show_nat pos @ '' carries index '' @ show_nat i @ '' '' @ em_dash @ '' run verify''"

definition not_a_record :: "nat \<Rightarrow> str \<Rightarrow> str" where
  "not_a_record pos e =
     ''record at position '' @ show_nat pos @ '' is not a valid ledger record ('' @ e @ '') '' @ em_dash @ '' run verify''"

definition note_index :: "ledger_record \<Rightarrow> ledger_view \<Rightarrow> ledger_view" where
  "note_index rec v =
     (if index rec \<noteq> length (lv_records v) \<and> lv_error v = None
      then v\<lparr>lv_error := Some (wrong_index (length (lv_records v)) (index rec))\<rparr> else v)"

text \<open>The loop over the complete lines, with the bytes consumed; a line that is not a record ends it.\<close>

fun tail_lines :: "ledger_deps \<Rightarrow> str list \<Rightarrow> (ledger_view \<times> nat list) \<times> nat \<Rightarrow> (ledger_view \<times> nat list) \<times> nat" where
  "tail_lines L [] st = st"
| "tail_lines L (line # ls) ((v, affected), consumed) =
     (let n = length line + 1; t = trim (from_utf8_lossy line)
      in if t = [] then tail_lines L ls ((v, affected), consumed + n)
         else case parse_record L t of
                Inr rec \<Rightarrow> tail_lines L ls (view_push rec (note_index rec v, affected), consumed + n)
              | Inl e \<Rightarrow> ((v\<lparr>lv_error := Some (not_a_record (length (lv_records v)) e)\<rparr>, affected), consumed))"

text \<open>
  Opening and reading the file: an error of \<open>open\<close>, the length where seeking or reading fails, or the
  bytes up to the length.
\<close>

datatype tail_file = TailOpenError str | TailReadError nat | TailBytes bytes

fun tail_len :: "tail_file \<Rightarrow> nat" where
  "tail_len (TailOpenError e) = 0"
| "tail_len (TailReadError n) = n"
| "tail_len (TailBytes b) = length b"

definition upto_last_nl :: "bytes \<Rightarrow> bytes" where
  "upto_last_nl b = rev (dropWhile (\<lambda>c. c \<noteq> nl) (rev b))"

definition refresh_jsonl :: "ledger_deps \<Rightarrow> tail_file \<Rightarrow> ledger_view \<times> nat list \<Rightarrow> ledger_view \<times> nat list" where
  "refresh_jsonl L file va =
     (case file of
        TailOpenError e \<Rightarrow> ((fst va)\<lparr>lv_error := Some e\<rparr>, snd va)
      | _ \<Rightarrow>
          (let v = (if tail_len file < lv_offset (fst va) then view_reset (fst va) else fst va)
           in if tail_len file = lv_offset v then (v, snd va)
              else case file of
                TailBytes b \<Rightarrow>
                  (let buf = upto_last_nl (drop (lv_offset v) b)
                   in if buf = [] then (v, snd va)
                      else let (va, consumed) = tail_lines L (split_on (\<lambda>c. c = nl) buf) ((v, snd va), 0)
                           in ((fst va)\<lparr>lv_offset := lv_offset (fst va) + min consumed (length buf)\<rparr>, snd va))
              | _ \<Rightarrow> (v, snd va)))"

text \<open>Other stores give their length and their records.\<close>

fun store_items :: "nat \<Rightarrow> (writ_error + ledger_record) list \<Rightarrow> ledger_view \<times> nat list \<Rightarrow> ledger_view \<times> nat list" where
  "store_items have [] va = va"
| "store_items have (Inr rec # items) va =
     store_items have items (if index rec < have then va else view_push rec va)"
| "store_items have (Inl e # items) va = ((fst va)\<lparr>lv_error := Some (show_writ_error e)\<rparr>, snd va)"

definition refresh_store :: "writ_error + nat \<times> (writ_error + ledger_record) list \<Rightarrow> ledger_view \<times> nat list \<Rightarrow> ledger_view \<times> nat list" where
  "refresh_store store va =
     (case store of
        Inl e \<Rightarrow> ((fst va)\<lparr>lv_error := Some (show_writ_error e)\<rparr>, snd va)
      | Inr (len, items) \<Rightarrow>
          (let v = (if len < length (lv_records (fst va)) then view_reset (fst va) else fst va)
           in store_items (length (lv_records v)) items (v, snd va)))"

text \<open>What a refresh meets: the path is there, the kind of store found, and the file or the store.\<close>

record view_env =
  ve_exists :: bool
  ve_kind :: "writ_error + store_kind"
  ve_file :: tail_file
  ve_store :: "writ_error + nat \<times> (writ_error + ledger_record) list"

definition view_refresh :: "ledger_deps \<Rightarrow> str \<Rightarrow> view_env \<Rightarrow> ledger_view \<Rightarrow> ledger_view \<times> nat list" where
  "view_refresh L path E v =
     (if \<not> is_postgres_url path \<and> \<not> ve_exists E
      then ((if lv_records v \<noteq> [] then view_reset v else v)\<lparr>lv_error := None\<rparr>, [])
      else case ve_kind E of
        Inl e \<Rightarrow> (v\<lparr>lv_error := Some (show_writ_error e)\<rparr>, [])
      | Inr k \<Rightarrow>
          (let (v', affected) = (case k of Jsonl \<Rightarrow> refresh_jsonl L (ve_file E) (v, []) | _ \<Rightarrow> refresh_store (ve_store E) (v, []))
           in (if length (lv_records v') \<noteq> length (lv_records v) then v'\<lparr>lv_version := lv_version v' + 1\<rparr> else v',
               remdups_adj (sort affected))))"

definition is_decision :: "nat \<Rightarrow> ledger_record \<Rightarrow> bool" where
  "is_decision i r \<longleftrightarrow> index r = i \<and> rkind r = Decision"

definition view_decision :: "ledger_view \<Rightarrow> nat \<Rightarrow> ledger_record option" where
  "view_decision v i =
     (if i < length (lv_records v)
      then (if is_decision i (lv_records v ! i) then Some (lv_records v ! i) else find (is_decision i) (lv_records v))
      else None)"

definition view_executions :: "ledger_view \<Rightarrow> nat \<Rightarrow> ledger_record list" where
  "view_executions v d =
     List.map_filter (\<lambda>p. if p < length (lv_records v) then Some (lv_records v ! p) else None) (lv_execs v d)"

definition view_decisions :: "ledger_view \<Rightarrow> ledger_record list" where
  "view_decisions v = filter (\<lambda>r. rkind r = Decision) (lv_records v)"

section \<open>Summaries\<close>

definition jobj :: "(str \<times> json) list \<Rightarrow> json" where
  "jobj kvs = JObj (btree kvs)"

definition opt_json_by :: "('a \<Rightarrow> json) \<Rightarrow> 'a option \<Rightarrow> json" where
  "opt_json_by f x = (case x of Some a \<Rightarrow> f a | None \<Rightarrow> JNull)"

definition json_of_nat :: "nat \<Rightarrow> json" where
  "json_of_nat n = JNum (PosInt n)"

definition ellipsis :: str where
  "ellipsis = [CHR 0xE2, CHR 0x80, CHR 0xA6]"

definition SUMMARY_KEYS :: "str list" where
  "SUMMARY_KEYS = [''command'', ''cmd'', ''path'', ''file_path'', ''url'', ''uri'', ''query'', ''sql'']"

definition json_text :: "rpc_deps \<Rightarrow> json \<Rightarrow> str" where
  "json_text J v = (case as_str v of Some s \<Rightarrow> s | None \<Rightarrow> json_to_string J v)"

fun first_some :: "('a \<Rightarrow> 'b option) \<Rightarrow> 'a list \<Rightarrow> 'b option" where
  "first_some f [] = None"
| "first_some f (x # xs) = (case f x of Some y \<Rightarrow> Some y | None \<Rightarrow> first_some f xs)"

definition summarize :: "rpc_deps \<Rightarrow> json \<Rightarrow> str" where
  "summarize J args =
     (let s = (case args of
                 JObj m \<Rightarrow>
                   (case first_some (\<lambda>k. Option.bind (map_of m k) as_str) SUMMARY_KEYS of
                      Some s \<Rightarrow> s
                    | None \<Rightarrow> (case m of [] \<Rightarrow> [] | (k, v) # _ \<Rightarrow> json_text J v))
               | JNull \<Rightarrow> []
               | _ \<Rightarrow> json_to_string J args);
          s = map (\<lambda>c. if c = nl \<or> c = CHR 0x0D then CHR '' '' else c) s;
          cs = chars_of s
      in if length cs > 160 then concat (take 159 cs) @ ellipsis else s)"

fun view_verdict_kind :: "verdict \<Rightarrow> str" where
  "view_verdict_kind (Allow _) = ''allow''"
| "view_verdict_kind (Deny _ _ _) = ''deny''"
| "view_verdict_kind (Ask _ _ _ _ _) = ''ask''"
| "view_verdict_kind (Redact _ _) = ''redact''"

fun approver_kind_str :: "approver_kind \<Rightarrow> str" where
  "approver_kind_str Tui = ''tui''"
| "approver_kind_str OutOfBand = ''outofband''"
| "approver_kind_str Rbac = ''rbac''"

definition json_of_approver :: "approver_identity \<Rightarrow> json" where
  "json_of_approver a = jobj [(''kind'', JStr (approver_kind_str (apr_kind a))), (''id'', JStr (apr_id a))]"

text \<open>What happened to the call, in one word: the verdict, the first execution, waiting, an approver.\<close>

definition call_outcome :: "str \<Rightarrow> bool \<Rightarrow> bool \<Rightarrow> bool \<Rightarrow> str" where
  "call_outcome kind executed waiting approved =
     (if executed then (if kind = ''ask'' then ''approved'' else ''ran'')
      else if kind = ''allow'' \<or> kind = ''redact'' then ''allowed''
      else if kind = ''deny'' then ''blocked''
      else if kind = ''ask'' then (if waiting then ''waiting'' else if approved then ''blocked'' else ''not run'')
      else ''?'')"

definition json_of_exec :: "ledger_record \<Rightarrow> json" where
  "json_of_exec e =
     jobj [(''index'', json_of_nat (index e)), (''exit_status'', opt_json_by json_of_int (exit_status e)),
           (''backend'', opt_json (backend e)), (''approver'', opt_json_by json_of_approver (rapprover e)),
           (''recorded_at'', JStr (to_rfc3339 (recorded_at e)))]"

definition decision_summary :: "rpc_deps \<Rightarrow> ledger_view \<Rightarrow> ledger_record \<Rightarrow> nat list \<Rightarrow> (str \<times> json) list" where
  "decision_summary J v rec pending =
     (let exec = (case view_executions v (index rec) of [] \<Rightarrow> None | e # _ \<Rightarrow> Some e);
          kind = (case rverdict rec of Some x \<Rightarrow> view_verdict_kind x | None \<Rightarrow> ''?'');
          (reason, location) = (case rverdict rec of
             Some (Deny _ r l) \<Rightarrow> (Some r, l) | Some (Ask _ d _ _ l) \<Rightarrow> (Some d, l) | _ \<Rightarrow> (None, None))
      in btree
        [(''index'', json_of_nat (index rec)), (''call_id'', JStr (call_id rec)), (''session_id'', JStr (session_id rec)),
         (''recorded_at'', JStr (to_rfc3339 (recorded_at rec))), (''recorded_ms'', json_of_int (epoch_ms (recorded_at rec))),
         (''tool'', JStr (case rcall rec of Some c \<Rightarrow> tc_tool c | None \<Rightarrow> ''?'')),
         (''summary'', JStr (case rcall rec of Some c \<Rightarrow> summarize J (tc_args c) | None \<Rightarrow> [])),
         (''agent'', JStr (case rcall rec of Some c \<Rightarrow> agent (tc_caller c) | None \<Rightarrow> ''?'')),
         (''mode'', opt_json_by (\<lambda>c. JStr (mode_str (tc_mode c))) (rcall rec)),
         (''server'', opt_json (Option.bind (rcall rec) (\<lambda>c. map_option srv_name (tc_server c)))),
         (''verdict'', JStr kind), (''rule_id'', opt_json (rule_id rec)), (''reason'', opt_json reason),
         (''location'', opt_json location),
         (''approver'', opt_json_by json_of_approver
             (case rapprover rec of Some a \<Rightarrow> Some a | None \<Rightarrow> Option.bind exec rapprover)),
         (''outcome'', JStr (call_outcome kind (exec \<noteq> None) (index rec \<in> set pending) (rapprover rec \<noteq> None))),
         (''exec'', opt_json_by json_of_exec exec)])"

end
