(* ===== verification/Console_Policy.thy ===== *)
theory Console_Policy
  imports Console_Http Console_View Policy_Engine
begin

text \<open>
  \<open>writ-cli/src/ui/policy.rs\<close>: the policy screen of the console.  Validation, the tester, and saving the
  policy file.
\<close>

text \<open>
  \<open>serde_json\<close> and the libraries under the policy compiler and the ledger; \<open>pl_error\<close> is the text of a policy
  error, whose constructors stand for the messages of the compiler.
\<close>

record console_libs =
  cl_policy :: policy_deps
  cl_error :: "policy_error \<Rightarrow> str"
  cl_json :: rpc_deps
  cl_ledger :: ledger_deps
  cl_ui :: ui_deps
  cl_debug :: "str \<Rightarrow> str"
  cl_pretty :: "json \<Rightarrow> str"

definition MAX_POLICY :: nat where "MAX_POLICY = 512 * 1024"

definition first_line_number :: "str \<Rightarrow> nat option" where
  "first_line_number msg = Option.bind (split_once msg ''writ.yaml:'') (\<lambda>(_, rest). parse_u64 (takeWhile is_ascii_digit rest))"

fun rv :: "rule_verdict \<Rightarrow> str" where
  "rv RvAllow = ''allow''"
| "rv RvDeny = ''deny''"
| "rv RvAsk = ''ask''"
| "rv RvRedact = ''redact''"

fun default_str :: "default_verdict_kind \<Rightarrow> str" where
  "default_str DefaultAllow = ''allow''"
| "default_str DefaultAsk = ''ask''"
| "default_str DefaultDeny = ''deny''"

definition json_of_rule :: "compiled_rule \<Rightarrow> json" where
  "json_of_rule r =
     jobj [(''id'', JStr (cr_id r)), (''verdict'', JStr (rv (cr_verdict r))), (''line'', opt_json_by json_of_nat (cr_line r)),
           (''reason'', opt_json (cr_reason r)), (''irreversible'', JBool (cr_irreversible r)),
           (''timeout_ms'', opt_json_by json_of_nat (cr_timeout_ms r))]"

definition refused :: "str \<Rightarrow> json" where
  "refused e = jobj [(''ok'', JBool False), (''error'', JStr e), (''line'', opt_json_by json_of_nat (first_line_number e))]"

definition validate_source :: "console_libs \<Rightarrow> str \<Rightarrow> json" where
  "validate_source X source =
     (case compile (cl_policy X) source of
        Inr p \<Rightarrow> jobj [(''ok'', JBool True), (''default'', JStr (default_str (cp_default p))),
                      (''rules'', JArr (map json_of_rule (cp_rules p)))]
      | Inl e \<Rightarrow> refused (cl_error X e))"

definition rule_line :: "console_libs \<Rightarrow> str \<Rightarrow> str \<Rightarrow> nat option" where
  "rule_line X source rid =
     Option.bind (ok (compile (cl_policy X) source)) (\<lambda>p. Option.bind (find (\<lambda>r. cr_id r = rid) (cp_rules p)) cr_line)"

section \<open>The tester\<close>

definition trust_of_str :: "str \<Rightarrow> trust_verdict option" where
  "trust_of_str s =
     (if s = ''verified'' then Some Verified else if s = ''unverified'' then Some Unverified
      else if s = ''malicious'' then Some Malicious else None)"

definition mode_of_str :: "str \<Rightarrow> intercept_mode option" where
  "mode_of_str s =
     (if s = ''mcp'' then Some Mcp else if s = ''processwrap'' then Some ProcessWrap
      else if s = ''sdkhook'' then Some SdkHook else None)"

definition body_str :: "json \<Rightarrow> str \<Rightarrow> str option" where
  "body_str b k = Option.bind (json_get b k) as_str"

definition tester_call :: "console_libs \<Rightarrow> timestamp \<Rightarrow> json \<Rightarrow> str + tool_call" where
  "tester_call X now b =
     rbind (case body_str b ''tool'' of
              Some t \<Rightarrow> if trim t = [] then Inl ''pick a tool'' else Inr (trim t)
            | None \<Rightarrow> Inl ''pick a tool'') (\<lambda>tool.
     rbind (case json_get b ''args'' of
              None \<Rightarrow> Inr (JObj []) | Some JNull \<Rightarrow> Inr (JObj []) | Some (JObj m) \<Rightarrow> Inr (JObj m)
            | Some _ \<Rightarrow> Inl ''args must be a JSON object'') (\<lambda>args.
     let server = (case body_str b ''server'' of
              Some s \<Rightarrow> if trim s = [] then None else Some \<lparr>srv_name = trim s, srv_transport = ''stdio'', srv_version = None\<rparr>
            | None \<Rightarrow> None)
     in rbind (case body_str b ''trust'' of
              None \<Rightarrow> Inr None
            | Some t \<Rightarrow> if t = [] then Inr None
                       else map_err (\<lambda>_. ''unknown trust value '' @ cl_debug X t) (rbind (ok_or (trust_of_str t) ()) (\<lambda>v. Inr (Some v)))) (\<lambda>trust.
     rbind (case body_str b ''mode'' of
              None \<Rightarrow> Inr (if server \<noteq> None then Mcp else SdkHook)
            | Some m \<Rightarrow> if m = [] then Inr (if server \<noteq> None then Mcp else SdkHook)
                       else ok_or (mode_of_str m) (''unknown mode '' @ cl_debug X m)) (\<lambda>mode.
     let ag = (case body_str b ''agent'' of Some a \<Rightarrow> if a = [] then ''writ-ui-tester'' else a | None \<Rightarrow> ''writ-ui-tester'')
     in Inr \<lparr>tc_call_id = ''writ-ui-tester'', tc_session_id = ''writ-ui-tester'',
             tc_caller = \<lparr>agent = ag, agent_version = None, user = None, non_human_id = None\<rparr>,
             tc_mode = mode, tc_tool = tool, tc_args = args, tc_server = server, tc_trust = trust, tc_captured_at = now\<rparr>))))"

text \<open>\<open>Serialize\<close> of a verdict and of a context.\<close>

fun json_of_verdict :: "verdict \<Rightarrow> json" where
  "json_of_verdict (Allow rid) = jobj [(''kind'', JStr ''allow''), (''rule_id'', opt_json rid)]"
| "json_of_verdict (Deny rid reason loc) =
     jobj [(''kind'', JStr ''deny''), (''rule_id'', JStr rid), (''reason'', JStr reason), (''location'', opt_json loc)]"
| "json_of_verdict (Ask rid diff tmo irr loc) =
     jobj [(''kind'', JStr ''ask''), (''rule_id'', JStr rid), (''diff'', JStr diff), (''timeout_ms'', opt_json_by json_of_nat tmo),
           (''irreversible'', JBool irr), (''location'', opt_json loc)]"
| "json_of_verdict (Redact rid pats) =
     jobj [(''kind'', JStr ''redact''), (''rule_id'', JStr rid), (''patterns'', JArr (map JStr pats))]"

definition json_of_context :: "tool_call_context \<Rightarrow> json" where
  "json_of_context c =
     jobj [(''tool'', JStr (ctx_tool c)), (''command'', opt_json (ctx_command c)), (''path'', opt_json (ctx_path c)),
           (''url_host'', opt_json (ctx_url_host c)), (''query'', opt_json (ctx_query c)), (''server'', opt_json (ctx_server c)),
           (''trust'', opt_json (ctx_trust c)), (''mode'', JStr (mode_str (ctx_mode c))), (''agent'', JStr (ctx_agent c))]"

definition describe_line :: "console_libs \<Rightarrow> verdict \<Rightarrow> str \<Rightarrow> nat option" where
  "describe_line X v source =
     (let by_rule = Option.bind (verdict_rule_id v) (rule_line X source);
          located = (\<lambda>loc. case Option.bind loc first_line_number of Some n \<Rightarrow> Some n | None \<Rightarrow> by_rule)
      in case v of Deny _ _ loc \<Rightarrow> located loc | Ask _ _ _ _ loc \<Rightarrow> located loc | _ \<Rightarrow> by_rule)"

definition describe_verdict :: "console_libs \<Rightarrow> verdict \<Rightarrow> str \<Rightarrow> json" where
  "describe_verdict X v source =
     (let rule = verdict_rule_id v; line = describe_line X v source
      in jobj
        ([(''verdict'', JStr (view_verdict_kind v)), (''rule_id'', opt_json rule), (''line'', opt_json_by json_of_nat line),
          (''default'', JBool ((rule = None \<or> rule = Some ''default'') \<and> line = None)), (''raw'', json_of_verdict v)] @
         (case v of
            Deny _ reason _ \<Rightarrow> [(''reason'', JStr reason)]
          | Ask _ diff tmo irr _ \<Rightarrow>
              [(''reason'', JStr diff), (''timeout_ms'', opt_json_by json_of_nat tmo), (''irreversible'', JBool irr)]
          | Redact _ pats \<Rightarrow> [(''patterns'', JArr (map JStr pats))]
          | Allow _ \<Rightarrow> [])))"

text \<open>\<open>replacen(from, to, 1)\<close>.\<close>

definition replace_first :: "str \<Rightarrow> str \<Rightarrow> str \<Rightarrow> str" where
  "replace_first from to s = (case split_once s from of Some (a, b) \<Rightarrow> a @ to @ b | None \<Rightarrow> s)"

definition engine_for :: "console_libs \<Rightarrow> str \<Rightarrow> bool \<Rightarrow> policy_error + native_engine" where
  "engine_for X source yolo =
     from_source (cl_policy X) (if yolo then replace_first ''default: ask'' ''default: allow'' source else source)"

definition tester :: "console_libs \<Rightarrow> timestamp \<Rightarrow> json \<Rightarrow> str \<Rightarrow> bool \<Rightarrow> ui_response" where
  "tester X now b source yolo =
     (case engine_for X source yolo of
        Inl e \<Rightarrow> resp_ok (cl_json X) (refused (show_writ_error (PolicyErr (cl_error X e))))
      | Inr engine \<Rightarrow>
          (case tester_call X now b of
             Inl e \<Rightarrow> resp_error (cl_json X) 400 ''bad_request'' e
           | Inr call \<Rightarrow>
               (let ctx = from_call call
                in resp_ok (cl_json X)
                  (jobj [(''ok'', JBool True), (''result'', describe_verdict X (evaluate (cl_policy X) engine ctx) source),
                         (''context'', json_of_context ctx), (''recorded'', JBool False)]))))"

section \<open>Saving\<close>

text \<open>Files by path; \<open>write\<close> is whether an atomic write to a path succeeds.\<close>

type_synonym files = "str \<rightharpoonup> bytes"

definition save :: "console_libs \<Rightarrow> (str \<Rightarrow> str + unit) \<Rightarrow> str \<Rightarrow> json \<Rightarrow> files \<Rightarrow> files \<times> ui_response" where
  "save X write path b fs =
     (let J = cl_json X in
      case body_str b ''source'' of
        None \<Rightarrow> (fs, resp_error J 400 ''bad_request'' (''save needs '' @ [CHR 0x22] @ ''source'' @ [CHR 0x22]))
      | Some source \<Rightarrow>
          if length source > MAX_POLICY then (fs, resp_error J 413 ''too_large'' ''policy is larger than 512 KiB'')
          else case compile (cl_policy X) source of
            Inl e \<Rightarrow>
              (fs, resp_json J 422 (jobj [(''error'', jobj [(''code'', JStr ''invalid_policy''), (''message'', JStr (cl_error X e)),
                     (''line'', opt_json_by json_of_nat (first_line_number (cl_error X e)))])]))
          | Inr _ \<Rightarrow>
              (let current = fs path in
               if map_option (hash_bytes (cl_ledger X)) current \<noteq> body_str b ''base_sha256''
               then (fs, resp_error J 409 ''conflict'' ''the policy file changed on disk since the editor loaded it; reload before saving'')
               else
                 let bak = path @ ''.bak'' in
                 case (case current of None \<Rightarrow> Inr fs | Some old \<Rightarrow> rbind (write bak) (\<lambda>_. Inr (fs(bak \<mapsto> old)))) of
                   Inl e \<Rightarrow> (fs, resp_error J 500 ''io'' (''could not write the .bak copy: '' @ e))
                 | Inr fs' \<Rightarrow>
                     (case write path of
                        Inl e \<Rightarrow> (fs', resp_error J 500 ''io'' (''could not write the policy: '' @ e))
                      | Inr _ \<Rightarrow>
                          (fs'(path \<mapsto> source),
                           resp_ok J (jobj [(''saved'', JBool True), (''path'', JStr path),
                             (''sha256'', JStr (hash_bytes (cl_ledger X) source)), (''backup'', JBool (current \<noteq> None))])))))"

definition ledger_kind :: "writ_error + store_kind \<Rightarrow> str" where
  "ledger_kind k =
     (case k of Inr Jsonl \<Rightarrow> ''jsonl'' | Inr Sqlite \<Rightarrow> ''sqlite'' | Inr Postgres \<Rightarrow> ''postgres'' | Inl _ \<Rightarrow> ''unknown'')"

end
