(* ===== verification/Console.thy ===== *)
theory Console
  imports Console_Policy Integrate
begin

text \<open>
  \<open>writ-cli/src/ui.rs\<close>: the handlers of the console and their routing.  A handler takes the state of the
  console and gives the new one with the response.  The sandbox screen is an argument of the routing, the
  pages and the bundled packs are arguments too, and the body of an event stream is not modelled.
\<close>

section \<open>State and surroundings\<close>

record console =
  co_policy :: str
  co_ledger :: str
  co_yolo :: bool
  co_exe :: str
  co_cwd :: str
  co_started_ms :: int
  co_state_dir :: str
  co_pending_dir :: str
  co_version :: str
  co_platform :: str

text \<open>The view, the decision files of the console, and the files the handlers read and write, by their path.\<close>

record console_state =
  cs_view :: ledger_view
  cs_decisions :: files
  cs_files :: files

text \<open>
  What a request meets: the ledger, the listings of the queue and the clock (by the place where they are
  read), the environment, whether writes succeed, and what verifying the ledger gives.
\<close>

record console_env =
  ne_view :: view_env
  ne_queue :: "nat \<Rightarrow> dir_entry list option"
  ne_clock :: "nat \<Rightarrow> timestamp"
  ne_var :: "str \<rightharpoonup> str"
  ne_write :: "str \<Rightarrow> str + unit"
  ne_write_decision :: "str + unit"
  ne_verify :: "writ_error + verify_report"
  ne_integrate :: integrate_env

definition file_read :: "files \<Rightarrow> str \<Rightarrow> file_text" where
  "file_read fs p =
     (case fs p of
        None \<Rightarrow> Missing
      | Some b \<Rightarrow> if is_utf8 b then Text b else Unreadable ''stream did not contain valid UTF-8'')"

definition read_to_string :: "files \<Rightarrow> str \<Rightarrow> str option" where
  "read_to_string fs p = (case file_read fs p of Text s \<Rightarrow> Some s | _ \<Rightarrow> None)"

definition text_or_empty :: "files \<Rightarrow> str \<Rightarrow> str" where
  "text_or_empty fs p = (case read_to_string fs p of Some s \<Rightarrow> s | None \<Rightarrow> [])"

definition display_ledger :: "str \<Rightarrow> str" where
  "display_ledger path = (if is_postgres_url path then redact_postgres_url path else path)"

text \<open>\<open>load_engine\<close> of the command line, on the contents of the policy file.\<close>

definition load_engine :: "console_libs \<Rightarrow> files \<Rightarrow> str \<Rightarrow> bool \<Rightarrow> str + native_engine" where
  "load_engine X fs path yolo =
     (case file_read fs path of
        Missing \<Rightarrow> Inl (''no policy file at '' @ path @ '' '' @ em_dash @ '' create one (see examples/writ.yaml) or pass --policy'')
      | Unreadable e \<Rightarrow> Inl (''read '' @ path)
      | Text source \<Rightarrow>
          map_err (\<lambda>e. show_writ_error (PolicyErr (cl_error X e)))
            (from_source (cl_policy X) (if yolo then replace_first ''default: ask'' ''default: allow'' source else source)))"

section \<open>Pending asks\<close>

definition refreshed :: "console_libs \<Rightarrow> console \<Rightarrow> console_env \<Rightarrow> console_state \<Rightarrow> console_state" where
  "refreshed X C E s = s\<lparr>cs_view := fst (view_refresh (cl_ledger X) (co_ledger C) (ne_view E) (cs_view s))\<rparr>"

definition pending_match :: "ledger_view \<Rightarrow> pending_request \<Rightarrow> ledger_record \<Rightarrow> bool" where
  "pending_match v r rec \<longleftrightarrow>
     record_hash rec = pr_record_hash r \<and> request_file_id rec = pr_id r \<and>
     (case rverdict rec of Some (Ask _ _ _ _ _) \<Rightarrow> True | _ \<Rightarrow> False) \<and>
     rapprover rec = None \<and> view_executions v (index rec) = []"

definition validated_pending :: "ledger_view \<Rightarrow> pending_request list \<Rightarrow> (pending_request \<times> ledger_record) list" where
  "validated_pending v rs =
     List.map_filter (\<lambda>r. Option.bind (view_decision v (pr_index r)) (\<lambda>rec. if pending_match v r rec then Some (r, rec) else None)) rs"

definition pending_indices :: "ledger_view \<Rightarrow> pending_request list \<Rightarrow> nat list" where
  "pending_indices v rs = map (\<lambda>p. pr_index (fst p)) (validated_pending v rs)"

definition read_console_decision :: "console_libs \<Rightarrow> files \<Rightarrow> str \<Rightarrow> console_decision option" where
  "read_console_decision X fs i = read_decision (cl_ui X) (fs (decision_path i))"

definition own_decision :: "console_libs \<Rightarrow> files \<Rightarrow> str \<Rightarrow> ledger_record \<Rightarrow> console_decision option" where
  "own_decision X fs i rec =
     (case read_console_decision X fs i of
        Some d \<Rightarrow> if cd_record_hash d = record_hash rec then Some d else None
      | None \<Rightarrow> None)"

definition json_of_decision :: "console_decision \<Rightarrow> json" where
  "json_of_decision d =
     jobj [(''v'', json_of_nat (cd_v d)), (''id'', JStr (cd_id d)), (''record_hash'', JStr (cd_record_hash d)),
           (''approved'', JBool (cd_approved d)), (''approver'', JStr (cd_approver d)), (''decided_ms'', json_of_int (cd_decided_ms d))]"

definition pending_item :: "console_libs \<Rightarrow> console_state \<Rightarrow> int \<Rightarrow> nat list \<Rightarrow> pending_request \<times> ledger_record \<Rightarrow> json" where
  "pending_item X s now idx p =
     (case p of (r, rec) \<Rightarrow>
        JObj (fold (\<lambda>(k, v). btree_insert k v)
          ([(''id'', JStr (pr_id r)), (''deadline_ms'', json_of_int (pr_deadline_ms r)), (''created_ms'', json_of_int (pr_created_ms r)),
            (''remaining_ms'', json_of_int (max (wrap_i64 (pr_deadline_ms r - now)) 0)), (''format'', JStr (pr_format r)),
            (''args'', (case rcall rec of Some c \<Rightarrow> tc_args c | None \<Rightarrow> JNull))] @
           (case rverdict rec of
              Some (Ask _ _ tmo irr _) \<Rightarrow> [(''irreversible'', JBool irr), (''timeout_ms'', opt_json_by json_of_nat tmo)]
            | _ \<Rightarrow> []) @
           [(''decided'', opt_json_by (\<lambda>d. jobj [(''approved'', JBool (cd_approved d)), (''approver'', JStr (cd_approver d))])
               (own_decision X (cs_decisions s) (pr_id r) rec))])
          (decision_summary (cl_json X) (cs_view s) rec idx)))"

text \<open>The queue is listed twice; the difference of the counts wraps.\<close>

definition pending_json :: "console_libs \<Rightarrow> console \<Rightarrow> console_env \<Rightarrow> console_state \<Rightarrow> console_state \<times> json" where
  "pending_json X C E s =
     (let s = refreshed X C E s;
          count = length (list_requests (cl_ui X) (ne_queue E 0));
          pend = validated_pending (cs_view s) (list_requests (cl_ui X) (ne_queue E 1));
          idx = map (\<lambda>p. pr_index (fst p)) pend
      in (s, jobj [(''items'', JArr (map (pending_item X s (epoch_ms (ne_clock E 0)) idx) pend)),
                   (''ignored'', json_of_nat (nat ((int count - int (length pend)) mod 2 ^ 64))),
                   (''approver'', JStr (console_approver (cl_ui X) (ne_var E)))]))"

definition api_decide :: "console_libs \<Rightarrow> console \<Rightarrow> console_env \<Rightarrow> json \<Rightarrow> console_state \<Rightarrow> console_state \<times> ui_response" where
  "api_decide X C E b s =
     (let J = cl_json X in
      case body_str b ''id'' of
        None \<Rightarrow> (s, resp_error J 400 ''bad_request'' (''decide needs '' @ quoted_key ''id''))
      | Some i \<Rightarrow>
          (case json_get b ''approve'' of
             Some (JBool approve) \<Rightarrow>
               (if \<not> valid_id i then (s, resp_error J 400 ''bad_request'' ''malformed id'')
                else
                  let s = refreshed X C E s;
                      pend = validated_pending (cs_view s) (list_requests (cl_ui X) (ne_queue E 0))
                  in case find (\<lambda>p. pr_id (fst p) = i) pend of
                       None \<Rightarrow> (s, resp_error J 404 ''not_pending'' ''no pending ask with that id (it may have timed out or been answered)'')
                     | Some (r, rec) \<Rightarrow>
                         if epoch_ms (ne_clock E 0) > pr_deadline_ms r
                         then (s, resp_error J 409 ''expired'' ''this ask already timed out (denied)'')
                         else
                           (case write_decision (cl_ui X) (ne_var E) (ne_clock E 1) (ne_write_decision E) i (record_hash rec) approve (cs_decisions s) of
                              (ds, Inr d) \<Rightarrow> (s\<lparr>cs_decisions := ds\<rparr>, resp_ok J (jobj [(''ok'', JBool True), (''decision'', json_of_decision d)]))
                            | (ds, Inl e) \<Rightarrow> (s\<lparr>cs_decisions := ds\<rparr>, resp_error J 500 ''io'' (''could not write the decision: '' @ e))))
           | _ \<Rightarrow> (s, resp_error J 400 ''bad_request'' (''decide needs a boolean '' @ quoted_key ''approve''))))"

section \<open>Reading the ledger and the policy\<close>

definition query_u64 :: "ui_request \<Rightarrow> str \<Rightarrow> nat option" where
  "query_u64 req k = Option.bind (ur_query req k) parse_u64"

definition api_decisions :: "console_libs \<Rightarrow> console \<Rightarrow> console_env \<Rightarrow> ui_request \<Rightarrow> console_state \<Rightarrow> console_state \<times> ui_response" where
  "api_decisions X C E req s =
     (let limit = max 1 (min (case query_u64 req ''limit'' of Some n \<Rightarrow> n | None \<Rightarrow> 300) 2000);
          s = refreshed X C E s; v = cs_view s;
          pend = pending_indices v (list_requests (cl_ui X) (ne_queue E 0));
          shown = take limit (filter (\<lambda>r. case query_u64 req ''before'' of Some b \<Rightarrow> index r < b | None \<Rightarrow> True) (rev (view_decisions v)))
      in (s, resp_ok (cl_json X) (jobj
           [(''items'', JArr (map (\<lambda>r. JObj (decision_summary (cl_json X) v r pend)) shown)),
            (''records'', json_of_nat (length (lv_records v))), (''decisions'', json_of_nat (length (view_decisions v))),
            (''error'', opt_json (lv_error v)), (''pending'', JArr (map json_of_nat pend))])))"

definition location_line :: "str \<Rightarrow> nat option" where
  "location_line l = parse_u64 (case rsplit_once l CHR '':'' of Some (_, n) \<Rightarrow> n | None \<Rightarrow> l)"

definition record_line :: "console_libs \<Rightarrow> str \<Rightarrow> ledger_record \<Rightarrow> nat option" where
  "record_line X source rec =
     (case rverdict rec of
        Some (Deny _ _ (Some l)) \<Rightarrow> location_line l
      | Some (Ask _ _ _ _ (Some l)) \<Rightarrow> location_line l
      | _ \<Rightarrow> Option.bind (rule_id rec) (rule_line X source))"

definition policy_excerpt :: "str \<Rightarrow> nat \<Rightarrow> json" where
  "policy_excerpt source l =
     JArr (map (\<lambda>(i, t). jobj [(''n'', json_of_nat (i + 1)), (''text'', JStr t)])
       (take 8 (drop (l - 1) (enumerate 0 (str_lines source)))))"

text \<open>\<open>to_json\<close> is \<open>Serialize\<close> of a record.\<close>

definition api_record :: "console_libs \<Rightarrow> (ledger_record \<Rightarrow> json) \<Rightarrow> console \<Rightarrow> console_env \<Rightarrow> ui_request \<Rightarrow> console_state \<Rightarrow> console_state \<times> ui_response" where
  "api_record X to_json C E req s =
     (case query_u64 req ''index'' of
        None \<Rightarrow> (s, resp_error (cl_json X) 400 ''bad_request'' ''record needs ?index=N'')
      | Some i \<Rightarrow>
          (let s = refreshed X C E s; v = cs_view s in
           case view_decision v i of
             None \<Rightarrow> (s, resp_error (cl_json X) 404 ''not_found'' ''no decision record at that index'')
           | Some rec \<Rightarrow>
               (let source = text_or_empty (cs_files s) (co_policy C); line = record_line X source rec;
                    pend = pending_indices v (list_requests (cl_ui X) (ne_queue E 0))
                in (s, resp_ok (cl_json X) (jobj
                     [(''summary'', JObj (decision_summary (cl_json X) v rec pend)), (''decision'', to_json rec),
                      (''executions'', JArr (map to_json (view_executions v i))),
                      (''rule_line'', opt_json_by json_of_nat line), (''policy_excerpt'', opt_json_by (policy_excerpt source) line),
                      (''console_decision'', opt_json_by json_of_decision (own_decision X (cs_decisions s) (request_file_id rec) rec))])))))"

definition api_verify :: "console_libs \<Rightarrow> console \<Rightarrow> console_env \<Rightarrow> ui_response" where
  "api_verify X C E =
     resp_ok (cl_json X) (jobj
       (if \<not> is_postgres_url (co_ledger C) \<and> \<not> ve_exists (ne_view E)
        then [(''exists'', JBool False), (''intact'', JBool True), (''records'', json_of_nat 0)]
        else case ne_verify E of
          Inr r \<Rightarrow> [(''exists'', JBool True), (''intact'', JBool (vr_intact r)), (''records'', json_of_nat (vr_records r)),
                    (''broken_at'', opt_json_by json_of_nat (vr_broken_at r)), (''ledger'', JStr (display_ledger (co_ledger C)))]
        | Inl e \<Rightarrow> [(''exists'', JBool True), (''intact'', JBool False), (''error'', JStr (show_writ_error e))]))"

definition api_policy :: "console_libs \<Rightarrow> console \<Rightarrow> files \<Rightarrow> ui_response" where
  "api_policy X C fs =
     (let source = (case fs (co_policy C) of Some b \<Rightarrow> from_utf8_lossy b | None \<Rightarrow> [])
      in resp_ok (cl_json X) (jobj
           [(''path'', JStr (co_policy C)), (''exists'', JBool (fs (co_policy C) \<noteq> None)), (''source'', JStr source),
            (''sha256'', opt_json_by (\<lambda>b. JStr (hash_bytes (cl_ledger X) b)) (fs (co_policy C))),
            (''validation'', validate_source X source), (''yolo'', JBool (co_yolo C))]))"

section \<open>Connecting agents\<close>

definition str_args :: "json \<Rightarrow> str list" where
  "str_args h = (case Option.bind (json_get h ''args'') as_array of Some a \<Rightarrow> List.map_filter as_str a | None \<Rightarrow> [])"

fun after_first :: "'a \<Rightarrow> 'a list \<Rightarrow> 'a option" where
  "after_first x [] = None"
| "after_first x (y # ys) = (if y = x then (case ys of [] \<Rightarrow> None | z # _ \<Rightarrow> Some z) else after_first x ys)"

definition writ_handlers :: "json \<Rightarrow> json list" where
  "writ_handlers settings =
     (case Option.bind (Option.bind (json_get settings ''hooks'') (\<lambda>h. json_get h ''PreToolUse'')) as_array of
        Some groups \<Rightarrow>
          filter (\<lambda>h. ''check'' \<in> set (str_args h) \<and> ''claude-code'' \<in> set (str_args h))
            (concat (map (\<lambda>g. case Option.bind (json_get g ''hooks'') as_array of Some hs \<Rightarrow> hs | None \<Rightarrow> []) groups))
      | None \<Rightarrow> [])"

text \<open>\<open>.claude/settings.json\<close> in the working directory of the console.\<close>

definition claude_settings :: str where
  "claude_settings = ''.claude/settings.json''"

definition claude_settings_status :: "console_libs \<Rightarrow> console \<Rightarrow> files \<Rightarrow> json" where
  "claude_settings_status X C fs =
     (let hs = (case Option.bind (read_to_string fs claude_settings) (\<lambda>s. ok (json_from_str (cl_json X) s)) of
                  Some v \<Rightarrow> writ_handlers v | None \<Rightarrow> [])
      in jobj [(''path'', JStr (co_cwd C @ ''/'' @ claude_settings)), (''exists'', JBool (fs claude_settings \<noteq> None)),
               (''has_writ_hooks'', JBool (hs \<noteq> [])),
               (''ask'', opt_json (if hs = [] then None else after_first ''--ask'' (str_args (last hs))))])"

definition api_info :: "console_libs \<Rightarrow> json \<Rightarrow> console \<Rightarrow> console_env \<Rightarrow> console_state \<Rightarrow> ui_response" where
  "api_info X sandbox_status C E s =
     (let fs = cs_files s; J = cl_json X;
          policy_ok = (case read_to_string fs (co_policy C) of Some src \<Rightarrow> json_get (validate_source X src) ''ok'' = Some (JBool True) | None \<Rightarrow> False)
      in resp_ok J (jobj
           [(''version'', JStr (co_version C)), (''policy'', JStr (co_policy C)), (''policy_exists'', JBool (fs (co_policy C) \<noteq> None)),
            (''policy_ok'', JBool policy_ok), (''ledger'', JStr (display_ledger (co_ledger C))),
            (''ledger_exists'', JBool (ve_exists (ne_view E))), (''ledger_kind'', JStr (ledger_kind (ve_kind (ne_view E)))),
            (''writ'', JStr (co_exe C)), (''cwd'', JStr (co_cwd C)), (''yolo'', JBool (co_yolo C)), (''platform'', JStr (co_platform C)),
            (''started_ms'', json_of_int (co_started_ms C)), (''approver'', JStr (console_approver (cl_ui X) (ne_var E))),
            (''state_dir'', JStr (co_state_dir C)), (''pending_dir'', JStr (co_pending_dir C)),
            (''claude_settings'', claude_settings_status X C fs), (''sandbox'', sandbox_status)]))"

text \<open>The fragment for the console: \<open>--ask ui\<close> in place of \<open>--ask defer\<close>, in every event of the fragment.\<close>

definition ask_ui_handler :: "json \<Rightarrow> json" where
  "ask_ui_handler h =
     (case h of
        JObj kvs \<Rightarrow>
          JObj (map (\<lambda>(k, v). (k, case v of
              JArr xs \<Rightarrow> if k = ''args'' then JArr (map (\<lambda>a. if a = JStr ''defer'' then JStr ''ui'' else a) xs) else v
            | _ \<Rightarrow> v)) kvs)
      | _ \<Rightarrow> h)"

definition map_field :: "str \<Rightarrow> (json \<Rightarrow> json) \<Rightarrow> json \<Rightarrow> json" where
  "map_field k f v = (case v of JObj kvs \<Rightarrow> JObj (map (\<lambda>(k', x). (k', if k' = k then f x else x)) kvs) | _ \<Rightarrow> v)"

definition map_first :: "(json \<Rightarrow> json) \<Rightarrow> json \<Rightarrow> json" where
  "map_first f v = (case v of JArr (x # xs) \<Rightarrow> JArr (f x # xs) | _ \<Rightarrow> v)"

definition ask_ui_fragment :: "json \<Rightarrow> json" where
  "ask_ui_fragment frag =
     fold (\<lambda>event. map_field ''hooks'' (map_field event (map_first (map_field ''hooks'' (map_first ask_ui_handler)))))
       [''PreToolUse'', ''PostToolUse'', ''PostToolUseFailure''] frag"

text \<open>The message of an error is its outermost context.\<close>

definition integrate_ui :: "console_libs \<Rightarrow> console \<Rightarrow> console_env \<Rightarrow> files \<Rightarrow> files \<times> (str + unit)" where
  "integrate_ui X C E fs =
     (case load_engine X fs (co_policy C) False of
        Inl _ \<Rightarrow> (fs, Inl (''refusing to integrate: the hooks would deny every tool call until '' @ co_policy C @ '' loads''))
      | Inr _ \<Rightarrow>
          (let fragment = ask_ui_fragment (claude_code_hook_settings \<lparr>wr_exe = co_exe C, wr_policy = co_policy C, wr_ledger = co_ledger C\<rparr>);
               path = co_cwd C @ ''/'' @ claude_settings;
               existing = (case file_read fs claude_settings of
                    Text s \<Rightarrow> if trim s = [] then Inr (JObj [])
                              else map_err (\<lambda>_. path @ '' is not valid JSON; not touching it'') (json_from_str (cl_json X) s)
                  | Missing \<Rightarrow> Inr (JObj [])
                  | Unreadable e \<Rightarrow> Inl (''read '' @ path))
           in case rbind existing (\<lambda>ex. merge_hook_settings ex fragment) of
                Inl e \<Rightarrow> (fs, Inl e)
              | Inr merged \<Rightarrow>
                  (case ne_write E claude_settings of
                     Inl e \<Rightarrow> (fs, Inl (''write '' @ path))
                   | Inr _ \<Rightarrow> (fs(claude_settings \<mapsto> cl_pretty X merged @ [nl]), Inr ()))))"

definition integrate_defer :: "console_libs \<Rightarrow> console \<Rightarrow> console_env \<Rightarrow> files \<Rightarrow> files \<times> (str + unit)" where
  "integrate_defer X C E fs =
     (case integrate ((ne_integrate E)\<lparr>ie_file := file_read fs, ie_load := (\<lambda>p. map_err id (rbind (load_engine X fs p False) (\<lambda>_. Inr ()))),
                        ie_json := cl_json X, ie_pretty := cl_pretty X\<rparr>) (co_policy C) (co_ledger C) ClaudeCode of
        Inl e \<Rightarrow> (fs, Inl e)
      | Inr (path, text) \<Rightarrow> (case ne_write E path of Inl e \<Rightarrow> (fs, Inl e) | Inr _ \<Rightarrow> (fs(path \<mapsto> text), Inr ())))"

definition api_integrate :: "console_libs \<Rightarrow> console \<Rightarrow> console_env \<Rightarrow> json \<Rightarrow> console_state \<Rightarrow> console_state \<times> ui_response" where
  "api_integrate X C E b s =
     (let ask = (case body_str b ''ask'' of Some a \<Rightarrow> a | None \<Rightarrow> ''defer'');
          finish = (\<lambda>(fs, r). (s\<lparr>cs_files := fs\<rparr>, case r of
             Inr _ \<Rightarrow> resp_ok (cl_json X) (jobj [(''ok'', JBool True), (''settings'', claude_settings_status X C fs)])
           | Inl e \<Rightarrow> resp_error (cl_json X) 409 ''integrate_failed'' e))
      in if ask = ''defer'' then finish (integrate_defer X C E (cs_files s))
         else if ask = ''ui'' then finish (integrate_ui X C E (cs_files s))
         else (s, resp_error (cl_json X) 400 ''bad_request'' (''unknown ask mode '' @ cl_debug X ask)))"

definition SANDBOX_AGENT :: str where "SANDBOX_AGENT = ''writ-ui-sandbox''"

definition card_for :: "ledger_record \<Rightarrow> str list" where
  "card_for rec =
     (case rcall rec of
        None \<Rightarrow> []
      | Some c \<Rightarrow>
          (let a = agent (tc_caller c)
           in if a = SANDBOX_AGENT then []
              else case tc_mode c of
                Mcp \<Rightarrow> [''mcp'']
              | ProcessWrap \<Rightarrow> [''cli'']
              | SdkHook \<Rightarrow>
                  if a = ''claude-code'' then [''claude-code'']
                  else (if a \<in> set [''langgraph'', ''openai-agents'', ''writ-sdk'', ''claude-agent-sdk''] then [''python''] else []) @ [''typescript'']))"

definition card_json :: "console \<Rightarrow> ledger_record \<Rightarrow> json" where
  "card_json C rec =
     (case rcall rec of
        None \<Rightarrow> JNull
      | Some c \<Rightarrow>
          jobj [(''index'', json_of_nat (index rec)), (''agent'', JStr (agent (tc_caller c))), (''tool'', JStr (tc_tool c)),
                (''verdict'', opt_json_by (\<lambda>v. JStr (view_verdict_kind v)) (rverdict rec)),
                (''recorded_at'', JStr (to_rfc3339 (recorded_at rec))),
                (''since_start'', JBool (epoch_ms (recorded_at rec) \<ge> wrap_i64 (co_started_ms C - 1000)))])"

fun connect_cards :: "console \<Rightarrow> ledger_record list \<Rightarrow> (str \<times> json) list \<Rightarrow> (str \<times> json) list" where
  "connect_cards C [] cards = cards"
| "connect_cards C (rec # recs) cards =
     (let cards = fold (\<lambda>card cs. if map_of cs card \<noteq> None then cs else btree_insert card (card_json C rec) cs) (card_for rec) cards
      in if length cards = 5 then cards else connect_cards C recs cards)"

definition connect_json :: "console_libs \<Rightarrow> console \<Rightarrow> console_env \<Rightarrow> console_state \<Rightarrow> console_state \<times> json" where
  "connect_json X C E s =
     (let s = refreshed X C E s
      in (s, jobj [(''cards'', JObj (connect_cards C (rev (view_decisions (cs_view s))) [])), (''started_ms'', json_of_int (co_started_ms C))]))"

section \<open>Routing\<close>

definition with_json :: "rpc_deps \<Rightarrow> ui_request \<Rightarrow> (json \<Rightarrow> 's \<Rightarrow> 's \<times> ui_response) \<Rightarrow> 's \<Rightarrow> 's \<times> ui_response" where
  "with_json J req f s =
     (case request_json J req of
        Inl r \<Rightarrow> (s, r)
      | Inr (JObj m) \<Rightarrow> f (JObj m) s
      | Inr _ \<Rightarrow> (s, resp_error J 400 ''bad_request'' ''body must be a JSON object''))"

text \<open>The embedded pages: their paths, types and contents.\<close>

definition asset_type :: "str \<Rightarrow> str option" where
  "asset_type p =
     (if p \<in> set [''/'', ''/index.html''] then Some ''text/html; charset=utf-8''
      else if p = ''/app.js'' then Some ''text/javascript; charset=utf-8''
      else if p = ''/app.css'' then Some ''text/css; charset=utf-8''
      else if p \<in> set [''/icon.svg'', ''/wordmark-light.svg'', ''/wordmark-dark.svg''] then Some ''image/svg+xml''
      else if p \<in> set [''/favicon.ico'', ''/icon-32.png''] then Some ''image/png''
      else None)"

definition KNOWN_ENDPOINTS :: "str list" where
  "KNOWN_ENDPOINTS =
     [''/api/info'', ''/api/decisions'', ''/api/record'', ''/api/verify'', ''/api/stream'', ''/api/pending'', ''/api/pending/decide'',
      ''/api/connect'', ''/api/policy'', ''/api/policy/validate'', ''/api/policy/test'', ''/api/policy/save'', ''/api/packs'',
      ''/api/integrate/claude-code'', ''/api/sandbox'', ''/api/sandbox/run'']"

definition unrouted :: "rpc_deps \<Rightarrow> str \<Rightarrow> bool \<Rightarrow> ui_response" where
  "unrouted J p get =
     (if starts_with p ''/api/'' then
        (if p \<in> set KNOWN_ENDPOINTS then
           (resp_error J 405 ''method_not_allowed'' ''wrong method for this endpoint'')
             \<lparr>us_headers := [(''Allow'', if ends_with p ''decide'' \<or> str_contains p ''/policy/'' \<or> str_contains p ''integrate'' \<or> ends_with p ''/run''
                                        then ''POST'' else ''GET'')]\<rparr>
         else resp_error J 404 ''not_found'' ''no such endpoint'')
      else if \<not> get then resp_error J 405 ''method_not_allowed'' ''GET only''
      else resp_error J 404 ''not_found'' ''not found'')"

text \<open>What the routing uses besides: the pages, the packs, the records as JSON, and the sandbox screen.\<close>

record 's screens =
  sn_asset :: "str \<Rightarrow> bytes"
  sn_packs :: json
  sn_record :: "ledger_record \<Rightarrow> json"
  sn_sandbox_status :: json
  sn_sandbox_run :: "json \<Rightarrow> 's \<Rightarrow> 's \<times> ui_response"

definition route_get :: "console_libs \<Rightarrow> console_state screens \<Rightarrow> console \<Rightarrow> console_env \<Rightarrow> ui_request \<Rightarrow> console_state \<Rightarrow> (console_state \<times> ui_response) option" where
  "route_get X P C E req s =
     (let J = cl_json X; p = ur_path req; reply = (\<lambda>(s, v). (s, resp_ok J v)) in
      case asset_type p of
        Some t \<Rightarrow> Some (s, resp_bytes 200 t (sn_asset P p))
      | None \<Rightarrow>
          if p = ''/api/info'' then Some (s, api_info X (sn_sandbox_status P) C E s)
          else if p = ''/api/decisions'' then Some (api_decisions X C E req s)
          else if p = ''/api/record'' then Some (api_record X (sn_record P) C E req s)
          else if p = ''/api/verify'' then Some (s, api_verify X C E)
          else if p = ''/api/stream'' then Some (s, resp_stream)
          else if p = ''/api/pending'' then Some (reply (pending_json X C E s))
          else if p = ''/api/connect'' then Some (reply (connect_json X C E s))
          else if p = ''/api/policy'' then Some (s, api_policy X C (cs_files s))
          else if p = ''/api/packs'' then Some (s, resp_ok J (sn_packs P))
          else if p = ''/api/sandbox'' then Some (s, resp_ok J (sn_sandbox_status P))
          else None)"

definition route_post :: "console_libs \<Rightarrow> console_state screens \<Rightarrow> console \<Rightarrow> console_env \<Rightarrow> ui_request \<Rightarrow> console_state \<Rightarrow> (console_state \<times> ui_response) option" where
  "route_post X P C E req s =
     (let J = cl_json X; p = ur_path req in
      if p = ''/api/pending/decide'' then Some (with_json J req (api_decide X C E) s)
      else if p = ''/api/policy/validate'' then
        Some (with_json J req (\<lambda>b s. (s, resp_ok J (validate_source X (case body_str b ''source'' of Some x \<Rightarrow> x | None \<Rightarrow> [])))) s)
      else if p = ''/api/policy/test'' then
        Some (with_json J req (\<lambda>b s. (s, tester X (ne_clock E 0) b
          (case body_str b ''source'' of Some x \<Rightarrow> x | None \<Rightarrow> text_or_empty (cs_files s) (co_policy C)) (co_yolo C))) s)
      else if p = ''/api/policy/save'' then
        Some (with_json J req (\<lambda>b s. let (fs, r) = save X (ne_write E) (co_policy C) b (cs_files s) in (s\<lparr>cs_files := fs\<rparr>, r)) s)
      else if p = ''/api/integrate/claude-code'' then Some (with_json J req (api_integrate X C E) s)
      else if p = ''/api/sandbox/run'' then Some (with_json J req (sn_sandbox_run P) s)
      else None)"

definition route :: "console_libs \<Rightarrow> console_state screens \<Rightarrow> console \<Rightarrow> console_env \<Rightarrow> ui_request \<Rightarrow> console_state \<Rightarrow> console_state \<times> ui_response" where
  "route X P C E req s =
     (let get = (ur_method req = ''GET'' \<or> ur_method req = ''HEAD''); post = (ur_method req = ''POST'')
      in case (if get then route_get X P C E req s else if post then route_post X P C E req s else None) of
           Some r \<Rightarrow> r
         | None \<Rightarrow> (s, unrouted (cl_json X) (ur_path req) get))"

text \<open>One connection of the console.\<close>

definition console_serve :: "console_libs \<Rightarrow> console_state screens \<Rightarrow> security \<Rightarrow> console \<Rightarrow> console_env \<Rightarrow> incoming \<Rightarrow> console_state \<Rightarrow> console_state \<times> ui_response \<times> bool" where
  "console_serve X P sec C E inp s =
     ui_respond (cl_json X) sec (\<lambda>req s. case route X P C E req s of (s', r) \<Rightarrow> (s', Some r)) inp s"

end
