(* ===== verification/Console_View_Claims.thy ===== *)
theory Console_View_Claims
  imports Console_View
begin

text \<open>
  Following a growing file gives the view that reading the file once gives, and the view's index of
  executions is exact.
\<close>

section \<open>Lines\<close>

definition unl :: "str list \<Rightarrow> bytes" where
  "unl ls = concat (map (\<lambda>l. l @ [nl]) ls)"

lemma unl_simps [simp]: "unl [] = []" "unl (l # ls) = l @ nl # unl ls" "unl (xs @ ys) = unl xs @ unl ys"
  by (simp_all add: unl_def)

definition nl_free :: "str list \<Rightarrow> bool" where
  "nl_free ls \<longleftrightarrow> list_all (\<lambda>l. nl \<notin> set l) ls"

lemma nl_free_simps [simp]:
  "nl_free []" "nl_free (l # ls) \<longleftrightarrow> nl \<notin> set l \<and> nl_free ls" "nl_free (xs @ ys) \<longleftrightarrow> nl_free xs \<and> nl_free ys"
  by (simp_all add: nl_free_def)

lemma bytes_lines:
  obtains ls rest where "b = unl ls @ rest" "nl_free ls" "nl \<notin> set rest"
proof -
  have "\<exists>ls rest. b = unl ls @ rest \<and> nl_free ls \<and> nl \<notin> set rest"
  proof (induction b rule: rev_induct)
    case Nil
    show ?case by (rule exI [of _ "[]"]) simp
  next
    case (snoc c b)
    then obtain ls rest where b: "b = unl ls @ rest" "nl_free ls" "nl \<notin> set rest" by blast
    show ?case
    proof (cases "c = nl")
      case True
      with b show ?thesis by (intro exI [of _ "ls @ [rest]"] exI [of _ "[]"]) simp
    next
      case False
      with b show ?thesis by (intro exI [of _ ls] exI [of _ "rest @ [c]"]) simp
    qed
  qed
  then show thesis using that by blast
qed

lemma upto_last_nl_lines:
  assumes "nl \<notin> set rest"
  shows "upto_last_nl (unl ls @ rest) = unl ls"
proof -
  have "\<forall>c\<in>set (rev rest). c \<noteq> nl" using assms by auto
  then have "dropWhile (\<lambda>c. c \<noteq> nl) (rev rest @ rev (unl ls)) = dropWhile (\<lambda>c. c \<noteq> nl) (rev (unl ls))"
    by (intro dropWhile_append2) blast
  then show ?thesis by (cases ls rule: rev_cases) (simp_all add: upto_last_nl_def)
qed

lemma split_on_unl: "nl_free ls \<Longrightarrow> split_on (\<lambda>c. c = nl) (unl ls) = ls @ [[]]"
proof (induction ls)
  case (Cons l ls)
  have "split_on (\<lambda>c. c = nl) (l @ nl # b) = l # split_on (\<lambda>c. c = nl) b" if "nl \<notin> set l" for l b
    using that by (induction l) (auto split: list.split)
  with Cons show ?case by simp
qed simp

lemma unl_empty [simp]: "unl ls = [] \<longleftrightarrow> ls = []"
  by (cases ls) simp_all

section \<open>The loop over the lines\<close>

definition line_text :: "str \<Rightarrow> str" where
  "line_text l = trim (from_utf8_lossy l)"

definition good_line :: "ledger_deps \<Rightarrow> str \<Rightarrow> bool" where
  "good_line L l \<longleftrightarrow> line_text l = [] \<or> ok (parse_record L (line_text l)) \<noteq> None"

lemma line_cases:
  obtains (blank) "line_text l = []" "good_line L l"
  | (parsed) r where "line_text l \<noteq> []" "parse_record L (line_text l) = Inr r" "good_line L l"
  | (bad) e where "line_text l \<noteq> []" "parse_record L (line_text l) = Inl e" "\<not> good_line L l"
  by (cases "parse_record L (line_text l)") (auto simp: good_line_def)

lemma tail_lines_Cons:
  "tail_lines L (l # ls) ((v, a), c) =
     (if line_text l = [] then tail_lines L ls ((v, a), c + (length l + 1))
      else case parse_record L (line_text l) of
             Inr rec \<Rightarrow> tail_lines L ls (view_push rec (note_index rec v, a), c + (length l + 1))
           | Inl e \<Rightarrow> ((v\<lparr>lv_error := Some (not_a_record (length (lv_records v)) e)\<rparr>, a), c))"
  by (simp only: tail_lines.simps line_text_def Let_def)

lemma tail_lines_blank [simp]: "tail_lines L [[]] st = (fst st, snd st + 1)"
proof -
  have "line_text [] = []" by (simp add: line_text_def from_utf8_lossy_def trim_def trim_start_def trim_end_def)
  then show ?thesis by (cases st; cases "fst st") (simp add: tail_lines_Cons del: tail_lines.simps(2))
qed

declare tail_lines.simps(2) [simp del]

lemma tail_lines_append:
  "tail_lines L (xs @ ys) st = (if list_all (good_line L) xs then tail_lines L ys (tail_lines L xs st) else tail_lines L xs st)"
proof (induction xs arbitrary: st)
  case (Cons x xs)
  obtain v a c where st: "st = ((v, a), c)" by (metis surj_pair)
  show ?case by (rule line_cases [of x L]) (simp_all add: st tail_lines_Cons Cons.IH Let_def)
qed simp

lemma tail_lines_consumed:
  "snd (tail_lines L ls st) = snd st + length (unl (takeWhile (good_line L) ls))"
proof (induction ls arbitrary: st)
  case (Cons x xs)
  obtain v a c where st: "st = ((v, a), c)" by (metis surj_pair)
  show ?case by (rule line_cases [of x L]) (simp_all add: st tail_lines_Cons Cons.IH Let_def)
qed simp

text \<open>The loop does not look at the offset, the version, what it has consumed or the decisions it reports.\<close>

definition moved :: "nat \<Rightarrow> nat \<Rightarrow> ledger_view \<Rightarrow> ledger_view" where
  "moved off n v = v\<lparr>lv_offset := off, lv_version := n\<rparr>"

lemma moved_simps [simp]:
  "lv_offset (moved off n v) = off" "lv_version (moved off n v) = n" "lv_records (moved off n v) = lv_records v"
  "lv_execs (moved off n v) = lv_execs v" "lv_error (moved off n v) = lv_error v"
  "moved off n (moved off' n' v) = moved off n v"
  "(moved off n v)\<lparr>lv_offset := x\<rparr> = moved x n v"
  "(moved off n v)\<lparr>lv_error := er\<rparr> = moved off n (v\<lparr>lv_error := er\<rparr>)"
  by (simp_all add: moved_def)

lemma moved_note: "note_index rec (moved off n v) = moved off n (note_index rec v)"
  by (simp add: note_index_def moved_def)

lemma moved_push: "fst (view_push rec (moved off n v, a)) = moved off n (fst (view_push rec (v, a')))"
  by (simp add: view_push_def moved_def Let_def split: record_kind.split option.split)

lemma tail_lines_moved:
  "fst (fst (tail_lines L ls ((moved off n v, a), c))) = moved off n (fst (fst (tail_lines L ls ((v, a'), c'))))"
proof (induction ls arbitrary: v a c a' c')
  case (Cons x xs)
  have step: "fst (fst (tail_lines L xs (view_push r (moved off n w, a), c))) =
      moved off n (fst (fst (tail_lines L xs (view_push r (w, a'), c'))))" for r w a a' c c'
    using Cons.IH [of "fst (view_push r (w, a'))" "snd (view_push r (moved off n w, a))" c "snd (view_push r (w, a'))" c']
    by (simp add: moved_push [of r off n w a a', symmetric])
  show ?case
    by (rule line_cases [of x L]) (simp_all add: tail_lines_Cons Cons.IH [of v a _ a'] step moved_note)
qed simp

section \<open>Following a growing file\<close>

text \<open>What reading the lines from the start gives, and the bytes it consumes.\<close>

definition seen :: "ledger_deps \<Rightarrow> str list \<Rightarrow> ledger_view" where
  "seen L ls = fst (fst (tail_lines L ls ((new_view, []), 0)))"

definition eaten :: "ledger_deps \<Rightarrow> str list \<Rightarrow> nat" where
  "eaten L ls = length (unl (takeWhile (good_line L) ls))"

definition settled :: "ledger_deps \<Rightarrow> str list \<Rightarrow> ledger_view \<Rightarrow> bool" where
  "settled L ls v \<longleftrightarrow> (\<exists>n. v = moved (eaten L ls) n (seen L ls))"

lemma settled_new: "settled L [] new_view"
  by (auto simp: settled_def seen_def eaten_def moved_def new_view_def)

lemma not_all_ok_split:
  assumes "\<not> list_all P xs"
  obtains ys y zs where "xs = ys @ y # zs" "list_all P ys" "\<not> P y" "takeWhile P xs = ys" "dropWhile P xs = y # zs"
proof -
  have ne: "dropWhile P xs \<noteq> []" using assms by (auto simp: list_all_iff dropWhile_eq_Nil_conv)
  then obtain y zs where d: "dropWhile P xs = y # zs" by (cases "dropWhile P xs") auto
  have "\<not> P y" using hd_dropWhile [OF ne] d by simp
  moreover have "xs = takeWhile P xs @ y # zs" using d by (metis takeWhile_dropWhile_id)
  moreover have "list_all P (takeWhile P xs)" by (auto simp: list_all_iff dest: set_takeWhileD)
  ultimately show thesis using that d by blast
qed

lemma all_ok:
  assumes "list_all P xs"
  shows "dropWhile P xs = []" "takeWhile P xs = xs" "takeWhile P (xs @ ys) = xs @ takeWhile P ys"
  using assms by (induction xs) simp_all

lemma takeWhile_stop: "list_all P ys \<Longrightarrow> \<not> P y \<Longrightarrow> takeWhile P (ys @ y # zs) = ys"
  by (induction ys) simp_all

lemma tail_lines_stuck:
  assumes "\<not> good_line L x"
  obtains e where "\<And>ls v a c. tail_lines L (x # ls) ((v, a), c) = ((v\<lparr>lv_error := Some (not_a_record (length (lv_records v)) e)\<rparr>, a), c)"
  using assms by (rule_tac line_cases [of x L]) (auto simp: tail_lines_Cons)

lemma seen_resume:
  "fst (fst (tail_lines L (dropWhile (good_line L) ls @ zs) ((moved off n (seen L ls), a), c))) = moved off n (seen L (ls @ zs))"
proof (cases "list_all (good_line L) ls")
  case True
  moreover obtain w a' c' where w: "tail_lines L ls ((new_view, []), 0) = ((w, a'), c')" by (metis surj_pair)
  ultimately show ?thesis
    by (simp add: seen_def tail_lines_append all_ok tail_lines_moved [of L zs off n w a c a' c'])
next
  case False
  then obtain ys y xs where s: "ls = ys @ y # xs" "list_all (good_line L) ys" "\<not> good_line L y" "dropWhile (good_line L) ls = y # xs"
    by (rule not_all_ok_split)
  obtain e where e: "\<And>ls v a c. tail_lines L (y # ls) ((v, a), c) = ((v\<lparr>lv_error := Some (not_a_record (length (lv_records v)) e)\<rparr>, a), c)"
    using tail_lines_stuck [OF s(3)] by blast
  obtain w a' c' where w: "tail_lines L ys ((new_view, []), 0) = ((w, a'), c')" by (metis surj_pair)
  have "seen L ls = w\<lparr>lv_error := Some (not_a_record (length (lv_records w)) e)\<rparr>"
    by (simp add: seen_def s(1,2) tail_lines_append w e)
  moreover have "seen L (ls @ zs) = seen L ls"
    using False by (simp add: seen_def tail_lines_append)
  ultimately show ?thesis by (simp add: s(4) e)
qed

lemma eaten_append: "eaten L (ls @ zs) = eaten L ls + length (unl (takeWhile (good_line L) (dropWhile (good_line L) ls @ zs)))"
proof (cases "list_all (good_line L) ls")
  case True
  then show ?thesis by (simp add: eaten_def all_ok)
next
  case False
  then obtain ys y xs where s: "ls = ys @ y # xs" "list_all (good_line L) ys" "\<not> good_line L y" "dropWhile (good_line L) ls = y # xs" "takeWhile (good_line L) ls = ys"
    by (rule not_all_ok_split)
  have "takeWhile (good_line L) (ls @ zs) = ys" using takeWhile_stop [OF s(2,3), of "xs @ zs"] s(1) by simp
  with s show ?thesis by (simp add: eaten_def)
qed

lemma drop_eaten: "drop (eaten L ls) (unl ls @ t) = unl (dropWhile (good_line L) ls) @ t"
proof -
  have "unl ls = unl (takeWhile (good_line L) ls) @ unl (dropWhile (good_line L) ls)"
    by (metis takeWhile_dropWhile_id unl_simps(3))
  then show ?thesis by (simp add: eaten_def)
qed

lemma nl_free_dropWhile: "nl_free ls \<Longrightarrow> nl_free (dropWhile P ls)"
  by (auto simp: nl_free_def list_all_iff dest: set_dropWhileD)

lemma unl_takeWhile_le: "length (unl (takeWhile P ls)) \<le> length (unl ls)"
  by (metis le_add1 length_append takeWhile_dropWhile_id unl_simps(3))

lemma min_eaten: "min (length (unl (takeWhile P (ms @ [[]])))) (length (unl ms)) = length (unl (takeWhile P ms))"
proof (cases "list_all P ms")
  case True
  then show ?thesis by (simp add: all_ok)
next
  case False
  then obtain ys y xs where s: "ms = ys @ y # xs" "list_all P ys" "\<not> P y" "takeWhile P ms = ys"
    by (rule not_all_ok_split)
  have "takeWhile P (ms @ [[]]) = ys" using takeWhile_stop [OF s(2,3), of "xs @ [[]]"] s(1) by simp
  with s(4) unl_takeWhile_le [of P ms] show ?thesis by (simp add: min_absorb1)
qed

lemma refresh_jsonl_read:
  assumes "lv_offset v \<le> length b" and "length b \<noteq> lv_offset v"
    and "upto_last_nl (drop (lv_offset v) b) = unl ms" and "ms \<noteq> []" and "nl_free ms"
  shows "fst (refresh_jsonl L (TailBytes b) (v, a)) =
    (let r = tail_lines L (ms @ [[]]) ((v, a), 0)
     in (fst (fst r))\<lparr>lv_offset := lv_offset (fst (fst r)) + min (snd r) (length (unl ms))\<rparr>)"
  using assms by (simp add: refresh_jsonl_def Let_def split_on_unl case_prod_beta)

lemma refresh_settled:
  assumes "settled L ls v" and "nl_free (ls @ zs)" and "nl \<notin> set rest"
  shows "settled L (ls @ zs) (fst (refresh_jsonl L (TailBytes (unl (ls @ zs) @ rest)) (v, a)))"
proof -
  let ?ms = "dropWhile (good_line L) ls @ zs" and ?b = "unl (ls @ zs) @ rest"
  obtain n where v: "v = moved (eaten L ls) n (seen L ls)" using assms(1) by (auto simp: settled_def)
  have d: "drop (eaten L ls) ?b = unl ?ms @ rest" using drop_eaten [of L ls "unl zs @ rest"] by simp
  have le: "eaten L ls \<le> length ?b"
    using unl_takeWhile_le [of "good_line L" ls] by (simp add: eaten_def)
  have up: "upto_last_nl (drop (eaten L ls) ?b) = unl ?ms" unfolding d by (rule upto_last_nl_lines [OF assms(3)])
  show ?thesis
  proof (cases "?ms = []")
    case True
    then have "refresh_jsonl L (TailBytes ?b) (v, a) = (v, a)"
      using le up by (simp add: refresh_jsonl_def v Let_def)
    moreover have "zs = []" using True by simp
    ultimately show ?thesis using assms(1) by simp
  next
    case False
    have free: "nl_free ?ms" using assms(2) nl_free_dropWhile by simp
    let ?r = "tail_lines L ?ms ((v, a), 0)"
    have f: "fst (tail_lines L (?ms @ [[]]) ((v, a), 0)) = fst ?r" by (subst tail_lines_append) simp
    have "snd (tail_lines L (?ms @ [[]]) ((v, a), 0)) = length (unl (takeWhile (good_line L) (?ms @ [[]])))"
      by (simp only: tail_lines_consumed snd_conv add_0)
    moreover note min_eaten [of "good_line L" ?ms]
    ultimately have c: "min (snd (tail_lines L (?ms @ [[]]) ((v, a), 0))) (length (unl ?ms)) = eaten L (ls @ zs) - eaten L ls"
      by (simp add: eaten_append)
    have r: "fst (fst ?r) = moved (eaten L ls) n (seen L (ls @ zs))" unfolding v by (rule seen_resume)
    have ne: "length ?b \<noteq> eaten L ls" using d False by (metis append_is_Nil_conv drop_all nle_le unl_empty)
    have "fst (refresh_jsonl L (TailBytes ?b) (v, a)) =
        (fst (fst ?r))\<lparr>lv_offset := lv_offset (fst (fst ?r)) + (eaten L (ls @ zs) - eaten L ls)\<rparr>"
      using refresh_jsonl_read [OF _ _ _ False free, of v ?b L a] le ne up by (simp only: v moved_simps Let_def f [unfolded v] c [unfolded v] simp_thms)
    also have "\<dots> = moved (eaten L (ls @ zs)) n (seen L (ls @ zs))"
      by (simp add: r eaten_append)
    finally show ?thesis by (auto simp: settled_def)
  qed
qed


definition full_lines :: "bytes \<Rightarrow> str list" where
  "full_lines b = butlast (split_on (\<lambda>c. c = nl) b)"

lemma split_on_lines: "nl_free ls \<Longrightarrow> nl \<notin> set rest \<Longrightarrow> split_on (\<lambda>c. c = nl) (unl ls @ rest) = ls @ [rest]"
proof (induction ls)
  case Nil
  then have "split_on (\<lambda>c. c = nl) rest = [rest]" by (induction rest) auto
  then show ?case by simp
next
  case (Cons l ls)
  have "split_on (\<lambda>c. c = nl) (l @ nl # b) = l # split_on (\<lambda>c. c = nl) b" if "nl \<notin> set l" for l b
    using that by (induction l) (auto split: list.split)
  with Cons show ?case by simp
qed

lemma full_lines_eq: "nl_free ls \<Longrightarrow> nl \<notin> set rest \<Longrightarrow> full_lines (unl ls @ rest) = ls"
  by (simp add: full_lines_def split_on_lines)

lemma full_lines_prefix:
  assumes "prefix b b'"
  obtains zs rest where "b' = unl (full_lines b @ zs) @ rest" "nl_free (full_lines b @ zs)" "nl \<notin> set rest"
    "full_lines b' = full_lines b @ zs"
proof -
  obtain ls r where b: "b = unl ls @ r" "nl_free ls" "nl \<notin> set r" by (rule bytes_lines)
  obtain x where "b' = b @ x" using assms by (auto simp: prefix_def)
  moreover obtain zs rest where "r @ x = unl zs @ rest" "nl_free zs" "nl \<notin> set rest" by (rule bytes_lines)
  ultimately have "b' = unl (ls @ zs) @ rest" "nl_free (ls @ zs)" "nl \<notin> set rest" using b(1,2) by simp_all
  with b show thesis by (intro that [of zs rest]) (auto simp: full_lines_eq simp del: unl_simps)
qed

definition jsonl_env :: "bytes \<Rightarrow> view_env" where
  "jsonl_env b = \<lparr>ve_exists = True, ve_kind = Inr Jsonl, ve_file = TailBytes b, ve_store = Inr (0, [])\<rparr>"

lemma view_refresh_settled:
  assumes "settled L (full_lines b) v" and "prefix b b'"
  shows "settled L (full_lines b') (fst (view_refresh L path (jsonl_env b') v))"
proof -
  obtain zs rest where b': "b' = unl (full_lines b @ zs) @ rest" "nl_free (full_lines b @ zs)" "nl \<notin> set rest"
      "full_lines b' = full_lines b @ zs"
    using assms(2) by (rule full_lines_prefix)
  have "settled L (full_lines b') (fst (refresh_jsonl L (TailBytes b') (v, [])))"
    using refresh_settled [OF assms(1) b'(2,3)] b'(4) by (simp only: b'(1) [symmetric])
  then show ?thesis
    by (auto simp: view_refresh_def jsonl_env_def Let_def case_prod_beta settled_def moved_def)
qed

lemma follow_settled:
  "sorted_wrt prefix (b # bs) \<Longrightarrow> settled L (full_lines b) v \<Longrightarrow>
   settled L (full_lines (last (b # bs))) (fold (\<lambda>b v. fst (view_refresh L path (jsonl_env b) v)) bs v)"
proof (induction bs arbitrary: b v)
  case (Cons b' bs)
  then show ?case using view_refresh_settled [of L b v b' path] Cons.IH [of b'] by simp
qed simp

lemma full_lines_Nil [simp]: "full_lines [] = []"
  by (simp add: full_lines_def)

lemma follow_new:
  assumes "sorted_wrt prefix (bs @ [b])"
  shows "settled L (full_lines b) (fold (\<lambda>b v. fst (view_refresh L path (jsonl_env b) v)) (bs @ [b]) new_view)"
  using follow_settled [of "[]" "bs @ [b]" L new_view path] assms settled_new by simp

definition line_record :: "ledger_deps \<Rightarrow> str \<Rightarrow> ledger_record option" where
  "line_record L l = (if line_text l = [] then None else ok (parse_record L (line_text l)))"

lemma view_push_records: "lv_records (fst (view_push rec (v, a))) = lv_records v @ [rec]"
  by (simp add: view_push_def Let_def split: record_kind.split option.split)

lemma note_index_simps [simp]:
  "lv_records (note_index rec v) = lv_records v" "lv_execs (note_index rec v) = lv_execs v"
  by (simp_all add: note_index_def)

lemma tail_lines_records:
  "lv_records (fst (fst (tail_lines L ls ((v, a), c)))) = lv_records v @ List.map_filter (line_record L) (takeWhile (good_line L) ls)"
proof (induction ls arbitrary: v a c)
  case (Cons x xs)
  have "lv_records (fst (fst (tail_lines L xs (view_push r (note_index r v, a), c)))) =
      lv_records v @ r # List.map_filter (line_record L) (takeWhile (good_line L) xs)" for r v a c
    using Cons.IH [of "fst (view_push r (note_index r v, a))" "snd (view_push r (note_index r v, a))" c]
    by (simp add: view_push_records)
  then show ?case
    by (rule_tac line_cases [of x L])
      (simp_all add: tail_lines_Cons Cons.IH line_record_def [of L x] List.map_filter_simps)
qed (simp add: List.map_filter_simps)

lemma seen_records: "lv_records (seen L ls) = List.map_filter (line_record L) (takeWhile (good_line L) ls)"
  by (simp add: seen_def tail_lines_records new_view_def)

text \<open>
   C27. However often the console looks at a JSONL ledger while it grows, and wherever the writes are cut,
  its view is the one a single reading of the final file gives: the same records, executions, error and
  offset.  The records are those of the complete lines before the first line that is not a record.
\<close>

theorem console_tails_ledger:
  assumes "sorted_wrt prefix (bs @ [b])"
  shows "let v = fold (\<lambda>b v. fst (view_refresh L path (jsonl_env b) v)) (bs @ [b]) new_view;
             w = fst (view_refresh L path (jsonl_env b) new_view)
         in lv_records v = lv_records w \<and> lv_execs v = lv_execs w \<and> lv_error v = lv_error w \<and> lv_offset v = lv_offset w \<and>
            lv_records v = List.map_filter (line_record L) (takeWhile (good_line L) (full_lines b))"
proof -
  have "settled L (full_lines b) (fold (\<lambda>b v. fst (view_refresh L path (jsonl_env b) v)) (bs @ [b]) new_view)"
    using assms by (rule follow_new)
  moreover have "settled L (full_lines b) (fst (view_refresh L path (jsonl_env b) new_view))"
    using follow_new [of "[]" b L path] by simp
  ultimately show ?thesis unfolding Let_def settled_def by (auto simp: seen_records)
qed

theorem console_tails_ledger_witness:
  "lv_records (fold (\<lambda>b v. fst (view_refresh toy_deps ''l.jsonl'' (jsonl_env b) v)) [''x'', ''x'' @ [nl], ''x'' @ [nl] @ ''y''] new_view) =
   lv_records (fst (view_refresh toy_deps ''l.jsonl'' (jsonl_env (''x'' @ [nl] @ ''y'')) new_view))"
  using console_tails_ledger [of "[''x'', ''x'' @ [nl]]" "''x'' @ [nl] @ ''y''" toy_deps "''l.jsonl''"]
  by (simp add: Let_def)

text \<open>
  A ledger that is replaced by one that is not shorter is not read again from the start, though the
  comment of \<open>refresh\<close> says so: with the same length nothing is read at all.
\<close>

lemma replaced_file_not_reread:
  "lv_offset v = length b' \<Longrightarrow> fst (view_refresh L path (jsonl_env b') v) = v"
  by (simp add: view_refresh_def jsonl_env_def refresh_jsonl_def Let_def)

section \<open>The index of executions\<close>

definition execution_of :: "nat \<Rightarrow> ledger_record \<Rightarrow> bool" where
  "execution_of d r \<longleftrightarrow> rkind r = Execution \<and> decision_index r = Some d"

definition execs_ok :: "ledger_view \<Rightarrow> bool" where
  "execs_ok v \<longleftrightarrow> (\<forall>d. lv_execs v d = filter (\<lambda>p. execution_of d (lv_records v ! p)) [0..<length (lv_records v)])"

lemma execs_ok_fields:
  assumes "execs_ok v" and "lv_records w = lv_records v" and "lv_execs w = lv_execs v"
  shows "execs_ok w"
  using assms by (simp add: execs_ok_def)

lemma execs_ok_empty [simp]: "execs_ok new_view" "execs_ok (view_reset v)"
  by (simp_all add: execs_ok_def new_view_def view_reset_def)

lemma execs_ok_push:
  assumes "execs_ok v"
  shows "execs_ok (fst (view_push rec (v, a)))"
proof -
  have "filter (\<lambda>p. execution_of d ((lv_records v @ [rec]) ! p)) [0..<length (lv_records v)] =
      filter (\<lambda>p. execution_of d (lv_records v ! p)) [0..<length (lv_records v)]" for d
    by (rule filter_cong) (simp_all add: nth_append)
  then show ?thesis
    using assms by (auto simp: execs_ok_def view_push_def Let_def execution_of_def split: record_kind.split option.split)
qed

lemma execs_ok_tail: "execs_ok v \<Longrightarrow> execs_ok (fst (fst (tail_lines L ls ((v, a), c))))"
proof (induction ls arbitrary: v a c)
  case (Cons x xs)
  have "execs_ok (fst (fst (tail_lines L xs (view_push r (note_index r v, a), c))))" if "execs_ok v" for r v a c
    using Cons.IH [of "fst (view_push r (note_index r v, a))" "snd (view_push r (note_index r v, a))" c]
      execs_ok_push [of "note_index r v" r a] execs_ok_fields [OF that, of "note_index r v"] by simp
  then show ?case
    using Cons.prems execs_ok_fields [OF Cons.prems]
    by (rule_tac line_cases [of x L]) (simp_all add: tail_lines_Cons Cons.IH)
qed simp

lemma execs_ok_jsonl:
  assumes "execs_ok v"
  shows "execs_ok (fst (refresh_jsonl L tf (v, a)))"
proof -
  have e: "execs_ok ((fst (fst (tail_lines L ls ((w, a), c))))\<lparr>lv_offset := n\<rparr>)" if "execs_ok w" for ls w c n
    using execs_ok_tail [OF that] by (rule execs_ok_fields) simp_all
  have "execs_ok (v\<lparr>lv_error := er\<rparr>)" for er using assms by (rule execs_ok_fields) simp_all
  with assms show ?thesis
    by (cases tf) (simp_all add: refresh_jsonl_def Let_def case_prod_beta e)
qed

lemma execs_ok_items: "execs_ok (fst va) \<Longrightarrow> execs_ok (fst (store_items n items va))"
proof (induction n items va rule: store_items.induct)
  case (2 n rec items va)
  then show ?case using execs_ok_push [of "fst va" rec "snd va"] by (cases "index rec < n"; cases va) simp_all
next
  case (3 n e items va)
  then show ?case by (auto intro: execs_ok_fields)
qed simp

lemma execs_ok_store:
  assumes "execs_ok v"
  shows "execs_ok (fst (refresh_store store (v, a)))"
  using assms execs_ok_fields [OF assms]
  by (auto simp: refresh_store_def Let_def intro!: execs_ok_items split: sum.split)

lemma execs_ok_refresh:
  assumes "execs_ok v"
  shows "execs_ok (fst (view_refresh L path E v))"
proof -
  have f: "execs_ok (w\<lparr>lv_error := er\<rparr>)" "execs_ok (w\<lparr>lv_version := n\<rparr>)" if "execs_ok w" for w er n
    using that by (auto intro: execs_ok_fields)
  show ?thesis
    using assms execs_ok_jsonl [OF assms, of L "ve_file E" "[]"] execs_ok_store [OF assms, of "ve_store E" "[]"]
    by (simp add: view_refresh_def Let_def case_prod_beta f split: sum.split store_kind.split)
qed

lemma map_filter_eq: "(\<And>x. x \<in> set xs \<Longrightarrow> f x = g x) \<Longrightarrow> List.map_filter f xs = List.map_filter g xs"
  by (induction xs) (simp_all add: List.map_filter_simps split: option.split)

lemma map_filter_snoc: "List.map_filter f (xs @ [x]) = List.map_filter f xs @ (case f x of None \<Rightarrow> [] | Some y \<Rightarrow> [y])"
  by (induction xs) (simp_all add: List.map_filter_simps split: option.split)

lemma view_executions_filter:
  assumes "execs_ok v"
  shows "view_executions v d = filter (execution_of d) (lv_records v)"
proof -
  have "List.map_filter (\<lambda>p. if p < length xs then Some (xs ! p) else None) (filter (\<lambda>p. P (xs ! p)) [0..<length xs]) = filter P xs" for P and xs :: "ledger_record list"
  proof (induction xs rule: rev_induct)
    case (snoc x xs)
    have "filter (\<lambda>p. P ((xs @ [x]) ! p)) [0..<length xs] = filter (\<lambda>p. P (xs ! p)) [0..<length xs]"
      by (rule filter_cong) (simp_all add: nth_append)
    moreover have "List.map_filter (\<lambda>p. if p < Suc (length xs) then Some ((xs @ [x]) ! p) else None) (filter Q [0..<length xs]) =
        List.map_filter (\<lambda>p. if p < length xs then Some (xs ! p) else None) (filter Q [0..<length xs])" for Q
      by (rule map_filter_eq) (auto simp: nth_append)
    ultimately show ?case using snoc.IH by (simp add: List.map_filter_simps map_filter_snoc)
  qed (simp add: List.map_filter_simps)
  with assms show ?thesis by (simp add: view_executions_def execs_ok_def)
qed

text \<open>
   Whatever the ledger is and however it changes between refreshes (appended to, shortened, replaced,
  missing, unreadable, another kind of store), the executions the view gives for a decision are exactly
  its execution records, in order.
\<close>

theorem console_executions_exact:
  "view_executions (fold (\<lambda>E v. fst (view_refresh L path E v)) Es new_view) d =
   filter (\<lambda>r. rkind r = Execution \<and> decision_index r = Some d) (lv_records (fold (\<lambda>E v. fst (view_refresh L path E v)) Es new_view))"
proof -
  have "execs_ok (fold (\<lambda>E v. fst (view_refresh L path E v)) Es v)" if "execs_ok v" for v
    using that by (induction Es arbitrary: v) (simp_all add: execs_ok_refresh)
  then show ?thesis by (simp add: view_executions_filter execution_of_def [abs_def])
qed

end
