(* ===== verification/Console_Claims.thy ===== *)
theory Console_Claims
  imports Console Console_View_Claims
begin

text \<open>
  What the console may change: the requests that reach a handler, the decisions it writes, and the policy
  file.
\<close>

section \<open>Requests that reach a handler\<close>

definition own_host :: "security \<Rightarrow> str \<Rightarrow> bool" where
  "own_host sec h \<longleftrightarrow>
     eq_ignore_ascii_case (''127.0.0.1:'' @ show_nat (sc_port sec)) h \<or> eq_ignore_ascii_case (''localhost:'' @ show_nat (sc_port sec)) h"

definition own_origin :: "security \<Rightarrow> str \<Rightarrow> bool" where
  "own_origin sec h \<longleftrightarrow>
     eq_ignore_ascii_case h (''http://127.0.0.1:'' @ show_nat (sc_port sec)) \<or> eq_ignore_ascii_case h (''http://localhost:'' @ show_nat (sc_port sec))"

lemma security_check_hosts:
  assumes "security_check J sec req = None"
  obtains hst where "ur_headers req ''host'' = Some hst" "own_host sec (trim hst)"
    "case ur_headers req ''origin'' of None \<Rightarrow> True | Some h \<Rightarrow> own_origin sec (trim h)"
  using assms
  by (auto simp: security_check_def own_hosts_def own_host_def own_origin_def Let_def split: option.splits if_splits)

lemma security_check_api:
  assumes "security_check J sec req = None" and "starts_with (ur_path req) ''/api/''"
  obtains tok where "ur_headers req TOKEN_HEADER = Some tok" "trim tok = sc_token sec"
  using assms by (auto simp: security_check_def Let_def ct_eq_iff split: option.splits if_splits)

definition json_body :: "ui_request \<Rightarrow> bool" where
  "json_body req \<longleftrightarrow>
     (case ur_headers req ''content-type'' of
        Some t \<Rightarrow> eq_ignore_ascii_case (trim (hd (split_on (\<lambda>c. c = CHR '';'') t))) ''application/json''
      | None \<Rightarrow> False)"

lemma security_check_post:
  assumes "security_check J sec req = None" and "starts_with (ur_path req) ''/api/''" and "ur_method req = ''POST''"
  shows "json_body req"
proof -
  have "\<not> eq_ignore_ascii_case (trim []) ''application/json''"
    by (simp add: eq_ignore_ascii_case_def trim_def trim_start_def trim_end_def to_ascii_lowercase_def)
  with assms show ?thesis
    by (auto simp: security_check_def json_body_def Let_def split: option.splits if_splits)
qed

lemma read_body_bound:
  "read_body J hdrs inp = Inr b \<Longrightarrow> length b \<le> MAX_BODY"
  by (auto simp: read_body_def result_simps split: if_splits option.splits)

lemma read_request_bound:
  "ui_read_request J inp = Inr req \<Longrightarrow> length (ur_body req) \<le> MAX_BODY"
  by (auto simp: ui_read_request_def Let_def result_simps dest!: read_body_bound split: if_splits prod.splits option.splits)

definition lower_names :: "(str \<rightharpoonup> str) \<Rightarrow> bool" where
  "lower_names hdrs \<longleftrightarrow> dom hdrs \<subseteq> {k. to_ascii_lowercase k = k}"

lemma ascii_lower_idem [simp]: "to_ascii_lowercase (to_ascii_lowercase s) = to_ascii_lowercase s"
proof -
  have "ascii_lower (ascii_lower c) = ascii_lower c" for c
    by (auto simp: ascii_lower_def code_def)
  then show ?thesis by (simp add: to_ascii_lowercase_def)
qed

lemma read_headers_names: "read_headers J st hdrs = Inr (hdrs', inp) \<Longrightarrow> lower_names hdrs \<Longrightarrow> lower_names hdrs'"
proof (induction J st hdrs rule: read_headers.induct)
  case (1 J st hdrs)
  obtain line n inp0 where l: "read_head_line J st = Inr (line, n, inp0)"
    using 1(2) by (subst (asm) read_headers.simps) (auto split: sum.splits prod.splits)
  show ?case
  proof (cases "trim_line_ends line = []")
    case True
    with 1(2,3) l show ?thesis by (subst (asm) read_headers.simps) simp
  next
    case False
    then obtain k v where s: "split_once (trim_line_ends line) '':'' = Some (k, v)"
        "read_headers J (n, inp0) (hdrs(to_ascii_lowercase (trim k) \<mapsto> trim v)) = Inr (hdrs', inp)"
      using 1(2) l by (subst (asm) read_headers.simps) (auto simp: Let_def split: option.splits if_splits)
    have "\<not> (hdrs (to_ascii_lowercase (trim k)) \<noteq> None \<and> to_ascii_lowercase (trim k) \<in> set SINGLE_HEADERS)"
      using 1(2) l False s(1) by (subst (asm) read_headers.simps) (auto simp: Let_def split: if_splits)
    moreover have "lower_names (hdrs(to_ascii_lowercase (trim k) \<mapsto> trim v))" using 1(3) by (auto simp: lower_names_def)
    ultimately show ?thesis using 1(1) [OF l refl refl refl False s(1) refl refl] s(2) by blast
  qed
qed

definition request_wf :: "ui_request \<Rightarrow> bool" where
  "request_wf req \<longleftrightarrow>
     ur_method req \<noteq> [] \<and> starts_with (ur_path req) ''/'' \<and> CHR ''?'' \<notin> set (ur_path req) \<and> lower_names (ur_headers req) \<and>
     ur_headers req ''transfer-encoding'' = None \<and> length (ur_body req) \<le> MAX_BODY"

lemma split_once_question: "split_once s ''?'' = Some (a, b) \<Longrightarrow> CHR ''?'' \<notin> set a"
  by (induction s arbitrary: a) (auto simp: starts_with_def split: if_splits)

lemma split_once_no_question: "split_once s ''?'' = None \<Longrightarrow> CHR ''?'' \<notin> set s"
  by (induction s) (auto simp: starts_with_def split: if_splits)

lemma slash_path: "starts_with (a @ ''?'' @ b) ''/'' \<Longrightarrow> starts_with a ''/''"
  by (cases a) (auto simp: starts_with_def)

lemma read_request_wf:
  assumes "ui_read_request J inp = Inr req"
  shows "request_wf req"
proof -
  obtain line n inp1 hdrs inp2 b target where r:
      "read_headers J (n, inp1) Map.empty = Inr (hdrs, inp2)" "read_body J hdrs inp2 = Inr b" "starts_with target ''/''"
      "ur_method req \<noteq> []" "ur_headers req = hdrs" "ur_body req = b"
      "ur_path req = (case split_once target ''?'' of Some (p, q) \<Rightarrow> p | None \<Rightarrow> target)"
    using assms by (auto simp: ui_read_request_def Let_def result_simps split: if_splits prod.splits option.splits)
  have "starts_with (ur_path req) ''/'' \<and> CHR ''?'' \<notin> set (ur_path req)"
    using r(3,7) split_once_no_question split_once_question
    by (auto split: option.splits dest: split_once_eq_Some slash_path)
  moreover have "lower_names hdrs" using read_headers_names [OF r(1)] by (simp add: lower_names_def)
  moreover have "hdrs ''transfer-encoding'' = None" using r(2) by (auto simp: read_body_def split: if_splits)
  ultimately show ?thesis using r read_body_bound [OF r(2)] by (simp add: request_wf_def)
qed

definition read_refusal :: "ui_response \<Rightarrow> bool" where
  "read_refusal r \<longleftrightarrow> us_status r \<in> {400, 413, 431, 501}"

lemma resp_error_status [simp]: "us_status (resp_error J st c m) = st"
  by (simp add: resp_error_def resp_json_def resp_bytes_def)

lemma read_head_line_refusal: "read_head_line J st = Inl r \<Longrightarrow> read_refusal r"
  by (auto simp: read_head_line_def read_refusal_def split: option.splits if_splits)

lemma read_headers_refusal: "read_headers J st hdrs = Inl r \<Longrightarrow> read_refusal r"
proof (induction J st hdrs rule: read_headers.induct)
  case (1 J st hdrs)
  show ?case
  proof (cases "read_head_line J st")
    case (Inl e)
    with 1(2) read_head_line_refusal show ?thesis by (subst (asm) read_headers.simps) simp
  next
    case (Inr x)
    then obtain line n inp where l: "read_head_line J st = Inr (line, n, inp)" by (cases x) auto
    have refused: "read_refusal (resp_error J 400 c m)" for c m by (simp add: read_refusal_def)
    show ?thesis
    proof (cases "read_refusal r")
      case False
      with 1(2) l have ne: "trim_line_ends line \<noteq> []" by (subst (asm) read_headers.simps) auto
      with 1(2) l False refused obtain k v where s: "split_once (trim_line_ends line) '':'' = Some (k, v)"
        by (subst (asm) read_headers.simps) (auto split: option.splits)
      let ?k = "to_ascii_lowercase (trim k)"
      have "\<not> (hdrs ?k \<noteq> None \<and> ?k \<in> set SINGLE_HEADERS)" "read_headers J (n, inp) (hdrs(?k \<mapsto> trim v)) = Inl r"
        using 1(2) l False refused ne s by (subst (asm) read_headers.simps, auto simp: Let_def split: if_splits)+
      then show ?thesis using 1(1) [OF l refl refl refl ne s refl refl] by blast
    qed
  qed
qed

lemma read_body_refusal: "read_body J hdrs inp = Inl r \<Longrightarrow> read_refusal r"
  by (auto simp: read_body_def result_simps read_refusal_def ok_or_def split: if_splits option.splits)

text \<open>
   C38. What reading a request gives: a response that refuses it (400, 413, 431 or 501), or a well-formed
  request, which has a method, a path from the root without its query, header names in lower case, no
  transfer encoding, and a body within the limit.
\<close>

theorem console_request_wellformed:
  "case ui_read_request J inp of Inl r \<Rightarrow> read_refusal r | Inr req \<Rightarrow> request_wf req"
proof (cases "ui_read_request J inp")
  case (Inl r)
  then have "read_refusal r"
    by (auto simp: ui_read_request_def Let_def result_simps read_refusal_def [of "resp_error _ _ _ _"] split: if_splits prod.splits option.splits
        dest: read_head_line_refusal read_headers_refusal read_body_refusal)
  with Inl show ?thesis by simp
qed (simp add: read_request_wf)

lemma route_cases:
  obtains "fst (route X P C E req s) = s"
  | r where "ur_method req \<in> {''GET'', ''HEAD''}" "route_get X P C E req s = Some r" "route X P C E req s = r"
  | r where "ur_method req = ''POST''" "route_post X P C E req s = Some r" "route X P C E req s = r"
proof (cases "ur_method req = ''GET'' \<or> ur_method req = ''HEAD''")
  case True
  then show thesis using that(1,2) by (cases "route_get X P C E req s") (auto simp: route_def)
next
  case False
  then show thesis using that(1,3) by (cases "route_post X P C E req s"; cases "ur_method req = ''POST''") (auto simp: route_def)
qed

lemma refreshed_simps [simp]:
  "cs_decisions (refreshed X C E s) = cs_decisions s" "cs_files (refreshed X C E s) = cs_files s"
  by (simp_all add: refreshed_def)

definition same_files :: "console_state \<Rightarrow> console_state \<Rightarrow> bool" where
  "same_files s s' \<longleftrightarrow> cs_decisions s' = cs_decisions s \<and> cs_files s' = cs_files s"

lemma same_files_refl [simp]: "same_files s s" "same_files s (refreshed X C E s)"
  by (simp_all add: same_files_def)

lemma reading_handlers:
  "same_files s (fst (api_decisions X C E req s))" "same_files s (fst (api_record X rj C E req s))"
  "same_files s (fst (pending_json X C E s))" "same_files s (fst (connect_json X C E s))"
  by (simp_all add: api_decisions_def api_record_def pending_json_def connect_json_def Let_def split: option.split)

lemma route_get_changes:
  assumes "route_get X P C E req s = Some r"
  shows "same_files s (fst r)" "fst r = s \<or> starts_with (ur_path req) ''/api/''"
  using assms
  by (auto simp: route_get_def Let_def case_prod_beta starts_with_def reading_handlers split: option.splits if_splits)

lemma route_post_api:
  assumes "route_post X P C E req s = Some r"
  shows "starts_with (ur_path req) ''/api/''"
  using assms by (auto simp: route_post_def Let_def starts_with_def split: if_splits)

lemma serve_cases:
  obtains "fst (console_serve X P sec C E inp s) = s"
  | req where "ui_read_request (cl_json X) inp = Inr req" "security_check (cl_json X) sec req = None"
      "fst (console_serve X P sec C E inp s) = fst (route X P C E req s)"
      "fst (snd (console_serve X P sec C E inp s)) = snd (route X P C E req s)"
  by (cases "ui_read_request (cl_json X) inp"; cases "security_check (cl_json X) sec (projr (ui_read_request (cl_json X) inp))")
    (auto simp: console_serve_def ui_respond_def case_prod_beta)

text \<open>
   C19. A connection changes the state of the console only if its request could be read, with a body of at
  most \<open>MAX_BODY\<close> bytes, names this console as its host and as its origin if it has one, is for an
  \<open>/api/\<close> endpoint, carries exactly the session token, and is a \<open>GET\<close> or \<open>HEAD\<close>, or a \<open>POST\<close> of JSON.
\<close>

theorem console_changes_guarded:
  "fst (console_serve X P sec C E inp s) = s \<or>
   (\<exists>req hst tok.
      ui_read_request (cl_json X) inp = Inr req \<and> length (ur_body req) \<le> MAX_BODY \<and>
      ur_headers req ''host'' = Some hst \<and> own_host sec (trim hst) \<and>
      (case ur_headers req ''origin'' of None \<Rightarrow> True | Some h \<Rightarrow> own_origin sec (trim h)) \<and>
      starts_with (ur_path req) ''/api/'' \<and> ur_headers req TOKEN_HEADER = Some tok \<and> trim tok = sc_token sec \<and>
      (ur_method req \<in> {''GET'', ''HEAD''} \<or> ur_method req = ''POST'' \<and> json_body req))"
proof (cases rule: serve_cases [of X P sec C E inp s])
  case 1
  then show ?thesis by simp
next
  case (2 req)
  obtain hst where h: "ur_headers req ''host'' = Some hst" "own_host sec (trim hst)"
      "case ur_headers req ''origin'' of None \<Rightarrow> True | Some h \<Rightarrow> own_origin sec (trim h)"
    using 2(2) by (rule security_check_hosts)
  have changed: ?thesis
    if "starts_with (ur_path req) ''/api/''" "ur_method req \<in> {''GET'', ''HEAD''} \<or> ur_method req = ''POST'' \<and> json_body req"
  proof -
    note m = that
    obtain tok where "ur_headers req TOKEN_HEADER = Some tok" "trim tok = sc_token sec"
      using 2(2) m(1) by (rule security_check_api)
    with h m 2(1) read_request_bound [OF 2(1)] show ?thesis by blast
  qed
  show ?thesis
  proof (cases rule: route_cases [of X P C E req s])
    case 1
    with 2 show ?thesis by simp
  next
    case (2 r)
    with route_get_changes(2) [OF 2(2)] changed \<open>fst (console_serve X P sec C E inp s) = fst (route X P C E req s)\<close>
    show ?thesis by auto
  next
    case (3 r)
    with changed route_post_api [OF 3(2)] security_check_post [OF 2(2)] show ?thesis by blast
  qed
qed

section \<open>Decisions\<close>

definition ask_record :: "ledger_record \<Rightarrow> bool" where
  "ask_record rec \<longleftrightarrow> (case rverdict rec of Some (Ask _ _ _ _ _) \<Rightarrow> True | _ \<Rightarrow> False)"

lemma find_SomeD: "find P xs = Some x \<Longrightarrow> x \<in> set xs \<and> P x"
  by (induction xs) (auto split: if_splits)

lemma view_decision_Some:
  assumes "view_decision v i = Some rec"
  shows "rec \<in> set (lv_records v)" "index rec = i" "rkind rec = Decision"
  using assms by (auto simp: view_decision_def is_decision_def split: if_splits dest: find_SomeD) (metis nth_mem)

text \<open>The record of an unresolved ask that a request of the queue names, in a view.\<close>

definition asks_for :: "ledger_view \<Rightarrow> pending_request \<Rightarrow> ledger_record \<Rightarrow> bool" where
  "asks_for v rq rec \<longleftrightarrow>
     rec \<in> set (lv_records v) \<and> rkind rec = Decision \<and> index rec = pr_index rq \<and> record_hash rec = pr_record_hash rq \<and>
     request_file_id rec = pr_id rq \<and> ask_record rec \<and> rapprover rec = None \<and> view_executions v (index rec) = []"

lemma validated_pending_asks:
  assumes "(rq, rec) \<in> set (validated_pending v rs)"
  shows "rq \<in> set rs" "asks_for v rq rec"
  using assms
  by (auto simp: validated_pending_def List.map_filter_def asks_for_def pending_match_def ask_record_def bind_eq_Some_conv
      dest: view_decision_Some split: if_splits)

lemma api_decide_changes:
  obtains "fst (api_decide X C E b s) = s"
  | "fst (api_decide X C E b s) = refreshed X C E s"
  | rq rec approve where "body_str b ''id'' = Some (pr_id rq)" "json_get b ''approve'' = Some (JBool approve)"
      "rq \<in> set (list_requests (cl_ui X) (ne_queue E 0))" "asks_for (cs_view (refreshed X C E s)) rq rec"
      "epoch_ms (ne_clock E 0) \<le> pr_deadline_ms rq"
      "fst (api_decide X C E b s) = (refreshed X C E s)\<lparr>cs_decisions :=
         fst (write_decision (cl_ui X) (ne_var E) (ne_clock E 1) (ne_write_decision E) (pr_id rq) (record_hash rec) approve (cs_decisions s))\<rparr>"
proof (cases "fst (api_decide X C E b s) = s \<or> fst (api_decide X C E b s) = refreshed X C E s")
  case True
  then show thesis using that(1,2) by blast
next
  case False
  let ?v = "cs_view (refreshed X C E s)" and ?rs = "list_requests (cl_ui X) (ne_queue E 0)"
  obtain i approve where b: "body_str b ''id'' = Some i" "json_get b ''approve'' = Some (JBool approve)" "valid_id i"
    using False by (auto simp: api_decide_def Let_def split: option.splits json.splits if_splits)
  obtain rq rec where f: "find (\<lambda>p. pr_id (fst p) = i) (validated_pending ?v ?rs) = Some (rq, rec)"
      "epoch_ms (ne_clock E 0) \<le> pr_deadline_ms rq"
    using False b by (auto simp: api_decide_def Let_def split: option.splits if_splits)
  from find_SomeD [OF f(1)] have "pr_id rq = i" "(rq, rec) \<in> set (validated_pending ?v ?rs)"
    by simp_all
  moreover have "fst (api_decide X C E b s) = (refreshed X C E s)\<lparr>cs_decisions :=
         fst (write_decision (cl_ui X) (ne_var E) (ne_clock E 1) (ne_write_decision E) i (record_hash rec) approve (cs_decisions s))\<rparr>"
    using b f by (simp add: api_decide_def Let_def split: prod.split sum.split)
  ultimately show thesis using that(3) [of rq approve rec] b f(2) validated_pending_asks by simp
qed

lemma with_json_state:
  obtains "fst (with_json J req f s) = s"
  | m where "json_from_str J (ur_body req) = Inr (JObj m)" "with_json J req f s = f (JObj m) s"
proof (cases "request_json J req")
  case (Inr b)
  then show thesis
    using that by (cases b) (auto simp: with_json_def request_json_def result_simps)
qed (simp add: that(1) with_json_def)

lemma route_post_decisions:
  assumes "route_post X P C E req s = Some r" and "cs_decisions (fst r) \<noteq> cs_decisions s" and "ur_path req \<noteq> ''/api/sandbox/run''"
  shows "ur_path req = ''/api/pending/decide''" "r = with_json (cl_json X) req (api_decide X C E) s"
proof -
  have i: "cs_decisions (fst (api_integrate X C E b s)) = cs_decisions s" for b
    by (simp add: api_integrate_def Let_def case_prod_beta)
  have w: "cs_decisions (fst (with_json (cl_json X) req f s)) = cs_decisions s" if "\<And>b. cs_decisions (fst (f b s)) = cs_decisions s" for f
    using that by (cases rule: with_json_state [of "cl_json X" req f s]) simp_all
  from assms have "ur_path req = ''/api/pending/decide'' \<and> r = with_json (cl_json X) req (api_decide X C E) s"
    by (auto simp: route_post_def Let_def case_prod_beta w i split: if_splits)
  then show "ur_path req = ''/api/pending/decide''" "r = with_json (cl_json X) req (api_decide X C E) s" by simp_all
qed

text \<open>
   C18. Apart from the sandbox screen, a connection changes the decisions of the console only by a
  \<open>POST /api/pending/decide\<close> whose id is that of a request of the queue which names an ask on the ledger:
  a decision record with that index and hash, still without an approver and an execution, before its
  deadline.  Exactly one decision is then written: for that id and record hash, as the body says, by the
  approver of this console.
\<close>

theorem console_decides_pending_asks:
  "cs_decisions (fst (console_serve X P sec C E inp s)) = cs_decisions s \<or>
   (\<exists>req. ui_read_request (cl_json X) inp = Inr req \<and> security_check (cl_json X) sec req = None \<and> ur_method req = ''POST'' \<and>
      (ur_path req = ''/api/sandbox/run'' \<or>
       ur_path req = ''/api/pending/decide'' \<and>
       (\<exists>m rq rec approve.
          json_from_str (cl_json X) (ur_body req) = Inr (JObj m) \<and> body_str (JObj m) ''id'' = Some (pr_id rq) \<and>
          json_get (JObj m) ''approve'' = Some (JBool approve) \<and> rq \<in> set (list_requests (cl_ui X) (ne_queue E 0)) \<and>
          asks_for (cs_view (fst (console_serve X P sec C E inp s))) rq rec \<and> epoch_ms (ne_clock E 0) \<le> pr_deadline_ms rq \<and>
          cs_decisions (fst (console_serve X P sec C E inp s)) = (cs_decisions s)(decision_path (pr_id rq) \<mapsto>
            ud_ser_decision (cl_ui X) \<lparr>cd_v = 1, cd_id = pr_id rq, cd_record_hash = record_hash rec, cd_approved = approve,
              cd_approver = console_approver (cl_ui X) (ne_var E), cd_decided_ms = epoch_ms (ne_clock E 1)\<rparr>))))"
proof (cases rule: serve_cases [of X P sec C E inp s])
  case 1
  then show ?thesis by simp
next
  case (2 req)
  show ?thesis
  proof (cases rule: route_cases [of X P C E req s])
    case 1
    with 2 show ?thesis by simp
  next
    case (2 r)
    with route_get_changes(1) [OF 2(2)] \<open>fst (console_serve X P sec C E inp s) = fst (route X P C E req s)\<close>
    show ?thesis by (simp add: same_files_def)
  next
    case (3 r)
    show ?thesis
    proof (cases "cs_decisions (fst r) = cs_decisions s \<or> ur_path req = ''/api/sandbox/run''")
      case True
      with 2 3 show ?thesis by auto
    next
      case False
      then have p: "ur_path req = ''/api/pending/decide''" "r = with_json (cl_json X) req (api_decide X C E) s"
        using route_post_decisions [OF 3(2)] by simp_all
      then obtain m where m: "json_from_str (cl_json X) (ur_body req) = Inr (JObj m)" "r = api_decide X C E (JObj m) s"
        using False by (cases rule: with_json_state [of "cl_json X" req "api_decide X C E" s]) auto
      from False m obtain rq rec approve where d:
          "body_str (JObj m) ''id'' = Some (pr_id rq)" "json_get (JObj m) ''approve'' = Some (JBool approve)"
          "rq \<in> set (list_requests (cl_ui X) (ne_queue E 0))" "asks_for (cs_view (refreshed X C E s)) rq rec"
          "epoch_ms (ne_clock E 0) \<le> pr_deadline_ms rq"
          "fst r = (refreshed X C E s)\<lparr>cs_decisions :=
             fst (write_decision (cl_ui X) (ne_var E) (ne_clock E 1) (ne_write_decision E) (pr_id rq) (record_hash rec) approve (cs_decisions s))\<rparr>"
        by (cases rule: api_decide_changes [of X C E "JObj m" s]) auto
      have w: "cs_decisions (fst r) = (cs_decisions s)(decision_path (pr_id rq) \<mapsto>
            ud_ser_decision (cl_ui X) \<lparr>cd_v = 1, cd_id = pr_id rq, cd_record_hash = record_hash rec, cd_approved = approve,
              cd_approver = console_approver (cl_ui X) (ne_var E), cd_decided_ms = epoch_ms (ne_clock E 1)\<rparr>)"
        using False d(6) by (auto simp: write_decision_def Let_def split: sum.splits)
      have "fst (console_serve X P sec C E inp s) = fst r" using 2 3 by simp
      moreover have "cs_view (fst r) = cs_view (refreshed X C E s)" by (simp add: d(6))
      ultimately show ?thesis using 2(1,2) 3(1) p(1) m(1) d w by metis
    qed
  qed
qed

section \<open>The policy file\<close>

definition backed_up :: "str \<Rightarrow> files \<Rightarrow> files" where
  "backed_up path fs = (case fs path of None \<Rightarrow> fs | Some old \<Rightarrow> fs(path @ ''.bak'' \<mapsto> old))"

text \<open>
   C23. Saving changes nothing, or keeps the old contents in the \<open>.bak\<close> file, and then writes exactly the
  new source: one that compiles and is at most \<open>MAX_POLICY\<close> bytes, for a file that is still the one the
  editor loaded (no file, or the file with the hash the body gives).
\<close>

theorem console_save_guarded:
  "fst (save X write path b fs) = fs \<or>
   (\<exists>source p. body_str b ''source'' = Some source \<and> length source \<le> MAX_POLICY \<and> compile (cl_policy X) source = Inr p \<and>
      body_str b ''base_sha256'' = map_option (hash_bytes (cl_ledger X)) (fs path) \<and>
      (fst (save X write path b fs) = (backed_up path fs)(path \<mapsto> source) \<and> us_status (snd (save X write path b fs)) = 200 \<or>
       fst (save X write path b fs) = backed_up path fs \<and> us_status (snd (save X write path b fs)) = 500))"
proof (cases "fst (save X write path b fs) = fs")
  case False
  then obtain source p where s: "body_str b ''source'' = Some source" "length source \<le> MAX_POLICY" "compile (cl_policy X) source = Inr p"
      "body_str b ''base_sha256'' = map_option (hash_bytes (cl_ledger X)) (fs path)"
    by (auto simp: save_def Let_def split: option.splits if_splits sum.splits)
  show ?thesis
  proof (cases "write path")
    case (Inl e)
    with False s show ?thesis
      by (cases "fs path"; cases "write (path @ ''.bak'')")
        (auto simp: save_def Let_def backed_up_def resp_error_def resp_json_def resp_bytes_def)
  next
    case (Inr u)
    with False s show ?thesis
      by (cases "fs path"; cases "write (path @ ''.bak'')")
        (auto simp: save_def Let_def backed_up_def resp_ok_def resp_error_def resp_json_def resp_bytes_def)
  qed
qed simp

end
