(* ===== verification/Http_Server.thy ===== *)
theory Http_Server
  imports Mcp_Http Console_Http
begin

text \<open>
  \<open>writ-mcp/src/http/server.rs\<close>: the HTTP server of the proxy.  Reading a request from a connection, with
  its limits and framings, the bytes of a response, a connection, and the count of connections.  The head
  of a request is parsed by \<open>httparse\<close>, which is a parameter; sockets and timeouts are the reads that
  succeed and how they end.  Lengths and sizes are 64-bit and wrap, as in a release build.
\<close>

section \<open>Limits and connections\<close>

record limits =
  li_header :: nat
  li_body :: nat
  li_connections :: nat

definition default_limits :: limits where
  "default_limits = \<lparr>li_header = 64 * 1024, li_body = 4 * 1024 * 1024, li_connections = 128\<rparr>"

text \<open>What has been read but not used, the reads to come (not empty), how they end, and what was written.\<close>

datatype read_end = EndEof | EndTimeout | EndError

record conn =
  cn_buf :: bytes
  cn_in :: "bytes list"
  cn_end :: read_end
  cn_out :: bytes

text \<open>\<open>drain\<close> past the end of the buffer panics.\<close>

datatype read_error = Closed | Status nat str | ReadIo | ReadPanic

type_synonym 'a reading = "conn \<times> (read_error + 'a)"

text \<open>\<open>fill\<close>: the bytes read, 0 at the end; or an error, \<open>True\<close> for a timeout.\<close>

definition fill :: "conn \<Rightarrow> conn \<times> (bool + nat)" where
  "fill c =
     (case cn_in c of
        x # xs \<Rightarrow> (c\<lparr>cn_buf := cn_buf c @ x, cn_in := xs\<rparr>, Inr (length x))
      | [] \<Rightarrow> (c, case cn_end c of EndEof \<Rightarrow> Inr 0 | EndTimeout \<Rightarrow> Inl True | EndError \<Rightarrow> Inl False))"

definition conn_left :: "conn \<Rightarrow> nat" where
  "conn_left c = length (cn_in c)"

lemma fill_unread: "fill c = (c', Inr (Suc n)) \<Longrightarrow> conn_left c' < conn_left c"
  by (auto simp: fill_def conn_left_def split: list.splits read_end.splits)

function fill_to :: "nat \<Rightarrow> conn \<Rightarrow> unit reading" where
  "fill_to n c =
     (if n \<le> length (cn_buf c) then (c, Inr ())
      else case fill c of
        (c, Inr 0) \<Rightarrow> (c, Inl (Status 400 ''truncated body''))
      | (c, Inr (Suc _)) \<Rightarrow> fill_to n c
      | (c, Inl _) \<Rightarrow> (c, Inl ReadIo))"
  by pat_completeness auto
termination
  by (relation "measure (\<lambda>(n, c). conn_left c)") (auto dest: fill_unread [OF sym] fill_unread)

declare fill_to.simps [simp del]

function take_line :: "nat \<Rightarrow> conn \<Rightarrow> str reading" where
  "take_line limit c =
     (case split_once (cn_buf c) crlf of
        Some (line, rest) \<Rightarrow> (c\<lparr>cn_buf := rest\<rparr>, if is_utf8 line then Inr line else Inl (Status 400 ''bad chunk line''))
      | None \<Rightarrow>
          if length (cn_buf c) > limit then (c, Inl (Status 400 ''chunk line too long''))
          else case fill c of
            (c, Inr 0) \<Rightarrow> (c, Inl (Status 400 ''truncated chunked body''))
          | (c, Inr (Suc _)) \<Rightarrow> take_line limit c
          | (c, Inl _) \<Rightarrow> (c, Inl ReadIo))"
  by pat_completeness auto
termination
  by (relation "measure (\<lambda>(n, c). conn_left c)") (auto dest: fill_unread [OF sym] fill_unread)

declare take_line.simps [simp del]

text \<open>All the bytes that are still to be used.\<close>

definition pending_bytes :: "conn \<Rightarrow> bytes" where
  "pending_bytes c = cn_buf c @ concat (cn_in c)"

lemma fill_pending: "pending_bytes (fst (fill c)) = pending_bytes c"
  by (simp add: fill_def pending_bytes_def split: list.split)

lemma fill_to_pending: "pending_bytes (fst (fill_to n c)) = pending_bytes c"
proof (induction n c rule: fill_to.induct)
  case (1 n c)
  then show ?case
    using fill_pending [of c]
    by (subst fill_to.simps) (auto split: prod.split sum.split nat.split)
qed

lemma take_line_pending:
  "take_line limit c = (c', Inr line) \<Longrightarrow> pending_bytes c = line @ crlf @ pending_bytes c'"
proof (induction limit c rule: take_line.induct)
  case (1 limit c)
  show ?case
  proof (cases "split_once (cn_buf c) crlf")
    case (Some p)
    then show ?thesis
      using 1(2) by (subst (asm) take_line.simps)
        (auto simp: pending_bytes_def dest!: split_once_eq_Some split: if_splits prod.splits)
  next
    case None
    with 1 fill_pending [of c] show ?thesis
      by (subst (asm) (2) take_line.simps) (auto split: if_splits prod.splits sum.splits nat.splits)
  qed
qed

lemma take_line_progress: "take_line limit c = (c', Inr line) \<Longrightarrow> length (pending_bytes c') < length (pending_bytes c)"
  by (auto dest!: take_line_pending simp: crlf_def)

section \<open>Bodies\<close>

text \<open>\<open>usize::from_str_radix(s, 16)\<close>.\<close>

fun chunk_digits :: "nat \<Rightarrow> str \<Rightarrow> nat option" where
  "chunk_digits acc [] = Some acc"
| "chunk_digits acc (c # s) =
     (case hex_val c of
        None \<Rightarrow> None
      | Some v \<Rightarrow> if 16 * acc + v \<le> u64_max then chunk_digits (16 * acc + v) s else None)"

definition parse_hex :: "str \<Rightarrow> nat option" where
  "parse_hex s = (let t = (if s \<noteq> [] \<and> hd s = CHR ''+'' then tl s else s) in if t = [] then None else chunk_digits 0 t)"

definition wrap64 :: "nat \<Rightarrow> nat" where
  "wrap64 n = n mod 2 ^ 64"

function read_trailers :: "nat \<Rightarrow> conn \<Rightarrow> unit reading" where
  "read_trailers limit c =
     (case take_line limit c of
        (c, Inl e) \<Rightarrow> (c, Inl e)
      | (c, Inr line) \<Rightarrow> if line = [] then (c, Inr ()) else read_trailers limit c)"
  by pat_completeness auto
termination
  by (relation "measure (\<lambda>(n, c). length (pending_bytes c))") (auto dest: take_line_progress [OF sym] take_line_progress)

declare read_trailers.simps [simp del]

text \<open>One chunk after its size line: its bytes and the end of line after them.\<close>

definition take_chunk :: "nat \<Rightarrow> conn \<Rightarrow> bytes reading" where
  "take_chunk n c =
     (case fill_to (wrap64 (n + 2)) c of
        (c, Inl e) \<Rightarrow> (c, Inl e)
      | (c, Inr _) \<Rightarrow>
          if length (cn_buf c) < n + 2 then (c, Inl ReadPanic)
          else (c\<lparr>cn_buf := drop (n + 2) (cn_buf c)\<rparr>,
                if take 2 (drop n (cn_buf c)) = crlf then Inr (take n (cn_buf c)) else Inl (Status 400 ''bad chunk terminator'')))"

lemma take_chunk_pending: "length (pending_bytes (fst (take_chunk n c))) \<le> length (pending_bytes c)"
proof -
  obtain c' r where f: "fill_to (wrap64 (n + 2)) c = (c', r)" by fastforce
  with fill_to_pending [of "wrap64 (n + 2)" c] have "pending_bytes c' = pending_bytes c" by simp
  then have l: "length (cn_buf c') + length (concat (cn_in c')) = length (pending_bytes c)"
    by (simp add: pending_bytes_def flip: length_append)
  show ?thesis unfolding take_chunk_def f
    by (cases r) (use l in \<open>auto simp: pending_bytes_def\<close>)
qed

lemma chunk_progress:
  assumes "(c', Inr line) = take_line limit c" and "(c'', Inr b) = take_chunk n c'"
  shows "length (pending_bytes c'') < length (pending_bytes c)"
  using take_line_progress [OF assms(1) [symmetric]] take_chunk_pending [of n c'] assms(2) by (metis fst_conv order.strict_trans1)

function read_chunks :: "limits \<Rightarrow> bytes \<Rightarrow> conn \<Rightarrow> bytes reading" where
  "read_chunks L body c =
     (case take_line 1024 c of
        (c, Inl e) \<Rightarrow> (c, Inl e)
      | (c, Inr line) \<Rightarrow>
          (case parse_hex (trim (hd (split_on (\<lambda>x. x = CHR '';'') line))) of
             None \<Rightarrow> (c, Inl (Status 400 ''bad chunk size''))
           | Some n \<Rightarrow>
               if n = 0 then (case read_trailers (li_header L) c of (c, r) \<Rightarrow> (c, map_sum id (\<lambda>_. body) r))
               else if wrap64 (length body + n) > li_body L then (c, Inl (Status 413 ''request body too large''))
               else (case take_chunk n c of
                       (c, Inl e) \<Rightarrow> (c, Inl e)
                     | (c, Inr b) \<Rightarrow> read_chunks L (body @ b) c)))"
  by pat_completeness auto
termination
  by (relation "measure (\<lambda>(L, body, c). length (pending_bytes c))") (auto dest: chunk_progress)

declare read_chunks.simps [simp del]

section \<open>Requests\<close>

text \<open>What \<open>httparse\<close> says of the bytes so far: with a complete head, its length, method, path, version, headers.\<close>

datatype head_parse = HeadComplete nat str str nat "(str \<times> bytes) list" | HeadPartial | HeadTooMany | HeadBad

function read_head :: "(bytes \<Rightarrow> head_parse) \<Rightarrow> limits \<Rightarrow> conn \<Rightarrow> http_request reading" where
  "read_head P L c =
     (case P (cn_buf c) of
        HeadComplete n meth path minor hdrs \<Rightarrow>
          (c\<lparr>cn_buf := drop n (cn_buf c)\<rparr>,
           Inr \<lparr>hr_method = meth, hr_target = path, hr_minor = minor,
                hr_headers = map (\<lambda>(k, v). (k, trim (from_utf8_lossy v))) hdrs, hr_body = []\<rparr>)
      | HeadTooMany \<Rightarrow> (c, Inl (Status 431 ''too many headers''))
      | HeadBad \<Rightarrow> (c, Inl (Status 400 ''malformed request''))
      | HeadPartial \<Rightarrow>
          if length (cn_buf c) > li_header L then (c, Inl (Status 431 ''header block too large''))
          else (case fill c of
                  (c', Inr 0) \<Rightarrow> (c', Inl (if cn_buf c = [] then Closed else Status 400 ''truncated request''))
                | (c', Inr (Suc _)) \<Rightarrow> read_head P L c'
                | (c', Inl timeout) \<Rightarrow> (c', Inl (if cn_buf c = [] \<and> timeout then Closed else ReadIo))))"
  by pat_completeness auto
termination
  by (relation "measure (\<lambda>(P, L, c). conn_left c)") (auto dest: fill_unread [OF sym] fill_unread)

declare read_head.simps [simp del]

definition headers_named :: "http_request \<Rightarrow> str \<Rightarrow> str list" where
  "headers_named req name = map snd (filter (\<lambda>(k, _). eq_ignore_ascii_case k name) (hr_headers req))"

definition wants_close :: "http_request \<Rightarrow> bool" where
  "wants_close req =
     (let v = to_ascii_lowercase (case header req ''connection'' of Some v \<Rightarrow> v | None \<Rightarrow> []);
          has = (\<lambda>t. list_ex (\<lambda>x. trim x = t) (split_on (\<lambda>c. c = CHR '','') v))
      in if hr_minor req = 0 then \<not> has ''keep-alive'' else has ''close'')"

text \<open>The framing: chunked, or a length, or neither.\<close>

datatype framing = Chunked | Length nat | NoBody

definition content_length :: "str list \<Rightarrow> read_error + nat option" where
  "content_length lengths =
     (case lengths of
        [] \<Rightarrow> Inr None
      | [v] \<Rightarrow> map_sum id Some (ok_or (parse_u64 v) (Status 400 ''bad Content-Length''))
      | v # vs \<Rightarrow>
          if list_ex (\<lambda>w. w \<noteq> v) vs then Inl (Status 400 ''conflicting Content-Length'')
          else map_sum id Some (ok_or (parse_u64 v) (Status 400 ''bad Content-Length'')))"

definition framing_of :: "limits \<Rightarrow> http_request \<Rightarrow> read_error + framing" where
  "framing_of L req =
     (let te = header req ''transfer-encoding'';
          chunked = (case te of Some v \<Rightarrow> str_contains (to_ascii_lowercase v) ''chunked'' | None \<Rightarrow> False);
          lengths = headers_named req ''content-length''
      in if chunked \<and> lengths \<noteq> [] then Inl (Status 400 ''both Content-Length and chunked'')
         else if te \<noteq> None \<and> \<not> chunked then Inl (Status 400 ''unsupported transfer-encoding'')
         else rbind (content_length lengths) (\<lambda>len.
           case len of
             Some n \<Rightarrow> if n > li_body L then Inl (Status 413 ''request body too large'') else Inr (Length n)
           | None \<Rightarrow> Inr (if chunked then Chunked else NoBody)))"

definition continue_line :: "http_request \<Rightarrow> framing \<Rightarrow> bytes" where
  "continue_line req f =
     (let expects_body = (case f of Chunked \<Rightarrow> True | Length n \<Rightarrow> n > 0 | NoBody \<Rightarrow> False)
      in if expects_body \<and> (case header req ''expect'' of Some v \<Rightarrow> eq_ignore_ascii_case v ''100-continue'' | None \<Rightarrow> False)
         then ''HTTP/1.'' @ show_nat (hr_minor req) @ '' 100 Continue'' @ crlf @ crlf else [])"

definition take_body :: "limits \<Rightarrow> framing \<Rightarrow> conn \<Rightarrow> bytes reading" where
  "take_body L f c =
     (case f of
        NoBody \<Rightarrow> (c, Inr [])
      | Chunked \<Rightarrow> read_chunks L [] c
      | Length n \<Rightarrow>
          (case fill_to n c of
             (c, Inl e) \<Rightarrow> (c, Inl e)
           | (c, Inr _) \<Rightarrow> (c\<lparr>cn_buf := drop n (cn_buf c)\<rparr>, Inr (take n (cn_buf c)))))"

definition read_request :: "(bytes \<Rightarrow> head_parse) \<Rightarrow> limits \<Rightarrow> conn \<Rightarrow> http_request reading" where
  "read_request P L c =
     (case read_head P L c of
        (c, Inl e) \<Rightarrow> (c, Inl e)
      | (c, Inr req) \<Rightarrow>
          (case framing_of L req of
             Inl e \<Rightarrow> (c, Inl e)
           | Inr f \<Rightarrow>
               (case take_body L f (c\<lparr>cn_out := cn_out c @ continue_line req f\<rparr>) of
                  (c, r) \<Rightarrow> (c, map_sum id (\<lambda>b. req\<lparr>hr_body := b\<rparr>) r))))"

section \<open>Responses\<close>

definition http_reason :: "nat \<Rightarrow> str" where
  "http_reason status =
     (if status = 100 then ''Continue'' else if status = 200 then ''OK'' else if status = 202 then ''Accepted''
      else if status = 204 then ''No Content'' else if status = 400 then ''Bad Request'' else if status = 401 then ''Unauthorized''
      else if status = 403 then ''Forbidden'' else if status = 404 then ''Not Found'' else if status = 405 then ''Method Not Allowed''
      else if status = 406 then ''Not Acceptable'' else if status = 409 then ''Conflict'' else if status = 413 then ''Payload Too Large''
      else if status = 415 then ''Unsupported Media Type'' else if status = 431 then ''Request Header Fields Too Large''
      else if status = 500 then ''Internal Server Error'' else if status = 502 then ''Bad Gateway''
      else if status = 503 then ''Service Unavailable'' else if status = 504 then ''Gateway Timeout'' else ''Status'')"

definition header_safe :: "str \<Rightarrow> bool" where
  "header_safe s \<longleftrightarrow> \<not> list_ex (\<lambda>c. c = CHR 0x0D \<or> c = CHR 0x0A \<or> c = CHR 0x00) s"

definition response_head :: "nat \<Rightarrow> bool \<Rightarrow> nat \<Rightarrow> headers \<Rightarrow> str \<Rightarrow> bytes" where
  "response_head minor keep_alive status hdrs framing =
     ''HTTP/1.'' @ show_nat minor @ '' '' @ show_nat status @ '' '' @ http_reason status @ crlf @
     concat (map (\<lambda>(k, v). if header_safe k \<and> header_safe v then k @ '': '' @ v @ crlf else []) hdrs) @
     framing @ (if keep_alive then [] else ''Connection: close'' @ crlf) @ crlf"

definition send_response :: "nat \<Rightarrow> bool \<Rightarrow> nat \<Rightarrow> headers \<Rightarrow> bytes \<Rightarrow> bytes" where
  "send_response minor keep_alive status hdrs body =
     response_head minor keep_alive status hdrs (''Content-Length: '' @ show_nat (length body) @ crlf) @ body"

definition stream_response :: "nat \<Rightarrow> bool \<Rightarrow> nat \<Rightarrow> headers \<Rightarrow> bytes" where
  "stream_response minor keep_alive status hdrs =
     (let chunked = minor \<ge> 1
      in response_head minor (keep_alive \<and> chunked) status hdrs (if chunked then ''Transfer-Encoding: chunked'' @ crlf else []))"

text \<open>\<open>{:x}\<close>.\<close>

definition chunk_digit :: "nat \<Rightarrow> char" where
  "chunk_digit n = (if n < 10 then char_of (48 + n) else char_of (87 + n))"

fun show_hex :: "nat \<Rightarrow> str" where
  "show_hex n = (if n < 16 then [chunk_digit n] else show_hex (n div 16) @ [chunk_digit (n mod 16)])"

declare show_hex.simps [simp del]

definition write_chunk :: "bool \<Rightarrow> bytes \<Rightarrow> bytes" where
  "write_chunk chunked b = (if b = [] then [] else if chunked then show_hex (length b) @ crlf @ b @ crlf else b)"

definition finish_stream :: "bool \<Rightarrow> bytes" where
  "finish_stream chunked = (if chunked then ''0'' @ crlf @ crlf else [])"

definition simple_response :: "nat \<Rightarrow> str \<Rightarrow> bytes" where
  "simple_response status msg =
     ''HTTP/1.1 '' @ show_nat status @ '' '' @ http_reason status @ crlf @ ''Content-Type: text/plain'' @ crlf @
     ''Content-Length: '' @ show_nat (length msg) @ crlf @ ''Connection: close'' @ crlf @ crlf @ msg"

text \<open>The bytes of an answer, and whether the connection can go on.\<close>

definition answer_bytes :: "nat \<Rightarrow> bool \<Rightarrow> http_answer \<Rightarrow> bytes \<times> bool" where
  "answer_bytes minor keep_alive ans =
     (case ans of
        Send status hdrs body \<Rightarrow> (send_response minor keep_alive status hdrs body, True)
      | Streamed status hdrs chunks ended \<Rightarrow>
          (stream_response minor keep_alive status hdrs @ concat (map (write_chunk (minor \<ge> 1)) chunks) @
           (if ended then finish_stream (minor \<ge> 1) else []), ended)
      | Nothing \<Rightarrow> ([], False))"

section \<open>A connection, and their number\<close>

text \<open>The connection as it ends, the state of the handler, and whether the thread panicked.\<close>

partial_function (option) handle_conn ::
  "(bytes \<Rightarrow> head_parse) \<Rightarrow> limits \<Rightarrow> (http_request \<Rightarrow> 's \<Rightarrow> 's \<times> http_answer) \<Rightarrow> conn \<Rightarrow> 's \<Rightarrow> (conn \<times> 's \<times> bool) option" where
  "handle_conn P L h c s =
     (case read_request P L c of
        (c, Inl Closed) \<Rightarrow> Some (c, s, False)
      | (c, Inl ReadIo) \<Rightarrow> Some (c, s, False)
      | (c, Inl ReadPanic) \<Rightarrow> Some (c, s, True)
      | (c, Inl (Status status msg)) \<Rightarrow> Some (c\<lparr>cn_out := cn_out c @ simple_response status msg\<rparr>, s, False)
      | (c, Inr req) \<Rightarrow>
          (let keep_alive = (\<not> wants_close req \<and> hr_minor req \<ge> 1); (s, ans) = h req s;
               (b, go) = answer_bytes (hr_minor req) keep_alive ans; c = c\<lparr>cn_out := cn_out c @ b\<rparr>
           in if \<not> go \<or> \<not> keep_alive then Some (c, s, False) else handle_conn P L h c s))"

text \<open>
  The count of active connections: a connection is accepted, a thread cannot be made for it, its thread
  ends, or its thread panics.  Only an ending gives the slot back.
\<close>

datatype serve_event = Accepted | SpawnFailed | Ended | Panicked

fun serve_step :: "limits \<Rightarrow> serve_event \<Rightarrow> nat \<Rightarrow> nat" where
  "serve_step L Accepted active = (if active \<ge> li_connections L then active else active + 1)"
| "serve_step L SpawnFailed active = (if active \<ge> li_connections L then active else active + 1)"
| "serve_step L Ended active = active - 1"
| "serve_step L Panicked active = active"

end
