(* ===== verification/Http_Server_Claims.thy ===== *)
theory Http_Server_Claims
  imports Http_Server Utf8
begin

text \<open>
  What the server reads and writes: the body of a request is framed exactly and within its limit, chunks
  that the server's own writer makes are read back wherever the network cuts them, and no header value
  adds a line to a response.
\<close>

section \<open>Reading\<close>

definition no_empty :: "conn \<Rightarrow> bool" where
  "no_empty c \<longleftrightarrow> [] \<notin> set (cn_in c)"

lemma fill_cases:
  assumes "no_empty c" and "length (cn_buf c) < length (pending_bytes c)"
  obtains c' n where "fill c = (c', Inr (Suc n))" "no_empty c'" "pending_bytes c' = pending_bytes c" "conn_left c' < conn_left c"
proof -
  obtain x xs where c: "cn_in c = x # xs" using assms(2) by (cases "cn_in c") (auto simp: pending_bytes_def)
  with assms(1) obtain n where n: "length x = Suc n" by (cases x) (auto simp: no_empty_def)
  show thesis
    by (rule that [of "c\<lparr>cn_buf := cn_buf c @ x, cn_in := xs\<rparr>" n])
      (use assms(1) c n in \<open>auto simp: fill_def no_empty_def pending_bytes_def conn_left_def\<close>)
qed

lemma fill_to_ok:
  assumes "no_empty c" and "n \<le> length (pending_bytes c)"
  obtains c' where "fill_to n c = (c', Inr ())" "n \<le> length (cn_buf c')" "pending_bytes c' = pending_bytes c" "no_empty c'"
proof -
  have "\<exists>c'. fill_to n c = (c', Inr ()) \<and> n \<le> length (cn_buf c') \<and> pending_bytes c' = pending_bytes c \<and> no_empty c'"
    using assms
  proof (induction "conn_left c" arbitrary: c rule: less_induct)
    case less
    show ?case
    proof (cases "n \<le> length (cn_buf c)")
      case True
      with less.prems show ?thesis by (simp add: fill_to.simps)
    next
      case False
      then have "length (cn_buf c) < length (pending_bytes c)" using less.prems by simp
      then obtain c' k where f: "fill c = (c', Inr (Suc k))" "no_empty c'" "pending_bytes c' = pending_bytes c" "conn_left c' < conn_left c"
        using less.prems(1) by (rule_tac fill_cases [of c]) auto
      with less.hyps [of c'] less.prems False show ?thesis by (subst fill_to.simps) simp
    qed
  qed
  then show thesis using that by blast
qed

lemma split_once_first: "CHR 0x0D \<notin> set line \<Longrightarrow> split_once (line @ crlf @ x) crlf = Some (line, x)"
  by (induction line) (auto simp: crlf_def starts_with_def)

lemma split_once_none: "CHR 0x0D \<notin> set line \<Longrightarrow> split_once line crlf = None \<and> split_once (line @ [CHR 0x0D]) crlf = None"
  by (induction line) (auto simp: crlf_def starts_with_def)

lemma buffered:
  assumes "u @ v = p @ r" and "length p \<le> length u"
  obtains x where "u = p @ x" "x @ v = r"
  using assms by (auto simp: append_eq_append_conv2)

lemma take_line_ok:
  assumes "no_empty c" and "pending_bytes c = line @ crlf @ rest" and "CHR 0x0D \<notin> set line" and "is_utf8 line"
    and "length line + 2 \<le> limit"
  obtains c' where "take_line limit c = (c', Inr line)" "pending_bytes c' = rest" "no_empty c'"
proof -
  have "\<exists>c'. take_line limit c = (c', Inr line) \<and> pending_bytes c' = rest \<and> no_empty c'"
    using assms(1,2)
  proof (induction "conn_left c" arbitrary: c rule: less_induct)
    case less
    show ?case
    proof (cases "length line + 2 \<le> length (cn_buf c)")
      case True
      then obtain x where b: "cn_buf c = line @ crlf @ x" "x @ concat (cn_in c) = rest"
        using less.prems(2) buffered [of "cn_buf c" "concat (cn_in c)" "line @ crlf" rest]
        by (auto simp: pending_bytes_def crlf_def)
      with assms(3,4) less.prems(1) show ?thesis
        by (subst take_line.simps) (simp add: split_once_first pending_bytes_def no_empty_def)
    next
      case False
      have "cn_buf c = take (length (cn_buf c)) (line @ crlf @ rest)"
        using less.prems(2) by (metis append_eq_conv_conj pending_bytes_def)
      then have "cn_buf c = take (length (cn_buf c)) line \<or> cn_buf c = line @ [CHR 0x0D]"
        using False by (cases "length (cn_buf c) = length line + 1") (auto simp: crlf_def)
      then have n: "split_once (cn_buf c) crlf = None"
        using split_once_none [of "take (length (cn_buf c)) line"] split_once_none [OF assms(3)] assms(3) by (metis in_set_takeD)
      have "length (cn_buf c) < length (pending_bytes c)" using False less.prems(2) by (simp add: crlf_def)
      then obtain c' k where f: "fill c = (c', Inr (Suc k))" "no_empty c'" "pending_bytes c' = pending_bytes c" "conn_left c' < conn_left c"
        using less.prems(1) by (rule_tac fill_cases [of c]) auto
      with less.hyps [of c'] less.prems False n assms(5) show ?thesis by (subst take_line.simps) simp
    qed
  qed
  then show thesis using that by blast
qed

section \<open>Sizes of chunks\<close>

lemma hex_val_digit: "n < 16 \<Longrightarrow> hex_val (chunk_digit n) = Some n"
  by (auto simp: hex_val_def chunk_digit_def code_def)

lemma hex_digits_snoc:
  "chunk_digits acc (s @ [c]) = Option.bind (chunk_digits acc s) (\<lambda>a. chunk_digits a [c])"
  by (induction acc s rule: chunk_digits.induct) (auto split: option.split)

lemma hex_digits_show: "n \<le> u64_max \<Longrightarrow> chunk_digits 0 (show_hex n) = Some n"
proof (induction n rule: show_hex.induct)
  case (1 n)
  show ?case
  proof (cases "n < 16")
    case True
    with 1(2) show ?thesis by (subst show_hex.simps) (simp add: hex_val_digit)
  next
    case False
    then have "chunk_digits 0 (show_hex (n div 16)) = Some (n div 16)"
      using 1 by (meson div_le_dividend le_trans)
    with False 1(2) show ?thesis
      by (subst show_hex.simps) (simp add: hex_digits_snoc hex_val_digit)
  qed
qed

lemma show_hex_chars: "c \<in> set (show_hex n) \<Longrightarrow> \<exists>k<16. c = chunk_digit k"
proof (induction n rule: show_hex.induct)
  case (1 n)
  have "n mod 16 < 16" by simp
  with 1 show ?case
    by (cases "n < 16") (metis empty_iff empty_set set_ConsD show_hex.simps, metis Un_iff empty_iff empty_set set_ConsD set_append show_hex.simps)
qed

lemma show_hex_zero: "show_hex 0 = ''0''"
  by code_simp

lemma show_hex_ne [simp]: "show_hex n \<noteq> []"
  by (subst show_hex.simps) simp

lemma hex_digit_code: "k < 16 \<Longrightarrow> code (chunk_digit k) = (if k < 10 then 48 + k else 87 + k)"
  by (simp add: chunk_digit_def code_def)

lemma hex_digit_printable:
  assumes "k < 16"
  shows "is_printable (chunk_digit k)" "code (chunk_digit k) < 128" "chunk_digit k \<noteq> CHR '';''" "chunk_digit k \<noteq> CHR ''+''" "chunk_digit k \<noteq> CHR 0x0D"
proof -
  have n: "code (chunk_digit k) \<noteq> code (CHR '';'')" "code (chunk_digit k) \<noteq> code (CHR ''+'')" "code (chunk_digit k) \<noteq> code (CHR 0x0D)"
    using hex_digit_code [OF assms] by (auto simp: code_def)
  show "is_printable (chunk_digit k)" "code (chunk_digit k) < 128"
    using hex_digit_code [OF assms] assms by (auto simp: is_printable_def)
  show "chunk_digit k \<noteq> CHR '';''" "chunk_digit k \<noteq> CHR ''+''" "chunk_digit k \<noteq> CHR 0x0D" using n by metis+
qed

lemma show_hex_char:
  assumes "c \<in> set (show_hex n)"
  shows "is_printable c" "code c < 128" "c \<noteq> CHR '';''" "c \<noteq> CHR ''+''" "c \<noteq> CHR 0x0D"
  using show_hex_chars [OF assms] hex_digit_printable by metis+

lemma size_line:
  assumes "n \<le> u64_max"
  shows "parse_hex (trim (hd (split_on (\<lambda>x. x = CHR '';'') (show_hex n)))) = Some n"
    "CHR 0x0D \<notin> set (show_hex n)" "is_utf8 (show_hex n)"
proof -
  have "hd (split_on (\<lambda>x. x = CHR '';'') (show_hex n)) = show_hex n"
    using show_hex_char(3) [of _ n] by (subst split_on_no_match) simp_all
  moreover have "trim (show_hex n) = show_hex n"
    by (intro trim_printable disjI2 conjI show_hex_char(1) [of _ n] hd_in_set last_in_set show_hex_ne)
  moreover have "hd (show_hex n) \<noteq> CHR ''+''" by (rule show_hex_char(4) [of _ n]) simp
  then have "parse_hex (show_hex n) = Some n"
    using hex_digits_show [OF assms] by (simp add: parse_hex_def Let_def)
  ultimately show "parse_hex (trim (hd (split_on (\<lambda>x. x = CHR '';'') (show_hex n)))) = Some n" by simp
  show "CHR 0x0D \<notin> set (show_hex n)" using show_hex_char(5) [of _ n] by blast
  show "is_utf8 (show_hex n)" by (rule is_utf8_ascii) (rule show_hex_char(2))
qed

lemma show_hex_length: "n < 16 ^ Suc k \<Longrightarrow> length (show_hex n) \<le> Suc k"
proof (induction k arbitrary: n)
  case 0
  then show ?case by (subst show_hex.simps) simp
next
  case (Suc k)
  then have "n div 16 < 16 ^ Suc k" by (simp add: less_mult_imp_div_less mult.commute)
  with Suc.IH [of "n div 16"] show ?case by (subst show_hex.simps) simp
qed

lemma read_trailers_done:
  assumes "no_empty c" and "pending_bytes c = crlf @ rest" and "2 \<le> limit"
  obtains c' where "read_trailers limit c = (c', Inr ())" "pending_bytes c' = rest" "no_empty c'"
proof -
  obtain c' where "take_line limit c = (c', Inr [])" "pending_bytes c' = rest" "no_empty c'"
    by (rule take_line_ok [of c "[]" rest limit]) (use assms in auto)
  then show thesis by (intro that [of c']) (simp_all add: read_trailers.simps)
qed

lemma take_chunk_ok:
  assumes "no_empty c" and "pending_bytes c = b @ crlf @ rest" and "length b + 2 < 2 ^ 64"
  obtains c' where "take_chunk (length b) c = (c', Inr b)" "pending_bytes c' = rest" "no_empty c'"
proof -
  have "length b + 2 \<le> length (pending_bytes c)" using assms(2) by (simp add: crlf_def)
  with assms(1) obtain c' where f: "fill_to (length b + 2) c = (c', Inr ())" "length b + 2 \<le> length (cn_buf c')"
      "pending_bytes c' = pending_bytes c" "no_empty c'"
    by (rule fill_to_ok)
  then obtain x where x: "cn_buf c' = b @ crlf @ x" "x @ concat (cn_in c') = rest"
    using assms(2) buffered [of "cn_buf c'" "concat (cn_in c')" "b @ crlf" rest]
    by (auto simp: pending_bytes_def crlf_def)
  have w: "wrap64 (length b + 2) = length b + 2" using assms(3) by (simp add: wrap64_def)
  show thesis
    by (rule that [of "c'\<lparr>cn_buf := x\<rparr>"])
      (use f(4) x in \<open>simp_all add: take_chunk_def w [simplified] f(1) [simplified] crlf_def pending_bytes_def no_empty_def\<close>)
qed

text \<open>
   C33. Round trip of the chunked framing: the chunks that the server's writer makes of some blocks, ended
  properly, are read back as the blocks, whatever reads they arrive in and whatever follows, which is left
  unused; provided the blocks fit the limit of a body.
\<close>

theorem chunked_roundtrip:
  assumes "pending_bytes c = concat (map (write_chunk True) blocks) @ finish_stream True @ rest" and "[] \<notin> set (cn_in c)"
    and "length body + length (concat blocks) \<le> li_body L" and "li_body L < 2 ^ 63" and "2 \<le> li_header L"
  shows "\<exists>c'. read_chunks L body c = (c', Inr (body @ concat blocks)) \<and> pending_bytes c' = rest"
proof -
  have "\<exists>c'. read_chunks L body c = (c', Inr (body @ concat blocks)) \<and> pending_bytes c' = rest \<and> no_empty c'"
    if "no_empty c"
    using assms(1,3) that
  proof (induction blocks arbitrary: body c)
    case Nil
    then have "pending_bytes c = show_hex 0 @ crlf @ crlf @ rest"
      by (simp add: finish_stream_def show_hex_zero)
    then obtain c1 where t: "take_line 1024 c = (c1, Inr (show_hex 0))" "pending_bytes c1 = crlf @ rest" "no_empty c1"
      by (rule take_line_ok [OF Nil(3), of "show_hex 0" "crlf @ rest" 1024]) (use size_line [of 0] show_hex_length [of 0 0] in \<open>auto simp: u64_max_def\<close>)
    obtain c2 where "read_trailers (li_header L) c1 = (c2, Inr ())" "pending_bytes c2 = rest" "no_empty c2"
      using t(3,2) assms(5) by (rule read_trailers_done)
    with t size_line(1) [of 0] show ?case by (subst read_chunks.simps) (simp add: u64_max_def)
  next
    case (Cons b blocks)
    show ?case
    proof (cases "b = []")
      case True
      with Cons show ?thesis by (simp add: write_chunk_def)
    next
      case False
      let ?n = "length b"
      have n: "?n < 2 ^ 63" "length body + ?n \<le> li_body L" using Cons.prems(2) assms(4) by simp_all
      then have u: "?n \<le> u64_max" by (simp add: u64_max_def)
      have h: "length (show_hex ?n) \<le> 16" using show_hex_length [of ?n 15] n(1) by simp
      let ?rest = "concat (map (write_chunk True) blocks) @ finish_stream True @ rest"
      have "pending_bytes c = show_hex ?n @ crlf @ (b @ crlf @ ?rest)"
        using Cons.prems(1) False by (simp add: write_chunk_def [of True b])
      then obtain c1 where t: "take_line 1024 c = (c1, Inr (show_hex ?n))" "pending_bytes c1 = b @ crlf @ ?rest" "no_empty c1"
        by (rule take_line_ok [OF Cons.prems(3), of "show_hex ?n" "b @ crlf @ ?rest" 1024]) (use size_line [OF u] h in auto)
      obtain c2 where k: "take_chunk ?n c1 = (c2, Inr b)" "pending_bytes c2 = ?rest" "no_empty c2"
        by (rule take_chunk_ok [OF t(3,2)]) (use n(1) in auto)
      have w: "wrap64 (length body + ?n) = length body + ?n" using n assms(4) by (simp add: wrap64_def)
      have "\<exists>c'. read_chunks L (body @ b) c2 = (c', Inr ((body @ b) @ concat blocks)) \<and> pending_bytes c' = rest \<and> no_empty c'"
        using Cons.IH [OF k(2) _ k(3), of "body @ b"] Cons.prems(2) by simp
      with t k w n False size_line(1) [OF u] show ?thesis by (subst read_chunks.simps) simp
    qed
  qed
  with assms(2) show ?thesis by (auto simp: no_empty_def)
qed


section \<open>Framing\<close>

text \<open>The chunked encodings of a body.\<close>

definition chunk_size :: "str \<Rightarrow> nat option" where
  "chunk_size line = parse_hex (trim (hd (split_on (\<lambda>x. x = CHR '';'') line)))"

inductive chunked_as :: "bytes \<Rightarrow> bytes \<Rightarrow> bool" where
  last_chunk: "chunk_size line = Some 0 \<Longrightarrow> [] \<notin> set trailers \<Longrightarrow>
     chunked_as (line @ crlf @ concat (map (\<lambda>t. t @ crlf) trailers) @ crlf) []"
| more_chunks: "chunk_size line = Some (length b) \<Longrightarrow> chunked_as enc body \<Longrightarrow> chunked_as (line @ crlf @ b @ crlf @ enc) (b @ body)"

lemma read_trailers_framed:
  "read_trailers limit c = (c', Inr u) \<Longrightarrow>
   \<exists>ts. [] \<notin> set ts \<and> pending_bytes c = concat (map (\<lambda>t. t @ crlf) ts) @ crlf @ pending_bytes c'"
proof (induction limit c rule: read_trailers.induct)
  case (1 limit c)
  obtain c1 line where t: "take_line limit c = (c1, Inr line)"
    using 1(2) by (subst (asm) read_trailers.simps) (auto split: prod.splits sum.splits)
  have p: "pending_bytes c = line @ crlf @ pending_bytes c1" using t by (rule take_line_pending)
  show ?case
  proof (cases "line = []")
    case True
    with 1(2) t p show ?thesis
      by (subst (asm) read_trailers.simps) (auto intro: exI [of _ "[]"])
  next
    case False
    then have "read_trailers limit c1 = (c', Inr u)" using 1(2) t by (subst (asm) read_trailers.simps) simp
    with 1(1) [OF t [symmetric]] False obtain ts where ts: "[] \<notin> set ts" "pending_bytes c1 = concat (map (\<lambda>t. t @ crlf) ts) @ crlf @ pending_bytes c'"
      by auto
    with False p show ?thesis by (intro exI [of _ "line # ts"]) auto
  qed
qed

lemma fill_to_buffer: "fill_to n c = (c', Inr u) \<Longrightarrow> n \<le> length (cn_buf c')"
  by (induction n c rule: fill_to.induct) (subst (asm) (2) fill_to.simps, auto split: if_splits prod.splits sum.splits nat.splits)

lemma take_chunk_framed:
  assumes "take_chunk n c = (c', Inr b)"
  shows "length b = n" "pending_bytes c = b @ crlf @ pending_bytes c'"
proof -
  obtain c1 where f: "fill_to (wrap64 (n + 2)) c = (c1, Inr ())"
    using assms by (auto simp: take_chunk_def split: prod.splits sum.splits)
  have a: "\<not> length (cn_buf c1) < n + 2" "take 2 (drop n (cn_buf c1)) = crlf" "b = take n (cn_buf c1)"
      "c' = c1\<lparr>cn_buf := drop (n + 2) (cn_buf c1)\<rparr>"
    using assms unfolding take_chunk_def f by (auto split: if_splits)
  then show "length b = n" by simp
  have "drop n (cn_buf c1) = crlf @ drop (n + 2) (cn_buf c1)"
    using a(2) by (metis append_take_drop_id drop_drop add.commute)
  then have "cn_buf c1 = b @ crlf @ drop (n + 2) (cn_buf c1)"
    using a(3) by (metis append_take_drop_id)
  moreover have "pending_bytes c = pending_bytes c1" using fill_to_pending [of "wrap64 (n + 2)" c] f by simp
  ultimately show "pending_bytes c = b @ crlf @ pending_bytes c'"
    by (simp add: pending_bytes_def a(4))
qed

lemma read_chunks_cases:
  assumes "read_chunks L body c = (c', Inr b)"
  obtains (final) line c1 where "take_line 1024 c = (c1, Inr line)" "chunk_size line = Some 0"
      "read_trailers (li_header L) c1 = (c', Inr ())" "b = body"
  | (chunk) line c1 n c2 b' where "take_line 1024 c = (c1, Inr line)" "chunk_size line = Some n"
      "wrap64 (length body + n) \<le> li_body L" "take_chunk n c1 = (c2, Inr b')" "read_chunks L (body @ b') c2 = (c', Inr b)"
proof -
  obtain c1 line where t: "take_line 1024 c = (c1, Inr line)"
    using assms by (subst (asm) read_chunks.simps) (auto split: prod.splits sum.splits)
  obtain n where n: "chunk_size line = Some n"
    using assms t by (subst (asm) read_chunks.simps) (auto simp: chunk_size_def split: option.splits)
  have r: "read_chunks L body c = (if n = 0 then (case read_trailers (li_header L) c1 of (c, r) \<Rightarrow> (c, map_sum id (\<lambda>_. body) r))
      else if wrap64 (length body + n) > li_body L then (c1, Inl (Status 413 ''request body too large''))
      else (case take_chunk n c1 of (c, Inl e) \<Rightarrow> (c, Inl e) | (c, Inr b) \<Rightarrow> read_chunks L (body @ b) c))"
    using n by (subst read_chunks.simps) (simp add: t chunk_size_def)
  show thesis
  proof (cases "n = 0")
    case True
    obtain c2 r' where "read_trailers (li_header L) c1 = (c2, r')" by fastforce
    with True r assms t n show thesis by (cases r') (auto intro: final)
  next
    case False
    obtain c2 r' where "take_chunk n c1 = (c2, r')" by fastforce
    with False r assms t n show thesis by (cases r') (auto intro: chunk split: if_splits)
  qed
qed

lemma read_chunks_framed:
  "read_chunks L body c = (c', Inr b) \<Longrightarrow> length body \<le> li_body L \<Longrightarrow> length (pending_bytes c) + li_body L < 2 ^ 64 \<Longrightarrow>
   \<exists>enc data. b = body @ data \<and> chunked_as enc data \<and> pending_bytes c = enc @ pending_bytes c' \<and> length b \<le> li_body L"
proof (induction "length (pending_bytes c)" arbitrary: body c rule: less_induct)
  case less
  from less.prems(1) show ?case
  proof (cases rule: read_chunks_cases)
    case (final line c1)
    then obtain ts where ts: "[] \<notin> set ts" "pending_bytes c1 = concat (map (\<lambda>t. t @ crlf) ts) @ crlf @ pending_bytes c'"
      using read_trailers_framed by blast
    have "chunked_as (line @ crlf @ concat (map (\<lambda>t. t @ crlf) ts) @ crlf) []" using final(2) ts(1) by (rule last_chunk)
    moreover have "pending_bytes c = (line @ crlf @ concat (map (\<lambda>t. t @ crlf) ts) @ crlf) @ pending_bytes c'"
      using take_line_pending [OF final(1)] ts(2) by simp
    ultimately show ?thesis using final(4) less.prems(2) by auto
  next
    case (chunk line c1 n c2 b')
    have f: "length b' = n" "pending_bytes c1 = b' @ crlf @ pending_bytes c2" using take_chunk_framed [OF chunk(4)] by simp_all
    have p: "pending_bytes c = line @ crlf @ b' @ crlf @ pending_bytes c2" using take_line_pending [OF chunk(1)] f(2) by simp
    have "length body + n < 2 ^ 64" using less.prems(2,3) f(1) p by simp
    then have "length (body @ b') \<le> li_body L" using chunk(3) f(1) by (simp add: wrap64_def)
    moreover have "length (pending_bytes c2) < length (pending_bytes c)" using p by (simp add: crlf_def)
    ultimately obtain enc data where e: "b = (body @ b') @ data" "chunked_as enc data" "pending_bytes c2 = enc @ pending_bytes c'" "length b \<le> li_body L"
      using less.hyps [OF _ chunk(5)] less.prems(3) by fastforce
    have "chunked_as (line @ crlf @ b' @ crlf @ enc) (b' @ data)" using chunk(2) e(2) f(1) by (intro more_chunks) simp_all
    moreover have "pending_bytes c = (line @ crlf @ b' @ crlf @ enc) @ pending_bytes c'" using p e(3) by simp
    moreover have "b = body @ (b' @ data)" using e(1) by simp
    ultimately show ?thesis using e(4) by blast
  qed
qed

lemma read_head_pending:
  "read_head P L c = (c', Inr req) \<Longrightarrow> \<exists>head. pending_bytes c = head @ pending_bytes c'"
proof (induction P L c rule: read_head.induct)
  case (1 P L c)
  show ?case
  proof (cases "P (cn_buf c)")
    case (HeadComplete n m p i h)
    with 1(2) have "c' = c\<lparr>cn_buf := drop n (cn_buf c)\<rparr>" by (subst (asm) read_head.simps) simp
    then show ?thesis by (intro exI [of _ "take n (cn_buf c)"]) (simp add: pending_bytes_def)
  next
    case HeadPartial
    with 1(2) obtain c1 k where "fill c = (c1, Inr (Suc k))" "read_head P L c1 = (c', Inr req)" "\<not> length (cn_buf c) > li_header L"
      by (subst (asm) read_head.simps) (auto split: if_splits prod.splits sum.splits nat.splits)
    with 1(1) HeadPartial fill_pending [of c] show ?thesis by auto
  qed (use 1(2) in \<open>subst (asm) read_head.simps, simp\<close>)+
qed

lemma framing_of_body [simp]: "framing_of L (req\<lparr>hr_body := b\<rparr>) = framing_of L req"
  by (simp add: framing_of_def header_def headers_named_def)

lemma framing_length: "framing_of L req = Inr (Length n) \<Longrightarrow> n \<le> li_body L"
  by (auto simp: framing_of_def Let_def result_simps split: if_splits option.splits)



definition demo_conn :: conn where
  "demo_conn = \<lparr>cn_buf = ''HEADh'', cn_in = [''iNEXT''], cn_end = EndEof, cn_out = []\<rparr>"

definition demo_parse :: "bytes \<Rightarrow> head_parse" where
  "demo_parse b = HeadComplete 4 ''POST'' ''/mcp'' 1 [(''content-length'', ''2'')]"

definition demo_head :: http_request where
  "demo_head = \<lparr>hr_method = ''POST'', hr_target = ''/mcp'', hr_minor = 1, hr_headers = [(''content-length'', ''2'')], hr_body = []\<rparr>"

lemma demo_simps:
  "trim (from_utf8_lossy ''2'') = ''2''" "header demo_head ''transfer-encoding'' = None" "header demo_head ''expect'' = None"
  "headers_named demo_head ''content-length'' = [''2'']"
  by code_simp+

lemma demo_framing: "framing_of default_limits demo_head = Inr (Length 2)"
  by (simp add: framing_of_def demo_simps content_length_def default_limits_def parse_u64_def digits_val_def digit_val_def code_def
      is_ascii_digit_def u64_max_def)

lemma demo_read_head: "read_head demo_parse default_limits demo_conn = (demo_conn\<lparr>cn_buf := ''h''\<rparr>, Inr demo_head)"
  by (simp add: read_head.simps demo_parse_def demo_simps demo_conn_def demo_head_def)

lemma demo_read:
  "read_request demo_parse default_limits demo_conn =
     (\<lparr>cn_buf = ''NEXT'', cn_in = [], cn_end = EndEof, cn_out = []\<rparr>, Inr (demo_head\<lparr>hr_body := ''hi''\<rparr>))"
  unfolding read_request_def demo_read_head
  by (simp add: demo_framing take_body_def fill_to.simps fill_def continue_line_def demo_simps demo_conn_def)


definition demo_chunks :: conn where
  "demo_chunks = \<lparr>cn_buf = ''2'', cn_in = [crlf @ ''ab'' @ [CHR 0x0D], [CHR 0x0A] @ ''1'' @ crlf @ ''c'' @ crlf, ''0'' @ crlf @ crlf @ ''x''],
     cn_end = EndEof, cn_out = []\<rparr>"

lemma demo_chunks_pending:
  "pending_bytes demo_chunks = concat (map (write_chunk True) [''ab'', ''c'']) @ finish_stream True @ ''x''"
  by code_simp

theorem chunked_roundtrip_witness:
  "\<exists>c'. read_chunks default_limits [] demo_chunks = (c', Inr ''abc'') \<and> pending_bytes c' = ''x''"
  using chunked_roundtrip [OF demo_chunks_pending, of "[]" default_limits]
  by (simp add: demo_chunks_def crlf_def default_limits_def)

section \<open>Responses\<close>

definition line_clean :: "str \<Rightarrow> bool" where
  "line_clean l \<longleftrightarrow> l \<noteq> [] \<and> CHR 0x0D \<notin> set l \<and> CHR 0x0A \<notin> set l"

definition status_line :: "nat \<Rightarrow> nat \<Rightarrow> str" where
  "status_line minor status = ''HTTP/1.'' @ show_nat minor @ '' '' @ show_nat status @ '' '' @ http_reason status"

definition sent_headers :: "headers \<Rightarrow> str list" where
  "sent_headers hdrs = map (\<lambda>(k, v). k @ '': '' @ v) (filter (\<lambda>(k, v). header_safe k \<and> header_safe v) hdrs)"

definition lines_crlf :: "str list \<Rightarrow> bytes" where
  "lines_crlf ls = concat (map (\<lambda>l. l @ crlf) ls)"

lemma show_nat_clean: "CHR 0x0D \<notin> set (show_nat n)" "CHR 0x0A \<notin> set (show_nat n)"
  using show_nat_digits [of n] by (auto simp: list_all_iff is_ascii_digit_def code_def)

lemma http_reason_clean: "CHR 0x0D \<notin> set (http_reason status)" "CHR 0x0A \<notin> set (http_reason status)"
  by (simp_all add: http_reason_def)

lemma status_line_clean: "line_clean (status_line minor status)"
  by (simp add: line_clean_def status_line_def show_nat_clean http_reason_clean)

lemma sent_headers_clean: "list_all line_clean (sent_headers hdrs)"
  by (auto simp: sent_headers_def list_all_iff line_clean_def header_safe_def list_ex_iff)

lemma sent_headers_bytes:
  "concat (map (\<lambda>(k, v). if header_safe k \<and> header_safe v then k @ '': '' @ v @ crlf else []) hdrs) = lines_crlf (sent_headers hdrs)"
  by (induction hdrs) (auto simp: lines_crlf_def sent_headers_def split: if_splits)

text \<open>
   C39. Whatever headers a response is given, also those relayed from an upstream, its head is the status
  line, the headers without a line break or NUL, the framing and the connection line, each on one line
  of its own, and then the body: no value can add a header, end the head early or start a second response.
\<close>

theorem response_never_split:
  "send_response minor keep_alive status hdrs body =
     lines_crlf ([status_line minor status] @ sent_headers hdrs @ [''Content-Length: '' @ show_nat (length body)] @
       (if keep_alive then [] else [''Connection: close''])) @ crlf @ body \<and>
   stream_response minor keep_alive status hdrs =
     lines_crlf ([status_line minor status] @ sent_headers hdrs @ (if minor \<ge> 1 then [''Transfer-Encoding: chunked''] else []) @
       (if keep_alive \<and> minor \<ge> 1 then [] else [''Connection: close''])) @ crlf \<and>
   list_all line_clean ([status_line minor status] @ sent_headers hdrs @ [''Content-Length: '' @ show_nat (length body)] @
     [''Transfer-Encoding: chunked'', ''Connection: close''])"
proof (intro conjI)
  show "send_response minor keep_alive status hdrs body =
     lines_crlf ([status_line minor status] @ sent_headers hdrs @ [''Content-Length: '' @ show_nat (length body)] @
       (if keep_alive then [] else [''Connection: close''])) @ crlf @ body"
    by (simp add: send_response_def response_head_def sent_headers_bytes lines_crlf_def status_line_def)
  show "stream_response minor keep_alive status hdrs =
     lines_crlf ([status_line minor status] @ sent_headers hdrs @ (if minor \<ge> 1 then [''Transfer-Encoding: chunked''] else []) @
       (if keep_alive \<and> minor \<ge> 1 then [] else [''Connection: close''])) @ crlf"
    by (simp add: stream_response_def response_head_def sent_headers_bytes lines_crlf_def status_line_def Let_def)
  show "list_all line_clean ([status_line minor status] @ sent_headers hdrs @ [''Content-Length: '' @ show_nat (length body)] @
     [''Transfer-Encoding: chunked'', ''Connection: close''])"
    using status_line_clean sent_headers_clean by (simp add: line_clean_def show_nat_clean)
qed

section \<open>Slots of the server\<close>

text \<open>
  A chunk size of \<open>2^64 - 1\<close> after a chunk of one byte passes the check of the body's limit, since the sum
  wraps to 0, and draining the buffer then panics.  Any connection can do this before the request is
  authenticated.
\<close>

definition overflow_request :: conn where
  "overflow_request = \<lparr>cn_buf = ''1'' @ crlf @ ''A'' @ crlf @ ''ffffffffffffffff'' @ crlf @ ''B'', cn_in = [], cn_end = EndTimeout, cn_out = []\<rparr>"

lemma demo_sizes:
  "is_utf8 ''1''" "is_utf8 ''ffffffffffffffff''" "trim ''1'' = ''1''" "trim ''ffffffffffffffff'' = ''ffffffffffffffff''"
  by (auto intro!: is_utf8_ascii trim_printable simp: is_printable_def code_def)

lemma demo_hex: "parse_hex ''1'' = Some 1" "parse_hex ''ffffffffffffffff'' = Some 18446744073709551615"
  by (simp_all add: parse_hex_def hex_val_def code_def u64_max_def)

lemma take_chunk_panics:
  "wrap64 (n + 2) \<le> length (cn_buf c) \<Longrightarrow> length (cn_buf c) < n + 2 \<Longrightarrow> take_chunk n c = (c, Inl ReadPanic)"
  by (simp add: take_chunk_def fill_to.simps)

lemma overflow_lines:
  "take_line 1024 overflow_request = (overflow_request\<lparr>cn_buf := ''A'' @ crlf @ ''ffffffffffffffff'' @ crlf @ ''B''\<rparr>, Inr ''1'')"
  "take_line 1024 (overflow_request\<lparr>cn_buf := ''ffffffffffffffff'' @ crlf @ ''B''\<rparr>) =
     (overflow_request\<lparr>cn_buf := ''B''\<rparr>, Inr ''ffffffffffffffff'')"
  by (simp_all add: overflow_request_def take_line.simps crlf_def starts_with_def demo_sizes)

lemma overflow_first_chunk:
  "take_chunk 1 (overflow_request\<lparr>cn_buf := ''A'' @ crlf @ ''ffffffffffffffff'' @ crlf @ ''B''\<rparr>) =
     (overflow_request\<lparr>cn_buf := ''ffffffffffffffff'' @ crlf @ ''B''\<rparr>, Inr ''A'')"
  by (simp add: take_chunk_def fill_to.simps wrap64_def crlf_def)

lemma chunk_size_overflow_panics: "snd (read_chunks default_limits [] overflow_request) = Inl ReadPanic"
proof -
  have "read_chunks default_limits [] overflow_request =
      read_chunks default_limits ''A'' (overflow_request\<lparr>cn_buf := ''ffffffffffffffff'' @ crlf @ ''B''\<rparr>)"
    by (subst read_chunks.simps) (simp add: overflow_lines demo_sizes demo_hex overflow_first_chunk [simplified] wrap64_def default_limits_def)
  also have "\<dots> = (overflow_request\<lparr>cn_buf := ''B''\<rparr>, Inl ReadPanic)"
    by (subst read_chunks.simps) (simp add: overflow_lines(2) [simplified] demo_sizes demo_hex take_chunk_panics wrap64_def default_limits_def)
  finally show ?thesis by simp
qed

text \<open>
  A thread that panics, and a thread that could not be made, never give their slot back: after as many of
  them as there are slots, every connection is refused for good.
\<close>

lemma lost_slots:
  "ev \<in> {Panicked, SpawnFailed} \<Longrightarrow> li_connections L = n \<Longrightarrow>
   fold (serve_step L) (concat (replicate n (if ev = Panicked then [Accepted, Panicked] else [SpawnFailed]))) 0 = n"
proof -
  have "fold (serve_step L) (concat (replicate k (if ev = Panicked then [Accepted, Panicked] else [SpawnFailed]))) a = a + k"
    if "ev \<in> {Panicked, SpawnFailed}" "a + k \<le> li_connections L" for k a
    using that by (induction k arbitrary: a) auto
  then show "ev \<in> {Panicked, SpawnFailed} \<Longrightarrow> li_connections L = n \<Longrightarrow>
   fold (serve_step L) (concat (replicate n (if ev = Panicked then [Accepted, Panicked] else [SpawnFailed]))) 0 = n"
    by fastforce
qed

end
