(* ===== verification/Sandbox_Plan.thy ===== *)
theory Sandbox_Plan
  imports Writ_Call
begin

text \<open>
  What a sandbox may claim: \<open>SandboxSpec\<close> (\<open>writ-core/src/sandbox.rs\<close>), the planning of \<open>local-os\<close> runs
  (\<open>writ-sandbox/src/enforce.rs\<close>) and of interactive runs (\<open>plan\<close> and the report lines of
  \<open>interactive.rs\<close>), and the status that \<open>writ doctor\<close> shows (\<open>platform.rs\<close>).  What the kernel of the
  machine can enforce is a parameter.
\<close>

section \<open>Specifications and capabilities\<close>

record sandbox_spec =
  sp_workspace :: str
  sp_hosts :: "str list"
  sp_env :: "(str \<times> str) list"

datatype enforcement_mode = Required | BestEffort

datatype support = SFull | SPartial str | SUnavailable str

fun is_full :: "support \<Rightarrow> bool" where
  "is_full SFull = True"
| "is_full _ = False"

fun applicable :: "support \<Rightarrow> bool" where
  "applicable (SUnavailable _) = False"
| "applicable _ = True"

record capabilities =
  cap_filesystem :: support
  cap_network :: support
  cap_mechanism :: str

datatype level = Enforced | PartlyEnforced | NotEnforced

record enforcement_report =
  er_mode :: enforcement_mode
  er_filesystem :: level
  er_network :: level
  er_mechanism :: str
  er_notes :: "str list"
  er_apply_fs :: bool
  er_apply_net :: bool

definition fully_enforced :: "enforcement_report \<Rightarrow> bool" where
  "fully_enforced r \<longleftrightarrow> er_filesystem r = Enforced \<and> er_network r = Enforced"

section \<open>Planning a local-os run\<close>

definition refuse :: "str \<Rightarrow> str \<Rightarrow> writ_error" where
  "refuse what why = SandboxErr (''local-os cannot enforce '' @ what @ '': '' @ why @ ''. Refusing to run (fail closed); ''
     @ ''degraded execution requires an explicit EnforcementMode::BestEffort'')"

text \<open>The level of the write boundary, with what is noted about it.\<close>

definition plan_filesystem :: "bool \<Rightarrow> support \<Rightarrow> writ_error + level \<times> str list" where
  "plan_filesystem required s =
     (case s of
        SFull \<Rightarrow> Inr (Enforced, [])
      | SPartial hole \<Rightarrow>
          if required then Inl (refuse ''the workspace write boundary'' hole)
          else Inr (PartlyEnforced, [''filesystem confinement is partial: '' @ hole])
      | SUnavailable why \<Rightarrow>
          if required then Inl (refuse ''the workspace write boundary'' why)
          else Inr (NotEnforced, [''filesystem writes are NOT confined by the kernel: '' @ why]))"

definition hosts_unenforceable :: "str list \<Rightarrow> str" where
  "hosts_unenforceable hosts =
     ''the per-host egress allow-list ['' @ join '', '' (take 5 hosts) @ (if length hosts > 5 then '', ...'' else [])
     @ ''] is not kernel-enforceable by local-os (Landlock/seccomp, Seatbelt and AppContainer filter by ''
     @ ''socket family or all-or-nothing, never by hostname)''"

definition plan_network :: "bool \<Rightarrow> str list \<Rightarrow> support \<Rightarrow> writ_error + (level \<times> bool) \<times> str list" where
  "plan_network required hosts s =
     (if hosts = [] then
        (case s of
           SFull \<Rightarrow> Inr ((Enforced, True), [])
         | SPartial hole \<Rightarrow>
             if required then Inl (refuse ''deny-all network egress'' hole)
             else Inr ((PartlyEnforced, True), [''network deny is partial: '' @ hole])
         | SUnavailable why \<Rightarrow>
             if required then Inl (refuse ''deny-all network egress'' why)
             else Inr ((NotEnforced, False), [''network egress is NOT blocked: '' @ why]))
      else
        (let why = hosts_unenforceable hosts
         in if required then Inl (refuse ''the egress allow-list'' why)
            else Inr ((NotEnforced, False), [''network egress is fully OPEN: '' @ why])))"

definition plan :: "sandbox_spec \<Rightarrow> capabilities \<Rightarrow> enforcement_mode \<Rightarrow> writ_error + enforcement_report" where
  "plan spec caps mode =
     (let required = (mode = Required) in
      rbind (plan_filesystem required (cap_filesystem caps)) (\<lambda>(fs, n1).
      rbind (plan_network required (sp_hosts spec) (cap_network caps)) (\<lambda>((net, deny), n2).
        Inr \<lparr>er_mode = mode, er_filesystem = fs, er_network = net, er_mechanism = cap_mechanism caps,
             er_notes = n1 @ n2, er_apply_fs = applicable (cap_filesystem caps), er_apply_net = deny\<rparr>)))"

text \<open>Fail closed: a required plan exists only for what the kernel enforces in full, and it applies all of it.\<close>

lemma plan_required: "plan spec caps Required = Inr r \<longleftrightarrow>
  is_full (cap_filesystem caps) \<and> is_full (cap_network caps) \<and> sp_hosts spec = [] \<and>
  r = \<lparr>er_mode = Required, er_filesystem = Enforced, er_network = Enforced, er_mechanism = cap_mechanism caps,
       er_notes = [], er_apply_fs = True, er_apply_net = True\<rparr>"
  by (cases "cap_filesystem caps"; cases "cap_network caps")
     (auto simp: plan_def plan_filesystem_def plan_network_def rbind_def Let_def)

lemma plan_required_enforced: "plan spec caps Required = Inr r \<Longrightarrow>
    fully_enforced r \<and> er_apply_fs r \<and> er_apply_net r"
  by (simp add: plan_required fully_enforced_def)

text \<open>A plan never overclaims, and leaves no gap without a note.\<close>

lemma plan_honest:
  assumes "plan spec caps mode = Inr r"
  shows "er_filesystem r = Enforced \<longleftrightarrow> is_full (cap_filesystem caps)"
    and "er_network r = Enforced \<longleftrightarrow> is_full (cap_network caps) \<and> sp_hosts spec = []"
    and "er_apply_fs r \<longleftrightarrow> er_filesystem r \<noteq> NotEnforced"
    and "er_apply_net r \<longleftrightarrow> er_network r \<noteq> NotEnforced"
    and "length (er_notes r) = (if er_filesystem r = Enforced then 0 else 1) + (if er_network r = Enforced then 0 else 1)"
  using assms
  by (cases "cap_filesystem caps"; cases "cap_network caps";
      auto simp: plan_def plan_filesystem_def plan_network_def rbind_def Let_def split: if_splits)+

section \<open>Planning an interactive run\<close>

datatype net_mode = NetOpen | NetNone
datatype run_mode = RequiredRun | BestEffortRun | Unconfined

record launch_plan =
  rp_filesystem :: level
  rp_network :: level
  rp_apply_fs :: bool
  rp_apply_net :: bool
  rp_notes :: "str list"

definition refuse_launch :: "str \<Rightarrow> str \<Rightarrow> writ_error" where
  "refuse_launch what why = SandboxErr (''the kernel cannot enforce '' @ what @ '' for this run: '' @ why
     @ ''. Refusing to launch (fail closed)'')"

definition launch_filesystem :: "bool \<Rightarrow> support \<Rightarrow> writ_error + level \<times> str list" where
  "launch_filesystem required s =
     (case s of
        SFull \<Rightarrow> Inr (Enforced, [])
      | SPartial why \<Rightarrow>
          if required then Inl (refuse_launch ''the filesystem write boundary'' why)
          else Inr (PartlyEnforced, [''filesystem confinement is partial: '' @ why])
      | SUnavailable why \<Rightarrow>
          if required then Inl (refuse_launch ''the filesystem write boundary'' why)
          else Inr (NotEnforced, [''filesystem writes are NOT confined by the kernel: '' @ why]))"

definition launch_network :: "bool \<Rightarrow> net_mode \<Rightarrow> support \<Rightarrow> writ_error + (level \<times> bool) \<times> str list" where
  "launch_network required net s =
     (case net of
        NetOpen \<Rightarrow> Inr ((NotEnforced, False), [])
      | NetNone \<Rightarrow>
          (case s of
             SFull \<Rightarrow> Inr ((Enforced, True), [])
           | SPartial why \<Rightarrow>
               if required then Inl (refuse_launch ''--net none (deny all network)'' why)
               else Inr ((PartlyEnforced, True), [''network deny is partial: '' @ why])
           | SUnavailable why \<Rightarrow>
               if required then Inl (refuse_launch ''--net none (deny all network)'' why)
               else Inr ((NotEnforced, False), [''network is NOT blocked (open): '' @ why])))"

definition plan_launch :: "capabilities \<Rightarrow> net_mode \<Rightarrow> run_mode \<Rightarrow> writ_error + launch_plan" where
  "plan_launch caps net mode =
     (if mode = Unconfined then
        Inr \<lparr>rp_filesystem = NotEnforced, rp_network = NotEnforced, rp_apply_fs = False, rp_apply_net = False,
             rp_notes = [''UNCONFINED: no kernel boundary; the agent can write anywhere this user can and ''
                         @ ''reach any host'']\<rparr>
      else
        (let required = (mode = RequiredRun) in
         rbind (launch_filesystem required (cap_filesystem caps)) (\<lambda>(fs, n1).
         rbind (launch_network required net (cap_network caps)) (\<lambda>((nl, deny), n2).
           Inr \<lparr>rp_filesystem = fs, rp_network = nl, rp_apply_fs = applicable (cap_filesystem caps),
                rp_apply_net = deny, rp_notes = n1 @ n2\<rparr>))))"

definition preflight :: "capabilities \<Rightarrow> net_mode \<Rightarrow> run_mode \<Rightarrow> writ_error + unit" where
  "preflight caps net mode = rbind (plan_launch caps net mode) (\<lambda>_. Inr ())"

lemma plan_launch_required: "plan_launch caps net RequiredRun = Inr p \<longleftrightarrow>
  is_full (cap_filesystem caps) \<and> (net = NetNone \<longrightarrow> is_full (cap_network caps)) \<and>
  p = \<lparr>rp_filesystem = Enforced, rp_network = (if net = NetNone then Enforced else NotEnforced), rp_apply_fs = True,
       rp_apply_net = (net = NetNone), rp_notes = []\<rparr>"
  by (cases "cap_filesystem caps"; cases "cap_network caps"; cases net)
     (auto simp: plan_launch_def launch_filesystem_def launch_network_def rbind_def Let_def)

lemma plan_launch_honest:
  assumes "plan_launch caps net mode = Inr p"
  shows "rp_filesystem p = Enforced \<Longrightarrow> mode \<noteq> Unconfined \<and> is_full (cap_filesystem caps)"
    and "rp_network p = Enforced \<Longrightarrow> mode \<noteq> Unconfined \<and> net = NetNone \<and> is_full (cap_network caps)"
    and "rp_apply_fs p \<longleftrightarrow> rp_filesystem p \<noteq> NotEnforced"
    and "rp_apply_net p \<longleftrightarrow> rp_network p \<noteq> NotEnforced"
  using assms
  by (cases "cap_filesystem caps"; cases "cap_network caps"; cases net;
      auto simp: plan_launch_def launch_filesystem_def launch_network_def rbind_def Let_def split: if_splits)+

definition filesystem_line :: "run_mode \<Rightarrow> level \<Rightarrow> str" where
  "filesystem_line mode l =
     (if mode = Unconfined then ''NOT enforced '' @ em_dash @ '' unconfined (launch supervision only)''
      else case l of
        Enforced \<Rightarrow> ''enforced '' @ em_dash @ '' writes outside the writable paths are denied by the kernel''
      | PartlyEnforced \<Rightarrow> ''PARTIAL '' @ em_dash @ '' see notes''
      | NotEnforced \<Rightarrow> ''NOT enforced '' @ em_dash @ '' the kernel cannot confine writes here'')"

definition network_line :: "net_mode \<Rightarrow> level \<Rightarrow> str" where
  "network_line net l =
     (case net of
        NetOpen \<Rightarrow> ''open, not filtered (the kernel cannot filter by host)''
      | NetNone \<Rightarrow>
          (case l of
             Enforced \<Rightarrow> ''none '' @ em_dash @ '' all network denied by the kernel''
           | PartlyEnforced \<Rightarrow> ''none requested '' @ em_dash @ '' PARTIAL, see notes''
           | NotEnforced \<Rightarrow> ''none requested but NOT enforced '' @ em_dash @ '' the network is OPEN''))"

section \<open>What \<open>writ doctor\<close> shows\<close>

definition describe :: "support \<Rightarrow> str \<Rightarrow> str" where
  "describe s detail =
     (case s of
        SFull \<Rightarrow> ''enforced '' @ em_dash @ '' '' @ detail
      | SPartial hole \<Rightarrow> ''PARTIAL '' @ em_dash @ '' '' @ hole
      | SUnavailable why \<Rightarrow> ''NOT enforced '' @ em_dash @ '' '' @ why)"

record hardening =
  kh_enforced :: bool
  kh_mechanism :: str
  kh_filesystem :: support
  kh_network :: support
  kh_notes :: str

text \<open>The texts that name the mechanisms differ per platform.\<close>

definition kernel_hardening :: "str \<Rightarrow> str \<Rightarrow> str \<Rightarrow> capabilities \<Rightarrow> hardening" where
  "kernel_hardening fs_detail net_detail residual caps =
     (let enforced = is_full (cap_filesystem caps) \<and> is_full (cap_network caps) in
      \<lparr>kh_enforced = enforced, kh_mechanism = cap_mechanism caps, kh_filesystem = cap_filesystem caps,
       kh_network = cap_network caps,
       kh_notes = ''filesystem: '' @ describe (cap_filesystem caps) fs_detail @ ''. network: ''
         @ describe (cap_network caps) net_detail @ ''. residual: '' @ residual
         @ ''. A non-empty egress allow-list (allowed_hosts) is never kernel-enforced by local-os: it fails closed unless ''
         @ ''best-effort mode is explicitly enabled, which then leaves the network open. ''
         @ (if enforced then ''Default mode is fail closed.''
            else ''Default (fail-closed) mode REFUSES to run on this machine until the missing enforcement is available.'')\<rparr>)"

text \<open>The status agrees with the planner: a machine is shown as enforcing exactly when a required plan exists.\<close>

lemma hardening_agrees_with_plan: "sp_hosts spec = [] \<Longrightarrow>
    kh_enforced (kernel_hardening a b c caps) \<longleftrightarrow> (\<exists>r. plan spec caps Required = Inr r)"
  by (simp add: kernel_hardening_def plan_required Let_def)

end
