(* ===== verification/Unix_Path.thy ===== *)
theory Unix_Path
  imports Writ_Prelude
begin

text \<open>
  The functions of \<open>std::path\<close> that the sandboxes use, on Unix: a path is its bytes, and is compared by its
  components.  \<open>canonicalize\<close> is a parameter where it is used; it returns an absolute path without empty,
  \<open>.\<close> or \<open>..\<close> components.
\<close>

definition is_absolute :: "str \<Rightarrow> bool" where
  "is_absolute p \<longleftrightarrow> starts_with p ''/''"

text \<open>Empty and \<open>.\<close> components do not count, except a leading \<open>.\<close>; the root counts as one.\<close>

definition components :: "str \<Rightarrow> str list" where
  "components p =
     (let cs = split_on (\<lambda>c. c = CHR ''/'') p
      in (if is_absolute p then [''/''] else if hd cs = ''.'' then [''.''] else [])
         @ filter (\<lambda>c. c \<noteq> [] \<and> c \<noteq> ''.'') cs)"

definition same_path :: "str \<Rightarrow> str \<Rightarrow> bool" where
  "same_path p q \<longleftrightarrow> components p = components q"

definition path_starts_with :: "str \<Rightarrow> str \<Rightarrow> bool" where
  "path_starts_with p q \<longleftrightarrow> prefix (components q) (components p)"

text \<open>What follows a prefix, written with single separators.\<close>

definition path_strip_prefix :: "str \<Rightarrow> str \<Rightarrow> str option" where
  "path_strip_prefix p q =
     (if path_starts_with p q then Some (join ''/'' (drop (length (components q)) (components p))) else None)"

definition join_path :: "str \<Rightarrow> str \<Rightarrow> str" where
  "join_path p q =
     (if is_absolute q then q else if p = [] \<or> last p = CHR ''/'' then p @ q else p @ ''/'' @ q)"

section \<open>Canonical paths\<close>

definition normal :: "str \<Rightarrow> bool" where
  "normal c \<longleftrightarrow> c \<noteq> [] \<and> c \<noteq> ''.'' \<and> c \<noteq> ''..'' \<and> CHR ''/'' \<notin> set c"

definition path_of :: "str list \<Rightarrow> str" where
  "path_of cs = (if cs = [] then ''/'' else concat (map ((#) (CHR ''/'')) cs))"

definition canonical_path :: "str \<Rightarrow> bool" where
  "canonical_path p \<longleftrightarrow> (\<exists>cs. list_all normal cs \<and> p = path_of cs)"

lemma split_slash: "CHR ''/'' \<notin> set a \<Longrightarrow>
    split_on (\<lambda>c. c = CHR ''/'') (a @ CHR ''/'' # b) = a # split_on (\<lambda>c. c = CHR ''/'') b"
  by (induction a) auto

lemma split_no_slash: "CHR ''/'' \<notin> set a \<Longrightarrow> split_on (\<lambda>c. c = CHR ''/'') a = [a]"
  by (induction a) auto

lemma split_pieces: "list_all normal (c # cs) \<Longrightarrow>
    split_on (\<lambda>c. c = CHR ''/'') (c @ concat (map ((#) (CHR ''/'')) cs)) = c # cs"
proof (induction cs arbitrary: c)
  case (Cons d cs)
  then show ?case by (simp add: normal_def split_slash)
qed (simp add: normal_def split_no_slash)

lemma components_path_of [simp]: "list_all normal cs \<Longrightarrow> components (path_of cs) = ''/'' # cs"
proof (cases cs)
  case (Cons c cs')
  assume n: "list_all normal cs"
  then have "split_on (\<lambda>c. c = CHR ''/'') (path_of cs) = [] # cs"
    using split_pieces [of c cs'] Cons by (simp add: path_of_def)
  moreover have "filter (\<lambda>c. c \<noteq> [] \<and> c \<noteq> ''.'') cs = cs" using n by (auto simp: filter_id_conv list_all_iff normal_def)
  ultimately show ?thesis using Cons by (simp add: components_def is_absolute_def starts_with_def path_of_def)
qed (simp add: components_def is_absolute_def starts_with_def path_of_def)

lemma join_slash: "concat (map ((#) (CHR ''/'')) cs) = (if cs = [] then [] else CHR ''/'' # join ''/'' cs)"
  by (induction "''/''" cs rule: join.induct) auto

lemma canonical_ext: "canonical_path p \<Longrightarrow> canonical_path q \<Longrightarrow> components p = components q \<Longrightarrow> p = q"
  by (auto simp: canonical_path_def)

text \<open>Joining undoes stripping a prefix.\<close>

lemma normal_last: "normal c \<Longrightarrow> last c \<noteq> CHR ''/''"
  using last_in_set [of c] by (metis normal_def)

lemma path_of_snoc: "list_all normal cs \<Longrightarrow> cs \<noteq> [] \<Longrightarrow> path_of cs \<noteq> [] \<and> last (path_of cs) \<noteq> CHR ''/''"
proof (induction cs rule: rev_induct)
  case (snoc c cs)
  then have "normal c" by simp
  then show ?case using normal_last [of c] by (auto simp: path_of_def normal_def)
qed simp

lemma join_strip_prefix:
  assumes "canonical_path p" "canonical_path q" "path_strip_prefix p q = Some r" "r \<noteq> []"
  shows "join_path q r = p"
proof -
  from assms obtain cs ds where n: "list_all normal cs" "list_all normal ds" and pq: "p = path_of cs" "q = path_of ds"
    by (auto simp: canonical_path_def)
  with assms(3) obtain es where e: "cs = ds @ es" "r = join ''/'' es"
    by (auto simp: path_strip_prefix_def path_starts_with_def prefix_def split: if_splits)
  have ne: "es \<noteq> []" using e assms(4) by auto
  then have rel: "\<not> is_absolute r" using n e
    by (cases es; cases "tl es") (auto simp: is_absolute_def starts_with_def normal_def neq_Nil_conv)
  have j: "concat (map ((#) (CHR ''/'')) es) = CHR ''/'' # r" using ne e by (simp add: join_slash)
  show ?thesis
  proof (cases "ds = []")
    case True
    then show ?thesis using rel j ne pq e by (simp add: join_path_def path_of_def)
  next
    case False
    then show ?thesis using rel j pq e path_of_snoc [OF n(2) False] by (simp add: join_path_def path_of_def)
  qed
qed

end
