(* ===== verification/Sandbox_Docker.thy ===== *)
theory Sandbox_Docker
  imports Sandbox_Plan Unix_Path Integrate
begin

text \<open>
  \<open>writ-sandbox-docker/src/lib.rs\<close>: the sandbox backend that drives the \<open>docker\<close> command.  The command is a
  parameter, a function of everything it was asked before: so a run of the backend is a list of commands,
  and whatever a daemon does between them is some such function.
\<close>

section \<open>Constants\<close>

definition CONTAINER_WORKSPACE :: str where "CONTAINER_WORKSPACE = ''/workspace''"
definition IMAGE_ENV_KEY :: str where "IMAGE_ENV_KEY = ''WRIT_DOCKER_IMAGE''"
definition DEFAULT_IMAGE :: str where "DEFAULT_IMAGE = ''alpine:3.20''"
definition KEEPALIVE_CMD :: "str list" where "KEEPALIVE_CMD = [''sleep'', ''infinity'']"
definition DEFAULT_EXEC_TIMEOUT_MS :: nat where "DEFAULT_EXEC_TIMEOUT_MS = 600000"
definition DAEMON_CALL_TIMEOUT :: nat where "DAEMON_CALL_TIMEOUT = 60"
definition PULL_TIMEOUT :: nat where "PULL_TIMEOUT = 600"

record resource_limits =
  rl_pids :: "int option"
  rl_memory :: "int option"
  rl_nano_cpus :: "int option"

definition default_resource_limits :: resource_limits where
  "default_resource_limits = \<lparr>rl_pids = Some 512, rl_memory = None, rl_nano_cpus = None\<rparr>"

section \<open>The docker command\<close>

text \<open>What running it gives: it cannot be spawned or waited for, it ends (with or without an exit code), it is killed at the deadline.\<close>

datatype cli_result = SpawnFailed str | WaitError str | Done "int option" bytes bytes | DeadlinePassed

record captured_output =
  co_code :: int
  co_stdout :: bytes
  co_stderr :: bytes

datatype captured = Captured captured_output | TimedOut

type_synonym commands = "str list list"
type_synonym docker = "commands \<Rightarrow> str list \<Rightarrow> cli_result"

definition run_captured :: "docker \<Rightarrow> str list \<Rightarrow> commands \<Rightarrow> commands \<times> (writ_error + captured)" where
  "run_captured d args h =
     (h @ [args],
      case d h args of
        SpawnFailed e \<Rightarrow> Inl (SandboxErr (''docker CLI spawn failed (is docker on PATH?): '' @ e))
      | WaitError e \<Rightarrow> Inl (IoErr e)
      | Done status out err \<Rightarrow>
          Inr (Captured \<lparr>co_code = (case status of Some c \<Rightarrow> c | None \<Rightarrow> -1), co_stdout = out, co_stderr = err\<rparr>)
      | DeadlinePassed \<Rightarrow> Inr TimedOut)"

definition run_ok :: "docker \<Rightarrow> str list \<Rightarrow> nat \<Rightarrow> str \<Rightarrow> commands \<Rightarrow> commands \<times> (writ_error + captured_output)" where
  "run_ok d args deadline op h =
     (let (h, r) = run_captured d args h
      in (h, rbind r (\<lambda>c. case c of Captured out \<Rightarrow> Inr out
            | TimedOut \<Rightarrow> Inl (SandboxErr (''docker '' @ op @ '' timed out after '' @ show_nat deadline @ ''s'')))))"

definition require :: "captured_output \<Rightarrow> str \<Rightarrow> str \<Rightarrow> writ_error + captured_output" where
  "require out op subject =
     (if co_code out = 0 then Inr out
      else Inl (SandboxErr (''docker '' @ op @ '' '' @ subject @ '' failed (exit '' @ show_int (co_code out) @ ''): ''
             @ trim (from_utf8_lossy (co_stderr out)))))"

definition is_daemon_level_exec_failure :: "captured_output \<Rightarrow> bool" where
  "is_daemon_level_exec_failure out \<longleftrightarrow>
     co_code out = 125 \<and> str_contains (from_utf8_lossy (co_stderr out)) ''Error response from daemon''"

definition is_no_such_container :: "bytes \<Rightarrow> bool" where
  "is_no_such_container stderr \<longleftrightarrow> str_contains (from_utf8_lossy stderr) ''No such container''"

definition is_no_such_image :: "bytes \<Rightarrow> bool" where
  "is_no_such_image stderr \<longleftrightarrow> str_contains (from_utf8_lossy stderr) ''No such image''"

section \<open>Arguments\<close>

text \<open>The rendering of a number of CPUs divides as floating-point numbers do and is a parameter.\<close>

definition create_args :: "(int \<Rightarrow> str) \<Rightarrow> str \<Rightarrow> str \<Rightarrow> str \<Rightarrow> resource_limits \<Rightarrow> str list" where
  "create_args show_cpus name bind img lim =
     [''create'', ''--name'', name, ''--network'', ''none'', ''-v'', bind]
     @ (case rl_pids lim of Some n \<Rightarrow> [''--pids-limit'', show_int n] | None \<Rightarrow> [])
     @ (case rl_memory lim of Some n \<Rightarrow> [''--memory'', show_int n] | None \<Rightarrow> [])
     @ (case rl_nano_cpus lim of Some n \<Rightarrow> [''--cpus'', show_cpus n] | None \<Rightarrow> [])
     @ [''--security-opt'', ''no-new-privileges:true'', ''--label'', ''writ.managed=true'', ''--label'', ''writ.image='' @ img, img]
     @ KEEPALIVE_CMD"

definition exec_args :: "str \<Rightarrow> str \<Rightarrow> str list \<Rightarrow> str \<Rightarrow> str list \<Rightarrow> str list" where
  "exec_args container cwd env_pairs program args =
     [''exec'', ''-w'', cwd] @ concat (map (\<lambda>p. [''-e'', p]) env_pairs) @ [container, program] @ args"

text \<open>A directory of the host, as the container sees it.\<close>

definition map_cwd :: "(str \<Rightarrow> str + str) \<Rightarrow> str \<Rightarrow> str option \<Rightarrow> writ_error + str" where
  "map_cwd canonicalize workspace req_cwd =
     (case req_cwd of
        None \<Rightarrow> Inr CONTAINER_WORKSPACE
      | Some cwd \<Rightarrow>
          rbind (map_err (\<lambda>e. SandboxErr (''cwd '' @ cwd @ '' not canonicalizable (fail closed): '' @ e)) (canonicalize cwd))
            (\<lambda>target. case path_strip_prefix target workspace of
               None \<Rightarrow> Inl (SandboxErr (''cwd '' @ target @ '' escapes workspace '' @ workspace))
             | Some rel0 \<Rightarrow>
                 (let rel = replace_char CHR 0x5C ''/'' rel0
                  in Inr (if rel = [] then CONTAINER_WORKSPACE else CONTAINER_WORKSPACE @ ''/'' @ rel))))"

definition merged_exec_env :: "(str \<times> str) list \<Rightarrow> (str \<times> str) list \<Rightarrow> str list" where
  "merged_exec_env spec_env req_env =
     map (\<lambda>(k, v). k @ ''='' @ v)
       (filter (\<lambda>(k, v). k \<noteq> IMAGE_ENV_KEY) (fold (\<lambda>(k, v). btree_insert k v) req_env spec_env))"

definition map_container_path :: "str \<Rightarrow> str \<Rightarrow> str" where
  "map_container_path workspace p =
     (if p = CONTAINER_WORKSPACE then workspace
      else case strip_prefix p (CONTAINER_WORKSPACE @ ''/'') of Some rel \<Rightarrow> join_path workspace rel | None \<Rightarrow> p)"

definition is_docker_injected_path :: "str \<Rightarrow> bool" where
  "is_docker_injected_path p \<longleftrightarrow> p \<in> {''/etc/hosts'', ''/etc/hostname'', ''/etc/resolv.conf''}"

definition parse_diff_path :: "str \<Rightarrow> str option" where
  "parse_diff_path line =
     (case split_once line '' '' of
        None \<Rightarrow> None
      | Some (kind, p) \<Rightarrow> if kind = ''0'' \<or> kind = ''1'' \<or> kind = ''2'' then Some (trim p) else None)"

definition changed_files :: "str \<Rightarrow> str \<Rightarrow> str list" where
  "changed_files diff workspace =
     map (map_container_path workspace)
       (filter (\<lambda>p. \<not> is_docker_injected_path p) (List.map_filter parse_diff_path (str_lines diff)))"

text \<open>The prefixes of Windows paths.\<close>

definition normalize_windows_path :: "str \<Rightarrow> str" where
  "normalize_windows_path raw =
     (let bs = CHR 0x5C in
      case strip_prefix raw ([bs, bs] @ ''?'' @ [bs] @ ''UNC'' @ [bs]) of
        Some rest \<Rightarrow> [bs, bs] @ rest
      | None \<Rightarrow> (case strip_prefix raw ([bs, bs] @ ''?'' @ [bs]) of Some rest \<Rightarrow> rest | None \<Rightarrow> raw))"

section \<open>The backend\<close>

record container_record =
  cr_workspace :: str
  cr_env :: "(str \<times> str) list"

record docker_backend =
  db_image :: str
  db_limits :: resource_limits
  db_containers :: "str \<Rightarrow> container_record option"
  db_seq :: nat

definition with_image :: "str \<Rightarrow> nat \<Rightarrow> docker_backend" where
  "with_image img seed =
     \<lparr>db_image = img, db_limits = default_resource_limits, db_containers = Map.empty, db_seq = seed\<rparr>"

definition image_for :: "docker_backend \<Rightarrow> sandbox_spec \<Rightarrow> str" where
  "image_for B spec =
     (case map_of (sp_env spec) IMAGE_ENV_KEY of
        Some i \<Rightarrow> if i = [] then db_image B else i
      | None \<Rightarrow> db_image B)"

definition container_of :: "docker_backend \<Rightarrow> str \<Rightarrow> writ_error + container_record" where
  "container_of B cid =
     ok_or (db_containers B cid) (SandboxErr (''unknown sandbox SandboxId('' @ [CHR 0x22] @ cid @ [CHR 0x22] @ '')''))"

record docker_env =
  de_create_dir :: "str \<Rightarrow> str option"
  de_canonicalize :: "str \<Rightarrow> str + str"
  de_pid :: nat
  de_show_cpus :: "int \<Rightarrow> str"
  de_elapsed :: nat

definition hosts_refused :: "str list \<Rightarrow> writ_error" where
  "hosts_refused hosts = SandboxErr (''docker backend cannot enforce the per-host egress allow-list [''
     @ join '', '' (take 5 hosts) @ (if length hosts > 5 then '', ...'' else []) @ ''] ''
     @ ''(docker provides no hostname-level egress filtering out of the box; ''
     @ ''failing closed instead of silently allowing full network). ''
     @ ''Set allowed_hosts to empty (network fully disabled) or use a backend that can enforce it'')"

text \<open>Creating the container: an image that the daemon does not know is pulled, once.\<close>

definition create_container :: "docker \<Rightarrow> str list \<Rightarrow> str \<Rightarrow> str \<Rightarrow> commands \<Rightarrow> commands \<times> (writ_error + str)" where
  "create_container d create img name h =
     sbind
       (sbind (run_ok d create PULL_TIMEOUT ''create container'' h) (\<lambda>out h.
          if co_code out \<noteq> 0 \<and> is_no_such_image (co_stderr out)
          then sbind (run_ok d [''pull'', img] PULL_TIMEOUT ''pull image'' h) (\<lambda>p h.
                 case require p ''pull image'' img of
                   Inl e \<Rightarrow> (h, Inl e)
                 | Inr _ \<Rightarrow> run_ok d create PULL_TIMEOUT ''create container'' h)
          else (h, Inr out)))
       (\<lambda>out h. (h, rbind (require out ''create container'' name) (\<lambda>out.
          let cid = trim (from_utf8_lossy (co_stdout out))
          in if cid = [] then Inl (SandboxErr ''docker create returned no container id'') else Inr cid)))"

definition create_command :: "docker_env \<Rightarrow> docker_backend \<Rightarrow> sandbox_spec \<Rightarrow> str \<Rightarrow> str list" where
  "create_command E B spec workspace =
     create_args (de_show_cpus E) (''writ-sandbox-'' @ show_nat (de_pid E) @ ''-'' @ show_nat (db_seq B + 1))
       (normalize_windows_path workspace @ '':'' @ CONTAINER_WORKSPACE) (image_for B spec) (db_limits B)"

text \<open>Starting it: a container that does not start is removed again.\<close>

definition start_container :: "docker \<Rightarrow> str \<Rightarrow> container_record \<Rightarrow> docker_backend \<Rightarrow> commands \<Rightarrow>
    (docker_backend \<times> commands) \<times> (writ_error + str)" where
  "start_container d cid rec B h =
     (let B1 = B\<lparr>db_containers := (db_containers B)(cid \<mapsto> rec)\<rparr>;
          (h, start) = run_ok d [''start'', cid] DAEMON_CALL_TIMEOUT ''start container'' h
      in if (case start of Inr out \<Rightarrow> co_code out \<noteq> 0 | Inl _ \<Rightarrow> True)
         then ((B1\<lparr>db_containers := (db_containers B1)(cid := None)\<rparr>,
                fst (run_ok d [''rm'', ''-f'', cid] DAEMON_CALL_TIMEOUT ''remove container'' h)),
               Inl (case start of Inl e \<Rightarrow> e | Inr _ \<Rightarrow> SandboxErr ''docker start container timed out''))
         else ((B1, h), Inr cid))"

definition docker_prepare :: "docker \<Rightarrow> docker_env \<Rightarrow> sandbox_spec \<Rightarrow> docker_backend \<Rightarrow> commands \<Rightarrow>
    (docker_backend \<times> commands) \<times> (writ_error + str)" where
  "docker_prepare d E spec B h =
     (if sp_hosts spec \<noteq> [] then ((B, h), Inl (hosts_refused (sp_hosts spec)))
      else case de_create_dir E (sp_workspace spec) of
        Some e \<Rightarrow> ((B, h), Inl (IoErr e))
      | None \<Rightarrow>
          (case de_canonicalize E (sp_workspace spec) of
             Inl e \<Rightarrow> ((B, h), Inl (SandboxErr (''workspace '' @ sp_workspace spec @ '' not canonicalizable (fail closed): '' @ e)))
           | Inr workspace \<Rightarrow>
               (let create = create_command E B spec workspace;
                    name = ''writ-sandbox-'' @ show_nat (de_pid E) @ ''-'' @ show_nat (db_seq B + 1);
                    B = B\<lparr>db_seq := db_seq B + 1\<rparr>
                in case create_container d create (image_for B spec) name h of
                     (h, Inl e) \<Rightarrow> ((B, h), Inl e)
                   | (h, Inr cid) \<Rightarrow>
                       start_container d cid \<lparr>cr_workspace = workspace, cr_env = sp_env spec\<rparr> B h)))"

record docker_request =
  dr_program :: str
  dr_args :: "str list"
  dr_cwd :: "str option"
  dr_env :: "(str \<times> str) list"
  dr_timeout :: "nat option"

record docker_output =
  do_stdout :: bytes
  do_stderr :: bytes
  do_exit_code :: int
  do_duration :: nat

definition docker_exec :: "docker \<Rightarrow> docker_env \<Rightarrow> str \<Rightarrow> docker_request \<Rightarrow> docker_backend \<Rightarrow> commands \<Rightarrow>
    commands \<times> (writ_error + docker_output)" where
  "docker_exec d E cid req B h =
     (case rbind (container_of B cid) (\<lambda>rec.
           rbind (map_cwd (de_canonicalize E) (cr_workspace rec) (dr_cwd req)) (\<lambda>cwd. Inr (rec, cwd))) of
        Inl e \<Rightarrow> (h, Inl e)
      | Inr (rec, cwd) \<Rightarrow>
          (let args = exec_args cid cwd (merged_exec_env (cr_env rec) (dr_env req)) (dr_program req) (dr_args req);
               timeout = (case dr_timeout req of Some n \<Rightarrow> n | None \<Rightarrow> DEFAULT_EXEC_TIMEOUT_MS)
           in sbind (run_captured d args h) (\<lambda>c h.
                case c of
                  Captured out \<Rightarrow>
                    (h, if is_daemon_level_exec_failure out
                        then Inl (SandboxErr (''docker exec failed: '' @ trim (from_utf8_lossy (co_stderr out))))
                        else Inr \<lparr>do_stdout = co_stdout out, do_stderr = co_stderr out, do_exit_code = co_code out,
                                  do_duration = de_elapsed E\<rparr>)
                | TimedOut \<Rightarrow>
                    (fst (run_captured d [''stop'', ''-t'', ''0'', cid] h),
                     Inl (SandboxErr (''execution timed out after '' @ show_nat timeout @ ''ms and was killed ''
                       @ ''(docker has no per-exec kill, so the container was stopped)''))))))"

definition docker_collect :: "docker \<Rightarrow> docker_env \<Rightarrow> str \<Rightarrow> docker_backend \<Rightarrow> commands \<Rightarrow> commands \<times> (writ_error + str list)" where
  "docker_collect d E cid B h =
     (case container_of B cid of
        Inl e \<Rightarrow> (h, Inl e)
      | Inr rec \<Rightarrow>
          (let (h, r) = run_ok d [''diff'', cid] DAEMON_CALL_TIMEOUT ''container diff'' h
           in (h, Inr (case r of
                 Inr out \<Rightarrow> if co_code out = 0 then changed_files (from_utf8_lossy (co_stdout out)) (cr_workspace rec) else []
               | Inl _ \<Rightarrow> []))))"

definition docker_teardown :: "docker \<Rightarrow> docker_env \<Rightarrow> str \<Rightarrow> docker_backend \<Rightarrow> commands \<Rightarrow>
    (docker_backend \<times> commands) \<times> (writ_error + unit)" where
  "docker_teardown d E cid B h =
     (let (h, _) = run_ok d [''stop'', ''-t'', ''0'', cid] DAEMON_CALL_TIMEOUT ''stop container'' h;
          (h, r) = run_ok d [''rm'', ''-f'', cid] DAEMON_CALL_TIMEOUT ''remove container'' h
      in case r of
           Inl e \<Rightarrow> ((B, h), Inl e)
         | Inr out \<Rightarrow>
             ((B\<lparr>db_containers := (db_containers B)(cid := None)\<rparr>, h),
              if co_code out = 0 \<or> is_no_such_container (co_stderr out) then Inr ()
              else rbind (require out ''remove container'' cid) (\<lambda>_. Inr ())))"

section \<open>Sequences of operations\<close>

datatype docker_op = DockerPrepare sandbox_spec | DockerExec str docker_request | DockerCollect str | DockerTeardown str

fun docker_step :: "docker \<Rightarrow> docker_env \<times> docker_op \<Rightarrow> docker_backend \<times> commands \<Rightarrow> docker_backend \<times> commands" where
  "docker_step d (E, DockerPrepare spec) (B, h) = fst (docker_prepare d E spec B h)"
| "docker_step d (E, DockerExec cid req) (B, h) = (B, fst (docker_exec d E cid req B h))"
| "docker_step d (E, DockerCollect cid) (B, h) = (B, fst (docker_collect d E cid B h))"
| "docker_step d (E, DockerTeardown cid) (B, h) = fst (docker_teardown d E cid B h)"

definition docker_run :: "docker \<Rightarrow> (docker_env \<times> docker_op) list \<Rightarrow> docker_backend \<Rightarrow> docker_backend \<times> commands" where
  "docker_run d ops B = fold (docker_step d) ops (B, [])"

end
