(* ===== verification/Docker_Claims.thy ===== *)
theory Docker_Claims
  imports Sandbox_Docker
begin

text \<open>
  What the \<open>docker\<close> backend promises, whatever the docker command answers: every container it creates is cut
  off from the network and sees only its workspace, and nothing is executed outside of such a container;
  and working directories and changed files are translated consistently.
\<close>

section \<open>Options of the docker command\<close>

text \<open>How \<open>docker create\<close> reads its arguments: options with their values, up to the first other word.\<close>

fun cli_options :: "str list \<Rightarrow> (str \<times> str) list \<times> str list" where
  "cli_options (f # v # rest) =
     (if starts_with f ''-'' then (let (os, r) = cli_options rest in ((f, v) # os, r)) else ([], f # v # rest))"
| "cli_options xs = ([], xs)"

definition bind_mount :: "str \<Rightarrow> str" where
  "bind_mount ws = normalize_windows_path ws @ '':'' @ CONTAINER_WORKSPACE"

definition option_values :: "str \<Rightarrow> (str \<times> str) list \<Rightarrow> str list" where
  "option_values f os = map snd (filter (\<lambda>ov. fst ov = f) os)"

text \<open>A command that creates a container without network, with one mount, without new privileges.\<close>

definition isolated :: "str list \<Rightarrow> str \<Rightarrow> str \<Rightarrow> bool" where
  "isolated args ws img \<longleftrightarrow>
     (case cli_options (tl args) of (os, rest) \<Rightarrow>
        hd args = ''create'' \<and> rest = img # KEEPALIVE_CMD \<and>
        option_values ''--network'' os = [''none''] \<and> option_values ''-v'' os = [bind_mount ws] \<and>
        option_values ''--security-opt'' os = [''no-new-privileges:true''] \<and>
        set (map fst os) \<subseteq> {''--name'', ''--network'', ''-v'', ''--pids-limit'', ''--memory'', ''--cpus'', ''--security-opt'', ''--label''})"

lemma create_args_isolated:
  assumes "\<not> starts_with img ''-''"
  shows "isolated (create_args sc name (bind_mount ws) img lim) ws img"
  using assms
  by (cases "rl_pids lim"; cases "rl_memory lim"; cases "rl_nano_cpus lim")
     (simp_all add: isolated_def create_args_def option_values_def KEEPALIVE_CMD_def starts_with_def)

definition creates :: "str list \<Rightarrow> str \<Rightarrow> str \<Rightarrow> bool" where
  "creates args ws img \<longleftrightarrow> (\<exists>sc name lim. args = create_args sc name (bind_mount ws) img lim)"

section \<open>Histories\<close>

text \<open>A container that a command of the history created for a workspace, and one that was started.\<close>

definition created_in :: "docker \<Rightarrow> commands \<Rightarrow> str \<Rightarrow> str \<Rightarrow> bool" where
  "created_in d h cid ws \<longleftrightarrow> (\<exists>h1 a h2 img out err. h = h1 @ a # h2 \<and> creates a ws img \<and>
     d h1 a = Done (Some 0) out err \<and> trim (from_utf8_lossy out) = cid)"

definition started_in :: "docker \<Rightarrow> commands \<Rightarrow> str \<Rightarrow> bool" where
  "started_in d h cid \<longleftrightarrow> (\<exists>h1 h2 out err. h = h1 @ [''start'', cid] # h2 \<and> d h1 [''start'', cid] = Done (Some 0) out err)"

definition in_workspace :: "str \<Rightarrow> bool" where
  "in_workspace cwd \<longleftrightarrow> cwd = CONTAINER_WORKSPACE \<or> starts_with cwd (CONTAINER_WORKSPACE @ ''/'')"

text \<open>
  A command that may be given after a history: creating an isolated container, executing in a container
  that was created so and started, or looking after one.
\<close>

definition command_ok :: "docker \<Rightarrow> commands \<Rightarrow> str list \<Rightarrow> bool" where
  "command_ok d h a \<longleftrightarrow>
     (\<exists>ws img. creates a ws img \<and> (starts_with img ''-'' \<or> isolated a ws img)) \<or>
     (\<exists>cid cwd spec_env req_env prog args ws. a = exec_args cid cwd (merged_exec_env spec_env req_env) prog args \<and>
        in_workspace cwd \<and> created_in d h cid ws \<and> started_in d h cid) \<or>
     hd a \<in> {''pull'', ''start'', ''stop'', ''rm'', ''diff''}"

fun history_from :: "docker \<Rightarrow> commands \<Rightarrow> commands \<Rightarrow> bool" where
  "history_from d h [] = True"
| "history_from d h (a # as) = (command_ok d h a \<and> history_from d (h @ [a]) as)"

definition history_ok :: "docker \<Rightarrow> commands \<Rightarrow> bool" where
  "history_ok d h = history_from d [] h"

lemma history_from_snoc: "history_from d h (as @ [a]) \<longleftrightarrow> history_from d h as \<and> command_ok d (h @ as) a"
  by (induction as arbitrary: h) simp_all

lemma history_ok_snoc: "history_ok d (h @ [a]) \<longleftrightarrow> history_ok d h \<and> command_ok d h a"
  by (simp add: history_ok_def history_from_snoc)

lemma created_in_snoc: "created_in d h cid ws \<Longrightarrow> created_in d (h @ k) cid ws"
  unfolding created_in_def by (metis append.assoc append_Cons)

lemma started_in_snoc: "started_in d h cid \<Longrightarrow> started_in d (h @ k) cid"
  unfolding started_in_def by (metis append.assoc append_Cons)

text \<open>Running a command adds it to the history; what comes back.\<close>

definition docker_reply :: "docker \<Rightarrow> commands \<Rightarrow> str list \<Rightarrow> nat \<Rightarrow> str \<Rightarrow> writ_error + captured_output" where
  "docker_reply d h a t op = snd (run_ok d a t op h)"

lemma run_ok_eq: "run_ok d a t op h = (h @ [a], docker_reply d h a t op)"
  by (simp add: docker_reply_def run_ok_def run_captured_def)

lemma docker_reply_success: "docker_reply d h a t op = Inr out \<Longrightarrow> co_code out = 0 \<Longrightarrow> d h a = Done (Some 0) (co_stdout out) (co_stderr out)"
  by (auto simp: docker_reply_def run_ok_def run_captured_def result_simps split: cli_result.splits captured.splits option.splits)

lemma manage_ok: "hd a \<in> {''pull'', ''start'', ''stop'', ''rm'', ''diff''} \<Longrightarrow> command_ok d h a"
  by (simp add: command_ok_def)

lemma creates_ok: "creates a ws img \<Longrightarrow> command_ok d h a"
  unfolding command_ok_def creates_def using create_args_isolated by blast

section \<open>Every operation keeps to it\<close>

definition docker_inv :: "docker \<Rightarrow> docker_backend \<times> commands \<Rightarrow> bool" where
  "docker_inv d s \<longleftrightarrow> history_ok d (snd s) \<and>
     (\<forall>cid r. db_containers (fst s) cid = Some r \<longrightarrow> created_in d (snd s) cid (cr_workspace r) \<and> started_in d (snd s) cid)"

lemma create_command_creates: "creates (create_command E B spec ws) ws (image_for B spec)"
  unfolding creates_def create_command_def bind_mount_def by blast

text \<open>The commands of creating a container, and what its success means.\<close>

lemma create_container_history:
  assumes "create_container d a img name h = (h', r)" "creates a ws img" "history_ok d h"
  shows "history_ok d h' \<and> prefix h h' \<and> (case r of Inr cid \<Rightarrow> created_in d h' cid ws | Inl e \<Rightarrow> True)"
proof -
  note c = creates_ok [OF assms(2)]
  let ?pull = "[''pull'', img]"
  have made: "created_in d (h0 @ [a]) (trim (from_utf8_lossy (co_stdout out))) ws"
    if "docker_reply d h0 a t op = Inr out" "co_code out = 0" for h0 out t op
    unfolding created_in_def using assms(2) docker_reply_success [OF that] by blast
  have made3: "created_in d (h @ [a, ?pull, a]) (trim (from_utf8_lossy (co_stdout out))) ws"
    if "docker_reply d (h @ [a, ?pull]) a t op = Inr out" "co_code out = 0" for out t op
    using made [OF that] by simp
  have ok1: "history_ok d (h @ [a])" using assms(3) c by (simp add: history_ok_snoc)
  have ok2: "history_ok d (h @ [a, ?pull])"
    using history_ok_snoc [of d "h @ [a]" ?pull] ok1 manage_ok [of ?pull] by simp
  have ok3: "history_ok d (h @ [a, ?pull, a])"
    using history_ok_snoc [of d "h @ [a, ?pull]" a] ok2 c by simp
  show ?thesis
    using assms(1) ok1 ok2 ok3
    by (auto simp: create_container_def sbind_def run_ok_eq require_def result_simps Let_def
        split: sum.splits if_splits intro: made made3)
qed

lemma start_container_history:
  assumes "start_container d cid rec B h = ((B', h'), r)" "docker_inv d (B, h)" "created_in d h cid (cr_workspace rec)"
  shows "docker_inv d (B', h') \<and> db_containers B' = (db_containers B)(cid := case r of Inr _ \<Rightarrow> Some rec | Inl _ \<Rightarrow> None) \<and>
    (case r of Inr i \<Rightarrow> i = cid \<and> started_in d h' cid | Inl _ \<Rightarrow> last h' = [''rm'', ''-f'', cid])"
proof -
  let ?s = "[''start'', cid]" and ?r = "[''rm'', ''-f'', cid]"
  have h: "history_ok d h" and old: "db_containers B i = Some q \<Longrightarrow> created_in d h i (cr_workspace q) \<and> started_in d h i" for i q
    using assms(2) by (auto simp: docker_inv_def)
  have ok: "history_ok d (h @ [?s])" "history_ok d (h @ [?s, ?r])"
    using h history_ok_snoc [of d h ?s] history_ok_snoc [of d "h @ [?s]" ?r] manage_ok [of ?s] manage_ok [of ?r] by simp_all
  have st: "started_in d (h @ [?s]) cid" if "docker_reply d h ?s t op = Inr out" "co_code out = 0" for t op out
    unfolding started_in_def using docker_reply_success [OF that] by blast
  show ?thesis
  proof (cases "case docker_reply d h ?s DAEMON_CALL_TIMEOUT ''start container'' of Inr out \<Rightarrow> co_code out \<noteq> 0 | Inl _ \<Rightarrow> True")
    case True
    then have e: "B' = B\<lparr>db_containers := (db_containers B)(cid := None)\<rparr>" "h' = h @ [?s, ?r]" "\<exists>e. r = Inl e"
      using assms(1) by (auto simp: start_container_def run_ok_eq Let_def)
    show ?thesis using e ok old by (auto simp: docker_inv_def intro: created_in_snoc started_in_snoc)
  next
    case False
    then have e: "B' = B\<lparr>db_containers := (db_containers B)(cid \<mapsto> rec)\<rparr>" "h' = h @ [?s]" "r = Inr cid"
      using assms(1) by (auto simp: start_container_def run_ok_eq Let_def)
    have "started_in d (h @ [?s]) cid" using False st by (auto split: sum.splits)
    then show ?thesis using e ok old created_in_snoc [OF assms(3)]
      by (auto simp: docker_inv_def intro: created_in_snoc started_in_snoc)
  qed
qed

lemma docker_inv_extend: "docker_inv d (B, h) \<Longrightarrow> prefix h h' \<Longrightarrow> history_ok d h' \<Longrightarrow> docker_inv d (B, h')"
  by (auto simp: docker_inv_def prefix_def intro: created_in_snoc started_in_snoc)

lemma docker_inv_seq [simp]: "docker_inv d (B\<lparr>db_seq := n\<rparr>, h) \<longleftrightarrow> docker_inv d (B, h)"
  by (simp add: docker_inv_def)

lemma image_for_seq [simp]: "image_for (B\<lparr>db_seq := n\<rparr>) spec = image_for B spec"
  by (simp add: image_for_def split: option.splits)

text \<open>Preparing either adds a started container, or leaves the table as it was apart from that container.\<close>

lemma docker_prepare_inv:
  assumes "docker_prepare d E spec B h = ((B', h'), r)" "docker_inv d (B, h)"
  shows "docker_inv d (B', h') \<and>
    (case r of Inr cid \<Rightarrow> \<exists>rec. db_containers B' = (db_containers B)(cid \<mapsto> rec) \<and> sp_hosts spec = []
     | Inl _ \<Rightarrow> db_containers B' = db_containers B \<or> (\<exists>cid. db_containers B' = (db_containers B)(cid := None) \<and> last h' = [''rm'', ''-f'', cid]))"
proof (cases "sp_hosts spec = [] \<and> de_create_dir E (sp_workspace spec) = None")
  case True
  show ?thesis
  proof (cases "de_canonicalize E (sp_workspace spec)")
    case (Inr ws)
    let ?B = "B\<lparr>db_seq := db_seq B + 1\<rparr>" and ?rec = "\<lparr>cr_workspace = ws, cr_env = sp_env spec\<rparr>"
    obtain h1 r1 where c: "create_container d (create_command E B spec ws) (image_for B spec)
        (''writ-sandbox-'' @ show_nat (de_pid E) @ ''-'' @ show_nat (db_seq B + 1)) h = (h1, r1)" by fastforce
    note hc = create_container_history [OF c create_command_creates]
    have inv1: "docker_inv d (?B, h1)" using hc assms(2) docker_inv_extend [of d B h h1] by (auto simp: docker_inv_def)
    show ?thesis
    proof (cases r1)
      case (Inl e)
      then show ?thesis using assms(1) True Inr c inv1 by (auto simp: docker_prepare_def Let_def)
    next
      case (Inr cid)
      with assms(1) True \<open>de_canonicalize E (sp_workspace spec) = Inr ws\<close> c
      have s: "start_container d cid ?rec ?B h1 = ((B', h'), r)" by (simp add: docker_prepare_def Let_def)
      have "created_in d h1 cid (cr_workspace ?rec)" using hc assms(2) Inr by (simp add: docker_inv_def)
      from start_container_history [OF s inv1 this] show ?thesis using True by (cases r) auto
    qed
  qed (use assms True in \<open>auto simp: docker_prepare_def\<close>)
qed (use assms in \<open>auto simp: docker_prepare_def split: option.splits if_splits\<close>)

lemma map_cwd_in_workspace: "map_cwd can ws c = Inr cwd \<Longrightarrow> in_workspace cwd"
  by (auto simp: map_cwd_def in_workspace_def result_simps Let_def starts_with_def split: option.splits if_splits)

lemma docker_exec_inv:
  assumes "docker_inv d (B, h)"
  shows "docker_inv d (B, fst (docker_exec d E cid req B h))"
proof (cases "rbind (container_of B cid) (\<lambda>rec.
           rbind (map_cwd (de_canonicalize E) (cr_workspace rec) (dr_cwd req)) (\<lambda>cwd. Inr (rec, cwd)))")
  case (Inr rc)
  then obtain rec cwd where rc: "rc = (rec, cwd)" "db_containers B cid = Some rec" "in_workspace cwd"
    by (auto simp: result_simps container_of_def ok_or_def dest: map_cwd_in_workspace split: option.splits)
  let ?a = "exec_args cid cwd (merged_exec_env (cr_env rec) (dr_env req)) (dr_program req) (dr_args req)"
  let ?s = "[''stop'', ''-t'', ''0'', cid]"
  have "created_in d h cid (cr_workspace rec)" "started_in d h cid" "history_ok d h" using assms rc(2) by (auto simp: docker_inv_def)
  then have a: "history_ok d (h @ [?a])" unfolding history_ok_snoc command_ok_def using rc(3) by blast
  then have s: "history_ok d (h @ [?a, ?s])" using history_ok_snoc [of d "h @ [?a]" ?s] manage_ok [of ?s] by simp
  have "fst (docker_exec d E cid req B h) \<in> {h @ [?a], h @ [?a, ?s]}"
    using Inr rc(1) by (auto simp: docker_exec_def Let_def sbind_def run_captured_def split: sum.splits captured.splits)
  then show ?thesis using a s docker_inv_extend [OF assms, of "h @ [?a]"] docker_inv_extend [OF assms, of "h @ [?a, ?s]"] by auto
qed (use assms in \<open>simp add: docker_exec_def\<close>)

lemma docker_collect_inv:
  assumes "docker_inv d (B, h)"
  shows "docker_inv d (B, fst (docker_collect d E cid B h))"
proof -
  let ?a = "[''diff'', cid]"
  have "history_ok d (h @ [?a])" using assms manage_ok [of ?a] by (simp add: history_ok_snoc docker_inv_def)
  moreover have "fst (docker_collect d E cid B h) \<in> {h, h @ [?a]}"
    by (auto simp: docker_collect_def run_ok_eq split: sum.splits)
  ultimately show ?thesis using assms docker_inv_extend [OF assms, of "h @ [?a]"] by auto
qed

lemma docker_teardown_inv:
  assumes "docker_inv d (B, h)"
  shows "docker_inv d (fst (docker_teardown d E cid B h))"
proof -
  let ?a = "[''stop'', ''-t'', ''0'', cid]" and ?b = "[''rm'', ''-f'', cid]"
  have h: "history_ok d (h @ [?a, ?b])"
    using assms history_ok_snoc [of d h ?a] history_ok_snoc [of d "h @ [?a]" ?b] manage_ok [of ?a] manage_ok [of ?b]
    by (simp add: docker_inv_def)
  have e: "docker_inv d (B, h @ [?a, ?b])" using docker_inv_extend [OF assms _ h] by simp
  then show ?thesis by (auto simp: docker_teardown_def run_ok_eq docker_inv_def split: sum.splits)
qed

lemma docker_step_inv: "docker_inv d s \<Longrightarrow> docker_inv d (docker_step d op s)"
proof (cases op)
  case (Pair E o')
  assume i: "docker_inv d s"
  obtain B h where s: "s = (B, h)" by fastforce
  show ?thesis
  proof (cases o')
    case (DockerPrepare spec)
    obtain B' h' r where p: "docker_prepare d E spec B h = ((B', h'), r)" by (metis surj_pair)
    show ?thesis using docker_prepare_inv [OF p] i s Pair DockerPrepare p by simp
  qed (use i s Pair docker_exec_inv docker_collect_inv docker_teardown_inv in \<open>simp_all\<close>)
qed


section \<open>Paths\<close>

lemma replace_char_other: "c \<notin> set s \<Longrightarrow> replace_char c r s = s"
  by (induction s) (auto simp: replace_char_def)

text \<open>
  C34. Paths translate back: a working directory of the host (without backslashes), as the container sees
  it, is translated back to itself when the container reports a change there.
\<close>

theorem docker_paths_roundtrip:
  assumes "canonical_path ws" "can cwd = Inr t" "canonical_path t" "CHR 0x5C \<notin> set t"
    and "map_cwd can ws (Some cwd) = Inr c"
  shows "map_container_path ws c = t"
proof -
  from assms(2,5) obtain r where r: "path_strip_prefix t ws = Some r"
    and c: "c = (let rel = replace_char CHR 0x5C ''/'' r in if rel = [] then CONTAINER_WORKSPACE else CONTAINER_WORKSPACE @ ''/'' @ rel)"
    by (auto simp: map_cwd_def Let_def split: option.splits)
  obtain cs ds where n: "list_all normal cs" "list_all normal ds" and td: "t = path_of cs" "ws = path_of ds"
    using assms(1,3) by (auto simp: canonical_path_def)
  show ?thesis
  proof (cases "r = []")
    case True
    then obtain es where "cs = ds @ es" "join ''/'' es = []"
      using r n td by (auto simp: path_strip_prefix_def path_starts_with_def prefix_def split: if_splits)
    moreover from this have "es = []" using n(1) by (cases es; cases "tl es") (auto simp: normal_def neq_Nil_conv)
    ultimately show ?thesis using True c td by (simp add: map_container_path_def replace_char_def)
  next
    case False
    have j: "join_path ws r = t" using join_strip_prefix [OF assms(3,1) r False] .
    then have "CHR 0x5C \<notin> set r" using assms(4) by (auto simp: join_path_def split: if_splits)
    then have "c = CONTAINER_WORKSPACE @ ''/'' @ r" using c False by (simp add: replace_char_other)
    then show ?thesis using j by (simp add: map_container_path_def strip_prefix_def starts_with_def)
  qed
qed

lemma canonical_w: "canonical_path ''/w''" "canonical_path ''/w/a''"
  unfolding canonical_path_def
  by (rule exI [of _ "[''w'']"], simp add: path_of_def normal_def) (rule exI [of _ "[''w'', ''a'']"], simp add: path_of_def normal_def)

lemma map_cwd_example: "map_cwd (\<lambda>_. Inr ''/w/a'') ''/w'' (Some ''a'') = Inr ''/workspace/a''"
  by (simp add: map_cwd_def path_strip_prefix_def path_starts_with_def components_def is_absolute_def starts_with_def
      replace_char_def CONTAINER_WORKSPACE_def)

theorem docker_paths_roundtrip_witness:
  "map_cwd (\<lambda>_. Inr ''/w/a'') ''/w'' (Some ''a'') = Inr ''/workspace/a'' \<and> map_container_path ''/w'' ''/workspace/a'' = ''/w/a''"
  using map_cwd_example docker_paths_roundtrip [OF canonical_w(1) _ canonical_w(2) _ map_cwd_example] by simp

text \<open>A backslash in the name of a directory is taken for a separator, so another directory is used.\<close>

lemma backslash_directory: "map_cwd (\<lambda>_. Inr (''/w/a'' @ [CHR 0x5C] @ ''b'')) ''/w'' (Some c) = Inr ''/workspace/a/b''"
  by (simp add: map_cwd_def path_strip_prefix_def path_starts_with_def components_def is_absolute_def starts_with_def
      replace_char_def CONTAINER_WORKSPACE_def)

section \<open>Where the backend falls short\<close>

text \<open>The docker command marks changes by the letters A, C and D; such lines are dropped.\<close>

lemma diff_letters_ignored: "changed_files (''C /workspace'' @ [nl] @ ''A /workspace/new'' @ [nl]) ws = []"
  by (simp add: changed_files_def str_lines_def strip_cr_def parse_diff_path_def starts_with_def Let_def List.map_filter_def)

text \<open>A container that fails to start is reported as one that timed out.\<close>

lemma failed_start_reported_as_timeout:
  "snd (start_container (\<lambda>_ _. Done (Some 1) [] ''no space left'') cid rec B h) =
     Inl (SandboxErr ''docker start container timed out'')"
  by (simp add: start_container_def run_ok_def run_captured_def Let_def)

text \<open>An image whose name begins with a dash, which \<open>WRIT_DOCKER_IMAGE\<close> may hold, is read as an option.\<close>

lemma image_read_as_option: "\<not> isolated (create_args sc name (bind_mount ws) ''--pid=host'' default_resource_limits) ws ''--pid=host''"
  by (simp add: isolated_def create_args_def KEEPALIVE_CMD_def starts_with_def default_resource_limits_def)

end
