(* ===== verification/Sandbox_Linux.thy ===== *)
theory Sandbox_Linux
  imports Sandbox_Plan
begin

unbundle bit_operations_syntax

text \<open>
  \<open>writ-sandbox/src/linux.rs\<close>: what the Linux kernel can enforce, the Landlock rules and the seccomp
  filters of a confined child, and the system calls that apply them between \<open>fork\<close> and \<open>exec\<close>.  The
  numbers of the C library, the results of the kernel's probes and calls, and the compiler of filters
  (\<open>seccompiler\<close>) are parameters.
\<close>

section \<open>Capabilities\<close>

datatype target_arch = X86_64 | Aarch64 | Riscv64

definition MAX_ABI :: int where "MAX_ABI = 6"

text \<open>The probed Landlock ABI (0 when there is none), whether filters are supported, the architecture.\<close>

record kernel_probe =
  kp_abi :: int
  kp_seccomp :: bool
  kp_arch :: "target_arch option"
  kp_arch_name :: str

definition linux_capabilities :: "kernel_probe \<Rightarrow> capabilities" where
  "linux_capabilities k =
     \<lparr>cap_filesystem =
        (if kp_abi k \<le> 0 then SUnavailable
           (''Landlock is not available in this kernel (needs Linux >= 5.13 built with ''
            @ ''CONFIG_SECURITY_LANDLOCK=y and `landlock` in the active LSM list)'')
         else if kp_abi k = 1 \<or> kp_abi k = 2 then SPartial
           (''Landlock ABI v'' @ show_int (kp_abi k) @ '' cannot restrict truncate(2): an existing file outside the ''
            @ ''workspace could be truncated (needs ABI v3, Linux >= 6.2)'')
         else SFull),
      cap_network =
        (if kp_arch k = None then SUnavailable (''no seccomp filter is built for the '' @ kp_arch_name k @ '' architecture'')
         else if \<not> kp_seccomp k then SUnavailable
           ''seccomp-bpf filtering is not available in this kernel (CONFIG_SECCOMP_FILTER)''
         else SFull),
      cap_mechanism =
        (if kp_abi k > 0
         then ''Landlock ABI v'' @ show_int (min (kp_abi k) MAX_ABI) @ '' (filesystem writes) + seccomp-bpf (socket creation)''
         else ''Landlock (unavailable) + seccomp-bpf (socket creation)'')\<rparr>"

definition V9FS_MAGIC :: int where "V9FS_MAGIC = 0x01021997"

text \<open>Refusing workspaces on 9p; \<open>None\<close> when \<open>statfs\<close> fails.\<close>

definition check_workspace_fs :: "(str \<Rightarrow> int option) \<Rightarrow> str \<Rightarrow> writ_error + unit" where
  "check_workspace_fs statfs ws =
     (if CHR 0x00 \<in> set ws then Inl (SandboxErr (''workspace '' @ ws @ '' contains NUL (fail closed)''))
      else if statfs ws = Some V9FS_MAGIC then Inl (SandboxErr
        (''workspace '' @ ws @ '' is on a 9p filesystem (e.g. WSL2'' @ [CHR 0x27] @ ''s /mnt/c drvfs) where Landlock ''
         @ ''rules cannot match inodes, so every write inside it would be denied; place the ''
         @ ''workspace on a Linux filesystem (ext4/btrfs/tmpfs, e.g. under /home or /tmp)''))
      else Inr ())"

section \<open>Landlock rules\<close>

definition WRITABLE_DEVICES :: "str list" where
  "WRITABLE_DEVICES = [''/dev/null'', ''/dev/zero'', ''/dev/full'']"

definition INTERACTIVE_DEVICES :: "str list" where
  "INTERACTIVE_DEVICES = [''/dev/null'', ''/dev/zero'', ''/dev/full'', ''/dev/tty'', ''/dev/ptmx'']"

definition INTERACTIVE_DEVICE_DIRS :: "str list" where
  "INTERACTIVE_DEVICE_DIRS = [''/dev/pts'', ''/dev/shm'']"

text \<open>All the write rights of the ABI, or those that a rule on a file may carry.\<close>

datatype rights = AllWrites | FileWrites

record ruleset =
  rs_abi :: int
  rs_scoped :: bool
  rs_rules :: "(str \<times> rights) list"

text \<open>What building a ruleset meets: errors of the calls, which paths open and which are directories.\<close>

record landlock_env =
  ll_abi :: int
  ll_handle :: "str option"
  ll_scope :: "str option"
  ll_create :: "str option"
  ll_open :: "str \<Rightarrow> str option"
  ll_is_dir :: "str \<Rightarrow> bool"
  ll_add :: "str \<Rightarrow> str option"
  ll_fd :: bool

definition ll_err :: "str \<Rightarrow> writ_error" where
  "ll_err e = SandboxErr (''landlock ruleset construction failed (fail closed): '' @ e)"

definition check_ll :: "str option \<Rightarrow> writ_error + unit" where
  "check_ll e = (case e of None \<Rightarrow> Inr () | Some m \<Rightarrow> Inl (ll_err m))"

text \<open>A path of the writable set must open.\<close>

definition writable_rule :: "landlock_env \<Rightarrow> str \<Rightarrow> writ_error + str \<times> rights" where
  "writable_rule E p =
     (case ll_open E p of
        Some e \<Rightarrow> Inl (SandboxErr (''cannot open '' @ p @ '' for the Landlock rule (fail closed): '' @ e))
      | None \<Rightarrow> rbind (check_ll (ll_add E p)) (\<lambda>_. Inr (p, if ll_is_dir E p then AllWrites else FileWrites)))"

text \<open>A device that does not open is left out.\<close>

definition device_rule :: "landlock_env \<Rightarrow> rights \<Rightarrow> str \<Rightarrow> writ_error + (str \<times> rights) list" where
  "device_rule E r p =
     (case ll_open E p of Some _ \<Rightarrow> Inr [] | None \<Rightarrow> rbind (check_ll (ll_add E p)) (\<lambda>_. Inr [(p, r)]))"

definition device_dir_rule :: "landlock_env \<Rightarrow> str \<Rightarrow> writ_error + (str \<times> rights) list" where
  "device_dir_rule E p = (if ll_is_dir E p then device_rule E AllWrites p else Inr [])"

definition build_ruleset :: "landlock_env \<Rightarrow> str list \<Rightarrow> str list \<Rightarrow> str list \<Rightarrow> writ_error + ruleset" where
  "build_ruleset E writable devices device_dirs =
     (let abi = min (ll_abi E) MAX_ABI in
      if abi \<le> 0 then Inl (SandboxErr ''Landlock is not available in this kernel (fail closed)'')
      else
        rbind (check_ll (ll_handle E)) (\<lambda>_.
        rbind (if abi \<ge> 6 then check_ll (ll_scope E) else Inr ()) (\<lambda>_.
        rbind (check_ll (ll_create E)) (\<lambda>_.
        rbind (collect_results (writable_rule E) writable) (\<lambda>ws.
        rbind (collect_results (device_rule E FileWrites) devices) (\<lambda>ds.
        rbind (collect_results (device_dir_rule E) device_dirs) (\<lambda>dds.
          if ll_fd E then Inr \<lparr>rs_abi = abi, rs_scoped = (abi \<ge> 6), rs_rules = ws @ concat ds @ concat dds\<rparr>
          else Inl (ll_err ''the kernel returned no ruleset fd''))))))))"

section \<open>Seccomp filters\<close>

text \<open>The rules as \<open>seccompiler\<close> takes them: a list of rules per system call, each a list of conditions.\<close>

datatype cmp_len = Dword | Qword
datatype cmp_op = CmpEq | CmpNe

record condition =
  sc_arg :: nat
  sc_len :: cmp_len
  sc_op :: cmp_op
  sc_value :: "64 word"

datatype seccomp_action = Permit | Errno "32 word" | KillProcess

type_synonym seccomp_rules = "int \<Rightarrow> condition list list option"

record seccomp_filter =
  sf_rules :: seccomp_rules
  sf_mismatch :: seccomp_action
  sf_match :: seccomp_action
  sf_arch :: target_arch

record libc =
  lc_socket :: int
  lc_socketpair :: int
  lc_io_uring_setup :: int
  lc_AF_UNIX :: "64 word"
  lc_AF_INET :: "64 word"
  lc_AF_INET6 :: "64 word"
  lc_AF_NETLINK :: "64 word"
  lc_EPERM :: "32 word"

definition X32 :: int where "X32 = 0x40000000"

definition family_not :: "64 word \<Rightarrow> condition" where
  "family_not f = \<lparr>sc_arg = 0, sc_len = Dword, sc_op = CmpNe, sc_value = f\<rparr>"

text \<open>The x32 variants of the three calls, on x86-64 only.\<close>

definition deny_x32 :: "libc \<Rightarrow> target_arch \<Rightarrow> seccomp_rules \<Rightarrow> seccomp_rules" where
  "deny_x32 C arch rs =
     (if arch = X86_64
      then rs(X32 OR lc_socket C \<mapsto> [], X32 OR lc_socketpair C \<mapsto> [], X32 OR lc_io_uring_setup C \<mapsto> [])
      else rs)"

definition network_filter :: "libc \<Rightarrow> target_arch \<Rightarrow> seccomp_filter" where
  "network_filter C arch =
     \<lparr>sf_rules = deny_x32 C arch
        [lc_socket C \<mapsto> [], lc_socketpair C \<mapsto> [[family_not (lc_AF_UNIX C)]], lc_io_uring_setup C \<mapsto> []],
      sf_mismatch = Permit, sf_match = Errno (lc_EPERM C), sf_arch = arch\<rparr>"

definition other_family :: "libc \<Rightarrow> condition list list" where
  "other_family C = [map family_not [lc_AF_UNIX C, lc_AF_INET C, lc_AF_INET6 C, lc_AF_NETLINK C]]"

definition open_network_filter :: "libc \<Rightarrow> target_arch \<Rightarrow> seccomp_filter" where
  "open_network_filter C arch =
     \<lparr>sf_rules = deny_x32 C arch
        [lc_socket C \<mapsto> other_family C, lc_socketpair C \<mapsto> other_family C, lc_io_uring_setup C \<mapsto> []],
      sf_mismatch = Permit, sf_match = Errno (lc_EPERM C), sf_arch = arch\<rparr>"

datatype net_filter = NoFilter | DenyAll | OpenHardened

text \<open>Filters are compiled by \<open>seccompiler\<close>, which may fail; there is none for other architectures.\<close>

definition build_filter ::
  "(seccomp_filter \<Rightarrow> str + 'bpf) \<Rightarrow> kernel_probe \<Rightarrow> (target_arch \<Rightarrow> seccomp_filter) \<Rightarrow> writ_error + 'bpf" where
  "build_filter cmp k flt =
     (case kp_arch k of
        None \<Rightarrow> Inl (SandboxErr (''no seccomp filter for architecture '' @ kp_arch_name k @ '' (fail closed)''))
      | Some arch \<Rightarrow> map_err (\<lambda>e. SandboxErr (''seccomp filter construction failed (fail closed): '' @ e)) (cmp (flt arch)))"

section \<open>Confinement of a child\<close>

record 'bpf confinement =
  cf_ruleset :: "ruleset option"
  cf_bpf :: "'bpf option"

record 'bpf linux_env =
  lx_probe :: kernel_probe
  lx_landlock :: landlock_env
  lx_libc :: libc
  lx_compile :: "seccomp_filter \<Rightarrow> str + 'bpf"

definition build_with :: "'bpf linux_env \<Rightarrow> str list \<Rightarrow> str list \<Rightarrow> str list \<Rightarrow> bool \<Rightarrow> net_filter \<Rightarrow>
    writ_error + 'bpf confinement" where
  "build_with X writable devices device_dirs confine_fs nf =
     rbind (if confine_fs then rbind (build_ruleset (lx_landlock X) writable devices device_dirs) (\<lambda>r. Inr (Some r))
            else Inr None) (\<lambda>rs.
     rbind (case nf of
              NoFilter \<Rightarrow> Inr None
            | DenyAll \<Rightarrow> rbind (build_filter (lx_compile X) (lx_probe X) (network_filter (lx_libc X))) (\<lambda>b. Inr (Some b))
            | OpenHardened \<Rightarrow>
                rbind (build_filter (lx_compile X) (lx_probe X) (open_network_filter (lx_libc X))) (\<lambda>b. Inr (Some b)))
       (\<lambda>bpf. Inr \<lparr>cf_ruleset = rs, cf_bpf = bpf\<rparr>))"

definition confinement_build :: "'bpf linux_env \<Rightarrow> str list \<Rightarrow> bool \<Rightarrow> bool \<Rightarrow> writ_error + 'bpf confinement" where
  "confinement_build X writable confine_fs deny_network =
     build_with X writable WRITABLE_DEVICES [] confine_fs (if deny_network then DenyAll else NoFilter)"

definition build_interactive :: "'bpf linux_env \<Rightarrow> str list \<Rightarrow> bool \<Rightarrow> net_filter \<Rightarrow> writ_error + 'bpf confinement" where
  "build_interactive X writable confine_fs nf =
     build_with X writable INTERACTIVE_DEVICES INTERACTIVE_DEVICE_DIRS confine_fs nf"

text \<open>The system calls that the forked child issues, and the error that one of them returns.\<close>

datatype 'bpf child_call = NoNewPrivs | RestrictSelf ruleset | SetFilter 'bpf

fun child_calls :: "('bpf child_call \<Rightarrow> str option) \<Rightarrow> 'bpf child_call list \<Rightarrow> str + unit" where
  "child_calls krn [] = Inr ()"
| "child_calls krn (c # cs) = (case krn c of Some e \<Rightarrow> Inl e | None \<Rightarrow> child_calls krn cs)"

definition apply_in_child :: "'bpf confinement \<Rightarrow> 'bpf child_call list" where
  "apply_in_child c =
     NoNewPrivs # (case cf_ruleset c of None \<Rightarrow> [] | Some r \<Rightarrow> [RestrictSelf r])
       @ (case cf_bpf c of None \<Rightarrow> [] | Some b \<Rightarrow> [SetFilter b])"

section \<open>What the filters do\<close>

text \<open>
  How \<open>seccompiler\<close> documents a filter: calls of another architecture kill the process; a call without
  rules gets the mismatch action; an empty list of rules matches always; otherwise some rule must have
  all its conditions hold.  A \<open>Dword\<close> condition looks at the low 32 bits of the argument.
\<close>

definition cond_holds :: "condition \<Rightarrow> (nat \<Rightarrow> 64 word) \<Rightarrow> bool" where
  "cond_holds c args =
     (let eq = (case sc_len c of Dword \<Rightarrow> (ucast (args (sc_arg c)) :: 32 word) = ucast (sc_value c)
                               | Qword \<Rightarrow> args (sc_arg c) = sc_value c)
      in case sc_op c of CmpEq \<Rightarrow> eq | CmpNe \<Rightarrow> \<not> eq)"

definition filter_action :: "seccomp_filter \<Rightarrow> target_arch option \<Rightarrow> int \<Rightarrow> (nat \<Rightarrow> 64 word) \<Rightarrow> seccomp_action" where
  "filter_action f arch nr args =
     (if arch \<noteq> Some (sf_arch f) then KillProcess
      else case sf_rules f nr of
        None \<Rightarrow> sf_mismatch f
      | Some rs \<Rightarrow> if rs = [] \<or> list_ex (list_all (\<lambda>c. cond_holds c args)) rs then sf_match f else sf_mismatch f)"

type_synonym 'bpf run_filter = "'bpf \<Rightarrow> target_arch option \<Rightarrow> int \<Rightarrow> (nat \<Rightarrow> 64 word) \<Rightarrow> seccomp_action"

definition seccomp_laws :: "(seccomp_filter \<Rightarrow> str + 'bpf) \<Rightarrow> 'bpf run_filter \<Rightarrow> bool" where
  "seccomp_laws cmp run \<longleftrightarrow> (\<forall>f b. cmp f = Inr b \<longrightarrow> run b = filter_action f)"

text \<open>What is relied on of the constants: different calls have different numbers, below the x32 bit.\<close>

definition libc_ok :: "libc \<Rightarrow> bool" where
  "libc_ok C \<longleftrightarrow> distinct [lc_socket C, lc_socketpair C, lc_io_uring_setup C] \<and>
     list_all (\<lambda>n. 0 \<le> n \<and> n < X32) [lc_socket C, lc_socketpair C, lc_io_uring_setup C]"

lemma x32_above: "0 \<le> n \<Longrightarrow> X32 \<le> X32 OR n"
  by (rule or_greater_eq)

lemma build_filter_Some: "build_filter cmp k flt = Inr b \<Longrightarrow> \<exists>arch. kp_arch k = Some arch \<and> cmp (flt arch) = Inr b"
  by (cases "kp_arch k") (auto simp: build_filter_def map_err_def split: sum.splits)

definition same_family :: "64 word \<Rightarrow> (nat \<Rightarrow> 64 word) \<Rightarrow> bool" where
  "same_family f args \<longleftrightarrow> (ucast (args 0) :: 32 word) = ucast f"

lemma cond_holds_family [simp]: "cond_holds (family_not f) args \<longleftrightarrow> \<not> same_family f args"
  by (simp add: cond_holds_def family_not_def same_family_def)

definition x32_calls :: "libc \<Rightarrow> target_arch \<Rightarrow> int set" where
  "x32_calls C arch = (if arch = X86_64 then {X32 OR lc_socket C, X32 OR lc_socketpair C, X32 OR lc_io_uring_setup C} else {})"

lemma deny_x32_rules: "deny_x32 C arch rs nr = (if nr \<in> x32_calls C arch then Some [] else rs nr)"
  by (auto simp: deny_x32_def x32_calls_def)

lemma x32_calls_new: "libc_ok C \<Longrightarrow> nr < X32 \<Longrightarrow> nr \<notin> x32_calls C arch"
  using x32_above [of "lc_socket C"] x32_above [of "lc_socketpair C"] x32_above [of "lc_io_uring_setup C"]
  by (auto simp: libc_ok_def x32_calls_def)

text \<open>Exactly what a child without network may not call.\<close>

lemma network_filter_exact:
  assumes "libc_ok C"
  shows "filter_action (network_filter C arch) (Some arch) nr args =
    (if nr = lc_socket C \<or> nr = lc_io_uring_setup C \<or> nr \<in> x32_calls C arch \<or>
        (nr = lc_socketpair C \<and> \<not> same_family (lc_AF_UNIX C) args)
     then Errno (lc_EPERM C) else Permit)"
  using assms x32_calls_new [OF assms, of "lc_socketpair C" arch]
  by (auto simp: filter_action_def network_filter_def deny_x32_rules libc_ok_def)

lemma open_network_filter_exact:
  assumes "libc_ok C"
  shows "filter_action (open_network_filter C arch) (Some arch) nr args =
    (if nr = lc_io_uring_setup C \<or> nr \<in> x32_calls C arch \<or>
        (nr \<in> {lc_socket C, lc_socketpair C} \<and>
         list_all (\<lambda>f. \<not> same_family f args) [lc_AF_UNIX C, lc_AF_INET C, lc_AF_INET6 C, lc_AF_NETLINK C])
     then Errno (lc_EPERM C) else Permit)"
  using assms x32_calls_new [OF assms, of "lc_socketpair C" arch] x32_calls_new [OF assms, of "lc_socket C" arch]
  by (auto simp: filter_action_def open_network_filter_def other_family_def deny_x32_rules libc_ok_def)

lemma foreign_calls_killed: "a \<noteq> Some (sf_arch f) \<Longrightarrow> filter_action f a nr args = KillProcess"
  by (simp add: filter_action_def)

section \<open>What the rules grant\<close>

lemma check_ll_Inr [simp]: "check_ll e = Inr () \<longleftrightarrow> e = None"
  by (simp add: check_ll_def split: option.splits)

lemma writable_rule_Inr: "writable_rule E p = Inr x \<longleftrightarrow>
    ll_open E p = None \<and> ll_add E p = None \<and> x = (p, if ll_is_dir E p then AllWrites else FileWrites)"
  by (auto simp: writable_rule_def result_simps split: option.splits)

lemma device_rule_Inr: "device_rule E r p = Inr xs \<Longrightarrow> set xs \<subseteq> {(p, r)}"
  by (auto simp: device_rule_def result_simps split: option.splits)

lemma device_dir_rule_Inr: "device_dir_rule E p = Inr xs \<Longrightarrow> set xs \<subseteq> {(p, AllWrites)}"
  using device_rule_Inr [of E AllWrites p xs] by (auto simp: device_dir_rule_def split: if_splits)

lemma collect_concat:
  assumes "collect_results f xs = Inr yss" and "\<And>x ys. x \<in> set xs \<Longrightarrow> f x = Inr ys \<Longrightarrow> set ys \<subseteq> {(x, r)}"
  shows "set (concat yss) \<subseteq> set xs \<times> {r}"
  using assms by (induction xs arbitrary: yss) (fastforce simp: result_simps)+

text \<open>Every path of the writable set has its rule, and everything else is a device.\<close>

lemma build_ruleset_rules:
  assumes "build_ruleset E writable devices dirs = Inr r"
  obtains rest where
    "rs_rules r = map (\<lambda>p. (p, if ll_is_dir E p then AllWrites else FileWrites)) writable @ rest"
    "set rest \<subseteq> set devices \<times> {FileWrites} \<union> set dirs \<times> {AllWrites}" "0 < rs_abi r" "list_all (\<lambda>p. ll_open E p = None) writable"
proof -
  from assms obtain ws ds dds where
    c: "collect_results (writable_rule E) writable = Inr ws" "collect_results (device_rule E FileWrites) devices = Inr ds"
       "collect_results (device_dir_rule E) dirs = Inr dds"
    and r: "rs_rules r = ws @ concat ds @ concat dds" "0 < rs_abi r"
    by (auto simp: build_ruleset_def MAX_ABI_def Let_def result_simps split: if_splits)
  have "ws = map (\<lambda>p. (p, if ll_is_dir E p then AllWrites else FileWrites)) writable \<and> list_all (\<lambda>p. ll_open E p = None) writable"
    using c(1) by (induction writable arbitrary: ws) (auto simp: result_simps writable_rule_Inr)
  moreover have "set (concat ds) \<subseteq> set devices \<times> {FileWrites}" using c(2) device_rule_Inr by (rule collect_concat)
  moreover have "set (concat dds) \<subseteq> set dirs \<times> {AllWrites}" using c(3) device_dir_rule_Inr by (rule collect_concat)
  ultimately show ?thesis using that [of "concat ds @ concat dds"] r by auto
qed

text \<open>A child that starts has applied everything, privileges given up first.\<close>

lemma child_calls_ok: "child_calls krn cs = Inr () \<longleftrightarrow> list_all (\<lambda>c. krn c = None) cs"
  by (induction cs) (auto split: option.splits)

lemma build_with_Inr:
  assumes "build_with X writable devices dirs fs nf = Inr c"
  shows "fs \<Longrightarrow> \<exists>r. cf_ruleset c = Some r \<and> build_ruleset (lx_landlock X) writable devices dirs = Inr r"
    and "nf = DenyAll \<Longrightarrow> \<exists>b. cf_bpf c = Some b \<and> build_filter (lx_compile X) (lx_probe X) (network_filter (lx_libc X)) = Inr b"
    and "nf = OpenHardened \<Longrightarrow> \<exists>b. cf_bpf c = Some b \<and> build_filter (lx_compile X) (lx_probe X) (open_network_filter (lx_libc X)) = Inr b"
  using assms by (auto simp: build_with_def result_simps split: net_filter.splits if_splits)

end
