(* ===== verification/Sandbox_Local.thy ===== *)
theory Sandbox_Local
  imports Sandbox_Linux Unix_Path Btree
begin

text \<open>
  \<open>writ-sandbox/src/local_os.rs\<close> on Linux: the \<open>local-os\<close> backend, its prepared sandboxes, and the processes
  it starts in them.  The file system, the variables of writ's environment, the kernel and what a started
  program does are parameters of each operation; what an operation does to the system is a list of effects.
\<close>

section \<open>State and effects\<close>

record prepared =
  pp_spec :: sandbox_spec
  pp_workspace :: str
  pp_temp :: str
  pp_owns_temp :: bool
  pp_report :: enforcement_report

record local_backend =
  lb_sandboxes :: "str \<Rightarrow> prepared option"
  lb_mode :: enforcement_mode

definition with_mode :: "enforcement_mode \<Rightarrow> local_backend" where
  "with_mode mode = \<lparr>lb_sandboxes = Map.empty, lb_mode = mode\<rparr>"

definition new_backend :: local_backend where
  "new_backend = with_mode Required"

text \<open>A process that has been started: the environment is all it gets, its own process group.\<close>

record 'bpf process =
  pc_program :: str
  pc_args :: "str list"
  pc_env :: "(str \<times> str) list"
  pc_cwd :: str
  pc_confinement :: "'bpf confinement option"

datatype 'bpf local_effect = CreateDirs str | RemoveTree str | Started "'bpf process" | KilledGroup

definition unknown_sandbox :: "str \<Rightarrow> writ_error" where
  "unknown_sandbox i = SandboxErr (''unknown sandbox SandboxId('' @ [CHR 0x22] @ i @ [CHR 0x22] @ '')'')"

definition canonical :: "(str \<Rightarrow> str + str) \<Rightarrow> str \<Rightarrow> writ_error + str" where
  "canonical canonicalize p =
     map_err (\<lambda>e. SandboxErr (p @ '' not canonicalizable (fail closed): '' @ e)) (canonicalize p)"

section \<open>Preparing\<close>

record prepare_env =
  pe_caps :: capabilities
  pe_create_dir :: "str \<Rightarrow> str option"
  pe_canonicalize :: "str \<Rightarrow> str + str"
  pe_statfs :: "str \<Rightarrow> int option"
  pe_pid :: nat
  pe_next_id :: nat
  pe_temp_dir :: str

definition sandbox_id :: "prepare_env \<Rightarrow> str" where
  "sandbox_id E = ''local-'' @ show_nat (pe_pid E) @ ''-'' @ show_nat (pe_next_id E)"

definition create_dirs :: "prepare_env \<Rightarrow> str \<Rightarrow> writ_error + unit" where
  "create_dirs E p = (case pe_create_dir E p of None \<Rightarrow> Inr () | Some e \<Rightarrow> Inl (IoErr e))"

definition overlap :: "str \<Rightarrow> str \<Rightarrow> bool" where
  "overlap a b \<longleftrightarrow> path_starts_with a b \<or> path_starts_with b a"

text \<open>The private temporary directory, which must lie outside of the workspace.\<close>

definition prepare_temp :: "prepare_env \<Rightarrow> sandbox_spec \<Rightarrow> enforcement_report \<Rightarrow> str \<Rightarrow> local_backend \<Rightarrow>
    local_backend \<times> 'bpf local_effect list \<times> (writ_error + str)" where
  "prepare_temp E spec report workspace B =
     (let sid = sandbox_id E; raw = join_path (pe_temp_dir E) (''writ-sbx-'' @ sid @ ''-tmp'')
      in case rbind (create_dirs E raw) (\<lambda>_. canonical (pe_canonicalize E) raw) of
           Inl e \<Rightarrow> (B, [CreateDirs raw], Inl e)
         | Inr temp \<Rightarrow>
             if overlap temp workspace
             then (B, [CreateDirs raw, RemoveTree temp], Inl (SandboxErr ''workspace and private temp dir overlap (fail closed)''))
             else (B\<lparr>lb_sandboxes := (lb_sandboxes B)(sid \<mapsto>
                     \<lparr>pp_spec = spec, pp_workspace = workspace, pp_temp = temp, pp_owns_temp = True, pp_report = report\<rparr>)\<rparr>,
                   [CreateDirs raw], Inr sid))"

definition prepare :: "prepare_env \<Rightarrow> sandbox_spec \<Rightarrow> local_backend \<Rightarrow>
    local_backend \<times> 'bpf local_effect list \<times> (writ_error + str)" where
  "prepare E spec B =
     (case plan spec (pe_caps E) (lb_mode B) of
        Inl e \<Rightarrow> (B, [], Inl e)
      | Inr report \<Rightarrow>
          (case rbind (create_dirs E (sp_workspace spec)) (\<lambda>_.
                rbind (canonical (pe_canonicalize E) (sp_workspace spec)) (\<lambda>ws.
                rbind (if er_apply_fs report then check_workspace_fs (pe_statfs E) ws else Inr ()) (\<lambda>_. Inr ws))) of
             Inl e \<Rightarrow> (B, [CreateDirs (sp_workspace spec)], Inl e)
           | Inr ws \<Rightarrow>
               (let (B', effs, r) = prepare_temp E spec report ws B in (B', CreateDirs (sp_workspace spec) # effs, r))))"

section \<open>Executing\<close>

record exec_request =
  xr_program :: str
  xr_args :: "str list"
  xr_cwd :: "str option"
  xr_env :: "(str \<times> str) list"
  xr_timeout :: "nat option"

record exec_output =
  xo_stdout :: bytes
  xo_stderr :: bytes
  xo_exit_code :: int
  xo_duration :: nat

text \<open>How a started program ends: its exit code if it has one, or it is still running at the deadline.\<close>

datatype outcome = Exited "int option" bytes bytes nat | StillRunning | WaitFailed str

text \<open>The working directory is resolved twice, when it is checked and when it is used.\<close>

record 'bpf exec_env =
  xe_check :: "str \<Rightarrow> str + str"
  xe_use :: "str \<Rightarrow> str + str"
  xe_vars :: "str \<Rightarrow> str option"
  xe_linux :: "'bpf linux_env"
  xe_krn :: "'bpf child_call \<Rightarrow> str option"
  xe_exec :: "str option"
  xe_outcome :: outcome

definition BASELINE :: "str list" where
  "BASELINE = [''PATH'', ''HOME'', ''LANG'', ''TERM'']"

definition baseline_env :: "(str \<Rightarrow> str option) \<Rightarrow> (str \<times> str) list" where
  "baseline_env vars = List.map_filter (\<lambda>k. map_option (\<lambda>v. (k, v)) (vars k)) BASELINE"

definition TEMP_VARS :: "str list" where
  "TEMP_VARS = [''TMPDIR'']"

definition check_cwd :: "(str \<Rightarrow> str + str) \<Rightarrow> str \<Rightarrow> exec_request \<Rightarrow> writ_error + unit" where
  "check_cwd canonicalize ws req =
     (case xr_cwd req of
        None \<Rightarrow> Inr ()
      | Some cwd \<Rightarrow>
          rbind (map_err (\<lambda>e. SandboxErr (''cwd '' @ cwd @ '' not canonicalizable (fail closed): '' @ e)) (canonicalize cwd))
            (\<lambda>t. if path_starts_with t ws then Inr ()
                 else Inl (SandboxErr (''cwd '' @ t @ '' escapes workspace '' @ ws))))"

definition exec_timed_out :: "nat \<Rightarrow> writ_error" where
  "exec_timed_out ms = SandboxErr (''execution timed out after '' @ show_nat ms @ ''ms and was killed'')"

text \<open>Between \<open>fork\<close> and \<open>exec\<close> the child confines itself; a call that fails makes \<open>spawn\<close> fail.\<close>

definition spawn_child :: "'bpf exec_env \<Rightarrow> 'bpf process \<Rightarrow> str + unit" where
  "spawn_child X p =
     rbind (case pc_confinement p of None \<Rightarrow> Inr () | Some c \<Rightarrow> child_calls (xe_krn X) (apply_in_child c))
       (\<lambda>_. case xe_exec X of None \<Rightarrow> Inr () | Some e \<Rightarrow> Inl e)"

definition exec_unix :: "'bpf exec_env \<Rightarrow> prepared \<Rightarrow> exec_request \<Rightarrow> str \<Rightarrow> (str \<times> str) list \<Rightarrow> nat \<Rightarrow>
    'bpf local_effect list \<times> (writ_error + exec_output)" where
  "exec_unix X p req cwd env timeout =
     (let fs = er_apply_fs (pp_report p); nd = er_apply_net (pp_report p)
      in case (if fs \<or> nd then rbind (confinement_build (xe_linux X) [pp_workspace p, pp_temp p] fs nd) (\<lambda>c. Inr (Some c))
               else Inr None) of
           Inl e \<Rightarrow> ([], Inl e)
         | Inr conf \<Rightarrow>
             (let pr = \<lparr>pc_program = xr_program req, pc_args = xr_args req, pc_env = btree env, pc_cwd = cwd,
                        pc_confinement = conf\<rparr>
              in case spawn_child X pr of
                   Inl e \<Rightarrow> ([], Inl (SandboxErr (''spawn '' @ xr_program req
                     @ '' failed (kernel confinement is applied before exec; fail closed): '' @ e)))
                 | Inr _ \<Rightarrow>
                     (case xe_outcome X of
                        WaitFailed e \<Rightarrow> ([Started pr], Inl (IoErr e))
                      | StillRunning \<Rightarrow> ([Started pr, KilledGroup], Inl (exec_timed_out timeout))
                      | Exited status out err ms \<Rightarrow>
                          ([Started pr], Inr \<lparr>xo_stdout = out, xo_stderr = err,
                             xo_exit_code = (case status of Some n \<Rightarrow> n | None \<Rightarrow> -1), xo_duration = ms\<rparr>))))"

definition exec :: "'bpf exec_env \<Rightarrow> str \<Rightarrow> exec_request \<Rightarrow> local_backend \<Rightarrow>
    'bpf local_effect list \<times> (writ_error + exec_output)" where
  "exec X sid req B =
     (case lb_sandboxes B sid of
        None \<Rightarrow> ([], Inl (unknown_sandbox sid))
      | Some p \<Rightarrow>
          (case rbind (check_cwd (xe_check X) (pp_workspace p) req) (\<lambda>_.
                case xr_cwd req of Some c \<Rightarrow> canonical (xe_use X) c | None \<Rightarrow> Inr (pp_workspace p)) of
             Inl e \<Rightarrow> ([], Inl e)
           | Inr cwd \<Rightarrow>
               exec_unix X p req cwd
                 (baseline_env (xe_vars X) @ map (\<lambda>k. (k, pp_temp p)) TEMP_VARS @ sp_env (pp_spec p) @ xr_env req)
                 (case xr_timeout req of Some n \<Rightarrow> n | None \<Rightarrow> 600000)))"

section \<open>Tearing down\<close>

definition teardown :: "str \<Rightarrow> local_backend \<Rightarrow> local_backend \<times> 'bpf local_effect list" where
  "teardown sid B =
     (case lb_sandboxes B sid of
        None \<Rightarrow> (B, [])
      | Some p \<Rightarrow> (B\<lparr>lb_sandboxes := (lb_sandboxes B)(sid := None)\<rparr>, if pp_owns_temp p then [RemoveTree (pp_temp p)] else []))"

section \<open>Sequences of operations\<close>

datatype 'bpf local_op = Prepare prepare_env sandbox_spec | Exec "'bpf exec_env" str exec_request | Teardown str

fun local_step :: "'bpf local_op \<Rightarrow> local_backend \<Rightarrow> local_backend \<times> 'bpf local_effect list" where
  "local_step (Prepare E spec) B = (let (B', effs, r) = prepare E spec B in (B', effs))"
| "local_step (Exec X sid req) B = (B, fst (exec X sid req B))"
| "local_step (Teardown sid) B = teardown sid B"

fun local_run :: "'bpf local_op list \<Rightarrow> local_backend \<Rightarrow> local_backend \<times> 'bpf local_effect list" where
  "local_run [] B = (B, [])"
| "local_run (o' # ops) B =
     (let (B', effs) = local_step o' B; (B'', effs') = local_run ops B' in (B'', effs @ effs'))"

end
