(* ===== verification/Sandbox_Claims.thy ===== *)
theory Sandbox_Claims
  imports Sandbox_Local
begin

text \<open>
  What the fail-closed \<open>local-os\<close> backend promises: whatever sequence of operations is asked of it, every
  process it starts is confined by the kernel, in an environment of its own.
\<close>

section \<open>Confined processes\<close>

text \<open>The filter lets a child make no socket, except a pair of Unix sockets, and no \<open>io_uring\<close>.\<close>

definition no_network :: "libc \<Rightarrow> 'bpf run_filter \<Rightarrow> 'bpf \<Rightarrow> bool" where
  "no_network C run b \<longleftrightarrow> (\<exists>arch. \<forall>a nr args. run b a nr args =
     (if a \<noteq> Some arch then KillProcess
      else if nr = lc_socket C \<or> nr = lc_io_uring_setup C \<or> nr \<in> x32_calls C arch \<or>
              (nr = lc_socketpair C \<and> \<not> same_family (lc_AF_UNIX C) args)
      then Errno (lc_EPERM C) else Permit))"

definition writes_only :: "str set \<Rightarrow> ruleset \<Rightarrow> bool" where
  "writes_only roots r \<longleftrightarrow> (\<forall>(p, k) \<in> set (rs_rules r). p \<in> roots \<or> p \<in> set WRITABLE_DEVICES \<and> k = FileWrites)"

definition confined :: "libc \<Rightarrow> 'bpf run_filter \<Rightarrow> ('bpf child_call \<Rightarrow> str option) \<Rightarrow> str set \<Rightarrow> 'bpf process \<Rightarrow> bool" where
  "confined C run krn roots pr \<longleftrightarrow> (\<exists>c r b. pc_confinement pr = Some c \<and> c = \<lparr>cf_ruleset = Some r, cf_bpf = Some b\<rparr> \<and>
     apply_in_child c = [NoNewPrivs, RestrictSelf r, SetFilter b] \<and> list_all (\<lambda>k. krn k = None) (apply_in_child c) \<and>
     writes_only roots r \<and> no_network C run b)"

lemma no_network_filter:
  assumes "libc_ok C" "seccomp_laws cmp run" "build_filter cmp k (network_filter C) = Inr b"
  shows "no_network C run b"
proof -
  from build_filter_Some [OF assms(3)] obtain arch where "cmp (network_filter C arch) = Inr b" by blast
  then have "run b = filter_action (network_filter C arch)" using assms(2) by (simp add: seccomp_laws_def)
  then have "run b a nr args = (if a \<noteq> Some arch then KillProcess
      else if nr = lc_socket C \<or> nr = lc_io_uring_setup C \<or> nr \<in> x32_calls C arch \<or>
              (nr = lc_socketpair C \<and> \<not> same_family (lc_AF_UNIX C) args)
      then Errno (lc_EPERM C) else Permit)" for a nr args
    using network_filter_exact [OF assms(1), of arch nr args] foreign_calls_killed [of a "network_filter C arch" nr args]
    by (simp add: network_filter_def)
  then show ?thesis unfolding no_network_def by blast
qed

lemma build_ruleset_writes:
  assumes "build_ruleset E roots WRITABLE_DEVICES [] = Inr r"
  shows "writes_only (set roots) r"
proof -
  obtain rest where "rs_rules r = map (\<lambda>p. (p, if ll_is_dir E p then AllWrites else FileWrites)) roots @ rest"
    "set rest \<subseteq> set WRITABLE_DEVICES \<times> {FileWrites} \<union> set [] \<times> {AllWrites}"
    by (rule build_ruleset_rules [OF assms])
  then show ?thesis by (auto simp: writes_only_def)
qed

text \<open>A sandbox of a fail-closed backend.\<close>

definition sandbox_ok :: "prepared \<Rightarrow> bool" where
  "sandbox_ok p \<longleftrightarrow> er_apply_fs (pp_report p) \<and> er_apply_net (pp_report p) \<and> fully_enforced (pp_report p) \<and>
     sp_hosts (pp_spec p) = [] \<and> \<not> overlap (pp_temp p) (pp_workspace p)"

definition backend_ok :: "local_backend \<Rightarrow> bool" where
  "backend_ok B \<longleftrightarrow> lb_mode B = Required \<and> (\<forall>sid p. lb_sandboxes B sid = Some p \<longrightarrow> sandbox_ok p)"

lemma backend_ok_new: "backend_ok new_backend"
  by (simp add: backend_ok_def new_backend_def with_mode_def)

fun is_started :: "'bpf local_effect \<Rightarrow> bool" where
  "is_started (Started _) = True"
| "is_started _ = False"

lemma none_started: "list_all (\<lambda>e. \<not> is_started e) effs \<Longrightarrow> Started pr \<notin> set effs"
  by (force simp: list_all_iff)

lemma prepare_temp_ok:
  assumes "prepare_temp E spec report ws B = (B', effs, r)" "backend_ok B" "plan spec caps Required = Inr report"
  shows "backend_ok B' \<and> list_all (\<lambda>e. \<not> is_started e) effs"
  using assms(1,2) plan_required_enforced [OF assms(3)] assms(3)
  by (auto simp: prepare_temp_def Let_def backend_ok_def sandbox_ok_def plan_required
      split: sum.splits if_splits)

lemma prepare_ok:
  assumes "prepare E spec B = (B', effs, r)" "backend_ok B"
  shows "backend_ok B' \<and> list_all (\<lambda>e. \<not> is_started e) effs"
proof (cases "plan spec (pe_caps E) (lb_mode B)")
  case (Inr report)
  moreover have "lb_mode B = Required" using assms(2) by (simp add: backend_ok_def)
  ultimately have pl: "plan spec (pe_caps E) Required = Inr report" by simp
  show ?thesis using assms(1) Inr assms(2)
    by (auto simp: prepare_def split: sum.splits prod.splits dest!: prepare_temp_ok [OF _ assms(2) pl])
qed (use assms in \<open>simp add: prepare_def\<close>)

lemma teardown_ok: "teardown sid B = (B', effs) \<Longrightarrow> backend_ok B \<Longrightarrow> backend_ok B' \<and> list_all (\<lambda>e. \<not> is_started e) effs"
  by (auto simp: teardown_def backend_ok_def split: option.splits if_splits)

section \<open>What a started process has\<close>

lemma btree_entries: "(k, v) \<in> set (btree kvs) \<Longrightarrow> (k, v) \<in> set kvs"
proof -
  assume "(k, v) \<in> set (btree kvs)"
  then have "map_of (btree kvs) k = Some v" using btree_sorted [of kvs] by (simp add: sorted_keys_def)
  then show ?thesis by (auto simp: map_of_btree dest: map_of_SomeD)
qed

definition own_env :: "(str \<Rightarrow> str option) \<Rightarrow> str \<Rightarrow> sandbox_spec \<Rightarrow> exec_request \<Rightarrow> (str \<times> str) list \<Rightarrow> bool" where
  "own_env vars temp spec req env \<longleftrightarrow> list_all (\<lambda>(k, v).
     k \<in> set BASELINE \<and> vars k = Some v \<or> k \<in> set TEMP_VARS \<and> v = temp \<or> (k, v) \<in> set (sp_env spec) \<or> (k, v) \<in> set (xr_env req)) env"

lemma baseline_entries: "(k, v) \<in> set (baseline_env vars) \<Longrightarrow> k \<in> set BASELINE \<and> vars k = Some v"
  by (auto simp: baseline_env_def List.map_filter_def)

definition started_ok :: "libc \<Rightarrow> 'bpf run_filter \<Rightarrow> 'bpf exec_env \<Rightarrow> exec_request \<Rightarrow> prepared \<Rightarrow> 'bpf process \<Rightarrow> bool" where
  "started_ok C run X req p pr \<longleftrightarrow>
     pc_program pr = xr_program req \<and> pc_args pr = xr_args req \<and>
     confined C run (xe_krn X) {pp_workspace p, pp_temp p} pr \<and> own_env (xe_vars X) (pp_temp p) (pp_spec p) req (pc_env pr) \<and>
     (xr_cwd req = None \<and> pc_cwd pr = pp_workspace p \<or>
      (\<exists>cwd t. xr_cwd req = Some cwd \<and> xe_check X cwd = Inr t \<and> path_starts_with t (pp_workspace p) \<and> xe_use X cwd = Inr (pc_cwd pr)))"

lemma exec_unix_started:
  assumes "Started pr \<in> set (fst (exec_unix X p req cwd env t))" "sandbox_ok p" "libc_ok C" "seccomp_laws cmp run"
    and "lx_libc (xe_linux X) = C" "lx_compile (xe_linux X) = cmp"
  shows "confined C run (xe_krn X) {pp_workspace p, pp_temp p} pr \<and> pc_env pr = btree env \<and> pc_cwd pr = cwd \<and>
    pc_program pr = xr_program req \<and> pc_args pr = xr_args req"
proof -
  let ?roots = "[pp_workspace p, pp_temp p]"
  have on: "er_apply_fs (pp_report p)" "er_apply_net (pp_report p)" using assms(2) by (simp_all add: sandbox_ok_def)
  from assms(1) on obtain c where c: "confinement_build (xe_linux X) ?roots True True = Inr c"
    and pr: "pr = \<lparr>pc_program = xr_program req, pc_args = xr_args req, pc_env = btree env, pc_cwd = cwd, pc_confinement = Some c\<rparr>"
    and sp: "spawn_child X pr = Inr ()"
    by (auto simp: exec_unix_def Let_def result_simps split: sum.splits outcome.splits)
  note b = c [unfolded confinement_build_def, simplified]
  obtain r where r: "cf_ruleset c = Some r" "build_ruleset (lx_landlock (xe_linux X)) ?roots WRITABLE_DEVICES [] = Inr r"
    using build_with_Inr(1) [OF b] by blast
  obtain f where f: "cf_bpf c = Some f" "build_filter cmp (lx_probe (xe_linux X)) (network_filter C) = Inr f"
    using build_with_Inr(2) [OF b] assms(5,6) by auto
  have "list_all (\<lambda>k. xe_krn X k = None) (apply_in_child c)"
    using sp pr by (auto simp: spawn_child_def result_simps child_calls_ok)
  moreover have "c = \<lparr>cf_ruleset = Some r, cf_bpf = Some f\<rparr>" using r(1) f(1) by (cases c) simp
  moreover have "apply_in_child c = [NoNewPrivs, RestrictSelf r, SetFilter f]" using r(1) f(1) by (simp add: apply_in_child_def)
  moreover have "writes_only {pp_workspace p, pp_temp p} r" using build_ruleset_writes [OF r(2)] by simp
  moreover have "no_network C run f" using assms(3,4) f(2) by (rule no_network_filter)
  ultimately show ?thesis using pr by (auto simp: confined_def)
qed

lemma exec_started:
  assumes "Started pr \<in> set (fst (exec X sid req B))" "backend_ok B" "libc_ok C" "seccomp_laws cmp run"
    and "lx_libc (xe_linux X) = C" "lx_compile (xe_linux X) = cmp"
  shows "\<exists>p. lb_sandboxes B sid = Some p \<and> sandbox_ok p \<and> started_ok C run X req p pr"
proof -
  from assms(1) obtain p cwd t where p: "lb_sandboxes B sid = Some p"
    and cwd: "rbind (check_cwd (xe_check X) (pp_workspace p) req) (\<lambda>_.
                case xr_cwd req of Some c \<Rightarrow> canonical (xe_use X) c | None \<Rightarrow> Inr (pp_workspace p)) = Inr cwd"
    and st: "Started pr \<in> set (fst (exec_unix X p req cwd
               (baseline_env (xe_vars X) @ map (\<lambda>k. (k, pp_temp p)) TEMP_VARS @ sp_env (pp_spec p) @ xr_env req) t))"
    by (auto simp: exec_def split: option.splits sum.splits)
  have ok: "sandbox_ok p" using assms(2) p by (auto simp: backend_ok_def)
  note e = exec_unix_started [OF st ok assms(3-6)]
  have "own_env (xe_vars X) (pp_temp p) (pp_spec p) req (pc_env pr)"
    using e by (auto simp: own_env_def list_all_iff dest!: btree_entries baseline_entries)
  moreover have "xr_cwd req = None \<and> cwd = pp_workspace p \<or>
      (\<exists>c t. xr_cwd req = Some c \<and> xe_check X c = Inr t \<and> path_starts_with t (pp_workspace p) \<and> xe_use X c = Inr cwd)"
    using cwd by (auto simp: check_cwd_def canonical_def result_simps map_err_def split: option.splits sum.splits if_splits)
  ultimately show ?thesis using p ok e by (auto simp: started_ok_def)
qed

fun local_op_ok :: "libc \<Rightarrow> (seccomp_filter \<Rightarrow> str + 'bpf) \<Rightarrow> 'bpf local_op \<Rightarrow> bool" where
  "local_op_ok C cmp (Exec X sid req) \<longleftrightarrow> lx_libc (xe_linux X) = C \<and> lx_compile (xe_linux X) = cmp"
| "local_op_ok C cmp _ = True"

lemma run_started:
  assumes "Started pr \<in> set (snd (local_run ops B))" "backend_ok B" "libc_ok C" "seccomp_laws cmp run"
    and "list_all (local_op_ok C cmp) ops"
  shows "\<exists>X sid req p. Exec X sid req \<in> set ops \<and> sandbox_ok p \<and> started_ok C run X req p pr"
  using assms(1,2,5)
proof (induction ops arbitrary: B)
  case (Cons op ops)
  obtain B' effs where s: "local_step op B = (B', effs)" by fastforce
  have B': "backend_ok B'" using s Cons.prems(2)
    by (cases op) (auto dest: prepare_ok teardown_ok split: prod.splits)
  from Cons.prems(1) s consider "Started pr \<in> set effs" | "Started pr \<in> set (snd (local_run ops B'))"
    by (auto split: prod.splits)
  then show ?case
  proof cases
    case 1
    then obtain X sid req where op: "op = Exec X sid req"
      using s Cons.prems(2)
      by (cases op) (auto dest!: prepare_ok teardown_ok dest: none_started split: prod.splits)
    show ?thesis using exec_started [of pr X sid req B C cmp run] 1 op s Cons.prems(2,3) assms(3,4) by auto
  qed (use Cons.IH [OF _ B'] Cons.prems(3) in auto)
qed simp


section \<open>A witness\<close>

definition wit_libc :: libc where
  "wit_libc = \<lparr>lc_socket = 41, lc_socketpair = 53, lc_io_uring_setup = 425, lc_AF_UNIX = 1, lc_AF_INET = 2,
     lc_AF_INET6 = 10, lc_AF_NETLINK = 16, lc_EPERM = 1\<rparr>"

definition wit_probe :: kernel_probe where
  "wit_probe = \<lparr>kp_abi = 6, kp_seccomp = True, kp_arch = Some X86_64, kp_arch_name = ''x86_64''\<rparr>"

definition wit_linux :: "seccomp_filter linux_env" where
  "wit_linux = \<lparr>lx_probe = wit_probe,
     lx_landlock = \<lparr>ll_abi = 6, ll_handle = None, ll_scope = None, ll_create = None, ll_open = Map.empty,
       ll_is_dir = (\<lambda>p. p = ''/w''), ll_add = Map.empty, ll_fd = True\<rparr>,
     lx_libc = wit_libc, lx_compile = Inr\<rparr>"

definition wit_prepare :: prepare_env where
  "wit_prepare = \<lparr>pe_caps = linux_capabilities wit_probe, pe_create_dir = Map.empty, pe_canonicalize = Inr,
     pe_statfs = Map.empty, pe_pid = 1, pe_next_id = 1, pe_temp_dir = ''/tmp''\<rparr>"

definition wit_exec :: "seccomp_filter exec_env" where
  "wit_exec = \<lparr>xe_check = Inr, xe_use = Inr, xe_vars = [''HOME'' \<mapsto> ''/root''], xe_linux = wit_linux, xe_krn = Map.empty,
     xe_exec = None, xe_outcome = Exited (Some 0) [] [] 1\<rparr>"

definition wit_ops :: "seccomp_filter local_op list" where
  "wit_ops = [Prepare wit_prepare \<lparr>sp_workspace = ''/w'', sp_hosts = [], sp_env = []\<rparr>,
     Exec wit_exec ''local-1-1'' \<lparr>xr_program = ''sh'', xr_args = [], xr_cwd = None, xr_env = [], xr_timeout = None\<rparr>]"

lemma wit_libc_ok: "libc_ok wit_libc"
  by (simp add: libc_ok_def wit_libc_def X32_def)

lemma wit_seccomp: "seccomp_laws Inr filter_action"
  by (simp add: seccomp_laws_def)

lemma wit_ops_ok: "list_all (local_op_ok wit_libc Inr) wit_ops"
  by (simp add: wit_ops_def wit_exec_def wit_linux_def)

lemma wit_overlap: "\<not> overlap ''/tmp/writ-sbx-local-1-1-tmp'' ''/w''"
  by (simp add: overlap_def path_starts_with_def components_def is_absolute_def starts_with_def)

lemma show_one: "show_nat (Suc 0) = ''1''"
  by code_simp

lemmas wit_run_simps = wit_ops_def new_backend_def with_mode_def prepare_def wit_prepare_def plan_def plan_filesystem_def
  plan_network_def linux_capabilities_def wit_probe_def create_dirs_def canonical_def map_err_def check_workspace_fs_def
  V9FS_MAGIC_def prepare_temp_def sandbox_id_def show_one join_path_def is_absolute_def starts_with_def
  wit_overlap exec_def check_cwd_def exec_unix_def confinement_build_def build_with_def wit_exec_def wit_linux_def
  build_ruleset_def MAX_ABI_def writable_rule_def check_ll_def WRITABLE_DEVICES_def device_rule_def build_filter_def
  spawn_child_def apply_in_child_def Let_def

lemma wit_starts: "\<exists>pr. Started pr \<in> set (snd (local_run wit_ops new_backend))"
  by (simp add: wit_run_simps)


section \<open>Working directories\<close>

text \<open>
  The directory that is checked is not the one that is used if the path is changed between the two
  resolutions: here the process starts outside of its workspace.
\<close>

lemma cwd_resolved_twice:
  "\<exists>pr. Started pr \<in> set (snd (local_run
     [hd wit_ops, Exec (wit_exec\<lparr>xe_check := (\<lambda>_. Inr ''/w''), xe_use := (\<lambda>_. Inr ''/etc'')\<rparr>) ''local-1-1''
        \<lparr>xr_program = ''sh'', xr_args = [], xr_cwd = Some ''/w/link'', xr_env = [], xr_timeout = None\<rparr>] new_backend)) \<and>
     pc_cwd pr = ''/etc''"
  by (simp add: wit_run_simps path_starts_with_def)

end
