(* ===== verification/Interactive.thy ===== *)
theory Interactive
  imports Sandbox_Claims Integrate
begin

text \<open>
  \<open>spawn_interactive\<close> of \<open>writ-sandbox/src/interactive.rs\<close> on Linux: an agent started at the user's terminal,
  with the user's environment, inside a boundary that confines its writes; and the report of what holds.
\<close>

section \<open>Profiles and reports\<close>

record run_profile =
  rf_workspace :: str
  rf_writable :: "str list"
  rf_protect :: "str list"
  rf_net :: net_mode
  rf_mode :: run_mode

record interactive_report =
  ir_mode :: run_mode
  ir_net :: net_mode
  ir_filesystem :: level
  ir_network :: level
  ir_mechanism :: str
  ir_writable :: "str list"
  ir_temp_dir :: str
  ir_protected :: "str list"
  ir_protection :: level
  ir_notes :: "str list"

record 'bpf launch_env =
  la_linux :: "'bpf linux_env"
  la_canonicalize :: "str \<Rightarrow> str + str"
  la_is_dir :: "str \<Rightarrow> bool"
  la_create_dir :: "str \<Rightarrow> str option"
  la_statfs :: "str \<Rightarrow> int option"
  la_temp_dir :: str
  la_pid :: nat
  la_seq :: nat
  la_vars :: "(str \<times> str) list"
  la_krn :: "'bpf child_call \<Rightarrow> str option"
  la_exec :: "str option"

text \<open>The parent of a path, and the absolute form of a file that may be absent.\<close>

definition path_render :: "str list \<Rightarrow> str" where
  "path_render cs = (if cs \<noteq> [] \<and> hd cs = ''/'' then ''/'' @ join ''/'' (tl cs) else join ''/'' cs)"

definition path_parent :: "str \<Rightarrow> str option" where
  "path_parent p =
     (let cs = components p in if cs = [] \<or> last cs = ''/'' then None else Some (path_render (butlast cs)))"

definition absolute_file :: "(str \<Rightarrow> str + str) \<Rightarrow> str \<Rightarrow> writ_error + str" where
  "absolute_file canonicalize p =
     (case canonicalize p of
        Inr c \<Rightarrow> Inr c
      | Inl _ \<Rightarrow>
          (case (path_parent p, file_name p) of
             (Some parent, Some name) \<Rightarrow>
               Inr (join_path (case canonicalize parent of Inr c \<Rightarrow> c | Inl _ \<Rightarrow> parent) name)
           | _ \<Rightarrow> Inl (SandboxErr (''protected path '' @ p @ '' has no parent (fail closed)''))))"

definition protection_level :: "str list \<Rightarrow> bool \<Rightarrow> level \<times> str list" where
  "protection_level protected apply_fs =
     (if protected = [] then (Enforced, [])
      else if \<not> apply_fs then (NotEnforced, [])
      else (NotEnforced, [''NOT protected: Landlock cannot exclude a file beneath a writable directory, so the agent can rewrite ''
              @ join '', '' protected]))"

definition dedup_push :: "str list \<Rightarrow> str \<Rightarrow> str list" where
  "dedup_push v p = (if list_ex (same_path p) v then v else v @ [p])"

section \<open>Launching\<close>

text \<open>The writable set: the workspace, the temporary directory, then what the caller adds; each must exist.\<close>

definition canonical_writable :: "(str \<Rightarrow> str + str) \<Rightarrow> str \<Rightarrow> writ_error + str" where
  "canonical_writable canonicalize p =
     map_err (\<lambda>_. SandboxErr (''writable path '' @ p @ '' does not exist (fail closed)'')) (canonical canonicalize p)"

definition writable_set :: "(str \<Rightarrow> str + str) \<Rightarrow> str \<Rightarrow> str \<Rightarrow> str list \<Rightarrow> writ_error + str list" where
  "writable_set canonicalize workspace temp extra =
     rbind (collect_results (canonical_writable canonicalize) extra)
       (\<lambda>cs. Inr (fold (\<lambda>p v. dedup_push v p) cs (dedup_push [workspace] temp)))"

definition net_filter_for :: "run_mode \<Rightarrow> bool \<Rightarrow> bool \<Rightarrow> net_filter option" where
  "net_filter_for mode net_deny seccomp =
     (if mode = Unconfined then None
      else Some (if net_deny then DenyAll else if seccomp then OpenHardened else NoFilter))"

definition interactive_confinement :: "'bpf linux_env \<Rightarrow> str list \<Rightarrow> run_mode \<Rightarrow> launch_plan \<Rightarrow>
    writ_error + 'bpf confinement option" where
  "interactive_confinement X wset mode p =
     (case net_filter_for mode (rp_apply_net p) (kp_seccomp (lx_probe X)) of
        None \<Rightarrow> Inr None
      | Some nf \<Rightarrow> rbind (build_interactive X wset (rp_apply_fs p) nf) (\<lambda>c. Inr (Some c)))"

definition run_child :: "'bpf launch_env \<Rightarrow> 'bpf process \<Rightarrow> str + unit" where
  "run_child E p =
     rbind (case pc_confinement p of None \<Rightarrow> Inr () | Some c \<Rightarrow> child_calls (la_krn E) (apply_in_child c))
       (\<lambda>_. case la_exec E of None \<Rightarrow> Inr () | Some e \<Rightarrow> Inl e)"

text \<open>Inside the temporary directory: what is prepared, the report, and the process.\<close>

definition launch_in :: "'bpf launch_env \<Rightarrow> str \<Rightarrow> str list \<Rightarrow> (str \<times> str) list \<Rightarrow> run_profile \<Rightarrow> launch_plan \<Rightarrow> str \<Rightarrow> str \<Rightarrow>
    writ_error + 'bpf process \<times> interactive_report" where
  "launch_in E program args env P p workspace temp =
     rbind (writable_set (la_canonicalize E) workspace temp (rf_writable P)) (\<lambda>wset.
     rbind (collect_results (absolute_file (la_canonicalize E)) (rf_protect P)) (\<lambda>protected.
     rbind (if rp_apply_fs p then check_workspace_fs (la_statfs E) workspace else Inr ()) (\<lambda>_.
     rbind (interactive_confinement (la_linux E) wset (rf_mode P) p) (\<lambda>conf.
       let protection = protection_level protected (rp_apply_fs p);
           pr = \<lparr>pc_program = program, pc_args = args,
                 pc_env = btree (la_vars E @ map (\<lambda>k. (k, temp)) TEMP_VARS @ env), pc_cwd = workspace, pc_confinement = conf\<rparr>
       in rbind (map_err (\<lambda>e. SandboxErr (''spawn '' @ program
                   @ '' failed (confinement is applied before exec; fail closed): '' @ e)) (run_child E pr)) (\<lambda>_.
          Inr (pr, \<lparr>ir_mode = rf_mode P, ir_net = rf_net P, ir_filesystem = rp_filesystem p, ir_network = rp_network p,
            ir_mechanism = (if rf_mode P = Unconfined then ''none (unconfined)''
                            else cap_mechanism (linux_capabilities (lx_probe (la_linux E)))),
            ir_writable = wset, ir_temp_dir = temp, ir_protected = protected, ir_protection = fst protection,
            ir_notes = rp_notes p @ snd protection\<rparr>))))))"

definition run_temp_name :: "'bpf launch_env \<Rightarrow> str" where
  "run_temp_name E = join_path (la_temp_dir E) (''writ-run-'' @ show_nat (la_pid E) @ ''-'' @ show_nat (la_seq E))"

definition la_caps :: "'bpf launch_env \<Rightarrow> capabilities" where
  "la_caps E = linux_capabilities (lx_probe (la_linux E))"

text \<open>The temporary directory is removed when the launch fails.\<close>

definition spawn_interactive :: "'bpf launch_env \<Rightarrow> str \<Rightarrow> str list \<Rightarrow> (str \<times> str) list \<Rightarrow> run_profile \<Rightarrow>
    'bpf local_effect list \<times> (writ_error + 'bpf process \<times> interactive_report)" where
  "spawn_interactive E program args env P =
     (case rbind (plan_launch (la_caps E) (rf_net P) (rf_mode P)) (\<lambda>p.
           rbind (canonical (la_canonicalize E) (rf_workspace P)) (\<lambda>ws.
             if \<not> la_is_dir E ws then Inl (SandboxErr (''workspace '' @ ws @ '' is not a directory'')) else Inr (p, ws))) of
        Inl e \<Rightarrow> ([], Inl e)
      | Inr (p, ws) \<Rightarrow>
          (let raw = run_temp_name E in
           case la_create_dir E raw of
             Some e \<Rightarrow> ([], Inl (IoErr e))
           | None \<Rightarrow>
               (case canonical (la_canonicalize E) raw of
                  Inl e \<Rightarrow> ([CreateDirs raw], Inl e)
                | Inr temp \<Rightarrow>
                    (case launch_in E program args env P p ws temp of
                       Inl e \<Rightarrow> ([CreateDirs raw, RemoveTree temp], Inl e)
                     | Inr (pr, report) \<Rightarrow> ([CreateDirs raw, Started pr], Inr (pr, report))))))"

section \<open>The report is true\<close>

text \<open>The filter of a child with network: only some families, no \<open>io_uring\<close>.\<close>

definition granted :: "str list \<Rightarrow> ruleset \<Rightarrow> bool" where
  "granted wset r \<longleftrightarrow>
     (\<forall>(p, k) \<in> set (rs_rules r). p \<in> set wset \<or> p \<in> set INTERACTIVE_DEVICES \<and> k = FileWrites \<or> p \<in> set INTERACTIVE_DEVICE_DIRS) \<and>
     (\<forall>p \<in> set wset. \<exists>k. (p, k) \<in> set (rs_rules r))"

lemma build_interactive_granted:
  assumes "build_ruleset E wset INTERACTIVE_DEVICES INTERACTIVE_DEVICE_DIRS = Inr r"
  shows "granted wset r"
proof -
  obtain rest where "rs_rules r = map (\<lambda>p. (p, if ll_is_dir E p then AllWrites else FileWrites)) wset @ rest"
    "set rest \<subseteq> set INTERACTIVE_DEVICES \<times> {FileWrites} \<union> set INTERACTIVE_DEVICE_DIRS \<times> {AllWrites}"
    by (rule build_ruleset_rules [OF assms])
  then show ?thesis by (auto simp: granted_def)
qed

text \<open>What a process must have for a report about it to be true.\<close>

definition report_holds :: "libc \<Rightarrow> 'bpf run_filter \<Rightarrow> 'bpf launch_env \<Rightarrow> interactive_report \<Rightarrow> 'bpf process \<Rightarrow> bool" where
  "report_holds C run E rep pr \<longleftrightarrow>
     (ir_filesystem rep = NotEnforced \<or>
       (\<exists>c r. pc_confinement pr = Some c \<and> cf_ruleset c = Some r \<and> granted (ir_writable rep) r \<and>
          list_all (\<lambda>k. la_krn E k = None) (apply_in_child c))) \<and>
     (ir_filesystem rep \<noteq> Enforced \<or> 3 \<le> kp_abi (lx_probe (la_linux E))) \<and>
     (ir_network rep = NotEnforced \<or>
       (\<exists>c b. pc_confinement pr = Some c \<and> cf_bpf c = Some b \<and> no_network C run b \<and>
          list_all (\<lambda>k. la_krn E k = None) (apply_in_child c)))"

lemma launch_in_holds:
  assumes "launch_in E program args env P p ws temp = Inr (pr, rep)" "plan_launch (la_caps E) (rf_net P) (rf_mode P) = Inr p"
    and "libc_ok C" "seccomp_laws cmp run" "lx_libc (la_linux E) = C" "lx_compile (la_linux E) = cmp"
  shows "report_holds C run E rep pr" and "pc_program pr = program" "pc_args pr = args" "pc_cwd pr = ws"
    and "ir_filesystem rep = rp_filesystem p" "ir_network rep = rp_network p" "ir_mode rep = rf_mode P" "ir_temp_dir rep = temp"
    and "writable_set (la_canonicalize E) ws temp (rf_writable P) = Inr (ir_writable rep)"
proof -
  let ?X = "la_linux E"
  from assms(1) obtain wset protected conf where
    w: "writable_set (la_canonicalize E) ws temp (rf_writable P) = Inr wset"
    and c: "interactive_confinement ?X wset (rf_mode P) p = Inr conf"
    and pr: "pc_confinement pr = conf" "run_child E pr = Inr ()" "pc_program pr = program" "pc_args pr = args" "pc_cwd pr = ws"
    and rep: "ir_filesystem rep = rp_filesystem p" "ir_network rep = rp_network p" "ir_mode rep = rf_mode P" "ir_temp_dir rep = temp"
      "ir_writable rep = wset"
    by (auto simp: launch_in_def Let_def result_simps)
  note h = plan_launch_honest [OF assms(2)]
  have calls: "list_all (\<lambda>k. la_krn E k = None) (apply_in_child c)" if "conf = Some c" for c
    using pr(1,2) that by (auto simp: run_child_def result_simps child_calls_ok)
  have fs: "\<exists>c r. conf = Some c \<and> cf_ruleset c = Some r \<and> granted wset r" if "rp_apply_fs p"
  proof -
    have "rf_mode P \<noteq> Unconfined" using assms(2) that by (auto simp: plan_launch_def)
    with c obtain nf cc where b: "build_interactive ?X wset (rp_apply_fs p) nf = Inr cc" "conf = Some cc"
      by (auto simp: interactive_confinement_def net_filter_for_def result_simps)
    from build_with_Inr(1) [OF b(1) [unfolded build_interactive_def] that] build_interactive_granted b(2) show ?thesis by blast
  qed
  have nt: "\<exists>c b. conf = Some c \<and> cf_bpf c = Some b \<and> no_network C run b" if "rp_apply_net p"
  proof -
    have "rf_mode P \<noteq> Unconfined" using assms(2) that by (auto simp: plan_launch_def)
    with c that obtain cc where b: "build_interactive ?X wset (rp_apply_fs p) DenyAll = Inr cc" "conf = Some cc"
      by (auto simp: interactive_confinement_def net_filter_for_def result_simps)
    from build_with_Inr(2) [OF b(1) [unfolded build_interactive_def] refl] assms(5,6)
    obtain f where "cf_bpf cc = Some f" "build_filter cmp (lx_probe ?X) (network_filter C) = Inr f" by auto
    then show ?thesis using no_network_filter [OF assms(3,4)] b(2) by blast
  qed
  have abi: "3 \<le> kp_abi (lx_probe ?X)" if "rp_filesystem p = Enforced"
    using h(1) [OF that] by (auto simp: la_caps_def linux_capabilities_def split: if_splits)
  show "report_holds C run E rep pr"
    unfolding report_holds_def rep pr(1) using fs nt abi calls h(3,4) by blast
  show "pc_program pr = program" "pc_args pr = args" "pc_cwd pr = ws" "ir_filesystem rep = rp_filesystem p"
    "ir_network rep = rp_network p" "ir_mode rep = rf_mode P" "ir_temp_dir rep = temp"
    "writable_set (la_canonicalize E) ws temp (rf_writable P) = Inr (ir_writable rep)"
    using pr rep w by simp_all
qed

end
