(* ===== verification/Agent_Profiles.thy ===== *)
theory Agent_Profiles
  imports Sandbox_Plan Unix_Path
begin

text \<open>
  \<open>writ-sandbox/src/agents.rs\<close> on Unix: which paths an agent may write outside of its workspace, which of
  its configuration files must stay as they are, and how writ's hooks can be passed to it.  The
  environment and the file system are parameters.
\<close>

section \<open>Profiles\<close>

datatype path_kind = DirPath | FilePath str

record profile_path =
  pf_path :: str
  pf_why :: str
  pf_kind :: path_kind
  pf_create :: bool

datatype hook_support = NoHooks | ClaudeSettings | CodexConfigFlags | GeminiSystemSettings | CursorPluginDir

record agent_profile =
  ap_name :: str
  ap_display :: str
  ap_paths :: "profile_path list"
  ap_env :: "(str \<times> str) list"
  ap_protect :: "str list"
  ap_workspace_protect :: "str list"
  ap_suggest_caches :: bool
  ap_hooks :: hook_support

text \<open>Variables that are set to nothing count as unset.\<close>

definition env_get :: "(str \<Rightarrow> str option) \<Rightarrow> str \<Rightarrow> str option" where
  "env_get env k = (case env k of Some v \<Rightarrow> if v = [] then None else Some v | None \<Rightarrow> None)"

definition LAUNCHER_EXTENSIONS :: "str list" where
  "LAUNCHER_EXTENSIONS = [''.exe'', ''.cmd'', ''.bat'', ''.ps1'', ''.js'']"

definition agent_key :: "str \<Rightarrow> str" where
  "agent_key program =
     (let base = to_ascii_lowercase (last (split_on (\<lambda>c. c = CHR ''/'' \<or> c = CHR 0x5C) program))
      in case List.find (ends_with base) LAUNCHER_EXTENSIONS of
           Some ext \<Rightarrow> take (length base - length ext) base
         | None \<Rightarrow> base)"

section \<open>Directories\<close>

datatype unix_os = LinuxOs | MacOs

record dirs =
  ad_home :: "str option"
  ad_config :: "str option"
  ad_cache :: "str option"

definition option_or :: "'a option \<Rightarrow> 'a option \<Rightarrow> 'a option" where
  "option_or a b = (case a of Some x \<Rightarrow> Some x | None \<Rightarrow> b)"

definition dirs_from :: "unix_os \<Rightarrow> (str \<Rightarrow> str option) \<Rightarrow> dirs" where
  "dirs_from os env =
     (let home = env_get env ''HOME'' in
      \<lparr>ad_home = home,
       ad_config = option_or (env_get env ''XDG_CONFIG_HOME'') (map_option (\<lambda>h. join_path h ''.config'') home),
       ad_cache =
         (case os of
            MacOs \<Rightarrow> map_option (\<lambda>h. join_path (join_path h ''Library'') ''Caches'') home
          | LinuxOs \<Rightarrow> option_or (env_get env ''XDG_CACHE_HOME'') (map_option (\<lambda>h. join_path h ''.cache'') home))\<rparr>)"

definition dir_path :: "str \<Rightarrow> str \<Rightarrow> bool \<Rightarrow> profile_path" where
  "dir_path p why create = \<lparr>pf_path = p, pf_why = why, pf_kind = DirPath, pf_create = create\<rparr>"

definition opt_list :: "'a option \<Rightarrow> 'a list" where
  "opt_list x = (case x of Some a \<Rightarrow> [a] | None \<Rightarrow> [])"

section \<open>The agents\<close>

definition CLAUDE_WORKSPACE_FILES :: "str list" where
  "CLAUDE_WORKSPACE_FILES = [''.claude/settings.json'', ''.claude/settings.local.json'']"

definition claude_profile :: "dirs \<Rightarrow> (str \<Rightarrow> str option) \<Rightarrow> agent_profile" where
  "claude_profile d env =
     (let (paths, protect) =
        (case env_get env ''CLAUDE_CONFIG_DIR'' of
           Some c \<Rightarrow> ([dir_path c ''config (CLAUDE_CONFIG_DIR)'' True], [join_path c ''settings.json''])
         | None \<Rightarrow>
             (case ad_home d of
                None \<Rightarrow> ([], [])
              | Some h \<Rightarrow>
                  ([dir_path (join_path h ''.claude'') ''state and config'' True,
                    \<lparr>pf_path = join_path h ''.claude.json'', pf_why = ''global config'', pf_kind = FilePath ''{}'', pf_create = True\<rparr>],
                   [join_path (join_path h ''.claude'') ''settings.json''])))
      in \<lparr>ap_name = ''claude'', ap_display = ''Claude Code'',
          ap_paths = paths
            @ map (\<lambda>c. dir_path (join_path c ''claude'') ''config (XDG)'' False) (opt_list (ad_config d))
            @ map (\<lambda>c. dir_path (join_path c ''claude-cli-nodejs'') ''cache'' True) (opt_list (ad_cache d)),
          ap_env = [(''DISABLE_AUTOUPDATER'', ''1'')], ap_protect = protect,
          ap_workspace_protect = CLAUDE_WORKSPACE_FILES, ap_suggest_caches = True, ap_hooks = ClaudeSettings\<rparr>)"

definition simple_profile :: "str \<Rightarrow> str \<Rightarrow> str option \<Rightarrow> str \<Rightarrow> dirs \<Rightarrow> (str \<Rightarrow> str option) \<Rightarrow> agent_profile" where
  "simple_profile name display override dot_dir d env =
     (let base = option_or (Option.bind override (env_get env)) (map_option (\<lambda>h. join_path h dot_dir) (ad_home d))
      in \<lparr>ap_name = name, ap_display = display, ap_paths = map (\<lambda>p. dir_path p ''agent state'' True) (opt_list base),
          ap_env = [], ap_protect = [], ap_workspace_protect = [], ap_suggest_caches = True, ap_hooks = NoHooks\<rparr>)"

definition first_path :: "agent_profile \<Rightarrow> str option" where
  "first_path p = (case ap_paths p of [] \<Rightarrow> None | q # _ \<Rightarrow> Some (pf_path q))"

definition codex_profile :: "dirs \<Rightarrow> (str \<Rightarrow> str option) \<Rightarrow> agent_profile" where
  "codex_profile d env =
     (let p = simple_profile ''codex'' ''OpenAI Codex CLI'' (Some ''CODEX_HOME'') ''.codex'' d env
      in p\<lparr>ap_protect := (case first_path p of
              Some base \<Rightarrow> [join_path base ''config.toml'', join_path base ''hooks.json''] | None \<Rightarrow> []),
           ap_workspace_protect := [''.codex/config.toml'', ''.codex/hooks.json''], ap_hooks := CodexConfigFlags\<rparr>)"

definition gemini_profile :: "dirs \<Rightarrow> (str \<Rightarrow> str option) \<Rightarrow> agent_profile" where
  "gemini_profile d env =
     (let base = option_or (map_option (\<lambda>h. join_path h ''.gemini'') (env_get env ''GEMINI_CLI_HOME''))
                   (map_option (\<lambda>h. join_path h ''.gemini'') (ad_home d));
          p = simple_profile ''gemini'' ''Gemini CLI'' None ''.gemini'' d env
      in p\<lparr>ap_paths := map (\<lambda>b. dir_path b ''agent state'' True) (opt_list base),
           ap_protect := map (\<lambda>b. join_path b ''settings.json'') (opt_list base),
           ap_workspace_protect := [''.gemini/settings.json''], ap_hooks := GeminiSystemSettings\<rparr>)"

definition cursor_profile :: "dirs \<Rightarrow> (str \<Rightarrow> str option) \<Rightarrow> agent_profile" where
  "cursor_profile d env =
     (let p = simple_profile ''cursor'' ''Cursor CLI'' (Some ''CURSOR_CONFIG_DIR'') ''.cursor'' d env
      in p\<lparr>ap_protect := (case first_path p of Some base \<Rightarrow> [join_path base ''hooks.json''] | None \<Rightarrow> [])
              @ map (\<lambda>h. join_path (join_path h ''.claude'') ''settings.json'') (opt_list (ad_home d)),
           ap_workspace_protect := ''.cursor/hooks.json'' # CLAUDE_WORKSPACE_FILES, ap_hooks := CursorPluginDir\<rparr>)"

definition generic_profile :: agent_profile where
  "generic_profile = \<lparr>ap_name = ''generic'', ap_display = ''generic agent'', ap_paths = [], ap_env = [], ap_protect = [],
     ap_workspace_protect = [], ap_suggest_caches = False, ap_hooks = NoHooks\<rparr>"

definition profile_for :: "unix_os \<Rightarrow> (str \<Rightarrow> str option) \<Rightarrow> str \<Rightarrow> agent_profile" where
  "profile_for os env program =
     (let d = dirs_from os env; k = agent_key program in
      if k = ''claude'' then claude_profile d env
      else if k = ''codex'' then codex_profile d env
      else if k = ''gemini'' then gemini_profile d env
      else if k = ''cursor-agent'' \<or> k = ''agent'' then cursor_profile d env
      else if k = ''aider'' then
        (let p = simple_profile ''aider'' ''aider'' None ''.aider'' d env
         in p\<lparr>ap_paths := ap_paths p @ map (\<lambda>c. dir_path (join_path c ''aider'') ''aider cache'' False) (opt_list (ad_cache d))\<rparr>)
      else generic_profile)"

definition tool_caches :: "unix_os \<Rightarrow> (str \<Rightarrow> str option) \<Rightarrow> profile_path list" where
  "tool_caches os env =
     (let d = dirs_from os env;
          add = (\<lambda>p why. map (\<lambda>p. dir_path p why False) (opt_list p));
          cargo = option_or (env_get env ''CARGO_HOME'') (map_option (\<lambda>h. join_path h ''.cargo'') (ad_home d))
      in add (map_option (\<lambda>h. join_path h ''.npm'') (ad_home d)) ''npm cache''
         @ add (map_option (\<lambda>c. join_path c ''pip'') (ad_cache d)) ''pip cache''
         @ add (map_option (\<lambda>c. join_path c ''uv'')
                 (option_or (env_get env ''XDG_CACHE_HOME'') (map_option (\<lambda>h. join_path h ''.cache'') (ad_home d)))) ''uv cache''
         @ add (map_option (\<lambda>c. join_path c ''registry'') cargo) ''cargo registry cache''
         @ add (map_option (\<lambda>c. join_path c ''git'') cargo) ''cargo git cache'')"

section \<open>Creating the paths\<close>

text \<open>
  What is created, and what the file system answers given what was created before: whether a path is a
  directory or a file, errors of creating.  A file that appears meanwhile is kept.
\<close>

datatype creation = MadeDirs str | MadeFile str str

datatype create_file_result = FileCreated | FileAppeared | FileError str

record host_fs =
  hf_is_dir :: "creation list \<Rightarrow> str \<Rightarrow> bool"
  hf_is_file :: "creation list \<Rightarrow> str \<Rightarrow> bool"
  hf_create_dir :: "creation list \<Rightarrow> str \<Rightarrow> str option"
  hf_create_file :: "creation list \<Rightarrow> str \<Rightarrow> create_file_result"
  hf_parent :: "str \<Rightarrow> str option"

definition make_dirs :: "host_fs \<Rightarrow> str \<Rightarrow> creation list \<Rightarrow> creation list \<times> (str + unit)" where
  "make_dirs F p h = (case hf_create_dir F h p of Some e \<Rightarrow> (h, Inl e) | None \<Rightarrow> (h @ [MadeDirs p], Inr ()))"

definition make_file :: "host_fs \<Rightarrow> str \<Rightarrow> str \<Rightarrow> creation list \<Rightarrow> creation list \<times> (str + unit)" where
  "make_file F p initial h =
     sbind (case hf_parent F p of Some q \<Rightarrow> make_dirs F q h | None \<Rightarrow> (h, Inr ())) (\<lambda>_ h.
       case hf_create_file F h p of
         FileCreated \<Rightarrow> (h @ [MadeFile p initial], Inr ())
       | FileAppeared \<Rightarrow> (h, Inr ())
       | FileError e \<Rightarrow> (h, Inl e))"

fun materialize :: "host_fs \<Rightarrow> profile_path list \<Rightarrow> creation list \<Rightarrow> creation list \<times> (str + profile_path list)" where
  "materialize F [] h = (h, Inr [])"
| "materialize F (p # ps) h =
     (let there = (case pf_kind p of DirPath \<Rightarrow> hf_is_dir F h (pf_path p) | FilePath _ \<Rightarrow> hf_is_file F h (pf_path p))
      in if \<not> there \<and> \<not> pf_create p then materialize F ps h
         else sbind (if there then (h, Inr ())
                     else case pf_kind p of DirPath \<Rightarrow> make_dirs F (pf_path p) h
                        | FilePath initial \<Rightarrow> make_file F (pf_path p) initial h) (\<lambda>_ h.
                sbind (materialize F ps h) (\<lambda>out h. (h, Inr (p # out)))))"

definition display_path :: "str \<Rightarrow> str option \<Rightarrow> str" where
  "display_path p home =
     (case home of
        None \<Rightarrow> p
      | Some h \<Rightarrow> (case path_strip_prefix p h of Some rest \<Rightarrow> ''~/'' @ rest | None \<Rightarrow> p))"

text \<open>Only paths of the list are kept, in order; optional ones are never created.\<close>

lemma materialize_subseq: "materialize F ps h = (h', Inr out) \<Longrightarrow> subseq out ps"
  by (induction ps arbitrary: h h' out)
     (auto simp: Let_def sbind_def split: if_splits prod.splits sum.splits intro: list_emb_Cons subseq_Cons2)

end
