(* ===== verification/Run.thy ===== *)
theory Run
  imports Interactive Agent_Profiles Pipeline
begin

text \<open>
  \<open>writ-cli/src/run.rs\<close> on Unix: \<open>writ run -- <agent>\<close>.  The launch is a governed call; the agent is started
  interactively inside the kernel boundary, with writ's hooks passed in where it has a mechanism for them.
  What the command prints is not modelled.
\<close>

section \<open>Arguments\<close>

record run_args =
  ra_policy :: str
  ra_ledger :: str
  ra_yolo :: bool
  ra_backend :: str
  ra_net :: net_mode
  ra_allow_write :: "str list"
  ra_unconfined :: bool
  ra_best_effort :: bool
  ra_no_hooks :: bool
  ra_cmd :: "str list"

definition run_mode_of :: "run_args \<Rightarrow> str + run_mode" where
  "run_mode_of a =
     (if ra_unconfined a \<and> (ra_best_effort a \<or> ra_net a = NetNone) then
        Inl ''writ run: --unconfined applies no boundary; it cannot be combined with --best-effort or --net none''
      else if ra_unconfined a \<and> ra_allow_write a \<noteq> [] then
        Inl ''writ run: --allow-write has no effect with --unconfined (everything is writable)''
      else if \<not> ra_unconfined a \<and> ra_backend a \<noteq> ''local-os'' then
        Inl (''writ run: backend '' @ ra_backend a @ '' cannot host an interactive agent; only local-os can (or pass --unconfined)'')
      else Inr (if ra_unconfined a then Unconfined else if ra_best_effort a then BestEffortRun else RequiredRun))"

definition refusal_hint :: "net_mode \<Rightarrow> str" where
  "refusal_hint net =
     (case net of
        NetNone \<Rightarrow> ''hint: `--net open` gives the agent the network (reported as not filtered); ''
          @ ''`--best-effort` runs anyway and reports the gap''
      | NetOpen \<Rightarrow> ''hint: `--best-effort` runs anyway and reports each gap; `--unconfined` launches with ''
          @ ''no kernel boundary (launch supervision only)'')"

section \<open>Conflicting flags\<close>

fun flag_values :: "str \<Rightarrow> str \<Rightarrow> str list \<Rightarrow> str list" where
  "flag_values long short [] = []"
| "flag_values long short (a # as) =
     (if a = long \<or> a = short then (case as of [] \<Rightarrow> [] | v # vs \<Rightarrow> v # flag_values long short vs)
      else case strip_prefix a (long @ ''='') of
        Some v \<Rightarrow> v # flag_values long short as
      | None \<Rightarrow>
          (case strip_prefix a short of
             Some v \<Rightarrow> (if v \<noteq> [] \<and> \<not> starts_with a ''--'' then [v] else []) @ flag_values long short as
           | None \<Rightarrow> flag_values long short as))"

definition codex_key :: "str \<Rightarrow> str" where
  "codex_key v = trim (hd (split_on (\<lambda>c. c = CHR ''='') v))"

definition codex_key_conflicts :: "str \<Rightarrow> bool" where
  "codex_key_conflicts key \<longleftrightarrow> key = ''hooks'' \<or> starts_with key ''hooks.'' \<or> key = ''features'' \<or>
     key = ''features.hooks'' \<or> key = ''features.codex_hooks''"

definition check_hook_conflicts :: "hook_support \<Rightarrow> (str \<Rightarrow> str option) \<Rightarrow> str list \<Rightarrow> str + unit" where
  "check_hook_conflicts support env args =
     (case support of
        ClaudeSettings \<Rightarrow>
          if list_ex (\<lambda>a. a = ''--settings'' \<or> starts_with a ''--settings='') args
          then Inl (''writ run passes its Claude Code hooks with --settings; your command already has --settings (Claude Code ''
            @ ''would keep only one). Move those settings into .claude/settings.json, or pass --no-hooks'')
          else Inr ()
      | CodexConfigFlags \<Rightarrow>
          (case List.find codex_key_conflicts (map codex_key (flag_values ''--config'' ''-c'' args)) of
             Some key \<Rightarrow> Inl (''writ run passes its Codex hooks as `-c hooks.'' @ [CHR 0xE2, CHR 0x80, CHR 0xA6]
               @ ''` overrides and pins `features.hooks=true`; your command overrides `'' @ key @ ''`. Drop that override, or pass --no-hooks'')
           | None \<Rightarrow> Inr ())
      | GeminiSystemSettings \<Rightarrow>
          (let v = (\<lambda>k. map_option to_ascii_lowercase (env_get env k))
           in if v ''GEMINI_RESTRICTED_MODE'' = Some ''true'' \<or> v ''GEMINI_CLI_TRUST_WORKSPACE'' = Some ''false''
              then Inl (''writ run: GEMINI_RESTRICTED_MODE=true / GEMINI_CLI_TRUST_WORKSPACE=false make Gemini CLI run no ''
                @ ''hooks at all, so writ could not decide its tool calls. Unset it, or pass --no-hooks'')
              else Inr ())
      | _ \<Rightarrow> Inr ())"

section \<open>What a run meets\<close>

text \<open>The clock is read for the session, for the control directory and for the name of Gemini's hooks.\<close>

datatype run_effect = Created creation | MadeDir str | Wrote str bytes | RemovedDir str

record ('s, 'bpf) run_env =
  rn_os :: unix_os
  rn_cwd :: str
  rn_vars :: "str \<Rightarrow> str option"
  rn_engine :: "str + (tool_call_context \<Rightarrow> verdict)"
  rn_open :: "writ_error + 's"
  rn_pid :: nat
  rn_epoch_ms :: int
  rn_control_ms :: int
  rn_hook_ms :: int
  rn_caller :: caller_identity
  rn_called_at :: timestamp
  rn_decided_at :: timestamp
  rn_finished_at :: timestamp
  rn_approver :: approver
  rn_fs :: host_fs
  rn_canonicalize :: "str \<Rightarrow> str option"
  rn_exe :: "str + str"
  rn_temp_dir :: str
  rn_create_dir :: "str \<Rightarrow> str option"
  rn_write :: "str \<Rightarrow> str option"
  rn_system_settings :: "str \<Rightarrow> str option"
  rn_json :: "str \<Rightarrow> str + json"
  rn_pretty :: "json \<Rightarrow> bytes"
  rn_toml :: "str \<Rightarrow> str"
  rn_launch :: "'bpf launch_env"
  rn_wait :: "writ_error + int"

definition absolute :: "str \<Rightarrow> str \<Rightarrow> str" where
  "absolute p cwd = (if is_absolute p then p else join_path cwd p)"

definition run_session :: "('s, 'bpf) run_env \<Rightarrow> str" where
  "run_session E = ''run-'' @ show_nat (rn_pid E) @ ''-'' @ show_int (rn_epoch_ms E)"

definition run_call :: "('s, 'bpf) run_env \<Rightarrow> str list \<Rightarrow> tool_call" where
  "run_call E cmd =
     \<lparr>tc_call_id = run_session E @ ''-'' @ show_nat 0, tc_session_id = run_session E, tc_caller = rn_caller E,
      tc_mode = ProcessWrap, tc_tool = ''process.exec'', tc_args = JObj [(''command'', JStr (join '' '' cmd))],
      tc_server = None, tc_trust = None, tc_captured_at = rn_called_at E\<rparr>"

section \<open>The writable set\<close>

type_synonym grants = "(str \<times> str) list"

definition push_grant :: "(str \<Rightarrow> str option) \<Rightarrow> str \<Rightarrow> str \<Rightarrow> grants \<Rightarrow> grants" where
  "push_grant canonicalize p why gs =
     (case canonicalize p of
        None \<Rightarrow> gs
      | Some c \<Rightarrow> if list_ex (\<lambda>g. same_path (fst g) c) gs then gs else gs @ [(c, why)])"

fun allow_writes :: "('s, 'bpf) run_env \<Rightarrow> str list \<Rightarrow> grants \<Rightarrow> str + grants" where
  "allow_writes E [] gs = Inr gs"
| "allow_writes E (p # ps) gs =
     (let a = absolute p (rn_cwd E) in
      if rn_canonicalize E a = None then Inl (''writ run: --allow-write '' @ p @ '' does not exist (fail closed)'')
      else allow_writes E ps (push_grant (rn_canonicalize E) a ''--allow-write'' gs))"

definition profile_grants :: "('s, 'bpf) run_env \<Rightarrow> agent_profile \<Rightarrow> profile_path list \<Rightarrow> grants \<Rightarrow> grants" where
  "profile_grants E p made gs =
     fold (\<lambda>q. push_grant (rn_canonicalize E) (pf_path q) (ap_display p @ '' '' @ em_dash @ '' '' @ pf_why q)) made gs"

definition run_grants :: "('s, 'bpf) run_env \<Rightarrow> run_args \<Rightarrow> run_mode \<Rightarrow> agent_profile \<Rightarrow> creation list \<times> (str + grants)" where
  "run_grants E a mode p =
     (let gs = push_grant (rn_canonicalize E) (rn_cwd E) ''workspace'' []
      in if mode = Unconfined then ([], Inr gs)
         else (case materialize (rn_fs E) (ap_paths p) [] of
                 (h, Inl e) \<Rightarrow> (h, Inl (''create the agent'' @ [CHR 0x27] @ ''s state dirs''))
               | (h, Inr made) \<Rightarrow> (h, allow_writes E (ra_allow_write a) (profile_grants E p made gs))))"

section \<open>Hooks\<close>

text \<open>Where the hooks find the ledger, and the grant for its directory.\<close>

definition hook_ledger :: "('s, 'bpf) run_env \<Rightarrow> run_args \<Rightarrow> run_mode \<Rightarrow> grants \<Rightarrow>
    run_effect list \<times> (str + str \<times> grants)" where
  "hook_ledger E a mode gs =
     (if is_postgres_url (ra_ledger a) then
        (if redact_postgres_url (ra_ledger a) \<noteq> ra_ledger a then
           ([], Inl (''writ run: the Postgres ledger URL carries a password, which the agent could read from its hook command line; ''
             @ ''remove it from --ledger and use PGPASSWORD or ~/.pgpass (note: the agent'' @ [CHR 0x27] @ ''s environment is readable by it)''))
         else if ra_net a = NetNone \<and> mode \<noteq> Unconfined then
           ([], Inl (''writ run: --net none would stop the hooks from reaching the Postgres ledger; use a file ledger with --net none, or --net open''))
         else ([], Inr (ra_ledger a, gs)))
      else
        (let l = absolute (ra_ledger a) (rn_cwd E);
             dir = (case path_parent l of Some d \<Rightarrow> d | None \<Rightarrow> rn_cwd E)
         in case rn_create_dir E dir of
              Some e \<Rightarrow> ([], Inl (''create '' @ dir))
            | None \<Rightarrow> ([MadeDir dir], Inr (l, if mode \<noteq> Unconfined
                         then push_grant (rn_canonicalize E) dir ''writ ledger (hooks append here)'' gs else gs))))"

definition control_dir :: "('s, 'bpf) run_env \<Rightarrow> str" where
  "control_dir E = join_path (rn_temp_dir E) (''writ-run-ctl-'' @ show_nat (rn_pid E) @ ''-'' @ show_int (rn_control_ms E))"

definition toml_string :: "(str \<Rightarrow> str) \<Rightarrow> str \<Rightarrow> str" where
  "toml_string toml s =
     (if \<not> list_ex (\<lambda>c. c = CHR 0x27 \<or> c = CHR 0x0A \<or> c = CHR 0x0D) s then [CHR 0x27] @ s @ [CHR 0x27] else trim (toml s))"

definition CODEX_EVENTS :: "str list" where
  "CODEX_EVENTS = [''PreToolUse'', ''PostToolUse'']"

definition codex_hook_command :: "wiring \<Rightarrow> str + str" where
  "codex_hook_command w = portable_command False id (hook_argv w ''codex'' False)"

definition codex_flags :: "(str \<Rightarrow> str) \<Rightarrow> wiring \<Rightarrow> str list \<Rightarrow> str + str list" where
  "codex_flags toml w args =
     rbind (codex_hook_command w) (\<lambda>cmd.
       let t = toml_string toml;
           group = ''[{matcher='' @ t ''*'' @ '',hooks=[{type='' @ t ''command'' @ '',command='' @ t cmd
             @ '',statusMessage='' @ t ''writ policy check'' @ ''}]}]''
       in Inr ([''-c'', ''features.hooks=true''] @ concat (map (\<lambda>ev. [''-c'', ''hooks.'' @ ev @ ''='' @ group]) CODEX_EVENTS)
            @ (if list_ex (\<lambda>a. a = ''--dangerously-bypass-hook-trust'') args then [] else [''--dangerously-bypass-hook-trust''])))"

definition make_control :: "('s, 'bpf) run_env \<Rightarrow> str \<Rightarrow> run_effect list \<times> (str + unit)" where
  "make_control E dir =
     (case rn_create_dir E dir of Some e \<Rightarrow> ([], Inl (''create '' @ dir)) | None \<Rightarrow> ([MadeDir dir], Inr ()))"

definition write_control :: "('s, 'bpf) run_env \<Rightarrow> str \<Rightarrow> json \<Rightarrow> run_effect list \<times> (str + unit)" where
  "write_control E file j =
     (case rn_write E file of Some e \<Rightarrow> ([], Inl (''write '' @ file)) | None \<Rightarrow> ([Wrote file (rn_pretty E j)], Inr ()))"

definition claude_settings_json :: "wiring \<Rightarrow> json" where
  "claude_settings_json w =
     (case claude_code_hook_settings w of
        JObj kvs \<Rightarrow> JObj (btree_insert ''disableAllHooks'' (JBool False) kvs)
      | j \<Rightarrow> j)"

definition default_gemini_system_settings :: "unix_os \<Rightarrow> str" where
  "default_gemini_system_settings os =
     (case os of MacOs \<Rightarrow> ''/Library/Application Support/GeminiCli/settings.json'' | LinuxOs \<Rightarrow> ''/etc/gemini-cli/settings.json'')"

definition gemini_enabled :: "json \<Rightarrow> str + json" where
  "gemini_enabled merged =
     (case merged of
        JObj root \<Rightarrow>
          (let root = entry_or ''hooksConfig'' (JObj []) root
           in case map_of root ''hooksConfig'' of
                Some (JObj hc) \<Rightarrow> Inr (JObj (set_key ''hooksConfig'' (JObj (btree_insert ''enabled'' (JBool True) hc)) root))
              | _ \<Rightarrow> Inl (quoted_key ''hooksConfig'' @ '' in the Gemini CLI system settings is not an object''))
      | _ \<Rightarrow> Inl ''Gemini CLI system settings are not a JSON object'')"

definition gemini_hook_name :: "('s, 'bpf) run_env \<Rightarrow> str" where
  "gemini_hook_name E = ''writ-'' @ show_nat (rn_pid E) @ ''-'' @ show_int (rn_hook_ms E)"

definition gemini_orig :: "('s, 'bpf) run_env \<Rightarrow> str" where
  "gemini_orig E = (case env_get (rn_vars E) ''GEMINI_CLI_SYSTEM_SETTINGS_PATH'' of
     Some p \<Rightarrow> p | None \<Rightarrow> default_gemini_system_settings (rn_os E))"

definition gemini_settings :: "('s, 'bpf) run_env \<Rightarrow> wiring \<Rightarrow> str + json" where
  "gemini_settings E w =
     rbind (case rn_system_settings E (gemini_orig E) of
              Some s \<Rightarrow> if trim s = [] then Inr (JObj [])
                        else map_err (\<lambda>_. ''Gemini CLI system settings '' @ gemini_orig E
                               @ '' are not plain JSON; writ run cannot extend them'') (rn_json E s)
            | None \<Rightarrow> Inr (JObj [])) (\<lambda>base.
     rbind (merge_gemini_settings base (gemini_hook_settings False w (gemini_hook_name E))) gemini_enabled)"

definition gemini_env :: "('s, 'bpf) run_env \<Rightarrow> str \<Rightarrow> (str \<times> str) list" where
  "gemini_env E file =
     [(''GEMINI_CLI_SYSTEM_SETTINGS_PATH'', file),
      (''GEMINI_CLI_SYSTEM_DEFAULTS_PATH'',
        case env_get (rn_vars E) ''GEMINI_CLI_SYSTEM_DEFAULTS_PATH'' of
          Some p \<Rightarrow> p
        | None \<Rightarrow> (case path_parent (gemini_orig E) of
                     Some d \<Rightarrow> join_path d ''system-defaults.json'' | None \<Rightarrow> ''system-defaults.json'')),
      (''GEMINI_CLI_TRUST_WORKSPACE'', ''true'')]"

definition cursor_manifest :: json where
  "cursor_manifest = JObj [
     (''description'', JStr ''writ: policy decision and ledger record for every tool call (writ run)''),
     (''hooks'', JStr ''./hooks/hooks.json''), (''name'', JStr ''writ-hooks''), (''version'', JStr ''1.0.0'')]"

text \<open>The directory that bundles the hooks for Cursor.\<close>

definition cursor_plugin :: "('s, 'bpf) run_env \<Rightarrow> wiring \<Rightarrow> str \<Rightarrow> run_effect list \<times> (str + str)" where
  "cursor_plugin E w control =
     (let dir = join_path control ''writ-cursor-plugin'';
          meta = join_path dir ''.cursor-plugin'';
          hooks = join_path dir ''hooks''
      in sbind (make_control E meta) (\<lambda>_ es.
         sbind (let (e, r) = make_control E hooks in (es @ e, r)) (\<lambda>_ es.
         sbind (let (e, r) = write_control E (join_path meta ''plugin.json'') cursor_manifest in (es @ e, r)) (\<lambda>_ es.
           case cursor_hook_settings False id w of
             Inl e \<Rightarrow> (es, Inl e)
           | Inr j \<Rightarrow> (let (e, r) = write_control E (join_path hooks ''hooks.json'') j
                      in (es @ e, rbind r (\<lambda>_. Inr dir)))))))"

text \<open>The agent's arguments and environment with the hooks passed in, and the files written for them.\<close>

definition wire_hooks :: "('s, 'bpf) run_env \<Rightarrow> wiring \<Rightarrow> hook_support \<Rightarrow> str list \<Rightarrow> (str \<times> str) list \<Rightarrow>
    run_effect list \<times> (str + str list \<times> (str \<times> str) list)" where
  "wire_hooks E w support args env =
     (let control = control_dir E in
      case support of
        ClaudeSettings \<Rightarrow>
          (let file = join_path control ''claude-settings.json'';
               (effs, r) = write_control E file (claude_settings_json w)
           in (effs, rbind r (\<lambda>_. Inr ([''--settings'', file] @ args, env))))
      | CodexConfigFlags \<Rightarrow>
          ([], rbind (map_err (\<lambda>_. ''writ run: Codex hooks'') (codex_flags (rn_toml E) w args)) (\<lambda>flags. Inr (flags @ args, env)))
      | GeminiSystemSettings \<Rightarrow>
          (let file = join_path control ''gemini-system-settings.json''; add = gemini_env E file in
           case gemini_settings E w of
             Inl e \<Rightarrow> ([], Inl e)
           | Inr merged \<Rightarrow>
               (let (effs, r) = write_control E file merged
                in (effs, rbind r (\<lambda>_. Inr (args, filter (\<lambda>kv. \<not> list_ex (\<lambda>e. fst e = fst kv) add) env @ add)))))
      | CursorPluginDir \<Rightarrow>
          (let (effs, r) = cursor_plugin E w control
           in (effs, rbind (map_err (\<lambda>_. ''writ run: Cursor hooks'') r) (\<lambda>dir. Inr ([''--plugin-dir'', dir] @ args, env))))
      | NoHooks \<Rightarrow> ([], Inr (args, env)))"

section \<open>The command\<close>

text \<open>Everything between the decision and the launch: grants, hooks, the profile of the sandbox.\<close>

record launch_setup =
  rt_args :: "str list"
  rt_env :: "(str \<times> str) list"
  rt_profile :: run_profile
  rt_control :: "str option"

text \<open>The control directory is removed when its handle goes out of scope, after an error here or at the end of the run.\<close>

definition setup_hooks :: "('s, 'bpf) run_env \<Rightarrow> run_args \<Rightarrow> run_mode \<Rightarrow> agent_profile \<Rightarrow> grants \<Rightarrow>
    run_effect list \<times> (str + (str list \<times> (str \<times> str) list) \<times> str option \<times> grants)" where
  "setup_hooks E a mode p gs =
     (let args = tl (ra_cmd a); control = control_dir E in
      if ap_hooks p = NoHooks \<or> ra_no_hooks a then ([], Inr ((args, ap_env p), None, gs))
      else case rn_exe E of
        Inl e \<Rightarrow> ([], Inl e)
      | Inr exe \<Rightarrow>
          sbind (hook_ledger E a mode gs) (\<lambda>(ledger, gs) es.
          sbind (let (e, r) = make_control E control in (es @ e, r)) (\<lambda>_ es.
            let w = \<lparr>wr_exe = exe, wr_policy = (case rn_canonicalize E (ra_policy a) of
                        Some c \<Rightarrow> c | None \<Rightarrow> absolute (ra_policy a) (rn_cwd E)), wr_ledger = ledger\<rparr>
            in case wire_hooks E w (ap_hooks p) args (ap_env p) of
                 (e, Inl m) \<Rightarrow> (es @ e @ [RemovedDir control], Inl m)
               | (e, Inr ae) \<Rightarrow> (es @ e, Inr (ae, Some control, gs)))))"

definition run_setup :: "('s, 'bpf) run_env \<Rightarrow> run_args \<Rightarrow> run_mode \<Rightarrow> agent_profile \<Rightarrow> run_effect list \<times> (str + launch_setup)" where
  "run_setup E a mode p =
     (case run_grants E a mode p of
        (h, Inl e) \<Rightarrow> (map Created h, Inl e)
      | (h, Inr gs) \<Rightarrow>
          (case setup_hooks E a mode p gs of
             (effs, Inl e) \<Rightarrow> (map Created h @ effs, Inl e)
           | (effs, Inr ((args, env), control, gs)) \<Rightarrow>
               (map Created h @ effs,
                Inr \<lparr>rt_args = args, rt_env = env,
                     rt_profile = \<lparr>rf_workspace = rn_cwd E, rf_writable = map fst (tl gs),
                       rf_protect = ap_protect p @ map (join_path (rn_cwd E)) (ap_workspace_protect p),
                       rf_net = ra_net a, rf_mode = mode\<rparr>,
                     rt_control = control\<rparr>)))"

datatype run_result = RunFailed str | RunExit int

record ('s, 'bpf) run_outcome =
  ro_store :: "'s option"
  ro_effects :: "run_effect list"
  ro_boundary :: "'bpf local_effect list"
  ro_report :: "interactive_report option"
  ro_result :: run_result

definition run_failed :: "'s option \<Rightarrow> str \<Rightarrow> ('s, 'bpf) run_outcome" where
  "run_failed s e = \<lparr>ro_store = s, ro_effects = [], ro_boundary = [], ro_report = None, ro_result = RunFailed e\<rparr>"

text \<open>The launch, the wait for the agent, and the record of its execution.\<close>

definition run_launch :: "ledger_deps \<Rightarrow> 's store_ops \<Rightarrow> ('s, 'bpf) run_env \<Rightarrow> run_args \<Rightarrow> run_mode \<Rightarrow> ledger_record \<Rightarrow> 's \<Rightarrow>
    run_effect list \<Rightarrow> launch_setup \<Rightarrow> ('s, 'bpf) run_outcome" where
  "run_launch L S E a mode rec s effs t =
     (let (bs, r) = spawn_interactive (rn_launch E) (hd (ra_cmd a)) (rt_args t) (rt_env t) (rt_profile t);
          effs = effs @ (case rt_control t of Some c \<Rightarrow> [RemovedDir c] | None \<Rightarrow> []);
          out = (\<lambda>s bs rep res. \<lparr>ro_store = Some s, ro_effects = effs, ro_boundary = bs, ro_report = rep, ro_result = res\<rparr>)
      in case r of
           Inl e \<Rightarrow> out s bs None (RunFailed (''writ run: '' @ show_writ_error e @ [CHR 0x0A] @ ''  '' @ refusal_hint (ra_net a)))
         | Inr (pr, report) \<Rightarrow>
             (let bs = bs @ [RemoveTree (ir_temp_dir report)] in
              case rn_wait E of
                Inl e \<Rightarrow> out s bs (Some report) (RunFailed (show_writ_error e))
              | Inr status \<Rightarrow>
                  (case writer_record_execution L S (rn_finished_at E) rec
                          (if mode = Unconfined then ''none (unconfined)'' else ra_backend a) status [] s of
                     (s, Inl e) \<Rightarrow> out s bs (Some report) (RunFailed (show_writ_error e))
                   | (s, Inr _) \<Rightarrow> out s bs (Some report) (RunExit status))))"

definition run_decided :: "ledger_deps \<Rightarrow> 's store_ops \<Rightarrow> ('s, 'bpf) run_env \<Rightarrow> run_args \<Rightarrow> run_mode \<Rightarrow> agent_profile \<Rightarrow>
    decision_outcome \<Rightarrow> 's \<Rightarrow> ('s, 'bpf) run_outcome" where
  "run_decided L S E a mode p d s =
     (if \<not> should_dispatch d then (run_failed (Some s) [])\<lparr>ro_result := RunExit 126\<rparr>
      else case run_setup E a mode p of
        (effs, Inl e) \<Rightarrow> (run_failed (Some s) e)\<lparr>ro_effects := effs\<rparr>
      | (effs, Inr t) \<Rightarrow> run_launch L S E a mode (do_record d) s effs t)"

definition run_checks :: "('s, 'bpf) run_env \<Rightarrow> run_args \<Rightarrow> agent_profile \<Rightarrow> str + run_mode" where
  "run_checks E a p =
     rbind (run_mode_of a) (\<lambda>mode.
     rbind (if ap_hooks p \<noteq> NoHooks \<and> \<not> ra_no_hooks a then check_hook_conflicts (ap_hooks p) (rn_vars E) (tl (ra_cmd a)) else Inr ()) (\<lambda>_.
     rbind (map_err (\<lambda>e. ''writ run: '' @ show_writ_error e @ [CHR 0x0A] @ ''  '' @ refusal_hint (ra_net a))
              (preflight (la_caps (rn_launch E)) (ra_net a) mode)) (\<lambda>_. Inr mode)))"

definition run_agent :: "ledger_deps \<Rightarrow> 's store_ops \<Rightarrow> ('s, 'bpf) run_env \<Rightarrow> run_args \<Rightarrow> ('s, 'bpf) run_outcome" where
  "run_agent L S E a =
     (let p = profile_for (rn_os E) (rn_vars E) (hd (ra_cmd a)) in
      case rbind (run_checks E a p) (\<lambda>mode. rbind (rn_engine E) (\<lambda>engine.
             rbind (map_err show_writ_error (rn_open E)) (\<lambda>s. Inr (mode, engine, s)))) of
        Inl e \<Rightarrow> run_failed None e
      | Inr (mode, engine, s) \<Rightarrow>
          (case handle_call L S (rn_decided_at E) engine (rn_approver E) (run_call E (ra_cmd a)) s of
             (s, Inl e) \<Rightarrow> run_failed (Some s) (show_writ_error e)
           | (s, Inr d) \<Rightarrow> run_decided L S E a mode p d s))"

end
