(* ===== verification/Run_Claims.thy ===== *)
theory Run_Claims
  imports Run
begin

text \<open>
  What \<open>writ run\<close> promises: an agent is started only after its launch was decided, recorded and allowed,
  inside the boundary that the report states, and its end is recorded.
\<close>

section \<open>A launch\<close>

lemma spawn_started:
  assumes "spawn_interactive E program args env P = (bs, r)" "Started pr \<in> set bs"
  obtains p ws temp rep where "plan_launch (la_caps E) (rf_net P) (rf_mode P) = Inr p"
    "launch_in E program args env P p ws temp = Inr (pr, rep)" "r = Inr (pr, rep)"
proof -
  let ?check = "rbind (plan_launch (la_caps E) (rf_net P) (rf_mode P)) (\<lambda>p.
           rbind (canonical (la_canonicalize E) (rf_workspace P)) (\<lambda>ws.
             if \<not> la_is_dir E ws then Inl (SandboxErr (''workspace '' @ ws @ '' is not a directory'')) else Inr (p, ws)))"
  from assms obtain p ws where c: "?check = Inr (p, ws)"
    by (auto simp: spawn_interactive_def split: sum.splits)
  with assms obtain temp where t: "canonical (la_canonicalize E) (run_temp_name E) = Inr temp"
    by (auto simp: spawn_interactive_def Let_def split: sum.splits option.splits)
  with assms c obtain q where l: "launch_in E program args env P p ws temp = Inr q"
    by (auto simp: spawn_interactive_def Let_def split: sum.splits option.splits)
  have "plan_launch (la_caps E) (rf_net P) (rf_mode P) = Inr p" using c by (auto simp: result_simps split: if_splits)
  moreover have "q = (pr, snd q) \<and> r = Inr q"
    using assms c t l by (cases q) (auto simp: spawn_interactive_def Let_def split: option.splits)
  ultimately show ?thesis using that l by metis
qed

definition mode_kept :: "run_mode \<Rightarrow> net_mode \<Rightarrow> interactive_report \<Rightarrow> bool" where
  "mode_kept mode net rep \<longleftrightarrow> ir_mode rep = mode \<and>
     (case mode of
        RequiredRun \<Rightarrow> ir_filesystem rep = Enforced \<and> ir_network rep = (if net = NetNone then Enforced else NotEnforced)
      | _ \<Rightarrow> True)"

lemma spawn_holds:
  assumes "spawn_interactive E program args env P = (bs, r)" "Started pr \<in> set bs"
    and "libc_ok C" "seccomp_laws cmp run" "lx_libc (la_linux E) = C" "lx_compile (la_linux E) = cmp"
  obtains rep where "r = Inr (pr, rep)" "report_holds C run E rep pr" "mode_kept (rf_mode P) (rf_net P) rep"
    "pc_program pr = program" "pc_args pr = args"
proof -
  from spawn_started [OF assms(1,2)] obtain p ws temp rep where
    p: "plan_launch (la_caps E) (rf_net P) (rf_mode P) = Inr p"
    and l: "launch_in E program args env P p ws temp = Inr (pr, rep)" and r: "r = Inr (pr, rep)" .
  note h = launch_in_holds [OF l p assms(3-6)]
  have "mode_kept (rf_mode P) (rf_net P) rep"
    using h(5-7) p plan_launch_required [of "la_caps E" "rf_net P" p] by (auto simp: mode_kept_def split: run_mode.splits)
  with r h that show ?thesis by blast
qed

section \<open>The whole run\<close>

lemma run_setup_profile:
  assumes "run_setup E a mode p = (effs, Inr t)"
  shows "rf_workspace (rt_profile t) = rn_cwd E \<and> rf_net (rt_profile t) = ra_net a \<and> rf_mode (rt_profile t) = mode"
  using assms by (auto simp: run_setup_def split: prod.splits sum.splits)

definition launch_call_of :: "('s, 'bpf) run_env \<Rightarrow> run_args \<Rightarrow> tool_call" where
  "launch_call_of E a = run_call E (ra_cmd a)"

lemma launch_float_free: "float_free (tc_args (launch_call_of E a))"
  by (simp add: launch_call_of_def run_call_def)

text \<open>The ledger after a launch: one decision of exactly this command, then nothing or its execution.\<close>

definition launch_decided :: "(tool_call_context \<Rightarrow> verdict) \<Rightarrow> tool_call \<Rightarrow> decision_outcome \<Rightarrow> bool" where
  "launch_decided engine call d \<longleftrightarrow>
     rkind (do_record d) = Decision \<and> rcall (do_record d) = Some call \<and>
     rverdict (do_record d) = Some (engine (from_call call)) \<and>
     rapprover (do_record d) = map_option out_approver (do_approval d) \<and>
     may_run (engine (from_call call)) (do_approval d)"

definition run_execution_of :: "ledger_record \<Rightarrow> run_result \<Rightarrow> ledger_record list \<Rightarrow> bool" where
  "run_execution_of dec res rs \<longleftrightarrow>
     (case res of
        RunExit n \<Rightarrow> \<exists>x. rs = [x] \<and> rkind x = Execution \<and> decision_index x = Some (index dec) \<and> call_id x = call_id dec
      | RunFailed _ \<Rightarrow> rs = [])"

lemma run_launch_ledger:
  assumes "fs_inv L s" "rkind dec = Decision" "Started pr \<in> set (ro_boundary (run_launch L (fs_ops L) E a mode dec s effs t))"
  shows "\<exists>s' rs. ro_store (run_launch L (fs_ops L) E a mode dec s effs t) = Some s' \<and> fs_inv L s' \<and>
    fs_chain L s' = fs_chain L s @ rs \<and> run_execution_of dec (ro_result (run_launch L (fs_ops L) E a mode dec s effs t)) rs"
  using assms(1,3)
  by (auto simp: run_launch_def Let_def run_execution_of_def split: prod.splits sum.splits
      dest: fs.record_execution_ok [OF assms(1)] fs.writer_record_execution_err [OF assms(1)])

text \<open>
  C4. \<open>writ run\<close> starts an agent only as a governed call: when a process is started, the ledger holds a new
  decision of exactly this command line, with the verdict of the policy and whoever approved it, and that
  verdict lets it run; the process is the command, in a boundary of which the report is true, everything
  requested being enforced by the kernel unless \<open>--best-effort\<close> or \<open>--unconfined\<close> was given; and when the
  command ends with the agent's exit code, exactly its execution has been added to the ledger.
\<close>

theorem run_governed:
  assumes "libc_ok C" "seccomp_laws cmp run" "lx_libc (la_linux (rn_launch E)) = C" "lx_compile (la_linux (rn_launch E)) = cmp"
    and "rn_engine E = Inr engine" "rn_open E = Inr s0" "fs_inv L s0"
    and "Started pr \<in> set (ro_boundary (run_agent L (fs_ops L) E a))"
  shows "\<exists>d s rs rep mode. ro_store (run_agent L (fs_ops L) E a) = Some s \<and> fs_inv L s \<and>
    fs_chain L s = fs_chain L s0 @ do_record d # rs \<and> launch_decided engine (launch_call_of E a) d \<and>
    run_execution_of (do_record d) (ro_result (run_agent L (fs_ops L) E a)) rs \<and>
    pc_program pr = hd (ra_cmd a) \<and> ro_report (run_agent L (fs_ops L) E a) = Some rep \<and>
    report_holds C run (rn_launch E) rep pr \<and> run_mode_of a = Inr mode \<and> mode_kept mode (ra_net a) rep"
proof -
  let ?p = "profile_for (rn_os E) (rn_vars E) (hd (ra_cmd a))"
  obtain s1 r where h: "handle_call L (fs_ops L) (rn_decided_at E) engine (rn_approver E) (launch_call_of E a) s0 = (s1, r)"
    by fastforce
  from assms(5,6,8) obtain mode where ck: "run_checks E a ?p = Inr mode"
    by (cases "run_checks E a ?p") (auto simp: run_agent_def run_failed_def Let_def)
  then have dr: "run_agent L (fs_ops L) E a = (case r of Inl e \<Rightarrow> run_failed (Some s1) (show_writ_error e)
      | Inr d \<Rightarrow> run_decided L (fs_ops L) E a mode ?p d s1)"
    using assms(5,6) h by (simp add: run_agent_def launch_call_of_def Let_def)
  with assms(8) obtain d where d: "r = Inr d"
    and dec: "run_agent L (fs_ops L) E a = run_decided L (fs_ops L) E a mode ?p d s1"
    by (cases r) (auto simp: run_failed_def)
  have mode: "run_mode_of a = Inr mode" using ck by (auto simp: run_checks_def result_simps)
  note ok = fs.handle_call_ok [OF assms(7) launch_float_free [of E a] h [unfolded d]]
  from assms(8) dec obtain effs t where go: "should_dispatch d" and t: "run_setup E a mode ?p = (effs, Inr t)"
    and out: "run_agent L (fs_ops L) E a = run_launch L (fs_ops L) E a mode (do_record d) s1 effs t"
    by (auto simp: run_decided_def run_failed_def split: if_splits prod.splits sum.splits)
  have st: "Started pr \<in> set (ro_boundary (run_launch L (fs_ops L) E a mode (do_record d) s1 effs t))" using assms(8) out by simp
  have dk: "rkind (do_record d) = Decision" using ok by blast
  obtain s rs where s: "ro_store (run_agent L (fs_ops L) E a) = Some s" "fs_inv L s" "fs_chain L s = fs_chain L s1 @ rs"
    "run_execution_of (do_record d) (ro_result (run_agent L (fs_ops L) E a)) rs"
    using run_launch_ledger [OF _ dk st] ok out by auto
  obtain bs sr where sp: "spawn_interactive (rn_launch E) (hd (ra_cmd a)) (rt_args t) (rt_env t) (rt_profile t) = (bs, sr)" by fastforce
  have "Started pr \<in> set bs" using st sp by (auto simp: run_launch_def Let_def split: sum.splits prod.splits)
  from spawn_holds [OF sp this assms(1-4)] obtain rep where rep: "sr = Inr (pr, rep)" "report_holds C run (rn_launch E) rep pr"
    "mode_kept (rf_mode (rt_profile t)) (rf_net (rt_profile t)) rep" "pc_program pr = hd (ra_cmd a)" .
  have "ro_report (run_agent L (fs_ops L) E a) = Some rep"
    using out sp rep(1) by (auto simp: run_launch_def Let_def split: sum.splits prod.splits)
  moreover have "launch_decided engine (launch_call_of E a) d" using ok go by (simp add: launch_decided_def)
  moreover have "mode_kept mode (ra_net a) rep" using rep(3) run_setup_profile [OF t] by simp
  ultimately show ?thesis using s ok rep(2,4) mode by (intro exI [of _ d] exI [of _ s] exI [of _ rs] exI [of _ rep] exI [of _ mode]) simp
qed

section \<open>A witness\<close>

definition wit_launch :: "seccomp_filter launch_env" where
  "wit_launch = \<lparr>la_linux = wit_linux, la_canonicalize = Inr, la_is_dir = (\<lambda>_. True), la_create_dir = Map.empty,
     la_statfs = Map.empty, la_temp_dir = ''/tmp'', la_pid = 1, la_seq = 1, la_vars = [], la_krn = Map.empty, la_exec = None\<rparr>"

definition wit_run_env :: "(fstore, seccomp_filter) run_env" where
  "wit_run_env = \<lparr>rn_os = LinuxOs, rn_cwd = ''/w'', rn_vars = Map.empty, rn_engine = Inr (\<lambda>_. Allow None), rn_open = Inr empty_store,
     rn_pid = 1, rn_epoch_ms = 0, rn_control_ms = 0, rn_hook_ms = 0, rn_caller = \<lparr>agent = ''unknown-agent'', agent_version = None, user = None, non_human_id = None\<rparr>,
     rn_called_at = from_epoch_ms 0, rn_decided_at = from_epoch_ms 0, rn_finished_at = from_epoch_ms 1,
     rn_approver = fixed_approver DenyOnce,
     rn_fs = \<lparr>hf_is_dir = (\<lambda>_ _. True), hf_is_file = (\<lambda>_ _. True), hf_create_dir = (\<lambda>_. Map.empty),
       hf_create_file = (\<lambda>_ _. FileCreated), hf_parent = Map.empty\<rparr>,
     rn_canonicalize = Some, rn_exe = Inr ''/bin/writ'', rn_temp_dir = ''/tmp'', rn_create_dir = Map.empty, rn_write = Map.empty,
     rn_system_settings = Map.empty, rn_json = (\<lambda>_. Inr JNull), rn_pretty = (\<lambda>_. []), rn_toml = id,
     rn_launch = wit_launch, rn_wait = Inr 0\<rparr>"

definition wit_run_args :: run_args where
  "wit_run_args = \<lparr>ra_policy = ''/w/writ.yaml'', ra_ledger = ''/w/ledger.jsonl'', ra_yolo = False, ra_backend = ''local-os'',
     ra_net = NetNone, ra_allow_write = [], ra_unconfined = False, ra_best_effort = False, ra_no_hooks = False, ra_cmd = [''sh'']\<rparr>"

lemma wit_profile: "profile_for LinuxOs Map.empty ''sh'' = generic_profile"
  by code_simp

lemma wit_setup: "run_setup wit_run_env wit_run_args RequiredRun generic_profile =
    ([], Inr \<lparr>rt_args = [], rt_env = [], rt_profile = \<lparr>rf_workspace = ''/w'', rf_writable = [], rf_protect = [], rf_net = NetNone, rf_mode = RequiredRun\<rparr>,
      rt_control = None\<rparr>)"
  by (simp add: run_setup_def run_grants_def setup_hooks_def generic_profile_def wit_run_env_def wit_run_args_def push_grant_def
      profile_grants_def Let_def)

lemma wit_plan: "plan_launch (la_caps wit_launch) NetNone RequiredRun =
    Inr \<lparr>rp_filesystem = Enforced, rp_network = Enforced, rp_apply_fs = True, rp_apply_net = True, rp_notes = []\<rparr>"
  by (simp add: plan_launch_required la_caps_def wit_launch_def wit_linux_def wit_probe_def linux_capabilities_def)

lemma wit_spawn: "\<exists>pr rep. spawn_interactive wit_launch ''sh'' [] []
    \<lparr>rf_workspace = ''/w'', rf_writable = [], rf_protect = [], rf_net = NetNone, rf_mode = RequiredRun\<rparr> =
      ([CreateDirs (run_temp_name wit_launch), Started pr], Inr (pr, rep))"
proof -
  have "\<exists>pr rep. launch_in wit_launch ''sh'' [] [] \<lparr>rf_workspace = ''/w'', rf_writable = [], rf_protect = [], rf_net = NetNone, rf_mode = RequiredRun\<rparr>
      \<lparr>rp_filesystem = Enforced, rp_network = Enforced, rp_apply_fs = True, rp_apply_net = True, rp_notes = []\<rparr> ''/w'' temp = Inr (pr, rep)" for temp
    by (simp add: launch_in_def wit_launch_def writable_set_def dedup_push_def check_workspace_fs_def interactive_confinement_def
        net_filter_for_def build_interactive_def build_with_def wit_linux_def wit_probe_def build_ruleset_def MAX_ABI_def writable_rule_def
        check_ll_def INTERACTIVE_DEVICES_def INTERACTIVE_DEVICE_DIRS_def device_rule_def device_dir_rule_def build_filter_def
        run_child_def apply_in_child_def Let_def)
  then obtain pr rep where "launch_in wit_launch ''sh'' [] [] \<lparr>rf_workspace = ''/w'', rf_writable = [], rf_protect = [], rf_net = NetNone, rf_mode = RequiredRun\<rparr>
      \<lparr>rp_filesystem = Enforced, rp_network = Enforced, rp_apply_fs = True, rp_apply_net = True, rp_notes = []\<rparr> ''/w'' (run_temp_name wit_launch) = Inr (pr, rep)"
    by blast
  moreover have "la_canonicalize wit_launch = Inr" "la_is_dir wit_launch p" "la_create_dir wit_launch p = None" for p
    by (simp_all add: wit_launch_def)
  ultimately show ?thesis by (simp add: spawn_interactive_def wit_plan canonical_def Let_def)
qed

lemma wit_checks: "run_checks wit_run_env wit_run_args generic_profile = Inr RequiredRun"
  using wit_plan by (simp add: run_checks_def run_mode_of_def wit_run_args_def generic_profile_def preflight_def wit_run_env_def)

lemma wit_run_starts: "\<exists>pr. Started pr \<in> set (ro_boundary (run_agent num_deps (fs_ops num_deps) wit_run_env wit_run_args))"
proof -
  let ?call = "run_call wit_run_env [''sh'']"
  have ff: "float_free (tc_args ?call)" by (simp add: run_call_def)
  obtain s d where h: "handle_call num_deps (fs_ops num_deps) (from_epoch_ms 0) (\<lambda>_. Allow None) (fixed_approver DenyOnce) ?call empty_store = (s, Inr d)"
    using fs.handle_call_returns [OF empty_store_inv [OF serde_laws_num_deps], of ?call "braced (to_nat ?call)"]
      num_deps_total ff by (fastforce simp: fixed_approver_def)
  then have go: "should_dispatch d" using fs.handle_call_ok [OF empty_store_inv [OF serde_laws_num_deps] ff h] by (simp add: may_run_def)
  obtain pr rep where sp: "spawn_interactive wit_launch ''sh'' [] []
    \<lparr>rf_workspace = ''/w'', rf_writable = [], rf_protect = [], rf_net = NetNone, rf_mode = RequiredRun\<rparr> =
      ([CreateDirs (run_temp_name wit_launch), Started pr], Inr (pr, rep))" using wit_spawn by blast
  have e: "rn_os wit_run_env = LinuxOs" "rn_vars wit_run_env = Map.empty" "ra_cmd wit_run_args = [''sh'']" "rn_engine wit_run_env = Inr (\<lambda>_. Allow None)"
    "rn_open wit_run_env = Inr empty_store" "rn_decided_at wit_run_env = from_epoch_ms 0" "rn_approver wit_run_env = fixed_approver DenyOnce"
    "rn_launch wit_run_env = wit_launch" "rn_wait wit_run_env = Inr 0"
    by (simp_all add: wit_run_env_def wit_run_args_def)
  show ?thesis
    by (auto simp: run_agent_def run_decided_def run_launch_def e wit_profile wit_checks h go wit_setup sp Let_def split: prod.splits sum.splits)
qed

theorem run_governed_witness:
  "\<exists>(pr :: seccomp_filter process) (d :: decision_outcome) s rs rep. ro_store (run_agent num_deps (fs_ops num_deps) wit_run_env wit_run_args) = Some s \<and>
     fs_chain num_deps s = do_record d # rs \<and> ro_report (run_agent num_deps (fs_ops num_deps) wit_run_env wit_run_args) = Some rep \<and>
     ir_filesystem rep = Enforced \<and> report_holds wit_libc filter_action wit_launch rep pr"
proof -
  obtain pr where st: "Started pr \<in> set (ro_boundary (run_agent num_deps (fs_ops num_deps) wit_run_env wit_run_args))"
    using wit_run_starts by blast
  have e: "lx_libc (la_linux (rn_launch wit_run_env)) = wit_libc" "lx_compile (la_linux (rn_launch wit_run_env)) = Inr"
    "rn_engine wit_run_env = Inr (\<lambda>_. Allow None)" "rn_open wit_run_env = Inr empty_store" "rn_launch wit_run_env = wit_launch"
    "run_mode_of wit_run_args = Inr RequiredRun"
    by (simp_all add: wit_run_env_def wit_launch_def wit_linux_def wit_run_args_def run_mode_of_def)
  show ?thesis
    using run_governed [OF wit_libc_ok wit_seccomp e(1-4) empty_store_inv [OF serde_laws_num_deps] st] e(5,6)
    by (auto simp: mode_kept_def)
qed

section \<open>Where the command falls short\<close>

text \<open>A Codex override written as one word with an equals sign is not found.\<close>

lemma codex_override_missed: "check_hook_conflicts CodexConfigFlags env [''-c=hooks.PreToolUse=[]''] = Inr ()"
  by (simp add: check_hook_conflicts_def codex_key_def codex_key_conflicts_def strip_prefix_def starts_with_def
      trim_def trim_start_def trim_end_def)

text \<open>
  The files with writ's hooks are in a directory under the temporary directory, which nothing keeps out of
  the writable set: here the workspace is the temporary directory.
\<close>

lemma show_zero: "show_int 0 = ''0''"
  by code_simp

lemma control_dir_writable:
  "path_starts_with (control_dir (wit_run_env\<lparr>rn_cwd := ''/tmp''\<rparr>)) (rn_cwd (wit_run_env\<lparr>rn_cwd := ''/tmp''\<rparr>))"
  by (simp add: control_dir_def wit_run_env_def join_path_def is_absolute_def starts_with_def path_starts_with_def components_def
      show_one show_zero)

end
