(* ===== verification/Spec2Isabelle.thy ===== *)
theory Spec2Isabelle
  imports Policy_Fixtures File_Writers Ledger_Query Receipt_Proofs File_Anchor Replay Mcp_Gate Sse Credentials Approval_Claims
    Hook_Agent_Claims Mcp_Http_Masks Integrate_Claims Console_Claims Http_Server_Claims Docker_Claims Run_Claims
begin

text \<open>
  A verification development for \<open>writ\<close>, a gate between an AI agent and its tools: every tool call
  is intercepted, decided by a policy, possibly put to a human approver, and recorded in a
  tamper-evident ledger before it may run.

  The parts of the program and the theories that model them, in the order of a call's way:

  \<^item> \<open>Writ_Prelude\<close>: results (\<open>Result\<close>, \<open>?\<close>), strings as UTF-8 bytes with the functions of the
    standard library that the sources use, decimal integers.
  \<^item> \<open>Writ_Time\<close> (\<open>writ-core/src/time.rs\<close>): timestamps and RFC 3339.
  \<^item> \<open>Writ_Call\<close> (\<open>call.rs\<close>, \<open>verdict.rs\<close>, \<open>approver.rs\<close>, \<open>error.rs\<close>): the shared data, and what a
    policy sees of a call.
  \<^item> \<open>Policy_Lang\<close> (\<open>writ-policy/src/ast.rs\<close>, \<open>parser.rs\<close>): lexer and parser of \<open>when\<close> expressions.
  \<^item> \<open>Policy_Engine\<close> (\<open>policy_file.rs\<close>, \<open>engine.rs\<close>): compilation, evaluation, hot reload.
  \<^item> \<open>Policy_Fixtures\<close> (\<open>fixtures.rs\<close>): the policy test harness.
  \<^item> \<open>Ledger_Core\<close> (\<open>writ-core/src/ledger.rs\<close>): records, hashes, the writer, chain verification, and
    the contract of a ledger store as the locale \<open>ledger_store\<close>.
  \<^item> \<open>File_Store\<close> (\<open>writ-ledger/src/file_store.rs\<close>): the JSONL store on the bytes of its file; it
    interprets \<open>ledger_store\<close>.
  \<^item> \<open>File_Writers\<close>: the same operations under concurrency and crashes, as a step relation.
  \<^item> \<open>Serde_Example\<close>: an instance of the parameters that stand for libraries.
  \<^item> \<open>Ledger_Query\<close> (\<open>verify.rs\<close>, \<open>query.rs\<close>, \<open>store.rs\<close>): readers of a ledger, store selection.
  \<^item> \<open>Pipeline\<close> (\<open>writ-core/src/pipeline.rs\<close>): the handler of a call, on any store that keeps the
    contract, and read off for the file store.
  \<^item> \<open>Mcp_Rpc\<close> (\<open>writ-mcp/src/jsonrpc.rs\<close>, \<open>transport.rs\<close>): messages, framing, and the contract of a
    transport as the locale \<open>transport\<close>, interpreted by the in-memory and the stream transport.
  \<^item> \<open>Mcp_Proxy\<close> (\<open>proxy.rs\<close>): the interceptor and the stdio proxy; the locale \<open>proxy_ends\<close> relates
    the loop to a specification on message lists, the locale \<open>hook_contract\<close> says what hooks promise.
  \<^item> \<open>Mcp_Gate\<close> (\<open>mcp_interceptor\<close> in \<open>writ-cli/src/cmds.rs\<close>): the hooks that put the pipeline, the
    ledger and redaction behind the proxy; they interpret \<open>hook_contract\<close>.
  \<^item> \<open>Utf8\<close>, \<open>Btree\<close>: texts cut at ASCII characters, ordered maps as sorted lists; used by the next ones.
  \<^item> \<open>Sse\<close> (\<open>writ-mcp/src/http/sse.rs\<close>): server-sent events, written and read in chunks.
  \<^item> \<open>Loopback\<close>, \<open>Mcp_Http\<close> (\<open>writ-mcp/src/http/gateway.rs\<close>): the Streamable HTTP proxy: the guard on hosts,
    origins and tokens, the calls in flight, requests, batches, the rewriting of replies and streams.
  \<^item> \<open>Mcp_Http_Claims\<close>, \<open>Mcp_Http_Masks\<close>: what every request keeps, by the locale \<open>http_kept\<close> that has one
    interpretation for the bound of the table and one for the ledger; redaction over HTTP.
  \<^item> \<open>Credentials\<close> (\<open>credentials.rs\<close>): secrets of the servers, injected as variables or headers.
  \<^item> \<open>Hook_Ref\<close>, \<open>Hook_Gateway\<close>, \<open>Hook_Claude\<close> (\<open>writ-cli/src/hook.rs\<close>): \<open>writ check\<close>, the gateway for
    agents that have hooks, in its own format and in Claude Code's: references to decisions, the
    requests \<open>decide\<close>, \<open>resolve\<close> and \<open>complete\<close>, the hooks before and after a tool.
  \<^item> \<open>Approvals\<close> (\<open>writ-cli/src/ui/approvals.rs\<close>): the queue of asks between \<open>writ check --ask ui\<close> and the
    console: request and decision files, heartbeats, the polling wait.
  \<^item> \<open>Hook_Agents\<close> (\<open>writ-cli/src/hook/agents.rs\<close>): the hooks of Codex, Gemini CLI, Cursor and Windsurf.
  \<^item> \<open>Hook_Safety\<close>, \<open>Hook_Progress\<close>, \<open>Hook_Agent_Progress\<close>, \<open>Hook_Runs\<close>, \<open>Hook_Claims\<close>, \<open>Approval_Claims\<close>,
    \<open>Hook_Agent_Claims\<close>: what each request does to the ledger, on any store of the
    locale \<open>readable_store\<close> (which extends \<open>ledger_store\<close> and is interpreted by the ledger file), runs of
    many processes on one file as a step relation, and the promises of the gateway.
  \<^item> \<open>Http_Server\<close>, \<open>Http_Server_Claims\<close> (\<open>writ-mcp/src/http/server.rs\<close>): the HTTP/1.1 server under the
    proxy, on connections that deliver their bytes in blocks: heads, the framing of bodies by length or
    chunks, responses, the slots that bound the connections.
  \<^item> \<open>Integrate\<close>, \<open>Integrate_Claims\<close> (\<open>writ-cli/src/integrate.rs\<close>): the hooks that \<open>writ integrate\<close> puts into
    the settings of the agents, and their command lines.
  \<^item> \<open>Console_Http\<close> (\<open>writ-cli/src/ui/http.rs\<close>): reading and answering a request of the console, its security
    checks.
  \<^item> \<open>Console_View\<close>, \<open>Console_View_Claims\<close> (\<open>ui/ledger.rs\<close>): the console's view of a ledger, kept up to date by
    tailing its file, against reading it once from the start.
  \<^item> \<open>Console_Policy\<close> (\<open>ui/policy.rs\<close>), \<open>Console\<close> (\<open>ui.rs\<close>), \<open>Console_Claims\<close>: validating, trying and saving the
    policy; the handlers of the console, their routing and state; what a connection can change.
  \<^item> \<open>Sandbox_Plan\<close> (\<open>writ-sandbox/src/enforce.rs\<close>, \<open>platform.rs\<close>, the planning in \<open>interactive.rs\<close>): what a run
    will enforce on a machine, given what its kernel can do, and the report about it.
  \<^item> \<open>Sandbox_Linux\<close> (\<open>linux.rs\<close>): Landlock rules, seccomp filters and what they do to a system call, the calls
    by which a forked child confines itself.  \<open>Unix_Path\<close>: the functions of \<open>std::path\<close> that the sources use.
  \<^item> \<open>Sandbox_Local\<close>, \<open>Sandbox_Claims\<close> (\<open>local_os.rs\<close> on Linux): the \<open>local-os\<close> backend, and what is true of every
    process it starts.
  \<^item> \<open>Sandbox_Docker\<close>, \<open>Docker_Claims\<close> (\<open>writ-sandbox-docker/src/lib.rs\<close>): the docker backend as the list of commands
    that it gives, on a docker command that is any function of the commands before.
  \<^item> \<open>Interactive\<close> (\<open>interactive.rs\<close> on Linux), \<open>Agent_Profiles\<close> (\<open>agents.rs\<close> on Unix), \<open>Run\<close>, \<open>Run_Claims\<close>
    (\<open>writ-cli/src/run.rs\<close>): \<open>writ run\<close>, which decides, prepares and launches an agent at the terminal inside a
    kernel boundary, with writ's hooks passed in.
  \<^item> \<open>Merkle\<close>, \<open>Receipts\<close>, \<open>Receipt_Checks\<close>, \<open>Receipt_Proofs\<close> (\<open>writ-receipts/src/merkle.rs\<close>,
    \<open>receipt.rs\<close>, \<open>ledger.rs\<close>, \<open>proof.rs\<close>): signed checkpoints of a ledger and inclusion proofs.
  \<^item> \<open>File_Anchor\<close> (\<open>file_anchor.rs\<close>): anchoring a receipt in an append-only log.
  \<^item> \<open>Replay\<close> (\<open>writ-replay/src/lib.rs\<close>): re-evaluating a recorded session, guarded branching.

  What the theorems show.  The parser inverts a printer; a compiled policy means what its text
  means, the first matching rule decides, reloads are atomic.  Verification accepts exactly the
  valid chains, and one remembered record hash pins everything before it, given that serialization
  and the digest tell the payloads at hand apart.  However writers, readers and crashes interleave,
  the ledger file is a valid chain followed by at most an unfinished line, no committed record is
  ever lost, and readers never report corruption.  A call is dispatched only after its decision
  record is on that chain, and only if it was allowed, redacted or approved.  The MCP proxy answers
  every request once and in order, forwards a tool call only with its decision in the ledger, and
  shows the agent a redacted result only masked; the HTTP proxy does the same for all requests it
  serves, refuses foreign hosts and origins before anything else, and keeps its table of calls bounded.  The hook gateway tells an agent to go on only after
  the decision of this very call is recorded; whatever processes run, every execution on the ledger
  links to one earlier decision that authorises it, and output under a redacting rule goes back
  masked.  The other agents get their blocking answer, or a recorded decision at least as strict as
  the verdict for every path or URL of the call.  An ask put to the console is approved only by a
  decision file that names its record, and every wait ends; the console writes such a file only on a
  request with its session token, for an ask that is pending on the ledger, and its view is that of the
  ledger file however the file grows.  A policy is saved only if it compiles and replaces the text that
  was edited.  The HTTP server takes from a connection exactly the body that the framing announces,
  within its limit, and no header value breaks out of its line.  Integrating an agent keeps what is not
  writ's, and integrating again changes nothing.A fail-closed sandbox starts nothing outside
  of its boundary, docker containers are created without network and used only by their backend, and \<open>writ run\<close>
  starts an agent only after its launch is decided and recorded, in a boundary of which its report is true.
  A receipt that checks pins every record it covers,
  and an inclusion proof that verifies shows a record of the ledger.  A session replayed against its
  own policy is unchanged.

  Libraries are parameters: \<open>serde_yaml\<close> and \<open>regex\<close> in \<open>policy_deps\<close>; \<open>serde_json\<close>, \<open>sha2\<close> and
  \<open>hex\<close> in \<open>ledger_deps\<close>.  What is assumed of them is stated in the theorems (\<open>serde_laws\<close>,
  \<open>hash_distinguishes\<close>).  The codec of the proxy is \<open>rpc_deps\<close> (\<open>rpc_laws\<close>); signatures, digests and
  hexadecimal of receipts are \<open>receipt_deps\<close> (\<open>sign_laws\<close>, \<open>hex_laws\<close>); pattern replacement is in
  \<open>gate_deps\<close>.  What a request to the hook gateway meets (the clock, the process id, the result of
  opening the store, the answers of the web console) is \<open>hook_env\<close>, its libraries \<open>hook_ctx\<close>; what a
  wait for the console meets is \<open>ui_env\<close>, with the libraries in \<open>ui_deps\<close>; the texts of deserialization
  errors are abbreviated there.  The kernel as a sandbox meets it is \<open>linux_env\<close> (\<open>seccomp_laws\<close> states what
  \<open>seccompiler\<close> documents of its filters, \<open>libc_ok\<close> that the numbers of the three system calls differ and leave
  the x32 bit free); what an operation of a sandbox or a run meets is \<open>prepare_env\<close>, \<open>exec_env\<close>, \<open>launch_env\<close>
  and \<open>run_env\<close>.  \<open>serde_json\<close> is used without exact floats, so what is said about reading a
  record back is said of calls without floating-point arguments (\<open>exact_record\<close>).

  Recursion.  Loops over text are structural or have a length measure; \<open>trim_with\<close> and the lossy
  UTF-8 decoder take the length of their input as fuel, and every step consumes at least one byte.
  The event reader, the request loop of the hook gateway and the HTTP server have measures on the bytes
  left; the handling of a kept connection is a partial function.
  The two loops of the proxy are partial functions, and are proved to return on finite streams; so is
  the wait for the console, proved to return once the clock has passed its deadline.

  Not modelled: the SQLite and Postgres stores (the logic is SQL), accepting sockets and the threads of
  the HTTP proxy and the console (requests are taken one after the other), the HTTP client, Rekor uploads, key
  files, the sandbox mechanisms of Windows and macOS, signals and the detection of backends, the sandbox screen, what
  \<open>writ run\<close> prints, the merge of hooks into the TOML settings of Codex (done by
  \<open>toml_edit\<close>), the terminal interface, the console's pages and the body of its event stream, telemetry, the
  Rego and Cedar adapters; two requests that run at the same time
  within a step (locating a decision and appending to it are two accesses to the file); single failing reads or writes of
  a file, except where the console saves a policy.
\<close>

end
